(* ===== verification/Go_Prelude.thy ===== *)
theory Go_Prelude
  imports Complex_Main "HOL-Library.Word" "HOL-Library.AList" "HOL-Library.Char_ord"
    "HOL-Library.List_Lexorder" "HOL-Library.Multiset"
begin

text \<open>
  The part of Go and of its standard library that every component of ServerMonitor uses:
  64-bit integers with their wrap-around, instants and durations (package \<open>time\<close>), maps with
  an iteration order, and the functions of \<open>strings\<close> and \<open>strconv\<close> that the sources call.
  The lemmas here are the shared vocabulary of the component theories.
\<close>

named_theorems go_time \<open>definitions and rewrite rules of the time model\<close>
named_theorems go_map \<open>rewrite rules for maps with an iteration order\<close>

section \<open>Integers\<close>

text \<open>
  A Go \<open>int\<close> or \<open>int64\<close> is an integer in the range \<open>-2^63 .. 2^63 - 1\<close>; arithmetic
  wraps around. Where a result can leave the range the model writes \<^term>\<open>i64\<close> around it.
\<close>

definition i64 :: "int \<Rightarrow> int" where
  "i64 x = (x + 2 ^ 63) mod 2 ^ 64 - 2 ^ 63"

definition in_i64 :: "int \<Rightarrow> bool" where
  "in_i64 x \<longleftrightarrow> - (2 ^ 63) \<le> x \<and> x < 2 ^ 63"

lemma i64_id [simp]: "in_i64 x \<Longrightarrow> i64 x = x"
  by (simp add: i64_def in_i64_def)

lemma in_i64_i64 [simp]: "in_i64 (i64 x)"
proof -
  have "0 \<le> (x + 2 ^ 63) mod 2 ^ 64" "(x + 2 ^ 63) mod 2 ^ 64 < (2 ^ 64 :: int)"
    by (rule pos_mod_sign, simp) (rule pos_mod_bound, simp)
  then show ?thesis by (simp add: i64_def in_i64_def)
qed

lemma in_i64_small: "\<lbrakk>- 9223372036854775808 \<le> x; x \<le> 9223372036854775807\<rbrakk> \<Longrightarrow> in_i64 x"
  by (simp add: in_i64_def)

text \<open>The wrap-around is that of a two's complement 64-bit word.\<close>

lemma i64_sint: "i64 x = sint (word_of_int x :: 64 word)"
  by (simp add: i64_def sint_sbintrunc' signed_take_bit_eq_take_bit_shift take_bit_eq_mod)

text \<open>Integer division truncates towards zero.\<close>

definition go_div :: "int \<Rightarrow> int \<Rightarrow> int" where
  "go_div a b = sgn a * sgn b * (\<bar>a\<bar> div \<bar>b\<bar>)"

lemma go_div_nonneg [simp]: "\<lbrakk>0 \<le> a; 0 < b\<rbrakk> \<Longrightarrow> go_div a b = a div b"
  by (cases "a = 0") (simp_all add: go_div_def)

section \<open>Floats\<close>

text \<open>The values of a 64-bit float, with its comparisons; finite values are kept exactly.\<close>

datatype f64 = NaN | NegInf | Fin rat | PosInf

fun f64_less :: "f64 \<Rightarrow> f64 \<Rightarrow> bool" where
  "f64_less NaN _ = False"
| "f64_less _ NaN = False"
| "f64_less (Fin x) (Fin y) = (x < y)"
| "f64_less NegInf y = (y \<noteq> NegInf)"
| "f64_less _ NegInf = False"
| "f64_less PosInf _ = False"
| "f64_less (Fin _) PosInf = True"

definition f64_eq :: "f64 \<Rightarrow> f64 \<Rightarrow> bool" where
  "f64_eq a b \<longleftrightarrow> a \<noteq> NaN \<and> a = b"

section \<open>Instants and durations\<close>

text \<open>
  A \<open>time.Time\<close> is the number of nanoseconds since the zero time (1 January of year 1, UTC),
  so \<open>IsZero\<close> is equality with 0 and \<open>Before\<close>/\<open>After\<close> are the order of the integers. The
  range of a \<open>time.Time\<close> is hundreds of billions of years, so instants do not wrap. A
  \<open>time.Duration\<close> is an \<open>int64\<close> of nanoseconds: products of durations wrap around, and
  \<open>Sub\<close> saturates, as the package documents.
\<close>

type_synonym time = int
type_synonym duration = int

definition zero_time :: time where
  "zero_time = 0"

definition time_Sub :: "time \<Rightarrow> time \<Rightarrow> duration" where
  "time_Sub t u = max (- (2 ^ 63)) (min (2 ^ 63 - 1) (t - u))"

definition Second :: duration where "Second = 1000000000"
definition Minute :: duration where "Minute = 60 * Second"
definition Hour :: duration where "Hour = 60 * Minute"

lemmas duration_defs = Second_def Minute_def Hour_def
declare zero_time_def [go_time] time_Sub_def [go_time] duration_defs [go_time]

lemma time_Sub_le [simp]: "time_Sub t u \<le> d \<longleftrightarrow> t - u \<le> d" if "in_i64 d" "d < 2 ^ 63 - 1"
  using that by (auto simp: time_Sub_def in_i64_def)

lemma time_Sub_self [simp]: "time_Sub t t = 0"
  by (simp add: time_Sub_def)

text \<open>\<open>Unix()\<close> of an instant: whole seconds since 1 January 1970, rounded down.\<close>

definition unix_epoch :: time where
  "unix_epoch = 62135596800 * 1000000000"

definition time_Unix :: "time \<Rightarrow> int" where
  "time_Unix t = (t - unix_epoch) div 1000000000"

lemma time_Unix_mono: "t \<le> u \<Longrightarrow> time_Unix t \<le> time_Unix u"
  by (simp add: time_Unix_def zdiv_mono1)

section \<open>Maps with an iteration order\<close>

text \<open>
  A Go map is an association list with distinct keys; the order of the list is the order a
  \<^verbatim>\<open>range\<close> loop visits, which Go leaves open, and the theorems hold for every order.
\<close>

type_synonym ('k, 'v) gomap = "('k \<times> 'v) list"

definition wf_map :: "('k, 'v) gomap \<Rightarrow> bool" where
  "wf_map m \<longleftrightarrow> distinct (map fst m)"

text \<open>Labels of a measurement: a map of strings.\<close>

type_synonym labels = "(string, string) gomap"

abbreviation put :: "'k \<Rightarrow> 'v \<Rightarrow> ('k, 'v) gomap \<Rightarrow> ('k, 'v) gomap" where
  "put \<equiv> AList.update"

abbreviation del :: "'k \<Rightarrow> ('k, 'v) gomap \<Rightarrow> ('k, 'v) gomap" where
  "del \<equiv> AList.delete"

abbreviation get :: "('k, 'v) gomap \<Rightarrow> 'k \<Rightarrow> 'v option" where
  "get \<equiv> map_of"

lemma get_put [simp, go_map]: "get (put k v m) = (get m)(k \<mapsto> v)"
  by (rule update_conv')

lemma get_del [simp, go_map]: "get (del k m) = (get m)(k := None)"
  by (rule delete_conv')

lemma wf_map_Nil [simp]: "wf_map []"
  by (simp add: wf_map_def)

lemma wf_map_put [simp]: "wf_map m \<Longrightarrow> wf_map (put k v m)"
  by (simp add: wf_map_def distinct_update)

lemma wf_map_del [simp]: "wf_map m \<Longrightarrow> wf_map (del k m)"
  by (simp add: wf_map_def distinct_delete)

lemma wf_map_filter [simp]: "wf_map m \<Longrightarrow> wf_map (filter P m)"
  unfolding wf_map_def by (induction m) auto

lemma wf_map_Cons [simp]: "wf_map ((k, v) # m) \<longleftrightarrow> get m k = None \<and> wf_map m"
  by (auto simp: wf_map_def map_of_eq_None_iff)

lemma get_set [go_map]: "wf_map m \<Longrightarrow> (k, v) \<in> set m \<longleftrightarrow> get m k = Some v"
  by (auto simp: wf_map_def)

lemma get_filter [go_map]:
  "wf_map m \<Longrightarrow>
    get (filter P m) k = (case get m k of None \<Rightarrow> None | Some v \<Rightarrow> if P (k, v) then Some v else None)"
proof (induction m)
  case (Cons a m)
  obtain k' v' where a: "a = (k', v')" by (cases a)
  have none: "get (filter P m) k' = None" if "get m k' = None"
    using that by (auto simp: map_of_eq_None_iff)
  from Cons show ?case by (auto simp: a none)
qed simp

lemma dom_get: "dom (get m) = fst ` set m"
  by (rule dom_map_of_conv_image_fst)

lemma get_map_val [simp]:
  "get (map (\<lambda>(k, v). (k, f k v)) m) k = map_option (f k) (get m k)"
  by (induction m) auto

lemma wf_map_map_val [simp]: "wf_map (map (\<lambda>(k, v). (k, f k v)) m) = wf_map m"
proof -
  have "map fst (map (\<lambda>(k, v). (k, f k v)) m) = map fst m" by (induction m) auto
  then show ?thesis by (simp only: wf_map_def)
qed

lemma fold_put_other: "k \<notin> f ` set xs \<Longrightarrow> get (fold (\<lambda>x. put (f x) x) xs m) k = get m k"
  by (induction xs arbitrary: m) auto

lemma fold_put_mem:
  "\<lbrakk>distinct (map f xs); x \<in> set xs\<rbrakk> \<Longrightarrow> get (fold (\<lambda>x. put (f x) x) xs m) (f x) = Some x"
  by (induction xs arbitrary: m) (auto simp: fold_put_other)

lemma wf_fold_put: "wf_map m \<Longrightarrow> wf_map (fold (\<lambda>x. put (f x) (g x)) xs m)"
  by (induction xs arbitrary: m) auto

section \<open>Strings\<close>

text \<open>A Go string is a sequence of bytes, here the characters of a \<^typ>\<open>string\<close>.\<close>

definition is_prefix :: "string \<Rightarrow> string \<Rightarrow> bool" where
  "is_prefix p s \<longleftrightarrow> take (length p) s = p"

definition trim_prefix :: "string \<Rightarrow> string \<Rightarrow> string" where
  "trim_prefix p s = (if is_prefix p s then drop (length p) s else s)"

definition trim_suffix :: "string \<Rightarrow> string \<Rightarrow> string" where
  "trim_suffix p s = rev (trim_prefix (rev p) (rev s))"

text \<open>\<open>strings.Split\<close> with a separator of one byte.\<close>

fun split_on :: "char \<Rightarrow> string \<Rightarrow> string list" where
  "split_on c [] = [[]]"
| "split_on c (x # xs) =
     (if x = c then [] # split_on c xs
      else (case split_on c xs of y # ys \<Rightarrow> (x # y) # ys | [] \<Rightarrow> [[x]]))"

lemma split_on_nonempty [simp]: "split_on c s \<noteq> []"
  by (cases s) (auto split: list.splits)

lemma split_on_no_sep: "c \<notin> set s \<Longrightarrow> split_on c s = [s]"
  by (induction s) auto

lemma split_on_append: "c \<notin> set p \<Longrightarrow> split_on c (p @ c # s) = p # split_on c s"
  by (induction p) auto

lemma split_on_parts: "p \<in> set (split_on c s) \<Longrightarrow> c \<notin> set p"
proof (induction s arbitrary: p)
  case (Cons x xs)
  then show ?case by (cases "split_on c xs") (auto split: if_splits)
qed simp

text \<open>
  The text before the first occurrence of a byte and, if it occurs, the text after it, as
  \<open>strings.IndexByte\<close> followed by two slices computes them.
\<close>

fun cut_at :: "char \<Rightarrow> string \<Rightarrow> string \<times> string option" where
  "cut_at c [] = ([], None)"
| "cut_at c (x # xs) =
     (if x = c then ([], Some xs) else (case cut_at c xs of (a, b) \<Rightarrow> (x # a, b)))"

lemma cut_at_no: "c \<notin> set s \<Longrightarrow> cut_at c s = (s, None)"
  by (induction s) auto

lemma cut_at_append: "c \<notin> set p \<Longrightarrow> cut_at c (p @ c # s) = (p, Some s)"
  by (induction p) auto

lemma cut_at_fst_no: "c \<notin> set (fst (cut_at c s))"
  by (induction s) (auto split: prod.splits)

text \<open>
  \<open>strings.TrimSpace\<close>: the bytes of one leading Unicode space (in UTF-8) are dropped as long as
  there is one, on both sides. \<open>space_len\<close> is the length of the space at the start of the
  text, 0 if there is none; \<open>space_len_rev\<close> reads the reversed text.
\<close>

definition byte :: "char \<Rightarrow> int" where
  "byte c = of_char c"

definition ascii_space :: "int \<Rightarrow> bool" where
  "ascii_space b \<longleftrightarrow> 9 \<le> b \<and> b \<le> 13 \<or> b = 32"

definition space2 :: "int \<Rightarrow> int \<Rightarrow> bool" where
  "space2 a b \<longleftrightarrow> a = 194 \<and> (b = 133 \<or> b = 160)"

definition space3 :: "int \<Rightarrow> int \<Rightarrow> int \<Rightarrow> bool" where
  "space3 a b c \<longleftrightarrow>
     a = 225 \<and> b = 154 \<and> c = 128 \<or>
     a = 226 \<and> b = 128 \<and> (128 \<le> c \<and> c \<le> 138 \<or> c = 168 \<or> c = 169 \<or> c = 175) \<or>
     a = 226 \<and> b = 129 \<and> c = 159 \<or>
     a = 227 \<and> b = 128 \<and> c = 128"

definition space_len :: "string \<Rightarrow> nat" where
  "space_len s = (case map byte (take 3 s) of
     [] \<Rightarrow> 0
   | a # r \<Rightarrow> if ascii_space a then 1 else (case r of
       [] \<Rightarrow> 0
     | b # q \<Rightarrow> if space2 a b then 2 else (case q of
         [] \<Rightarrow> 0
       | c # _ \<Rightarrow> if space3 a b c then 3 else 0)))"

definition space_len_rev :: "string \<Rightarrow> nat" where
  "space_len_rev s = (case map byte (take 3 s) of
     [] \<Rightarrow> 0
   | a # r \<Rightarrow> if ascii_space a then 1 else (case r of
       [] \<Rightarrow> 0
     | b # q \<Rightarrow> if space2 b a then 2 else (case q of
         [] \<Rightarrow> 0
       | c # _ \<Rightarrow> if space3 c b a then 3 else 0)))"

fun trim_by :: "(string \<Rightarrow> nat) \<Rightarrow> string \<Rightarrow> string" where
  "trim_by f [] = []"
| "trim_by f (x # xs) = (if f (x # xs) = 0 then x # xs else trim_by f (drop (f (x # xs) - 1) xs))"

definition trim_space :: "string \<Rightarrow> string" where
  "trim_space s = rev (trim_by space_len_rev (rev (trim_by space_len s)))"

lemma trim_by_stop: "f s = 0 \<Longrightarrow> trim_by f s = s"
  by (cases s) auto

lemma trim_by_idem: "trim_by f (trim_by f s) = trim_by f s"
  by (induction f s rule: trim_by.induct) auto

text \<open>\<open>strconv.Atoi\<close>: an optional sign, decimal digits, and a value that fits an \<open>int64\<close>.\<close>

definition is_digit :: "char \<Rightarrow> bool" where
  "is_digit c \<longleftrightarrow> 48 \<le> byte c \<and> byte c \<le> 57"

fun dec_val :: "int \<Rightarrow> string \<Rightarrow> int" where
  "dec_val acc [] = acc"
| "dec_val acc (c # cs) = dec_val (acc * 10 + (byte c - 48)) cs"

definition atoi_digits :: "bool \<Rightarrow> string \<Rightarrow> int option" where
  "atoi_digits neg ds =
     (if ds = [] \<or> \<not> list_all is_digit ds then None
      else (let n = (if neg then - dec_val 0 ds else dec_val 0 ds)
            in if in_i64 n then Some n else None))"

definition atoi :: "string \<Rightarrow> int option" where
  "atoi s = (case s of
     [] \<Rightarrow> None
   | c # cs \<Rightarrow> if c = CHR ''-'' then atoi_digits True cs
               else if c = CHR ''+'' then atoi_digits False cs
               else atoi_digits False s)"

lemma atoi_Nil [simp]: "atoi [] = None"
  by (simp add: atoi_def)

lemma atoi_range: "atoi s = Some n \<Longrightarrow> in_i64 n"
  by (auto simp: atoi_def atoi_digits_def Let_def split: list.splits if_splits)

text \<open>The decimal text of an integer (\<^verbatim>\<open>%d\<close>).\<close>

function show_pos :: "int \<Rightarrow> string" where
  "show_pos n = (if n < 10 then [char_of (48 + n)] else show_pos (n div 10) @ [char_of (48 + n mod 10)])"
  by pat_completeness auto
termination
  by (relation "measure nat") auto

declare show_pos.simps [simp del]

definition show_int :: "int \<Rightarrow> string" where
  "show_int n = (if n < 0 then CHR ''-'' # show_pos (- n) else show_pos n)"

section \<open>Lists\<close>

lemma sorted_filter_after:
  "sorted xs \<Longrightarrow> dropWhile (\<lambda>x. \<not> c < x) xs = filter (\<lambda>x. c < x) (xs :: 'a::linorder list)"
proof (induction xs)
  case (Cons x xs)
  show ?case
  proof (cases "c < x")
    case True
    with Cons.prems have "\<forall>y\<in>set xs. c < y" by auto
    with True show ?thesis by (simp add: filter_id_conv)
  next
    case False
    with Cons show ?thesis by simp
  qed
qed simp

lemma filter_filter_imp: "(\<And>x. P x \<Longrightarrow> Q x) \<Longrightarrow> filter P (filter Q xs) = filter P xs"
  by (induction xs) auto

lemma sorted_snocI: "\<lbrakk>sorted xs; \<forall>x\<in>set xs. x \<le> y\<rbrakk> \<Longrightarrow> sorted (xs @ [y])"
  for y :: "'a::linorder"
  by (simp add: sorted_append)

lemma length_filter_snoc: "length (filter P (xs @ [x])) = length (filter P xs) + (if P x then 1 else 0)"
  by simp

end
