(* ===== verification/Version.thy ===== *)
theory Version
  imports Go_Prelude
begin

text \<open>
  Package \<open>pkg/version\<close>: the comparison of version texts that decides whether the agent
  installs an offered build. The functions are those of \<open>version.go\<close>, in its order; the two
  loops recurse on the number of segments still to compare. The comparison is proved to be a
  total preorder (locale \<open>three_way\<close>), so that "newer" is a strict weak order.
\<close>

section \<open>The code\<close>

definition splitPrerelease :: "string \<Rightarrow> string \<times> string" where
  "splitPrerelease v0 =
     (let v = trim_prefix ''v'' v0;
          v = fst (cut_at CHR ''+'' v)
      in case cut_at CHR ''-'' v of
           (core, Some pre) \<Rightarrow> (core, pre)
         | (core, None) \<Rightarrow> (v, []))"

definition coreSegment :: "string list \<Rightarrow> nat \<Rightarrow> int" where
  "coreSegment parts i =
     (if length parts \<le> i then 0
      else (case atoi (parts ! i) of None \<Rightarrow> 0 | Some n \<Rightarrow> n))"

fun compareCore_loop :: "string list \<Rightarrow> string list \<Rightarrow> nat \<Rightarrow> nat \<Rightarrow> int" where
  "compareCore_loop ap bp i 0 = 0"
| "compareCore_loop ap bp i (Suc k) =
     (let ai = coreSegment ap i; bi = coreSegment bp i
      in if ai \<noteq> bi then (if ai < bi then -1 else 1)
         else compareCore_loop ap bp (Suc i) k)"

definition compareCore :: "string \<Rightarrow> string \<Rightarrow> int" where
  "compareCore a b =
     (let ap = split_on CHR ''.'' a; bp = split_on CHR ''.'' b;
          n = (if length ap < length bp then length bp else length ap)
      in compareCore_loop ap bp 0 n)"

text \<open>The loop body of \<open>comparePrerelease\<close>: \<open>Some\<close> is a return from inside the loop.\<close>

definition preSegment :: "string \<Rightarrow> string \<Rightarrow> int option" where
  "preSegment x y =
     (case (atoi x, atoi y) of
        (Some ai, Some bi) \<Rightarrow> if ai \<noteq> bi then (if ai < bi then Some (-1) else Some 1) else None
      | (Some _, None) \<Rightarrow> Some (-1)
      | (None, Some _) \<Rightarrow> Some 1
      | (None, None) \<Rightarrow> if x \<noteq> y then (if x < y then Some (-1) else Some 1) else None)"

fun comparePrerelease_loop :: "string list \<Rightarrow> string list \<Rightarrow> nat \<Rightarrow> nat \<Rightarrow> int" where
  "comparePrerelease_loop ap bp i 0 =
     (if length ap < length bp then -1 else if length bp < length ap then 1 else 0)"
| "comparePrerelease_loop ap bp i (Suc k) =
     (case preSegment (ap ! i) (bp ! i) of
        Some r \<Rightarrow> r
      | None \<Rightarrow> comparePrerelease_loop ap bp (Suc i) k)"

definition comparePrerelease :: "string \<Rightarrow> string \<Rightarrow> int" where
  "comparePrerelease a b =
     (if a = b then 0
      else if a = [] then 1
      else if b = [] then -1
      else (let ap = split_on CHR ''.'' a; bp = split_on CHR ''.'' b;
                n = (if length bp < length ap then length bp else length ap)
            in comparePrerelease_loop ap bp 0 n))"

definition compare :: "string \<Rightarrow> string \<Rightarrow> int" where
  "compare a b =
     (case (splitPrerelease a, splitPrerelease b) of
        ((aCore, aPre), (bCore, bPre)) \<Rightarrow>
          (let c = compareCore aCore bCore
           in if c \<noteq> 0 then c else comparePrerelease aPre bPre))"

definition IsNewer :: "string \<Rightarrow> string \<Rightarrow> bool" where
  "IsNewer a b \<longleftrightarrow> 0 < compare a b"

section \<open>Three-way comparisons\<close>

text \<open>
  The contract of a three-way comparison: swapping the arguments flips the sign, and "at most"
  is transitive. Everything a client of the comparison needs follows.
\<close>

locale three_way =
  fixes cmp :: "'a \<Rightarrow> 'a \<Rightarrow> int"
  assumes flip: "cmp b a = - cmp a b"
    and le_trans: "cmp a b \<le> 0 \<Longrightarrow> cmp b c \<le> 0 \<Longrightarrow> cmp a c \<le> 0"
begin

lemma cmp_refl: "cmp a a = 0"
  using flip [of a a] by simp

lemma newer_asym: "0 < cmp a b \<Longrightarrow> \<not> 0 < cmp b a"
  using flip [of b a] by simp

lemma newer_le_trans: "0 < cmp a b \<Longrightarrow> cmp c b \<le> 0 \<Longrightarrow> 0 < cmp a c"
  using flip [of a b] flip [of a c] flip [of c b] le_trans [of a c b] by force

lemma le_newer_trans: "cmp b a \<le> 0 \<Longrightarrow> 0 < cmp b c \<Longrightarrow> 0 < cmp a c"
  using flip [of a c] flip [of b c] flip [of b a] le_trans [of b a c] by force

lemma newer_trans: "0 < cmp a b \<Longrightarrow> 0 < cmp b c \<Longrightarrow> 0 < cmp a c"
  using newer_le_trans flip [of b c] by force

lemma newer_split: "0 < cmp a c \<Longrightarrow> 0 < cmp a b \<or> 0 < cmp b c"
  using newer_le_trans [of a c b] flip [of b c] by force

lemma eq_le_cong: "cmp a b = 0 \<Longrightarrow> (cmp a c \<le> 0) = (cmp b c \<le> 0)"
  using le_trans [of a b c] le_trans [of b a c] flip [of a b] by force

end

text \<open>Comparing by a first and, where that ties, by a second comparison.\<close>

lemma three_way_then:
  assumes "three_way f" "three_way g"
  shows "three_way (\<lambda>(a, x) (b, y). if f a b \<noteq> 0 then f a b else g x y)"
proof
  fix p q :: "'a \<times> 'b"
  show "(case q of (a, x) \<Rightarrow> \<lambda>(b, y). if f a b \<noteq> 0 then f a b else g x y) p =
        - (case p of (a, x) \<Rightarrow> \<lambda>(b, y). if f a b \<noteq> 0 then f a b else g x y) q"
    using three_way.flip [OF assms(1), of "fst q" "fst p"] three_way.flip [OF assms(2), of "snd q" "snd p"]
    by (simp add: case_prod_beta)
next
  fix p q r :: "'a \<times> 'b"
  assume pq: "(case p of (a, x) \<Rightarrow> \<lambda>(b, y). if f a b \<noteq> 0 then f a b else g x y) q \<le> 0"
    and qr: "(case q of (a, x) \<Rightarrow> \<lambda>(b, y). if f a b \<noteq> 0 then f a b else g x y) r \<le> 0"
  obtain a x where p: "p = (a, x)" by (cases p)
  obtain b y where q: "q = (b, y)" by (cases q)
  obtain c z where r: "r = (c, z)" by (cases r)
  from pq qr have "f a b \<le> 0" "f b c \<le> 0" by (auto simp: p q r split: if_splits)
  then have ac: "f a c \<le> 0" by (rule three_way.le_trans [OF assms(1)])
  have "g x z \<le> 0" if "f a c = 0"
  proof -
    have "f c a \<le> 0" using that three_way.flip [OF assms(1), of c a] by simp
    then have "f b a \<le> 0" "f c b \<le> 0"
      using \<open>f a b \<le> 0\<close> \<open>f b c \<le> 0\<close> three_way.le_trans [OF assms(1)] by blast+
    then have "f a b = 0" "f b c = 0"
      using \<open>f a b \<le> 0\<close> \<open>f b c \<le> 0\<close> three_way.flip [OF assms(1), of a b]
        three_way.flip [OF assms(1), of b c] by auto
    with pq qr show ?thesis
      using three_way.le_trans [OF assms(2), of x y z] by (simp add: p q r)
  qed
  with ac show "(case p of (a, x) \<Rightarrow> \<lambda>(b, y). if f a b \<noteq> 0 then f a b else g x y) r \<le> 0"
    by (simp add: p r)
qed

section \<open>The core versions\<close>

lemma compareCore_loop_flip:
  "compareCore_loop bp ap i k = - compareCore_loop ap bp i k"
  by (induction ap bp i k rule: compareCore_loop.induct) (auto simp: Let_def)

lemma compareCore_loop_trans:
  "\<lbrakk>compareCore_loop ap bp i k \<le> 0; compareCore_loop bp cp i k \<le> 0\<rbrakk>
    \<Longrightarrow> compareCore_loop ap cp i k \<le> 0"
  by (induction k arbitrary: i) (auto simp: Let_def split: if_splits)

lemma compareCore_loop_beyond:
  "\<lbrakk>length ap \<le> i; length bp \<le> i\<rbrakk> \<Longrightarrow> compareCore_loop ap bp i k = 0"
  by (induction k arbitrary: i) (auto simp: coreSegment_def)

lemma compareCore_loop_extend:
  "\<lbrakk>length ap \<le> i + k; length bp \<le> i + k; k \<le> m\<rbrakk>
    \<Longrightarrow> compareCore_loop ap bp i m = compareCore_loop ap bp i k"
proof (induction k arbitrary: i m)
  case 0
  then show ?case by (simp add: compareCore_loop_beyond)
next
  case (Suc k)
  then obtain m' where "m = Suc m'" "k \<le> m'" by (cases m) auto
  with Suc.prems Suc.IH [of "Suc i" m'] show ?case by (simp add: Let_def)
qed

lemma compareCore_extend:
  "\<lbrakk>length (split_on CHR ''.'' a) \<le> m; length (split_on CHR ''.'' b) \<le> m\<rbrakk>
    \<Longrightarrow> compareCore a b = compareCore_loop (split_on CHR ''.'' a) (split_on CHR ''.'' b) 0 m"
  unfolding compareCore_def Let_def
  by (rule compareCore_loop_extend [symmetric]) auto

interpretation core: three_way compareCore
proof
  fix a b
  let ?m = "max (length (split_on CHR ''.'' a)) (length (split_on CHR ''.'' b))"
  have "compareCore a b = compareCore_loop (split_on CHR ''.'' a) (split_on CHR ''.'' b) 0 ?m"
    by (rule compareCore_extend) auto
  moreover have "compareCore b a = compareCore_loop (split_on CHR ''.'' b) (split_on CHR ''.'' a) 0 ?m"
    by (rule compareCore_extend) auto
  ultimately show "compareCore b a = - compareCore a b"
    by (simp only: compareCore_loop_flip [of "split_on CHR ''.'' b" "split_on CHR ''.'' a"])
next
  fix a b c
  define m where "m = Max {length (split_on CHR ''.'' a), length (split_on CHR ''.'' b), length (split_on CHR ''.'' c)}"
  have le: "length (split_on CHR ''.'' a) \<le> m" "length (split_on CHR ''.'' b) \<le> m"
      "length (split_on CHR ''.'' c) \<le> m"
    by (simp_all add: m_def)
  assume "compareCore a b \<le> 0" "compareCore b c \<le> 0"
  then show "compareCore a c \<le> 0"
    using compareCore_loop_trans le by (simp add: compareCore_extend [of _ m])
qed

section \<open>The prerelease parts\<close>

text \<open>
  A segment is a number or a word; numbers come before words. \<open>lexPre\<close> is the same comparison
  by recursion on the two lists of segments.
\<close>

definition segCmp :: "string \<Rightarrow> string \<Rightarrow> int" where
  "segCmp x y = (case preSegment x y of None \<Rightarrow> 0 | Some r \<Rightarrow> r)"

fun lexPre :: "string list \<Rightarrow> string list \<Rightarrow> int" where
  "lexPre [] [] = 0"
| "lexPre [] (_ # _) = -1"
| "lexPre (_ # _) [] = 1"
| "lexPre (x # xs) (y # ys) = (if segCmp x y \<noteq> 0 then segCmp x y else lexPre xs ys)"

lemma preSegment_None: "preSegment x y = None \<longleftrightarrow> segCmp x y = 0"
  by (auto simp: segCmp_def preSegment_def split: option.splits if_splits)

lemma comparePrerelease_loop_lexPre:
  "\<lbrakk>k = min (length ap) (length bp) - i; i \<le> min (length ap) (length bp)\<rbrakk>
    \<Longrightarrow> comparePrerelease_loop ap bp i k = lexPre (drop i ap) (drop i bp)"
proof (induction ap bp i k rule: comparePrerelease_loop.induct)
  case (1 ap bp i)
  then have "i = length ap \<or> i = length bp" "i \<le> length ap" "i \<le> length bp" by auto
  then show ?case
    by (cases "drop i ap"; cases "drop i bp") auto
next
  case (2 ap bp i k)
  then have i: "i < length ap" "i < length bp" by auto
  then have d: "drop i ap = ap ! i # drop (Suc i) ap" "drop i bp = bp ! i # drop (Suc i) bp"
    by (simp_all add: Cons_nth_drop_Suc)
  show ?case
  proof (cases "preSegment (ap ! i) (bp ! i)")
    case None
    moreover have "comparePrerelease_loop ap bp (Suc i) k = lexPre (drop (Suc i) ap) (drop (Suc i) bp)"
      by (rule 2(1)) (use 2(2) None i in auto)
    ultimately show ?thesis using preSegment_None [of "ap ! i" "bp ! i"] by (simp add: d)
  next
    case (Some r)
    moreover from this have "segCmp (ap ! i) (bp ! i) \<noteq> 0"
      using preSegment_None [of "ap ! i" "bp ! i"] by simp
    ultimately show ?thesis by (simp add: d segCmp_def)
  qed
qed

interpretation seg: three_way segCmp
proof
  show "segCmp y x = - segCmp x y" for x y
    by (auto simp: segCmp_def preSegment_def split: option.splits)
  show "segCmp x y \<le> 0 \<Longrightarrow> segCmp y z \<le> 0 \<Longrightarrow> segCmp x z \<le> 0" for x y z
    by (auto simp: segCmp_def preSegment_def split: option.splits if_splits)
qed

lemma lexPre_trans: "\<lbrakk>lexPre xs ys \<le> 0; lexPre ys zs \<le> 0\<rbrakk> \<Longrightarrow> lexPre xs zs \<le> 0"
proof (induction xs ys arbitrary: zs rule: lexPre.induct)
  case (4 x xs y ys)
  from "4.prems"(2) obtain z zs' where zs: "zs = z # zs'" by (cases zs) auto
  have xy: "segCmp x y \<le> 0" and yz: "segCmp y z \<le> 0"
    using "4.prems" by (auto simp: zs split: if_splits)
  then have xz: "segCmp x z \<le> 0" by (rule seg.le_trans)
  have "lexPre xs zs' \<le> 0" if "segCmp x z = 0"
  proof -
    have "segCmp z x \<le> 0" using that seg.flip [of z x] by simp
    then have "segCmp y x \<le> 0" "segCmp z y \<le> 0" using xy yz seg.le_trans by blast+
    then have "segCmp x y = 0" "segCmp y z = 0"
      using xy yz seg.flip [of x y] seg.flip [of y z] by auto
    with 4 show ?thesis by (simp add: zs)
  qed
  with xz show ?case by (simp add: zs)
next
  case (1 zs)
  then show ?case by simp
next
  case (2 y ys)
  then show ?case by (cases zs) auto
qed auto

interpretation lex: three_way lexPre
proof
  show "lexPre ys xs = - lexPre xs ys" for xs ys
  proof (induction xs ys rule: lexPre.induct)
    case (4 x xs y ys)
    then show ?case using seg.flip [of x y] by simp
  qed auto
qed (rule lexPre_trans)

text \<open>The whole of \<open>comparePrerelease\<close>: the empty prerelease, a release, is the greatest.\<close>

lemma comparePrerelease_eq:
  "comparePrerelease a b =
     (if a = [] then (if b = [] then 0 else 1) else if b = [] then -1
      else lexPre (split_on CHR ''.'' a) (split_on CHR ''.'' b))"
proof (cases "a = [] \<or> b = [] \<or> a = b")
  case True
  then show ?thesis by (auto simp: comparePrerelease_def lex.cmp_refl)
next
  case False
  then show ?thesis
    by (simp add: comparePrerelease_def Let_def comparePrerelease_loop_lexPre min_def)
qed

interpretation pre: three_way comparePrerelease
proof
  show "comparePrerelease b a = - comparePrerelease a b" for a b
    using lex.flip [of "split_on CHR ''.'' b" "split_on CHR ''.'' a"] by (simp add: comparePrerelease_eq)
  show "comparePrerelease a b \<le> 0 \<Longrightarrow> comparePrerelease b c \<le> 0 \<Longrightarrow> comparePrerelease a c \<le> 0" for a b c
    by (auto simp: comparePrerelease_eq split: if_splits intro: lex.le_trans)
qed

lemma compare_eq_then:
  "compare a b = (\<lambda>(a, x) (b, y). if compareCore a b \<noteq> 0 then compareCore a b else comparePrerelease x y)
     (splitPrerelease a) (splitPrerelease b)"
  by (simp add: compare_def Let_def split: prod.splits)

lemmas three_way_core_pre = three_way_then [OF core.three_way_axioms pre.three_way_axioms]

interpretation ver: three_way compare
  unfolding compare_eq_then [abs_def]
  using three_way.flip [OF three_way_core_pre] three_way.le_trans [OF three_way_core_pre]
  by unfold_locales blast+

section \<open>Properties\<close>

text \<open>
  "Newer" is a strict weak order on version texts: no version is newer than itself, of two
  versions at most one is newer, newness is transitive, and a version newer than another is
  newer than, or older than, any third one in between. An agent that follows it never
  alternates between two builds.
\<close>

lemma IsNewer_strict_weak_order:
  "\<not> IsNewer a a \<and>
   (IsNewer a b \<longrightarrow> \<not> IsNewer b a) \<and>
   (IsNewer a b \<and> IsNewer b c \<longrightarrow> IsNewer a c) \<and>
   (IsNewer a c \<longrightarrow> IsNewer a b \<or> IsNewer b c)"
proof (intro conjI impI)
  show "\<not> IsNewer a a" by (simp add: IsNewer_def ver.cmp_refl)
  show "\<not> IsNewer b a" if "IsNewer a b"
    using ver.newer_asym that unfolding IsNewer_def .
  show "IsNewer a c" if "IsNewer a b \<and> IsNewer b c"
    using ver.newer_trans that unfolding IsNewer_def by blast
  show "IsNewer a b \<or> IsNewer b c" if "IsNewer a c"
    using ver.newer_split that unfolding IsNewer_def .
qed

text \<open>
  A release is newer than each of its prereleases, and build metadata (the text after a
  plus sign) never matters, on either side.
\<close>

lemma release_newer_than_prerelease:
  assumes "CHR ''+'' \<notin> set core" "CHR ''-'' \<notin> set core" "core = [] \<or> hd core \<noteq> CHR ''v''"
    and "CHR ''+'' \<notin> set pre" "pre \<noteq> []"
  shows "IsNewer core (core @ CHR ''-'' # pre) \<and>
         compare (core @ CHR ''+'' # meta) w = compare core w \<and>
         compare w (core @ CHR ''+'' # meta) = compare w core"
proof -
  have tp: "trim_prefix ''v'' (core @ x) = core @ x" if "x = [] \<or> hd x \<noteq> CHR ''v''" for x
    using that assms(3) by (cases core; cases x) (auto simp: trim_prefix_def is_prefix_def)
  have s1: "splitPrerelease core = (core, [])"
    using tp [of "[]"] assms(1,2) by (simp add: splitPrerelease_def Let_def cut_at_no)
  have s2: "splitPrerelease (core @ CHR ''-'' # pre) = (core, pre)"
    using tp [of "CHR ''-'' # pre"] assms(1,2,4)
    by (simp add: splitPrerelease_def Let_def cut_at_no cut_at_append)
  have s3: "splitPrerelease (core @ CHR ''+'' # meta) = (core, [])"
    using tp [of "CHR ''+'' # meta"] assms(1,2)
    by (simp add: splitPrerelease_def Let_def cut_at_no cut_at_append)
  show ?thesis
    using assms(5) by (simp add: IsNewer_def compare_def s1 s2 s3 core.cmp_refl comparePrerelease_eq)
qed

end
