(* ===== verification/Netip.thy ===== *)
theory Netip
  imports Go_Prelude
begin

unbundle bit_operations_syntax

text \<open>
  The part of the standard library's \<open>net/netip\<close> that the IP-ban components use: addresses,
  CIDR prefixes, their parsers and printers. An address is the zero \<open>Addr\<close>, an IPv4 address
  or an IPv6 address with a zone (the empty text for none); a prefix carries the number of its
  bits, or -1 when it is not valid.
\<close>

section \<open>Addresses\<close>

datatype addr = Addr0 | A4 "32 word" | A6 "128 word" string

fun IsValid :: "addr \<Rightarrow> bool" where
  "IsValid Addr0 = False"
| "IsValid _ = True"

fun Is4 :: "addr \<Rightarrow> bool" where
  "Is4 (A4 _) = True"
| "Is4 _ = False"

fun Is6 :: "addr \<Rightarrow> bool" where
  "Is6 (A6 _ _) = True"
| "Is6 _ = False"

fun Is4In6 :: "addr \<Rightarrow> bool" where
  "Is4In6 (A6 w _) = (drop_bit 32 w = 0xFFFF)"
| "Is4In6 _ = False"

fun Unmap :: "addr \<Rightarrow> addr" where
  "Unmap (A6 w z) = (if Is4In6 (A6 w z) then A4 (ucast w) else A6 w z)"
| "Unmap a = a"

fun BitLen :: "addr \<Rightarrow> int" where
  "BitLen Addr0 = 0"
| "BitLen (A4 _) = 32"
| "BitLen (A6 _ _) = 128"

fun has_zone :: "addr \<Rightarrow> bool" where
  "has_zone (A6 _ z) = (z \<noteq> [])"
| "has_zone _ = False"

fun without_zone :: "addr \<Rightarrow> addr" where
  "without_zone (A6 w _) = A6 w []"
| "without_zone a = a"

lemma Unmap_idem [simp]: "Unmap (Unmap a) = Unmap a"
  by (cases a) auto

lemma IsValid_Unmap [simp]: "IsValid (Unmap a) = IsValid a"
  by (cases a) auto

lemma Is4In6_Unmap [simp]: "\<not> Is4In6 (Unmap a)"
  by (cases a) auto

lemma has_zone_Unmap: "has_zone (Unmap a) \<Longrightarrow> has_zone a"
  by (cases a) (auto split: if_splits)

lemma Is4_A4: "Is4 a \<longleftrightarrow> (\<exists>w. a = A4 w)"
  by (cases a) auto

text \<open>The classification predicates of \<open>netip.Addr\<close>, with the bytes and groups they read.\<close>

definition v4byte0 :: "32 word \<Rightarrow> 32 word" where
  "v4byte0 w = drop_bit 24 w"

definition v6u16_0 :: "128 word \<Rightarrow> 128 word" where
  "v6u16_0 w = drop_bit 112 w"

fun IsLoopback :: "addr \<Rightarrow> bool" where
  "IsLoopback (A4 w) = (v4byte0 w = 127)"
| "IsLoopback (A6 w z) =
     (if Is4In6 (A6 w z) then v4byte0 (ucast w) = 127 else w = 1)"
| "IsLoopback Addr0 = False"

definition IsUnspecified :: "addr \<Rightarrow> bool" where
  "IsUnspecified a \<longleftrightarrow> a = A4 0 \<or> a = A6 0 []"

fun IsMulticast :: "addr \<Rightarrow> bool" where
  "IsMulticast (A4 w) = (v4byte0 w AND 0xF0 = 0xE0)"
| "IsMulticast (A6 w z) =
     (if Is4In6 (A6 w z) then v4byte0 (ucast w) AND 0xF0 = 0xE0 else drop_bit 120 w = 0xFF)"
| "IsMulticast Addr0 = False"

fun IsLinkLocalUnicast :: "addr \<Rightarrow> bool" where
  "IsLinkLocalUnicast (A4 w) = (drop_bit 16 w = 0xA9FE)"
| "IsLinkLocalUnicast (A6 w z) =
     (if Is4In6 (A6 w z) then drop_bit 16 (ucast w :: 32 word) = 0xA9FE
      else v6u16_0 w AND 0xFFC0 = 0xFE80)"
| "IsLinkLocalUnicast Addr0 = False"

fun IsLinkLocalMulticast :: "addr \<Rightarrow> bool" where
  "IsLinkLocalMulticast (A4 w) = (drop_bit 8 w = 0xE00000)"
| "IsLinkLocalMulticast (A6 w z) =
     (if Is4In6 (A6 w z) then drop_bit 8 (ucast w :: 32 word) = 0xE00000
      else v6u16_0 w AND 0xFF0F = 0xFF02)"
| "IsLinkLocalMulticast Addr0 = False"

fun IsInterfaceLocalMulticast :: "addr \<Rightarrow> bool" where
  "IsInterfaceLocalMulticast (A6 w z) = (\<not> Is4In6 (A6 w z) \<and> v6u16_0 w AND 0xFF0F = 0xFF01)"
| "IsInterfaceLocalMulticast _ = False"

section \<open>Prefixes\<close>

datatype pfx = Pfx (pfx_addr: addr) (pfx_bits: int)

definition PrefixFrom :: "addr \<Rightarrow> int \<Rightarrow> pfx" where
  "PrefixFrom ip bits =
     Pfx (without_zone ip) (if IsValid ip \<and> 0 \<le> bits \<and> bits \<le> BitLen ip then bits else -1)"

fun mask_addr :: "addr \<Rightarrow> nat \<Rightarrow> addr" where
  "mask_addr (A4 w) b = A4 (push_bit (32 - b) (drop_bit (32 - b) w))"
| "mask_addr (A6 w z) b = A6 (push_bit (128 - b) (drop_bit (128 - b) w)) []"
| "mask_addr Addr0 b = Addr0"

definition Masked :: "pfx \<Rightarrow> pfx" where
  "Masked p =
     (if pfx_bits p < 0 \<or> \<not> IsValid (pfx_addr p) \<or> BitLen (pfx_addr p) < pfx_bits p then Pfx Addr0 (-1)
      else Pfx (mask_addr (pfx_addr p) (nat (pfx_bits p))) (pfx_bits p))"

fun same_prefix :: "nat \<Rightarrow> addr \<Rightarrow> addr \<Rightarrow> bool" where
  "same_prefix b (A4 u) (A4 w) = (drop_bit (32 - b) (w XOR u) = 0)"
| "same_prefix b (A6 u _) (A6 w _) = (drop_bit (128 - b) (w XOR u) = 0)"
| "same_prefix b _ _ = False"

definition Contains :: "pfx \<Rightarrow> addr \<Rightarrow> bool" where
  "Contains p ip \<longleftrightarrow>
     0 \<le> pfx_bits p \<and> \<not> has_zone ip \<and> same_prefix (nat (pfx_bits p)) (pfx_addr p) ip"

lemma xor_eq_0_iff_word: "(a XOR b = 0) = (a = b)" for a b :: "'a::len word"
proof
  assume "a XOR b = 0"
  then have "bit (a XOR b) n = False" for n by simp
  then show "a = b" by (intro bit_eqI) (simp add: bit_simps)
qed simp

lemma drop_bit_xor_0: "drop_bit n (a XOR b) = 0 \<longleftrightarrow> drop_bit n a = drop_bit n b"
  for a b :: "'a::len word"
  by (simp only: drop_bit_xor xor_eq_0_iff_word)

lemma Contains_A4:
  "Contains (Pfx (A4 u) b) (A4 w) \<longleftrightarrow> 0 \<le> b \<and> drop_bit (32 - nat b) w = drop_bit (32 - nat b) u"
  by (simp add: Contains_def drop_bit_xor_0 del: drop_bit_xor)

lemma Contains_A6:
  "Contains (Pfx (A6 u y) b) (A6 w z) \<longleftrightarrow>
     0 \<le> b \<and> z = [] \<and> drop_bit (128 - nat b) w = drop_bit (128 - nat b) u"
  by (simp add: Contains_def drop_bit_xor_0 del: drop_bit_xor)

lemma Contains_mixed [simp]:
  "\<not> Contains (Pfx (A4 u) b) (A6 w z)" "\<not> Contains (Pfx (A6 u' y) b) (A4 w')"
  "\<not> Contains (Pfx Addr0 b) a" "\<not> Contains p Addr0"
  by (cases p; cases "pfx_addr p"; simp add: Contains_def)+

lemmas Contains_iff = Contains_A4 Contains_A6

lemma drop_push_drop: "drop_bit n (push_bit n (drop_bit n w)) = drop_bit n w" for w :: "'a::len word"
  by (rule bit_word_eqI) (auto simp: bit_simps dest: bit_imp_le_length)

text \<open>Clearing the host bits of a prefix does not change which addresses it contains.\<close>

lemma Contains_Masked [simp]:
  assumes "pfx_bits p \<le> BitLen (pfx_addr p)"
  shows "Contains (Masked p) ip = Contains p ip"
proof (cases p)
  case (Pfx a b)
  show ?thesis
  proof (cases "b < 0")
    case True
    then show ?thesis by (simp add: Pfx Contains_def Masked_def)
  next
    case False
    then show ?thesis
      using assms by (cases a; cases ip) (simp_all add: Pfx Masked_def Contains_iff drop_push_drop)
  qed
qed

lemma Contains_host: "IsValid a \<Longrightarrow> Contains (PrefixFrom a (BitLen a)) ip \<longleftrightarrow> without_zone a = ip"
  by (cases a; cases ip) (auto simp: PrefixFrom_def Contains_iff)

section \<open>Parsing\<close>

fun v4_loop :: "string \<Rightarrow> bool \<Rightarrow> bool \<Rightarrow> int \<Rightarrow> nat \<Rightarrow> int list \<Rightarrow> int list option" where
  "v4_loop [] first prevdot val digLen acc = (if length acc < 3 then None else Some (acc @ [val]))"
| "v4_loop (c # cs) first prevdot val digLen acc =
     (if is_digit c then
        (if digLen = 1 \<and> val = 0 then None
         else if 255 < val * 10 + (byte c - 48) then None
         else v4_loop cs False False (val * 10 + (byte c - 48)) (Suc digLen) acc)
      else if c = CHR ''.'' then
        (if first \<or> cs = [] \<or> prevdot then None
         else if length acc = 3 then None
         else v4_loop cs False True 0 0 (acc @ [val]))
      else None)"

definition parseIPv4Fields :: "string \<Rightarrow> int list option" where
  "parseIPv4Fields s = v4_loop s True False 0 0 []"

definition bytes_val :: "int list \<Rightarrow> int" where
  "bytes_val bs = foldl (\<lambda>a b. a * 256 + b) 0 bs"

definition hex_digit :: "char \<Rightarrow> int option" where
  "hex_digit c =
     (let b = byte c in
      if 48 \<le> b \<and> b \<le> 57 then Some (b - 48)
      else if 97 \<le> b \<and> b \<le> 102 then Some (b - 87)
      else if 65 \<le> b \<and> b \<le> 70 then Some (b - 55)
      else None)"

fun hex_loop :: "string \<Rightarrow> nat \<Rightarrow> int \<Rightarrow> (int \<times> nat \<times> string) option" where
  "hex_loop [] off acc = Some (acc, off, [])"
| "hex_loop (c # cs) off acc =
     (case hex_digit c of
        None \<Rightarrow> Some (acc, off, c # cs)
      | Some d \<Rightarrow> if 3 < off then None else hex_loop cs (Suc off) (acc * 16 + d))"

text \<open>
  The loop over the 16-bit groups: the first argument counts the groups that still fit; \<open>ell\<close>
  is the position of the ellipsis, \<open>bs\<close> the bytes so far.
\<close>

fun v6_loop :: "nat \<Rightarrow> string \<Rightarrow> nat option \<Rightarrow> int list \<Rightarrow> (string \<times> nat option \<times> int list) option" where
  "v6_loop 0 s ell bs = Some (s, ell, bs)"
| "v6_loop (Suc k) s ell bs =
     (case hex_loop s 0 0 of
        None \<Rightarrow> None
      | Some (acc, off, rest) \<Rightarrow>
          if off = 0 then None
          else if rest \<noteq> [] \<and> hd rest = CHR ''.'' then
            (if ell = None \<and> length bs \<noteq> 12 then None
             else if 16 < length bs + 4 then None
             else (case parseIPv4Fields s of None \<Rightarrow> None | Some fs \<Rightarrow> Some ([], ell, bs @ fs)))
          else (let bs' = bs @ [acc div 256, acc mod 256] in
            case rest of
              [] \<Rightarrow> Some ([], ell, bs')
            | c # r1 \<Rightarrow>
                if c \<noteq> CHR '':'' then None
                else (case r1 of
                        [] \<Rightarrow> None
                      | c2 # r2 \<Rightarrow>
                          if c2 = CHR '':'' then
                            (if ell \<noteq> None then None
                             else if r2 = [] then Some ([], Some (length bs'), bs')
                             else v6_loop k r2 (Some (length bs')) bs')
                          else v6_loop k r1 ell bs')))"

definition v6_finish :: "string \<times> nat option \<times> int list \<Rightarrow> int list option" where
  "v6_finish r =
     (case r of (s, ell, bs) \<Rightarrow>
        if s \<noteq> [] then None
        else if length bs < 16 then
          (case ell of
             None \<Rightarrow> None
           | Some e \<Rightarrow> Some (take e bs @ replicate (16 - length bs) 0 @ drop e bs))
        else if ell \<noteq> None then None
        else Some bs)"

definition parseIPv6 :: "string \<Rightarrow> addr option" where
  "parseIPv6 input =
     (case cut_at CHR ''%'' input of (s, zopt) \<Rightarrow>
        if zopt = Some [] then None
        else (let zone = (case zopt of None \<Rightarrow> [] | Some z \<Rightarrow> z);
                  lead = is_prefix ''::'' s;
                  s' = (if lead then drop 2 s else s)
              in if lead \<and> s' = [] then Some (A6 0 zone)
                 else (case v6_loop 8 s' (if lead then Some 0 else None) [] of
                         None \<Rightarrow> None
                       | Some r \<Rightarrow> (case v6_finish r of
                                      None \<Rightarrow> None
                                    | Some bs \<Rightarrow> Some (A6 (word_of_int (bytes_val bs)) zone)))))"

definition parseIPv4 :: "string \<Rightarrow> addr option" where
  "parseIPv4 s = map_option (\<lambda>bs. A4 (word_of_int (bytes_val bs))) (parseIPv4Fields s)"

fun parse_dispatch :: "string \<Rightarrow> string \<Rightarrow> addr option" where
  "parse_dispatch s [] = None"
| "parse_dispatch s (c # cs) =
     (if c = CHR ''.'' then parseIPv4 s
      else if c = CHR '':'' then parseIPv6 s
      else if c = CHR ''%'' then None
      else parse_dispatch s cs)"

definition ParseAddr :: "string \<Rightarrow> addr option" where
  "ParseAddr s = parse_dispatch s s"

definition ParsePrefix :: "string \<Rightarrow> pfx option" where
  "ParsePrefix s =
     (case cut_at CHR ''/'' (rev s) of
        (_, None) \<Rightarrow> None
      | (rbits, Some raddr) \<Rightarrow>
          (case ParseAddr (rev raddr) of
             None \<Rightarrow> None
           | Some ip \<Rightarrow>
               if has_zone ip then None
               else (let bitsStr = rev rbits in
                 if 1 < length bitsStr \<and> (byte (hd bitsStr) < 49 \<or> 57 < byte (hd bitsStr)) then None
                 else (case atoi bitsStr of
                         None \<Rightarrow> None
                       | Some bits \<Rightarrow>
                           if bits < 0 \<or> (if Is6 ip then 128 else 32) < bits then None
                           else Some (PrefixFrom ip bits)))))"

section \<open>Printing\<close>

definition v4_string :: "32 word \<Rightarrow> string" where
  "v4_string w =
     show_pos (uint (drop_bit 24 w)) @ ''.'' @
     show_pos (uint (drop_bit 16 w AND 0xFF)) @ ''.'' @
     show_pos (uint (drop_bit 8 w AND 0xFF)) @ ''.'' @
     show_pos (uint (w AND 0xFF))"

definition hex_char :: "int \<Rightarrow> char" where
  "hex_char n = (if n < 10 then char_of (48 + n) else char_of (87 + n))"

definition show_hex16 :: "int \<Rightarrow> string" where
  "show_hex16 n =
     (if n < 16 then [hex_char n]
      else if n < 256 then [hex_char (n div 16), hex_char (n mod 16)]
      else if n < 4096 then [hex_char (n div 256), hex_char (n div 16 mod 16), hex_char (n mod 16)]
      else [hex_char (n div 4096), hex_char (n div 256 mod 16), hex_char (n div 16 mod 16), hex_char (n mod 16)])"

definition v6_groups :: "128 word \<Rightarrow> int list" where
  "v6_groups w = map (\<lambda>i. uint (drop_bit (112 - 16 * i) w AND 0xFFFF)) [0..<8]"

text \<open>The first longest run of at least two zero groups, as start and end positions.\<close>

definition zero_run_from :: "int list \<Rightarrow> nat \<Rightarrow> nat" where
  "zero_run_from gs i = length (takeWhile (\<lambda>g. g = 0) (drop i gs))"

definition zero_run :: "int list \<Rightarrow> (nat \<times> nat) option" where
  "zero_run gs = foldl (\<lambda>best i.
     let l = zero_run_from gs i in
     if 2 \<le> l \<and> (case best of None \<Rightarrow> True | Some (a, e) \<Rightarrow> e - a < l) then Some (i, i + l) else best)
     None [0..<8]"

definition join_groups :: "int list \<Rightarrow> string" where
  "join_groups gs = (case gs of [] \<Rightarrow> [] | g # r \<Rightarrow> show_hex16 g @ concat (map (\<lambda>x. CHR '':'' # show_hex16 x) r))"

definition v6_string :: "128 word \<Rightarrow> string" where
  "v6_string w =
     (let gs = v6_groups w in
      case zero_run gs of
        None \<Rightarrow> join_groups gs
      | Some (a, e) \<Rightarrow> join_groups (take a gs) @ ''::'' @ join_groups (drop e gs))"

definition zone_suffix :: "string \<Rightarrow> string" where
  "zone_suffix z = (if z = [] then [] else CHR ''%'' # z)"

fun addr_String :: "addr \<Rightarrow> string" where
  "addr_String Addr0 = ''invalid IP''"
| "addr_String (A4 w) = v4_string w"
| "addr_String (A6 w z) =
     (if Is4In6 (A6 w z) then ''::ffff:'' @ v4_string (ucast w) @ zone_suffix z
      else v6_string w @ zone_suffix z)"

definition pfx_String :: "pfx \<Rightarrow> string" where
  "pfx_String p =
     (if pfx_bits p < 0 then ''invalid Prefix''
      else addr_String (pfx_addr p) @ ''/'' @ show_int (pfx_bits p))"

section \<open>Parsed values\<close>

lemma parse_dispatch_valid: "parse_dispatch s t = Some a \<Longrightarrow> IsValid a"
  by (induction s t rule: parse_dispatch.induct)
     (auto simp: parseIPv4_def parseIPv6_def Let_def split: if_splits option.splits prod.splits)

lemma ParseAddr_valid: "ParseAddr s = Some a \<Longrightarrow> IsValid a"
  unfolding ParseAddr_def by (rule parse_dispatch_valid)

lemma ParsePrefix_wf:
  assumes "ParsePrefix s = Some p"
  shows "IsValid (pfx_addr p) \<and> \<not> has_zone (pfx_addr p) \<and>
         0 \<le> pfx_bits p \<and> pfx_bits p \<le> BitLen (pfx_addr p)"
proof -
  from assms obtain a ip bits where ip: "ParseAddr a = Some ip" "\<not> has_zone ip"
    and bits: "0 \<le> bits" "bits \<le> (if Is6 ip then 128 else 32)" and p: "p = PrefixFrom ip bits"
    unfolding ParsePrefix_def Let_def
    by (clarsimp split: prod.splits option.splits if_splits; simp add: not_less)
  from ParseAddr_valid [OF ip(1)] ip(2) bits show ?thesis
    by (cases ip) (auto simp: p PrefixFrom_def)
qed

end
