(* ===== verification/Ban_Guard.thy ===== *)
theory Ban_Guard
  imports Netip
begin

unbundle bit_operations_syntax

text \<open>
  The protection of addresses from banning: \<open>internal/agent/ipban/guard.go\<close> of the agent, and
  the routability test and allowlist matching that \<open>internal/server/ipban/service.go\<close>
  repeats on the server. The reason texts of the protected ranges are kept; the two tables of
  prefixes are given as parsed values, and lemma \<open>tables_parse\<close> checks that they are the
  prefixes the sources write.
\<close>

section \<open>The agent's guard\<close>

definition alwaysProtected :: "(pfx \<times> string) list" where
  "alwaysProtected =
    [(Pfx (A4 0) 8, ''unspecified''),
     (Pfx (A4 0x7F000000) 8, ''loopback''),
     (Pfx (A4 0xA9FE0000) 16, ''link-local''),
     (Pfx (A4 0xE0000000) 4, ''multicast''),
     (Pfx (A4 0xFFFFFFFF) 32, ''broadcast''),
     (Pfx (A6 0 []) 128, ''unspecified''),
     (Pfx (A6 1 []) 128, ''loopback''),
     (Pfx (A6 0xFE800000000000000000000000000000 []) 10, ''link-local''),
     (Pfx (A6 0xFF000000000000000000000000000000 []) 8, ''multicast'')]"

definition privateRanges :: "pfx list" where
  "privateRanges =
    [Pfx (A4 0x0A000000) 8,
     Pfx (A4 0xAC100000) 12,
     Pfx (A4 0xC0A80000) 16,
     Pfx (A4 0x64400000) 10,
     Pfx (A6 0xFC000000000000000000000000000000 []) 7]"

definition IsPrivate :: "addr \<Rightarrow> bool" where
  "IsPrivate ip0 = (let ip = Unmap ip0 in list_ex (\<lambda>p. Contains p ip) privateRanges)"

definition IsRoutable :: "addr \<Rightarrow> bool" where
  "IsRoutable ip0 =
     (let ip = Unmap ip0 in
      if \<not> IsValid ip then False
      else if list_ex (\<lambda>(p, _). Contains p ip) alwaysProtected then False
      else \<not> IsPrivate ip)"

record guard =
  allowlist :: "pfx list"
  local_addrs :: "addr set"
  banPrivate :: bool

definition NewGuard :: guard where
  "NewGuard = \<lparr>allowlist = [], local_addrs = {}, banPrivate = False\<rparr>"

definition SetAllowlist :: "pfx list \<Rightarrow> guard \<Rightarrow> guard" where
  "SetAllowlist prefixes g = g\<lparr>allowlist := prefixes\<rparr>"

definition SetLocal :: "addr list \<Rightarrow> guard \<Rightarrow> guard" where
  "SetLocal addrs g = g\<lparr>local_addrs := set (map Unmap addrs)\<rparr>"

definition SetBanPrivate :: "bool \<Rightarrow> guard \<Rightarrow> guard" where
  "SetBanPrivate v g = g\<lparr>banPrivate := v\<rparr>"

text \<open>\<open>Protected\<close> returns the reason, or \<open>None\<close> for an address that may be banned.\<close>

definition Protected :: "guard \<Rightarrow> addr \<Rightarrow> string option" where
  "Protected g ip0 =
     (let ip = Unmap ip0 in
      if \<not> IsValid ip then Some ''invalid''
      else (case find (\<lambda>(p, _). Contains p ip) alwaysProtected of
              Some (_, reason) \<Rightarrow> Some reason
            | None \<Rightarrow>
                if \<not> banPrivate g \<and> IsPrivate ip then Some ''private''
                else if ip \<in> local_addrs g then Some ''local address''
                else if list_ex (\<lambda>p. Contains p ip) (allowlist g) then Some ''allowlisted''
                else None))"

fun ParseAllowlist :: "string list \<Rightarrow> pfx list \<times> string list" where
  "ParseAllowlist [] = ([], [])"
| "ParseAllowlist (e # es) =
     (case ParseAllowlist es of (out, bad) \<Rightarrow>
        (case ParsePrefix e of
           Some p \<Rightarrow>
             if Is4In6 (pfx_addr p) then
               (if pfx_bits p < 96 then (out, e # bad)
                else (Masked (PrefixFrom (Unmap (pfx_addr p)) (pfx_bits p - 96)) # out, bad))
             else (Masked p # out, bad)
         | None \<Rightarrow>
             (case ParseAddr e of
                Some a \<Rightarrow> (let a' = Unmap a in (PrefixFrom a' (BitLen a') # out, bad))
              | None \<Rightarrow> (out, e # bad))))"

section \<open>The server's copy\<close>

definition srv_IsRoutable :: "addr \<Rightarrow> bool" where
  "srv_IsRoutable ip0 =
     (let ip = Unmap ip0 in
      if \<not> IsValid ip \<or> IsLoopback ip \<or> IsUnspecified ip \<or> IsMulticast ip \<or> IsLinkLocalUnicast ip
         \<or> IsLinkLocalMulticast ip \<or> IsInterfaceLocalMulticast ip then False
      else if (case ip of A4 w \<Rightarrow> v4byte0 w = 0 \<or> ip = A4 0xFFFFFFFF | _ \<Rightarrow> False) then False
      else \<not> list_ex (\<lambda>p. Contains p ip) privateRanges)"

fun parsePrefixes :: "string list \<Rightarrow> pfx list" where
  "parsePrefixes [] = []"
| "parsePrefixes (e # es) =
     (case ParsePrefix e of
        Some p \<Rightarrow>
          (if Is4In6 (pfx_addr p) \<and> 96 \<le> pfx_bits p
           then PrefixFrom (Unmap (pfx_addr p)) (pfx_bits p - 96) else p) # parsePrefixes es
      | None \<Rightarrow>
          (case ParseAddr e of
             Some a \<Rightarrow> (let a' = Unmap a in PrefixFrom a' (BitLen a')) # parsePrefixes es
           | None \<Rightarrow> parsePrefixes es))"

definition matchesAny :: "addr \<Rightarrow> pfx list \<Rightarrow> bool" where
  "matchesAny ip prefixes = list_ex (\<lambda>p. Contains p ip) prefixes"

section \<open>The tables\<close>

lemma tables_parse:
  "ParsePrefix ''0.0.0.0/8'' = Some (Pfx (A4 0) 8)"
  "ParsePrefix ''127.0.0.0/8'' = Some (Pfx (A4 0x7F000000) 8)"
  "ParsePrefix ''169.254.0.0/16'' = Some (Pfx (A4 0xA9FE0000) 16)"
  "ParsePrefix ''224.0.0.0/4'' = Some (Pfx (A4 0xE0000000) 4)"
  "ParsePrefix ''255.255.255.255/32'' = Some (Pfx (A4 0xFFFFFFFF) 32)"
  "ParsePrefix ''::/128'' = Some (Pfx (A6 0 []) 128)"
  "ParsePrefix ''::1/128'' = Some (Pfx (A6 1 []) 128)"
  "ParsePrefix ''fe80::/10'' = Some (Pfx (A6 0xFE800000000000000000000000000000 []) 10)"
  "ParsePrefix ''ff00::/8'' = Some (Pfx (A6 0xFF000000000000000000000000000000 []) 8)"
  "ParsePrefix ''10.0.0.0/8'' = Some (Pfx (A4 0x0A000000) 8)"
  "ParsePrefix ''172.16.0.0/12'' = Some (Pfx (A4 0xAC100000) 12)"
  "ParsePrefix ''192.168.0.0/16'' = Some (Pfx (A4 0xC0A80000) 16)"
  "ParsePrefix ''100.64.0.0/10'' = Some (Pfx (A4 0x64400000) 10)"
  "ParsePrefix ''fc00::/7'' = Some (Pfx (A6 0xFC000000000000000000000000000000 []) 7)"
  by code_simp+

lemmas tables = alwaysProtected_def privateRanges_def

text \<open>Reading a field of a word through a mask, as the predicates of \<open>netip\<close> do.\<close>

lemma masked_field_eq:
  fixes x :: "'a::len word"
  assumes "drop_bit m x = 0" "k \<le> m" "drop_bit (LENGTH('a) - k) d = 0" "k \<le> LENGTH('a)"
  shows "(x AND push_bit k (mask (m - k)) = push_bit k d) = (drop_bit k x = d)"
proof -
  have hi: "\<not> bit x n" if "m \<le> n" for n
  proof -
    have "bit (drop_bit m x) (n - m) = bit x n" using that by (simp add: bit_simps)
    with assms(1) show ?thesis by simp
  qed
  have dhi: "\<not> bit d n" if "LENGTH('a) \<le> n + k" for n
  proof -
    have "bit (drop_bit (LENGTH('a) - k) d) (n - (LENGTH('a) - k)) = bit d n"
      using that by (simp add: bit_simps)
    with assms(3) show ?thesis by simp
  qed
  show ?thesis
  proof
    assume eq: "x AND push_bit k (mask (m - k)) = push_bit k d"
    show "drop_bit k x = d"
    proof (rule bit_word_eqI)
      fix n assume n: "n < LENGTH('a)"
      have "bit (x AND push_bit k (mask (m - k))) (k + n) = bit (push_bit k d) (k + n)"
        by (simp only: eq)
      then show "bit (drop_bit k x) n = bit d n"
        using hi [of "k + n"] dhi [of n] bit_imp_le_length [of x "k + n"]
        by (cases "m \<le> k + n") (auto simp: bit_simps)
    qed
  next
    assume "drop_bit k x = d"
    then have d: "d = drop_bit k x" by simp
    show "x AND push_bit k (mask (m - k)) = push_bit k d"
    proof (rule bit_word_eqI)
      fix n assume "n < LENGTH('a)"
      then show "bit (x AND push_bit k (mask (m - k))) n = bit (push_bit k d) n"
        using hi [of n] by (cases "m \<le> n") (auto simp: d bit_simps)
    qed
  qed
qed

lemma drop_bit_beyond: "LENGTH('a) \<le> n \<Longrightarrow> drop_bit n w = 0" for w :: "'a::len word"
  by (rule bit_word_eqI) (auto simp: bit_simps dest: bit_imp_le_length)

lemma multicast4_field: "(v4byte0 w AND 0xF0 = 0xE0) = (drop_bit 28 w = 0xE)"
  using masked_field_eq [of 8 "v4byte0 w" 4 "0xE"]
  by (simp add: v4byte0_def drop_bit_beyond push_bit_eq_mult mask_eq_exp_minus_1)

lemma linklocal6_field: "(v6u16_0 w AND 0xFFC0 = 0xFE80) = (drop_bit 118 w = 0x3FA)"
  using masked_field_eq [of 16 "v6u16_0 w" 6 "0x3FA"]
  by (simp add: v6u16_0_def drop_bit_beyond push_bit_eq_mult mask_eq_exp_minus_1)

text \<open>The link-local and interface-local multicast groups are multicast addresses.\<close>

lemma field_in_multicast:
  "drop_bit 8 w = (0xE00000 :: 32 word) \<Longrightarrow> drop_bit 28 w = 0xE"
  "drop_bit 112 v = (x :: 128 word) \<Longrightarrow> drop_bit 120 v = drop_bit 8 x"
  "x AND 0xFF0F = y \<Longrightarrow> drop_bit 8 (x :: 128 word) AND 0xFF = drop_bit 8 y"
proof -
  show "drop_bit 28 w = 0xE" if "drop_bit 8 w = (0xE00000 :: 32 word)"
  proof -
    have "drop_bit 28 w = drop_bit 20 (drop_bit 8 w)" by simp
    also have "\<dots> = 0xE" by (simp only: that) simp
    finally show ?thesis .
  qed
  show "drop_bit 120 v = drop_bit 8 x" if "drop_bit 112 v = x"
    by (simp add: that [symmetric])
  show "drop_bit 8 x AND 0xFF = drop_bit 8 y" if "x AND 0xFF0F = y"
    by (simp add: that [symmetric])
qed

lemma multicast6_group:
  assumes "v6u16_0 w AND 0xFF0F = 0xFF00 + g" "drop_bit 8 g = (0 :: 128 word)" "g = 1 \<or> g = 2"
  shows "drop_bit 120 w = 0xFF"
proof -
  have "drop_bit 120 w AND 0xFF = 0xFF"
    using field_in_multicast(3) [OF assms(1)] assms(3)
    by (auto simp: v6u16_0_def)
  moreover have "drop_bit 120 w AND mask 8 = drop_bit 120 w"
    by (rule bit_word_eqI) (auto simp: bit_simps dest: bit_imp_le_length)
  ultimately show ?thesis by (simp add: mask_eq_exp_minus_1)
qed

lemmas server_fields = multicast4_field [unfolded v4byte0_def] linklocal6_field v4byte0_def

lemma srv_IsRoutable_A4: "srv_IsRoutable (A4 w) = IsRoutable (A4 w)"
proof -
  have "drop_bit 8 w = 0xE00000 \<Longrightarrow> drop_bit 28 w = 0xE" by (rule field_in_multicast(1))
  then show ?thesis
    by (auto simp: srv_IsRoutable_def IsRoutable_def IsPrivate_def tables Let_def Contains_iff
        server_fields IsUnspecified_def)
qed

lemma srv_IsRoutable_A6: "\<not> Is4In6 (A6 w z) \<Longrightarrow> z = [] \<Longrightarrow> srv_IsRoutable (A6 w z) = IsRoutable (A6 w z)"
  using multicast6_group [of w 1] multicast6_group [of w 2]
  by (auto simp: srv_IsRoutable_def IsRoutable_def IsPrivate_def tables Let_def Contains_iff
      server_fields IsUnspecified_def)

section \<open>Properties of the guard\<close>

text \<open>
  The server and the agent classify every address without an IPv6 zone alike: the server's
  test, built from the predicates of \<open>netip\<close>, and the agent's, built from two tables of
  prefixes, agree. An address the server propagates to the fleet is one the agents enforce.
\<close>

lemma routable_agent_server_agree:
  assumes "\<not> has_zone ip"
  shows "srv_IsRoutable ip = IsRoutable ip"
proof -
  have unmap: "srv_IsRoutable ip = srv_IsRoutable (Unmap ip)" "IsRoutable ip = IsRoutable (Unmap ip)"
    by (simp_all add: srv_IsRoutable_def IsRoutable_def)
  show ?thesis
  proof (cases "Unmap ip")
    case Addr0
    then show ?thesis by (simp add: srv_IsRoutable_def IsRoutable_def)
  next
    case (A4 w)
    then show ?thesis by (simp add: unmap srv_IsRoutable_A4)
  next
    case (A6 w z)
    moreover have "z = []" using assms has_zone_Unmap [of ip] A6 by auto
    moreover have "\<not> Is4In6 (A6 w z)" using Is4In6_Unmap [of ip] A6 by simp
    ultimately show ?thesis by (simp add: unmap srv_IsRoutable_A6)
  qed
qed

text \<open>
  What the guard lets through: an address is not protected exactly when it is valid, no
  range that is always protected holds it, it is not private unless banning private addresses
  was asked for, it is not an address of the host, and no allowlist entry holds it.
\<close>

lemma Protected_None_iff:
  "Protected g ip = None \<longleftrightarrow>
     IsValid ip \<and> (\<forall>(p, r) \<in> set alwaysProtected. \<not> Contains p (Unmap ip)) \<and>
     (banPrivate g \<or> \<not> IsPrivate ip) \<and> Unmap ip \<notin> local_addrs g \<and>
     (\<forall>p \<in> set (allowlist g). \<not> Contains p (Unmap ip))"
proof -
  have priv: "IsPrivate (Unmap ip) = IsPrivate ip" by (simp add: IsPrivate_def)
  have find: "find (\<lambda>(p, _). Contains p (Unmap ip)) alwaysProtected = None \<longleftrightarrow>
      (\<forall>(p, r) \<in> set alwaysProtected. \<not> Contains p (Unmap ip))"
    by (auto simp: find_None_iff)
  show ?thesis
  proof (cases "find (\<lambda>(p, _). Contains p (Unmap ip)) alwaysProtected")
    case None
    then show ?thesis using find by (auto simp: Protected_def Let_def priv list_ex_iff)
  next
    case (Some x)
    then have "\<not> (\<forall>(p, r) \<in> set alwaysProtected. \<not> Contains p (Unmap ip))" using find by simp
    then show ?thesis using Some by (auto simp: Protected_def Let_def split: prod.splits)
  qed
qed

lemma mapped_prefix_Masked:
  assumes "ParsePrefix e = Some p" "Is4In6 (pfx_addr p)" "96 \<le> pfx_bits p"
  shows "Contains (Masked (PrefixFrom (Unmap (pfx_addr p)) (pfx_bits p - 96))) ip =
         Contains (PrefixFrom (Unmap (pfx_addr p)) (pfx_bits p - 96)) ip"
proof (rule Contains_Masked)
  obtain w z where "pfx_addr p = A6 w z" using assms(2) by (cases "pfx_addr p") auto
  then show "pfx_bits (PrefixFrom (Unmap (pfx_addr p)) (pfx_bits p - 96)) \<le>
      BitLen (pfx_addr (PrefixFrom (Unmap (pfx_addr p)) (pfx_bits p - 96)))"
    using assms(2,3) ParsePrefix_wf [OF assms(1)] by (simp add: PrefixFrom_def)
qed

text \<open>
  The agent reads an allowlist as the server does: with every IPv4-mapped prefix at least
  96 bits long (the server stores no other), an address without a zone is matched by the
  server's list of prefixes exactly when it is matched by the agent's.
\<close>

lemma allowlist_agent_server_agree:
  assumes "\<forall>e \<in> set es. \<forall>p. ParsePrefix e = Some p \<and> Is4In6 (pfx_addr p) \<longrightarrow> 96 \<le> pfx_bits p"
  shows "matchesAny ip (parsePrefixes es) = list_ex (\<lambda>p. Contains p ip) (fst (ParseAllowlist es))"
  using assms
proof (induction es)
  case Nil
  then show ?case by (simp add: matchesAny_def)
next
  case (Cons e es)
  then have IH: "matchesAny ip (parsePrefixes es) = list_ex (\<lambda>p. Contains p ip) (fst (ParseAllowlist es))"
    by simp
  show ?case
  proof (cases "ParsePrefix e")
    case None
    then show ?thesis using IH
      by (auto simp: matchesAny_def Let_def split: option.splits prod.splits)
  next
    case (Some p)
    have "Is4In6 (pfx_addr p) \<Longrightarrow> 96 \<le> pfx_bits p" using Cons.prems Some by simp
    then show ?thesis
      using IH Some mapped_prefix_Masked [OF Some] ParsePrefix_wf [OF Some]
      by (auto simp: matchesAny_def split: prod.splits)
  qed
qed

text \<open>
  A zone hides an address from the prefixes of the agent's tables, so that the agent calls a
  link-local address with a zone routable while the server does not.
\<close>

lemma zoned_link_local_differs:
  "IsRoutable (A6 0xFE800000000000000000000000000001 ''eth0'') \<and>
   \<not> srv_IsRoutable (A6 0xFE800000000000000000000000000001 ''eth0'')"
  by code_simp

end
