(* ===== verification/Ban_Tracker.thy ===== *)
theory Ban_Tracker
  imports Netip
begin

text \<open>
  \<open>internal/agent/ipban/tracker.go\<close>: the failure counters that decide which addresses the agent
  bans and for how long, and the sliding windows behind its rate metrics. Every method holds
  the tracker's mutex for its whole body, so it is one function on the tracker's state.
\<close>

section \<open>The code\<close>

definition escalationWindow :: duration where
  "escalationWindow = 7 * 24 * Hour"

record policy =
  MaxRetry :: int
  FindTime :: duration
  BanTime :: duration
  BanTimeMax :: duration

definition normalized :: "policy \<Rightarrow> policy" where
  "normalized p0 =
     (let p = (if MaxRetry p0 < 1 then p0\<lparr>MaxRetry := 1\<rparr> else p0);
          p = (if FindTime p \<le> 0 then p\<lparr>FindTime := 10 * Minute\<rparr> else p);
          p = (if BanTime p \<le> 0 then p\<lparr>BanTime := Hour\<rparr> else p)
      in if BanTimeMax p < BanTime p then p\<lparr>BanTimeMax := BanTime p\<rparr> else p)"

record ipState =
  failures :: "time list"
  bans :: int
  lastBan :: time
  bannedUntil :: time
  lastUser :: string

definition ipState0 :: ipState where
  "ipState0 = \<lparr>failures = [], bans = 0, lastBan = zero_time, bannedUntil = zero_time, lastUser = []\<rparr>"

record ban =
  ban_IP :: addr
  ban_Until :: time
  ban_Failures :: int
  ban_User :: string
  ban_Count :: int

record tracker =
  tr_policy :: policy
  states :: "(addr, ipState) gomap"

definition NewTracker :: "policy \<Rightarrow> tracker" where
  "NewTracker p = \<lparr>tr_policy = normalized p, states = []\<rparr>"

definition SetPolicy :: "policy \<Rightarrow> tracker \<Rightarrow> tracker" where
  "SetPolicy p t = t\<lparr>tr_policy := normalized p\<rparr>"

text \<open>The state of an address, created empty when it is not in the map.\<close>

definition state_of :: "tracker \<Rightarrow> addr \<Rightarrow> ipState" where
  "state_of t ip = (case get (states t) ip of None \<Rightarrow> ipState0 | Some st \<Rightarrow> st)"

text \<open>The doubling loop of \<open>Observe\<close>; the product of durations wraps around.\<close>

fun escalate :: "nat \<Rightarrow> duration \<Rightarrow> duration \<Rightarrow> duration" where
  "escalate 0 dur maxDur = dur"
| "escalate (Suc k) dur maxDur = (if dur < maxDur then escalate k (i64 (dur * 2)) maxDur else dur)"

definition ban_duration :: "policy \<Rightarrow> int \<Rightarrow> duration" where
  "ban_duration p n =
     (let dur = escalate (nat n) (BanTime p) (BanTimeMax p)
      in if BanTimeMax p < dur then BanTimeMax p else dur)"

definition recent_failures :: "policy \<Rightarrow> ipState \<Rightarrow> time \<Rightarrow> time list" where
  "recent_failures p st now = filter (\<lambda>f. now - FindTime p < f) (failures st)"

definition prior_bans :: "ipState \<Rightarrow> time \<Rightarrow> int" where
  "prior_bans st now =
     (if lastBan st \<noteq> zero_time \<and> escalationWindow < time_Sub now (lastBan st) then 0 else bans st)"

definition Observe :: "addr \<Rightarrow> string \<Rightarrow> time \<Rightarrow> tracker \<Rightarrow> tracker \<times> ban option" where
  "Observe ip user now t =
     (let st0 = state_of t ip;
          st1 = (if user \<noteq> [] then st0\<lparr>lastUser := user\<rparr> else st0)
      in if now < bannedUntil st1 then (t\<lparr>states := put ip st1 (states t)\<rparr>, None)
         else
           (let st2 = st1\<lparr>failures := recent_failures (tr_policy t) st1 now @ [now]\<rparr>
            in if int (length (failures st2)) < MaxRetry (tr_policy t)
               then (t\<lparr>states := put ip st2 (states t)\<rparr>, None)
               else
                 (let st3 = st2\<lparr>bans := prior_bans st2 now\<rparr>;
                      dur = ban_duration (tr_policy t) (bans st3);
                      n = int (length (failures st3));
                      st4 = st3\<lparr>bans := bans st3 + 1, lastBan := now, bannedUntil := now + dur, failures := []\<rparr>
                  in (t\<lparr>states := put ip st4 (states t)\<rparr>,
                      Some \<lparr>ban_IP = ip, ban_Until = bannedUntil st4, ban_Failures = n,
                            ban_User = lastUser st4, ban_Count = bans st4\<rparr>))))"

definition Import :: "addr \<Rightarrow> time \<Rightarrow> tracker \<Rightarrow> tracker" where
  "Import ip until t =
     (let st = state_of t ip
      in t\<lparr>states := put ip (if bannedUntil st < until then st\<lparr>bannedUntil := until\<rparr> else st) (states t)\<rparr>)"

definition Unban :: "addr \<Rightarrow> tracker \<Rightarrow> tracker \<times> bool" where
  "Unban ip t =
     (case get (states t) ip of
        None \<Rightarrow> (t, False)
      | Some st \<Rightarrow> (t\<lparr>states := del ip (states t)\<rparr>, bannedUntil st \<noteq> zero_time))"

definition Banned :: "tracker \<Rightarrow> addr \<Rightarrow> time \<Rightarrow> bool" where
  "Banned t ip now =
     (case get (states t) ip of None \<Rightarrow> False | Some st \<Rightarrow> now < bannedUntil st)"

definition active_ban :: "addr \<times> ipState \<Rightarrow> ban" where
  "active_ban e = (case e of (ip, st) \<Rightarrow>
     \<lparr>ban_IP = ip, ban_Until = bannedUntil st, ban_Failures = 0, ban_User = lastUser st, ban_Count = bans st\<rparr>)"

definition ActiveBans :: "tracker \<Rightarrow> time \<Rightarrow> ban list" where
  "ActiveBans t now =
     sort_key ban_Until (map active_ban (filter (\<lambda>(ip, st). now < bannedUntil st) (states t)))"

text \<open>One round of the loop of \<open>Prune\<close>: what becomes of an entry, \<open>None\<close> when it is deleted.\<close>

definition prune_entry :: "policy \<Rightarrow> time \<Rightarrow> ipState \<Rightarrow> ipState option" where
  "prune_entry p now st =
     (if now < bannedUntil st then Some st
      else if list_ex (\<lambda>f. now - FindTime p < f) (failures st) then Some st
      else if 0 < bans st \<and> time_Sub now (lastBan st) \<le> escalationWindow then Some (st\<lparr>failures := []\<rparr>)
      else None)"

fun prune_map :: "policy \<Rightarrow> time \<Rightarrow> (addr, ipState) gomap \<Rightarrow> (addr, ipState) gomap \<times> int" where
  "prune_map p now [] = ([], 0)"
| "prune_map p now ((ip, st) # m) =
     (case prune_map p now m of (m', removed) \<Rightarrow>
        (case prune_entry p now st of
           None \<Rightarrow> (m', removed + 1)
         | Some st' \<Rightarrow> ((ip, st') # m', removed)))"

definition Prune :: "time \<Rightarrow> tracker \<Rightarrow> tracker \<times> int" where
  "Prune now t =
     (case prune_map (tr_policy t) now (states t) of (m, removed) \<Rightarrow> (t\<lparr>states := m\<rparr>, removed))"

definition Len :: "tracker \<Rightarrow> int" where
  "Len t = int (length (states t))"

record rateWindow =
  window :: duration
  stamps :: "time list"

definition newRateWindow :: "duration \<Rightarrow> rateWindow" where
  "newRateWindow w = \<lparr>window = w, stamps = []\<rparr>"

definition trimLocked :: "time \<Rightarrow> rateWindow \<Rightarrow> rateWindow" where
  "trimLocked now r = r\<lparr>stamps := dropWhile (\<lambda>s. \<not> now - window r < s) (stamps r)\<rparr>"

definition rw_Add :: "time \<Rightarrow> rateWindow \<Rightarrow> rateWindow" where
  "rw_Add now r = trimLocked now (r\<lparr>stamps := stamps r @ [now]\<rparr>)"

definition rw_Count :: "time \<Rightarrow> rateWindow \<Rightarrow> rateWindow \<times> int" where
  "rw_Count now r = (let r' = trimLocked now r in (r', int (length (stamps r'))))"

section \<open>The policy and the length of a ban\<close>

definition wf_policy :: "policy \<Rightarrow> bool" where
  "wf_policy p \<longleftrightarrow> 1 \<le> MaxRetry p \<and> 0 < FindTime p \<and> 0 < BanTime p \<and> BanTime p \<le> BanTimeMax p"

lemma wf_policy_normalized [simp]: "wf_policy (normalized p)"
  by (simp add: normalized_def wf_policy_def Let_def duration_defs)

lemma normalized_id: "wf_policy p \<Longrightarrow> normalized p = p"
  by (simp add: normalized_def wf_policy_def Let_def)

lemma escalate_ge: "\<lbrakk>0 < dur; maxDur \<le> 2 ^ 62\<rbrakk> \<Longrightarrow> dur \<le> escalate k dur maxDur"
proof (induction k arbitrary: dur)
  case (Suc k)
  show ?case
  proof (cases "dur < maxDur")
    case True
    then have "in_i64 (dur * 2)" using Suc.prems by (simp add: in_i64_def)
    then show ?thesis using Suc.IH [of "dur * 2"] Suc.prems True by simp
  qed simp
qed simp

lemma escalate_min:
  "\<lbrakk>0 < dur; maxDur \<le> 2 ^ 62\<rbrakk> \<Longrightarrow> min maxDur (escalate k dur maxDur) = min maxDur (dur * 2 ^ k)"
proof (induction k arbitrary: dur)
  case (Suc k)
  show ?case
  proof (cases "dur < maxDur")
    case True
    then have "in_i64 (dur * 2)" using Suc.prems by (simp add: in_i64_def)
    then show ?thesis using Suc.IH [of "dur * 2"] Suc.prems True by (simp add: ac_simps)
  next
    case False
    have "dur * 1 \<le> dur * 2 ^ Suc k" using Suc.prems by (intro mult_left_mono one_le_power) auto
    then show ?thesis using False by simp
  qed
qed simp

lemma ban_duration_eq:
  assumes "wf_policy p" "BanTimeMax p \<le> 2 ^ 62"
  shows "ban_duration p n = min (BanTimeMax p) (BanTime p * 2 ^ nat n)"
  using escalate_min [of "BanTime p" "BanTimeMax p" "nat n"] assms
  by (simp add: ban_duration_def wf_policy_def Let_def min_def split: if_splits)

lemma ban_duration_bounds:
  assumes "wf_policy p" "BanTimeMax p \<le> 2 ^ 62"
  shows "BanTime p \<le> ban_duration p n \<and> ban_duration p n \<le> BanTimeMax p"
proof -
  have "BanTime p * 1 \<le> BanTime p * 2 ^ nat n"
    using assms(1) by (intro mult_left_mono one_le_power) (auto simp: wf_policy_def)
  then show ?thesis using assms ban_duration_eq [OF assms] by (simp add: wf_policy_def)
qed

section \<open>The states of single addresses\<close>

lemma state_of_put [simp]:
  "state_of (t\<lparr>states := put ip st (states t)\<rparr>) ip' = (if ip' = ip then st else state_of t ip')"
  by (simp add: state_of_def)

lemma Observe_other [simp]: "ip' \<noteq> ip \<Longrightarrow> state_of (fst (Observe ip u now t)) ip' = state_of t ip'"
  by (simp add: Observe_def Let_def)

lemma Observe_policy [simp]: "tr_policy (fst (Observe ip u now t)) = tr_policy t"
  by (simp add: Observe_def Let_def)

lemma Import_policy [simp]: "tr_policy (Import ip until t) = tr_policy t"
  by (simp add: Import_def Let_def)

lemma Unban_policy [simp]: "tr_policy (fst (Unban ip t)) = tr_policy t"
  by (simp add: Unban_def split: option.splits)

lemma Prune_policy [simp]: "tr_policy (fst (Prune now t)) = tr_policy t"
  by (simp add: Prune_def split: prod.splits)

lemma Banned_state_of: "Banned t ip now \<longleftrightarrow> (get (states t) ip \<noteq> None \<and> now < bannedUntil (state_of t ip))"
  by (simp add: Banned_def state_of_def split: option.splits)

lemma get_prune_map:
  "wf_map m \<Longrightarrow>
    get (fst (prune_map p now m)) ip = (case get m ip of None \<Rightarrow> None | Some st \<Rightarrow> prune_entry p now st)"
proof (induction m arbitrary: ip rule: prune_map.induct)
  case (2 p now ip' st m)
  obtain m' r where m': "prune_map p now m = (m', r)" by (cases "prune_map p now m")
  from "2.prems" have "get m ip' = None" "wf_map m" by simp_all
  moreover from this have "get m' x = (case get m x of None \<Rightarrow> None | Some st \<Rightarrow> prune_entry p now st)" for x
    using "2.IH" m' by simp
  ultimately show ?case using m' by (auto split: option.splits)
qed simp

lemma wf_map_prune_map: "wf_map m \<Longrightarrow> wf_map (fst (prune_map p now m))"
proof (induction m rule: prune_map.induct)
  case (2 p now ip' st m)
  obtain m' r where m': "prune_map p now m = (m', r)" by (cases "prune_map p now m")
  from "2.prems" have m: "get m ip' = None" "wf_map m" by simp_all
  then have "get m' ip' = None" using get_prune_map [of m p now ip'] m' by simp
  then show ?case using "2.IH" m m' by (auto split: option.splits)
qed simp

lemma get_Prune:
  "wf_map (states t) \<Longrightarrow> get (states (fst (Prune now t))) ip =
     (case get (states t) ip of None \<Rightarrow> None | Some st \<Rightarrow> prune_entry (tr_policy t) now st)"
  by (simp add: Prune_def case_prod_beta get_prune_map)

section \<open>The invariant\<close>

definition wf_state :: "ipState \<Rightarrow> bool" where
  "wf_state st \<longleftrightarrow> 0 \<le> bans st \<and> (0 < bans st \<longrightarrow> lastBan st \<noteq> zero_time)"

definition tracker_inv :: "tracker \<Rightarrow> bool" where
  "tracker_inv t \<longleftrightarrow>
     wf_policy (tr_policy t) \<and> wf_map (states t) \<and> (\<forall>ip st. get (states t) ip = Some st \<longrightarrow> wf_state st)"

lemma wf_state_state_of: "tracker_inv t \<Longrightarrow> wf_state (state_of t ip)"
  by (auto simp: tracker_inv_def state_of_def ipState0_def wf_state_def split: option.splits)

lemma tracker_inv_put:
  "\<lbrakk>tracker_inv t; wf_state st\<rbrakk> \<Longrightarrow> tracker_inv (t\<lparr>states := put ip st (states t)\<rparr>)"
  by (auto simp: tracker_inv_def split: if_splits)

lemma tracker_inv_New: "tracker_inv (NewTracker p)"
  by (simp add: tracker_inv_def NewTracker_def)

lemma tracker_inv_SetPolicy: "tracker_inv t \<Longrightarrow> tracker_inv (SetPolicy p t)"
  by (simp add: tracker_inv_def SetPolicy_def)

lemma tracker_inv_Observe:
  assumes "tracker_inv t" "now \<noteq> zero_time"
  shows "tracker_inv (fst (Observe ip u now t))"
  using wf_state_state_of [OF assms(1), of ip] assms
  by (auto simp: Observe_def Let_def wf_state_def prior_bans_def intro!: tracker_inv_put)

lemma tracker_inv_Import: "tracker_inv t \<Longrightarrow> tracker_inv (Import ip until t)"
  using wf_state_state_of [of t ip]
  by (auto simp: Import_def Let_def wf_state_def intro!: tracker_inv_put)

lemma tracker_inv_Unban: "tracker_inv t \<Longrightarrow> tracker_inv (fst (Unban ip t))"
  by (auto simp: Unban_def tracker_inv_def split: option.splits if_splits)

lemma tracker_inv_Prune: "tracker_inv t \<Longrightarrow> tracker_inv (fst (Prune now t))"
proof -
  assume inv: "tracker_inv t"
  then have wf: "wf_map (states t)" by (simp add: tracker_inv_def)
  have "wf_map (states (fst (Prune now t)))"
    using wf_map_prune_map [OF wf, of "tr_policy t" now] by (simp add: Prune_def case_prod_beta)
  moreover have "wf_state st" if "get (states (fst (Prune now t))) ip = Some st" for ip st
    using that inv get_Prune [OF wf, of now ip]
    by (auto simp: tracker_inv_def prune_entry_def wf_state_def split: option.splits if_splits)
  ultimately show ?thesis using inv by (simp add: tracker_inv_def)
qed

section \<open>Histories\<close>

text \<open>
  What happens to a tracker over its life: a sequence of calls. \<open>obs_times\<close> are the instants of
  the failures observed for an address.
\<close>

datatype tr_event =
    EvObserve addr string time
  | EvImport addr time
  | EvUnban addr
  | EvPrune time
  | EvPolicy policy

fun tr_apply :: "tr_event \<Rightarrow> tracker \<Rightarrow> tracker" where
  "tr_apply (EvObserve ip u now) t = fst (Observe ip u now t)"
| "tr_apply (EvImport ip until) t = Import ip until t"
| "tr_apply (EvUnban ip) t = fst (Unban ip t)"
| "tr_apply (EvPrune now) t = fst (Prune now t)"
| "tr_apply (EvPolicy p) t = SetPolicy p t"

definition tr_run :: "tr_event list \<Rightarrow> tracker \<Rightarrow> tracker" where
  "tr_run es t = fold tr_apply es t"

fun tr_time_ok :: "tr_event \<Rightarrow> bool" where
  "tr_time_ok (EvObserve ip u now) = (now \<noteq> zero_time)"
| "tr_time_ok _ = True"

fun obs_times :: "addr \<Rightarrow> tr_event list \<Rightarrow> time list" where
  "obs_times ip [] = []"
| "obs_times ip (EvObserve a u now # es) = (if a = ip then now # obs_times ip es else obs_times ip es)"
| "obs_times ip (_ # es) = obs_times ip es"

lemma obs_times_append [simp]: "obs_times ip (xs @ ys) = obs_times ip xs @ obs_times ip ys"
  by (induction ip xs rule: obs_times.induct) auto

lemma tr_run_snoc [simp]: "tr_run (es @ [e]) t = tr_apply e (tr_run es t)"
  by (simp add: tr_run_def)

lemma tr_run_Nil [simp]: "tr_run [] t = t"
  by (simp add: tr_run_def)

lemma tr_run_Cons [simp]: "tr_run (e # es) t = tr_run es (tr_apply e t)"
  by (simp add: tr_run_def)

lemma tracker_inv_apply: "\<lbrakk>tracker_inv t; tr_time_ok e\<rbrakk> \<Longrightarrow> tracker_inv (tr_apply e t)"
  by (cases e) (auto intro: tracker_inv_Observe tracker_inv_Import tracker_inv_Unban
      tracker_inv_Prune tracker_inv_SetPolicy)

lemma tracker_inv_run: "\<lbrakk>tracker_inv t; \<forall>e\<in>set es. tr_time_ok e\<rbrakk> \<Longrightarrow> tracker_inv (tr_run es t)"
  by (induction es arbitrary: t) (auto intro: tracker_inv_apply)

text \<open>The failures kept for an address are among those observed for it, each at most once.\<close>

lemma failures_Observe:
  "mset (failures (state_of (fst (Observe ip u now t)) ip)) \<subseteq># mset (failures (state_of t ip)) + {#now#}"
proof -
  have "mset (filter P xs) \<subseteq># mset xs" for P and xs :: "time list"
    by (simp add: multiset_filter_subset)
  then show ?thesis
    by (auto simp: Observe_def Let_def recent_failures_def intro: subset_mset.order_trans)
qed

lemma failures_Prune:
  assumes "wf_map (states t)"
  shows "mset (failures (state_of (fst (Prune now t)) ip)) \<subseteq># mset (failures (state_of t ip))"
  using get_Prune [OF assms, of now ip]
  by (auto simp: state_of_def ipState0_def prune_entry_def split: option.splits if_splits)

lemma failures_apply:
  assumes "wf_map (states t)"
  shows "mset (failures (state_of (tr_apply e t) ip)) \<subseteq># mset (failures (state_of t ip)) + mset (obs_times ip [e])"
proof (cases e)
  case (EvObserve a u now)
  then show ?thesis using failures_Observe [of ip u now t] by (cases "a = ip") auto
next
  case (EvPrune now)
  then show ?thesis using failures_Prune [OF assms] by simp
next
  case (EvUnban a)
  then show ?thesis
    by (auto simp: Unban_def state_of_def ipState0_def split: option.splits)
qed (auto simp: Import_def Let_def SetPolicy_def state_of_def split: option.splits)

lemma failures_run:
  assumes "tracker_inv t" "\<forall>e\<in>set es. tr_time_ok e"
  shows "mset (failures (state_of (tr_run es t) ip)) \<subseteq># mset (failures (state_of t ip)) + mset (obs_times ip es)"
  using assms(2)
proof (induction es rule: rev_induct)
  case Nil
  then show ?case by simp
next
  case (snoc e es)
  then have inv: "tracker_inv (tr_run es t)" using tracker_inv_run [OF assms(1)] by simp
  have "mset (failures (state_of (tr_run (es @ [e]) t) ip)) \<subseteq>#
      mset (failures (state_of (tr_run es t) ip)) + mset (obs_times ip [e])"
    using inv by (simp add: failures_apply tracker_inv_def)
  also have "\<dots> \<subseteq># mset (failures (state_of t ip)) + mset (obs_times ip es) + mset (obs_times ip [e])"
    using snoc by (intro subset_mset.add_right_mono) auto
  finally show ?case by (simp add: ac_simps)
qed

section \<open>Properties\<close>

text \<open>
  When an address is banned: \<open>Observe\<close> returns a ban exactly when the address is not already
  banned and the failures inside the window, with this one, reach the limit; the ban counts
  those failures, lasts \<open>BanTime\<close> doubled once for every earlier ban inside the escalation
  window and at most \<open>BanTimeMax\<close>, and it is in force when \<open>Observe\<close> returns.
\<close>

lemma Observe_ban_iff:
  fixes t :: tracker and ip :: addr and now :: time
  assumes "tracker_inv t" "BanTimeMax (tr_policy t) \<le> 2 ^ 62"
  defines "n \<equiv> int (length (recent_failures (tr_policy t) (state_of t ip) now)) + 1"
  shows "(snd (Observe ip u now t) \<noteq> None \<longleftrightarrow>
            \<not> now < bannedUntil (state_of t ip) \<and> MaxRetry (tr_policy t) \<le> n) \<and>
         (\<forall>b. snd (Observe ip u now t) = Some b \<longrightarrow>
            ban_IP b = ip \<and> ban_Failures b = n \<and>
            ban_Until b = now + min (BanTimeMax (tr_policy t))
              (BanTime (tr_policy t) * 2 ^ nat (prior_bans (state_of t ip) now)) \<and>
            ban_Count b = prior_bans (state_of t ip) now + 1 \<and>
            Banned (fst (Observe ip u now t)) ip now)"
proof -
  have wf: "wf_policy (tr_policy t)" using assms(1) by (simp add: tracker_inv_def)
  note eq = ban_duration_eq [OF wf assms(2)]
  have pos: "0 < ban_duration (tr_policy t) k" for k
    using ban_duration_bounds [OF wf assms(2), of k] wf by (simp add: wf_policy_def)
  show ?thesis
    using pos by (auto simp: Observe_def Let_def n_def recent_failures_def prior_bans_def Banned_def
        eq [symmetric] not_less)
qed

text \<open>
  C34. No ban without evidence: over any history of calls, an address is banned only if it was
  observed to fail at least \<open>MaxRetry\<close> times, this failure included, within \<open>FindTime\<close> before
  the ban. Imports, pruning, unbans and policy changes never create evidence.
\<close>

theorem ban_needs_failures:
  fixes es :: "tr_event list" and p :: policy
  assumes "\<forall>e \<in> set es. tr_time_ok e"
    and "snd (Observe ip u now (tr_run es (NewTracker p))) = Some b"
  defines "q \<equiv> tr_policy (tr_run es (NewTracker p))"
  shows "MaxRetry q \<le> int (length (filter (\<lambda>f. now - FindTime q < f) (obs_times ip es))) + 1"
proof -
  let ?t = "tr_run es (NewTracker p)"
  have "mset (failures (state_of ?t ip)) \<subseteq># mset (obs_times ip es)"
    using failures_run [OF tracker_inv_New assms(1), of p ip]
    by (simp add: NewTracker_def state_of_def ipState0_def)
  then have "filter_mset (\<lambda>f. now - FindTime q < f) (mset (failures (state_of ?t ip))) \<subseteq>#
      filter_mset (\<lambda>f. now - FindTime q < f) (mset (obs_times ip es))"
    by (rule multiset_filter_mono)
  then have "length (recent_failures q (state_of ?t ip) now) \<le>
      length (filter (\<lambda>f. now - FindTime q < f) (obs_times ip es))"
    using size_mset_mono by (fastforce simp: recent_failures_def simp flip: mset_filter size_mset)
  moreover have "MaxRetry q \<le> int (length (recent_failures q (state_of ?t ip) now)) + 1"
    using assms(2) by (auto simp: Observe_def Let_def q_def recent_failures_def split: if_splits)
  ultimately show ?thesis by linarith
qed

theorem ban_needs_failures_witness:
  "1 \<le> int (length (filter (\<lambda>f. Hour - 10 * Minute < f) (obs_times (A4 1) [EvObserve (A4 2) [] Minute]))) + 1"
proof -
  let ?p = "\<lparr>MaxRetry = 1, FindTime = 0, BanTime = 0, BanTimeMax = 0\<rparr>"
  let ?es = "[EvObserve (A4 2) [] Minute]"
  obtain b where "snd (Observe (A4 1) [] Hour (tr_run ?es (NewTracker ?p))) = Some b"
    by (simp add: tr_run_def Observe_def NewTracker_def state_of_def ipState0_def recent_failures_def
        normalized_def Let_def go_time)
  then show ?thesis
    using ban_needs_failures [of ?es "A4 1" "[]" Hour ?p b]
    by (simp add: tr_run_def NewTracker_def normalized_def Let_def duration_defs zero_time_def)
qed

text \<open>
  The list of active bans holds every banned address once, nothing else, and is ordered by
  the end of the ban.
\<close>

lemma ActiveBans_correct:
  assumes "tracker_inv t"
  shows "ban_IP ` set (ActiveBans t now) = {ip. Banned t ip now} \<and>
         distinct (map ban_IP (ActiveBans t now)) \<and>
         sorted (map ban_Until (ActiveBans t now)) \<and>
         (\<forall>b \<in> set (ActiveBans t now). now < ban_Until b \<and> ban_Until b = bannedUntil (state_of t (ban_IP b)))"
proof -
  have wf: "wf_map (states t)" using assms by (simp add: tracker_inv_def)
  let ?m = "filter (\<lambda>(ip, st). now < bannedUntil st) (states t)"
  have set: "set (ActiveBans t now) = active_ban ` set ?m"
    by (simp add: ActiveBans_def)
  have mem: "(ip, st) \<in> set ?m \<longleftrightarrow> get (states t) ip = Some st \<and> now < bannedUntil st" for ip st
    using get_set [OF wf] by auto
  have "ban_IP ` set (ActiveBans t now) = {ip. Banned t ip now}"
  proof (intro set_eqI iffI)
    fix ip assume "ip \<in> ban_IP ` set (ActiveBans t now)"
    then obtain st where "(ip, st) \<in> set ?m" unfolding set by (auto simp: active_ban_def)
    then show "ip \<in> {ip. Banned t ip now}" using mem by (simp add: Banned_def)
  next
    fix ip assume "ip \<in> {ip. Banned t ip now}"
    then obtain st where "get (states t) ip = Some st" "now < bannedUntil st"
      by (auto simp: Banned_def split: option.splits)
    then have "active_ban (ip, st) \<in> set (ActiveBans t now)" using mem set by blast
    then show "ip \<in> ban_IP ` set (ActiveBans t now)" by (force simp: active_ban_def)
  qed
  moreover have "distinct (map ban_IP (ActiveBans t now))"
  proof -
    have "mset (map ban_IP (ActiveBans t now)) = mset (map ban_IP (map active_ban ?m))"
      by (simp only: ActiveBans_def mset_map mset_sort)
    moreover have "map ban_IP (map active_ban ?m) = map fst ?m"
      by (simp add: active_ban_def case_prod_beta)
    moreover have "distinct (map fst ?m)"
      using wf_map_filter [OF wf] by (simp add: wf_map_def)
    ultimately show ?thesis by (metis mset_eq_imp_distinct_iff)
  qed
  moreover have "sorted (map ban_Until (ActiveBans t now))"
    by (simp add: ActiveBans_def)
  moreover have "\<forall>b \<in> set (ActiveBans t now). now < ban_Until b \<and> ban_Until b = bannedUntil (state_of t (ban_IP b))"
    unfolding set using mem by (auto simp: active_ban_def state_of_def)
  ultimately show ?thesis by blast
qed

text \<open>What \<open>Prune\<close> leaves of an entry gives the same answers at every later instant.\<close>

lemma prune_entry_same:
  assumes "wf_state st" "now \<le> now'" "0 < FindTime p"
  defines "st' \<equiv> (case prune_entry p now st of None \<Rightarrow> ipState0 | Some s \<Rightarrow> s)"
  shows "now' < bannedUntil st' \<longleftrightarrow> now' < bannedUntil st \<or> now' < 0 \<and> prune_entry p now st = None"
    and "recent_failures p st' now' = recent_failures p st now'"
    and "prior_bans st' now' = prior_bans st now'"
proof -
  show "now' < bannedUntil st' \<longleftrightarrow> now' < bannedUntil st \<or> now' < 0 \<and> prune_entry p now st = None"
    using assms(2) by (auto simp: st'_def prune_entry_def ipState0_def zero_time_def)
  have none: "recent_failures p st now' = []" if "\<not> list_ex (\<lambda>f. now - FindTime p < f) (failures st)"
    using that assms(2) by (auto simp: recent_failures_def list_ex_iff filter_empty_conv)
  show "recent_failures p st' now' = recent_failures p st now'"
    using none by (auto simp: st'_def prune_entry_def ipState0_def recent_failures_def)
  have sub: "time_Sub t u \<le> escalationWindow \<longleftrightarrow> t - u \<le> escalationWindow" for t u
    by (rule time_Sub_le) (simp_all add: escalationWindow_def duration_defs in_i64_def)
  show "prior_bans st' now' = prior_bans st now'"
  proof (cases "prune_entry p now st")
    case None
    then have "bans st \<le> 0 \<or> \<not> now - lastBan st \<le> escalationWindow"
      by (auto simp: prune_entry_def sub split: if_splits)
    moreover have "bans st \<le> 0 \<longrightarrow> bans st = 0" "0 < bans st \<longrightarrow> lastBan st \<noteq> zero_time"
      using assms(1) by (auto simp: wf_state_def)
    ultimately have "prior_bans st now' = 0"
      using assms(2) by (auto simp: prior_bans_def sub simp flip: not_le)
    with None show ?thesis by (simp add: st'_def prior_bans_def ipState0_def)
  next
    case (Some s)
    then have "bans s = bans st" "lastBan s = lastBan st"
      by (auto simp: prune_entry_def split: if_splits)
    with Some show ?thesis by (simp add: st'_def prior_bans_def)
  qed
qed

text \<open>
  Pruning cannot be observed: whatever \<open>Prune\<close> forgets at some instant, no later failure is
  treated differently. A later \<open>Observe\<close> with a user name returns the same ban (or none), and an
  address is banned afterwards exactly when it was before.
\<close>

lemma Prune_unobservable:
  assumes "tracker_inv t" "0 \<le> now" "now \<le> now'" "user \<noteq> []"
  shows "snd (Observe ip user now' (fst (Prune now t))) = snd (Observe ip user now' t) \<and>
         Banned (fst (Prune now t)) ip now' = Banned t ip now'"
proof -
  have wf: "wf_map (states t)" using assms(1) by (simp add: tracker_inv_def)
  let ?t = "fst (Prune now t)" and ?p = "tr_policy t"
  note get = get_Prune [OF wf, of now ip]
  have banned: "Banned ?t ip now' = Banned t ip now'"
    using assms(3) get by (auto simp: Banned_def prune_entry_def split: option.splits)
  have st: "wf_state (state_of t ip)" "0 < FindTime ?p"
    using wf_state_state_of [OF assms(1)] assms(1) by (simp_all add: tracker_inv_def wf_policy_def)
  have state: "state_of ?t ip =
      (case prune_entry ?p now (state_of t ip) of None \<Rightarrow> ipState0 | Some s \<Rightarrow> s)"
    using get by (auto simp: state_of_def prune_entry_def ipState0_def zero_time_def split: option.splits)
  note same = prune_entry_same [OF st(1) assms(3) st(2), folded state]
  have "snd (Observe ip user now' ?t) = snd (Observe ip user now' t)"
    using same assms(2-4) by (auto simp: Observe_def Let_def recent_failures_def prior_bans_def)
  with banned show ?thesis by simp
qed

text \<open>
  A ban holds until it expires or is lifted: after \<open>Observe\<close> bans an address, no sequence of
  further failures, imports, policy changes or pruning ends the ban before its end; only an
  unban of that address can.
\<close>

lemma ban_persists:
  assumes "Banned t ip now" "tracker_inv t"
    and "\<forall>e \<in> set es. tr_time_ok e \<and> e \<noteq> EvUnban ip \<and> (\<forall>a u n. e = EvObserve a u n \<longrightarrow> n \<le> now) \<and>
           (\<forall>n. e = EvPrune n \<longrightarrow> n \<le> now)"
  shows "Banned (tr_run es t) ip now"
  using assms
proof (induction es arbitrary: t)
  case (Cons e es)
  have "Banned (tr_apply e t) ip now"
  proof (cases e)
    case (EvObserve a u n)
    with Cons.prems(3) have "n \<le> now" by simp
    then show ?thesis using Cons.prems(1) EvObserve
      by (auto simp: Banned_def Observe_def Let_def state_of_def split: option.splits)
  next
    case (EvPrune n)
    with Cons.prems(3) have "n \<le> now" by simp
    then show ?thesis using Cons.prems(1,2) EvPrune
      by (auto simp: Banned_def tracker_inv_def get_Prune prune_entry_def split: option.splits)
  next
    case (EvUnban a)
    with Cons.prems show ?thesis by (auto simp: Banned_def Unban_def split: option.splits)
  qed (use Cons.prems(1) in \<open>auto simp: Banned_def Import_def SetPolicy_def state_of_def Let_def split: option.splits\<close>)
  moreover have "tracker_inv (tr_apply e t)" using Cons.prems by (simp add: tracker_inv_apply)
  ultimately show ?case using Cons.IH Cons.prems(3) by simp
qed simp

section \<open>The rate windows\<close>

text \<open>The stamps of a window are in order as long as time does not run backwards.\<close>

definition rw_run :: "time list \<Rightarrow> rateWindow \<Rightarrow> rateWindow" where
  "rw_run ts r = fold rw_Add ts r"

lemma rw_Add_sorted:
  assumes "sorted (stamps r)" "\<forall>s\<in>set (stamps r). s \<le> now"
  shows "stamps (rw_Add now r) = filter (\<lambda>s. now - window r < s) (stamps r @ [now])"
  using assms sorted_filter_after [of "stamps r @ [now]" "now - window r"]
  by (simp add: rw_Add_def trimLocked_def sorted_append)

lemma rw_Add_window [simp]: "window (rw_Add now r) = window r"
  by (simp add: rw_Add_def trimLocked_def)

lemma rw_run_stamps:
  "\<lbrakk>sorted ts; \<forall>x\<in>set ts. x \<le> now\<rbrakk> \<Longrightarrow>
     let r = rw_run ts (newRateWindow w) in
     window r = w \<and> sorted (stamps r) \<and> set (stamps r) \<subseteq> set ts \<and>
     filter (\<lambda>s. now - w < s) (stamps r) = filter (\<lambda>s. now - w < s) ts"
proof (induction ts arbitrary: now rule: rev_induct)
  case Nil
  then show ?case by (simp add: rw_run_def newRateWindow_def Let_def)
next
  case (snoc x ts)
  let ?r = "rw_run ts (newRateWindow w)"
  have IH: "window ?r = w" "sorted (stamps ?r)" "set (stamps ?r) \<subseteq> set ts"
      "filter (\<lambda>s. now - w < s) (stamps ?r) = filter (\<lambda>s. now - w < s) ts"
    using snoc by (auto simp: Let_def sorted_append)
  have le: "\<forall>s\<in>set (stamps ?r). s \<le> x" using IH(3) snoc.prems(1) by (auto simp: sorted_append)
  have r: "rw_run (ts @ [x]) (newRateWindow w) = rw_Add x ?r" by (simp add: rw_run_def)
  have "stamps (rw_Add x ?r) = filter (\<lambda>s. x - w < s) (stamps ?r @ [x])"
    using rw_Add_sorted [OF IH(2) le] IH(1) by simp
  moreover have "filter (\<lambda>s. now - w < s) (filter (\<lambda>s. x - w < s) ys) = filter (\<lambda>s. now - w < s) ys" for ys
    using snoc.prems(2) by (intro filter_filter_imp) simp
  ultimately show ?case
    using IH le snoc.prems by (auto simp: r Let_def sorted_append sorted_wrt_filter)
qed

text \<open>
  A rate window counts what it says: after events at non-decreasing instants, \<open>Count\<close> is
  the number of events in the last \<open>window\<close> nanoseconds.
\<close>

lemma rw_Count_correct:
  assumes "sorted ts" "\<forall>x \<in> set ts. x \<le> now"
  shows "snd (rw_Count now (rw_run ts (newRateWindow w))) = int (length (filter (\<lambda>s. now - w < s) ts))"
proof -
  let ?r = "rw_run ts (newRateWindow w)"
  have r: "window ?r = w" "sorted (stamps ?r)"
      "filter (\<lambda>s. now - w < s) (stamps ?r) = filter (\<lambda>s. now - w < s) ts"
    using rw_run_stamps [OF assms] by (simp_all add: Let_def)
  then show ?thesis
    by (simp add: rw_Count_def trimLocked_def Let_def sorted_filter_after)
qed

end
