(* ===== verification/Ban_Manager.thy ===== *)
theory Ban_Manager
  imports Ban_Guard Ban_Tracker
begin

text \<open>
  \<open>internal/agent/ipban/manager.go\<close> with the constants and the error classes of \<open>enforcer.go\<close>:
  the control loop that applies the server's policy, feeds failures to the tracker, writes bans
  to the packet filter and buffers events for the server. The packet filter (nftables) is not
  part of the model: its calls are recorded in a trace, together with the guard in force when
  they were made and their outcome, and which of them fail is decided by the environment, by position in the
  trace, so every pattern of failures is covered. A step takes the instant \<open>now\<close> once.
\<close>

section \<open>The enforcer\<close>

record fleetEntry =
  fe_IP :: addr
  fe_Timeout :: duration

record activeEntry =
  ae_IP :: addr
  ae_Expires :: duration

datatype eclass = Unsupported | PermissionDenied | UnsupportedErrno | OtherError

record eerr =
  ee_class :: eclass
  ee_text :: string

datatype ecall =
    CSetup
  | CActive
  | CAddLocal addr duration
  | CRemoveLocal addr
  | CFlushLocal
  | CReplaceFleet "fleetEntry list"
  | CClose

definition enforceOK :: string where "enforceOK = ''ok''"
definition enforceNoPermission :: string where "enforceNoPermission = ''no_permission''"
definition enforceUnsupported :: string where "enforceUnsupported = ''unsupported''"
definition enforceError :: string where "enforceError = ''error''"

definition maxLocalEntries :: int where "maxLocalEntries = 10000"
definition maxFleetEntries :: int where "maxFleetEntries = 50000"
definition minElementTTL :: duration where "minElementTTL = Second"

definition classifyEnforceError :: "eerr option \<Rightarrow> string" where
  "classifyEnforceError e = (case e of
     None \<Rightarrow> enforceOK
   | Some x \<Rightarrow> (case ee_class x of
       Unsupported \<Rightarrow> enforceUnsupported
     | PermissionDenied \<Rightarrow> enforceNoPermission
     | UnsupportedErrno \<Rightarrow> enforceUnsupported
     | OtherError \<Rightarrow> enforceError))"

section \<open>The state\<close>

record ipBanPolicy =
  po_Detect :: bool
  po_Enforce :: bool
  po_ApplyFleet :: bool
  po_Mode :: string
  po_MaxRetry :: int
  po_FindTimeS :: int
  po_BanTimeS :: int
  po_BanTimeMaxS :: int
  po_BanPrivate :: bool

record ipBanFleetEntry =
  wf_IP :: string
  wf_ExpiresAt :: time

record ipBanUnban =
  ub_IP :: string
  ub_At :: time

record ipBanConfig =
  bc_Version :: int
  bc_Policy :: ipBanPolicy
  bc_Allowlist :: "string list"
  bc_Fleet :: "ipBanFleetEntry list"
  bc_Unban :: "ipBanUnban list"

record ipBanEvent =
  be_ID :: string
  be_Time :: time
  be_IP :: string
  be_Action :: string
  be_Source :: string
  be_Failures :: int
  be_User :: string
  be_ExpiresAt :: "time option"
  be_Enforced :: bool
  be_Count :: int

record failure =
  fl_IP :: addr
  fl_User :: string
  fl_Time :: time
  fl_Source :: string

text \<open>The status a log source reports: name, state, message.\<close>

record sourceStatus =
  ss_Name :: string
  ss_State :: string
  ss_Message :: string

record source =
  so_aggressive :: bool
  so_status :: sourceStatus

record mgr =
  m_tracker :: tracker
  m_guard :: guard
  m_failuresWindow :: rateWindow
  m_bansWindow :: rateWindow
  m_supported :: bool
  m_capNetAdmin :: bool
  m_capKnown :: bool
  m_applied :: int
  m_havePolicy :: bool
  m_policy :: ipBanPolicy
  m_lastFetchErr :: string
  m_fetchFailures :: int
  m_source :: "source option"
  m_enforcer :: bool
  m_enforceState :: string
  m_enforceMessage :: string
  m_fleetEntries :: "ipBanFleetEntry list"
  m_fleetApplied :: int
  m_events :: "ipBanEvent list"
  m_droppedEvents :: int
  m_droppedFails :: int
  m_seenUnbans :: "(addr \<times> time, time) gomap"
  m_calls :: "(ecall \<times> guard \<times> eerr option) list"

record menv =
  mv_now :: time
  mv_err :: "nat \<Rightarrow> eerr option"
  mv_new_err :: "eerr option"
  mv_local :: "activeEntry list"
  mv_fleet :: "activeEntry list"
  mv_addrs :: "addr list"
  mv_id :: string

definition fetchRetryBase :: duration where "fetchRetryBase = 5 * Second"
definition fetchRetryMax :: duration where "fetchRetryMax = 5 * Minute"
definition maxBufferedEvents :: nat where "maxBufferedEvents = 2000"
definition maxEventsPerReport :: nat where "maxEventsPerReport = 500"
definition unbanMemory :: duration where "unbanMemory = 24 * Hour"

definition policy0 :: ipBanPolicy where
  "policy0 = \<lparr>po_Detect = False, po_Enforce = False, po_ApplyFleet = False, po_Mode = [], po_MaxRetry = 0,
     po_FindTimeS = 0, po_BanTimeS = 0, po_BanTimeMaxS = 0, po_BanPrivate = False\<rparr>"

definition New_manager :: "bool \<Rightarrow> bool \<Rightarrow> bool \<Rightarrow> mgr" where
  "New_manager linux capNetAdmin capKnown =
     \<lparr>m_tracker = NewTracker \<lparr>MaxRetry = 0, FindTime = 0, BanTime = 0, BanTimeMax = 0\<rparr>, m_guard = NewGuard,
      m_failuresWindow = newRateWindow Minute, m_bansWindow = newRateWindow Hour, m_supported = linux,
      m_capNetAdmin = capNetAdmin, m_capKnown = capKnown, m_applied = 0, m_havePolicy = False, m_policy = policy0,
      m_lastFetchErr = [], m_fetchFailures = 0, m_source = None, m_enforcer = False, m_enforceState = [],
      m_enforceMessage = [], m_fleetEntries = [], m_fleetApplied = 0, m_events = [], m_droppedEvents = 0,
      m_droppedFails = 0, m_seenUnbans = [], m_calls = []\<rparr>"

section \<open>The operations\<close>

text \<open>A call to the packet filter: it is recorded, and the environment says how it ends.\<close>

definition nft_call :: "menv \<Rightarrow> ecall \<Rightarrow> mgr \<Rightarrow> mgr \<times> eerr option" where
  "nft_call ev c m = (let e = mv_err ev (length (m_calls m)) in (m\<lparr>m_calls := m_calls m @ [(c, m_guard m, e)]\<rparr>, e))"

definition setEnforceError :: "eerr \<Rightarrow> mgr \<Rightarrow> mgr" where
  "setEnforceError e m =
     m\<lparr>m_enforceState := classifyEnforceError (Some e), m_enforceMessage := ''nftables update failed: '' @ ee_text e\<rparr>"

definition currentEnforcer :: "mgr \<Rightarrow> bool" where
  "currentEnforcer m = (if m_enforceState m \<noteq> enforceOK then False else m_enforcer m)"

definition pushEvent :: "menv \<Rightarrow> ipBanEvent \<Rightarrow> mgr \<Rightarrow> mgr" where
  "pushEvent ev e m =
     (let e = (if be_ID e = [] then e\<lparr>be_ID := mv_id ev\<rparr> else e);
          m = (if maxBufferedEvents \<le> length (m_events m)
               then m\<lparr>m_events := tl (m_events m), m_droppedEvents := m_droppedEvents m + 1\<rparr> else m)
      in m\<lparr>m_events := m_events m @ [e]\<rparr>)"

fun import_local :: "menv \<Rightarrow> activeEntry list \<Rightarrow> mgr \<Rightarrow> mgr \<times> bool" where
  "import_local ev [] m = (m, True)"
| "import_local ev (entry # es) m =
     (if Protected (m_guard m) (ae_IP entry) \<noteq> None then
        (case nft_call ev (CRemoveLocal (ae_IP entry)) m of
           (m, Some e) \<Rightarrow> (setEnforceError e (fst (nft_call ev CClose m)), False)
         | (m, None) \<Rightarrow> import_local ev es m)
      else if 0 < ae_Expires entry
        then import_local ev es (m\<lparr>m_tracker := Import (ae_IP entry) (mv_now ev + ae_Expires entry) (m_tracker m)\<rparr>)
      else import_local ev es m)"

definition setup_failed :: "eerr \<Rightarrow> mgr \<Rightarrow> mgr" where
  "setup_failed e m =
     (let kind = classifyEnforceError (Some e);
          message = (if kind = enforceNoPermission
             then ''nftables refused the agent despite CAP_NET_ADMIN (AppArmor or another LSM is probably confining it): '' @ ee_text e
             else if kind = enforceUnsupported
             then ''the kernel does not expose nf_tables, so bans cannot be enforced: '' @ ee_text e
             else ''nftables setup failed: '' @ ee_text e)
      in m\<lparr>m_enforceState := kind, m_enforceMessage := message\<rparr>)"

text \<open>The second half of \<open>ensureEnforcer\<close>: a new connection takes over what the packet filter holds.\<close>

definition setup_enforcer :: "menv \<Rightarrow> mgr \<Rightarrow> mgr \<times> bool" where
  "setup_enforcer ev m =
     (case mv_new_err ev of
        Some e \<Rightarrow> (setup_failed e m, False)
      | None \<Rightarrow>
          (case nft_call ev CSetup m of
             (m, Some e) \<Rightarrow> (setup_failed e (fst (nft_call ev CClose m)), False)
           | (m, None) \<Rightarrow>
               (case nft_call ev CActive m of (m, aerr) \<Rightarrow>
                  (let locals = (if aerr = None then mv_local ev else []);
                       fleet = (if aerr = None then mv_fleet ev else [])
                   in case import_local ev locals m of
                        (m, False) \<Rightarrow> (m, False)
                      | (m, True) \<Rightarrow>
                          (m\<lparr>m_enforcer := True, m_enforceState := enforceOK, m_enforceMessage := [],
                             m_fleetApplied := int (length fleet)\<rparr>, True)))))"

definition ensureEnforcer :: "menv \<Rightarrow> mgr \<Rightarrow> mgr \<times> bool" where
  "ensureEnforcer ev m =
     (if m_enforcer m \<and> m_enforceState m = enforceOK then (m, True)
      else if \<not> m_supported m then
        (m\<lparr>m_enforceState := enforceUnsupported, m_enforceMessage := ''ip banning is only supported on Linux agents''\<rparr>, False)
      else if m_capKnown m \<and> \<not> m_capNetAdmin m then
        (m\<lparr>m_enforceState := enforceNoPermission,
           m_enforceMessage := ''agent lacks CAP_NET_ADMIN, so bans cannot be written to nftables; reinstall with --enable-ipban (SM_ENABLE_IPBAN=1)''\<rparr>, False)
      else setup_enforcer ev (if m_enforcer m then fst (nft_call ev CClose (m\<lparr>m_enforcer := False\<rparr>)) else m))"

fun add_bans :: "menv \<Rightarrow> ban list \<Rightarrow> mgr \<Rightarrow> mgr" where
  "add_bans ev [] m = m"
| "add_bans ev (b # bs) m =
     (case nft_call ev (CAddLocal (ban_IP b) (time_Sub (ban_Until b) (mv_now ev))) m of
        (m, Some e) \<Rightarrow> setEnforceError e m
      | (m, None) \<Rightarrow> add_bans ev bs m)"

definition syncLocalFromTracker :: "menv \<Rightarrow> mgr \<Rightarrow> mgr" where
  "syncLocalFromTracker ev m =
     (if \<not> currentEnforcer m then m else add_bans ev (ActiveBans (m_tracker m) (mv_now ev)) m)"

definition disableEnforcement :: "menv \<Rightarrow> mgr \<Rightarrow> mgr" where
  "disableEnforcement ev m =
     (if \<not> m_enforcer m \<or> m_enforceState m \<noteq> enforceOK then m
      else (case nft_call ev CFlushLocal m of
        (m, Some e) \<Rightarrow> setEnforceError e m
      | (m, None) \<Rightarrow>
          (case nft_call ev (CReplaceFleet []) m of
             (m, Some e) \<Rightarrow> setEnforceError e m
           | (m, None) \<Rightarrow> m\<lparr>m_fleetApplied := 0\<rparr>)))"

text \<open>The end of a round of \<open>applyUnbans\<close>: the tracker forgets the address.\<close>

definition forget_ban :: "menv \<Rightarrow> addr \<Rightarrow> time \<Rightarrow> mgr \<Rightarrow> mgr" where
  "forget_ban ev ip t m =
     (let (tr, was) = Unban ip (m_tracker m);
          m = m\<lparr>m_tracker := tr, m_seenUnbans := put (ip, t) (mv_now ev) (m_seenUnbans m)\<rparr>
      in if was then pushEvent ev \<lparr>be_ID = [], be_Time = mv_now ev, be_IP = addr_String ip, be_Action = ''unban'',
              be_Source = ''server'', be_Failures = 0, be_User = [], be_ExpiresAt = None, be_Enforced = False,
              be_Count = 0\<rparr> m
         else m)"

text \<open>The loop of \<open>applyUnbans\<close>; \<open>e\<close> is the local variable that a failing call clears.\<close>

fun unban_loop :: "menv \<Rightarrow> bool \<Rightarrow> bool \<Rightarrow> ipBanUnban list \<Rightarrow> mgr \<Rightarrow> mgr" where
  "unban_loop ev want e [] m = m"
| "unban_loop ev want e (u # us) m =
     (case ParseAddr (ub_IP u) of
        None \<Rightarrow> unban_loop ev want e us m
      | Some ip0 \<Rightarrow>
          (let ip = Unmap ip0 in
           if get (m_seenUnbans m) (ip, ub_At u) \<noteq> None then unban_loop ev want e us m
           else if want \<and> \<not> e then unban_loop ev want e us m
           else if e then
             (case nft_call ev (CRemoveLocal ip) m of
                (m, Some x) \<Rightarrow> unban_loop ev want False us (setEnforceError x m)
              | (m, None) \<Rightarrow> unban_loop ev want e us (forget_ban ev ip (ub_At u) m))
           else unban_loop ev want e us (forget_ban ev ip (ub_At u) m)))"

definition applyUnbans :: "menv \<Rightarrow> ipBanUnban list \<Rightarrow> mgr \<Rightarrow> mgr" where
  "applyUnbans ev us m = unban_loop ev (m_havePolicy m \<and> po_Enforce (m_policy m)) (currentEnforcer m) us m"

definition pruneUnbans :: "menv \<Rightarrow> mgr \<Rightarrow> mgr" where
  "pruneUnbans ev m = m\<lparr>m_seenUnbans := filter (\<lambda>(k, seen). \<not> seen < mv_now ev - unbanMemory) (m_seenUnbans m)\<rparr>"

text \<open>The loop of \<open>applyFleet\<close>: the entries that are kept, up to the limit.\<close>

fun fleet_list :: "guard \<Rightarrow> time \<Rightarrow> int \<Rightarrow> ipBanFleetEntry list \<Rightarrow> fleetEntry list" where
  "fleet_list g now n [] = []"
| "fleet_list g now n (entry # es) =
     (case ParseAddr (wf_IP entry) of
        None \<Rightarrow> fleet_list g now n es
      | Some ip0 \<Rightarrow>
          (let ip = Unmap ip0; timeout = time_Sub (wf_ExpiresAt entry) now in
           if \<not> IsRoutable ip then fleet_list g now n es
           else if Protected g ip \<noteq> None then fleet_list g now n es
           else if timeout \<le> 0 then fleet_list g now n es
           else \<lparr>fe_IP = ip, fe_Timeout = timeout\<rparr> # (if maxFleetEntries \<le> n + 1 then [] else fleet_list g now (n + 1) es)))"

definition applyFleet :: "menv \<Rightarrow> ipBanFleetEntry list \<Rightarrow> mgr \<Rightarrow> mgr" where
  "applyFleet ev entries m =
     (let m = m\<lparr>m_fleetEntries := entries\<rparr>;
          want = m_havePolicy m \<and> po_Enforce (m_policy m) \<and> po_ApplyFleet (m_policy m);
          l = (if want then fleet_list (m_guard m) (mv_now ev) 0 entries else [])
      in if \<not> currentEnforcer m then m
         else (case nft_call ev (CReplaceFleet l) m of
           (m, Some e) \<Rightarrow> setEnforceError e m
         | (m, None) \<Rightarrow> m\<lparr>m_fleetApplied := int (length l)\<rparr>))"

fun reconcile_bans :: "menv \<Rightarrow> bool \<Rightarrow> ban list \<Rightarrow> mgr \<Rightarrow> mgr" where
  "reconcile_bans ev e [] m = m"
| "reconcile_bans ev e (b # bs) m =
     (if Protected (m_guard m) (ban_IP b) = None then reconcile_bans ev e bs m
      else
        (case (if e then nft_call ev (CRemoveLocal (ban_IP b)) m else (m, None)) of
           (m, Some x) \<Rightarrow> setEnforceError x m
         | (m, None) \<Rightarrow> reconcile_bans ev e bs (m\<lparr>m_tracker := fst (Unban (ban_IP b) (m_tracker m))\<rparr>)))"

definition reconcileProtected :: "menv \<Rightarrow> mgr \<Rightarrow> mgr" where
  "reconcileProtected ev m = reconcile_bans ev (currentEnforcer m) (ActiveBans (m_tracker m) (mv_now ev)) m"

text \<open>The addresses of the interfaces and of the control server come from the environment.\<close>

definition refreshLocalAddrs :: "menv \<Rightarrow> mgr \<Rightarrow> mgr" where
  "refreshLocalAddrs ev m =
     (let m = m\<lparr>m_guard := SetLocal (map Unmap (mv_addrs ev)) (m_guard m)\<rparr>;
          m = reconcileProtected ev m
      in applyFleet ev (m_fleetEntries m) m)"

definition retryEnforcer :: "menv \<Rightarrow> mgr \<Rightarrow> mgr" where
  "retryEnforcer ev m =
     (if \<not> (m_havePolicy m \<and> po_Enforce (m_policy m)) \<or> m_enforceState m = enforceOK then m
      else (case ensureEnforcer ev m of
        (m, False) \<Rightarrow> m
      | (m, True) \<Rightarrow> (let m = syncLocalFromTracker ev m in applyFleet ev (m_fleetEntries m) m)))"

definition starting_status :: sourceStatus where
  "starting_status = \<lparr>ss_Name = ''sshd'', ss_State = ''starting'', ss_Message = []\<rparr>"

definition startSource :: "bool \<Rightarrow> mgr \<Rightarrow> mgr" where
  "startSource aggressive m =
     (if m_source m \<noteq> None then m
      else m\<lparr>m_source := Some \<lparr>so_aggressive = aggressive, so_status = starting_status\<rparr>\<rparr>)"

definition stopSource :: "mgr \<Rightarrow> mgr" where
  "stopSource m = m\<lparr>m_source := None\<rparr>"

text \<open>Enforcement without an allowlist is refused.\<close>

definition safe_policy :: "ipBanConfig \<Rightarrow> ipBanPolicy" where
  "safe_policy cfg =
     (if po_Enforce (bc_Policy cfg) \<and> fst (ParseAllowlist (bc_Allowlist cfg)) = []
      then (bc_Policy cfg)\<lparr>po_Enforce := False\<rparr> else bc_Policy cfg)"

text \<open>The first part of \<open>apply\<close>: tracker, guard and policy are set.\<close>

definition install_policy :: "ipBanConfig \<Rightarrow> mgr \<Rightarrow> mgr" where
  "install_policy cfg m =
     (let pol = bc_Policy cfg;
          m = m\<lparr>m_tracker := SetPolicy \<lparr>MaxRetry = po_MaxRetry pol, FindTime = i64 (po_FindTimeS pol * Second),
                  BanTime = i64 (po_BanTimeS pol * Second), BanTimeMax = i64 (po_BanTimeMaxS pol * Second)\<rparr> (m_tracker m)\<rparr>;
          prefixes = fst (ParseAllowlist (bc_Allowlist cfg));
          m = m\<lparr>m_guard := SetBanPrivate (po_BanPrivate pol) (SetAllowlist prefixes (m_guard m))\<rparr>
      in m\<lparr>m_policy := safe_policy cfg, m_havePolicy := True, m_applied := bc_Version cfg,
           m_source := map_option (\<lambda>s. s\<lparr>so_aggressive := (po_Mode pol = ''aggressive'')\<rparr>) (m_source m)\<rparr>)"

definition apply_config :: "menv \<Rightarrow> ipBanConfig \<Rightarrow> mgr \<Rightarrow> mgr" where
  "apply_config ev cfg m =
     (let prevEnforce = m_havePolicy m \<and> po_Enforce (m_policy m);
          pol = safe_policy cfg;
          m = refreshLocalAddrs ev (install_policy cfg m);
          m = (if po_Detect pol then startSource (po_Mode pol = ''aggressive'') m else stopSource m);
          m = (if po_Enforce pol then
                 (case ensureEnforcer ev m of
                    (m, ready) \<Rightarrow> if ready \<and> \<not> prevEnforce then syncLocalFromTracker ev m else m)
               else disableEnforcement ev m);
          m = reconcileProtected ev m;
          m = applyUnbans ev (bc_Unban cfg) m
      in applyFleet ev (bc_Fleet cfg) m)"

definition fetch_wait :: "int \<Rightarrow> duration" where
  "fetch_wait n = (let wait = i64 (fetchRetryBase * 2 ^ nat (min (n - 1) 6)) in if fetchRetryMax < wait then fetchRetryMax else wait)"

text \<open>\<open>fetch\<close>: the delay of the next attempt, if one is set, is the second result.\<close>

definition fetch :: "menv \<Rightarrow> string + ipBanConfig option \<Rightarrow> mgr \<Rightarrow> mgr \<times> duration option" where
  "fetch ev res m =
     (case res of
        Inl err \<Rightarrow>
          (let m = m\<lparr>m_fetchFailures := m_fetchFailures m + 1, m_lastFetchErr := err\<rparr>
           in (m, Some (fetch_wait (m_fetchFailures m))))
      | Inr cfg \<Rightarrow>
          (let m = m\<lparr>m_fetchFailures := 0, m_lastFetchErr := []\<rparr>
           in case cfg of None \<Rightarrow> (m, None) | Some c \<Rightarrow> (apply_config ev c m, None)))"

definition failureEventTime :: "time \<Rightarrow> time \<Rightarrow> time" where
  "failureEventTime t now = (if t = zero_time \<or> now + 2 * Minute < t then now else t)"

definition handleFailure :: "menv \<Rightarrow> failure \<Rightarrow> mgr \<Rightarrow> mgr" where
  "handleFailure ev f m =
     (let now = mv_now ev; findTime = i64 (po_FindTimeS (m_policy m) * Second) in
      if fl_Time f \<noteq> zero_time \<and> 0 < findTime \<and> fl_Time f < now - findTime then m
      else
        (let m = m\<lparr>m_failuresWindow := rw_Add now (m_failuresWindow m)\<rparr> in
         if Protected (m_guard m) (fl_IP f) \<noteq> None then m
         else
           (case Observe (fl_IP f) (fl_User f) now (m_tracker m) of
              (t, None) \<Rightarrow> m\<lparr>m_tracker := t\<rparr>
            | (t, Some b) \<Rightarrow>
                (let m = m\<lparr>m_tracker := t, m_bansWindow := rw_Add now (m_bansWindow m)\<rparr>;
                     (m, enforced) =
                       (if m_havePolicy m \<and> po_Enforce (m_policy m) \<and> currentEnforcer m then
                          (if maxLocalEntries < int (length (ActiveBans (m_tracker m) now)) then (m, False)
                           else (case nft_call ev (CAddLocal (ban_IP b) (time_Sub (ban_Until b) now)) m of
                                   (m, Some e) \<Rightarrow> (setEnforceError e m, False)
                                 | (m, None) \<Rightarrow> (m, True)))
                        else (m, False))
                 in pushEvent ev \<lparr>be_ID = [], be_Time = failureEventTime (fl_Time f) now, be_IP = addr_String (ban_IP b),
                      be_Action = ''ban'', be_Source = fl_Source f, be_Failures = ban_Failures b, be_User = ban_User b,
                      be_ExpiresAt = Some (ban_Until b), be_Enforced = enforced, be_Count = ban_Count b\<rparr> m))))"

definition prune_step :: "menv \<Rightarrow> mgr \<Rightarrow> mgr" where
  "prune_step ev m = retryEnforcer ev (pruneUnbans ev (m\<lparr>m_tracker := fst (Prune (mv_now ev) (m_tracker m))\<rparr>))"

definition shutdown :: "menv \<Rightarrow> mgr \<Rightarrow> mgr" where
  "shutdown ev m =
     (let m = stopSource m; e = m_enforcer m; m = m\<lparr>m_enforcer := False\<rparr>
      in if e then fst (nft_call ev CClose m) else m)"

section \<open>Reports\<close>

record ipBanReport =
  rr_Supported :: bool
  rr_Detect :: string
  rr_DetectMessage :: string
  rr_Enforce :: string
  rr_EnforceMessage :: string
  rr_Sources :: "sourceStatus list"
  rr_ActiveLocal :: int
  rr_FleetApplied :: int
  rr_AppliedVersion :: int
  rr_DroppedEvents :: int
  rr_DroppedFails :: int
  rr_Events :: "ipBanEvent list"

definition policy_wait_message :: "mgr \<Rightarrow> string" where
  "policy_wait_message m =
     (if m_lastFetchErr m \<noteq> [] then ''policy fetch failing: '' @ m_lastFetchErr m else ''waiting for the server policy'')"

definition Report :: "time \<Rightarrow> mgr \<Rightarrow> ipBanReport" where
  "Report now m =
     (let r = \<lparr>rr_Supported = m_supported m, rr_Detect = [], rr_DetectMessage = [], rr_Enforce = [], rr_EnforceMessage = [],
            rr_Sources = [], rr_ActiveLocal = int (length (ActiveBans (m_tracker m) now)), rr_FleetApplied = m_fleetApplied m,
            rr_AppliedVersion = m_applied m, rr_DroppedEvents = m_droppedEvents m, rr_DroppedFails = m_droppedFails m,
            rr_Events = take maxEventsPerReport (m_events m)\<rparr>
      in if \<not> m_supported m then
           r\<lparr>rr_Detect := ''unsupported'', rr_Enforce := ''unsupported'', rr_DetectMessage := ''ip banning is only supported on Linux agents''\<rparr>
         else if \<not> m_havePolicy m then
           r\<lparr>rr_Detect := ''pending'', rr_Enforce := ''pending'', rr_DetectMessage := policy_wait_message m\<rparr>
         else
           (let r = (if \<not> po_Detect (m_policy m) then r\<lparr>rr_Detect := ''disabled''\<rparr>
                     else (case m_source m of
                       Some s \<Rightarrow> r\<lparr>rr_Detect := ss_State (so_status s), rr_DetectMessage := ss_Message (so_status s),
                                   rr_Sources := [so_status s]\<rparr>
                     | None \<Rightarrow> r\<lparr>rr_Detect := ''starting''\<rparr>))
            in if \<not> po_Enforce (m_policy m) then r\<lparr>rr_Enforce := ''observe''\<rparr>
               else if m_enforceState m = [] then r\<lparr>rr_Enforce := ''starting''\<rparr>
               else r\<lparr>rr_Enforce := m_enforceState m, rr_EnforceMessage := m_enforceMessage m\<rparr>))"

definition AcknowledgeEvents :: "ipBanEvent list \<Rightarrow> mgr \<Rightarrow> mgr" where
  "AcknowledgeEvents evs m =
     (if evs = [] then m
      else (let acked = set (map be_ID (filter (\<lambda>e. be_ID e \<noteq> []) evs))
            in m\<lparr>m_events := filter (\<lambda>e. be_ID e \<notin> acked) (m_events m)\<rparr>))"

record collectorStatus =
  cs_State :: string
  cs_Message :: string

definition Status :: "mgr \<Rightarrow> collectorStatus" where
  "Status m =
     (if \<not> m_supported m then \<lparr>cs_State = ''unsupported'', cs_Message = ''ip banning is only supported on Linux agents''\<rparr>
      else if \<not> m_havePolicy m then \<lparr>cs_State = ''pending'', cs_Message = policy_wait_message m\<rparr>
      else if \<not> po_Detect (m_policy m) then \<lparr>cs_State = ''disabled'', cs_Message = []\<rparr>
      else
        (let enforcement =
           (if po_Enforce (m_policy m) then
              (if m_enforceState m = enforceNoPermission then \<lparr>cs_State = ''no_caps'', cs_Message = m_enforceMessage m\<rparr>
               else if m_enforceState m = enforceUnsupported then \<lparr>cs_State = ''unsupported'', cs_Message = m_enforceMessage m\<rparr>
               else if m_enforceState m = enforceError then \<lparr>cs_State = ''error'', cs_Message = m_enforceMessage m\<rparr>
               else \<lparr>cs_State = ''ok'', cs_Message = []\<rparr>)
            else \<lparr>cs_State = ''observe'', cs_Message = []\<rparr>)
         in case m_source m of
              None \<Rightarrow> enforcement
            | Some s \<Rightarrow>
                if ss_State (so_status s) = ''no_permission'' \<or> ss_State (so_status s) = ''unavailable''
                then \<lparr>cs_State = ''no_journal'', cs_Message = ss_Message (so_status s)\<rparr>
                else if ss_State (so_status s) = ''error'' then \<lparr>cs_State = ''error'', cs_Message = ss_Message (so_status s)\<rparr>
                else enforcement))"

text \<open>\<open>Points\<close>: the numbers of the metrics (\<open>pkg/metrics\<close>) with their values; counting trims the two windows.\<close>

definition Points :: "time \<Rightarrow> mgr \<Rightarrow> mgr \<times> (int \<times> int) list" where
  "Points now m =
     (if \<not> (m_havePolicy m \<and> po_Detect (m_policy m)) then (m, [])
      else (let (fw, fails) = rw_Count now (m_failuresWindow m); (bw, bans) = rw_Count now (m_bansWindow m)
            in (m\<lparr>m_failuresWindow := fw, m_bansWindow := bw\<rparr>,
                [(1100, fails), (1101, bans),
                 (1102, int (length (ActiveBans (m_tracker m) now))), (1103, m_fleetApplied m)])))"

section \<open>The loop\<close>

datatype mstep =
    StFetch "string + ipBanConfig option"
  | StFailure failure
  | StPrune
  | StRefresh
  | StAck "ipBanEvent list"
  | StSourceStatus sourceStatus

fun mrun1 :: "menv \<Rightarrow> mstep \<Rightarrow> mgr \<Rightarrow> mgr" where
  "mrun1 ev (StFetch res) m = fst (fetch ev res m)"
| "mrun1 ev (StFailure f) m = handleFailure ev f m"
| "mrun1 ev StPrune m = prune_step ev m"
| "mrun1 ev StRefresh m = refreshLocalAddrs ev m"
| "mrun1 ev (StAck evs) m = AcknowledgeEvents evs m"
| "mrun1 ev (StSourceStatus st) m = m\<lparr>m_source := map_option (\<lambda>s. s\<lparr>so_status := st\<rparr>) (m_source m)\<rparr>"

fun mrun :: "(menv \<times> mstep) list \<Rightarrow> mgr \<Rightarrow> mgr" where
  "mrun [] m = m"
| "mrun ((ev, s) # rest) m = mrun rest (mrun1 ev s m)"

section \<open>What the packet filter is told\<close>

text \<open>
  A call is harmless if it bans no protected address: an address added to the local set is not
  protected by the guard in force, and the fleet set gets only routable unprotected addresses
  with a positive lifetime, at most the limit of them.
\<close>

fun harmless :: "ecall \<Rightarrow> guard \<Rightarrow> bool" where
  "harmless (CAddLocal ip d) g = (Protected g ip = None)"
| "harmless (CReplaceFleet es) g =
     (int (length es) \<le> maxFleetEntries \<and>
      list_all (\<lambda>e. IsRoutable (fe_IP e) \<and> Protected g (fe_IP e) = None \<and> 0 < fe_Timeout e) es)"
| "harmless _ g = True"

definition trace_ok :: "mgr \<Rightarrow> bool" where
  "trace_ok m \<longleftrightarrow> list_all (\<lambda>(c, g, e). harmless c g) (m_calls m)"

text \<open>No removal of an address from the packet filter failed.\<close>

fun is_remove :: "ecall \<Rightarrow> bool" where
  "is_remove (CRemoveLocal ip) = True"
| "is_remove _ = False"

definition removes_ok :: "mgr \<Rightarrow> bool" where
  "removes_ok m \<longleftrightarrow> list_all (\<lambda>(c, g, e). is_remove c \<longrightarrow> e = None) (m_calls m)"

definition clean :: "time \<Rightarrow> mgr \<Rightarrow> bool" where
  "clean now m \<longleftrightarrow> (\<forall>ip. Banned (m_tracker m) ip now \<longrightarrow> Protected (m_guard m) ip = None)"

definition winv :: "mgr \<Rightarrow> bool" where
  "winv m \<longleftrightarrow> wf_map (states (m_tracker m)) \<and> (removes_ok m \<longrightarrow> trace_ok m)"

definition minv :: "time \<Rightarrow> mgr \<Rightarrow> bool" where
  "minv now m \<longleftrightarrow> winv m \<and> (removes_ok m \<longrightarrow> clean now m)"

lemmas inv_defs = minv_def winv_def clean_def trace_ok_def removes_ok_def

lemma minv_cong:
  "\<lbrakk>m_tracker m' = m_tracker m; m_guard m' = m_guard m; m_calls m' = m_calls m\<rbrakk> \<Longrightarrow> minv now m' = minv now m"
  "\<lbrakk>m_tracker m' = m_tracker m; m_calls m' = m_calls m\<rbrakk> \<Longrightarrow> winv m' = winv m"
  by (simp_all add: inv_defs)

lemma nft_call_same [simp]:
  "m_tracker (fst (nft_call ev c m)) = m_tracker m" "m_guard (fst (nft_call ev c m)) = m_guard m"
  "m_fleetEntries (fst (nft_call ev c m)) = m_fleetEntries m"
  by (simp_all add: nft_call_def Let_def)

lemma removes_ok_call: "removes_ok (fst (nft_call ev c m)) \<longleftrightarrow> removes_ok m \<and> (is_remove c \<longrightarrow> snd (nft_call ev c m) = None)"
  by (simp add: removes_ok_def nft_call_def Let_def)

lemma trace_ok_call: "trace_ok (fst (nft_call ev c m)) \<longleftrightarrow> trace_ok m \<and> harmless c (m_guard m)"
  by (simp add: trace_ok_def nft_call_def Let_def)

lemma winv_call: "\<lbrakk>winv m; removes_ok m \<Longrightarrow> harmless c (m_guard m)\<rbrakk> \<Longrightarrow> winv (fst (nft_call ev c m))"
  by (auto simp: winv_def removes_ok_call trace_ok_call)

lemma minv_call: "\<lbrakk>minv now m; removes_ok m \<Longrightarrow> harmless c (m_guard m)\<rbrakk> \<Longrightarrow> minv now (fst (nft_call ev c m))"
  by (auto simp: minv_def clean_def removes_ok_call intro: winv_call)

lemma inv_enforce [simp]:
  "minv now (setEnforceError e m) = minv now m" "winv (setEnforceError e m) = winv m"
  "minv now (setup_failed e m) = minv now m" "minv now (pushEvent ev x m) = minv now m" "winv (pushEvent ev x m) = winv m"
  by (rule minv_cong; simp add: setEnforceError_def setup_failed_def pushEvent_def Let_def)+

section \<open>The tracker's bans\<close>

lemma Banned_Import: "Banned (Import ip until t) ip' now \<Longrightarrow> ip' = ip \<or> Banned t ip' now"
  by (auto simp: Banned_def Import_def Let_def split: option.splits if_splits)

lemma Banned_Observe: "Banned (fst (Observe ip u now t)) ip' now' \<Longrightarrow> ip' = ip \<or> Banned t ip' now'"
  by (auto simp: Banned_def Observe_def Let_def split: option.splits if_splits)

lemma Banned_Unban: "Banned (fst (Unban ip t)) ip' now \<longleftrightarrow> ip' \<noteq> ip \<and> Banned t ip' now"
  by (auto simp: Banned_def Unban_def split: option.splits)

lemma Banned_SetPolicy [simp]: "Banned (SetPolicy p t) = Banned t"
  by (intro ext) (simp add: Banned_def SetPolicy_def)

lemma Banned_Prune: "\<lbrakk>wf_map (states t); Banned (fst (Prune now t)) ip now'\<rbrakk> \<Longrightarrow> Banned t ip now'"
  by (auto simp: Banned_def get_Prune prune_entry_def split: option.splits if_splits)

lemma Banned_later: "\<lbrakk>Banned t ip now'; now \<le> now'\<rbrakk> \<Longrightarrow> Banned t ip now"
  by (auto simp: Banned_def split: option.splits)

lemma wf_states [simp]:
  "wf_map (states t) \<Longrightarrow> wf_map (states (Import ip until t))"
  "wf_map (states t) \<Longrightarrow> wf_map (states (fst (Observe ip u now t)))"
  "wf_map (states t) \<Longrightarrow> wf_map (states (fst (Unban ip t)))"
  "wf_map (states t) \<Longrightarrow> wf_map (states (SetPolicy p t))"
  "wf_map (states t) \<Longrightarrow> wf_map (states (fst (Prune now t)))"
  using wf_map_prune_map [of "states t" "tr_policy t" now]
  by (simp_all add: Import_def Observe_def Unban_def SetPolicy_def Prune_def Let_def case_prod_beta split: option.split)

lemma ActiveBans_Banned:
  "wf_map (states t) \<Longrightarrow> ip \<in> ban_IP ` set (ActiveBans t now) \<longleftrightarrow> Banned t ip now"
proof -
  assume wf: "wf_map (states t)"
  have "ban_IP ` set (ActiveBans t now) = fst ` {e \<in> set (states t). now < bannedUntil (snd e)}"
    by (simp add: ActiveBans_def active_ban_def image_image case_prod_beta)
  moreover have "ip \<in> fst ` {e \<in> set (states t). now < bannedUntil (snd e)} \<longleftrightarrow>
      (\<exists>st. (ip, st) \<in> set (states t) \<and> now < bannedUntil st)" by force
  ultimately show ?thesis using wf by (simp add: Banned_def get_set split: option.split)
qed

lemma Observe_ban_IP: "Observe ip u now t = (t', Some b) \<Longrightarrow> ban_IP b = ip"
  by (auto simp: Observe_def Let_def split: if_splits)

lemma minv_later: "\<lbrakk>minv now m; now \<le> now'\<rbrakk> \<Longrightarrow> minv now' m"
  by (auto simp: minv_def clean_def dest: Banned_later)

lemma minv_tracker:
  "\<lbrakk>minv now m; wf_map (states t); \<And>ip. \<lbrakk>removes_ok m; Banned t ip now\<rbrakk> \<Longrightarrow> Banned (m_tracker m) ip now \<or> Protected (m_guard m) ip = None\<rbrakk>
    \<Longrightarrow> minv now (m\<lparr>m_tracker := t\<rparr>)"
  by (auto simp: inv_defs)

section \<open>Every operation keeps to it\<close>

lemma minv_import_local: "minv (mv_now ev) m \<Longrightarrow> minv (mv_now ev) (fst (import_local ev es m))"
proof (induction es arbitrary: m)
  case (Cons entry es)
  have call: "minv (mv_now ev) (fst (nft_call ev (CRemoveLocal (ae_IP entry)) m))"
    using Cons.prems by (rule minv_call) simp
  have imp: "minv (mv_now ev) (m\<lparr>m_tracker := Import (ae_IP entry) u (m_tracker m)\<rparr>)" if "Protected (m_guard m) (ae_IP entry) = None" for u
    using Cons.prems that by (intro minv_tracker) (auto simp: minv_def winv_def dest: Banned_Import)
  show ?case
    using call imp Cons minv_call [OF call, of CClose]
    by (auto simp: case_prod_beta split: option.split)
qed simp

lemma minv_fields:
  "minv now (m\<lparr>m_enforcer := x\<rparr>) = minv now m" "minv now (m\<lparr>m_enforceState := y\<rparr>) = minv now m"
  "minv now (m\<lparr>m_enforceMessage := z\<rparr>) = minv now m" "minv now (m\<lparr>m_fleetApplied := i\<rparr>) = minv now m"
  "minv now (m\<lparr>m_fleetEntries := f\<rparr>) = minv now m" "minv now (m\<lparr>m_source := so\<rparr>) = minv now m"
  "minv now (m\<lparr>m_seenUnbans := su\<rparr>) = minv now m" "minv now (m\<lparr>m_failuresWindow := w\<rparr>) = minv now m"
  "minv now (m\<lparr>m_bansWindow := w\<rparr>) = minv now m" "minv now (m\<lparr>m_fetchFailures := i\<rparr>) = minv now m"
  "minv now (m\<lparr>m_lastFetchErr := z\<rparr>) = minv now m" "minv now (m\<lparr>m_events := es\<rparr>) = minv now m"
  "winv (m\<lparr>m_fleetEntries := f\<rparr>) = winv m" "winv (m\<lparr>m_fleetApplied := i\<rparr>) = winv m"
  by (rule minv_cong; simp)+

lemma minv_setup: "minv (mv_now ev) m \<Longrightarrow> minv (mv_now ev) (fst (setup_enforcer ev m))"
proof -
  assume m: "minv (mv_now ev) m"
  have 2: "minv (mv_now ev) (fst (nft_call ev CSetup m))" using m by (rule minv_call) simp
  have c2: "minv (mv_now ev) (fst (nft_call ev CClose (fst (nft_call ev CSetup m))))" using 2 by (rule minv_call) simp
  have 3: "minv (mv_now ev) (fst (nft_call ev CActive (fst (nft_call ev CSetup m))))" using 2 by (rule minv_call) simp
  note 4 = minv_import_local [OF 3]
  show ?thesis
    using m c2 3 4 by (simp add: setup_enforcer_def Let_def case_prod_beta minv_fields split: option.split bool.split)
qed

lemma minv_ensureEnforcer: "minv (mv_now ev) m \<Longrightarrow> minv (mv_now ev) (fst (ensureEnforcer ev m))"
  using minv_setup [of ev m] minv_setup [of ev "fst (nft_call ev CClose (m\<lparr>m_enforcer := False\<rparr>))"]
    minv_call [of "mv_now ev" "m\<lparr>m_enforcer := False\<rparr>" CClose ev]
  by (simp add: ensureEnforcer_def minv_fields)

lemma minv_add_bans:
  "\<lbrakk>minv now m; removes_ok m \<Longrightarrow> \<forall>b\<in>set bs. Protected (m_guard m) (ban_IP b) = None\<rbrakk> \<Longrightarrow> minv now (add_bans ev bs m)"
proof (induction bs arbitrary: m)
  case (Cons b bs)
  let ?c = "nft_call ev (CAddLocal (ban_IP b) (time_Sub (ban_Until b) (mv_now ev))) m"
  have "minv now (fst ?c)" using Cons.prems by (intro minv_call) auto
  moreover have "removes_ok (fst ?c) \<Longrightarrow> \<forall>b\<in>set bs. Protected (m_guard (fst ?c)) (ban_IP b) = None"
    using Cons.prems(2) by (simp add: removes_ok_call)
  ultimately show ?case using Cons.IH [of "fst ?c"] by (simp add: case_prod_beta split: option.split)
qed simp

lemma minv_sync: "minv (mv_now ev) m \<Longrightarrow> minv (mv_now ev) (syncLocalFromTracker ev m)"
proof -
  assume m: "minv (mv_now ev) m"
  then have "removes_ok m \<Longrightarrow> \<forall>b\<in>set (ActiveBans (m_tracker m) (mv_now ev)). Protected (m_guard m) (ban_IP b) = None"
    using ActiveBans_Banned [of "m_tracker m" _ "mv_now ev"] by (auto simp: minv_def winv_def clean_def)
  with m show ?thesis by (simp add: syncLocalFromTracker_def minv_add_bans)
qed

lemma minv_disable: "minv now m \<Longrightarrow> minv now (disableEnforcement ev m)"
proof -
  assume m: "minv now m"
  have 1: "minv now (fst (nft_call ev CFlushLocal m))" using m by (rule minv_call) simp
  have 2: "minv now (fst (nft_call ev (CReplaceFleet []) (fst (nft_call ev CFlushLocal m))))"
    using 1 by (rule minv_call) (simp add: maxFleetEntries_def)
  show ?thesis using m 1 2 by (simp add: disableEnforcement_def case_prod_beta minv_fields split: option.split)
qed

lemma minv_Unban: "minv now m \<Longrightarrow> minv now (m\<lparr>m_tracker := fst (Unban ip (m_tracker m))\<rparr>)"
  by (rule minv_tracker) (auto simp: minv_def winv_def Banned_Unban)

lemma minv_forget: "minv now m \<Longrightarrow> minv now (forget_ban ev ip t m)"
  using minv_Unban [of now m ip] by (simp add: forget_ban_def case_prod_beta Let_def minv_fields)

lemma minv_unban_loop: "minv now m \<Longrightarrow> minv now (unban_loop ev want e us m)"
proof (induction us arbitrary: m e want)
  case (Cons u us)
  have call: "minv now (fst (nft_call ev (CRemoveLocal ip) m))" for ip using Cons.prems by (rule minv_call) simp
  show ?case
    using Cons call minv_forget [OF Cons.prems] minv_forget [OF call]
    by (simp add: case_prod_beta Let_def split: option.split)
qed simp

lemma minv_applyUnbans: "minv now m \<Longrightarrow> minv now (applyUnbans ev us m)"
  by (simp add: applyUnbans_def minv_unban_loop)

lemma fleet_list_harmless:
  "n < maxFleetEntries \<Longrightarrow> int (length (fleet_list g now n es)) \<le> maxFleetEntries - n \<and>
     list_all (\<lambda>e. IsRoutable (fe_IP e) \<and> Protected g (fe_IP e) = None \<and> 0 < fe_Timeout e) (fleet_list g now n es)"
proof (induction es arbitrary: n)
  case (Cons e es)
  show ?case
  proof (cases "n + 1 < maxFleetEntries")
    case True
    with Cons.prems Cons.IH [OF Cons.prems] Cons.IH [OF True] show ?thesis by (simp add: Let_def split: option.split)
  next
    case False
    with Cons.prems Cons.IH [OF Cons.prems] show ?thesis by (simp add: Let_def split: option.split)
  qed
qed simp

lemma fleet_call_harmless: "harmless (CReplaceFleet (if want then fleet_list g now 0 es else [])) g"
  using fleet_list_harmless [of 0 g now es] by (simp add: maxFleetEntries_def)

lemma minv_applyFleet: "minv now m \<Longrightarrow> minv now (applyFleet ev es m)"
proof -
  assume m: "minv now m"
  have "minv now (fst (nft_call ev (CReplaceFleet (if want then fleet_list (m_guard m) (mv_now ev) 0 es else [])) (m\<lparr>m_fleetEntries := es\<rparr>)))" for want
    by (rule minv_call) (use m fleet_call_harmless in \<open>simp_all add: minv_fields\<close>)
  from this [of True] this [of False] show ?thesis
    using m by (simp add: applyFleet_def Let_def case_prod_beta minv_fields split: option.split)
qed

lemma winv_Unban: "winv m \<Longrightarrow> winv (m\<lparr>m_tracker := fst (Unban ip (m_tracker m))\<rparr>)"
  by (simp add: winv_def removes_ok_def trace_ok_def)

lemma minv_reconcile_bans:
  "\<lbrakk>winv m; removes_ok m \<Longrightarrow> \<forall>ip. Banned (m_tracker m) ip now \<longrightarrow> Protected (m_guard m) ip \<noteq> None \<longrightarrow> ip \<in> ban_IP ` set bs\<rbrakk>
    \<Longrightarrow> minv now (reconcile_bans ev e bs m)"
proof (induction bs arbitrary: m)
  case Nil
  then show ?case by (auto simp: minv_def clean_def)
next
  case (Cons b bs)
  let ?m = "if e then fst (nft_call ev (CRemoveLocal (ban_IP b)) m) else m"
  let ?u = "?m\<lparr>m_tracker := fst (Unban (ban_IP b) (m_tracker ?m))\<rparr>"
  have w: "winv ?m" using Cons.prems(1) winv_call by auto
  have r: "removes_ok ?u \<Longrightarrow> removes_ok m" by (auto simp: removes_ok_def nft_call_def Let_def split: if_splits)
  have u: "minv now (reconcile_bans ev e bs ?u)"
    by (rule Cons.IH [OF winv_Unban [OF w]]) (use Cons.prems(2) r in \<open>auto simp: Banned_Unban\<close>)
  have fail: "minv now (fst (nft_call ev (CRemoveLocal (ban_IP b)) m))" if "snd (nft_call ev (CRemoveLocal (ban_IP b)) m) \<noteq> None"
    using that Cons.prems(1) by (auto simp: minv_def winv_def removes_ok_call)
  have skip: "minv now (reconcile_bans ev e bs m)" if "Protected (m_guard m) (ban_IP b) = None"
    by (rule Cons.IH [OF Cons.prems(1)]) (use Cons.prems(2) that in auto)
  show ?case using u fail skip by (cases e) (simp_all add: case_prod_beta split: option.split)
qed

lemma minv_reconcileProtected: "winv m \<Longrightarrow> minv (mv_now ev) (reconcileProtected ev m)"
  unfolding reconcileProtected_def
  by (rule minv_reconcile_bans) (auto simp: ActiveBans_Banned winv_def)

lemma minv_winv: "minv now m \<Longrightarrow> winv m"
  by (simp add: minv_def)

lemma minv_refresh: "winv m \<Longrightarrow> minv (mv_now ev) (refreshLocalAddrs ev m)"
  by (simp add: refreshLocalAddrs_def Let_def minv_applyFleet minv_reconcileProtected minv_cong(2) [of "m\<lparr>m_guard := _\<rparr>" m])

lemma minv_retry: "minv (mv_now ev) m \<Longrightarrow> minv (mv_now ev) (retryEnforcer ev m)"
  using minv_ensureEnforcer [of ev m] minv_sync [of ev "fst (ensureEnforcer ev m)"]
  by (simp add: retryEnforcer_def Let_def case_prod_beta minv_applyFleet split: bool.split)

lemma winv_install: "winv m \<Longrightarrow> winv (install_policy cfg m)"
  by (simp add: install_policy_def Let_def winv_def removes_ok_def trace_ok_def)

lemma minv_source: "minv now (startSource a m) = minv now m" "minv now (stopSource m) = minv now m"
  by (simp_all add: startSource_def stopSource_def minv_fields)

lemma minv_apply: "winv m \<Longrightarrow> minv (mv_now ev) (apply_config ev cfg m)"
proof -
  assume w: "winv m"
  let ?m1 = "if po_Detect (safe_policy cfg) then startSource (po_Mode (safe_policy cfg) = ''aggressive'') (refreshLocalAddrs ev (install_policy cfg m))
    else stopSource (refreshLocalAddrs ev (install_policy cfg m))"
  have 1: "minv (mv_now ev) ?m1" using minv_refresh [OF winv_install [OF w]] by (simp add: minv_source)
  note 2 = minv_ensureEnforcer [OF 1]
  have 3: "winv (if po_Enforce (safe_policy cfg) then
                 (case ensureEnforcer ev ?m1 of
                    (m, ready) \<Rightarrow> if ready \<and> \<not> p then syncLocalFromTracker ev m else m)
               else disableEnforcement ev ?m1)" for p
    using minv_winv [OF 2] minv_winv [OF minv_sync [OF 2]] minv_winv [OF minv_disable [OF 1]]
    by (simp add: case_prod_beta del: if_split)
  show ?thesis
    unfolding apply_config_def Let_def by (intro minv_applyFleet minv_applyUnbans minv_reconcileProtected 3)
qed

lemma minv_handleFailure: "minv (mv_now ev) m \<Longrightarrow> minv (mv_now ev) (handleFailure ev f m)"
proof -
  assume m: "minv (mv_now ev) m"
  let ?w = "m\<lparr>m_failuresWindow := rw_Add (mv_now ev) (m_failuresWindow m)\<rparr>"
  obtain t ob where o: "Observe (fl_IP f) (fl_User f) (mv_now ev) (m_tracker m) = (t, ob)" by fastforce
  show ?thesis
  proof (cases "Protected (m_guard m) (fl_IP f) = None")
    case True
    have wf: "wf_map (states (m_tracker m))" using m by (simp add: minv_def winv_def)
    have ban: "Banned t ip (mv_now ev) \<Longrightarrow> ip = fl_IP f \<or> Banned (m_tracker m) ip (mv_now ev)" for ip
      using Banned_Observe [of "fl_IP f" "fl_User f" "mv_now ev" "m_tracker m"] o by simp
    have 1: "minv (mv_now ev) (?w\<lparr>m_tracker := t\<rparr>)"
      using m o wf_states(2) [OF wf, of "fl_IP f" "fl_User f" "mv_now ev"]
      by (intro minv_tracker) (auto simp: minv_fields True dest!: ban)
    show ?thesis
    proof (cases ob)
      case None
      with m 1 True o show ?thesis by (simp add: handleFailure_def Let_def)
    next
      case (Some b)
      let ?b = "?w\<lparr>m_tracker := t, m_bansWindow := rw_Add (mv_now ev) (m_bansWindow m)\<rparr>"
      have b: "ban_IP b = fl_IP f" using o Some by (auto dest: Observe_ban_IP)
      have 2: "minv (mv_now ev) ?b" using 1 by (simp add: minv_fields)
      have 3: "minv (mv_now ev) (fst (nft_call ev (CAddLocal (ban_IP b) (time_Sub (ban_Until b) (mv_now ev))) ?b))"
        using 2 by (rule minv_call) (simp add: b True)
      show ?thesis using m 2 3 True o Some
        by (simp add: handleFailure_def Let_def case_prod_beta split: option.split)
    qed
  next
    case False
    with m show ?thesis by (simp add: handleFailure_def Let_def minv_fields)
  qed
qed

lemma minv_step: "minv (mv_now ev) m \<Longrightarrow> minv (mv_now ev) (mrun1 ev s m)"
proof (cases s)
  case (StFetch res)
  assume m: "minv (mv_now ev) m"
  have "winv (m\<lparr>m_fetchFailures := 0, m_lastFetchErr := []\<rparr>)" using m by (simp add: inv_defs)
  then show ?thesis using m minv_apply
    by (auto simp: StFetch fetch_def Let_def minv_fields split: sum.split option.split)
next
  case StPrune
  assume m: "minv (mv_now ev) m"
  then have wf: "wf_map (states (m_tracker m))" by (simp add: minv_def winv_def)
  have "minv (mv_now ev) (m\<lparr>m_tracker := fst (Prune (mv_now ev) (m_tracker m))\<rparr>)"
    using m wf Banned_Prune [OF wf] by (intro minv_tracker) auto
  then show ?thesis by (simp add: StPrune prune_step_def minv_retry pruneUnbans_def minv_fields)
next
  case StRefresh
  assume "minv (mv_now ev) m"
  then show ?thesis by (simp add: StRefresh minv_refresh minv_winv)
next
  case (StAck evs)
  assume "minv (mv_now ev) m"
  then show ?thesis by (simp add: StAck AcknowledgeEvents_def Let_def minv_fields)
next
  case (StSourceStatus st)
  assume "minv (mv_now ev) m"
  then show ?thesis by (simp add: StSourceStatus minv_fields)
qed (simp add: minv_handleFailure)

fun times_from :: "time \<Rightarrow> (menv \<times> mstep) list \<Rightarrow> bool" where
  "times_from now [] = True"
| "times_from now ((ev, s) # rest) = (now \<le> mv_now ev \<and> times_from (mv_now ev) rest)"

lemma minv_run: "\<lbrakk>minv now m; times_from now steps\<rbrakk> \<Longrightarrow> winv (mrun steps m)"
proof (induction steps arbitrary: now m)
  case (Cons x rest)
  obtain ev s where x: "x = (ev, s)" by (cases x)
  have "minv (mv_now ev) (mrun1 ev s m)" using Cons.prems minv_step minv_later by (simp add: x)
  then show ?case using Cons by (simp add: x)
qed (auto simp: minv_def)

lemma minv_New: "minv now (New_manager l c k)"
  by (simp add: inv_defs New_manager_def NewTracker_def Banned_def)

text \<open>
  C6. No protected address is banned: over any life of the agent, with any policies,
  allowlists, changes of local addresses, failures of authentication and fleet entries, in
  any order, every address it adds to the packet filter is not protected by the guard in force
  at that moment, and every fleet list it installs holds only routable, unprotected, unexpired
  addresses, at most 50000 of them; provided the clock does not run backwards and no removal of
  an address from the packet filter fails.
\<close>

theorem protected_never_banned:
  assumes "times_from now steps" "removes_ok (mrun steps (New_manager linux cap known))"
    "(c, g, e) \<in> set (m_calls (mrun steps (New_manager linux cap known)))"
  shows "harmless c g"
proof -
  have "trace_ok (mrun steps (New_manager linux cap known))"
    using minv_run [OF minv_New assms(1)] assms(2) by (simp add: winv_def)
  with assms(3) show ?thesis by (auto simp: trace_ok_def list_all_iff)
qed

text \<open>A policy with the address 203.0.113.9 banned after one failure, for the examples below.\<close>

definition attacker :: addr where
  "attacker = A4 0xCB007109"

definition env_at :: "time \<Rightarrow> (nat \<Rightarrow> eerr option) \<Rightarrow> addr list \<Rightarrow> menv" where
  "env_at now err addrs = \<lparr>mv_now = now, mv_err = err, mv_new_err = None, mv_local = [], mv_fleet = [], mv_addrs = addrs, mv_id = ''id''\<rparr>"

definition config1 :: ipBanConfig where
  "config1 = \<lparr>bc_Version = 1, bc_Policy = \<lparr>po_Detect = True, po_Enforce = True, po_ApplyFleet = True, po_Mode = ''normal'',
       po_MaxRetry = 1, po_FindTimeS = 600, po_BanTimeS = 3600, po_BanTimeMaxS = 3600, po_BanPrivate = False\<rparr>,
     bc_Allowlist = [''198.51.100.1''], bc_Fleet = [], bc_Unban = []\<rparr>"

definition failure1 :: failure where
  "failure1 = \<lparr>fl_IP = attacker, fl_User = ''root'', fl_Time = 0, fl_Source = ''sshd''\<rparr>"

definition life1 :: "(menv \<times> mstep) list" where
  "life1 = [(env_at 10 (\<lambda>_. None) [], StFetch (Inr (Some config1))), (env_at 20 (\<lambda>_. None) [], StFailure failure1)]"

theorem protected_never_banned_witness:
  "\<exists>g e. (CAddLocal attacker 3600000000000, g, e) \<in> set (m_calls (mrun life1 (New_manager True True True))) \<and> Protected g attacker = None"
proof -
  let ?m = "mrun life1 (New_manager True True True)"
  have t: "times_from 0 life1" by code_simp
  have r: "removes_ok ?m" by code_simp
  have "list_ex (\<lambda>(c, g, e). c = CAddLocal attacker 3600000000000) (m_calls ?m)" by code_simp
  then obtain g e where c: "(CAddLocal attacker 3600000000000, g, e) \<in> set (m_calls ?m)" by (auto simp: list_ex_iff)
  then show ?thesis using protected_never_banned [OF t r c] by auto
qed

text \<open>
  The proviso is needed. When the removal of a newly protected address fails, \<open>reconcileProtected\<close>
  returns and the tracker keeps the ban; the next retry sets the packet filter up again and
  \<open>syncLocalFromTracker\<close>, which does not ask the guard, adds the address: here an address
  that became an address of this host (or of the control server) is banned again.
\<close>

definition life2 :: "(menv \<times> mstep) list" where
  "life2 = life1 @ [(env_at 30 (\<lambda>_. Some \<lparr>ee_class = OtherError, ee_text = ''busy''\<rparr>) [attacker], StRefresh),
     (env_at 40 (\<lambda>_. None) [attacker], StPrune)]"

lemma retry_bans_protected:
  "list_ex (\<lambda>(c, g, e). \<not> harmless c g \<and> e = None) (m_calls (mrun life2 (New_manager True True True)))"
  by code_simp

section \<open>The event buffer\<close>

lemma pushEvent_fields:
  assumes "length (m_events m) \<le> maxBufferedEvents" "be_ID e \<noteq> []"
  defines "k \<equiv> length (m_events m) + 1 - maxBufferedEvents"
  shows "m_events (pushEvent ev e m) = drop k (m_events m) @ [e]" "m_droppedEvents (pushEvent ev e m) = m_droppedEvents m + int k"
    "k \<le> 1" "k \<le> length (m_events m)"
proof -
  have k: "k = (if maxBufferedEvents \<le> length (m_events m) then 1 else 0)"
    using assms(1) by (auto simp: k_def)
  show "m_events (pushEvent ev e m) = drop k (m_events m) @ [e]" "m_droppedEvents (pushEvent ev e m) = m_droppedEvents m + int k"
    using assms(2) by (simp_all add: k pushEvent_def drop_Suc)
  show "k \<le> 1" "k \<le> length (m_events m)" by (auto simp: k maxBufferedEvents_def)
qed

lemma push_all:
  "\<lbrakk>length (m_events m) \<le> maxBufferedEvents; \<forall>e\<in>set es. be_ID e \<noteq> []\<rbrakk> \<Longrightarrow>
     m_events (fold (pushEvent ev) es m) = drop (length (m_events m) + length es - maxBufferedEvents) (m_events m @ es) \<and>
     m_droppedEvents (fold (pushEvent ev) es m) = m_droppedEvents m + int (length (m_events m) + length es - maxBufferedEvents)"
proof (induction es arbitrary: m)
  case (Cons e es)
  define k where "k = length (m_events m) + 1 - maxBufferedEvents"
  let ?m = "pushEvent ev e m"
  have "be_ID e \<noteq> []" using Cons.prems(2) by simp
  note f = pushEvent_fields [OF Cons.prems(1) this, folded k_def]
  define j where "j = length (m_events ?m) + length es - maxBufferedEvents"
  have l: "length (m_events ?m) = length (m_events m) + 1 - k" using f(1,4) by simp
  then have le: "length (m_events ?m) \<le> maxBufferedEvents" using Cons.prems(1) by (simp add: k_def)
  have n: "length (m_events m) + length (e # es) - maxBufferedEvents = j + k"
    using l Cons.prems(1) by (simp add: j_def k_def)
  have "drop j (m_events ?m @ es) = drop (j + k) (m_events m @ e # es)"
    using f(1,4) by (simp flip: drop_drop)
  with Cons.IH [OF le, folded j_def] Cons.prems(2) f(2) show ?case unfolding n by simp
qed (simp add: maxBufferedEvents_def)

lemma acknowledged:
  assumes "distinct (map be_ID (a @ b))" "\<forall>e\<in>set a. be_ID e \<noteq> []" "m_events m = a @ b"
  shows "m_events (AcknowledgeEvents a m) = b"
proof -
  have "filter (\<lambda>e. be_ID e \<notin> be_ID ` set a) a = []" by (simp add: filter_empty_conv)
  moreover have "filter (\<lambda>e. be_ID e \<notin> be_ID ` set a) b = b" using assms(1) by (auto simp: filter_id_conv)
  moreover have "filter (\<lambda>e. be_ID e \<noteq> []) a = a" using assms(2) by (simp add: filter_id_conv)
  ultimately show ?thesis using assms(3) by (cases "a = []") (simp_all add: AcknowledgeEvents_def)
qed

text \<open>
  Events reach the server once each: the buffer holds at most 2000 events, the newest ones,
  and the counter of dropped events says exactly how many older ones are missing. When a report
  (the 500 oldest events) is acknowledged while new events came in and none was dropped, exactly
  the reported events leave the buffer, and the rest stays in order.
\<close>

lemma events_reported_once:
  fixes ev :: menv
  assumes "length (m_events m) \<le> maxBufferedEvents" "distinct (map be_ID (m_events m @ new))"
    "\<forall>e\<in>set (m_events m @ new). be_ID e \<noteq> []"
  defines "k \<equiv> length (m_events m) + length new - maxBufferedEvents" and "m' \<equiv> fold (pushEvent ev) new m"
  shows "m_events m' = drop k (m_events m @ new) \<and> length (m_events m') \<le> maxBufferedEvents \<and>
    m_droppedEvents m' = m_droppedEvents m + int k \<and>
    (k = 0 \<longrightarrow> m_events (AcknowledgeEvents (rr_Events (Report now m)) m') = drop maxEventsPerReport (m_events m) @ new)"
proof (intro conjI impI)
  have p: "m_events m' = drop k (m_events m @ new)" "m_droppedEvents m' = m_droppedEvents m + int k"
    using push_all [OF assms(1), of new ev] assms(3) by (simp_all add: k_def m'_def)
  then show "m_events m' = drop k (m_events m @ new)" "m_droppedEvents m' = m_droppedEvents m + int k" by simp_all
  show "length (m_events m') \<le> maxBufferedEvents" using p by (simp add: k_def)
  assume "k = 0"
  have r: "rr_Events (Report now m) = take maxEventsPerReport (m_events m)"
    by (simp add: Report_def Let_def split: option.split)
  show "m_events (AcknowledgeEvents (rr_Events (Report now m)) m') = drop maxEventsPerReport (m_events m) @ new"
    unfolding r
  proof (rule acknowledged)
    show "m_events m' = take maxEventsPerReport (m_events m) @ drop maxEventsPerReport (m_events m) @ new"
      using p(1) \<open>k = 0\<close> by simp
    then show "distinct (map be_ID (take maxEventsPerReport (m_events m) @ drop maxEventsPerReport (m_events m) @ new))"
      using assms(2) by (metis append.assoc append_take_drop_id)
  qed (use assms(3) set_take_subset in fastforce)
qed

definition event1 :: "string \<Rightarrow> ipBanEvent" where
  "event1 i = \<lparr>be_ID = i, be_Time = 1, be_IP = ''203.0.113.9'', be_Action = ''ban'', be_Source = ''sshd'', be_Failures = 1,
     be_User = ''root'', be_ExpiresAt = None, be_Enforced = True, be_Count = 1\<rparr>"

lemma fetch_wait_bounds: "1 \<le> n \<Longrightarrow> 5 * Second \<le> fetch_wait n \<and> fetch_wait n \<le> 5 * Minute"
proof -
  assume "1 \<le> n"
  then have "nat (min (n - 1) 6) \<le> 6" by auto
  then have "nat (min (n - 1) 6) \<in> set [0..<7]" by simp
  moreover have "set [0..<7] = {0, 1, 2, 3, 4, 5, 6 :: nat}" by code_simp
  ultimately have "nat (min (n - 1) 6) \<in> {0, 1, 2, 3, 4, 5, 6}" by blast
  moreover have "5 * Second \<le> (if fetchRetryMax < i64 (fetchRetryBase * 2 ^ j) then fetchRetryMax else i64 (fetchRetryBase * 2 ^ j)) \<and>
      (if fetchRetryMax < i64 (fetchRetryBase * 2 ^ j) then fetchRetryMax else i64 (fetchRetryBase * 2 ^ j)) \<le> 5 * Minute"
    if "j \<in> {0, 1, 2, 3, 4, 5, 6}" for j :: nat
    using that by (auto simp: fetchRetryBase_def fetchRetryMax_def duration_defs in_i64_def)
  ultimately show ?thesis unfolding fetch_wait_def Let_def by blast
qed

end
