(* ===== verification/Fleet_Service.thy ===== *)
theory Fleet_Service
  imports Ban_Manager "HOL-Library.Product_Lexorder"
begin

text \<open>
  \<open>internal/server/ipban/service.go\<close>: the server's side of address banning. It keeps the settings, the
  overrides per host, the bans reported by agents and the fleet-wide list, and computes the
  configuration of each agent. The tables are lists and maps; a transaction either takes effect as
  a whole or, when the database fails anywhere in it (the environment decides), not at
  all. Addresses are compared as values of type \<open>inet\<close>; the database refuses an address with a
  zone. The clock of the database is that of the server.
\<close>

section \<open>Data\<close>

record settings =
  sg_Enabled :: bool
  sg_Enforce :: bool
  sg_Contribute :: bool
  sg_ApplyFleet :: bool
  sg_Mode :: string
  sg_MaxRetry :: int
  sg_FindTimeS :: int
  sg_BanTimeS :: int
  sg_BanTimeMaxS :: int
  sg_BanPrivate :: bool
  sg_FleetMinHosts :: int
  sg_FleetMinBans :: int
  sg_FleetTTLS :: int
  sg_Allowlist :: "string list"
  sg_Version :: int
  sg_UpdatedAt :: time

record hostPolicy =
  hp_Detect :: "bool option"
  hp_Enforce :: "bool option"
  hp_Contribute :: "bool option"
  hp_ApplyFleet :: "bool option"

record effectivePolicy =
  ep_Detect :: bool
  ep_Enforce :: bool
  ep_Contribute :: bool
  ep_ApplyFleet :: bool

text \<open>A row of \<open>ipban_hosts\<close>: the overrides and the last report without its events.\<close>

record ipbanHost =
  ih_policy :: hostPolicy
  ih_report :: "ipBanReport option"
  ih_reported_at :: "time option"

record activeBan =
  ab_source :: string
  ab_failures :: int
  ab_user :: string
  ab_banned_at :: time
  ab_expires_at :: time
  ab_enforced :: bool
  ab_repeat :: int

record fleetBan =
  fb_first_seen :: time
  fb_last_seen :: time
  fb_host_count :: int
  fb_ban_count :: int
  fb_expires_at :: time
  fb_source :: string
  fb_note :: string
  fb_created_by :: string

record banEvent =
  ev_id :: int
  ev_time :: time
  ev_host :: "int option"
  ev_ip :: addr
  ev_action :: string
  ev_source :: string
  ev_failures :: int
  ev_user :: string
  ev_expires :: "time option"
  ev_enforced :: bool
  ev_repeat :: int
  ev_actor :: string
  ev_note :: string
  ev_agent_id :: string
  ev_contributed :: bool

record fleetdb =
  fd_settings :: settings
  fd_known_hosts :: "int list"
  fd_hosts :: "(int, ipbanHost) gomap"
  fd_active :: "(int \<times> addr, activeBan) gomap"
  fd_fleet :: "(addr, fleetBan) gomap"
  fd_suppress :: "(addr, time) gomap"
  fd_cmds :: "(int \<times> addr \<times> time) list"
  fd_events :: "banEvent list"
  fd_nextEvent :: int

text \<open>The service: its database and the two fields that mirror it.\<close>

record service =
  sv_db :: fleetdb
  sv_version :: int
  sv_settings :: settings
  sv_retention :: duration

datatype ferr = FNotFound | FValidation | FDB

text \<open>
  What the environment decides of one call: the instant, whether the first statements of the
  transaction (up to the last read) and its writes with the commit succeed, whether the report of
  an agent can be stored, and which statements of a sweep succeed.
\<close>

record fenv =
  fe_now :: time
  fe_ok :: bool
  fe_commit :: bool
  fe_status_ok :: bool
  fe_sweep :: "nat \<Rightarrow> bool"

definition evidenceWindow :: duration where "evidenceWindow = 7 * 24 * Hour"
definition cmdRetention :: duration where "cmdRetention = 24 * Hour"
definition maxEventsPerPost :: nat where "maxEventsPerPost = 500"
definition manualBanMinTTL :: duration where "manualBanMinTTL = Minute"
definition manualBanMaxTTL :: duration where "manualBanMaxTTL = 365 * 24 * Hour"

section \<open>Settings\<close>

definition bumpVersion :: "time \<Rightarrow> fleetdb \<Rightarrow> fleetdb" where
  "bumpVersion now d = d\<lparr>fd_settings := (fd_settings d)\<lparr>sg_Version := sg_Version (fd_settings d) + 1, sg_UpdatedAt := now\<rparr>\<rparr>"

definition publishVersion :: "time \<Rightarrow> int \<Rightarrow> service \<Rightarrow> service" where
  "publishVersion now v s =
     (if v \<le> sv_version s then s
      else (let s = s\<lparr>sv_version := v\<rparr>
            in if sg_Version (sv_settings s) < v
               then s\<lparr>sv_settings := (sv_settings s)\<lparr>sg_Version := v, sg_UpdatedAt := now\<rparr>\<rparr> else s))"

definition svc_Load :: "fenv \<Rightarrow> service \<Rightarrow> service \<times> bool" where
  "svc_Load ev s = (if \<not> fe_ok ev then (s, False)
     else (s\<lparr>sv_settings := fd_settings (sv_db s), sv_version := sg_Version (fd_settings (sv_db s))\<rparr>, True))"

definition pick :: "bool option \<Rightarrow> bool \<Rightarrow> bool" where
  "pick over base = (case over of Some b \<Rightarrow> b | None \<Rightarrow> base)"

definition effectiveFor :: "settings \<Rightarrow> hostPolicy \<Rightarrow> effectivePolicy" where
  "effectiveFor st p = \<lparr>ep_Detect = pick (hp_Detect p) (sg_Enabled st), ep_Enforce = pick (hp_Enforce p) (sg_Enforce st),
     ep_Contribute = pick (hp_Contribute p) (sg_Contribute st), ep_ApplyFleet = pick (hp_ApplyFleet p) (sg_ApplyFleet st)\<rparr>"

definition no_policy :: hostPolicy where
  "no_policy = \<lparr>hp_Detect = None, hp_Enforce = None, hp_Contribute = None, hp_ApplyFleet = None\<rparr>"

definition hostPolicy_of :: "fleetdb \<Rightarrow> int \<Rightarrow> hostPolicy" where
  "hostPolicy_of d h = (case get (fd_hosts d) h of None \<Rightarrow> no_policy | Some r \<Rightarrow> ih_policy r)"

record settingsInput =
  si_Enabled :: "bool option"
  si_Enforce :: "bool option"
  si_Contribute :: "bool option"
  si_ApplyFleet :: "bool option"
  si_Mode :: "string option"
  si_MaxRetry :: "int option"
  si_FindTimeS :: "int option"
  si_BanTimeS :: "int option"
  si_BanTimeMaxS :: "int option"
  si_BanPrivate :: "bool option"
  si_FleetMinHosts :: "int option"
  si_FleetMinBans :: "int option"
  si_FleetTTLS :: "int option"
  si_Allowlist :: "string list option"

text \<open>Lower case of ASCII letters; no other character has a lower case that occurs in a valid mode.\<close>

definition ascii_lower :: "string \<Rightarrow> string" where
  "ascii_lower s = map (\<lambda>c. if 65 \<le> byte c \<and> byte c \<le> 90 then char_of (byte c + 32) else c) s"

definition or_old :: "'a option \<Rightarrow> 'a \<Rightarrow> 'a" where
  "or_old new old = (case new of Some x \<Rightarrow> x | None \<Rightarrow> old)"

definition applyInput :: "settings \<Rightarrow> settingsInput \<Rightarrow> settings" where
  "applyInput st i = st\<lparr>
     sg_Enabled := or_old (si_Enabled i) (sg_Enabled st), sg_Enforce := or_old (si_Enforce i) (sg_Enforce st),
     sg_Contribute := or_old (si_Contribute i) (sg_Contribute st), sg_ApplyFleet := or_old (si_ApplyFleet i) (sg_ApplyFleet st),
     sg_Mode := or_old (map_option (\<lambda>m. ascii_lower (trim_space m)) (si_Mode i)) (sg_Mode st),
     sg_MaxRetry := or_old (si_MaxRetry i) (sg_MaxRetry st), sg_FindTimeS := or_old (si_FindTimeS i) (sg_FindTimeS st),
     sg_BanTimeS := or_old (si_BanTimeS i) (sg_BanTimeS st), sg_BanTimeMaxS := or_old (si_BanTimeMaxS i) (sg_BanTimeMaxS st),
     sg_BanPrivate := or_old (si_BanPrivate i) (sg_BanPrivate st), sg_FleetMinHosts := or_old (si_FleetMinHosts i) (sg_FleetMinHosts st),
     sg_FleetMinBans := or_old (si_FleetMinBans i) (sg_FleetMinBans st), sg_FleetTTLS := or_old (si_FleetTTLS i) (sg_FleetTTLS st),
     sg_Allowlist := or_old (si_Allowlist i) (sg_Allowlist st)\<rparr>"

text \<open>The text of one entry; \<open>None\<close> is a validation error.\<close>

definition normalize_entry :: "string \<Rightarrow> string option" where
  "normalize_entry e =
     (case ParsePrefix e of
        Some p \<Rightarrow>
          if Is4In6 (pfx_addr p) then
            (if pfx_bits p < 96 then None
             else Some (pfx_String (Masked (PrefixFrom (Unmap (pfx_addr p)) (pfx_bits p - 96)))))
          else Some (pfx_String (Masked p))
      | None \<Rightarrow>
          (case ParseAddr e of
             Some a \<Rightarrow> (let a = Unmap a in Some (pfx_String (PrefixFrom a (BitLen a))))
           | None \<Rightarrow> None))"

fun normalize_loop :: "string list \<Rightarrow> string list \<Rightarrow> string list option" where
  "normalize_loop [] out = Some out"
| "normalize_loop (raw # es) out =
     (let e = trim_space raw
      in if e = [] then normalize_loop es out
         else (case normalize_entry e of
                 None \<Rightarrow> None
               | Some text \<Rightarrow> normalize_loop es (if text \<in> set out then out else out @ [text])))"

definition NormalizeAllowlist :: "string list \<Rightarrow> string list option" where
  "NormalizeAllowlist entries =
     (case normalize_loop entries [] of
        None \<Rightarrow> None
      | Some out \<Rightarrow> if 1000 < length out then None else Some out)"

definition ranges_ok :: "settings \<Rightarrow> bool" where
  "ranges_ok st \<longleftrightarrow>
     (sg_Mode st = ''normal'' \<or> sg_Mode st = ''aggressive'') \<and>
     1 \<le> sg_MaxRetry st \<and> sg_MaxRetry st \<le> 100 \<and>
     60 \<le> sg_FindTimeS st \<and> sg_FindTimeS st \<le> 86400 \<and>
     60 \<le> sg_BanTimeS st \<and> sg_BanTimeS st \<le> 30 * 86400 \<and>
     sg_BanTimeS st \<le> sg_BanTimeMaxS st \<and> sg_BanTimeMaxS st \<le> 365 * 86400 \<and>
     1 \<le> sg_FleetMinHosts st \<and> sg_FleetMinHosts st \<le> 1000 \<and>
     1 \<le> sg_FleetMinBans st \<and> sg_FleetMinBans st \<le> 10000 \<and>
     300 \<le> sg_FleetTTLS st \<and> sg_FleetTTLS st \<le> 30 * 86400"

definition Validate :: "settings \<Rightarrow> settings option" where
  "Validate st =
     (if \<not> ranges_ok st then None
      else (case NormalizeAllowlist (sg_Allowlist st) of
              None \<Rightarrow> None
            | Some norm_list \<Rightarrow>
                if sg_Enforce st \<and> norm_list = [] then None else Some (st\<lparr>sg_Allowlist := norm_list\<rparr>)))"

definition host_enforcing :: "fleetdb \<Rightarrow> bool" where
  "host_enforcing d \<longleftrightarrow> list_ex (\<lambda>(_, r). hp_Enforce (ih_policy r) = Some True) (fd_hosts d)"

text \<open>The transaction of \<open>UpdateSettings\<close>, and what it does to the mirror after its commit.\<close>

definition update_commit :: "fenv \<Rightarrow> settingsInput \<Rightarrow> fleetdb \<Rightarrow> fleetdb \<times> (ferr + settings)" where
  "update_commit ev i d =
     (if \<not> fe_ok ev then (d, Inl FDB)
      else (case Validate (applyInput (fd_settings d) i) of
              None \<Rightarrow> (d, Inl FValidation)
            | Some st \<Rightarrow>
                if sg_Allowlist st = [] \<and> host_enforcing d then (d, Inl FValidation)
                else if \<not> fe_commit ev then (d, Inl FDB)
                else (let st = st\<lparr>sg_Version := sg_Version (fd_settings d) + 1, sg_UpdatedAt := fe_now ev\<rparr>
                      in (d\<lparr>fd_settings := st\<rparr>, Inr st))))"

definition update_publish :: "settings \<Rightarrow> service \<Rightarrow> service" where
  "update_publish st s =
     (let s = (if sg_Version (sv_settings s) \<le> sg_Version st then s\<lparr>sv_settings := st\<rparr> else s)
      in s\<lparr>sv_version := max (sv_version s) (sg_Version st)\<rparr>)"

definition UpdateSettings :: "fenv \<Rightarrow> settingsInput \<Rightarrow> service \<Rightarrow> service \<times> (ferr + settings)" where
  "UpdateSettings ev i s =
     (case update_commit ev i (sv_db s) of
        (d, Inl e) \<Rightarrow> (s, Inl e)
      | (d, Inr st) \<Rightarrow> (update_publish st (s\<lparr>sv_db := d\<rparr>), Inr st))"

definition merge_policy :: "hostPolicy \<Rightarrow> hostPolicy \<Rightarrow> hostPolicy" where
  "merge_policy cur patch =
     (let f = (\<lambda>new old. case new of None \<Rightarrow> old | Some b \<Rightarrow> Some b)
      in \<lparr>hp_Detect = f (hp_Detect patch) (hp_Detect cur), hp_Enforce = f (hp_Enforce patch) (hp_Enforce cur),
          hp_Contribute = f (hp_Contribute patch) (hp_Contribute cur), hp_ApplyFleet = f (hp_ApplyFleet patch) (hp_ApplyFleet cur)\<rparr>)"

definition set_policy :: "int \<Rightarrow> hostPolicy \<Rightarrow> fleetdb \<Rightarrow> fleetdb" where
  "set_policy h p d = d\<lparr>fd_hosts := put h (case get (fd_hosts d) h of
     None \<Rightarrow> \<lparr>ih_policy = p, ih_report = None, ih_reported_at = None\<rparr>
   | Some r \<Rightarrow> r\<lparr>ih_policy := p\<rparr>) (fd_hosts d)\<rparr>"

text \<open>The common end of a transaction: the version is raised, and published after the commit.\<close>

definition commit_bumped :: "fenv \<Rightarrow> fleetdb \<Rightarrow> service \<Rightarrow> service" where
  "commit_bumped ev d s =
     (let d = bumpVersion (fe_now ev) d in publishVersion (fe_now ev) (sg_Version (fd_settings d)) (s\<lparr>sv_db := d\<rparr>))"

definition UpdateHostPolicy :: "fenv \<Rightarrow> int \<Rightarrow> hostPolicy \<Rightarrow> service \<Rightarrow> service \<times> (ferr + hostPolicy)" where
  "UpdateHostPolicy ev h patch s =
     (let d = sv_db s; st = fd_settings d
      in if \<not> fe_ok ev then (s, Inl FDB)
         else if h \<notin> set (fd_known_hosts d) then (s, Inl FNotFound)
         else (let merged = merge_policy (hostPolicy_of d h) patch
               in if ep_Enforce (effectiveFor st merged) \<and> sg_Allowlist st = [] then (s, Inl FValidation)
                  else if \<not> fe_commit ev then (s, Inl FDB)
                  else (commit_bumped ev (set_policy h merged d) s, Inr merged)))"

section \<open>Reports of agents\<close>

definition add_event :: "banEvent \<Rightarrow> fleetdb \<Rightarrow> fleetdb" where
  "add_event e d = d\<lparr>fd_events := fd_events d @ [e\<lparr>ev_id := fd_nextEvent d\<rparr>], fd_nextEvent := fd_nextEvent d + 1\<rparr>"

definition blank_event :: "time \<Rightarrow> addr \<Rightarrow> string \<Rightarrow> banEvent" where
  "blank_event t ip act = \<lparr>ev_id = 0, ev_time = t, ev_host = None, ev_ip = ip, ev_action = act, ev_source = [], ev_failures = 0,
     ev_user = [], ev_expires = None, ev_enforced = False, ev_repeat = 0, ev_actor = [], ev_note = [], ev_agent_id = [],
     ev_contributed = False\<rparr>"

text \<open>The unique index on the events of agents.\<close>

definition known_event :: "int \<Rightarrow> string \<Rightarrow> fleetdb \<Rightarrow> bool" where
  "known_event h i d \<longleftrightarrow> i \<noteq> [] \<and> list_ex (\<lambda>e. ev_host e = Some h \<and> ev_agent_id e = i) (fd_events d)"

definition evidence :: "addr \<Rightarrow> time \<Rightarrow> fleetdb \<Rightarrow> banEvent list" where
  "evidence ip now d = filter (\<lambda>e. ev_ip e = ip \<and> ev_action e = ''ban'' \<and> ev_contributed e \<and> ev_host e \<noteq> None \<and>
     now - evidenceWindow < ev_time e) (fd_events d)"

definition put_fleet :: "addr \<Rightarrow> fleetBan \<Rightarrow> fleetdb \<Rightarrow> fleetdb" where
  "put_fleet ip b d = d\<lparr>fd_fleet := put ip b (fd_fleet d)\<rparr>"

definition fleet_note :: "int \<Rightarrow> int \<Rightarrow> string" where
  "fleet_note hosts nbans = ''banned on '' @ show_int hosts @ '' host(s), '' @ show_int nbans @ '' time(s) in the last 7 days''"

definition propagate :: "settings \<Rightarrow> addr \<Rightarrow> time \<Rightarrow> fleetdb \<Rightarrow> fleetdb \<times> bool" where
  "propagate st ip now d =
     (let es = evidence ip now d;
          hosts = int (length (remdups (map ev_host es)));
          nbans = int (length es)
      in if hosts < sg_FleetMinHosts st \<and> nbans < sg_FleetMinBans st then (d, False)
         else if (case get (fd_suppress d) ip of None \<Rightarrow> False | Some u \<Rightarrow> now < u) then (d, False)
         else (let ttl = i64 (sg_FleetTTLS st * Second); expires = now + ttl
               in case get (fd_fleet d) ip of
                    None \<Rightarrow>
                      (add_event ((blank_event now ip ''fleet_ban'')\<lparr>ev_expires := Some expires, ev_note := fleet_note hosts nbans\<rparr>)
                         (put_fleet ip \<lparr>fb_first_seen = now, fb_last_seen = now, fb_host_count = hosts, fb_ban_count = nbans,
                            fb_expires_at = expires, fb_source = ''auto'', fb_note = [], fb_created_by = []\<rparr> d), True)
                  | Some b \<Rightarrow>
                      if fb_source b \<noteq> ''auto'' then (d, False)
                      else (put_fleet ip (b\<lparr>fb_last_seen := now, fb_host_count := hosts, fb_ban_count := nbans,
                              fb_expires_at := max (fb_expires_at b) expires\<rparr>) d,
                            fb_expires_at b < now + go_div ttl 2)))"

text \<open>A ban of a report: its event, the entry of its host, and what follows for the fleet.\<close>

definition store_ban :: "bool \<Rightarrow> int \<Rightarrow> ipBanEvent \<Rightarrow> addr \<Rightarrow> time \<Rightarrow> time \<Rightarrow> fleetdb \<Rightarrow> fleetdb" where
  "store_ban contribute h e ip stamp expiry d =
     (let d = add_event ((blank_event stamp ip ''ban'')\<lparr>ev_host := Some h, ev_source := be_Source e, ev_failures := be_Failures e,
                ev_user := be_User e, ev_expires := Some expiry, ev_enforced := be_Enforced e, ev_repeat := be_Count e,
                ev_agent_id := be_ID e, ev_contributed := contribute\<rparr>) d
      in d\<lparr>fd_active := put (h, ip) \<lparr>ab_source = be_Source e, ab_failures = be_Failures e, ab_user = be_User e, ab_banned_at = stamp,
           ab_expires_at = expiry, ab_enforced = be_Enforced e, ab_repeat = be_Count e\<rparr> (fd_active d)\<rparr>)"

definition ingest_ban :: "settings \<Rightarrow> bool \<Rightarrow> pfx list \<Rightarrow> int \<Rightarrow> time \<Rightarrow> ipBanEvent \<Rightarrow> addr \<Rightarrow> time \<Rightarrow> time \<Rightarrow> fleetdb \<Rightarrow> fleetdb \<times> bool" where
  "ingest_ban st contribute allow h now e ip stamp expiry d =
     (let d = store_ban contribute h e ip stamp expiry d
      in if contribute \<and> srv_IsRoutable ip \<and> \<not> matchesAny ip allow then propagate st ip now d else (d, False))"

definition ingest_unban :: "bool \<Rightarrow> int \<Rightarrow> ipBanEvent \<Rightarrow> addr \<Rightarrow> time \<Rightarrow> fleetdb \<Rightarrow> fleetdb" where
  "ingest_unban contribute h e ip stamp d =
     (let d = add_event ((blank_event stamp ip ''unban'')\<lparr>ev_host := Some h, ev_source := be_Source e, ev_agent_id := be_ID e,
                ev_contributed := contribute\<rparr>) d
      in d\<lparr>fd_active := del (h, ip) (fd_active d)\<rparr>)"

text \<open>One event of a report; \<open>None\<close> is an error of the database.\<close>

definition ingest_event :: "settings \<Rightarrow> bool \<Rightarrow> pfx list \<Rightarrow> int \<Rightarrow> time \<Rightarrow> ipBanEvent \<Rightarrow> fleetdb \<times> bool \<Rightarrow> (fleetdb \<times> bool) option" where
  "ingest_event st contribute allow h now e db =
     (case db of (d, bumped) \<Rightarrow>
        if 128 < length (be_ID e) then Some db
        else (case ParseAddr (be_IP e) of
                None \<Rightarrow> Some db
              | Some ip0 \<Rightarrow>
                  (let ip = Unmap ip0;
                       stamp = (if be_Time e = zero_time \<or> now + 2 * Minute < be_Time e then now else be_Time e)
                   in if be_Action e = ''ban'' then
                        (case be_ExpiresAt e of
                           None \<Rightarrow> Some db
                         | Some expiry \<Rightarrow>
                             if has_zone ip then None
                             else if known_event h (be_ID e) d then Some db
                             else (case ingest_ban st contribute allow h now e ip stamp expiry d of (d, changed) \<Rightarrow> Some (d, bumped \<or> changed)))
                      else if be_Action e = ''unban'' then
                        (if has_zone ip then None
                         else if known_event h (be_ID e) d then Some db
                         else Some (ingest_unban contribute h e ip stamp d, bumped))
                      else Some db)))"

fun ingest_events :: "settings \<Rightarrow> bool \<Rightarrow> pfx list \<Rightarrow> int \<Rightarrow> time \<Rightarrow> ipBanEvent list \<Rightarrow> fleetdb \<times> bool \<Rightarrow> (fleetdb \<times> bool) option" where
  "ingest_events st c allow h now [] db = Some db"
| "ingest_events st c allow h now (e # es) db =
     (case ingest_event st c allow h now e db of None \<Rightarrow> None | Some db \<Rightarrow> ingest_events st c allow h now es db)"

definition save_report :: "int \<Rightarrow> ipBanReport \<Rightarrow> time \<Rightarrow> fleetdb \<Rightarrow> fleetdb" where
  "save_report h r now d =
     (let p = hostPolicy_of d h
      in d\<lparr>fd_hosts := put h \<lparr>ih_policy = p, ih_report = Some (r\<lparr>rr_Events := []\<rparr>), ih_reported_at = Some now\<rparr> (fd_hosts d)\<rparr>)"

text \<open>\<open>False\<close> is an error. The report is stored before the transaction that stores its events.\<close>

definition Ingest :: "fenv \<Rightarrow> int \<Rightarrow> ipBanReport \<Rightarrow> service \<Rightarrow> service \<times> bool" where
  "Ingest ev h r s =
     (if \<not> fe_status_ok ev then (s, False)
      else (let now = fe_now ev; s = s\<lparr>sv_db := save_report h r now (sv_db s)\<rparr>; d = sv_db s
            in if rr_Events r = [] then (s, True)
               else if \<not> fe_ok ev then (s, False)
               else (let st = fd_settings d; c = ep_Contribute (effectiveFor st (hostPolicy_of d h))
                     in case ingest_events st c (parsePrefixes (sg_Allowlist st)) h now (take maxEventsPerPost (rr_Events r)) (d, False) of
                          None \<Rightarrow> (s, False)
                        | Some (d, bumped) \<Rightarrow>
                            if \<not> fe_commit ev then (s, False)
                            else if bumped then (commit_bumped ev d s, True)
                            else (s\<lparr>sv_db := d\<rparr>, True))))"

section \<open>Bans and unbans by hand\<close>

definition parse_ip :: "string \<Rightarrow> addr option" where
  "parse_ip raw = map_option Unmap (ParseAddr (trim_space raw))"

definition ManualBan :: "fenv \<Rightarrow> string \<Rightarrow> duration \<Rightarrow> string \<Rightarrow> string \<Rightarrow> service \<Rightarrow> service \<times> ferr option" where
  "ManualBan ev rawIP ttl note0 actor s =
     (case parse_ip rawIP of
        None \<Rightarrow> (s, Some FValidation)
      | Some ip \<Rightarrow>
          if \<not> srv_IsRoutable ip then (s, Some FValidation)
          else if matchesAny ip (parsePrefixes (sg_Allowlist (sv_settings s))) then (s, Some FValidation)
          else if ttl < manualBanMinTTL \<or> manualBanMaxTTL < ttl then (s, Some FValidation)
          else (let note = take 200 (trim_space note0); now = fe_now ev; expires = now + ttl; d = sv_db s
                in if \<not> fe_ok ev \<or> has_zone ip \<or> \<not> fe_commit ev then (s, Some FDB)
                   else (let d = d\<lparr>fd_suppress := del ip (fd_suppress d)\<rparr>;
                             b = (case get (fd_fleet d) ip of
                                    None \<Rightarrow> \<lparr>fb_first_seen = now, fb_last_seen = now, fb_host_count = 0, fb_ban_count = 0,
                                              fb_expires_at = expires, fb_source = ''manual'', fb_note = note, fb_created_by = actor\<rparr>
                                  | Some b \<Rightarrow> b\<lparr>fb_last_seen := now, fb_expires_at := expires, fb_source := ''manual'', fb_note := note,
                                              fb_created_by := actor\<rparr>);
                             d = put_fleet ip b d;
                             d = add_event ((blank_event now ip ''manual_ban'')\<lparr>ev_expires := Some expires, ev_actor := actor,
                                   ev_note := note\<rparr>) d
                         in (commit_bumped ev d s, None))))"

definition unban_cmds :: "addr \<Rightarrow> time \<Rightarrow> fleetdb \<Rightarrow> (int \<times> addr \<times> time) list" where
  "unban_cmds ip now d =
     map (\<lambda>((h, a), b). (h, a, now)) (filter (\<lambda>((h, a), b). a = ip \<and> now < ab_expires_at b) (fd_active d))"

definition FleetUnban :: "fenv \<Rightarrow> string \<Rightarrow> string \<Rightarrow> service \<Rightarrow> service \<times> ferr option" where
  "FleetUnban ev rawIP actor s =
     (case parse_ip rawIP of
        None \<Rightarrow> (s, Some FValidation)
      | Some ip \<Rightarrow>
          (let st = sv_settings s; now = fe_now ev; d = sv_db s
           in if \<not> fe_ok ev \<or> has_zone ip then (s, Some FDB)
              else if get (fd_fleet d) ip = None then (s, Some FNotFound)
              else if \<not> fe_commit ev then (s, Some FDB)
              else (let d = d\<lparr>fd_fleet := del ip (fd_fleet d)\<rparr>;
                        d = d\<lparr>fd_suppress := put ip (now + i64 (sg_FleetTTLS st * Second)) (fd_suppress d)\<rparr>;
                        d = d\<lparr>fd_cmds := fd_cmds d @ unban_cmds ip now d\<rparr>;
                        d = d\<lparr>fd_active := filter (\<lambda>((h, a), b). a \<noteq> ip) (fd_active d)\<rparr>;
                        d = add_event ((blank_event now ip ''fleet_unban'')\<lparr>ev_actor := actor\<rparr>) d
                    in (commit_bumped ev d s, None))))"

definition HostUnban :: "fenv \<Rightarrow> int \<Rightarrow> string \<Rightarrow> string \<Rightarrow> service \<Rightarrow> service \<times> ferr option" where
  "HostUnban ev h rawIP actor s =
     (case parse_ip rawIP of
        None \<Rightarrow> (s, Some FValidation)
      | Some ip \<Rightarrow>
          (let now = fe_now ev; d = sv_db s
           in if \<not> fe_ok ev then (s, Some FDB)
              else if h \<notin> set (fd_known_hosts d) then (s, Some FNotFound)
              else if has_zone ip \<or> \<not> fe_commit ev then (s, Some FDB)
              else (let d = d\<lparr>fd_cmds := fd_cmds d @ [(h, ip, now)]\<rparr>;
                        d = add_event ((blank_event now ip ''manual_unban'')\<lparr>ev_host := Some h, ev_actor := actor\<rparr>) d
                    in (commit_bumped ev d s, None))))"

section \<open>Sweeping\<close>

definition sweep :: "fenv \<Rightarrow> service \<Rightarrow> service" where
  "sweep ev s =
     (let now = fe_now ev; ok = fe_sweep ev; d = sv_db s;
          d = (if ok 0 then d\<lparr>fd_active := filter (\<lambda>(k, b). \<not> ab_expires_at b < now) (fd_active d)\<rparr> else d);
          d = (if ok 1 then d\<lparr>fd_fleet := filter (\<lambda>(k, b). \<not> fb_expires_at b < now) (fd_fleet d)\<rparr> else d);
          d = (if ok 2 then d\<lparr>fd_suppress := filter (\<lambda>(k, u). \<not> u < now) (fd_suppress d)\<rparr> else d);
          d = (if ok 3 then d\<lparr>fd_cmds := filter (\<lambda>(h, a, t). \<not> t < now - cmdRetention) (fd_cmds d)\<rparr> else d);
          d = (if 0 < sv_retention s \<and> ok 4
               then d\<lparr>fd_events := filter (\<lambda>e. \<not> ev_time e < now - sv_retention s) (fd_events d)\<rparr> else d)
      in s\<lparr>sv_db := d\<rparr>)"

section \<open>The configuration of an agent\<close>

text \<open>The order of type \<open>inet\<close> on host addresses.\<close>

fun inet_key :: "addr \<Rightarrow> int" where
  "inet_key (A4 w) = uint w"
| "inet_key (A6 w z) = 2 ^ 32 + uint w"
| "inet_key Addr0 = 0"

definition live_fleet :: "time \<Rightarrow> fleetdb \<Rightarrow> (addr \<times> fleetBan) list" where
  "live_fleet now d = sort_key (\<lambda>(ip, b). inet_key ip) (filter (\<lambda>(ip, b). now < fb_expires_at b) (fd_fleet d))"

definition host_unbans :: "int \<Rightarrow> fleetdb \<Rightarrow> (int \<times> addr \<times> time) list" where
  "host_unbans h d = sort_key (\<lambda>(_, _, t). t) (filter (\<lambda>(h', _). h' = h) (fd_cmds d))"

definition AgentConfig :: "fenv \<Rightarrow> int \<Rightarrow> service \<Rightarrow> ferr + ipBanConfig" where
  "AgentConfig ev h s =
     (let d = sv_db s; st = fd_settings d
      in if \<not> fe_ok ev then Inl FDB
         else (let eff = effectiveFor st (hostPolicy_of d h);
                   enforce = (if ep_Enforce eff \<and> sg_Allowlist st = [] then False else ep_Enforce eff)
               in Inr \<lparr>bc_Version = sg_Version st,
                    bc_Policy = \<lparr>po_Detect = ep_Detect eff, po_Enforce = enforce, po_ApplyFleet = ep_ApplyFleet eff, po_Mode = sg_Mode st,
                       po_MaxRetry = sg_MaxRetry st, po_FindTimeS = sg_FindTimeS st, po_BanTimeS = sg_BanTimeS st,
                       po_BanTimeMaxS = sg_BanTimeMaxS st, po_BanPrivate = sg_BanPrivate st\<rparr>,
                    bc_Allowlist = sg_Allowlist st,
                    bc_Fleet = map (\<lambda>(ip, b). \<lparr>wf_IP = addr_String (Unmap ip), wf_ExpiresAt = fb_expires_at b\<rparr>) (live_fleet (fe_now ev) d),
                    bc_Unban = map (\<lambda>(_, ip, t). \<lparr>ub_IP = addr_String (Unmap ip), ub_At = t\<rparr>) (host_unbans h d)\<rparr>))"

section \<open>Reading the events\<close>

record eventFilter =
  ef_HostID :: int
  ef_IP :: string
  ef_Limit :: int
  ef_Before :: time
  ef_BeforeID :: int

definition event_matches :: "int \<Rightarrow> addr option \<Rightarrow> time option \<Rightarrow> int \<Rightarrow> banEvent \<Rightarrow> bool" where
  "event_matches h ip before beforeID e \<longleftrightarrow>
     (h = 0 \<or> ev_host e = Some h) \<and>
     (case ip of None \<Rightarrow> True | Some a \<Rightarrow> ev_ip e = a) \<and>
     (case before of
        None \<Rightarrow> True
      | Some t \<Rightarrow> (beforeID = 0 \<and> ev_time e < t) \<or>
                 (0 < beforeID \<and> (ev_time e, ev_id e) < (t, beforeID)))"

text \<open>The condition of the query for a filter; the database refuses an address with a zone.\<close>

definition ip_filter :: "string \<Rightarrow> ferr + addr option" where
  "ip_filter raw =
     (if trim_space raw = [] then Inr None
      else (case parse_ip raw of
              None \<Rightarrow> Inl FValidation
            | Some ip \<Rightarrow> if has_zone ip then Inl FDB else Inr (Some ip)))"

definition event_query :: "eventFilter \<Rightarrow> ferr + (banEvent \<Rightarrow> bool)" where
  "event_query f =
     (case ip_filter (ef_IP f) of
        Inl e \<Rightarrow> Inl e
      | Inr ip \<Rightarrow>
          (let before = (if ef_Before f = zero_time then None else Some (ef_Before f));
               beforeID = (if before = None \<or> ef_BeforeID f < 0 then 0 else ef_BeforeID f)
           in Inr (event_matches (ef_HostID f) ip before beforeID)))"

text \<open>Newest first, equal times by descending number.\<close>

definition event_key :: "banEvent \<Rightarrow> time \<times> int" where
  "event_key e = (ev_time e, ev_id e)"

definition newest_first :: "banEvent list \<Rightarrow> banEvent list" where
  "newest_first xs = rev (sort_key event_key xs)"

definition svc_Events :: "fenv \<Rightarrow> fleetdb \<Rightarrow> eventFilter \<Rightarrow> ferr + banEvent list" where
  "svc_Events ev d f =
     (let limit = (if ef_Limit f \<le> 0 \<or> 1000 < ef_Limit f then 100 else ef_Limit f)
      in case event_query f of
           Inl e \<Rightarrow> Inl e
         | Inr P \<Rightarrow> if \<not> fe_ok ev then Inl FDB else Inr (take (nat limit) (newest_first (filter P (fd_events d)))))"

text \<open>
  The loop of \<open>StreamEvents\<close> over a table that does not change meanwhile. The visitor is a
  predicate (\<open>False\<close> stops the stream with its error); the result has the events visited and whether
  the stream ended without an error. The environment says whether the queries
  succeed, and the fuel bounds the number of pages.
\<close>

fun visit_all :: "(banEvent \<Rightarrow> bool) \<Rightarrow> banEvent list \<Rightarrow> banEvent list \<times> bool" where
  "visit_all visit [] = ([], True)"
| "visit_all visit (e # es) =
     (if visit e then (case visit_all visit es of (seen, ok) \<Rightarrow> (e # seen, ok)) else ([e], False))"

fun stream_loop :: "nat \<Rightarrow> fenv \<Rightarrow> fleetdb \<Rightarrow> eventFilter \<Rightarrow> (banEvent \<Rightarrow> bool) \<Rightarrow> (banEvent list \<times> bool) option" where
  "stream_loop 0 ev d f visit = None"
| "stream_loop (Suc n) ev d f visit =
     (case svc_Events ev d f of
        Inl e \<Rightarrow> Some ([], False)
      | Inr page \<Rightarrow>
          (case visit_all visit page of
             (seen, False) \<Rightarrow> Some (seen, False)
           | (seen, True) \<Rightarrow>
               if int (length page) < ef_Limit f then Some (seen, True)
               else map_option (\<lambda>(rest, ok). (seen @ rest, ok))
                      (stream_loop n ev d (f\<lparr>ef_Before := ev_time (last page), ef_BeforeID := ev_id (last page)\<rparr>) visit)))"

definition StreamEvents :: "nat \<Rightarrow> fenv \<Rightarrow> fleetdb \<Rightarrow> eventFilter \<Rightarrow> (banEvent \<Rightarrow> bool) \<Rightarrow> (banEvent list \<times> bool) option" where
  "StreamEvents fuel ev d f visit = stream_loop fuel ev d (f\<lparr>ef_Limit := 1000\<rparr>) visit"

section \<open>Sequences of operations\<close>

datatype fleet_op =
    OpSettings settingsInput
  | OpPolicy int hostPolicy
  | OpIngest int ipBanReport
  | OpBan string duration string string
  | OpUnban string string
  | OpHostUnban int string string
  | OpSweep

fun fleet_step :: "fenv \<Rightarrow> fleet_op \<Rightarrow> service \<Rightarrow> service" where
  "fleet_step ev (OpSettings i) s = fst (UpdateSettings ev i s)"
| "fleet_step ev (OpPolicy h p) s = fst (UpdateHostPolicy ev h p s)"
| "fleet_step ev (OpIngest h r) s = fst (Ingest ev h r s)"
| "fleet_step ev (OpBan ip ttl note actor) s = fst (ManualBan ev ip ttl note actor s)"
| "fleet_step ev (OpUnban ip actor) s = fst (FleetUnban ev ip actor s)"
| "fleet_step ev (OpHostUnban h ip actor) s = fst (HostUnban ev h ip actor s)"
| "fleet_step ev OpSweep s = sweep ev s"

definition fleet_run :: "(fenv \<times> fleet_op) list \<Rightarrow> service \<Rightarrow> service" where
  "fleet_run = fold (\<lambda>(ev, p). fleet_step ev p)"

text \<open>The tables as the migrations create them, and the service loaded from them.\<close>

definition settings0 :: "time \<Rightarrow> settings" where
  "settings0 t = \<lparr>sg_Enabled = True, sg_Enforce = False, sg_Contribute = True, sg_ApplyFleet = True, sg_Mode = ''normal'',
     sg_MaxRetry = 5, sg_FindTimeS = 600, sg_BanTimeS = 3600, sg_BanTimeMaxS = 604800, sg_BanPrivate = False,
     sg_FleetMinHosts = 2, sg_FleetMinBans = 3, sg_FleetTTLS = 86400, sg_Allowlist = [], sg_Version = 1, sg_UpdatedAt = t\<rparr>"

definition svc0 :: "time \<Rightarrow> int list \<Rightarrow> duration \<Rightarrow> service" where
  "svc0 t hosts retention =
     \<lparr>sv_db = \<lparr>fd_settings = settings0 t, fd_known_hosts = hosts, fd_hosts = [], fd_active = [], fd_fleet = [], fd_suppress = [],
        fd_cmds = [], fd_events = [], fd_nextEvent = 1\<rparr>,
      sv_version = 1, sv_settings = settings0 t, sv_retention = retention\<rparr>"

end
