(* ===== verification/Fleet_Laws.thy ===== *)
theory Fleet_Laws
  imports Fleet_Service
begin

text \<open>
  The laws of the server's address banning: what each operation leaves alone, the invariant of settings,
  overrides and mirror, when a change is published to the agents, that a replayed report changes
  nothing, and that streaming the events ends and visits each once.
\<close>

section \<open>Frames\<close>

lemma add_event_frame [simp]:
  "fd_settings (add_event e d) = fd_settings d" "fd_known_hosts (add_event e d) = fd_known_hosts d"
  "fd_hosts (add_event e d) = fd_hosts d" "fd_active (add_event e d) = fd_active d" "fd_fleet (add_event e d) = fd_fleet d"
  "fd_suppress (add_event e d) = fd_suppress d" "fd_cmds (add_event e d) = fd_cmds d"
  by (simp_all add: add_event_def)

lemma put_fleet_frame [simp]:
  "fd_settings (put_fleet ip b d) = fd_settings d" "fd_known_hosts (put_fleet ip b d) = fd_known_hosts d"
  "fd_hosts (put_fleet ip b d) = fd_hosts d" "fd_active (put_fleet ip b d) = fd_active d"
  "fd_suppress (put_fleet ip b d) = fd_suppress d" "fd_cmds (put_fleet ip b d) = fd_cmds d"
  "fd_events (put_fleet ip b d) = fd_events d" "fd_nextEvent (put_fleet ip b d) = fd_nextEvent d"
  "fd_fleet (put_fleet ip b d) = put ip b (fd_fleet d)"
  by (simp_all add: put_fleet_def)

lemma bumpVersion_frame [simp]:
  "fd_known_hosts (bumpVersion t d) = fd_known_hosts d" "fd_hosts (bumpVersion t d) = fd_hosts d"
  "fd_active (bumpVersion t d) = fd_active d" "fd_fleet (bumpVersion t d) = fd_fleet d"
  "fd_suppress (bumpVersion t d) = fd_suppress d" "fd_cmds (bumpVersion t d) = fd_cmds d"
  "fd_events (bumpVersion t d) = fd_events d" "fd_nextEvent (bumpVersion t d) = fd_nextEvent d"
  "fd_settings (bumpVersion t d) = (fd_settings d)\<lparr>sg_Version := sg_Version (fd_settings d) + 1, sg_UpdatedAt := t\<rparr>"
  by (simp_all add: bumpVersion_def)

lemma save_report_frame [simp]:
  "fd_settings (save_report h r t d) = fd_settings d" "fd_known_hosts (save_report h r t d) = fd_known_hosts d"
  "fd_active (save_report h r t d) = fd_active d" "fd_fleet (save_report h r t d) = fd_fleet d"
  "fd_suppress (save_report h r t d) = fd_suppress d" "fd_cmds (save_report h r t d) = fd_cmds d"
  "fd_events (save_report h r t d) = fd_events d" "fd_nextEvent (save_report h r t d) = fd_nextEvent d"
  by (simp_all add: save_report_def Let_def)

lemma set_policy_frame [simp]:
  "fd_settings (set_policy h p d) = fd_settings d" "fd_fleet (set_policy h p d) = fd_fleet d" "fd_cmds (set_policy h p d) = fd_cmds d"
  "fd_events (set_policy h p d) = fd_events d"
  by (simp_all add: set_policy_def)

lemma hostPolicy_of_save_report [simp]: "hostPolicy_of (save_report h r t d) h' = hostPolicy_of d h'"
  by (auto simp: hostPolicy_of_def save_report_def Let_def split: option.split)

text \<open>The parts of the tables that storing events leaves alone.\<close>

definition same_base :: "fleetdb \<Rightarrow> fleetdb \<Rightarrow> bool" where
  "same_base d d' \<longleftrightarrow> fd_settings d' = fd_settings d \<and> fd_known_hosts d' = fd_known_hosts d \<and> fd_hosts d' = fd_hosts d \<and>
     fd_cmds d' = fd_cmds d \<and> fd_suppress d' = fd_suppress d"

text \<open>Entries of the fleet list may only get a later expiry, and only when they had long to live.\<close>

definition extended :: "time \<Rightarrow> (addr \<times> fleetBan) \<Rightarrow> (addr \<times> fleetBan) \<Rightarrow> bool" where
  "extended soon x y \<longleftrightarrow> fst x = fst y \<and>
     (fb_expires_at (snd x) = fb_expires_at (snd y) \<or>
      soon \<le> fb_expires_at (snd x) \<and> fb_expires_at (snd x) \<le> fb_expires_at (snd y))"

lemma extended_refl [simp]: "extended soon x x"
  by (simp add: extended_def)

lemma extended_trans: "extended soon x y \<Longrightarrow> extended soon y z \<Longrightarrow> extended soon x z"
  by (auto simp: extended_def)

lemma extended_all_refl [simp]: "list_all2 (extended soon) m m"
  by (simp add: list_all2_refl)

lemma extended_all_trans:
  "list_all2 (extended soon) m m' \<Longrightarrow> list_all2 (extended soon) m' m'' \<Longrightarrow> list_all2 (extended soon) m m''"
  by (rule list_all2_trans[OF extended_trans])

lemma extended_put:
  "get m k = Some b \<Longrightarrow> extended soon (k, b) (k, v) \<Longrightarrow> list_all2 (extended soon) m (put k v m)"
  by (induction m) (auto split: if_splits)

lemma propagate_changes:
  assumes "propagate st ip now d = (d', bumped)"
  shows "same_base d d'" and "fd_active d' = fd_active d"
    and "\<not> bumped \<Longrightarrow> list_all2 (extended (now + go_div (i64 (sg_FleetTTLS st * Second)) 2)) (fd_fleet d) (fd_fleet d')"
    and "\<exists>es. fd_events d' = fd_events d @ es"
  using assms
  by (auto simp: propagate_def Let_def same_base_def add_event_def extended_def intro!: extended_put
           split: if_splits option.splits)

text \<open>The numbers and times of the events.\<close>

definition events_ok :: "fleetdb \<Rightarrow> bool" where
  "events_ok d \<longleftrightarrow> 0 < fd_nextEvent d \<and> distinct (map ev_id (fd_events d)) \<and>
     (\<forall>e \<in> set (fd_events d). 0 < ev_id e \<and> ev_id e < fd_nextEvent d \<and> ev_time e \<noteq> zero_time)"

lemma events_ok_add [simp]: "ev_time e \<noteq> zero_time \<Longrightarrow> events_ok d \<Longrightarrow> events_ok (add_event e d)"
  by (force simp: events_ok_def add_event_def)

lemma events_ok_cong: "fd_events d' = fd_events d \<Longrightarrow> fd_nextEvent d' = fd_nextEvent d \<Longrightarrow> events_ok d' = events_ok d"
  by (simp add: events_ok_def)

lemma events_ok_updates [simp]:
  "events_ok (put_fleet ip b d) = events_ok d" "events_ok (d\<lparr>fd_active := x\<rparr>) = events_ok d" "events_ok (bumpVersion t d) = events_ok d"
  "events_ok (save_report h r t d) = events_ok d" "events_ok (d\<lparr>fd_fleet := y\<rparr>) = events_ok d"
  "events_ok (d\<lparr>fd_suppress := z\<rparr>) = events_ok d" "events_ok (d\<lparr>fd_cmds := c\<rparr>) = events_ok d"
  "events_ok (set_policy h p d) = events_ok d" "events_ok (d\<lparr>fd_settings := st\<rparr>) = events_ok d"
  by (simp_all add: events_ok_def set_policy_def)

lemma blank_event_time [simp]: "ev_time (blank_event t ip act) = t"
  by (simp add: blank_event_def)

lemma propagate_events_ok:
  "propagate st ip now d = (d', bumped) \<Longrightarrow> now \<noteq> zero_time \<Longrightarrow> events_ok d \<Longrightarrow> events_ok d'"
  by (auto simp: propagate_def Let_def split: if_splits option.splits)

lemma same_base_refl [simp]: "same_base d d"
  by (simp add: same_base_def)

lemma same_base_trans: "same_base d d' \<Longrightarrow> same_base d' d'' \<Longrightarrow> same_base d d''"
  by (simp add: same_base_def)

lemma same_base_steps [simp]: "same_base d (add_event e d)" "same_base d (d\<lparr>fd_active := x\<rparr>)"
  by (simp_all add: same_base_def)

text \<open>What storing the events of a report does to the tables.\<close>

definition ingested :: "time \<Rightarrow> time \<Rightarrow> fleetdb \<times> bool \<Rightarrow> fleetdb \<times> bool \<Rightarrow> bool" where
  "ingested now soon x y \<longleftrightarrow> same_base (fst x) (fst y) \<and> (snd x \<longrightarrow> snd y) \<and>
     (\<not> snd y \<longrightarrow> list_all2 (extended soon) (fd_fleet (fst x)) (fd_fleet (fst y))) \<and>
     (\<exists>es. fd_events (fst y) = fd_events (fst x) @ es) \<and>
     (now \<noteq> zero_time \<longrightarrow> events_ok (fst x) \<longrightarrow> events_ok (fst y))"

lemma ingested_refl [simp]: "ingested now soon x x"
  by (simp add: ingested_def)

lemma ingested_trans: "ingested now soon x y \<Longrightarrow> ingested now soon y z \<Longrightarrow> ingested now soon x z"
  by (auto simp: ingested_def intro: same_base_trans extended_all_trans)

lemma ingest_ban_ingested:
  assumes step: "ingest_ban st c allow h now e ip stamp expiry d = (d', changed)" and stamp: "stamp \<noteq> zero_time \<or> now = zero_time"
  shows "ingested now (now + go_div (i64 (sg_FleetTTLS st * Second)) 2) (d, b) (d', b \<or> changed)"
proof -
  define d2 where "d2 = store_ban c h e ip stamp expiry d"
  have two: "same_base d d2" "fd_fleet d2 = fd_fleet d" "\<exists>es. fd_events d2 = fd_events d @ es"
    "now \<noteq> zero_time \<Longrightarrow> events_ok d \<Longrightarrow> events_ok d2"
    using stamp by (auto simp: store_ban_def d2_def same_base_def add_event_def events_ok_def Let_def; force)+
  have "propagate st ip now d2 = (d', changed) \<or> (d', changed) = (d2, False)"
    using step by (auto simp: ingest_ban_def Let_def d2_def split: if_splits)
  then show ?thesis
    using two propagate_changes[of st ip now d2 d' changed] propagate_events_ok[of st ip now d2 d' changed]
    by (auto simp: ingested_def intro: same_base_trans)
qed

lemma ingest_unban_ingested:
  "stamp \<noteq> zero_time \<or> now = zero_time \<Longrightarrow> ingested now soon (d, b) (ingest_unban c h e ip stamp d, b)"
  by (auto simp: ingested_def ingest_unban_def Let_def same_base_def; force simp: add_event_def)

lemma ingest_event_ingested:
  assumes "ingest_event st c allow h now e x = Some y"
  shows "ingested now (now + go_div (i64 (sg_FleetTTLS st * Second)) 2) x y"
proof -
  obtain d b where x: "x = (d, b)" by force
  define stamp where "stamp = (if be_Time e = zero_time \<or> now + 2 * Minute < be_Time e then now else be_Time e)"
  have st: "stamp \<noteq> zero_time \<or> now = zero_time" by (simp add: stamp_def)
  from assms show ?thesis
    unfolding ingest_event_def x Let_def stamp_def[symmetric]
    using ingest_ban_ingested[OF _ st] ingest_unban_ingested[OF st]
    by (auto split: if_splits option.splits prod.splits)
qed

lemma ingest_events_ingested:
  "ingest_events st c allow h now es x = Some y \<Longrightarrow> ingested now (now + go_div (i64 (sg_FleetTTLS st * Second)) 2) x y"
  by (induction es arbitrary: x) (auto split: option.splits intro: ingest_event_ingested ingested_trans)

section \<open>The invariant\<close>

definition policy_ok :: "fleetdb \<Rightarrow> bool" where
  "policy_ok d \<longleftrightarrow> ranges_ok (fd_settings d) \<and>
     (sg_Enforce (fd_settings d) \<or> host_enforcing d \<longrightarrow> sg_Allowlist (fd_settings d) \<noteq> [])"

definition mirrored :: "service \<Rightarrow> bool" where
  "mirrored s \<longleftrightarrow> sv_settings s = fd_settings (sv_db s) \<and> sv_version s = sg_Version (fd_settings (sv_db s))"

definition fleet_inv :: "service \<Rightarrow> bool" where
  "fleet_inv s \<longleftrightarrow> policy_ok (sv_db s) \<and> mirrored s"

lemma ranges_ok_bump [simp]: "ranges_ok (st\<lparr>sg_Version := v, sg_UpdatedAt := t\<rparr>) = ranges_ok st"
  by (simp add: ranges_ok_def)

lemma commit_bumped_db [simp]: "sv_db (commit_bumped ev d s) = bumpVersion (fe_now ev) d"
  by (simp add: commit_bumped_def publishVersion_def Let_def)

lemma commit_bumped_mirrored:
  "mirrored s \<Longrightarrow> fd_settings d = fd_settings (sv_db s) \<Longrightarrow> mirrored (commit_bumped ev d s)"
  by (simp add: mirrored_def commit_bumped_def publishVersion_def Let_def)

lemma policy_ok_bump [simp]: "policy_ok (bumpVersion t d) = policy_ok d"
  by (simp add: policy_ok_def host_enforcing_def)

lemma policy_ok_base: "same_base d d' \<Longrightarrow> policy_ok d' = policy_ok d"
  by (simp add: same_base_def policy_ok_def host_enforcing_def)

lemma put_elements: "x \<in> set (put k v m) \<Longrightarrow> x = (k, v) \<or> x \<in> set m"
  by (induction m) (auto split: if_splits)

lemma hostPolicy_enforcing: "hp_Enforce (hostPolicy_of d h) = Some True \<Longrightarrow> host_enforcing d"
  by (auto simp: hostPolicy_of_def no_policy_def host_enforcing_def list_ex_iff split: option.splits dest: map_of_SomeD)

lemma host_enforcing_put:
  "host_enforcing (d\<lparr>fd_hosts := put h r (fd_hosts d)\<rparr>) \<Longrightarrow> host_enforcing d \<or> hp_Enforce (ih_policy r) = Some True"
  by (fastforce simp: host_enforcing_def list_ex_iff dest!: put_elements)

lemma host_enforcing_report: "host_enforcing (save_report h r t d) \<Longrightarrow> host_enforcing d"
  by (auto simp: save_report_def Let_def dest!: host_enforcing_put hostPolicy_enforcing)

lemma host_enforcing_set_policy: "host_enforcing (set_policy h p d) \<Longrightarrow> host_enforcing d \<or> hp_Enforce p = Some True"
  unfolding set_policy_def by (drule host_enforcing_put) (auto split: option.splits)

lemma Validate_result:
  "Validate st = Some st' \<Longrightarrow> ranges_ok st' \<and> (sg_Enforce st' \<longrightarrow> sg_Allowlist st' \<noteq> [])"
  by (auto simp: Validate_def ranges_ok_def split: if_splits option.splits)

lemma UpdateSettings_inv: "fleet_inv s \<Longrightarrow> fleet_inv (fst (UpdateSettings ev i s))"
  by (auto simp: UpdateSettings_def update_commit_def update_publish_def fleet_inv_def policy_ok_def mirrored_def Let_def
        host_enforcing_def split: option.splits prod.splits sum.splits if_splits dest: Validate_result)

lemma fleet_inv_commit:
  "fleet_inv s \<Longrightarrow> same_base (sv_db s) (d\<lparr>fd_cmds := fd_cmds (sv_db s), fd_suppress := fd_suppress (sv_db s)\<rparr>) \<Longrightarrow> fleet_inv (commit_bumped ev d s)"
  by (simp add: fleet_inv_def commit_bumped_mirrored same_base_def policy_ok_def host_enforcing_def)

lemma UpdateHostPolicy_inv: "fleet_inv s \<Longrightarrow> fleet_inv (fst (UpdateHostPolicy ev h p s))"
proof -
  assume inv: "fleet_inv s"
  define merged where "merged = merge_policy (hostPolicy_of (sv_db s) h) p"
  have "policy_ok (set_policy h merged (sv_db s))"
    if "\<not> (ep_Enforce (effectiveFor (fd_settings (sv_db s)) merged) \<and> sg_Allowlist (fd_settings (sv_db s)) = [])"
    using inv that host_enforcing_set_policy[of h merged "sv_db s"]
    by (auto simp: fleet_inv_def policy_ok_def effectiveFor_def pick_def)
  with inv show ?thesis
    by (simp add: UpdateHostPolicy_def Let_def merged_def[symmetric] fleet_inv_def commit_bumped_mirrored)
qed

lemma Ingest_cases:
  assumes "Ingest ev h r s = (s', ok)"
  obtains (refused) "s' = s" "\<not> ok"
    | (report) "s' = s\<lparr>sv_db := save_report h r (fe_now ev) (sv_db s)\<rparr>" "rr_Events r = [] \<or> \<not> ok"
    | (stored) d bumped where
        "ingest_events (fd_settings (sv_db s)) (ep_Contribute (effectiveFor (fd_settings (sv_db s)) (hostPolicy_of (sv_db s) h)))
           (parsePrefixes (sg_Allowlist (fd_settings (sv_db s)))) h (fe_now ev) (take maxEventsPerPost (rr_Events r))
           (save_report h r (fe_now ev) (sv_db s), False) = Some (d, bumped)"
        "if bumped then s' = commit_bumped ev d (s\<lparr>sv_db := save_report h r (fe_now ev) (sv_db s)\<rparr>) else s' = s\<lparr>sv_db := d\<rparr>" "ok"
  using assms by (auto simp: Ingest_def Let_def split: if_splits option.splits prod.splits)

lemma report_inv: "fleet_inv s \<Longrightarrow> fleet_inv (s\<lparr>sv_db := save_report h r t (sv_db s)\<rparr>)"
  using host_enforcing_report[of h r t "sv_db s"] by (auto simp: fleet_inv_def policy_ok_def mirrored_def)

lemma Ingest_inv: "fleet_inv s \<Longrightarrow> fleet_inv (fst (Ingest ev h r s))"
proof -
  assume inv: "fleet_inv s"
  obtain s' ok where run: "Ingest ev h r s = (s', ok)" by force
  let ?s1 = "s\<lparr>sv_db := save_report h r (fe_now ev) (sv_db s)\<rparr>"
  have inv1: "fleet_inv ?s1" by (rule report_inv[OF inv])
  from run have "fleet_inv s'"
  proof (cases rule: Ingest_cases)
    case (stored d bumped)
    have base: "same_base (sv_db ?s1) d" using ingest_events_ingested[OF stored(1)] by (simp add: ingested_def)
    then have "policy_ok d" using inv1 policy_ok_base by (auto simp: fleet_inv_def)
    moreover have "mirrored (commit_bumped ev d ?s1)"
      using inv1 base by (intro commit_bumped_mirrored) (auto simp: fleet_inv_def same_base_def)
    moreover have "mirrored (s\<lparr>sv_db := d\<rparr>)"
      using inv1 base by (simp add: fleet_inv_def same_base_def mirrored_def)
    ultimately show ?thesis using stored(2) by (auto simp: fleet_inv_def split: if_splits)
  qed (use inv inv1 in auto)
  then show ?thesis by (simp add: run)
qed

text \<open>An operation by hand either changes nothing or commits tables with the same settings and overrides.\<close>

definition hand_commit :: "fenv \<Rightarrow> fleetdb \<Rightarrow> fleetdb \<Rightarrow> bool" where
  "hand_commit ev d d' \<longleftrightarrow> fd_settings d' = fd_settings d \<and> fd_hosts d' = fd_hosts d \<and>
     (\<exists>es. fd_events d' = fd_events d @ es) \<and> (fe_now ev \<noteq> zero_time \<longrightarrow> events_ok d \<longrightarrow> events_ok d')"

definition hand_step :: "fenv \<Rightarrow> service \<Rightarrow> service \<Rightarrow> bool" where
  "hand_step ev s s' \<longleftrightarrow> s' = s \<or> (\<exists>d. s' = commit_bumped ev d s \<and> hand_commit ev (sv_db s) d)"

lemma hand_step_refl [simp]: "hand_step ev s s"
  by (simp add: hand_step_def)

lemma hand_stepI: "hand_commit ev (sv_db s) d \<Longrightarrow> hand_step ev s (commit_bumped ev d s)"
  by (auto simp: hand_step_def)

lemma hand_commit_event:
  "hand_commit ev d d' \<Longrightarrow> (fe_now ev \<noteq> zero_time \<Longrightarrow> ev_time e \<noteq> zero_time) \<Longrightarrow> hand_commit ev d (add_event e d')"
  by (auto simp: hand_commit_def) (simp_all add: add_event_def)

lemma hand_commit_updates [simp]:
  "hand_commit ev d d" "hand_commit ev d (put_fleet ip b d') = hand_commit ev d d'"
  "hand_commit ev d (d'\<lparr>fd_suppress := x\<rparr>) = hand_commit ev d d'" "hand_commit ev d (d'\<lparr>fd_fleet := y\<rparr>) = hand_commit ev d d'"
  "hand_commit ev d (d'\<lparr>fd_cmds := z\<rparr>) = hand_commit ev d d'" "hand_commit ev d (d'\<lparr>fd_active := w\<rparr>) = hand_commit ev d d'"
  by (simp_all add: hand_commit_def)

lemma hand_steps:
  "hand_step ev s (fst (ManualBan ev ip ttl note actor s))"
  "hand_step ev s (fst (FleetUnban ev ip actor s))"
  "hand_step ev s (fst (HostUnban ev h ip actor s))"
  by (simp_all add: ManualBan_def FleetUnban_def HostUnban_def Let_def hand_stepI hand_commit_event split: option.split)

lemma hand_inv: "hand_step ev s s' \<Longrightarrow> fleet_inv s \<Longrightarrow> fleet_inv s'"
  by (auto simp: hand_step_def hand_commit_def fleet_inv_def policy_ok_def host_enforcing_def commit_bumped_mirrored)

lemma sweep_frame [simp]:
  "fd_settings (sv_db (sweep ev s)) = fd_settings (sv_db s)" "fd_hosts (sv_db (sweep ev s)) = fd_hosts (sv_db s)"
  "sv_settings (sweep ev s) = sv_settings s" "sv_version (sweep ev s) = sv_version s"
  "fd_nextEvent (sv_db (sweep ev s)) = fd_nextEvent (sv_db s)"
  by (simp_all add: sweep_def Let_def)

lemma fleet_step_inv: "fleet_inv s \<Longrightarrow> fleet_inv (fleet_step ev p s)"
proof (cases p)
  case OpSweep
  moreover assume "fleet_inv s"
  ultimately show ?thesis by (simp add: fleet_inv_def mirrored_def policy_ok_def host_enforcing_def)
qed (simp_all add: UpdateSettings_inv UpdateHostPolicy_inv Ingest_inv hand_inv[OF hand_steps(1)] hand_inv[OF hand_steps(2)] hand_inv[OF hand_steps(3)])

lemma fleet_run_Nil [simp]: "fleet_run [] s = s"
  by (simp add: fleet_run_def)

lemma fleet_run_Cons [simp]: "fleet_run ((ev, p) # tr) s = fleet_run tr (fleet_step ev p s)"
  by (simp add: fleet_run_def)

lemma fleet_run_inv: "fleet_inv s \<Longrightarrow> fleet_inv (fleet_run tr s)"
  by (induction tr arbitrary: s) (auto simp: fleet_step_inv)

lemma svc0_inv: "fleet_inv (svc0 t hosts retention)"
  by (simp add: fleet_inv_def svc0_def policy_ok_def mirrored_def ranges_ok_def settings0_def host_enforcing_def)

section \<open>Publication of changes\<close>

definition soon :: "fenv \<Rightarrow> service \<Rightarrow> time" where
  "soon ev s = fe_now ev + go_div (i64 (sg_FleetTTLS (fd_settings (sv_db s)) * Second)) 2"

text \<open>A change that agents need not learn of at once.\<close>

definition quiet :: "time \<Rightarrow> fleetdb \<Rightarrow> fleetdb \<Rightarrow> bool" where
  "quiet t d d' \<longleftrightarrow> fd_settings d' = fd_settings d \<and> hostPolicy_of d' = hostPolicy_of d \<and> fd_cmds d' = fd_cmds d \<and>
     list_all2 (extended t) (fd_fleet d) (fd_fleet d')"

lemma quiet_refl [simp]: "quiet t d d"
  by (simp add: quiet_def)

lemma hand_quiet:
  "hand_step ev s s' \<Longrightarrow> s' = s \<or> sg_Version (fd_settings (sv_db s')) = sg_Version (fd_settings (sv_db s)) + 1"
  by (auto simp: hand_step_def hand_commit_def)

lemma Ingest_quiet:
  "sg_Version (fd_settings (sv_db (fst (Ingest ev h r s)))) = sg_Version (fd_settings (sv_db s)) + 1 \<or>
   quiet (soon ev s) (sv_db s) (sv_db (fst (Ingest ev h r s)))"
proof -
  obtain s' ok where run: "Ingest ev h r s = (s', ok)" by force
  let ?d = "save_report h r (fe_now ev) (sv_db s)"
  have rep: "quiet (soon ev s) (sv_db s) ?d" by (simp add: quiet_def fun_eq_iff)
  from run show ?thesis
  proof (cases rule: Ingest_cases)
    case (stored d bumped)
    have ing: "ingested (fe_now ev) (soon ev s) (?d, False) (d, bumped)"
      using ingest_events_ingested[OF stored(1)] by (simp add: soon_def)
    then have base: "fd_settings d = fd_settings (sv_db s)" "hostPolicy_of d = hostPolicy_of (sv_db s)" "fd_cmds d = fd_cmds (sv_db s)"
      using hostPolicy_of_save_report[of h r "fe_now ev" "sv_db s"]
      by (auto simp: ingested_def same_base_def hostPolicy_of_def fun_eq_iff)
    show ?thesis
    proof (cases bumped)
      case True
      with stored(2) base(1) show ?thesis by (simp add: run)
    next
      case False
      with ing have "list_all2 (extended (soon ev s)) (fd_fleet (sv_db s)) (fd_fleet d)" by (simp add: ingested_def)
      with False stored(2) base show ?thesis by (simp add: run quiet_def)
    qed
  qed (use rep in \<open>simp_all add: run\<close>)
qed

lemma settings_quiet:
  "fst (UpdateSettings ev i s) = s \<or> sg_Version (fd_settings (sv_db (fst (UpdateSettings ev i s)))) = sg_Version (fd_settings (sv_db s)) + 1"
  by (auto simp: UpdateSettings_def update_commit_def update_publish_def publishVersion_def Let_def split: option.splits prod.splits if_splits)

lemma policy_quiet:
  "fst (UpdateHostPolicy ev h p s) = s \<or> sg_Version (fd_settings (sv_db (fst (UpdateHostPolicy ev h p s)))) = sg_Version (fd_settings (sv_db s)) + 1"
  by (simp add: UpdateHostPolicy_def Let_def)

lemma step_quiet:
  assumes "p \<noteq> OpSweep"
  shows "sg_Version (fd_settings (sv_db (fleet_step ev p s))) = sg_Version (fd_settings (sv_db s)) + 1 \<or>
    quiet (soon ev s) (sv_db s) (sv_db (fleet_step ev p s))"
proof (cases p)
  case (OpSettings i)
  then show ?thesis using settings_quiet[of ev i s] by auto
next
  case (OpPolicy h q)
  then show ?thesis using policy_quiet[of ev h q s] by auto
next
  case (OpIngest h r)
  then show ?thesis using Ingest_quiet by simp
next
  case (OpBan ip ttl nt actor)
  then show ?thesis using hand_quiet[OF hand_steps(1)[of ev s ip ttl nt actor]] by auto
next
  case (OpUnban ip actor)
  then show ?thesis using hand_quiet[OF hand_steps(2)[of ev s ip actor]] by auto
next
  case (OpHostUnban h ip actor)
  then show ?thesis using hand_quiet[OF hand_steps(3)[of ev s h ip actor]] by auto
qed (use assms in simp)

lemma list_all2_filter:
  "list_all2 R xs ys \<Longrightarrow> (\<And>x y. x \<in> set xs \<Longrightarrow> R x y \<Longrightarrow> P x = P y) \<Longrightarrow> list_all2 R (filter P xs) (filter P ys)"
  by (induction rule: list_all2_induct) auto

lemma list_all2_insort:
  "list_all2 R xs ys \<Longrightarrow> R x y \<Longrightarrow> (\<And>u v. R u v \<Longrightarrow> f u = f v) \<Longrightarrow> list_all2 R (insort_key f x xs) (insort_key f y ys)"
proof (induction rule: list_all2_induct)
  case (Cons a as b bs)
  then have "f x = f y" "f a = f b" by auto
  with Cons show ?case by simp
qed simp

lemma list_all2_sort_key:
  "list_all2 R xs ys \<Longrightarrow> (\<And>u v. R u v \<Longrightarrow> f u = f v) \<Longrightarrow> list_all2 R (sort_key f xs) (sort_key f ys)"
  by (induction rule: list_all2_induct) (auto intro: list_all2_insort)

lemma live_fleet_extended:
  assumes "list_all2 (extended t) (fd_fleet d) (fd_fleet d')" "now < t"
  shows "list_all2 (extended t) (live_fleet now d) (live_fleet now d')"
  unfolding live_fleet_def
proof (rule list_all2_sort_key[OF list_all2_filter[OF assms(1)]])
  show "(case x of (ip, b) \<Rightarrow> now < fb_expires_at b) = (case y of (ip, b) \<Rightarrow> now < fb_expires_at b)" if "extended t x y" for x y
    using that assms(2) by (cases x; cases y) (auto simp: extended_def)
  show "(case u of (ip, b) \<Rightarrow> inet_key ip) = (case v of (ip, b) \<Rightarrow> inet_key ip)" if "extended t u v" for u v
    using that by (cases u; cases v) (auto simp: extended_def)
qed

lemma i64_ttl:
  assumes "ranges_ok st"
  shows "i64 (sg_FleetTTLS st * Second) = sg_FleetTTLS st * Second"
  using assms by (intro i64_id in_i64_small) (auto simp: ranges_ok_def Second_def)

lemma AgentConfig_quiet:
  assumes q: "quiet (soon ev s) (sv_db s) (sv_db s')" and inv: "fleet_inv s"
    and c: "AgentConfig ev h s = Inr c" and c': "AgentConfig ev h s' = Inr c'"
  shows "bc_Policy c' = bc_Policy c \<and> bc_Allowlist c' = bc_Allowlist c \<and> bc_Unban c' = bc_Unban c \<and>
    list_all2 (\<lambda>e e'. wf_IP e = wf_IP e' \<and> (wf_ExpiresAt e = wf_ExpiresAt e' \<or>
      soon ev s \<le> wf_ExpiresAt e \<and> wf_ExpiresAt e \<le> wf_ExpiresAt e')) (bc_Fleet c) (bc_Fleet c')"
proof -
  have r: "ranges_ok (fd_settings (sv_db s))" using inv by (simp add: fleet_inv_def policy_ok_def)
  then have "0 < go_div (i64 (sg_FleetTTLS (fd_settings (sv_db s)) * Second)) 2"
    by (simp add: i64_ttl) (auto simp: ranges_ok_def Second_def)
  then have "fe_now ev < soon ev s" by (simp add: soon_def)
  then have "list_all2 (extended (soon ev s)) (live_fleet (fe_now ev) (sv_db s)) (live_fleet (fe_now ev) (sv_db s'))"
    using q by (intro live_fleet_extended) (simp_all add: quiet_def)
  then have fleet: "list_all2 (\<lambda>e e'. wf_IP e = wf_IP e' \<and> (wf_ExpiresAt e = wf_ExpiresAt e' \<or>
      soon ev s \<le> wf_ExpiresAt e \<and> wf_ExpiresAt e \<le> wf_ExpiresAt e')) (bc_Fleet c) (bc_Fleet c')"
    using c c' by (auto simp: AgentConfig_def Let_def list_all2_map1 list_all2_map2 extended_def split: if_splits elim!: list_all2_mono)
  have "host_unbans h (sv_db s') = host_unbans h (sv_db s)" "fd_settings (sv_db s') = fd_settings (sv_db s)"
    "hostPolicy_of (sv_db s') h = hostPolicy_of (sv_db s) h"
    using q by (simp_all add: quiet_def host_unbans_def)
  then show ?thesis using c c' fleet by (auto simp: AgentConfig_def Let_def split: if_splits)
qed

text \<open>
  C32. In every state that operations lead to from the freshly created tables, the configuration of every agent has
  all limits in their ranges, asks for enforcement exactly when the settings and the overrides of the
  host do, and then always with an allowlist: the guard in \<open>AgentConfig\<close> never has to act.
\<close>

theorem agent_policy_sound:
  fixes tr t hosts retention
  defines "s \<equiv> fleet_run tr (svc0 t hosts retention)"
  assumes "AgentConfig ev h s = Inr c"
  shows "po_Enforce (bc_Policy c) = ep_Enforce (effectiveFor (fd_settings (sv_db s)) (hostPolicy_of (sv_db s) h)) \<and>
    (po_Enforce (bc_Policy c) \<longrightarrow> bc_Allowlist c \<noteq> []) \<and>
    po_Mode (bc_Policy c) \<in> {''normal'', ''aggressive''} \<and> po_MaxRetry (bc_Policy c) \<in> {1..100} \<and>
    po_FindTimeS (bc_Policy c) \<in> {60..86400} \<and> po_BanTimeS (bc_Policy c) \<in> {60..30 * 86400} \<and>
    po_BanTimeMaxS (bc_Policy c) \<in> {po_BanTimeS (bc_Policy c)..365 * 86400}"
proof -
  have inv: "policy_ok (sv_db s)" unfolding s_def using fleet_run_inv[OF svc0_inv] by (simp add: fleet_inv_def)
  have c: "c = projr (AgentConfig ev h s)" and ok: "fe_ok ev" using assms(2) by (simp_all add: AgentConfig_def Let_def split: if_splits)
  have "sg_Allowlist (fd_settings (sv_db s)) \<noteq> []" if "ep_Enforce (effectiveFor (fd_settings (sv_db s)) (hostPolicy_of (sv_db s) h))"
    using inv that hostPolicy_enforcing[of "sv_db s" h]
    by (auto simp: policy_ok_def effectiveFor_def pick_def split: option.splits)
  then have "po_Enforce (bc_Policy c) = ep_Enforce (effectiveFor (fd_settings (sv_db s)) (hostPolicy_of (sv_db s) h))"
    "po_Enforce (bc_Policy c) \<longrightarrow> bc_Allowlist c \<noteq> []"
    by (auto simp: c ok AgentConfig_def Let_def)
  moreover have "ranges_ok (fd_settings (sv_db s))" using inv by (simp add: policy_ok_def)
  ultimately show ?thesis by (auto simp: c ok AgentConfig_def Let_def ranges_ok_def)
qed

definition ev1 :: fenv where "ev1 = \<lparr>fe_now = 1000, fe_ok = True, fe_commit = True, fe_status_ok = True, fe_sweep = (\<lambda>_. True)\<rparr>"

definition in0 :: settingsInput where
  "in0 = \<lparr>si_Enabled = None, si_Enforce = None, si_Contribute = None, si_ApplyFleet = None, si_Mode = None, si_MaxRetry = None,
     si_FindTimeS = None, si_BanTimeS = None, si_BanTimeMaxS = None, si_BanPrivate = None, si_FleetMinHosts = None,
     si_FleetMinBans = None, si_FleetTTLS = None, si_Allowlist = None\<rparr>"

definition enforce_on :: settingsInput where
  "enforce_on = in0\<lparr>si_Enforce := Some True, si_Allowlist := Some [''10.0.0.1'', '' 10.0.0.1/32 '']\<rparr>"

definition svc1 :: service where "svc1 = fleet_run [(ev1, OpSettings enforce_on)] (svc0 5 [7, 8] 0)"

lemma AgentConfig_ev1: "AgentConfig ev1 h s = Inr (projr (AgentConfig ev1 h s))"
  by (simp add: AgentConfig_def Let_def ev1_def)

theorem agent_policy_sound_witness:
  "AgentConfig ev1 7 svc1 = Inr (projr (AgentConfig ev1 7 svc1)) \<and>
   bc_Allowlist (projr (AgentConfig ev1 7 svc1)) = [''10.0.0.1/32''] \<and> po_Enforce (bc_Policy (projr (AgentConfig ev1 7 svc1))) \<and>
   po_BanTimeMaxS (bc_Policy (projr (AgentConfig ev1 7 svc1))) \<in> {po_BanTimeS (bc_Policy (projr (AgentConfig ev1 7 svc1)))..365 * 86400}"
  using agent_policy_sound[of ev1 7 "[(ev1, OpSettings enforce_on)]" 5 "[7, 8]" 0 "projr (AgentConfig ev1 7 svc1)"] AgentConfig_ev1[of 7 svc1]
  unfolding svc1_def[symmetric] by (simp del: fleet_run_Cons) code_simp

text \<open>A sweep takes nothing from the configuration but unban commands that are older than the retention.\<close>

lemma sweep_unbans:
  "host_unbans h (sv_db (sweep ev s)) = host_unbans h (sv_db s) \<or>
   host_unbans h (sv_db (sweep ev s)) = filter (\<lambda>x. fe_now ev - cmdRetention \<le> snd (snd x)) (host_unbans h (sv_db s))"
proof -
  have "fd_cmds (sv_db (sweep ev s)) = (if fe_sweep ev 3 then filter (\<lambda>(h, a, t). \<not> t < fe_now ev - cmdRetention) (fd_cmds (sv_db s))
      else fd_cmds (sv_db s))"
    by (simp add: sweep_def Let_def)
  then show ?thesis
    by (auto simp: host_unbans_def filter_sort not_less case_prod_beta conj_commute intro!: arg_cong[where f = "sort_key _"] filter_cong)
qed

lemma sweep_live_fleet: "live_fleet (fe_now ev) (sv_db (sweep ev s)) = live_fleet (fe_now ev) (sv_db s)"
  by (auto simp: live_fleet_def sweep_def Let_def case_prod_beta intro!: arg_cong[where f = "sort_key _"] filter_cong)

lemma sweep_hostPolicy: "hostPolicy_of (sv_db (sweep ev s)) = hostPolicy_of (sv_db s)"
  by (simp add: fun_eq_iff hostPolicy_of_def)

lemma AgentConfig_sweep:
  assumes "AgentConfig ev h s = Inr c" "AgentConfig ev h (sweep ev s) = Inr c'"
  shows "bc_Version c' = bc_Version c \<and> bc_Policy c' = bc_Policy c \<and> bc_Allowlist c' = bc_Allowlist c \<and> bc_Fleet c' = bc_Fleet c \<and>
    (bc_Unban c' = bc_Unban c \<or> bc_Unban c' = filter (\<lambda>u. fe_now ev - cmdRetention \<le> ub_At u) (bc_Unban c))"
proof -
  let ?u = "\<lambda>d. map (\<lambda>(_, ip, t). \<lparr>ub_IP = addr_String (Unmap ip), ub_At = t\<rparr>) (host_unbans h d)"
  have u: "bc_Unban c = ?u (sv_db s)" "bc_Unban c' = ?u (sv_db (sweep ev s))"
    using assms by (auto simp: AgentConfig_def Let_def split: if_splits)
  have "bc_Unban c' = bc_Unban c \<or> bc_Unban c' = filter (\<lambda>u. fe_now ev - cmdRetention \<le> ub_At u) (bc_Unban c)"
    using sweep_unbans[of h ev s] unfolding u by (auto simp: filter_map comp_def case_prod_beta)
  then show ?thesis using assms
    by (auto simp: AgentConfig_def Let_def sweep_live_fleet sweep_hostPolicy split: if_splits)
qed

text \<open>
  C28. Whatever operation is applied in such a state, the version in the configuration of an agent
  does not decrease and is the version the service announces; when it is the same as before, so are
  policy, allowlist, unbans and the addresses of the fleet list at that instant, and an expiry that moved was more
  than half of the fleet's time to live away and moved to the future. Only a sweep can besides drop unban commands that are older
  than the retention of commands.
\<close>

theorem config_changes_published:
  fixes tr t hosts retention ev p
  defines "s \<equiv> fleet_run tr (svc0 t hosts retention)" and "s' \<equiv> fleet_step ev p (fleet_run tr (svc0 t hosts retention))"
  assumes "AgentConfig ev h s = Inr c" "AgentConfig ev h s' = Inr c'"
  shows "bc_Version c \<le> bc_Version c' \<and> sv_version s' = bc_Version c' \<and>
    (bc_Version c' = bc_Version c \<longrightarrow>
      bc_Policy c' = bc_Policy c \<and> bc_Allowlist c' = bc_Allowlist c \<and>
      (bc_Unban c' = bc_Unban c \<or> p = OpSweep \<and> bc_Unban c' = filter (\<lambda>u. fe_now ev - cmdRetention \<le> ub_At u) (bc_Unban c)) \<and>
      list_all2 (\<lambda>e e'. wf_IP e = wf_IP e' \<and> (wf_ExpiresAt e = wf_ExpiresAt e' \<or>
        soon ev s \<le> wf_ExpiresAt e \<and> wf_ExpiresAt e \<le> wf_ExpiresAt e')) (bc_Fleet c) (bc_Fleet c'))"
proof -
  have s': "s' = fleet_step ev p s" by (simp add: s_def s'_def)
  have inv: "fleet_inv s" unfolding s_def by (rule fleet_run_inv[OF svc0_inv])
  then have "fleet_inv s'" unfolding s' by (rule fleet_step_inv)
  then have announced: "sv_version s' = sg_Version (fd_settings (sv_db s'))" by (simp add: fleet_inv_def mirrored_def)
  have v: "bc_Version c = sg_Version (fd_settings (sv_db s))" "bc_Version c' = sg_Version (fd_settings (sv_db s'))"
    using assms(3, 4) by (auto simp: AgentConfig_def Let_def split: if_splits)
  show ?thesis
  proof (cases "p = OpSweep")
    case True
    then have sw: "s' = sweep ev s" by (simp add: s')
    show ?thesis using AgentConfig_sweep[OF assms(3) assms(4)[unfolded sw]] announced v True
      by (simp add: list.rel_refl)
  next
    case False
    consider "sg_Version (fd_settings (sv_db s')) = sg_Version (fd_settings (sv_db s)) + 1" | "quiet (soon ev s) (sv_db s) (sv_db s')"
      using step_quiet[OF False, of ev s] s' by auto
    then show ?thesis
    proof cases
      case 2
      then have "fd_settings (sv_db s') = fd_settings (sv_db s)" by (simp add: quiet_def)
      with AgentConfig_quiet[OF 2 inv assms(3, 4)] v announced show ?thesis by simp
    qed (use v announced in simp)
  qed
qed

theorem config_changes_published_witness:
  "AgentConfig ev1 7 svc1 = Inr (projr (AgentConfig ev1 7 svc1)) \<and>
   bc_Version (projr (AgentConfig ev1 7 svc1)) \<le> bc_Version (projr (AgentConfig ev1 7 (fleet_step ev1 (OpBan ''8.8.8.8'' Hour ''n'' ''a'') svc1))) \<and>
   map wf_IP (bc_Fleet (projr (AgentConfig ev1 7 (fleet_step ev1 (OpBan ''8.8.8.8'' Hour ''n'' ''a'') svc1)))) = [''8.8.8.8''] \<and>
   bc_Version (projr (AgentConfig ev1 7 (fleet_step ev1 (OpBan ''8.8.8.8'' Hour ''n'' ''a'') svc1))) = 3"
  using config_changes_published[where p = "OpBan ''8.8.8.8'' Hour ''n'' ''a''" and ev = ev1 and h = 7 and tr = "[(ev1, OpSettings enforce_on)]"
      and t = 5 and hosts = "[7, 8]" and retention = 0 and c = "projr (AgentConfig ev1 7 svc1)" and c' = "projr (AgentConfig ev1 7 (fleet_step ev1 (OpBan ''8.8.8.8'' Hour ''n'' ''a'') svc1))"]
    AgentConfig_ev1[of 7 svc1] AgentConfig_ev1[of 7 "fleet_step ev1 (OpBan ''8.8.8.8'' Hour ''n'' ''a'') svc1"]
  unfolding svc1_def[symmetric] by (simp del: fleet_run_Cons fleet_step.simps) code_simp

section \<open>Replayed reports\<close>

text \<open>An event that storing again leaves alone.\<close>

definition settled :: "int \<Rightarrow> fleetdb \<Rightarrow> ipBanEvent \<Rightarrow> bool" where
  "settled h d e \<longleftrightarrow> 128 < length (be_ID e) \<or>
     (case ParseAddr (be_IP e) of
        None \<Rightarrow> True
      | Some ip \<Rightarrow>
          (be_Action e = ''ban'' \<longrightarrow> be_ExpiresAt e = None \<or> (\<not> has_zone (Unmap ip) \<and> known_event h (be_ID e) d)) \<and>
          (be_Action e = ''unban'' \<longrightarrow> \<not> has_zone (Unmap ip) \<and> known_event h (be_ID e) d))"

lemma settled_skip: "settled h d e \<Longrightarrow> ingest_event st c allow h now e (d, b) = Some (d, b)"
  by (auto simp: settled_def ingest_event_def Let_def split: option.splits)

lemma known_event_mono: "known_event h i d \<Longrightarrow> fd_events d' = fd_events d @ es \<Longrightarrow> known_event h i d'"
  by (auto simp: known_event_def)

lemma settled_mono: "settled h d e \<Longrightarrow> fd_events d' = fd_events d @ es \<Longrightarrow> settled h d' e"
  by (auto simp: settled_def intro: known_event_mono split: option.splits)

lemma ingest_ban_known:
  assumes "ingest_ban st c allow h now e ip stamp expiry d = (d', changed)" "be_ID e \<noteq> []"
  shows "known_event h (be_ID e) d'"
proof -
  define d2 where "d2 = store_ban c h e ip stamp expiry d"
  have "known_event h (be_ID e) d2"
    using assms(2) by (simp add: d2_def store_ban_def known_event_def add_event_def Let_def)
  moreover have "propagate st ip now d2 = (d', changed) \<or> d' = d2"
    using assms(1) by (auto simp: ingest_ban_def Let_def d2_def split: if_splits)
  then have "\<exists>es. fd_events d' = fd_events d2 @ es"
    using propagate_changes(4)[of st ip now d2 d' changed] by auto
  ultimately show ?thesis using known_event_mono by blast
qed

lemma ingest_unban_known: "be_ID e \<noteq> [] \<Longrightarrow> known_event h (be_ID e) (ingest_unban c h e ip stamp d)"
  by (simp add: known_event_def ingest_unban_def add_event_def Let_def)

lemma settled_after:
  assumes "ingest_event st c allow h now e x = Some y" "be_ID e \<noteq> []"
  shows "settled h (fst y) e"
proof -
  obtain d b where x: "x = (d, b)" by force
  from assms show ?thesis
    unfolding x settled_def ingest_event_def Let_def
    by (auto split: option.splits if_splits prod.splits intro: ingest_ban_known ingest_unban_known)
qed

lemma ingest_events_settled:
  "ingest_events st c allow h now es x = Some y \<Longrightarrow> \<forall>e \<in> set es. be_ID e \<noteq> [] \<Longrightarrow> \<forall>e \<in> set es. settled h (fst y) e"
proof (induction es arbitrary: x)
  case (Cons e es)
  then obtain z where z: "ingest_event st c allow h now e x = Some z" "ingest_events st c allow h now es z = Some y"
    by (auto split: option.splits)
  obtain xs where "fd_events (fst y) = fd_events (fst z) @ xs"
    using ingest_events_ingested[OF z(2)] by (auto simp: ingested_def)
  then have "settled h (fst y) e" using settled_mono[OF settled_after[OF z(1)]] Cons.prems(2) by auto
  with Cons.IH[OF z(2)] Cons.prems(2) show ?case by simp
qed simp

lemma ingest_events_skip: "\<forall>e \<in> set es. settled h d e \<Longrightarrow> ingest_events st c allow h now es (d, b) = Some (d, b)"
  by (induction es) (simp_all add: settled_skip)

lemma step_events_grow:
  assumes "p \<noteq> OpSweep"
  shows "\<exists>es. fd_events (sv_db (fleet_step ev p s)) = fd_events (sv_db s) @ es"
proof -
  have hand: "\<exists>es. fd_events (sv_db s') = fd_events (sv_db s) @ es" if "hand_step ev s s'" for s'
    using that by (auto simp: hand_step_def hand_commit_def)
  show ?thesis
  proof (cases p)
    case (OpSettings i)
    then show ?thesis
      by (auto simp: UpdateSettings_def update_commit_def update_publish_def publishVersion_def Let_def split: option.splits prod.splits if_splits)
  next
    case (OpPolicy h q)
    then show ?thesis by (simp add: UpdateHostPolicy_def publishVersion_def Let_def)
  next
    case (OpIngest h r)
    obtain s' ok where run: "Ingest ev h r s = (s', ok)" by force
    then have "\<exists>es. fd_events (sv_db s') = fd_events (sv_db s) @ es"
    proof (cases rule: Ingest_cases)
      case (stored d bumped)
      then show ?thesis using ingest_events_ingested[OF stored(1)] by (auto simp: ingested_def split: if_splits)
    qed simp_all
    then show ?thesis by (simp add: OpIngest run)
  qed (use assms hand hand_steps in simp_all)
qed

text \<open>The events of a host with given numbers stay when every sweep comes before their retention ends.\<close>

definition numbered :: "int \<Rightarrow> string set \<Rightarrow> fleetdb \<Rightarrow> banEvent set" where
  "numbered h ids d = {x \<in> set (fd_events d). ev_host x = Some h \<and> ev_agent_id x \<in> ids}"

definition sweeps_spare :: "banEvent set \<Rightarrow> duration \<Rightarrow> (fenv \<times> fleet_op) list \<Rightarrow> bool" where
  "sweeps_spare X retention tr \<longleftrightarrow>
     (\<forall>(ev, p) \<in> set tr. p = OpSweep \<longrightarrow> retention \<le> 0 \<or> (\<forall>x \<in> X. fe_now ev - retention \<le> ev_time x))"

lemma settled_kept:
  "\<lbrakk>settled h d e; be_ID e \<in> ids; numbered h ids d \<subseteq> set (fd_events d')\<rbrakk> \<Longrightarrow> settled h d' e"
  by (auto simp: settled_def numbered_def known_event_def list_ex_iff split: option.splits)

lemma step_retention: "sv_retention (fleet_step ev p s) = sv_retention s"
proof -
  have [simp]: "sv_retention (commit_bumped ev d s) = sv_retention s" for ev d s
    by (simp add: commit_bumped_def publishVersion_def Let_def)
  have hand: "sv_retention s' = sv_retention s" if "hand_step ev s s'" for s'
    using that by (auto simp: hand_step_def)
  show ?thesis
  proof (cases p)
    case (OpSettings i)
    then show ?thesis
      by (auto simp: UpdateSettings_def update_commit_def update_publish_def publishVersion_def Let_def split: option.splits prod.splits if_splits)
  next
    case (OpPolicy h q)
    then show ?thesis by (simp add: UpdateHostPolicy_def publishVersion_def Let_def)
  next
    case (OpIngest h r)
    then show ?thesis by (auto simp: Ingest_def publishVersion_def Let_def split: option.splits prod.splits)
  next
    case OpSweep
    then show ?thesis by (simp add: sweep_def Let_def)
  qed (simp_all add: hand[OF hand_steps(1)] hand[OF hand_steps(2)] hand[OF hand_steps(3)])
qed

lemma step_spares:
  assumes "X \<subseteq> set (fd_events (sv_db s))" "sweeps_spare X (sv_retention s) [(ev, p)]"
  shows "X \<subseteq> set (fd_events (sv_db (fleet_step ev p s)))"
proof (cases "p = OpSweep")
  case True
  then show ?thesis using assms by (auto simp: sweep_def Let_def sweeps_spare_def not_less)
next
  case False
  from step_events_grow[OF this] obtain es where "fd_events (sv_db (fleet_step ev p s)) = fd_events (sv_db s) @ es" by blast
  then show ?thesis using assms(1) by auto
qed

lemma run_spares:
  "\<lbrakk>X \<subseteq> set (fd_events (sv_db s)); sweeps_spare X (sv_retention s) tr\<rbrakk> \<Longrightarrow> X \<subseteq> set (fd_events (sv_db (fleet_run tr s)))"
proof (induction tr arbitrary: s)
  case (Cons a tr)
  obtain ev p where a: "a = (ev, p)" by force
  have "X \<subseteq> set (fd_events (sv_db (fleet_step ev p s)))" "sweeps_spare X (sv_retention (fleet_step ev p s)) tr"
    using Cons.prems step_spares by (auto simp: a sweeps_spare_def step_retention)
  from Cons.IH[OF this] show ?case by (simp add: a)
qed simp

text \<open>
  C29. A report that was accepted, whose events carry numbers, can be sent again after any operations, as long as
  no sweep among them comes after the retention of the report's events has passed: it is accepted and changes nothing but the
  status of the host, so a lost reply counts no ban twice and extends none.
\<close>

theorem replay_changes_nothing:
  assumes "Ingest ev h r s = (s1, True)" "\<forall>e \<in> set (rr_Events r). be_ID e \<noteq> []"
    and "sweeps_spare (numbered h (be_ID ` set (rr_Events r)) (sv_db s1)) (sv_retention s1) tr"
    and "fe_status_ok ev'" "fe_ok ev'" "fe_commit ev'"
  shows "Ingest ev' h r (fleet_run tr s1) =
    ((fleet_run tr s1)\<lparr>sv_db := save_report h r (fe_now ev') (sv_db (fleet_run tr s1))\<rparr>, True)"
proof -
  define s2 where "s2 = fleet_run tr s1"
  define events where "events = take maxEventsPerPost (rr_Events r)"
  have ids: "\<forall>e \<in> set events. be_ID e \<noteq> []" using assms(2) by (auto simp: events_def dest: in_set_takeD)
  have "\<forall>e \<in> set events. settled h (sv_db s1) e"
    using assms(1)
  proof (cases rule: Ingest_cases)
    case (stored d bumped)
    have "fd_events (sv_db s1) = fd_events d @ []" using stored(2) by (auto split: if_splits)
    with ingest_events_settled[OF stored(1)] ids show ?thesis
      by (auto simp: events_def intro: settled_mono)
  qed (simp_all add: events_def)
  moreover have "numbered h (be_ID ` set (rr_Events r)) (sv_db s1) \<subseteq> set (fd_events (sv_db s2))"
    unfolding s2_def by (rule run_spares[OF _ assms(3)]) (auto simp: numbered_def)
  moreover have "be_ID e \<in> be_ID ` set (rr_Events r)" if "e \<in> set events" for e
    using that by (auto simp: events_def dest: in_set_takeD)
  ultimately have "\<forall>e \<in> set events. settled h (sv_db s2) e" by (blast intro: settled_kept)
  then have "\<forall>e \<in> set events. settled h (save_report h r (fe_now ev') (sv_db s2)) e"
    by (auto intro: settled_mono[where d = "sv_db s2" and es = "[]"])
  then show ?thesis
    unfolding s2_def[symmetric]
    using assms(4-6) by (simp add: Ingest_def Let_def ingest_events_skip events_def[symmetric])
qed

definition rep1 :: ipBanReport where
  "rep1 = \<lparr>rr_Supported = True, rr_Detect = ''ok'', rr_DetectMessage = [], rr_Enforce = ''ok'', rr_EnforceMessage = [], rr_Sources = [],
     rr_ActiveLocal = 1, rr_FleetApplied = 0, rr_AppliedVersion = 1, rr_DroppedEvents = 0, rr_DroppedFails = 0,
     rr_Events = [\<lparr>be_ID = ''e1'', be_Time = 900, be_IP = ''8.8.8.8'', be_Action = ''ban'', be_Source = ''sshd'', be_Failures = 5,
       be_User = ''root'', be_ExpiresAt = Some 5000, be_Enforced = True, be_Count = 1\<rparr>]\<rparr>"

definition svc2 :: service where "svc2 = fleet_run [(ev1, OpSettings enforce_on)] (svc0 5 [7, 8] 500)"

text \<open>Between the two copies the host is told to lift the ban, and a sweep runs when the event is 500 old and kept just so.\<close>

definition between1 :: "(fenv \<times> fleet_op) list" where
  "between1 = [(ev1, OpHostUnban 7 ''8.8.8.8'' ''a''), (ev1\<lparr>fe_now := 1400\<rparr>, OpSweep)]"

theorem replay_changes_nothing_witness:
  "Ingest ev1 7 rep1 svc2 = (fst (Ingest ev1 7 rep1 svc2), True) \<and>
   map ev_time (fd_events (sv_db (fst (Ingest ev1 7 rep1 svc2)))) = [900] \<and>
   snd (Ingest ev1 7 rep1 (fleet_run between1 (fst (Ingest ev1 7 rep1 svc2)))) \<and>
   fd_events (sv_db (fst (Ingest ev1 7 rep1 (fleet_run between1 (fst (Ingest ev1 7 rep1 svc2)))))) =
     fd_events (sv_db (fleet_run between1 (fst (Ingest ev1 7 rep1 svc2))))"
proof -
  let ?s = "fst (Ingest ev1 7 rep1 svc2)"
  have one: "snd (Ingest ev1 7 rep1 svc2)" "map ev_time (fd_events (sv_db ?s)) = [900]" "sv_retention ?s = 500"
    by code_simp+
  then have run: "Ingest ev1 7 rep1 svc2 = (?s, True)"
    by (metis prod.collapse)
  have ids: "\<forall>e \<in> set (rr_Events rep1). be_ID e \<noteq> []" by (simp add: rep1_def)
  have "ev_time x = 900" if "x \<in> set (fd_events (sv_db ?s))" for x
    using one(2) that by (cases "fd_events (sv_db ?s)") auto
  then have "sweeps_spare (numbered 7 (be_ID ` set (rr_Events rep1)) (sv_db ?s)) (sv_retention ?s) between1"
    unfolding one(3) by (auto simp: sweeps_spare_def between1_def numbered_def)
  from replay_changes_nothing[OF run ids this, of ev1]
  show ?thesis using run one by (simp add: ev1_def)
qed

section \<open>Streaming the events\<close>

lemma event_key_less: "(ev_time e, ev_id e) = event_key e"
  by (simp add: event_key_def)

lemma newest_first_filter: "newest_first (filter P xs) = filter P (newest_first xs)"
  by (simp add: newest_first_def filter_sort rev_filter[symmetric])

lemma set_newest_first [simp]: "set (newest_first xs) = set xs"
  by (simp add: newest_first_def)

lemma length_newest_first [simp]: "length (newest_first xs) = length xs"
  by (simp add: newest_first_def)

lemma newest_first_sorted:
  assumes "distinct (map ev_id xs)"
  shows "sorted_wrt (\<lambda>a b. event_key b < event_key a) (newest_first xs)"
proof -
  have "distinct (map event_key xs)"
    using assms by (auto simp: distinct_map inj_on_def event_key_def)
  then have "distinct (map event_key (sort_key event_key xs))"
    by (simp add: distinct_map inj_on_def)
  moreover have "sorted (map event_key (sort_key event_key xs))" by simp
  ultimately have "sorted_wrt (<) (map event_key (sort_key event_key xs))"
    by (simp add: strict_sorted_iff)
  then show ?thesis by (simp add: newest_first_def sorted_wrt_rev sorted_wrt_map)
qed

lemma later_pages:
  fixes key :: "'a \<Rightarrow> 'k::linorder"
  assumes "sorted_wrt (\<lambda>a b. key b < key a) xs" "0 < n" "n \<le> length xs"
  shows "filter (\<lambda>e. key e < key (last (take n xs))) xs = drop n xs"
proof -
  let ?l = "last (take n xs)"
  have split: "take n xs = butlast (take n xs) @ [?l]" using assms(2, 3) by (intro append_butlast_last_id[symmetric]) auto
  have "xs = take n xs @ drop n xs" by simp
  then have xs: "xs = butlast (take n xs) @ ?l # drop n xs" using split by (metis append.assoc append_Cons append_Nil)
  then have sw: "sorted_wrt (\<lambda>a b. key b < key a) (butlast (take n xs) @ ?l # drop n xs)" using assms(1) by metis
  have "filter (\<lambda>e. key e < key ?l) (take n xs) = []"
    using sw by (subst split) (auto simp: sorted_wrt_append filter_empty_conv dest!: less_not_sym)
  moreover have "filter (\<lambda>e. key e < key ?l) (drop n xs) = drop n xs"
    using sw by (simp add: sorted_wrt_append)
  ultimately show ?thesis by (metis append_take_drop_id filter_append append_Nil)
qed

text \<open>The query of the next page: the rest of the rows of this one.\<close>

lemma next_query:
  assumes P: "event_query f = Inr P" and last: "P l" "0 < ev_id l" "ev_time l \<noteq> zero_time"
  shows "event_query (f\<lparr>ef_Before := ev_time l, ef_BeforeID := ev_id l\<rparr>) = Inr (\<lambda>e. P e \<and> event_key e < event_key l)"
proof -
  define before where "before = (if ef_Before f = zero_time then None else Some (ef_Before f))"
  define bid where "bid = (if before = None \<or> ef_BeforeID f < 0 then 0 else ef_BeforeID f)"
  obtain ip where ip: "ip_filter (ef_IP f) = Inr ip" and P': "P = event_matches (ef_HostID f) ip before bid"
    using P unfolding event_query_def before_def[symmetric] Let_def bid_def[symmetric] by (auto split: sum.splits)
  have "event_matches (ef_HostID f) ip (Some (ev_time l)) (ev_id l) e = (P e \<and> event_key e < event_key l)" for e
    using last unfolding P' event_matches_def event_key_def
    by (cases before) (auto split: option.splits simp: less_prod_def')
  then show ?thesis
    using ip last(2, 3) by (simp add: event_query_def Let_def fun_eq_iff)
qed

lemma visit_all_append:
  "visit_all visit (xs @ ys) =
     (case visit_all visit xs of (seen, False) \<Rightarrow> (seen, False)
      | (seen, True) \<Rightarrow> (case visit_all visit ys of (rest, ok) \<Rightarrow> (seen @ rest, ok)))"
  by (induction xs) (auto split: prod.splits bool.splits)

lemma visit_all_ok: "visit_all visit xs = (seen, True) \<Longrightarrow> seen = xs"
  by (induction xs arbitrary: seen) (auto split: if_splits prod.splits)

lemma stream_loop_all:
  assumes ok: "events_ok d" "fe_ok ev"
  shows "event_query f = Inr P \<Longrightarrow> ef_Limit f = 1000 \<Longrightarrow> length (filter P (fd_events d)) < n * 1000 \<Longrightarrow>
    stream_loop n ev d f visit = Some (visit_all visit (newest_first (filter P (fd_events d))))"
proof (induction n arbitrary: f P)
  case (Suc n)
  define xs where "xs = newest_first (filter P (fd_events d))"
  define page where "page = take 1000 xs"
  have page: "svc_Events ev d f = Inr page" using Suc.prems ok(2) by (simp add: svc_Events_def page_def xs_def)
  obtain seen k where seen: "visit_all visit page = (seen, k)" by force
  show ?case
  proof (cases "length page < 1000 \<or> \<not> k")
    case True
    then have "\<not> k \<or> page = xs" by (auto simp: page_def)
    then have "visit_all visit xs = (seen, k)"
      using seen visit_all_append[of visit page "drop 1000 xs"] by (auto simp: page_def)
    with True show ?thesis using page seen Suc.prems(2) by (cases k) (auto simp: xs_def)
  next
    case False
    then have k: "k" and full: "1000 \<le> length xs" by (auto simp: page_def)
    define l where "l = last page"
    have "l \<in> set page" unfolding l_def using full by (intro last_in_set) (auto simp: page_def)
    then have l: "l \<in> set (fd_events d)" "P l" by (auto simp: page_def xs_def dest!: in_set_takeD)
    let ?f = "f\<lparr>ef_Before := ev_time l, ef_BeforeID := ev_id l\<rparr>" and ?P = "\<lambda>e. P e \<and> event_key e < event_key l"
    have query: "event_query ?f = Inr ?P"
      using l ok(1) by (intro next_query[OF Suc.prems(1)]) (auto simp: events_ok_def)
    have "distinct (map ev_id (filter P (fd_events d)))" using ok(1) by (auto simp: events_ok_def distinct_map inj_on_def)
    then have "filter (\<lambda>e. event_key e < event_key l) xs = drop 1000 xs"
      unfolding l_def page_def using full by (intro later_pages) (simp_all add: xs_def newest_first_sorted)
    then have rest: "newest_first (filter ?P (fd_events d)) = drop 1000 xs"
      by (simp add: xs_def newest_first_filter)
    then have "length (filter ?P (fd_events d)) = length xs - 1000"
      by (metis length_drop length_newest_first)
    then have "length (filter ?P (fd_events d)) < n * 1000" using Suc.prems(3) full by (simp add: xs_def)
    then have "stream_loop n ev d ?f visit = Some (visit_all visit (drop 1000 xs))"
      using Suc.IH[OF query] Suc.prems(2) rest by simp
    moreover have "xs = page @ drop 1000 xs" by (simp add: page_def)
    then have "visit_all visit xs = (case visit_all visit (drop 1000 xs) of (rest, ok) \<Rightarrow> (seen @ rest, ok))"
      using seen k visit_all_append[of visit page "drop 1000 xs"] by simp
    moreover have "\<not> int (length page) < ef_Limit f" using full Suc.prems(2) by (simp add: page_def)
    ultimately show ?thesis using page seen k by (simp add: xs_def l_def)
  qed
qed simp

lemma sweep_events: "set (fd_events (sv_db (sweep ev s))) \<subseteq> set (fd_events (sv_db s))"
  by (auto simp: sweep_def Let_def)

lemma sweep_distinct: "distinct (map ev_id (fd_events (sv_db s))) \<Longrightarrow> distinct (map ev_id (fd_events (sv_db (sweep ev s))))"
  by (simp add: sweep_def Let_def distinct_map_filter)

lemma fleet_step_events_ok:
  assumes "fe_now ev \<noteq> zero_time" "events_ok (sv_db s)"
  shows "events_ok (sv_db (fleet_step ev p s))"
proof -
  have hand: "events_ok (sv_db s')" if "hand_step ev s s'" for s'
    using that assms by (auto simp: hand_step_def hand_commit_def)
  show ?thesis
  proof (cases p)
    case (OpSettings i)
    then show ?thesis using assms
      by (auto simp: UpdateSettings_def update_commit_def update_publish_def publishVersion_def Let_def split: option.splits prod.splits if_splits)
  next
    case (OpPolicy h q)
    then show ?thesis using assms by (simp add: UpdateHostPolicy_def Let_def)
  next
    case (OpIngest h r)
    obtain s' ok where run: "Ingest ev h r s = (s', ok)" by force
    then have "events_ok (sv_db s')"
    proof (cases rule: Ingest_cases)
      case (stored d bumped)
      then show ?thesis using ingest_events_ingested[OF stored(1)] assms by (auto simp: ingested_def split: if_splits)
    qed (use assms in simp_all)
    then show ?thesis by (simp add: OpIngest run)
  next
    case OpSweep
    then show ?thesis using assms(2) sweep_events[of ev s] sweep_distinct[of s ev] by (auto simp: events_ok_def)
  qed (use hand hand_steps in simp_all)
qed

lemma fleet_run_events_ok:
  "\<forall>(ev, p) \<in> set tr. fe_now ev \<noteq> zero_time \<Longrightarrow> events_ok (sv_db s) \<Longrightarrow> events_ok (sv_db (fleet_run tr s))"
  by (induction tr arbitrary: s) (auto simp: fleet_step_events_ok)

text \<open>
  C31. Streaming the events of a table that operations have filled, with queries that do not fail, always ends: with fuel for more than one page in
  a thousand events the visitor is called on exactly the events the filter selects, newest first, each
  once, up to the first on which it fails.
\<close>

theorem stream_visits_each_once:
  fixes tr t hosts retention
  defines "d \<equiv> sv_db (fleet_run tr (svc0 t hosts retention))"
  assumes "\<forall>(ev, p) \<in> set tr. fe_now ev \<noteq> zero_time" "event_query f = Inr P" "length (fd_events d) div 1000 < fuel"
    and "fe_ok ev"
  shows "\<exists>xs. StreamEvents fuel ev d f visit = Some (visit_all visit xs) \<and> set xs = {e \<in> set (fd_events d). P e} \<and>
    distinct xs \<and> sorted_wrt (\<lambda>a b. event_key b < event_key a) xs"
proof -
  let ?xs = "newest_first (filter P (fd_events d))"
  have "events_ok (sv_db (svc0 t hosts retention))" by (simp add: svc0_def events_ok_def)
  then have ok: "events_ok d" unfolding d_def by (rule fleet_run_events_ok[OF assms(2)])
  have "event_query (f\<lparr>ef_Limit := 1000\<rparr>) = Inr P" using assms(3) by (simp add: event_query_def Let_def split: sum.splits if_splits)
  moreover have "length (fd_events d) < fuel * 1000" using assms(4) by (simp add: div_less_iff_less_mult)
  then have "length (filter P (fd_events d)) < fuel * 1000" using length_filter_le[of P "fd_events d"] by linarith
  ultimately have "StreamEvents fuel ev d f visit = Some (visit_all visit ?xs)"
    unfolding StreamEvents_def by (intro stream_loop_all[OF ok assms(5)]) simp_all
  moreover have "distinct (map ev_id (fd_events d))" using ok by (simp add: events_ok_def)
  then have ids: "distinct (map ev_id (filter P (fd_events d)))" by (rule distinct_map_filter)
  then have "distinct ?xs" by (simp add: newest_first_def distinct_map)
  ultimately show ?thesis using newest_first_sorted[OF ids] by (intro exI[of _ ?xs]) auto
qed

definition filter1 :: eventFilter where
  "filter1 = \<lparr>ef_HostID = 7, ef_IP = '' 8.8.8.8'', ef_Limit = 0, ef_Before = zero_time, ef_BeforeID = 0\<rparr>"

definition trace1 :: "(fenv \<times> fleet_op) list" where
  "trace1 = [(ev1, OpIngest 7 rep1), (ev1, OpHostUnban 7 ''8.8.8.8'' ''a''), (ev1, OpIngest 8 rep1)]"

theorem stream_visits_each_once_witness:
  "length (fd_events (sv_db (fleet_run trace1 (svc0 5 [7, 8] 0)))) = 4 \<and>
   (\<exists>P xs. event_query filter1 = Inr P \<and> StreamEvents 1 ev1 (sv_db (fleet_run trace1 (svc0 5 [7, 8] 0))) filter1 (\<lambda>_. True) = Some (visit_all (\<lambda>_. True) xs) \<and>
     set xs = {e \<in> set (fd_events (sv_db (fleet_run trace1 (svc0 5 [7, 8] 0)))). P e} \<and> distinct xs \<and>
     sorted_wrt (\<lambda>a b. event_key b < event_key a) xs)"
proof -
  have len: "length (fd_events (sv_db (fleet_run trace1 (svc0 5 [7, 8] 0)))) = 4" by code_simp
  have now: "\<forall>(ev, p) \<in> set trace1. fe_now ev \<noteq> zero_time" by code_simp
  have ok1: "fe_ok ev1" by (simp add: ev1_def)
  have "\<not> isl (event_query filter1)" by code_simp
  then obtain P where P: "event_query filter1 = Inr P" by (auto simp: isl_def) (meson sum.exhaust)
  then show ?thesis
    using stream_visits_each_once[OF now P, of 5 "[7, 8]" 0 1 ev1 "\<lambda>_. True"] len ok1 by fastforce
qed

section \<open>Two defects\<close>

text \<open>
  An update of the settings that is overtaken, between its commit and its publication, by another
  operation that raises the version is never installed in the mirror: manual bans are from then on
  checked against the former allowlist.
\<close>

lemma overtaken_update_lost:
  assumes "mirrored s" "update_commit ev i (sv_db s) = (d, Inr st)" "fd_settings d' = fd_settings d"
  shows "sv_settings (update_publish st (commit_bumped ev' d' (s\<lparr>sv_db := d\<rparr>))) =
      (sv_settings s)\<lparr>sg_Version := sg_Version st + 1, sg_UpdatedAt := fe_now ev'\<rparr>"
    and "fd_settings (sv_db (update_publish st (commit_bumped ev' d' (s\<lparr>sv_db := d\<rparr>)))) =
      st\<lparr>sg_Version := sg_Version st + 1, sg_UpdatedAt := fe_now ev'\<rparr>"
  using assms
  by (auto simp: mirrored_def update_commit_def update_publish_def commit_bumped_def publishVersion_def bumpVersion_def Let_def
      split: if_splits option.splits)

text \<open>A report with a ban of an address with a zone is refused whatever the state, so the agent sends it again and again.\<close>

lemma ingest_events_None:
  assumes "e \<in> set es" "\<And>db. ingest_event st c allow h now e db = None"
  shows "ingest_events st c allow h now es db = None"
  using assms(1) by (induction es arbitrary: db) (auto simp: assms(2) split: option.split)

lemma zoned_event_blocks_report:
  assumes "e \<in> set (take maxEventsPerPost (rr_Events r))" "be_Action e = ''ban''" "length (be_ID e) \<le> 128"
    "ParseAddr (be_IP e) = Some ip" "has_zone (Unmap ip)" "be_ExpiresAt e \<noteq> None"
  shows "\<not> snd (Ingest ev h r s)"
proof -
  have "ingest_event st c allow h' now e db = None" for st c allow h' now db
    using assms(2-6) by (cases db) (auto simp: ingest_event_def Let_def)
  from ingest_events_None[OF assms(1) this] show ?thesis
    using assms(1) by (auto simp: Ingest_def Let_def split: option.splits)
qed

end
