(* ===== verification/Transport.thy ===== *)
theory Transport
  imports Go_Prelude "HOL-Library.Multiset"
begin

text \<open>
  \<open>internal/agent/transport/client.go\<close> and \<open>internal/agent/spool/spool.go\<close>: how an agent sends its
  batches and keeps them on disk while the server cannot be reached. A body is a value of any type with
  a length; the HTTP exchange, the clock, the size of the file and the failures of the
  embedded database are the environment. The database keeps its keys in the order of their bytes,
  which for the keys of the spool is the order of the pairs of numbers they encode, and a traversal visits
  them in this order. The channels with room for one value are options: a value that is not
  yet received is replaced. Two ghost fields record the bodies the server accepted and those given up.
\<close>

section \<open>The spool\<close>

type_synonym skey = "int \<times> int"

record 'b spool =
  sp_maxBytes :: int
  sp_entries :: "(skey \<times> 'b) list"
  sp_seq :: int

datatype spool_error = ErrEmpty | ErrDB

text \<open>The environment of \<open>Enqueue\<close>: the clock, the size of the file if it can be read, and whether the transactions commit.\<close>

record spenv =
  se_now :: int
  se_size :: "int option"
  se_drop_ok :: bool
  se_put_ok :: bool

definition key_le :: "skey \<Rightarrow> skey \<Rightarrow> bool" where
  "key_le a b \<longleftrightarrow> fst a < fst b \<or> (fst a = fst b \<and> snd a \<le> snd b)"

fun put_key :: "skey \<Rightarrow> 'b \<Rightarrow> (skey \<times> 'b) list \<Rightarrow> (skey \<times> 'b) list" where
  "put_key k b [] = [(k, b)]"
| "put_key k b ((k', b') # es) =
     (if k = k' then (k, b) # es
      else if key_le k k' then (k, b) # (k', b') # es
      else (k', b') # put_key k b es)"

text \<open>The entries that remain and those removed, oldest first.\<close>

fun drop_loop :: "('b \<Rightarrow> int) \<Rightarrow> int \<Rightarrow> int \<Rightarrow> (skey \<times> 'b) list \<Rightarrow> (skey \<times> 'b) list \<times> 'b list" where
  "drop_loop len minFreed freed [] = ([], [])"
| "drop_loop len minFreed freed ((k, b) # es) =
     (let freed = freed + len b
      in if minFreed \<le> freed then (es, [b])
         else (case drop_loop len minFreed freed es of (rest, gone) \<Rightarrow> (rest, b # gone)))"

definition dropOldest :: "('b \<Rightarrow> int) \<Rightarrow> bool \<Rightarrow> int \<Rightarrow> 'b spool \<Rightarrow> 'b spool \<times> 'b list \<times> bool" where
  "dropOldest len ok minFreed s =
     (if \<not> ok then (s, [], False)
      else (case drop_loop len minFreed 0 (sp_entries s) of (rest, gone) \<Rightarrow> (s\<lparr>sp_entries := rest\<rparr>, gone, True)))"

text \<open>The result: the spool, the bodies evicted and whether the body was stored.\<close>

definition spool_Enqueue :: "('b \<Rightarrow> int) \<Rightarrow> spenv \<Rightarrow> 'b \<Rightarrow> 'b spool \<Rightarrow> 'b spool \<times> 'b list \<times> bool" where
  "spool_Enqueue len ev body s =
     (case (if 0 < sp_maxBytes s \<and> (case se_size ev of None \<Rightarrow> False | Some n \<Rightarrow> sp_maxBytes s < n)
            then dropOldest len (se_drop_ok ev) (len body + 4096) s
            else (s, [], True)) of
        (s, gone, False) \<Rightarrow> (s, gone, False)
      | (s, gone, True) \<Rightarrow>
          if \<not> se_put_ok ev then (s, gone, False)
          else (s\<lparr>sp_seq := sp_seq s + 1, sp_entries := put_key (se_now ev, sp_seq s + 1) body (sp_entries s)\<rparr>, gone, True))"

definition Peek :: "bool \<Rightarrow> 'b spool \<Rightarrow> spool_error + (skey \<times> 'b)" where
  "Peek ok s = (if \<not> ok then Inl ErrDB else (case sp_entries s of [] \<Rightarrow> Inl ErrEmpty | e # _ \<Rightarrow> Inr e))"

definition spool_Delete :: "bool \<Rightarrow> skey \<Rightarrow> 'b spool \<Rightarrow> 'b spool \<times> bool" where
  "spool_Delete ok k s = (if ok then (s\<lparr>sp_entries := filter (\<lambda>(k', b). k' \<noteq> k) (sp_entries s)\<rparr>, True) else (s, False))"

section \<open>The client\<close>

record controlUpdate =
  cu_LatestVersion :: string
  cu_AutoUpgrade :: "bool option"
  cu_UpgradeNow :: bool
  cu_ServerPubkey :: string

record ack =
  ak_IntervalS :: int
  ak_Control :: controlUpdate
  ak_BackupBrowsePending :: bool
  ak_IPBanVersion :: int

record 'b client =
  cl_spool :: "'b spool option"
  cl_deregistered :: bool
  cl_appliedIntervalS :: int
  cl_intervalCh :: "int option"
  cl_controlCh :: "controlUpdate option"
  cl_browseCh :: bool
  cl_ipbanCh :: "int option"
  cl_healthPath :: string
  cl_healthFailing :: bool
  cl_health :: "(time \<times> int) option"
  cl_accepted :: "'b list"
  cl_lost :: "'b list"

datatype perror = ErrDeregistered | NetError | HttpError int | EncodeError | SpoolError

text \<open>
  What the HTTP exchange yields: no response, or a status with the decoded acknowledgement
  (a body that cannot be decoded is the empty acknowledgement).
\<close>

datatype reply = NoReply | Reply int ack

record penv =
  pe_now :: time
  pe_health_ok :: bool

text \<open>A failure is logged as a warning when it is the first since a success.\<close>

definition logHealthFailure :: "'b client \<Rightarrow> 'b client \<times> bool" where
  "logHealthFailure c = (c\<lparr>cl_healthFailing := True\<rparr>, \<not> cl_healthFailing c)"

definition writeHealth :: "penv \<Rightarrow> 'b client \<Rightarrow> 'b client" where
  "writeHealth ev c =
     (if cl_healthPath c = [] then c
      else if pe_health_ok ev then c\<lparr>cl_health := Some (pe_now ev, cl_appliedIntervalS c), cl_healthFailing := False\<rparr>
      else fst (logHealthFailure c))"

definition apply_ack :: "ack \<Rightarrow> 'b client \<Rightarrow> 'b client" where
  "apply_ack a c =
     (let c = (if 0 < ak_IntervalS a \<and> ak_IntervalS a \<noteq> cl_appliedIntervalS c
               then c\<lparr>cl_appliedIntervalS := ak_IntervalS a, cl_intervalCh := Some (ak_IntervalS a)\<rparr> else c);
          u = ak_Control a;
          c = (if cu_LatestVersion u \<noteq> [] \<or> cu_UpgradeNow u \<or> cu_AutoUpgrade u \<noteq> None \<or> cu_ServerPubkey u \<noteq> []
               then c\<lparr>cl_controlCh := Some u\<rparr> else c);
          c = (if ak_BackupBrowsePending a then c\<lparr>cl_browseCh := True\<rparr> else c);
          c = (if 0 < ak_IPBanVersion a then c\<lparr>cl_ipbanCh := Some (ak_IPBanVersion a)\<rparr> else c)
      in c)"

definition success :: "int \<Rightarrow> bool" where
  "success n \<longleftrightarrow> 200 \<le> n \<and> n < 300"

text \<open>The reply is asked for only when the client is not deregistered.\<close>

definition postBytes :: "penv \<Rightarrow> reply \<Rightarrow> 'b \<Rightarrow> 'b client \<Rightarrow> 'b client \<times> perror option" where
  "postBytes ev rep body c =
     (if cl_deregistered c then (c, Some ErrDeregistered)
      else (case rep of
              NoReply \<Rightarrow> (c, Some NetError)
            | Reply n a \<Rightarrow>
                if success n then (writeHealth ev (apply_ack a (c\<lparr>cl_accepted := cl_accepted c @ [body]\<rparr>)), None)
                else if n = 410 then (c\<lparr>cl_deregistered := True\<rparr>, Some ErrDeregistered)
                else (c, Some (HttpError n))))"

definition retryableStatus :: "int \<Rightarrow> bool" where
  "retryableStatus n \<longleftrightarrow> n = 408 \<or> n = 429 \<or> n = 404 \<or> n = 405 \<or> (300 \<le> n \<and> n \<le> 399) \<or> (500 \<le> n \<and> n \<le> 599)"

fun isRetryable :: "perror \<Rightarrow> bool" where
  "isRetryable ErrDeregistered = False"
| "isRetryable (HttpError n) = retryableStatus n"
| "isRetryable e = True"

text \<open>\<open>Send\<close>: no error means that the batch was accepted or is on disk.\<close>

definition Send :: "('b \<Rightarrow> int) \<Rightarrow> penv \<Rightarrow> spenv \<Rightarrow> bool \<Rightarrow> reply \<Rightarrow> 'b \<Rightarrow> 'b client \<Rightarrow> 'b client \<times> perror option" where
  "Send len ev sev encodes rep body c =
     (if \<not> encodes then (c, Some EncodeError)
      else (case postBytes ev rep body c of
              (c, None) \<Rightarrow> (c, None)
            | (c, Some e) \<Rightarrow>
                if \<not> isRetryable e then (c, Some e)
                else (case cl_spool c of
                        None \<Rightarrow> (c, Some e)
                      | Some s \<Rightarrow>
                          (case spool_Enqueue len sev body s of
                             (s, gone, ok) \<Rightarrow>
                               (c\<lparr>cl_spool := Some s, cl_lost := cl_lost c @ gone\<rparr>, if ok then None else Some SpoolError)))))"

definition nextBackoff :: "duration \<Rightarrow> duration" where
  "nextBackoff d = (let d = d * 2 in if 60 * Second < d then 60 * Second else d)"

text \<open>
  A round of the drain loop after its wait: the client and the next wait, or \<open>None\<close> when the loop ends. The
  reply of the server is a function of the body.
\<close>

definition drain_round :: "penv \<Rightarrow> bool \<Rightarrow> bool \<Rightarrow> ('b \<Rightarrow> reply) \<Rightarrow> duration \<Rightarrow> 'b client \<Rightarrow> 'b client \<times> duration option" where
  "drain_round ev peek_ok delete_ok server wait c =
     (if cl_deregistered c then (c, None)
      else (case cl_spool c of
              None \<Rightarrow> (c, None)
            | Some s \<Rightarrow>
                (case Peek peek_ok s of
                   Inl _ \<Rightarrow> (c, Some (30 * Second))
                 | Inr (k, body) \<Rightarrow>
                     (case postBytes ev (server body) body c of
                        (c, Some e) \<Rightarrow>
                          if e = ErrDeregistered then (c, None)
                          else if \<not> isRetryable e then
                            (case spool_Delete delete_ok k s of
                               (s, deleted) \<Rightarrow>
                                 (c\<lparr>cl_spool := Some s, cl_lost := cl_lost c @ (if deleted then [body] else [])\<rparr>, Some (Second div 4)))
                          else (c, Some (nextBackoff wait))
                      | (c, None) \<Rightarrow> (c\<lparr>cl_spool := Some (fst (spool_Delete delete_ok k s))\<rparr>, Some (Second div 4))))))"

section \<open>Other requests of the agent\<close>

text \<open>
  The requests for configuration and jobs: the body of a response is decoded by a parameter. \<open>Inr None\<close> is
  a response without content.
\<close>

datatype 'a fetched = NoContent | Fetched 'a | FetchErr perror | DecodeErr

datatype 'a freply = FNoReply | FReply int "'a option"

definition fetch_204 :: "'a freply \<Rightarrow> 'b client \<Rightarrow> 'b client \<times> 'a fetched" where
  "fetch_204 rep c =
     (if cl_deregistered c then (c, FetchErr ErrDeregistered)
      else (case rep of
              FNoReply \<Rightarrow> (c, FetchErr NetError)
            | FReply n body \<Rightarrow>
                if n = 204 then (c, NoContent)
                else if n = 410 then (c\<lparr>cl_deregistered := True\<rparr>, FetchErr ErrDeregistered)
                else if \<not> success n then (c, FetchErr (HttpError n))
                else (c, case body of None \<Rightarrow> DecodeErr | Some x \<Rightarrow> Fetched x)))"

definition FetchManagedBackupConfig :: "('e \<Rightarrow> 'a option) \<Rightarrow> 'e freply \<Rightarrow> 'b client \<Rightarrow> 'b client \<times> 'a fetched" where
  "FetchManagedBackupConfig open_envelope rep c =
     (if cl_deregistered c then (c, FetchErr ErrDeregistered)
      else (case rep of
              FNoReply \<Rightarrow> (c, FetchErr NetError)
            | FReply n body \<Rightarrow>
                if n = 410 then (c\<lparr>cl_deregistered := True\<rparr>, FetchErr ErrDeregistered)
                else if \<not> success n then (c, FetchErr (HttpError n))
                else (c, case body of None \<Rightarrow> DecodeErr
                           | Some e \<Rightarrow> (case open_envelope e of None \<Rightarrow> DecodeErr | Some x \<Rightarrow> Fetched x))))"

definition PostBackupBrowseResult :: "bool \<Rightarrow> 'a freply \<Rightarrow> 'b client \<Rightarrow> 'b client \<times> perror option" where
  "PostBackupBrowseResult encodes rep c =
     (if cl_deregistered c then (c, Some ErrDeregistered)
      else if \<not> encodes then (c, Some EncodeError)
      else (case rep of
              FNoReply \<Rightarrow> (c, Some NetError)
            | FReply n body \<Rightarrow>
                if success n then (c, None)
                else if n = 410 then (c\<lparr>cl_deregistered := True\<rparr>, Some ErrDeregistered)
                else (c, Some (HttpError n))))"

section \<open>Sequences of requests\<close>

datatype 'b transfer =
    TSend penv spenv bool reply 'b
  | TDrain penv bool bool "'b \<Rightarrow> reply" duration

text \<open>The client and the bodies whose \<open>Send\<close> returned no error.\<close>

fun run_transfer :: "('b \<Rightarrow> int) \<Rightarrow> 'b transfer \<Rightarrow> 'b client \<times> 'b list \<Rightarrow> 'b client \<times> 'b list" where
  "run_transfer len (TSend ev sev enc rep body) (c, sent) =
     (case Send len ev sev enc rep body c of (c, e) \<Rightarrow> (c, if e = None then sent @ [body] else sent))"
| "run_transfer len (TDrain ev p d server wait) (c, sent) = (fst (drain_round ev p d server wait c), sent)"

definition bodies :: "'b spool \<Rightarrow> 'b list" where
  "bodies s = map snd (sp_entries s)"

definition spool_ok :: "'b spool \<Rightarrow> bool" where
  "spool_ok s \<longleftrightarrow> distinct (map fst (sp_entries s)) \<and> (\<forall>k \<in> fst ` set (sp_entries s). snd k \<le> sp_seq s)"

lemma put_key_mset: "k \<notin> fst ` set es \<Longrightarrow> mset (put_key k b es) = add_mset (k, b) (mset es)"
  by (induction es) auto

lemma put_key_set: "k \<notin> fst ` set es \<Longrightarrow> set (put_key k b es) = insert (k, b) (set es)"
  by (metis put_key_mset set_mset_add_mset_insert set_mset_mset)

lemma put_key_distinct: "k \<notin> fst ` set es \<Longrightarrow> distinct (map fst es) \<Longrightarrow> distinct (map fst (put_key k b es))"
  by (induction es) (auto simp: put_key_set)

text \<open>With a clock that does not go back a body is stored behind all others.\<close>

lemma put_key_append: "\<forall>k' \<in> fst ` set es. key_le k' k \<and> k' \<noteq> k \<Longrightarrow> put_key k b es = es @ [(k, b)]"
proof (induction es)
  case (Cons a es)
  obtain k' b' where a: "a = (k', b')" by (cases a)
  with Cons.prems have "key_le k' k" "k' \<noteq> k" by auto
  then have "\<not> key_le k k'" by (auto simp: key_le_def prod_eq_iff)
  with Cons a show ?case by auto
qed simp

lemma drop_loop_split: "drop_loop len m f es = (rest, gone) \<Longrightarrow> \<exists>pre. es = pre @ rest \<and> gone = map snd pre"
proof (induction len m f es arbitrary: rest gone rule: drop_loop.induct)
  case (2 len m f k b es)
  show ?case
  proof (cases "m \<le> f + len b")
    case True
    with 2(2) show ?thesis by (intro exI[of _ "[(k, b)]"]) simp
  next
    case False
    obtain r g where rec: "drop_loop len m (f + len b) es = (r, g)" by force
    with False 2(2) have "rest = r" "gone = b # g" by simp_all
    with 2(1)[OF refl False rec] show ?thesis by (auto intro: exI[of _ "(k, b) # pre" for pre])
  qed
qed simp

lemma spool_ok_suffix: "spool_ok s \<Longrightarrow> sp_entries s = pre @ rest \<Longrightarrow> spool_ok (s\<lparr>sp_entries := rest\<rparr>)"
  by (simp add: spool_ok_def)

lemma dropOldest_result:
  assumes "dropOldest len ok m s = (s', gone, ok')" "spool_ok s"
  shows "spool_ok s'" and "mset (bodies s') + mset gone = mset (bodies s)"
proof -
  have "spool_ok s' \<and> mset (bodies s') + mset gone = mset (bodies s)"
    using assms by (auto simp: dropOldest_def bodies_def intro: spool_ok_suffix split: if_splits prod.splits dest!: drop_loop_split)
  then show "spool_ok s'" "mset (bodies s') + mset gone = mset (bodies s)" by simp_all
qed

lemma put_ok:
  assumes "spool_ok s"
  shows "spool_ok (s\<lparr>sp_seq := sp_seq s + 1, sp_entries := put_key (t, sp_seq s + 1) b (sp_entries s)\<rparr>)"
    and "mset (bodies (s\<lparr>sp_seq := sp_seq s + 1, sp_entries := put_key (t, sp_seq s + 1) b (sp_entries s)\<rparr>)) = add_mset b (mset (bodies s))"
proof -
  have new: "(t, sp_seq s + 1) \<notin> fst ` set (sp_entries s)" using assms by (force simp: spool_ok_def)
  then show "spool_ok (s\<lparr>sp_seq := sp_seq s + 1, sp_entries := put_key (t, sp_seq s + 1) b (sp_entries s)\<rparr>)"
    using assms by (auto simp: spool_ok_def put_key_distinct put_key_set intro: order_trans)
  show "mset (bodies (s\<lparr>sp_seq := sp_seq s + 1, sp_entries := put_key (t, sp_seq s + 1) b (sp_entries s)\<rparr>)) = add_mset b (mset (bodies s))"
    using new by (simp add: bodies_def put_key_mset)
qed

lemma spool_Enqueue_result:
  assumes "spool_Enqueue len ev b s = (s', gone, ok)" "spool_ok s"
  shows "spool_ok s' \<and> mset (bodies s') + mset gone = (if ok then add_mset b (mset (bodies s)) else mset (bodies s))"
proof -
  obtain s1 g1 o1 where one: "(if 0 < sp_maxBytes s \<and> (case se_size ev of None \<Rightarrow> False | Some n \<Rightarrow> sp_maxBytes s < n)
      then dropOldest len (se_drop_ok ev) (len b + 4096) s else (s, [], True)) = (s1, g1, o1)"
    by (metis prod.exhaust)
  then have s1: "spool_ok s1" "mset (bodies s1) + mset g1 = mset (bodies s)"
    using assms(2) by (auto split: if_splits dest: dropOldest_result)
  show ?thesis
    using assms(1) s1 put_ok[OF s1(1)] one by (auto simp: spool_Enqueue_def split: bool.splits if_splits)
qed

lemma Delete_head:
  "spool_ok s \<Longrightarrow> sp_entries s = (k, b) # es \<Longrightarrow> spool_Delete True k s = (s\<lparr>sp_entries := es\<rparr>, True) \<and> spool_ok (s\<lparr>sp_entries := es\<rparr>)"
proof -
  assume ok: "spool_ok s" and es: "sp_entries s = (k, b) # es"
  then have "k \<notin> fst ` set es" by (simp add: spool_ok_def)
  then have "filter (\<lambda>(k', b). k' \<noteq> k) es = es" by (force simp: filter_id_conv)
  with ok es show ?thesis by (simp add: spool_Delete_def spool_ok_def)
qed

lemma postBytes_fields:
  assumes "postBytes ev rep body c = (c', e)"
  shows "cl_spool c' = cl_spool c" "cl_lost c' = cl_lost c" "cl_accepted c' = cl_accepted c @ (if e = None then [body] else [])"
  using assms
  by (auto simp: postBytes_def writeHealth_def logHealthFailure_def apply_ack_def Let_def split: if_splits reply.splits)

definition client_ok :: "'b client \<Rightarrow> bool" where
  "client_ok c \<longleftrightarrow> (\<forall>s. cl_spool c = Some s \<longrightarrow> spool_ok s)"

text \<open>The bodies the client is answerable for: accepted, on disk, or given up.\<close>

definition held :: "'b client \<Rightarrow> 'b multiset" where
  "held c = mset (cl_accepted c) + (case cl_spool c of None \<Rightarrow> {#} | Some s \<Rightarrow> mset (bodies s)) + mset (cl_lost c)"

lemma Send_result:
  assumes "Send len ev sev enc rep body c = (c', e)" "client_ok c"
  shows "client_ok c' \<and> held c' = (if e = None then add_mset body (held c) else held c)"
proof (cases enc)
  case True
  obtain c1 e1 where post: "postBytes ev rep body c = (c1, e1)" by force
  note f = postBytes_fields[OF post]
  show ?thesis
  proof (cases "e1 = None \<or> \<not> isRetryable (the e1) \<or> cl_spool c1 = None")
    case True
    with assms post f \<open>enc\<close> show ?thesis by (auto simp: Send_def client_ok_def held_def split: option.splits)
  next
    case False
    then obtain x s where x: "e1 = Some x" "isRetryable x" "cl_spool c1 = Some s" by auto
    obtain s' gone ok where enq: "spool_Enqueue len sev body s = (s', gone, ok)" by (metis prod.exhaust)
    have c': "c' = c1\<lparr>cl_spool := Some s', cl_lost := cl_lost c1 @ gone\<rparr>" "e = (if ok then None else Some SpoolError)"
      using assms(1) post x enq \<open>enc\<close> by (auto simp: Send_def)
    have "spool_ok s" using assms(2) x(3) f(1) by (simp add: client_ok_def)
    from spool_Enqueue_result[OF enq this] c' x(1, 3) f show ?thesis by (auto simp: client_ok_def held_def)
  qed
qed (use assms in \<open>auto simp: Send_def\<close>)

lemma drain_result:
  assumes "drain_round ev p d server wait c = (c', w)" "client_ok c"
  shows "client_ok c' \<and> held c \<subseteq># held c' \<and> set_mset (held c') = set_mset (held c)"
proof (cases "cl_deregistered c \<or> cl_spool c = None \<or> sp_entries (the (cl_spool c)) = [] \<or> \<not> p")
  case True
  then have "c' = c"
    using assms(1) by (cases p; cases "cl_spool c"; cases "sp_entries (the (cl_spool c))") (auto simp: drain_round_def Peek_def split: if_splits)
  with assms show ?thesis by simp
next
  case False
  then obtain s k body es where s: "cl_spool c = Some s" "sp_entries s = (k, body) # es" and p: "p" and reg: "\<not> cl_deregistered c"
    by (metis list.exhaust option.exhaust_sel surj_pair)
  have ok: "spool_ok s" using assms(2) s(1) by (simp add: client_ok_def)
  note del = Delete_head[OF ok s(2)]
  obtain c1 e1 where post: "postBytes ev (server body) body c = (c1, e1)" by force
  note f = postBytes_fields[OF post]
  have bs: "mset (bodies (s\<lparr>sp_entries := es\<rparr>)) = mset (bodies s) - {#body#}" "body \<in># mset (bodies s)"
    by (simp_all add: bodies_def s(2))
  have "client_ok c' \<and> (held c' = held c \<or> held c' = add_mset body (held c))"
  proof (cases d)
    case True
    with assms(1) s p reg post f ok del bs show ?thesis
      by (auto simp: drain_round_def Peek_def client_ok_def held_def split: option.splits if_splits)
  next
    case False
    with assms(1) s p reg post f ok show ?thesis
      by (auto simp: drain_round_def Peek_def client_ok_def held_def spool_Delete_def split: option.splits if_splits)
  qed
  moreover have "body \<in># held c" using bs(2) s(1) by (simp add: held_def)
  ultimately show ?thesis by auto
qed

text \<open>A body is accepted only by a reply of success.\<close>

definition accepts :: "reply \<Rightarrow> bool" where
  "accepts rep \<longleftrightarrow> (case rep of NoReply \<Rightarrow> False | Reply n a \<Rightarrow> success n)"

lemma postBytes_accepted:
  "postBytes ev rep body c = (c', e) \<Longrightarrow> cl_accepted c' = cl_accepted c @ (if \<not> cl_deregistered c \<and> accepts rep then [body] else [])"
  by (auto simp: postBytes_def accepts_def writeHealth_def logHealthFailure_def apply_ack_def Let_def split: if_splits reply.splits)

lemma Send_accepted:
  assumes "Send len ev sev enc rep body c = (c', e)"
  shows "cl_accepted c' = cl_accepted c @ (if enc \<and> \<not> cl_deregistered c \<and> accepts rep then [body] else [])"
proof -
  obtain c1 e1 where post: "postBytes ev rep body c = (c1, e1)" by force
  from assms post postBytes_accepted[OF post] show ?thesis
    by (auto simp: Send_def split: if_splits option.splits prod.splits)
qed

lemma drain_accepted:
  assumes "drain_round ev p d server wait c = (c', w)"
  shows "cl_accepted c' = cl_accepted c \<or>
    (\<exists>s k body. \<not> cl_deregistered c \<and> cl_spool c = Some s \<and> Peek p s = Inr (k, body) \<and> accepts (server body) \<and>
      cl_accepted c' = cl_accepted c @ [body])"
proof (cases "\<not> cl_deregistered c \<and> (\<exists>s k body. cl_spool c = Some s \<and> Peek p s = Inr (k, body))")
  case True
  then obtain s k body where s: "\<not> cl_deregistered c" "cl_spool c = Some s" "Peek p s = Inr (k, body)" by auto
  obtain c1 e1 where post: "postBytes ev (server body) body c = (c1, e1)" by force
  from assms s post postBytes_accepted[OF post] show ?thesis
    by (auto simp: drain_round_def split: if_splits option.splits prod.splits)
next
  case False
  then have "c' = c" using assms by (auto simp: drain_round_def split: if_splits option.splits sum.splits)
  then show ?thesis by simp
qed

lemma transfers_held:
  "client_ok c \<Longrightarrow> mset sent \<subseteq># held c \<Longrightarrow> fold (run_transfer len) ts (c, sent) = (c', sent') \<Longrightarrow>
    client_ok c' \<and> mset sent' \<subseteq># held c'"
proof (induction ts arbitrary: c sent)
  case (Cons t ts)
  obtain c1 sent1 where one: "run_transfer len t (c, sent) = (c1, sent1)" by force
  have "client_ok c1 \<and> mset sent1 \<subseteq># held c1"
  proof (cases t)
    case (TSend ev sev enc rep body)
    obtain x e where send: "Send len ev sev enc rep body c = (x, e)" by force
    from Send_result[OF send Cons.prems(1)] one TSend send Cons.prems(2) show ?thesis by (auto split: if_splits)
  next
    case (TDrain ev p d server wait)
    obtain x w where drain: "drain_round ev p d server wait c = (x, w)" by force
    from drain_result[OF drain Cons.prems(1)] one TDrain drain Cons.prems(2) show ?thesis by (auto intro: subset_mset.trans)
  qed
  with Cons.IH[of c1 sent1] Cons.prems(3) one show ?case by simp
qed simp

text \<open>
  C30. A batch whose \<open>Send\<close> returned without an error is not lost silently: after any sequence of sends and drain
  rounds, with any replies of the server and failures of the disk, the batches so reported, each as
  often as it was, are among those the server accepted, those still in the spool and those that the
  spool evicted for room or the server rejected for good.
\<close>

theorem sent_batches_accounted:
  assumes "cl_spool c = None \<or> (\<exists>n. cl_spool c = Some \<lparr>sp_maxBytes = n, sp_entries = [], sp_seq = 0\<rparr>)"
    and "fold (run_transfer len) ts (c, []) = (c', sent)"
  shows "mset sent \<subseteq># mset (cl_accepted c') + mset (case cl_spool c' of None \<Rightarrow> [] | Some s \<Rightarrow> bodies s) + mset (cl_lost c')"
proof -
  have "client_ok c" using assms(1) by (auto simp: client_ok_def spool_ok_def)
  from transfers_held[OF this _ assms(2)] show ?thesis by (auto simp: held_def split: option.splits)
qed

definition pe1 :: penv where "pe1 = \<lparr>pe_now = 7, pe_health_ok = True\<rparr>"
definition se1 :: "int \<Rightarrow> spenv" where "se1 t = \<lparr>se_now = t, se_size = Some 100, se_drop_ok = True, se_put_ok = True\<rparr>"
definition ack1 :: ack where
  "ack1 = \<lparr>ak_IntervalS = 30, ak_Control = \<lparr>cu_LatestVersion = [], cu_AutoUpgrade = None, cu_UpgradeNow = False, cu_ServerPubkey = []\<rparr>,
     ak_BackupBrowsePending = False, ak_IPBanVersion = 4\<rparr>"

definition client0 :: "int \<Rightarrow> 'b client" where
  "client0 n = \<lparr>cl_spool = Some \<lparr>sp_maxBytes = n, sp_entries = [], sp_seq = 0\<rparr>, cl_deregistered = False, cl_appliedIntervalS = 15,
     cl_intervalCh = None, cl_controlCh = None, cl_browseCh = False, cl_ipbanCh = None, cl_healthPath = [], cl_healthFailing = False,
     cl_health = None, cl_accepted = [], cl_lost = []\<rparr>"

definition transfers1 :: "string transfer list" where
  "transfers1 = [TSend pe1 (se1 1) True NoReply ''a'', TSend pe1 (se1 2) True (Reply 503 ack1) ''b'', TSend pe1 (se1 3) True (Reply 200 ack1) ''c'',
     TDrain pe1 True True (\<lambda>_. Reply 200 ack1) Second, TDrain pe1 True True (\<lambda>_. Reply 401 ack1) Second,
     TSend pe1 (se1 4) True (Reply 400 ack1) ''d'', TSend pe1 (se1 5) True (Reply 429 ack1) ''e'']"

theorem sent_batches_accounted_witness:
  "snd (fold (run_transfer (\<lambda>b. int (length b))) transfers1 (client0 1000, [])) = [''a'', ''b'', ''c'', ''e''] \<and>
   cl_accepted (fst (fold (run_transfer (\<lambda>b. int (length b))) transfers1 (client0 1000, []))) = [''c'', ''a''] \<and>
   cl_lost (fst (fold (run_transfer (\<lambda>b. int (length b))) transfers1 (client0 1000, []))) = [''b''] \<and>
   mset (snd (fold (run_transfer (\<lambda>b. int (length b))) transfers1 (client0 1000, []))) \<subseteq>#
     mset (cl_accepted (fst (fold (run_transfer (\<lambda>b. int (length b))) transfers1 (client0 1000, [])))) +
     mset (case cl_spool (fst (fold (run_transfer (\<lambda>b. int (length b))) transfers1 (client0 1000, []))) of None \<Rightarrow> [] | Some s \<Rightarrow> bodies s) +
     mset (cl_lost (fst (fold (run_transfer (\<lambda>b. int (length b))) transfers1 (client0 1000, []))))"
proof -
  define run where "run = fold (run_transfer (\<lambda>b. int (length b))) transfers1 (client0 1000, [])"
  have "snd run = [''a'', ''b'', ''c'', ''e'']" "cl_accepted (fst run) = [''c'', ''a'']" "cl_lost (fst run) = [''b'']"
    unfolding run_def by code_simp+
  moreover have "cl_spool (client0 1000 :: string client) = None \<or> (\<exists>n. cl_spool (client0 1000 :: string client) = Some \<lparr>sp_maxBytes = n, sp_entries = [], sp_seq = 0\<rparr>)"
    by (simp add: client0_def)
  from sent_batches_accounted[OF this, of "\<lambda>b. int (length b)" transfers1 "fst run" "snd run"]
  have "mset (snd run) \<subseteq># mset (cl_accepted (fst run)) + mset (case cl_spool (fst run) of None \<Rightarrow> [] | Some s \<Rightarrow> bodies s) + mset (cl_lost (fst run))"
    by (simp add: run_def)
  ultimately show ?thesis unfolding run_def[symmetric] by simp
qed

end
