(* ===== verification/Ban_Delivery.thy ===== *)
theory Ban_Delivery
  imports Fleet_Laws Transport
begin

text \<open>
  The path of a ban from the agent to the server: the agent's buffer of events
  (\<open>internal/agent/ipban/manager.go\<close>), the tick of the agent that sends a report and acknowledges its
  events (\<open>internal/agent/runner/runner.go\<close>), the client and its spool
  (\<open>internal/agent/transport/client.go\<close>), and the server that stores them
  (\<open>internal/server/ipban/service.go\<close>). A batch is represented by its report, the rest of the request by the
  reply it gets. A request can be lost or refused before the report is stored, and a reply can be lost.
\<close>

section \<open>The system\<close>

record sys =
  sy_mgr :: mgr
  sy_client :: "ipBanReport client"
  sy_service :: service

text \<open>
  What happens to a request: whether it reaches the point where the report is stored, and the
  reply given then. Without the report stored there is no success.
\<close>

record exchange =
  ex_env :: fenv
  ex_reaches :: bool
  ex_reply :: reply

definition refusal :: "reply \<Rightarrow> int \<Rightarrow> reply" where
  "refusal rep n = (case rep of NoReply \<Rightarrow> NoReply | Reply m a \<Rightarrow> Reply (if success m then n else m) a)"

definition serve_report :: "int \<Rightarrow> exchange \<Rightarrow> ipBanReport \<Rightarrow> service \<Rightarrow> service \<times> reply" where
  "serve_report h x r s =
     (if \<not> ex_reaches x then (s, refusal (ex_reply x) 500)
      else (case Ingest (ex_env x) h r s of
              (s, ok) \<Rightarrow> (s, if ok then ex_reply x else refusal (ex_reply x) 502)))"

text \<open>
  A tick sends the report of the moment, and acknowledges its events when \<open>Send\<close> returns without
  error; the drain loop sends what is first in the spool.
\<close>

definition tick :: "(ipBanReport \<Rightarrow> int) \<Rightarrow> int \<Rightarrow> time \<Rightarrow> exchange \<Rightarrow> penv \<Rightarrow> spenv \<Rightarrow> bool \<Rightarrow> sys \<Rightarrow> sys" where
  "tick len h now x ev sev encodes y =
     (let r = Report now (sy_mgr y)
      in case (if cl_deregistered (sy_client y) \<or> \<not> encodes then (sy_service y, NoReply) else serve_report h x r (sy_service y)) of
           (s, rep) \<Rightarrow>
             (case Send len ev sev encodes rep r (sy_client y) of
                (c, e) \<Rightarrow>
                  y\<lparr>sy_service := s, sy_client := c,
                    sy_mgr := (if e = None \<and> rr_Events r \<noteq> [] then AcknowledgeEvents (rr_Events r) (sy_mgr y) else sy_mgr y)\<rparr>))"

definition drain :: "int \<Rightarrow> exchange \<Rightarrow> penv \<Rightarrow> bool \<Rightarrow> bool \<Rightarrow> duration \<Rightarrow> sys \<Rightarrow> sys" where
  "drain h x ev peek_ok delete_ok wait y =
     (case (if cl_deregistered (sy_client y) then None
            else case cl_spool (sy_client y) of None \<Rightarrow> None
                 | Some sp \<Rightarrow> (case Peek peek_ok sp of Inl _ \<Rightarrow> None | Inr (k, r) \<Rightarrow> Some r)) of
        None \<Rightarrow> y\<lparr>sy_client := fst (drain_round ev peek_ok delete_ok (\<lambda>_. NoReply) wait (sy_client y))\<rparr>
      | Some r \<Rightarrow>
          (case serve_report h x r (sy_service y) of
             (s, rep) \<Rightarrow> y\<lparr>sy_service := s, sy_client := fst (drain_round ev peek_ok delete_ok (\<lambda>_. rep) wait (sy_client y))\<rparr>))"

datatype delivery =
    DEvent menv ipBanEvent
  | DTick time exchange penv spenv bool
  | DDrain exchange penv bool bool duration
  | DServer fenv fleet_op

fun deliver :: "(ipBanReport \<Rightarrow> int) \<Rightarrow> int \<Rightarrow> delivery \<Rightarrow> sys \<Rightarrow> sys" where
  "deliver len h (DEvent ev e) y = y\<lparr>sy_mgr := pushEvent ev e (sy_mgr y)\<rparr>"
| "deliver len h (DTick now x ev sev encodes) y = tick len h now x ev sev encodes y"
| "deliver len h (DDrain x ev p d wait) y = drain h x ev p d wait y"
| "deliver len h (DServer ev p) y = y\<lparr>sy_service := fleet_step ev p (sy_service y)\<rparr>"

section \<open>No event is stored twice\<close>

definition stored :: "int \<Rightarrow> string \<Rightarrow> fleetdb \<Rightarrow> banEvent list" where
  "stored h i d = filter (\<lambda>e. ev_host e = Some h \<and> ev_agent_id e = i) (fd_events d)"

text \<open>The unique index of the table of events.\<close>

definition unique_events :: "fleetdb \<Rightarrow> bool" where
  "unique_events d \<longleftrightarrow> (\<forall>h i. i \<noteq> [] \<longrightarrow> length (stored h i d) \<le> 1)"

lemma known_event_stored: "known_event h i d \<longleftrightarrow> i \<noteq> [] \<and> stored h i d \<noteq> []"
  by (auto simp: known_event_def stored_def filter_empty_conv list_ex_iff)

lemma unique_events_cong: "fd_events d' = fd_events d \<Longrightarrow> unique_events d' = unique_events d"
  by (simp add: unique_events_def stored_def)

lemma unique_events_updates [simp]:
  "unique_events (put_fleet ip b d) = unique_events d" "unique_events (d\<lparr>fd_active := x\<rparr>) = unique_events d"
  "unique_events (bumpVersion t d) = unique_events d" "unique_events (save_report h r t d) = unique_events d"
  "unique_events (d\<lparr>fd_fleet := y\<rparr>) = unique_events d" "unique_events (d\<lparr>fd_suppress := z\<rparr>) = unique_events d"
  "unique_events (d\<lparr>fd_cmds := c\<rparr>) = unique_events d" "unique_events (set_policy h p d) = unique_events d"
  "unique_events (d\<lparr>fd_settings := st\<rparr>) = unique_events d"
  by (rule unique_events_cong; simp)+

lemma stored_add: "stored h i (add_event e d) = stored h i d @ (if ev_host e = Some h \<and> ev_agent_id e = i then [e\<lparr>ev_id := fd_nextEvent d\<rparr>] else [])"
  by (simp add: stored_def add_event_def)

lemma unique_events_own [simp]: "ev_agent_id e = [] \<Longrightarrow> unique_events d \<Longrightarrow> unique_events (add_event e d)"
  by (auto simp: unique_events_def stored_add)

lemma unique_events_new: "ev_host e = Some h \<Longrightarrow> \<not> known_event h (ev_agent_id e) d \<Longrightarrow> unique_events d \<Longrightarrow> unique_events (add_event e d)"
  by (auto simp: unique_events_def stored_add known_event_stored)

lemma blank_event_agent [simp]: "ev_agent_id (blank_event t ip act) = []"
  by (simp add: blank_event_def)

lemma propagate_unique: "propagate st ip now d = (d', b) \<Longrightarrow> unique_events d \<Longrightarrow> unique_events d'"
  by (auto simp: propagate_def Let_def split: if_splits option.splits)

lemma ingest_event_unique:
  assumes "ingest_event st c allow h now e x = Some y" "unique_events (fst x)"
  shows "unique_events (fst y)"
proof -
  obtain d b where x: "x = (d, b)" by force
  have ban: "unique_events (fst (ingest_ban st c allow h now e ip t u d))" if "\<not> known_event h (be_ID e) d" for ip t u
  proof -
    have "unique_events (store_ban c h e ip t u d)"
      using that assms(2) by (auto simp: store_ban_def Let_def x intro!: unique_events_new)
    then show ?thesis
      by (auto simp: ingest_ban_def Let_def) (metis prod.collapse propagate_unique)
  qed
  have unban: "unique_events (ingest_unban c h e ip t d)" if "\<not> known_event h (be_ID e) d" for ip t
    using that assms(2) by (auto simp: ingest_unban_def Let_def x intro!: unique_events_new)
  from assms(1, 2) show ?thesis
    unfolding x ingest_event_def Let_def using ban unban
    by (auto split: if_splits option.splits prod.splits) (metis fst_conv)+
qed

lemma ingest_events_unique: "ingest_events st c allow h now es x = Some y \<Longrightarrow> unique_events (fst x) \<Longrightarrow> unique_events (fst y)"
  by (induction es arbitrary: x) (auto split: option.splits dest: ingest_event_unique)

lemma Ingest_unique: "unique_events (sv_db s) \<Longrightarrow> unique_events (sv_db (fst (Ingest ev h r s)))"
proof -
  assume u: "unique_events (sv_db s)"
  obtain s' ok where run: "Ingest ev h r s = (s', ok)" by force
  then have "unique_events (sv_db s')"
  proof (cases rule: Ingest_cases)
    case (stored d bumped)
    then show ?thesis using ingest_events_unique[OF stored(1)] u by (auto split: if_splits)
  qed (use u in simp_all)
  then show ?thesis by (simp add: run)
qed

lemma fleet_step_unique: "p \<noteq> OpSweep \<Longrightarrow> unique_events (sv_db s) \<Longrightarrow> unique_events (sv_db (fleet_step ev p s))"
proof (cases p)
  case (OpSettings i)
  moreover assume "unique_events (sv_db s)"
  ultimately show ?thesis
    by (auto simp: UpdateSettings_def update_commit_def update_publish_def Let_def split: option.splits prod.splits if_splits)
qed (simp_all add: Ingest_unique UpdateHostPolicy_def ManualBan_def FleetUnban_def HostUnban_def Let_def split: option.split)

section \<open>Where an event is\<close>

text \<open>An event the server stores rather than skips.\<close>

definition storable :: "ipBanEvent \<Rightarrow> bool" where
  "storable e \<longleftrightarrow> be_ID e \<noteq> [] \<and> length (be_ID e) \<le> 128 \<and> ParseAddr (be_IP e) \<noteq> None \<and>
     (be_Action e = ''ban'' \<and> be_ExpiresAt e \<noteq> None \<or> be_Action e = ''unban'')"

lemma settled_storable: "settled h d e \<Longrightarrow> storable e \<Longrightarrow> known_event h (be_ID e) d"
  by (auto simp: settled_def storable_def)

lemma Ingest_known:
  assumes "Ingest ev h r s = (s', True)" "\<forall>e \<in> set (rr_Events r). storable e" "length (rr_Events r) \<le> maxEventsPerPost"
    "e \<in> set (rr_Events r)"
  shows "known_event h (be_ID e) (sv_db s')"
  using assms(1)
proof (cases rule: Ingest_cases)
  case (stored d bumped)
  have "take maxEventsPerPost (rr_Events r) = rr_Events r" using assms(3) by simp
  then have "settled h d e"
    using ingest_events_settled[OF stored(1)] assms(2, 4) by (auto simp: storable_def)
  then have "known_event h (be_ID e) d" using assms(2, 4) by (auto intro: settled_storable)
  moreover have "fd_events (sv_db s') = fd_events d" using stored(2) by (auto split: if_splits)
  ultimately show ?thesis by (simp add: known_event_def)
qed (use assms(4) in auto)

text \<open>
  Where an event that the agent produced can be: in the buffer, in a report that the client is
  answerable for, or (\<open>n\<close> events were dropped before) possibly among those the full buffer dropped.
\<close>

definition located :: "int \<Rightarrow> ipBanEvent \<Rightarrow> sys \<Rightarrow> bool" where
  "located n e y \<longleftrightarrow> e \<in> set (m_events (sy_mgr y)) \<or> (\<exists>r. r \<in># held (sy_client y) \<and> e \<in> set (rr_Events r)) \<or>
     n < m_droppedEvents (sy_mgr y)"

text \<open>The reports on the way carry events of \<open>P\<close> only, as many as the server takes.\<close>

definition report_in :: "ipBanEvent set \<Rightarrow> ipBanReport \<Rightarrow> bool" where
  "report_in P r \<longleftrightarrow> set (rr_Events r) \<subseteq> P \<and> length (rr_Events r) \<le> maxEventsPerPost"

definition sys_ok :: "int \<Rightarrow> ipBanEvent set \<Rightarrow> int \<Rightarrow> sys \<Rightarrow> bool" where
  "sys_ok h P n y \<longleftrightarrow> set (m_events (sy_mgr y)) \<subseteq> P \<and> n \<le> m_droppedEvents (sy_mgr y) \<and> client_ok (sy_client y) \<and>
     (\<forall>r \<in># held (sy_client y). report_in P r) \<and>
     (\<forall>r \<in> set (cl_accepted (sy_client y)). \<forall>e \<in> set (rr_Events r). known_event h (be_ID e) (sv_db (sy_service y))) \<and>
     unique_events (sv_db (sy_service y))"

text \<open>The events have different numbers.\<close>

definition numbered :: "ipBanEvent set \<Rightarrow> bool" where
  "numbered P \<longleftrightarrow> (\<forall>e \<in> P. storable e) \<and> inj_on be_ID P"

lemma Report_events [simp]: "rr_Events (Report now m) = take maxEventsPerReport (m_events m)"
  by (simp add: Report_def Let_def split: option.split)

lemma report_in_Report: "set (m_events m) \<subseteq> P \<Longrightarrow> report_in P (Report now m)"
  by (auto simp: report_in_def maxEventsPerReport_def maxEventsPerPost_def dest: in_set_takeD)

lemma serve_report_result:
  assumes "serve_report h x r s = (s', rep)" "unique_events (sv_db s)"
  shows "unique_events (sv_db s')" "\<exists>es. fd_events (sv_db s') = fd_events (sv_db s) @ es"
    and "accepts rep \<Longrightarrow> \<exists>ev. Ingest ev h r s = (s', True)"
proof -
  have "unique_events (sv_db (fst (Ingest (ex_env x) h r s)))" by (rule Ingest_unique[OF assms(2)])
  moreover have "\<exists>es. fd_events (sv_db (fst (Ingest (ex_env x) h r s))) = fd_events (sv_db s) @ es"
    using step_events_grow[of "OpIngest h r" "ex_env x" s] by simp
  ultimately show "unique_events (sv_db s')" "\<exists>es. fd_events (sv_db s') = fd_events (sv_db s) @ es"
    using assms by (auto simp: serve_report_def split: if_splits prod.splits)
  show "\<exists>ev. Ingest ev h r s = (s', True)" if "accepts rep"
    using assms(1) that by (auto simp: serve_report_def refusal_def accepts_def success_def split: if_splits prod.splits reply.splits)
qed

lemma pushEvent_located:
  assumes "be_ID e \<noteq> []"
  shows "set (m_events (pushEvent ev e m)) \<subseteq> insert e (set (m_events m))" "e \<in> set (m_events (pushEvent ev e m))"
    and "m_droppedEvents m \<le> m_droppedEvents (pushEvent ev e m)"
    and "x \<in> set (m_events m) \<Longrightarrow> x \<in> set (m_events (pushEvent ev e m)) \<or> m_droppedEvents m < m_droppedEvents (pushEvent ev e m)"
  using assms by (cases "m_events m"; auto simp: pushEvent_def Let_def split: if_splits)+

lemma known_mono_sys:
  assumes "\<exists>es. fd_events d' = fd_events d @ es" "known_event h i d"
  shows "known_event h i d'"
  using assms by (auto intro: known_event_mono)

lemma Acknowledge_events:
  "m_droppedEvents (AcknowledgeEvents evs m) = m_droppedEvents m"
  "set (m_events (AcknowledgeEvents evs m)) \<subseteq> set (m_events m)"
  "x \<in> set (m_events m) \<Longrightarrow> x \<in> set (m_events (AcknowledgeEvents evs m)) \<or> be_ID x \<in> be_ID ` set evs"
  by (auto simp: AcknowledgeEvents_def Let_def)

text \<open>A step of the client with a request that was served.\<close>

lemma served_ok:
  assumes ok: "sys_ok h P n y" and P: "numbered P"
    and serve: "serve_report h x r (sy_service y) = (s', rep)" and r: "report_in P r"
    and c': "client_ok c'" "\<forall>q \<in># held c'. report_in P q" "set (cl_accepted c') \<subseteq> (if accepts rep then insert r (set (cl_accepted (sy_client y))) else set (cl_accepted (sy_client y)))"
  shows "sys_ok h P n (y\<lparr>sy_service := s', sy_client := c'\<rparr>)"
proof -
  have u: "unique_events (sv_db (sy_service y))" using ok by (simp add: sys_ok_def)
  note served = serve_report_result[OF serve u]
  have "known_event h (be_ID e) (sv_db s')" if "q \<in> set (cl_accepted c')" "e \<in> set (rr_Events q)" for q e
  proof (cases "q \<in> set (cl_accepted (sy_client y))")
    case True
    then have "known_event h (be_ID e) (sv_db (sy_service y))" using ok that by (auto simp: sys_ok_def)
    with served(2) show ?thesis by (rule known_mono_sys)
  next
    case False
    then have "q = r" "accepts rep" using c'(3) that(1) by (auto split: if_splits)
    moreover from served(3)[OF this(2)] obtain ev where "Ingest ev h r (sy_service y) = (s', True)" by auto
    ultimately show ?thesis
      using r P that(2) by (auto simp: report_in_def numbered_def intro: Ingest_known)
  qed
  then show ?thesis using ok c' served(1) by (auto simp: sys_ok_def)
qed

lemma held_located:
  "held (sy_client y) \<subseteq># held c' \<Longrightarrow> located n e y \<Longrightarrow> located n e (y\<lparr>sy_service := s', sy_client := c'\<rparr>)"
  by (auto simp: located_def dest: mset_subset_eqD)

lemma tick_ok:
  assumes ok: "sys_ok h P n y" and P: "numbered P"
  shows "sys_ok h P n (tick len h now x ev sev encodes y) \<and> (\<forall>e. located n e y \<and> e \<in> P \<longrightarrow> located n e (tick len h now x ev sev encodes y))"
proof -
  define r where "r = Report now (sy_mgr y)"
  define called where "called = (\<not> cl_deregistered (sy_client y) \<and> encodes)"
  obtain s' rep where serve: "(if called then serve_report h x r (sy_service y) else (sy_service y, NoReply)) = (s', rep)" by force
  obtain c' e where send: "Send len ev sev encodes rep r (sy_client y) = (c', e)" by force
  define y1 where "y1 = y\<lparr>sy_service := s', sy_client := c'\<rparr>"
  define y2 where "y2 = y1\<lparr>sy_mgr := (if e = None \<and> rr_Events r \<noteq> [] then AcknowledgeEvents (rr_Events r) (sy_mgr y) else sy_mgr y)\<rparr>"
  have run: "tick len h now x ev sev encodes y = y2"
    using serve send by (auto simp: tick_def Let_def r_def called_def y1_def y2_def split: if_splits)
  have buf: "set (m_events (sy_mgr y)) \<subseteq> P" and client: "client_ok (sy_client y)" using ok by (auto simp: sys_ok_def)
  have r: "report_in P r" using report_in_Report[OF buf] by (simp add: r_def)
  note result = Send_result[OF send client]
  have held: "held (sy_client y) \<subseteq># held c'" using result by auto
  have reports: "client_ok c'" "\<forall>q \<in># held c'. report_in P q" using result r ok by (auto simp: sys_ok_def split: if_splits)
  have ok1: "sys_ok h P n y1"
  proof (cases called)
    case True
    then have serve': "serve_report h x r (sy_service y) = (s', rep)" using serve by simp
    have "set (cl_accepted c') \<subseteq> (if accepts rep then insert r (set (cl_accepted (sy_client y))) else set (cl_accepted (sy_client y)))"
      using Send_accepted[OF send] by auto
    from served_ok[OF ok P serve' r reports this] show ?thesis unfolding y1_def .
  next
    case False
    then have "cl_accepted c' = cl_accepted (sy_client y)" using Send_accepted[OF send] by (auto simp: called_def)
    then show ?thesis using False serve ok reports by (auto simp: sys_ok_def y1_def)
  qed
  have ok2: "sys_ok h P n y2"
    using ok1 Acknowledge_events(1)[of "rr_Events r" "sy_mgr y"] Acknowledge_events(2)[where evs = "rr_Events r" and m = "sy_mgr y"] by (auto simp: sys_ok_def y1_def y2_def)
  have "located n z y2" if z: "located n z y" "z \<in> P" for z
  proof (cases "z \<in> set (m_events (sy_mgr y)) \<and> e = None \<and> be_ID z \<in> be_ID ` set (rr_Events r)")
    case True
    then have "z \<in> set (rr_Events r)" using P r z(2) by (auto simp: numbered_def report_in_def dest: inj_onD)
    moreover have "r \<in># held c'" using True result by simp
    ultimately show ?thesis by (auto simp: located_def y1_def y2_def)
  next
    case False
    with held_located[OF held z(1), of s'] Acknowledge_events(1)[of "rr_Events r" "sy_mgr y"] Acknowledge_events(3)[where x = z and evs = "rr_Events r" and m = "sy_mgr y"] show ?thesis
      by (auto simp: located_def y1_def y2_def)
  qed
  with ok2 show ?thesis by (simp add: run)
qed

lemma drain_ok:
  assumes ok: "sys_ok h P n y" and P: "numbered P"
  shows "sys_ok h P n (drain h x ev p d wait y) \<and> (\<forall>e. located n e y \<longrightarrow> located n e (drain h x ev p d wait y))"
proof -
  have client: "client_ok (sy_client y)" using ok by (simp add: sys_ok_def)
  consider (idle) "drain h x ev p d wait y = y\<lparr>sy_client := fst (drain_round ev p d (\<lambda>_. NoReply) wait (sy_client y))\<rparr>"
    | (call) sp k r s' rep where "\<not> cl_deregistered (sy_client y)" "cl_spool (sy_client y) = Some sp" "Peek p sp = Inr (k, r)"
        "serve_report h x r (sy_service y) = (s', rep)"
        "drain h x ev p d wait y = y\<lparr>sy_service := s', sy_client := fst (drain_round ev p d (\<lambda>_. rep) wait (sy_client y))\<rparr>"
  proof (cases "\<exists>sp k r. \<not> cl_deregistered (sy_client y) \<and> cl_spool (sy_client y) = Some sp \<and> Peek p sp = Inr (k, r)")
    case True
    then obtain sp k r where head: "\<not> cl_deregistered (sy_client y)" "cl_spool (sy_client y) = Some sp" "Peek p sp = Inr (k, r)" by auto
    obtain s' rep where "serve_report h x r (sy_service y) = (s', rep)" by force
    with head that(2) show thesis by (auto simp: drain_def)
  next
    case False
    then show thesis by (intro that(1)) (auto simp: drain_def split: option.splits sum.splits)
  qed
  then show ?thesis
  proof cases
    case idle
    obtain c' w where round: "drain_round ev p d (\<lambda>_. NoReply) wait (sy_client y) = (c', w)" by force
    note result = drain_result[OF round client]
    have "cl_accepted c' = cl_accepted (sy_client y)" using drain_accepted[OF round] by (auto simp: accepts_def)
    then have "sys_ok h P n (y\<lparr>sy_client := c'\<rparr>)" using ok result by (simp add: sys_ok_def)
    with result show ?thesis by (auto simp: idle round located_def dest: mset_subset_eqD)
  next
    case call
    obtain c' w where round: "drain_round ev p d (\<lambda>_. rep) wait (sy_client y) = (c', w)" by force
    note result = drain_result[OF round client]
    have "r \<in># held (sy_client y)" using call(2, 3) by (auto simp: held_def bodies_def Peek_def split: if_splits list.splits)
    then have r: "report_in P r" using ok by (simp add: sys_ok_def)
    have reports: "client_ok c'" "\<forall>q \<in># held c'. report_in P q" using result ok by (auto simp: sys_ok_def)
    have "set (cl_accepted c') \<subseteq> (if accepts rep then insert r (set (cl_accepted (sy_client y))) else set (cl_accepted (sy_client y)))"
      using drain_accepted[OF round] call(2, 3) by auto
    with served_ok[OF ok P call(4) r reports] held_located result show ?thesis by (simp add: call(5) round)
  qed
qed

text \<open>The event as the buffer gets it.\<close>

definition numbered_event :: "menv \<Rightarrow> ipBanEvent \<Rightarrow> ipBanEvent" where
  "numbered_event ev e = (if be_ID e = [] then e\<lparr>be_ID := mv_id ev\<rparr> else e)"

fun produced :: "delivery \<Rightarrow> ipBanEvent list" where
  "produced (DEvent ev e) = [numbered_event ev e]"
| "produced _ = []"

fun keeps_events :: "delivery \<Rightarrow> bool" where
  "keeps_events (DServer ev p) = (p \<noteq> OpSweep)"
| "keeps_events _ = True"

lemma pushEvent_numbered: "be_ID (numbered_event ev e) \<noteq> [] \<Longrightarrow> pushEvent ev e m = pushEvent ev (numbered_event ev e) m"
  by (simp add: pushEvent_def numbered_event_def)

lemma deliver_ok:
  assumes ok: "sys_ok h P n y" and P: "numbered P" and "keeps_events a" "set (produced a) \<subseteq> P"
  shows "sys_ok h P n (deliver len h a y) \<and> (\<forall>e. located n e y \<and> e \<in> P \<longrightarrow> located n e (deliver len h a y)) \<and>
    (\<forall>e \<in> set (produced a). located n e (deliver len h a y))"
proof (cases a)
  case (DEvent ev e)
  let ?e = "numbered_event ev e"
  have e: "?e \<in> P" "be_ID ?e \<noteq> []" using assms(4) P DEvent by (auto simp: numbered_def storable_def)
  note push = pushEvent_located[OF e(2), where ev = ev and m = "sy_mgr y"]
  show ?thesis using ok e push
    by (auto simp: DEvent pushEvent_numbered[OF e(2)] sys_ok_def located_def)
next
  case (DServer ev q)
  then have grow: "\<exists>es. fd_events (sv_db (fleet_step ev q (sy_service y))) = fd_events (sv_db (sy_service y)) @ es"
    using assms(3) step_events_grow by simp
  have "unique_events (sv_db (fleet_step ev q (sy_service y)))"
    using DServer assms(3) ok by (simp add: sys_ok_def fleet_step_unique)
  with ok show ?thesis by (auto simp: DServer sys_ok_def located_def intro: known_mono_sys[OF grow])
qed (use tick_ok[OF ok P] drain_ok[OF ok P] in simp_all)

lemma deliveries_ok:
  "sys_ok h P n y \<Longrightarrow> numbered P \<Longrightarrow> \<forall>a \<in> set ds. keeps_events a \<and> set (produced a) \<subseteq> P \<Longrightarrow> \<forall>e \<in> Q. located n e y \<Longrightarrow> Q \<subseteq> P \<Longrightarrow>
    sys_ok h P n (fold (deliver len h) ds y) \<and> (\<forall>e \<in> Q \<union> set (concat (map produced ds)). located n e (fold (deliver len h) ds y))"
proof (induction ds arbitrary: y Q)
  case (Cons a ds)
  have a: "keeps_events a" "set (produced a) \<subseteq> P" using Cons.prems(3) by auto
  note one = deliver_ok[OF Cons.prems(1, 2) a, of len]
  have "\<forall>e \<in> Q \<union> set (produced a). located n e (deliver len h a y)" using one Cons.prems(4, 5) by auto
  from Cons.IH[OF _ Cons.prems(2) _ this] one Cons.prems(3, 5) a show ?case by auto
qed simp

lemma known_stored_once: "unique_events d \<Longrightarrow> known_event h i d \<Longrightarrow> length (stored h i d) = 1"
  by (auto simp: known_event_stored unique_events_def le_Suc_eq)

text \<open>
  C5. A ban or unban that the agent produces is counted by the server at most once, and is not lost silently. Start
  with an empty buffer, an empty spool and a server without events, and let any events be
  produced, with different numbers and in the form the server takes; let reports be sent and the spool
  be drained, with requests lost, refused or answered, replies lost and database and disk failing in any way, and
  let the server be used otherwise (sweeps excepted). Then the server has each event once, or it is still in
  the agent's buffer or in a report in the spool, or it was in a report that the spool evicted or the
  server rejected for good, or the full buffer dropped events, which is counted.
\<close>

theorem events_delivered_once:
  assumes "m_events (sy_mgr y) = []" "cl_spool (sy_client y) = None \<or> (\<exists>sp. cl_spool (sy_client y) = Some sp \<and> sp_entries sp = [])"
    and "cl_accepted (sy_client y) = []" "cl_lost (sy_client y) = []" "fd_events (sv_db (sy_service y)) = []"
    and "\<forall>e \<in> set (concat (map produced ds)). storable e" "inj_on be_ID (set (concat (map produced ds)))"
    and "\<forall>a \<in> set ds. keeps_events a" "y' = fold (deliver len h) ds y" "e \<in> set (concat (map produced ds))"
  shows "length (stored h (be_ID e) (sv_db (sy_service y'))) = 1 \<or>
    (stored h (be_ID e) (sv_db (sy_service y')) = [] \<and>
     (e \<in> set (m_events (sy_mgr y')) \<or>
      (\<exists>sp. cl_spool (sy_client y') = Some sp \<and> (\<exists>r \<in> set (bodies sp). e \<in> set (rr_Events r))) \<or>
      (\<exists>r \<in> set (cl_lost (sy_client y')). e \<in> set (rr_Events r)) \<or>
      m_droppedEvents (sy_mgr y) < m_droppedEvents (sy_mgr y')))"
proof -
  define P where "P = set (concat (map produced ds))"
  define n where "n = m_droppedEvents (sy_mgr y)"
  have "held (sy_client y) = {#}" "client_ok (sy_client y)"
    using assms(2-4) by (auto simp: held_def client_ok_def spool_ok_def bodies_def)
  then have ok: "sys_ok h P n y"
    using assms(1, 3, 5) by (simp add: sys_ok_def n_def unique_events_def stored_def)
  have P: "numbered P" using assms(6, 7) by (simp add: numbered_def P_def)
  have "\<forall>a \<in> set ds. keeps_events a \<and> set (produced a) \<subseteq> P" using assms(8) by (auto simp: P_def)
  from deliveries_ok[OF ok P this, of "{}" len]
  have y': "sys_ok h P n y'" "located n e y'" using assms(9, 10) by auto
  then have u: "unique_events (sv_db (sy_service y'))" by (simp add: sys_ok_def)
  have id: "be_ID e \<noteq> []" using assms(6, 10) unfolding storable_def by blast
  show ?thesis
  proof (cases "known_event h (be_ID e) (sv_db (sy_service y'))")
    case True
    with known_stored_once[OF u] show ?thesis by simp
  next
    case False
    then have "\<forall>r \<in> set (cl_accepted (sy_client y')). e \<notin> set (rr_Events r)" using y'(1) by (auto simp: sys_ok_def)
    with y'(2) False id show ?thesis
      by (auto simp: located_def held_def known_event_stored n_def split: option.splits)
  qed
qed

definition env1 :: menv where
  "env1 = \<lparr>mv_now = 900, mv_err = (\<lambda>_. None), mv_new_err = None, mv_local = [], mv_fleet = [], mv_addrs = [], mv_id = ''e1''\<rparr>"

definition ban_event1 :: ipBanEvent where
  "ban_event1 = (hd (rr_Events rep1))\<lparr>be_ID := []\<rparr>"

definition sys1 :: sys where
  "sys1 = \<lparr>sy_mgr = New_manager True True True, sy_client = client0 1000, sy_service = svc0 5 [7, 8] 0\<rparr>"

text \<open>A reply is lost, the report is spooled and sent again.\<close>

definition deliveries1 :: "delivery list" where
  "deliveries1 = [DEvent env1 ban_event1,
     DTick 1000 \<lparr>ex_env = ev1, ex_reaches = True, ex_reply = NoReply\<rparr> pe1 (se1 1) True,
     DServer ev1 (OpHostUnban 7 ''8.8.8.8'' ''a''),
     DDrain \<lparr>ex_env = ev1, ex_reaches = True, ex_reply = Reply 200 ack1\<rparr> pe1 True True Second]"

theorem events_delivered_once_witness:
  "m_events (sy_mgr (fold (deliver (\<lambda>_. 10) 7) deliveries1 sys1)) = [] \<and>
   length (stored 7 ''e1'' (sv_db (sy_service (fold (deliver (\<lambda>_. 10) 7) deliveries1 sys1)))) = 1"
proof -
  have produced: "concat (map produced deliveries1) = [numbered_event env1 ban_event1]" by (simp add: deliveries1_def)
  have id: "be_ID (numbered_event env1 ban_event1) = ''e1''" by code_simp
  have start: "m_events (sy_mgr sys1) = []" "\<exists>sp. cl_spool (sy_client sys1) = Some sp \<and> sp_entries sp = []"
    "cl_accepted (sy_client sys1) = []" "cl_lost (sy_client sys1) = []" "fd_events (sv_db (sy_service sys1)) = []"
    by (simp_all add: sys1_def New_manager_def client0_def svc0_def)
  have "storable (numbered_event env1 ban_event1)" by code_simp
  moreover have "\<forall>a \<in> set deliveries1. keeps_events a" by (simp add: deliveries1_def)
  moreover have "m_events (sy_mgr (fold (deliver (\<lambda>_. 10) 7) deliveries1 sys1)) = []" by code_simp
  moreover have "map rr_Events (case cl_spool (sy_client (fold (deliver (\<lambda>_. 10) 7) deliveries1 sys1)) of None \<Rightarrow> [] | Some sp \<Rightarrow> bodies sp) = []" by code_simp
  moreover have "map rr_Events (cl_lost (sy_client (fold (deliver (\<lambda>_. 10) 7) deliveries1 sys1))) = []" by code_simp
  moreover have "m_droppedEvents (sy_mgr (fold (deliver (\<lambda>_. 10) 7) deliveries1 sys1)) = 0" "m_droppedEvents (sy_mgr sys1) = 0" by code_simp+
  ultimately show ?thesis
    using events_delivered_once[OF start(1) disjI2[OF start(2)] start(3-5), of deliveries1 "fold (deliver (\<lambda>_. 10) 7) deliveries1 sys1" "\<lambda>_. 10" 7
        "numbered_event env1 ban_event1"]
    by (auto simp: produced id)
qed

end
