(* ===== verification/Blob_Store.thy ===== *)
theory Blob_Store
  imports Go_Prelude
begin

text \<open>
  The object store behind the restic gateway: the names and duplicate rules of
  \<open>pkg/restserver/blobstore.go\<close> and the disk backend of \<open>diskstore.go\<close>. A path is the list of
  its components below the store's root directory; the file system holds files with their
  contents and modification times, and directories. Every system call that can fail takes its
  failure from an \<open>io\<close> record, so all error branches are in the model; what other uploads
  commit between the first look at a path and the final link is the field \<open>io_meanwhile\<close>.
  SHA-256 is a parameter: the theorems hold for every digest function.
\<close>

section \<open>Names, types and errors\<close>

datatype store_err =
    ErrExists
  | ErrExistsUnverified store_err
  | ErrExistsIdentical
  | ErrExistsCorrupt
  | ErrNotFound
  | ErrInvalidRef
  | ErrMaxBytes
  | ErrIO

text \<open>\<open>errors.Is(err, ErrExists)\<close>: \<open>existsUnverified\<close> wraps \<open>ErrExists\<close> and the cause.\<close>

fun is_ErrExists :: "store_err \<Rightarrow> bool" where
  "is_ErrExists ErrExists = True"
| "is_ErrExists (ErrExistsUnverified _) = True"
| "is_ErrExists _ = False"

text \<open>\<open>errors.As(err, &maxErr)\<close> also looks through the wrapping.\<close>

fun is_MaxBytes :: "store_err \<Rightarrow> bool" where
  "is_MaxBytes ErrMaxBytes = True"
| "is_MaxBytes (ErrExistsUnverified e) = is_MaxBytes e"
| "is_MaxBytes _ = False"

definition configType :: string where
  "configType = ''config''"

definition uploadTempPrefix :: string where
  "uploadTempPrefix = ''.upload-''"

definition objectTypes :: "string list" where
  "objectTypes = [''data'', ''index'', ''keys'', ''locks'', ''snapshots'']"

definition name_char :: "char \<Rightarrow> bool" where
  "name_char c \<longleftrightarrow>
     (let b = byte c in 97 \<le> b \<and> b \<le> 122 \<or> 65 \<le> b \<and> b \<le> 90 \<or> 48 \<le> b \<and> b \<le> 57
        \<or> c = CHR ''.'' \<or> c = CHR ''_'' \<or> c = CHR ''-'')"

definition validName :: "string \<Rightarrow> bool" where
  "validName s \<longleftrightarrow>
     \<not> (s = [] \<or> s = ''.'' \<or> s = ''..'' \<or> \<not> list_all name_char s \<or> is_prefix uploadTempPrefix s)"

definition deletableType :: "string \<Rightarrow> bool" where
  "deletableType typ \<longleftrightarrow> typ = ''locks''"

definition validType :: "string \<Rightarrow> bool" where
  "validType typ \<longleftrightarrow> typ \<in> set objectTypes"

definition isUploadTemp :: "string \<Rightarrow> bool" where
  "isUploadTemp name = is_prefix uploadTempPrefix name"

section \<open>Digests and duplicates\<close>

text \<open>A reader yields its bytes and then ends, or fails with an error.\<close>

record reader =
  rd_bytes :: string
  rd_err :: "store_err option"

text \<open>\<open>hex.EncodeToString\<close> and \<open>sha256Of\<close>.\<close>

definition hexc :: "int \<Rightarrow> char" where
  "hexc n = (if n < 10 then char_of (48 + n) else char_of (87 + n))"

definition hex_encode :: "string \<Rightarrow> string" where
  "hex_encode s = concat (map (\<lambda>c. [hexc (byte c div 16), hexc (byte c mod 16)]) s)"

definition sha256Of :: "(string \<Rightarrow> string) \<Rightarrow> reader \<Rightarrow> store_err + (string \<times> int)" where
  "sha256Of sha r =
     (case rd_err r of
        Some e \<Rightarrow> Inl e
      | None \<Rightarrow> Inr (hex_encode (sha (rd_bytes r)), int (length (rd_bytes r))))"

record existingObject =
  ex_size :: int
  ex_verify :: bool
  ex_open :: "store_err + reader"

definition classifyDuplicate ::
  "(string \<Rightarrow> string) \<Rightarrow> string \<Rightarrow> string \<Rightarrow> reader \<Rightarrow> int \<Rightarrow> existingObject \<Rightarrow> store_err" where
  "classifyDuplicate sha typ name incoming incomingSize existing =
     (if ex_size existing \<noteq> incomingSize then ErrExists
      else (case sha256Of sha incoming of
        Inl e \<Rightarrow> ErrExistsUnverified e
      | Inr (incomingSum, n) \<Rightarrow>
          if n \<noteq> incomingSize then ErrExists
          else if typ \<noteq> configType \<and> incomingSum \<noteq> name then ErrExists
          else if typ \<noteq> configType \<and> \<not> ex_verify existing then ErrExistsIdentical
          else (case ex_open existing of
            Inl e \<Rightarrow> ErrExistsUnverified e
          | Inr stored \<Rightarrow>
              (case sha256Of sha stored of
                 Inl e \<Rightarrow> ErrExistsUnverified e
               | Inr (storedSum, _) \<Rightarrow>
                   if typ = configType
                   then (if storedSum \<noteq> incomingSum then ErrExists else ErrExistsIdentical)
                   else if storedSum \<noteq> name then ErrExistsCorrupt
                   else ErrExistsIdentical))))"

section \<open>The disk backend\<close>

type_synonym path = "string list"

record diskfile =
  content :: string
  mtime :: time

type_synonym files = "(path, diskfile) gomap"

record disk =
  files :: files
  dirs :: "path set"

record io =
  io_lstat_err :: bool
  io_mkdir_err :: bool
  io_temp_err :: bool
  io_copy_err :: bool
  io_sync_err :: bool
  io_close_err :: bool
  io_link_err :: bool
  io_relstat_err :: bool
  io_duplstat_err :: bool
  io_opentmp_err :: bool
  io_open_err :: bool
  io_read_err :: bool
  io_remove_err :: bool
  io_tmp :: string
  io_now :: time
  io_meanwhile :: "files \<Rightarrow> files"

text \<open>No call fails and nobody interferes.\<close>

definition io_ok :: io where
  "io_ok = \<lparr>io_lstat_err = False, io_mkdir_err = False, io_temp_err = False, io_copy_err = False,
     io_sync_err = False, io_close_err = False, io_link_err = False, io_relstat_err = False,
     io_duplstat_err = False, io_opentmp_err = False, io_open_err = False, io_read_err = False,
     io_remove_err = False, io_tmp = ''1'', io_now = 1, io_meanwhile = id\<rparr>"

text \<open>
  \<open>filepath.Join\<close> cleans the joined path: a component of two dots removes the one before it.
  (At most one component of an object's path is two dots, and it is never the first.)
\<close>

definition join :: "string list \<Rightarrow> path" where
  "join cs = foldl (\<lambda>acc c. if c = ''..'' then butlast acc else if c = ''.'' \<or> c = [] then acc else acc @ [c]) [] cs"

definition repoDir :: "string \<Rightarrow> store_err + path" where
  "repoDir repo = (if \<not> validName repo then Inl ErrInvalidRef else Inr (join [repo]))"

definition objectPath :: "string \<Rightarrow> string \<Rightarrow> string \<Rightarrow> store_err + path" where
  "objectPath repo typ name =
     (case repoDir repo of
        Inl e \<Rightarrow> Inl e
      | Inr base \<Rightarrow>
          if typ = configType then Inr (join (base @ [''config'']))
          else if \<not> validType typ then Inl ErrInvalidRef
          else if \<not> validName name then Inl ErrInvalidRef
          else if typ = ''data'' \<and> 2 \<le> length name then Inr (join (base @ [''data'', take 2 name, name]))
          else Inr (join (base @ [typ, name])))"

text \<open>\<open>os.MkdirAll\<close> creates a directory and its parents.\<close>

definition mkdir_all :: "path \<Rightarrow> disk \<Rightarrow> disk" where
  "mkdir_all p d = d\<lparr>dirs := dirs d \<union> set (map (\<lambda>n. take n p) [0..<Suc (length p)])\<rparr>"

definition EnsureRepo :: "io \<Rightarrow> string \<Rightarrow> disk \<Rightarrow> disk \<times> store_err option" where
  "EnsureRepo io repo d =
     (case repoDir repo of
        Inl e \<Rightarrow> (d, Some e)
      | Inr base \<Rightarrow>
          if io_mkdir_err io then (d, Some ErrIO)
          else (fold (\<lambda>sub. mkdir_all (base @ [sub])) [''data'', ''index'', ''keys'', ''locks'', ''snapshots''] d, None))"

definition duplicateResult ::
  "(string \<Rightarrow> string) \<Rightarrow> io \<Rightarrow> path \<Rightarrow> string \<Rightarrow> string \<Rightarrow> reader \<Rightarrow> int \<Rightarrow> files \<Rightarrow> store_err" where
  "duplicateResult sha io p typ name incoming sz fs =
     (case get fs p of
        None \<Rightarrow> ErrExistsUnverified ErrIO
      | Some f \<Rightarrow>
          if io_duplstat_err io then ErrExistsUnverified ErrIO
          else classifyDuplicate sha typ name incoming sz
            \<lparr>ex_size = int (length (content f)), ex_verify = True,
             ex_open = (if io_open_err io then Inl ErrIO
                        else Inr \<lparr>rd_bytes = content f, rd_err = (if io_read_err io then Some ErrIO else None)\<rparr>)\<rparr>)"

definition duplicateResultFromFile ::
  "(string \<Rightarrow> string) \<Rightarrow> io \<Rightarrow> path \<Rightarrow> string \<Rightarrow> string \<Rightarrow> string \<Rightarrow> int \<Rightarrow> files \<Rightarrow> store_err" where
  "duplicateResultFromFile sha io p typ name tmp_content sz fs =
     (if io_opentmp_err io then ErrExistsUnverified ErrIO
      else duplicateResult sha io p typ name \<lparr>rd_bytes = tmp_content, rd_err = None\<rparr> sz fs)"

text \<open>The deferred removal of the temporary file.\<close>

definition remove_tmp :: "io \<Rightarrow> path \<Rightarrow> files \<Rightarrow> files" where
  "remove_tmp io tmp fs = (if io_remove_err io then fs else del tmp fs)"

text \<open>The commit: the temporary file is linked to the final path, unless the path exists.\<close>

definition commit ::
  "(string \<Rightarrow> string) \<Rightarrow> io \<Rightarrow> path \<Rightarrow> path \<Rightarrow> string \<Rightarrow> string \<Rightarrow> string \<Rightarrow> int \<Rightarrow> files \<Rightarrow> files \<times> store_err option" where
  "commit sha io p tmp typ name data sz fs =
     (if io_link_err io \<or> get fs p \<noteq> None then
        (if get fs p \<noteq> None \<and> \<not> io_relstat_err io
         then (fs, Some (duplicateResultFromFile sha io p typ name data sz fs))
         else if \<not> io_link_err io then (fs, Some ErrExists)
         else (fs, Some ErrIO))
      else (put p \<lparr>content = data, mtime = io_now io\<rparr> fs, None))"

definition Create ::
  "(string \<Rightarrow> string) \<Rightarrow> io \<Rightarrow> string \<Rightarrow> string \<Rightarrow> string \<Rightarrow> int \<Rightarrow> reader \<Rightarrow> disk \<Rightarrow> disk \<times> store_err option" where
  "Create sha io repo typ name sz r d =
     (case objectPath repo typ name of
        Inl e \<Rightarrow> (d, Some e)
      | Inr p \<Rightarrow>
          if io_lstat_err io then (d, Some ErrIO)
          else if get (files d) p \<noteq> None
            then (d, Some (duplicateResult sha io p typ name r sz (files d)))
          else if io_mkdir_err io then (d, Some ErrIO)
          else
            (let d = mkdir_all (butlast p) d; tmp = butlast p @ [uploadTempPrefix @ io_tmp io] in
             if io_temp_err io then (d, Some ErrIO)
             else
               (let written = put tmp \<lparr>content = rd_bytes r, mtime = io_now io\<rparr> (files d) in
                case rd_err r of
                  Some e \<Rightarrow> (d\<lparr>files := remove_tmp io tmp written\<rparr>, Some e)
                | None \<Rightarrow>
                    if io_copy_err io \<or> io_sync_err io \<or> io_close_err io
                    then (d\<lparr>files := remove_tmp io tmp written\<rparr>, Some ErrIO)
                    else (case commit sha io p tmp typ name (rd_bytes r) sz (io_meanwhile io written) of
                            (fs, e) \<Rightarrow> (d\<lparr>files := remove_tmp io tmp fs\<rparr>, e)))))"

definition Open :: "io \<Rightarrow> string \<Rightarrow> string \<Rightarrow> string \<Rightarrow> disk \<Rightarrow> store_err + (string \<times> int)" where
  "Open io repo typ name d =
     (case objectPath repo typ name of
        Inl e \<Rightarrow> Inl e
      | Inr p \<Rightarrow>
          if io_open_err io then Inl ErrIO
          else (case get (files d) p of
                  None \<Rightarrow> Inl ErrNotFound
                | Some f \<Rightarrow> if io_lstat_err io then Inl ErrIO
                            else Inr (content f, int (length (content f)))))"

definition Stat :: "io \<Rightarrow> string \<Rightarrow> string \<Rightarrow> string \<Rightarrow> disk \<Rightarrow> store_err + int" where
  "Stat io repo typ name d =
     (case objectPath repo typ name of
        Inl e \<Rightarrow> Inl e
      | Inr p \<Rightarrow>
          if io_lstat_err io then Inl ErrIO
          else (case get (files d) p of None \<Rightarrow> Inl ErrNotFound | Some f \<Rightarrow> Inr (int (length (content f)))))"

record blobInfo =
  bi_Name :: string
  bi_Size :: int

definition blob_info :: "path \<times> diskfile \<Rightarrow> blobInfo" where
  "blob_info e = \<lparr>bi_Name = last (fst e), bi_Size = int (length (content (snd e)))\<rparr>"

text \<open>
  The entries below a directory at a given depth that are not temporary uploads, in the order
  of their paths, as the sorted \<open>os.ReadDir\<close> visits them.
\<close>

definition entries_at :: "path \<Rightarrow> nat \<Rightarrow> files \<Rightarrow> (path \<times> diskfile) list" where
  "entries_at base depth fs =
     sort_key fst (filter (\<lambda>(p, f). take (length base) p = base \<and> length p = length base + depth
       \<and> \<not> isUploadTemp (last p)) fs)"

definition store_List :: "io \<Rightarrow> string \<Rightarrow> string \<Rightarrow> disk \<Rightarrow> store_err + blobInfo list" where
  "store_List io repo typ d =
     (if \<not> validType typ then Inl ErrInvalidRef
      else (case repoDir repo of
              Inl e \<Rightarrow> Inl e
            | Inr base \<Rightarrow>
                if io_read_err io then Inl ErrIO
                else Inr (map blob_info (entries_at (base @ [typ]) (if typ = ''data'' then 2 else 1) (files d)))))"

definition DeleteLock :: "io \<Rightarrow> string \<Rightarrow> string \<Rightarrow> disk \<Rightarrow> disk \<times> (store_err + int)" where
  "DeleteLock io repo name d =
     (case objectPath repo ''locks'' name of
        Inl e \<Rightarrow> (d, Inl e)
      | Inr p \<Rightarrow>
          if io_lstat_err io then (d, Inl ErrIO)
          else (let freed = (case get (files d) p of None \<Rightarrow> 0 | Some f \<Rightarrow> int (length (content f))) in
            if io_remove_err io then (d, Inl ErrIO)
            else if get (files d) p = None then (d, Inr 0)
            else (d\<lparr>files := del p (files d)\<rparr>, Inr freed)))"

definition under :: "path \<Rightarrow> path \<Rightarrow> bool" where
  "under base p \<longleftrightarrow> take (length base) p = base"

definition stored_in :: "path \<Rightarrow> files \<Rightarrow> (path \<times> diskfile) list" where
  "stored_in base fs = filter (\<lambda>(p, f). under base p \<and> \<not> isUploadTemp (last p)) fs"

definition RepoUsage :: "io \<Rightarrow> string \<Rightarrow> disk \<Rightarrow> store_err + int" where
  "RepoUsage io repo d =
     (case repoDir repo of
        Inl e \<Rightarrow> Inl e
      | Inr base \<Rightarrow>
          if io_read_err io then Inl ErrIO
          else Inr (\<Sum>(p, f)\<leftarrow>stored_in base (files d). int (length (content f))))"

definition RepoHasObjects :: "io \<Rightarrow> string \<Rightarrow> disk \<Rightarrow> store_err + bool" where
  "RepoHasObjects io repo d =
     (case repoDir repo of
        Inl e \<Rightarrow> Inl e
      | Inr base \<Rightarrow> if io_read_err io then Inl ErrIO else Inr (stored_in base (files d) \<noteq> []))"

definition sweepStaleUploads :: "time \<Rightarrow> disk \<Rightarrow> disk" where
  "sweepStaleUploads before d =
     d\<lparr>files := filter (\<lambda>(p, f). \<not> (isUploadTemp (last p) \<and> mtime f < before)) (files d)\<rparr>"

section \<open>Paths\<close>

lemma join_repo [simp]: "validName r \<Longrightarrow> join [r] = [r]"
  by (auto simp: join_def validName_def)

lemma join_two [simp]: "\<lbrakk>validName r; validName n\<rbrakk> \<Longrightarrow> join [r, n] = [r, n]"
  by (auto simp: join_def validName_def)

lemma join_three [simp]: "\<lbrakk>validName r; validName t; validName n\<rbrakk> \<Longrightarrow> join [r, t, n] = [r, t, n]"
  by (auto simp: join_def validName_def)

lemma join_data:
  "\<lbrakk>validName r; validName n; 2 \<le> length n\<rbrakk> \<Longrightarrow>
     join [r, ''data'', take 2 n, n] = (if take 2 n = ''..'' then [r, n] else [r, ''data'', take 2 n, n])"
  by (auto simp: join_def validName_def dest: arg_cong [of _ _ length])

lemma valid_words [simp]: "validName ''config''" "validType t \<Longrightarrow> validName t"
  by (auto simp: validName_def validType_def objectTypes_def name_char_def byte_def Let_def is_prefix_def
      uploadTempPrefix_def)

lemma objectPath_cases:
  assumes "objectPath repo typ name = Inr p"
  obtains (config) "validName repo" "typ = configType" "p = [repo, ''config'']"
  | (data) "validName repo" "typ = ''data''" "validName name" "2 \<le> length name" "take 2 name \<noteq> ''..''"
      "p = [repo, ''data'', take 2 name, name]"
  | (dots) "validName repo" "typ = ''data''" "validName name" "2 \<le> length name" "take 2 name = ''..''"
      "p = [repo, name]"
  | (plain) "validName repo" "typ \<noteq> configType" "validType typ" "validName name"
      "\<not> (typ = ''data'' \<and> 2 \<le> length name)" "p = [repo, typ, name]"
proof -
  have repo: "validName repo" using assms by (auto simp: objectPath_def repoDir_def split: if_splits)
  show thesis
  proof (cases "typ = configType")
    case True
    then show thesis using assms repo by (intro config) (auto simp: objectPath_def repoDir_def)
  next
    case False
    then have v: "validType typ" "validName name"
      using assms repo by (auto simp: objectPath_def repoDir_def split: if_splits)
    show thesis
    proof (cases "typ = ''data'' \<and> 2 \<le> length name")
      case True
      then have "p = (if take 2 name = ''..'' then [repo, name] else [repo, ''data'', take 2 name, name])"
        using assms repo v False by (simp add: objectPath_def repoDir_def join_data)
      then show thesis using True repo v by (cases "take 2 name = ''..''") (auto intro: data dots)
    next
      case False
      then show thesis using assms repo v \<open>typ \<noteq> configType\<close>
        by (intro plain) (auto simp: objectPath_def repoDir_def)
    qed
  qed
qed

lemma objectPath_not_temp: "objectPath repo typ name = Inr p \<Longrightarrow> \<not> isUploadTemp (last p)"
  by (erule objectPath_cases)
     (auto simp: isUploadTemp_def validName_def uploadTempPrefix_def is_prefix_def)

lemma objectPath_not_tmp: "objectPath repo typ name = Inr p \<Longrightarrow> p \<noteq> q @ [uploadTempPrefix @ x]"
  by (auto dest!: objectPath_not_temp simp: isUploadTemp_def is_prefix_def)

lemma objectPath_under: "objectPath repo typ name = Inr p \<Longrightarrow> under [repo'] p \<longleftrightarrow> repo' = repo"
  by (erule objectPath_cases) (auto simp: under_def)

lemma objectPath_inj:
  assumes "objectPath r t n = Inr p" "objectPath r' t' n' = Inr p"
  shows "r = r' \<and> t = t' \<and> (t = configType \<or> n = n')"
  using assms by (elim objectPath_cases) (auto simp: configType_def)

text \<open>A component of a path that leads neither elsewhere nor nowhere.\<close>

definition safe_component :: "string \<Rightarrow> bool" where
  "safe_component c \<longleftrightarrow> c \<noteq> [] \<and> c \<noteq> ''.'' \<and> c \<noteq> ''..'' \<and> CHR ''/'' \<notin> set c \<and> CHR 0x00 \<notin> set c"

lemma name_char_not_special: "name_char c \<Longrightarrow> c \<noteq> CHR ''/'' \<and> c \<noteq> CHR 0x00"
  by (auto simp: name_char_def Let_def byte_def)

lemma validName_safe: "validName s \<Longrightarrow> safe_component s"
  using name_char_not_special by (auto simp: validName_def safe_component_def list_all_iff)

section \<open>The store as a set of objects\<close>

definition obj :: "disk \<Rightarrow> string \<Rightarrow> string \<Rightarrow> string \<Rightarrow> string option" where
  "obj d repo typ name =
     (case objectPath repo typ name of Inl _ \<Rightarrow> None | Inr p \<Rightarrow> map_option content (get (files d) p))"

text \<open>Other uploads only ever add objects.\<close>

definition io_adds :: "io \<Rightarrow> bool" where
  "io_adds io \<longleftrightarrow> (\<forall>fs p f. get fs p = Some f \<longrightarrow> get (io_meanwhile io fs) p = Some f)"

lemma files_mkdir_all [simp]: "files (mkdir_all p d) = files d"
  by (simp add: mkdir_all_def)

lemma files_EnsureRepo [simp]: "files (fst (EnsureRepo io repo d)) = files d"
proof -
  have "files (fold (\<lambda>sub. mkdir_all (b @ [sub])) subs d) = files d" for b subs
    by (induction subs arbitrary: d) auto
  then show ?thesis by (simp add: EnsureRepo_def del: fold.simps split: sum.splits)
qed

lemma get_remove_tmp: "q \<noteq> tmp \<Longrightarrow> get (remove_tmp io tmp fs) q = get fs q"
  by (simp add: remove_tmp_def)

lemma commit_keeps: "get fs q = Some f \<Longrightarrow> get (fst (commit sha io p tmp typ name data sz fs)) q = Some f"
  by (auto simp: commit_def)

lemma commit_ok:
  "snd (commit sha io p tmp typ name data sz fs) = None \<Longrightarrow>
     get fs p = None \<and> fst (commit sha io p tmp typ name data sz fs) = put p \<lparr>content = data, mtime = io_now io\<rparr> fs"
  by (auto simp: commit_def split: if_splits)

text \<open>Files that are not temporary uploads survive \<open>Create\<close> unchanged.\<close>

lemma Create_keeps:
  assumes "io_adds io" "get (files d) q = Some f" "\<not> isUploadTemp (last q)" "q \<noteq> []"
  shows "get (files (fst (Create sha io repo typ name sz r d))) q = Some f"
proof (cases "objectPath repo typ name")
  case (Inr p)
  let ?tmp = "butlast p @ [uploadTempPrefix @ io_tmp io]"
  have "last ?tmp = uploadTempPrefix @ io_tmp io" by simp
  then have q: "q \<noteq> ?tmp" using assms(3) by (auto simp: isUploadTemp_def is_prefix_def)
  let ?w = "put ?tmp \<lparr>content = rd_bytes r, mtime = io_now io\<rparr> (files d)"
  have "get ?w q = Some f" using assms(2) q by simp
  then have "get (io_meanwhile io ?w) q = Some f" using assms(1) by (simp add: io_adds_def)
  note kept = commit_keeps [OF this, of sha io p ?tmp "typ" name "rd_bytes r" sz]
  show ?thesis
    using assms(2) q kept Inr
    by (simp add: Create_def Let_def get_remove_tmp case_prod_beta split: option.split)
qed (use assms(2) in \<open>simp add: Create_def\<close>)

lemma Create_ok:
  assumes "snd (Create sha io repo typ name sz r d) = None"
  obtains p where "objectPath repo typ name = Inr p" "get (files d) p = None" "rd_err r = None"
    "get (files (fst (Create sha io repo typ name sz r d))) p = Some \<lparr>content = rd_bytes r, mtime = io_now io\<rparr>"
proof -
  from assms obtain p where p: "objectPath repo typ name = Inr p"
    by (auto simp: Create_def split: sum.splits)
  let ?tmp = "butlast p @ [uploadTempPrefix @ io_tmp io]"
  let ?w = "io_meanwhile io (put ?tmp \<lparr>content = rd_bytes r, mtime = io_now io\<rparr> (files d))"
  have "p \<noteq> []" using p by (auto elim: objectPath_cases)
  have "p \<noteq> ?tmp" by (rule objectPath_not_tmp [OF p])
  have c: "get (files d) p = None" "rd_err r = None" "snd (commit sha io p ?tmp typ name (rd_bytes r) sz ?w) = None"
      "files (fst (Create sha io repo typ name sz r d)) = remove_tmp io ?tmp (fst (commit sha io p ?tmp typ name (rd_bytes r) sz ?w))"
    using assms p by (auto simp: Create_def Let_def case_prod_beta split: if_splits option.splits)
  show thesis
    using commit_ok [OF c(3)] \<open>p \<noteq> ?tmp\<close> c
    by (intro that [OF p]) (simp_all add: get_remove_tmp)
qed

lemma Create_exists_same:
  assumes "objectPath repo typ name = Inr p" "get (files d) p \<noteq> None"
  shows "fst (Create sha io repo typ name sz r d) = d \<and> snd (Create sha io repo typ name sz r d) \<noteq> None"
  using assms by (auto simp: Create_def)

lemma obj_Some: "obj d repo typ name = Some c \<longleftrightarrow>
    (\<exists>p f. objectPath repo typ name = Inr p \<and> get (files d) p = Some f \<and> content f = c)"
  by (auto simp: obj_def split: sum.splits)

text \<open>An upload that counts as a repetition found an object with the digest of the uploaded bytes.\<close>

lemma duplicateResult_identical:
  assumes "duplicateResult sha io p typ name r sz fs = ErrExistsIdentical"
  shows "\<exists>f. get fs p = Some f \<and> hex_encode (sha (content f)) = hex_encode (sha (rd_bytes r)) \<and> rd_err r = None"
  using assms
  by (auto simp: duplicateResult_def classifyDuplicate_def sha256Of_def split: option.splits sum.splits if_splits)

lemma Create_identical:
  assumes "snd (Create sha io repo typ name sz r d) = Some ErrExistsIdentical" "rd_err r \<noteq> Some ErrExistsIdentical"
    "objectPath repo typ name \<noteq> Inl ErrExistsIdentical"
  shows "\<exists>c. obj (fst (Create sha io repo typ name sz r d)) repo typ name = Some c \<and>
    hex_encode (sha c) = hex_encode (sha (rd_bytes r)) \<and> rd_err r = None"
proof (cases "objectPath repo typ name")
  case (Inr p)
  let ?tmp = "butlast p @ [uploadTempPrefix @ io_tmp io]"
  let ?w = "io_meanwhile io (put ?tmp \<lparr>content = rd_bytes r, mtime = io_now io\<rparr> (files d))"
  have t: "p \<noteq> ?tmp" by (rule objectPath_not_tmp [OF Inr])
  show ?thesis
  proof (cases "get (files d) p = None")
    case True
    have rd: "rd_err r = None" and c: "snd (commit sha io p ?tmp typ name (rd_bytes r) sz ?w) = Some ErrExistsIdentical"
      and f: "files (fst (Create sha io repo typ name sz r d)) = remove_tmp io ?tmp (fst (commit sha io p ?tmp typ name (rd_bytes r) sz ?w))"
      using assms True Inr by (auto simp: Create_def Let_def case_prod_beta split: if_splits option.splits)
    have x: "duplicateResult sha io p typ name \<lparr>rd_bytes = rd_bytes r, rd_err = None\<rparr> sz ?w = ErrExistsIdentical"
      and w: "fst (commit sha io p ?tmp typ name (rd_bytes r) sz ?w) = ?w"
      using c by (auto simp: commit_def duplicateResultFromFile_def split: if_splits)
    from duplicateResult_identical [OF x] show ?thesis using f rd t Inr by (auto simp: w obj_Some get_remove_tmp)
  next
    case False
    then have x: "duplicateResult sha io p typ name r sz (files d) = ErrExistsIdentical"
      using assms Inr by (auto simp: Create_def split: if_splits)
    from duplicateResult_identical [OF x] show ?thesis
      using Create_exists_same [OF Inr False, of sha io sz r] Inr by (auto simp: obj_Some)
  qed
qed (use assms in \<open>auto simp: Create_def\<close>)

section \<open>The interface of a store\<close>

text \<open>
  What the gateway relies on, whatever the backend: a creation never changes an object that is
  there, it succeeds only where there was none and then stores exactly the bytes it was given;
  a deletion touches locks only. The restriction of the environment is \<open>ok\<close>.
\<close>

locale blob_store =
  fixes create :: "'io \<Rightarrow> string \<Rightarrow> string \<Rightarrow> string \<Rightarrow> int \<Rightarrow> reader \<Rightarrow> 's \<Rightarrow> 's \<times> store_err option"
    and delete_lock :: "'io \<Rightarrow> string \<Rightarrow> string \<Rightarrow> 's \<Rightarrow> 's \<times> (store_err + int)"
    and ensure :: "'io \<Rightarrow> string \<Rightarrow> 's \<Rightarrow> 's \<times> store_err option"
    and object :: "'s \<Rightarrow> string \<Rightarrow> string \<Rightarrow> string \<Rightarrow> string option"
    and ok :: "'io \<Rightarrow> bool"
  assumes create_keeps: "\<lbrakk>ok io; object s r t n = Some c\<rbrakk> \<Longrightarrow> object (fst (create io r' t' n' z b s)) r t n = Some c"
    and create_stores: "snd (create io r t n z b s) = None \<Longrightarrow> object (fst (create io r t n z b s)) r t n = Some (rd_bytes b)"
    and create_fresh: "snd (create io r t n z b s) = None \<Longrightarrow> object s r t n = None"
    and delete_lock_only: "t \<noteq> ''locks'' \<Longrightarrow> object (fst (delete_lock io r' n' s)) r t n = object s r t n"
    and ensure_keeps: "object (fst (ensure io r' s)) = object s"
begin

lemma create_existing: "object s r t n = Some c \<Longrightarrow> snd (create io r t n z b s) \<noteq> None"
  using create_fresh by fastforce

lemma create_twice:
  "\<lbrakk>ok io; snd (create io r t n z b s) = None\<rbrakk> \<Longrightarrow>
     object (fst (create io' r' t' n' z' b' (fst (create io r t n z b s)))) r t n = Some (rd_bytes b)"
  if "ok io'"
  using create_keeps [OF that create_stores] by blast

end

interpretation disk_store: blob_store "Create sha" DeleteLock EnsureRepo obj io_adds for sha
proof
  fix io r t n c r' t' n' z b s
  assume ok: "io_adds io" and "obj s r t n = Some c"
  then obtain p f where p: "objectPath r t n = Inr p" "get (files s) p = Some f" "content f = c"
    by (auto simp: obj_Some)
  have "p \<noteq> []" using p(1) by (auto elim: objectPath_cases)
  then have "get (files (fst (Create sha io r' t' n' z b s))) p = Some f"
    using Create_keeps [OF ok p(2) objectPath_not_temp [OF p(1)]] by simp
  with p show "obj (fst (Create sha io r' t' n' z b s)) r t n = Some c" by (auto simp: obj_Some)
next
  fix io r t n z b s
  assume "snd (Create sha io r t n z b s) = None"
  then show "obj (fst (Create sha io r t n z b s)) r t n = Some (rd_bytes b)" and "obj s r t n = None"
    by (auto elim!: Create_ok simp: obj_def)
next
  fix t r' n' r n io and s :: disk
  assume t: "t \<noteq> ''locks''"
  show "obj (fst (DeleteLock io r' n' s)) r t n = obj s r t n"
  proof (cases "objectPath r' ''locks'' n'")
    case (Inr q)
    then have "objectPath r t n \<noteq> Inr q" using objectPath_inj t by blast
    then show ?thesis by (auto simp: DeleteLock_def obj_def Inr Let_def split: sum.splits option.splits)
  qed (simp add: DeleteLock_def)
next
  show "obj (fst (EnsureRepo io r' s)) = obj s" for io r' s
    by (simp only: obj_def [abs_def] files_EnsureRepo)
qed

section \<open>Well-formed disks\<close>

text \<open>Every file of the store is an object of some repository or an upload in progress.\<close>

definition disk_wf :: "disk \<Rightarrow> bool" where
  "disk_wf d \<longleftrightarrow> wf_map (files d) \<and>
     (\<forall>p f. get (files d) p = Some f \<longrightarrow> p \<noteq> [] \<and> (isUploadTemp (last p) \<or> (\<exists>r t n. objectPath r t n = Inr p)))"

definition io_quiet :: "io \<Rightarrow> bool" where
  "io_quiet io \<longleftrightarrow> io_meanwhile io = id"

lemma io_quiet_adds: "io_quiet io \<Longrightarrow> io_adds io"
  by (simp add: io_quiet_def io_adds_def)

lemma disk_wf_put:
  "\<lbrakk>disk_wf d; p \<noteq> []; isUploadTemp (last p) \<or> (\<exists>r t n. objectPath r t n = Inr p)\<rbrakk>
    \<Longrightarrow> disk_wf (d\<lparr>files := put p f (files d)\<rparr>)"
  by (auto simp: disk_wf_def)

lemma disk_wf_files: "disk_wf d \<Longrightarrow> disk_wf (d\<lparr>dirs := ds\<rparr>)"
  by (simp add: disk_wf_def)

lemma disk_wf_remove_tmp: "disk_wf d \<Longrightarrow> disk_wf (d\<lparr>files := remove_tmp io tmp (files d)\<rparr>)"
  by (auto simp: disk_wf_def remove_tmp_def split: if_splits)

lemma disk_wf_Create:
  assumes "disk_wf d" "io_quiet io"
  shows "disk_wf (fst (Create sha io repo typ name sz r d))"
proof (cases "objectPath repo typ name")
  case (Inr p)
  let ?d = "mkdir_all (butlast p) d"
  let ?tmp = "butlast p @ [uploadTempPrefix @ io_tmp io]"
  let ?w = "?d\<lparr>files := put ?tmp \<lparr>content = rd_bytes r, mtime = io_now io\<rparr> (files ?d)\<rparr>"
  have p: "p \<noteq> []" using Inr by (auto elim: objectPath_cases)
  have d: "disk_wf ?d" using assms(1) by (simp add: mkdir_all_def disk_wf_files)
  have w: "disk_wf ?w"
    using disk_wf_put [OF d, of ?tmp] by (simp add: isUploadTemp_def is_prefix_def)
  have c: "disk_wf (?w\<lparr>files := fst (commit sha io p ?tmp typ name (rd_bytes r) sz (files ?w))\<rparr>)"
    using w disk_wf_put [OF w p] Inr by (auto simp: commit_def)
  show ?thesis
    using assms d disk_wf_remove_tmp [OF w] disk_wf_remove_tmp [OF c] Inr
    by (simp add: Create_def Let_def case_prod_beta io_quiet_def split: option.split)
qed (use assms(1) in \<open>simp add: Create_def\<close>)

lemma disk_wf_DeleteLock: "disk_wf d \<Longrightarrow> disk_wf (fst (DeleteLock io repo name d))"
  by (auto simp: DeleteLock_def disk_wf_def Let_def split: sum.splits if_splits)

section \<open>Properties of the store\<close>

text \<open>
  No object reference leaves the store or meets another: the path of an object starts with
  its repository, all its components are plain names (not empty, not a dot or two, without a
  slash or a null byte), it is never the path of a temporary upload, and two references with
  the same path are the same reference.
\<close>

lemma objectPath_contained_injective:
  assumes "objectPath repo typ name = Inr p"
  shows "hd p = repo \<and> list_all safe_component p \<and> \<not> isUploadTemp (last p) \<and>
         (\<forall>repo' typ' name'. objectPath repo' typ' name' = Inr p \<longrightarrow>
            repo' = repo \<and> typ' = typ \<and> (typ = configType \<or> name' = name))"
proof -
  have two: "safe_component (take 2 n)" if "validName n" "2 \<le> length n" "take 2 n \<noteq> ''..''" for n
    using that validName_safe [OF that(1)] set_take_subset [of 2 n]
    by (auto simp: safe_component_def dest: arg_cong [of _ _ length])
  have "list_all safe_component p"
    using assms by (rule objectPath_cases) (auto intro: validName_safe two simp: valid_words(2) [unfolded validType_def objectTypes_def])
  moreover have "hd p = repo" using assms by (auto elim: objectPath_cases)
  ultimately show ?thesis using objectPath_not_temp [OF assms] objectPath_inj [OF assms] by auto
qed

definition create_all ::
  "(string \<Rightarrow> string) \<Rightarrow> (io \<times> string \<times> string \<times> string \<times> int \<times> reader) list \<Rightarrow> disk \<Rightarrow> disk" where
  "create_all sha us d = fold (\<lambda>(io, r, t, n, z, b) d. fst (Create sha io r t n z b d)) us d"

lemma create_all_keeps:
  "\<lbrakk>\<forall>(io, u) \<in> set us. io_adds io; obj d r t n = Some c\<rbrakk> \<Longrightarrow> obj (create_all sha us d) r t n = Some c"
proof (induction us arbitrary: d)
  case (Cons u us)
  obtain io r' t' n' z b where u: "u = (io, r', t', n', z, b)" by (cases u)
  have "obj (fst (Create sha io r' t' n' z b d)) r t n = Some c"
    using Cons.prems by (intro disk_store.create_keeps) (auto simp: u)
  with Cons show ?case by (simp add: create_all_def u)
qed (simp add: create_all_def)

lemma Open_obj: "\<lbrakk>\<not> io_open_err io; \<not> io_lstat_err io; obj d r t n = Some c\<rbrakk> \<Longrightarrow> Open io r t n d = Inr (c, int (length c))"
  by (auto simp: Open_def obj_Some)

lemma Stat_obj: "\<lbrakk>\<not> io_lstat_err io; obj d r t n = Some c\<rbrakk> \<Longrightarrow> Stat io r t n d = Inr (int (length c))"
  by (auto simp: Stat_def obj_Some)

text \<open>
  C39. What a successful upload stores is what every later download returns: after \<open>Create\<close>
  succeeds, any number of further uploads, by anyone and however they fail, leave the object
  readable with exactly the bytes of the upload, and \<open>Stat\<close> reports their number.
\<close>

theorem Create_Open_roundtrip:
  assumes "snd (Create sha io repo typ name sz r d) = None"
    and "\<forall>(io', u) \<in> set us. io_adds io'" "\<not> io_open_err io2" "\<not> io_lstat_err io2"
  shows "Open io2 repo typ name (create_all sha us (fst (Create sha io repo typ name sz r d))) =
           Inr (rd_bytes r, int (length (rd_bytes r))) \<and>
         Stat io2 repo typ name (create_all sha us (fst (Create sha io repo typ name sz r d))) =
           Inr (int (length (rd_bytes r)))"
  using create_all_keeps [OF assms(2) disk_store.create_stores [OF assms(1)]] assms(3,4)
  by (simp add: Open_obj Stat_obj)

theorem Create_Open_roundtrip_witness:
  "Open io_ok ''web1'' ''data'' ''abcd''
     (create_all id [(io_ok, ''web1'', ''data'', ''abcd'', 2, \<lparr>rd_bytes = ''no'', rd_err = None\<rparr>)]
       (fst (Create id io_ok ''web1'' ''data'' ''abcd'' 3 \<lparr>rd_bytes = ''yes'', rd_err = None\<rparr> \<lparr>files = [], dirs = {}\<rparr>)))
   = Inr (''yes'', 3)"
proof -
  let ?c = "Create id io_ok ''web1'' ''data'' ''abcd'' 3 \<lparr>rd_bytes = ''yes'', rd_err = None\<rparr> \<lparr>files = [], dirs = {}\<rparr>"
  have p: "objectPath ''web1'' ''data'' ''abcd'' = Inr [''web1'', ''data'', ''ab'', ''abcd'']" by code_simp
  have "snd ?c = None"
    by (simp add: Create_def p io_ok_def commit_def Let_def mkdir_all_def uploadTempPrefix_def)
  then show ?thesis
    using Create_Open_roundtrip [of id io_ok "''web1''" "''data''" "''abcd''" 3 "\<lparr>rd_bytes = ''yes'', rd_err = None\<rparr>"
        "\<lparr>files = [], dirs = {}\<rparr>" "[(io_ok, ''web1'', ''data'', ''abcd'', 2, \<lparr>rd_bytes = ''no'', rd_err = None\<rparr>)]" io_ok]
    by (simp add: io_ok_def io_adds_def)
qed

text \<open>
  When a repeated upload counts as done: the store answers "identical" exactly when the
  incoming bytes are complete and as many as the stored ones and the digests agree: for the
  configuration the two digests with each other, for every other object both with its name
  (the stored one is read only where the backend asks for it).
\<close>

lemma classifyDuplicate_identical_iff:
  "classifyDuplicate sha typ name incoming n existing = ErrExistsIdentical \<longleftrightarrow>
     ex_size existing = n \<and> rd_err incoming = None \<and> int (length (rd_bytes incoming)) = n \<and>
     (if typ = configType
      then (\<exists>st. ex_open existing = Inr st \<and> rd_err st = None \<and>
              hex_encode (sha (rd_bytes st)) = hex_encode (sha (rd_bytes incoming)))
      else hex_encode (sha (rd_bytes incoming)) = name \<and>
           (ex_verify existing \<longrightarrow>
              (\<exists>st. ex_open existing = Inr st \<and> rd_err st = None \<and> hex_encode (sha (rd_bytes st)) = name)))"
  by (auto simp: classifyDuplicate_def sha256Of_def split: option.splits sum.splits)

lemma entries_at_iff:
  assumes "disk_wf d" "validName repo" "validType typ"
  shows "(p, f) \<in> set (entries_at [repo, typ] (if typ = ''data'' then 2 else 1) (files d)) \<longleftrightarrow>
     get (files d) p = Some f \<and>
     (\<exists>n. objectPath repo typ n = Inr p \<and> last p = n \<and> (typ = ''data'' \<longrightarrow> 2 \<le> length n \<and> take 2 n \<noteq> ''..''))"
    (is "?L \<longleftrightarrow> ?R")
proof
  assume ?L
  then have g: "get (files d) p = Some f" and t: "\<not> isUploadTemp (last p)"
      and take: "take 2 p = [repo, typ]" and len: "length p = (if typ = ''data'' then 4 else 3)"
    using assms(1) by (auto simp: entries_at_def disk_wf_def get_set numeral_2_eq_2)
  from g t assms(1) obtain r' t' n' where o: "objectPath r' t' n' = Inr p" by (auto simp: disk_wf_def)
  then show ?R
    by (rule objectPath_cases) (use g take len o in \<open>auto simp: numeral_2_eq_2 split: if_splits\<close>)
next
  assume R: ?R
  then obtain n where o: "objectPath repo typ n = Inr p" "last p = n"
    and n: "typ = ''data'' \<longrightarrow> 2 \<le> length n \<and> take 2 n \<noteq> ''..''" by blast
  have "typ \<noteq> configType" using assms(3) by (auto simp: validType_def objectTypes_def configType_def)
  then have "take 2 p = [repo, typ] \<and> length p = (if typ = ''data'' then 4 else 3)"
    using o(1) n by (auto elim!: objectPath_cases simp: numeral_2_eq_2)
  then show ?L
    using R objectPath_not_temp [OF o(1)] assms(1)
    by (auto simp: entries_at_def disk_wf_def get_set numeral_2_eq_2)
qed

text \<open>
  A listing is complete and exact: on a well-formed disk, \<open>List\<close> of a type names the
  objects of that type that the store holds, each with its size, and nothing else; uploads in
  progress are left out. (The two exceptions are names of the type "data" that are a single
  character or begin with two dots: their files are not in a fan-out directory.)
\<close>

lemma store_List_exact:
  assumes "disk_wf d" "validName repo" "validType typ" "\<not> io_read_err io"
  shows "\<exists>infos. store_List io repo typ d = Inr infos \<and>
     set infos = {\<lparr>bi_Name = n, bi_Size = int (length c)\<rparr> | n c.
       obj d repo typ n = Some c \<and> (typ = ''data'' \<longrightarrow> 2 \<le> length n \<and> take 2 n \<noteq> ''..'')}"
proof (intro exI conjI)
  let ?es = "entries_at [repo, typ] (if typ = ''data'' then 2 else 1) (files d)"
  show "store_List io repo typ d = Inr (map blob_info ?es)"
    using assms(2-4) by (simp add: store_List_def repoDir_def)
  have last: "last p = n" if "objectPath repo typ n = Inr p" for n p
    using that assms(3) by (auto elim!: objectPath_cases simp: validType_def objectTypes_def configType_def)
  show "set (map blob_info ?es) = {\<lparr>bi_Name = n, bi_Size = int (length c)\<rparr> | n c.
       obj d repo typ n = Some c \<and> (typ = ''data'' \<longrightarrow> 2 \<le> length n \<and> take 2 n \<noteq> ''..'')}" (is "?A = ?B")
  proof
    show "?A \<subseteq> ?B"
    proof
      fix x assume "x \<in> ?A"
      then obtain p f where x: "x = blob_info (p, f)" and e: "(p, f) \<in> set ?es" by auto
      from e entries_at_iff [OF assms(1-3)] show "x \<in> ?B"
        by (auto simp: x blob_info_def obj_Some)
    qed
    show "?B \<subseteq> ?A"
    proof
      fix x assume "x \<in> ?B"
      then obtain n p f where x: "x = \<lparr>bi_Name = n, bi_Size = int (length (content f))\<rparr>"
        and o: "objectPath repo typ n = Inr p" "get (files d) p = Some f"
        and n: "typ = ''data'' \<longrightarrow> 2 \<le> length n \<and> take 2 n \<noteq> ''..''"
        by (auto simp: obj_Some)
      then have "(p, f) \<in> set ?es" using entries_at_iff [OF assms(1-3)] last by blast
      then show "x \<in> ?A" using last [OF o(1)] by (force simp: x blob_info_def)
    qed
  qed
qed

text \<open>
  An object of the type "data" whose name begins with two dots is stored next to the directory
  "data" (the fan-out directory of its name is the parent), where no listing finds it.
\<close>

lemma dotted_data_object_escapes_fanout:
  "objectPath ''web1'' ''data'' ''..ab'' = Inr [''web1'', ''..ab'']"
  by code_simp

end
