(* ===== verification/Node_Registry.thy ===== *)
theory Node_Registry
  imports Blob_Store
begin

text \<open>
  The registry of a backup node (\<open>localRegistry\<close> of \<open>internal/agent/backupnode/manager.go\<close>):
  the repositories the control server assigned to this node, their credentials, quotas and
  recorded usage. A target is reached by its name or by a numeric id; the two maps are kept in
  step, which is what makes the unchecked lookup of \<open>ReserveUsage\<close> and \<open>ReleaseUsage\<close>
  safe. The nil dereference they would otherwise run into is a value of the model.
\<close>

section \<open>Data and operations\<close>

record nodeTargetInfo =
  ti_Name :: string
  ti_SecretHash :: string
  ti_QuotaBytes :: int
  ti_Revoked :: bool

record localTarget =
  lt_id :: int
  lt_hash :: string
  lt_quota :: int
  lt_used :: int
  lt_revoked :: bool
  lt_ready :: bool
  lt_dirty :: bool

record localRegistry =
  byName :: "(string, localTarget) gomap"
  byID :: "(int, string) gomap"
  nextID :: int

datatype reg_err = NegativeReservation | NilDereference | RegistryFailure

text \<open>\<open>hex.DecodeString\<close>.\<close>

definition unhex :: "char \<Rightarrow> int option" where
  "unhex c = (let b = byte c in
     if 48 \<le> b \<and> b \<le> 57 then Some (b - 48)
     else if 97 \<le> b \<and> b \<le> 102 then Some (b - 87)
     else if 65 \<le> b \<and> b \<le> 70 then Some (b - 55)
     else None)"

fun hex_decode :: "string \<Rightarrow> string option" where
  "hex_decode [] = Some []"
| "hex_decode [_] = None"
| "hex_decode (a # b # s) =
     (case (unhex a, unhex b, hex_decode s) of
        (Some h, Some l, Some r) \<Rightarrow> Some (char_of (16 * h + l) # r)
      | _ \<Rightarrow> None)"

definition add_target ::
  "nodeTargetInfo \<Rightarrow> localRegistry \<times> nodeTargetInfo list \<Rightarrow> localRegistry \<times> nodeTargetInfo list" where
  "add_target t acc = (case acc of (r, added) \<Rightarrow>
     (case hex_decode (ti_SecretHash t) of
        None \<Rightarrow> (r, added)
      | Some raw \<Rightarrow>
          if length raw \<noteq> 32 then (r, added)
          else (case get (byName r) (ti_Name t) of
                  Some existing \<Rightarrow>
                    (let rebound = lt_hash existing \<noteq> raw in
                     (r\<lparr>byName := put (ti_Name t) (existing\<lparr>lt_hash := raw, lt_quota := ti_QuotaBytes t,
                          lt_revoked := ti_Revoked t\<rparr>) (byName r)\<rparr>,
                      if \<not> lt_ready existing \<or> rebound then added @ [t] else added))
                | None \<Rightarrow>
                    (let i = nextID r in
                     (r\<lparr>nextID := i64 (i + 1),
                        byName := put (ti_Name t) \<lparr>lt_id = i, lt_hash = raw, lt_quota = ti_QuotaBytes t,
                          lt_used = 0, lt_revoked = ti_Revoked t, lt_ready = False, lt_dirty = False\<rparr> (byName r),
                        byID := put i (ti_Name t) (byID r)\<rparr>,
                      added @ [t])))))"

definition drop_unseen :: "string set \<Rightarrow> localRegistry \<Rightarrow> localRegistry" where
  "drop_unseen seen r =
     foldl (\<lambda>r (name, t). if name \<notin> seen then r\<lparr>byID := del (lt_id t) (byID r), byName := del name (byName r)\<rparr> else r)
       r (byName r)"

definition replaceTargets :: "nodeTargetInfo list \<Rightarrow> localRegistry \<Rightarrow> localRegistry \<times> nodeTargetInfo list" where
  "replaceTargets targets r =
     (case fold add_target targets (r, []) of
        (r', added) \<Rightarrow> (drop_unseen (ti_Name ` set targets) r', added))"

definition emptyRegistry :: localRegistry where
  "emptyRegistry = \<lparr>byName = [], byID = [], nextID = 1\<rparr>"

definition newLocalRegistry :: "nodeTargetInfo list \<Rightarrow> localRegistry" where
  "newLocalRegistry targets = fst (replaceTargets targets emptyRegistry)"

definition upd_target :: "string \<Rightarrow> (localTarget \<Rightarrow> localTarget) \<Rightarrow> localRegistry \<Rightarrow> localRegistry" where
  "upd_target name f r =
     (case get (byName r) name of
        None \<Rightarrow> r
      | Some t \<Rightarrow> r\<lparr>byName := put name (f t) (byName r)\<rparr>)"

definition setUsed :: "string \<Rightarrow> int \<Rightarrow> localRegistry \<Rightarrow> localRegistry" where
  "setUsed name used = upd_target name (\<lambda>t. t\<lparr>lt_used := used, lt_ready := True, lt_dirty := True\<rparr>)"

definition usageSnapshot :: "localRegistry \<Rightarrow> localRegistry \<times> (string \<times> int) list" where
  "usageSnapshot r =
     (r\<lparr>byName := map (\<lambda>(name, t). (name, t\<lparr>lt_dirty := False\<rparr>)) (byName r)\<rparr>,
      map (\<lambda>(name, t). (name, lt_used t)) (filter (\<lambda>(name, t). lt_dirty t) (byName r)))"

definition restoreDirty :: "(string \<times> int) list \<Rightarrow> localRegistry \<Rightarrow> localRegistry" where
  "restoreDirty entries r = fold (\<lambda>(name, _). upd_target name (\<lambda>t. t\<lparr>lt_dirty := True\<rparr>)) entries r"

text \<open>The answer is the id, the quota and the usage, or nothing when the credentials do not fit.\<close>

definition ResolveTarget ::
  "(string \<Rightarrow> string) \<Rightarrow> string \<Rightarrow> string \<Rightarrow> localRegistry \<Rightarrow> (int \<times> int \<times> int) option" where
  "ResolveTarget sha repo secret r =
     (case get (byName r) repo of
        None \<Rightarrow> None
      | Some t \<Rightarrow>
          if lt_hash t \<noteq> sha secret then None
          else if lt_revoked t \<or> \<not> lt_ready t then None
          else Some (lt_id t, lt_quota t, lt_used t))"

definition over_quota :: "localTarget \<Rightarrow> int \<Rightarrow> bool" where
  "over_quota t delta \<longleftrightarrow> 0 < lt_quota t \<and> (lt_quota t < delta \<or> i64 (lt_quota t - delta) < lt_used t)"

definition ReserveUsage :: "int \<Rightarrow> int \<Rightarrow> localRegistry \<Rightarrow> localRegistry \<times> (reg_err + bool)" where
  "ReserveUsage i delta r =
     (if delta < 0 then (r, Inl NegativeReservation)
      else if delta = 0 then (r, Inr True)
      else (case get (byID r) i of
        None \<Rightarrow> (r, Inr False)
      | Some name \<Rightarrow>
          (case get (byName r) name of
             None \<Rightarrow> (r, Inl NilDereference)
           | Some t \<Rightarrow>
               if lt_revoked t \<or> \<not> lt_ready t \<or> over_quota t delta then (r, Inr False)
               else (r\<lparr>byName := put name (t\<lparr>lt_used := i64 (lt_used t + delta), lt_dirty := True\<rparr>) (byName r)\<rparr>,
                     Inr True))))"

definition ReleaseUsage :: "int \<Rightarrow> int \<Rightarrow> localRegistry \<Rightarrow> localRegistry \<times> reg_err option" where
  "ReleaseUsage i delta r =
     (if delta \<le> 0 then (r, None)
      else (case get (byID r) i of
        None \<Rightarrow> (r, None)
      | Some name \<Rightarrow>
          (case get (byName r) name of
             None \<Rightarrow> (r, Some NilDereference)
           | Some t \<Rightarrow>
               (let u = i64 (lt_used t - delta) in
                (r\<lparr>byName := put name (t\<lparr>lt_used := (if u < 0 then 0 else u), lt_dirty := True\<rparr>) (byName r)\<rparr>, None)))))"

section \<open>The invariant\<close>

text \<open>
  The two maps describe the same targets, and no id was handed out beyond the counter. (The
  counter of ids does not wrap before \<open>2^63\<close> targets were added.)
\<close>

definition reg_inv :: "localRegistry \<Rightarrow> bool" where
  "reg_inv r \<longleftrightarrow> wf_map (byName r) \<and> wf_map (byID r) \<and>
     (\<forall>i name. get (byID r) i = Some name \<longrightarrow> (\<exists>t. get (byName r) name = Some t \<and> lt_id t = i)) \<and>
     (\<forall>name t. get (byName r) name = Some t \<longrightarrow> get (byID r) (lt_id t) = Some name \<and> lt_id t < nextID r)"

lemma reg_inv_empty [simp]: "reg_inv emptyRegistry"
  by (simp add: reg_inv_def emptyRegistry_def)

lemma reg_inv_put:
  assumes "reg_inv r" "get (byName r) name = Some t" "lt_id t' = lt_id t"
  shows "reg_inv (r\<lparr>byName := put name t' (byName r)\<rparr>)"
  using assms by (fastforce simp: reg_inv_def)

lemma reg_inv_upd: "\<lbrakk>reg_inv r; \<And>t. lt_id (f t) = lt_id t\<rbrakk> \<Longrightarrow> reg_inv (upd_target name f r)"
  by (auto simp: upd_target_def intro!: reg_inv_put split: option.split)

lemma reg_inv_setUsed [simp]: "reg_inv r \<Longrightarrow> reg_inv (setUsed name u r)"
  by (simp add: setUsed_def reg_inv_upd)

lemma reg_inv_restoreDirty [simp]: "reg_inv r \<Longrightarrow> reg_inv (restoreDirty es r)"
  unfolding restoreDirty_def by (induction es arbitrary: r) (auto simp: reg_inv_upd)

lemma reg_inv_ReserveUsage [simp]: "reg_inv r \<Longrightarrow> reg_inv (fst (ReserveUsage i delta r))"
  by (auto simp: ReserveUsage_def intro!: reg_inv_put split: option.split)

lemma reg_inv_ReleaseUsage [simp]: "reg_inv r \<Longrightarrow> reg_inv (fst (ReleaseUsage i delta r))"
  by (auto simp: ReleaseUsage_def Let_def intro!: reg_inv_put split: option.split)

lemma reg_inv_usageSnapshot [simp]: "reg_inv r \<Longrightarrow> reg_inv (fst (usageSnapshot r))"
  by (fastforce simp: usageSnapshot_def reg_inv_def)

lemma nextID_add_target: "nextID (fst (add_target t (r, a))) = nextID r \<or> nextID (fst (add_target t (r, a))) = i64 (nextID r + 1)"
  by (auto simp: add_target_def Let_def split: option.splits)

lemma reg_inv_add_target:
  assumes "reg_inv r" "in_i64 (nextID r + 1)"
  shows "reg_inv (fst (add_target t (r, a)))"
proof -
  have new: "reg_inv (r\<lparr>nextID := nextID r + 1, byName := put n t' (byName r), byID := put (nextID r) n (byID r)\<rparr>)"
    if "get (byName r) n = None" "lt_id t' = nextID r" for n t'
  proof -
    have "get (byID r) i \<noteq> Some n" for i using assms(1) that(1) by (fastforce simp: reg_inv_def)
    moreover have "lt_id u \<noteq> nextID r" if "get (byName r) m = Some u" for m u
      using assms(1) that by (fastforce simp: reg_inv_def)
    moreover have "lt_id u < nextID r + 1" if "get (byName r) m = Some u" for m u
      using assms(1) that by (fastforce simp: reg_inv_def)
    ultimately show ?thesis using assms(1) that by (auto simp: reg_inv_def)
  qed
  show ?thesis
    using assms by (auto simp: add_target_def Let_def intro!: reg_inv_put new split: option.splits)
qed

lemma reg_inv_fold_add:
  "\<lbrakk>reg_inv r; 0 < nextID r; nextID r + int (length ts) < 2 ^ 63\<rbrakk> \<Longrightarrow> reg_inv (fst (fold add_target ts (r, a)))"
proof (induction ts arbitrary: r a)
  case (Cons t ts)
  obtain r' a' where s: "add_target t (r, a) = (r', a')" by fastforce
  have "in_i64 (nextID r + 1)" using Cons.prems by (simp add: in_i64_def)
  then have "reg_inv r'" "nextID r' = nextID r \<or> nextID r' = nextID r + 1"
    using reg_inv_add_target [OF Cons.prems(1), of t a] nextID_add_target [of t r a] by (simp_all add: s)
  with Cons show ?case by (auto simp: s)
qed simp

lemma foldl_drop:
  fixes r :: localRegistry
  defines "step \<equiv> \<lambda>seen r (name, t). if name \<notin> seen
     then r\<lparr>byID := del (lt_id t) (byID r), byName := del name (byName r)\<rparr> else (r :: localRegistry)"
  shows "get (byName (foldl (step seen) r xs)) n = (if n \<in> fst ` set xs - seen then None else get (byName r) n)"
    and "get (byID (foldl (step seen) r xs)) i =
           (if \<exists>(n, t) \<in> set xs. n \<notin> seen \<and> lt_id t = i then None else get (byID r) i)"
    and "wf_map (byName r) \<Longrightarrow> wf_map (byName (foldl (step seen) r xs))"
    and "wf_map (byID r) \<Longrightarrow> wf_map (byID (foldl (step seen) r xs))"
    and "nextID (foldl (step seen) r xs) = nextID r"
  by (induction xs arbitrary: r) (auto simp: step_def split: if_splits)

lemma drop_unseen_get:
  assumes "reg_inv r"
  shows "get (byName (drop_unseen seen r)) n = (if n \<in> seen then get (byName r) n else None)"
    and "get (byID (drop_unseen seen r)) i =
           (case get (byID r) i of None \<Rightarrow> None | Some n \<Rightarrow> if n \<in> seen then Some n else None)"
proof -
  have "n \<in> fst ` set (byName r) \<or> get (byName r) n = None"
    by (metis domIff dom_get)
  then show "get (byName (drop_unseen seen r)) n = (if n \<in> seen then get (byName r) n else None)"
    by (auto simp: drop_unseen_def foldl_drop)
  have "(\<exists>(n, t) \<in> set (byName r). n \<notin> seen \<and> lt_id t = i) \<longleftrightarrow> (\<exists>n. get (byID r) i = Some n \<and> n \<notin> seen)"
    using assms by (fastforce simp: reg_inv_def get_set)
  then show "get (byID (drop_unseen seen r)) i =
           (case get (byID r) i of None \<Rightarrow> None | Some n \<Rightarrow> if n \<in> seen then Some n else None)"
    by (auto simp: drop_unseen_def foldl_drop split: option.splits)
qed

lemma reg_inv_drop_unseen: "reg_inv r \<Longrightarrow> reg_inv (drop_unseen seen r)"
proof -
  assume r: "reg_inv r"
  have "wf_map (byName (drop_unseen seen r)) \<and> wf_map (byID (drop_unseen seen r)) \<and>
        nextID (drop_unseen seen r) = nextID r"
    using r by (simp add: drop_unseen_def foldl_drop reg_inv_def)
  moreover have "\<exists>t. get (byName r) n = Some t \<and> lt_id t = i" if "get (byID r) i = Some n" for i n
    using r that by (auto simp: reg_inv_def)
  moreover have "get (byID r) (lt_id t) = Some n \<and> lt_id t < nextID r" if "get (byName r) n = Some t" for n t
    using r that by (auto simp: reg_inv_def)
  ultimately show ?thesis
    using r by (auto simp: reg_inv_def [of "drop_unseen seen r"] drop_unseen_get split: option.splits if_splits)
qed

lemma reg_inv_replaceTargets:
  "\<lbrakk>reg_inv r; 0 < nextID r; nextID r + int (length ts) < 2 ^ 63\<rbrakk> \<Longrightarrow> reg_inv (fst (replaceTargets ts r))"
  using reg_inv_fold_add [of r ts "[]"]
  by (auto simp: replaceTargets_def case_prod_beta intro: reg_inv_drop_unseen)

lemma reg_inv_new: "int (length ts) < 2 ^ 63 - 1 \<Longrightarrow> reg_inv (newLocalRegistry ts)"
  using reg_inv_replaceTargets [OF reg_inv_empty, of ts] by (simp add: newLocalRegistry_def emptyRegistry_def)

section \<open>What the operations do to a target\<close>

lemma in_i64_quota: "\<lbrakk>0 \<le> d; d \<le> q; in_i64 q\<rbrakk> \<Longrightarrow> i64 (q - d) = q - d"
  by (rule i64_id) (auto simp: in_i64_def)

lemma ReserveUsage_cases:
  assumes "ReserveUsage i delta r = (r', res)" "reg_inv r"
  obtains (refused) "r' = r" "res \<noteq> Inl NilDereference" "res = Inr True \<longrightarrow> delta = 0"
  | (granted) name t where "res = Inr True" "0 < delta" "get (byID r) i = Some name" "get (byName r) name = Some t"
      "lt_id t = i" "\<not> lt_revoked t" "lt_ready t" "\<not> over_quota t delta"
      "r' = r\<lparr>byName := put name (t\<lparr>lt_used := i64 (lt_used t + delta), lt_dirty := True\<rparr>) (byName r)\<rparr>"
proof -
  have t: "\<exists>t. get (byName r) n = Some t \<and> lt_id t = i" if "get (byID r) i = Some n" for n
    using assms(2) that by (auto simp: reg_inv_def)
  show thesis
  proof (cases "r' = r \<and> res \<noteq> Inl NilDereference \<and> (res = Inr True \<longrightarrow> delta = 0)")
    case False
    from False assms(1) obtain n where n: "0 < delta" "get (byID r) i = Some n"
      by (auto simp: ReserveUsage_def split: if_splits option.splits)
    with t obtain u where "get (byName r) n = Some u" "lt_id u = i" by blast
    with n False assms(1) show thesis by (intro granted [of n u]) (auto simp: ReserveUsage_def split: if_splits)
  qed (use refused in blast)
qed

lemma ReleaseUsage_cases:
  assumes "ReleaseUsage i delta r = (r', res)" "reg_inv r"
  obtains (ignored) "r' = r" "res = None"
  | (released) name t where "res = None" "0 < delta" "get (byID r) i = Some name" "get (byName r) name = Some t" "lt_id t = i"
      "r' = r\<lparr>byName := put name (t\<lparr>lt_used := max 0 (i64 (lt_used t - delta)), lt_dirty := True\<rparr>) (byName r)\<rparr>"
proof -
  have t: "\<exists>t. get (byName r) n = Some t \<and> lt_id t = i" if "get (byID r) i = Some n" for n
    using assms(2) that by (auto simp: reg_inv_def)
  show thesis
  proof (cases "r' = r \<and> res = None")
    case False
    from False assms(1) obtain n where n: "0 < delta" "get (byID r) i = Some n"
      by (auto simp: ReleaseUsage_def split: if_splits option.splits)
    with t obtain u where u: "get (byName r) n = Some u" "lt_id u = i" by blast
    from n u assms(1) show thesis by (intro released [of n u]) (auto simp: ReleaseUsage_def Let_def max_def)
  qed (use ignored in blast)
qed

section \<open>The interface of the gateway\<close>

text \<open>
  What the gateway relies on (\<open>Registry\<close> in \<open>pkg/restserver/server.go\<close>): a granted reservation
  adds to the recorded usage of its target and to no other, a refused one changes nothing, and
  a release subtracts, down to zero. \<open>used r i\<close> is the recorded usage of the target with id \<open>i\<close>.
\<close>

locale usage_registry =
  fixes reserve :: "int \<Rightarrow> int \<Rightarrow> 'r \<Rightarrow> 'r \<times> (reg_err + bool)"
    and release :: "int \<Rightarrow> int \<Rightarrow> 'r \<Rightarrow> 'r \<times> reg_err option"
    and inv :: "'r \<Rightarrow> bool"
    and used :: "'r \<Rightarrow> int \<Rightarrow> int option"
  assumes reserve_inv: "inv r \<Longrightarrow> inv (fst (reserve i d r))"
    and release_inv: "inv r \<Longrightarrow> inv (fst (release i d r))"
    and reserve_refused: "\<lbrakk>inv r; snd (reserve i d r) \<noteq> Inr True\<rbrakk> \<Longrightarrow> fst (reserve i d r) = r"
    and reserve_granted: "\<lbrakk>inv r; snd (reserve i d r) = Inr True; used r i = Some u; in_i64 u; in_i64 (u + d)\<rbrakk>
          \<Longrightarrow> used (fst (reserve i d r)) i = Some (u + d)"
    and reserve_others: "\<lbrakk>inv r; j \<noteq> i\<rbrakk> \<Longrightarrow> used (fst (reserve i d r)) j = used r j"
    and release_used: "\<lbrakk>inv r; used r i = Some u; in_i64 u; 0 \<le> u; in_i64 d\<rbrakk>
          \<Longrightarrow> used (fst (release i d r)) i = Some (if 0 < d then max 0 (u - d) else u)"
    and release_others: "\<lbrakk>inv r; j \<noteq> i\<rbrakk> \<Longrightarrow> used (fst (release i d r)) j = used r j"
begin

text \<open>A reservation that is given back leaves the recorded usage as it was.\<close>

lemma reserve_release:
  assumes "inv r" "snd (reserve i d r) = Inr True" "used r i = Some u" "0 \<le> u" "0 \<le> d" "u + d < 2 ^ 63"
  shows "used (fst (release i d (fst (reserve i d r)))) j = used r j"
proof (cases "j = i")
  case True
  have i: "in_i64 u" "in_i64 d" "in_i64 (u + d)" using assms by (auto simp: in_i64_def)
  then have "used (fst (reserve i d r)) i = Some (u + d)" using reserve_granted assms by blast
  then show ?thesis
    using release_used [OF reserve_inv [OF assms(1)], of i d i "u + d" d] i assms(3-5) by (simp add: True max_def)
next
  case False
  then show ?thesis using release_others [OF reserve_inv [OF assms(1)]] reserve_others [OF assms(1)] by simp
qed

end

text \<open>Only measured targets have a recorded usage.\<close>

definition used_of :: "localRegistry \<Rightarrow> int \<Rightarrow> int option" where
  "used_of r i = (case get (byID r) i of
     None \<Rightarrow> None
   | Some n \<Rightarrow> (case get (byName r) n of None \<Rightarrow> None | Some t \<Rightarrow> if lt_ready t then Some (lt_used t) else None))"

lemma used_of_put:
  assumes "reg_inv r" "get (byName r) name = Some t" "lt_id t' = lt_id t"
  shows "used_of (r\<lparr>byName := put name t' (byName r)\<rparr>) j =
    (if j = lt_id t then if lt_ready t' then Some (lt_used t') else None else used_of r j)"
proof -
  have "get (byID r) j = Some name \<longleftrightarrow> j = lt_id t" using assms(1,2) by (fastforce simp: reg_inv_def)
  then show ?thesis by (auto simp: used_of_def split: option.splits)
qed

lemma used_of_Some:
  "\<lbrakk>reg_inv r; get (byName r) name = Some t\<rbrakk> \<Longrightarrow> used_of r (lt_id t) = (if lt_ready t then Some (lt_used t) else None)"
  by (auto simp: used_of_def reg_inv_def)

interpretation local_registry: usage_registry ReserveUsage ReleaseUsage reg_inv used_of
proof
  fix r i d j u
  assume r: "reg_inv r"
  obtain r' res where s: "ReserveUsage i d r = (r', res)" by fastforce
  obtain q qes where l: "ReleaseUsage i d r = (q, qes)" by fastforce
  show "reg_inv (fst (ReserveUsage i d r))" "reg_inv (fst (ReleaseUsage i d r))" using r by simp_all
  show "snd (ReserveUsage i d r) \<noteq> Inr True \<Longrightarrow> fst (ReserveUsage i d r) = r"
    using s r by (elim ReserveUsage_cases) (simp_all add: s)
  show "\<lbrakk>snd (ReserveUsage i d r) = Inr True; used_of r i = Some u; in_i64 u; in_i64 (u + d)\<rbrakk> \<Longrightarrow>
      used_of (fst (ReserveUsage i d r)) i = Some (u + d)"
    using s r by (rule ReserveUsage_cases) (use r in \<open>auto simp: s ReserveUsage_def [of i 0] used_of_put used_of_Some\<close>)
  show "j \<noteq> i \<Longrightarrow> used_of (fst (ReserveUsage i d r)) j = used_of r j"
    using s r by (rule ReserveUsage_cases) (use r in \<open>auto simp: s used_of_put\<close>)
  show "\<lbrakk>used_of r i = Some u; in_i64 u; 0 \<le> u; in_i64 d\<rbrakk> \<Longrightarrow>
      used_of (fst (ReleaseUsage i d r)) i = Some (if 0 < d then max 0 (u - d) else u)"
  proof -
    assume u: "used_of r i = Some u" "in_i64 u" "0 \<le> u" "in_i64 d"
    then have w: "0 < d \<Longrightarrow> i64 (u - d) = u - d" by (intro i64_id) (auto simp: in_i64_def)
    show ?thesis
    proof (cases "get (byID r) i")
      case None
      with u show ?thesis by (simp add: used_of_def)
    next
      case (Some n)
      from l r show ?thesis
        by (rule ReleaseUsage_cases)
           (use r u w in \<open>auto simp: l used_of_put used_of_Some ReleaseUsage_def used_of_def Let_def split: if_splits option.splits\<close>)
    qed
  qed
  show "j \<noteq> i \<Longrightarrow> used_of (fst (ReleaseUsage i d r)) j = used_of r j"
    using l r by (rule ReleaseUsage_cases) (use r in \<open>auto simp: l used_of_put\<close>)
qed

section \<open>Histories of a node\<close>

text \<open>
  Between two snapshots of usage, uploads reserve and release, and the reconciliation loop
  replaces targets and measures repositories. A report is in flight from its snapshot to the
  server's answer; if it fails, its entries are marked dirty again. \<open>rs_acked\<close> is the usage the
  control server has on record.
\<close>

record rstate =
  rs_reg :: localRegistry
  rs_acked :: "string \<Rightarrow> int option"
  rs_flight :: "(string \<times> int) list option"

inductive rstep :: "rstate \<Rightarrow> rstate \<Rightarrow> bool" where
  replace: "nextID (rs_reg s) + int (length ts) < 2 ^ 63 \<Longrightarrow>
     rstep s (s\<lparr>rs_reg := fst (replaceTargets ts (rs_reg s))\<rparr>)"
| measure: "rstep s (s\<lparr>rs_reg := setUsed name u (rs_reg s)\<rparr>)"
| reserve: "rstep s (s\<lparr>rs_reg := fst (ReserveUsage i d (rs_reg s))\<rparr>)"
| release: "rstep s (s\<lparr>rs_reg := fst (ReleaseUsage i d (rs_reg s))\<rparr>)"
| snapshot: "rs_flight s = None \<Longrightarrow>
     rstep s (s\<lparr>rs_reg := fst (usageSnapshot (rs_reg s)), rs_flight := Some (snd (usageSnapshot (rs_reg s)))\<rparr>)"
| reported: "rs_flight s = Some es \<Longrightarrow>
     rstep s (s\<lparr>rs_acked := rs_acked s ++ get es, rs_flight := None\<rparr>)"
| report_failed: "rs_flight s = Some es \<Longrightarrow>
     rstep s (s\<lparr>rs_reg := restoreDirty es (rs_reg s), rs_flight := None\<rparr>)"

definition in_flight :: "rstate \<Rightarrow> string \<Rightarrow> int option" where
  "in_flight s = (case rs_flight s of None \<Rightarrow> Map.empty | Some es \<Rightarrow> get es)"

text \<open>
  The invariant of the reports: the usage of a measured target that is not marked dirty is the
  one in the report under way or, if it is not in it, the one the server has.
\<close>

definition clean_ok :: "rstate \<Rightarrow> bool" where
  "clean_ok s \<longleftrightarrow> (\<forall>n t. get (byName (rs_reg s)) n = Some t \<longrightarrow> lt_ready t \<longrightarrow> \<not> lt_dirty t \<longrightarrow>
     (rs_acked s ++ in_flight s) n = Some (lt_used t))"

definition rinv :: "rstate \<Rightarrow> bool" where
  "rinv s \<longleftrightarrow> reg_inv (rs_reg s) \<and> 0 < nextID (rs_reg s) \<and> clean_ok s"

text \<open>Each operation turns a clean target only out of a clean one with the same usage.\<close>

definition keeps_clean :: "localRegistry \<Rightarrow> localRegistry \<Rightarrow> bool" where
  "keeps_clean r r' \<longleftrightarrow> (\<forall>n t. get (byName r') n = Some t \<longrightarrow> lt_ready t \<longrightarrow> \<not> lt_dirty t \<longrightarrow>
     (\<exists>u. get (byName r) n = Some u \<and> lt_ready u \<and> \<not> lt_dirty u \<and> lt_used u = lt_used t))"

lemma keeps_clean_refl [simp]: "keeps_clean r r"
  by (auto simp: keeps_clean_def)

lemma keeps_clean_trans: "\<lbrakk>keeps_clean r1 r2; keeps_clean r2 r3\<rbrakk> \<Longrightarrow> keeps_clean r1 r3"
  by (fastforce simp: keeps_clean_def)

lemma keeps_clean_ok: "\<lbrakk>clean_ok s; keeps_clean (rs_reg s) r\<rbrakk> \<Longrightarrow> clean_ok (s\<lparr>rs_reg := r\<rparr>)"
  by (fastforce simp: clean_ok_def keeps_clean_def in_flight_def)

lemma keeps_clean_add_target: "keeps_clean r (fst (add_target t (r, a)))"
  by (auto simp: keeps_clean_def add_target_def Let_def split: option.splits if_splits)

lemma keeps_clean_fold_add: "keeps_clean r (fst (fold add_target ts (r, a)))"
proof (induction ts arbitrary: r a)
  case (Cons t ts)
  obtain r' a' where s: "add_target t (r, a) = (r', a')" by fastforce
  show ?case using keeps_clean_trans [OF keeps_clean_add_target [of r t a] Cons [of "fst (add_target t (r, a))" a']]
    by (simp add: s)
qed simp

lemma keeps_clean_drop: "keeps_clean r (drop_unseen seen r)"
  by (auto simp: keeps_clean_def drop_unseen_def foldl_drop split: if_splits)

lemma keeps_clean_replace: "keeps_clean r (fst (replaceTargets ts r))"
  using keeps_clean_trans [OF keeps_clean_fold_add keeps_clean_drop] by (auto simp: replaceTargets_def case_prod_beta)

lemma keeps_clean_ops:
  "keeps_clean r (setUsed name u r)" "keeps_clean r (fst (ReserveUsage i d r))" "keeps_clean r (fst (ReleaseUsage i d r))"
  by (auto simp: keeps_clean_def setUsed_def upd_target_def ReserveUsage_def ReleaseUsage_def Let_def split: option.splits if_splits)

lemma nextID_fold_add:
  "\<lbrakk>0 < nextID r; nextID r + int (length ts) < 2 ^ 63\<rbrakk> \<Longrightarrow> 0 < nextID (fst (fold add_target ts (r, a)))"
proof (induction ts arbitrary: r a)
  case (Cons t ts)
  obtain r' a' where s: "add_target t (r, a) = (r', a')" by fastforce
  have "in_i64 (nextID r + 1)" using Cons.prems by (simp add: in_i64_def)
  then have "nextID r' = nextID r \<or> nextID r' = nextID r + 1" using nextID_add_target [of t r a] by (simp add: s)
  with Cons show ?case by (auto simp: s)
qed simp

lemma nextID_ops [simp]:
  "nextID (setUsed name u r) = nextID r" "nextID (fst (ReserveUsage i d r)) = nextID r"
  "nextID (fst (ReleaseUsage i d r)) = nextID r" "nextID (fst (usageSnapshot r)) = nextID r"
  "nextID (drop_unseen seen r) = nextID r"
  by (auto simp: setUsed_def upd_target_def ReserveUsage_def ReleaseUsage_def usageSnapshot_def drop_unseen_def
      foldl_drop Let_def split: option.splits)

lemma nextID_restoreDirty [simp]: "nextID (restoreDirty es r) = nextID r"
  unfolding restoreDirty_def by (induction es arbitrary: r) (auto simp: upd_target_def split: option.splits)

lemma get_upd_target:
  "get (byName (upd_target name f r)) n = (if n = name then map_option f (get (byName r) n) else get (byName r) n)"
  by (auto simp: upd_target_def split: option.splits)

lemma map_add_absent: "n \<notin> fst ` set es \<Longrightarrow> (m ++ get es) n = m n"
  by (metis domIff dom_get map_add_dom_app_simps(3))

lemma dirty_fixed [simp]: "t = t\<lparr>lt_dirty := True\<rparr> \<longleftrightarrow> lt_dirty t" for t :: localTarget
  by (cases t) auto

lemma get_restoreDirty:
  "get (byName (restoreDirty es r)) n =
     map_option (\<lambda>t. if n \<in> fst ` set es then t\<lparr>lt_dirty := True\<rparr> else t) (get (byName r) n)"
  unfolding restoreDirty_def
proof (induction es arbitrary: r)
  case Nil
  then show ?case by (simp add: option.map_ident)
next
  case (Cons e es)
  show ?case by (cases e) (auto simp: Cons get_upd_target option.map_comp comp_def intro!: option.map_cong)
qed

lemma get_usageSnapshot:
  "reg_inv r \<Longrightarrow> get (snd (usageSnapshot r)) n =
     (case get (byName r) n of None \<Rightarrow> None | Some t \<Rightarrow> if lt_dirty t then Some (lt_used t) else None)"
  by (simp add: usageSnapshot_def reg_inv_def get_filter split: option.splits)

lemma rinv_step: "\<lbrakk>rstep s s'; rinv s\<rbrakk> \<Longrightarrow> rinv s'"
proof (induction rule: rstep.induct)
  case (replace s ts)
  then show ?case
    using nextID_fold_add [of "rs_reg s" ts "[]"]
    by (simp add: rinv_def keeps_clean_ok keeps_clean_replace reg_inv_replaceTargets)
       (simp add: replaceTargets_def case_prod_beta)
next
  case (snapshot s)
  then have "clean_ok s" "reg_inv (rs_reg s)" by (simp_all add: rinv_def)
  with snapshot show ?case
    by (auto simp: rinv_def clean_ok_def in_flight_def get_usageSnapshot map_add_def)
       (auto simp: usageSnapshot_def split: option.splits)
next
  case (report_failed s es)
  then show ?case
    by (auto simp: rinv_def clean_ok_def in_flight_def get_restoreDirty split: if_splits)
       (metis map_add_absent)
next
  case (reported s es)
  then show ?case by (auto simp: rinv_def clean_ok_def in_flight_def)
qed (simp_all add: rinv_def keeps_clean_ok keeps_clean_ops)

definition rinit :: "nodeTargetInfo list \<Rightarrow> (string \<Rightarrow> int option) \<Rightarrow> rstate" where
  "rinit ts acked = \<lparr>rs_reg = newLocalRegistry ts, rs_acked = acked, rs_flight = None\<rparr>"

lemma rinv_reachable:
  assumes "rstep\<^sup>*\<^sup>* (rinit ts acked) s" "int (length ts) < 2 ^ 63 - 1"
  shows "rinv s"
  using assms
proof (induction rule: rtranclp_induct)
  case base
  have "keeps_clean emptyRegistry (newLocalRegistry ts)"
    by (simp add: newLocalRegistry_def keeps_clean_replace)
  then have "clean_ok (rinit ts acked)"
    by (auto simp: clean_ok_def rinit_def keeps_clean_def emptyRegistry_def)
  moreover have "0 < nextID (newLocalRegistry ts)"
    using nextID_fold_add [of emptyRegistry ts "[]"] base
    by (simp add: newLocalRegistry_def replaceTargets_def case_prod_beta emptyRegistry_def)
  ultimately show ?case using reg_inv_new base by (simp add: rinv_def rinit_def)
next
  case (step s s')
  then show ?case using rinv_step by blast
qed

section \<open>Properties of the registry\<close>

lemma ReserveUsage_no_nil: "reg_inv r \<Longrightarrow> snd (ReserveUsage i d r) \<noteq> Inl NilDereference"
  by (cases "ReserveUsage i d r") (auto elim!: ReserveUsage_cases)

lemma ReleaseUsage_no_nil: "reg_inv r \<Longrightarrow> snd (ReleaseUsage i d r) = None"
  by (cases "ReleaseUsage i d r") (auto elim!: ReleaseUsage_cases)

text \<open>A registry with one target, used by the witnesses below.\<close>

definition key32 :: string where
  "key32 = replicate 32 CHR ''k''"

definition info1 :: nodeTargetInfo where
  "info1 = \<lparr>ti_Name = ''web1'', ti_SecretHash = concat (replicate 32 ''6b''), ti_QuotaBytes = 100, ti_Revoked = False\<rparr>"

definition reg1 :: localRegistry where
  "reg1 = setUsed ''web1'' 10 (newLocalRegistry [info1])"

text \<open>
  Two repositories; the first is measured and written to, its usage is on the way to the server, when the next
  configuration no longer has it.
\<close>

definition info2 :: nodeTargetInfo where
  "info2 = \<lparr>ti_Name = ''web2'', ti_SecretHash = concat (replicate 32 ''6c''), ti_QuotaBytes = 0, ti_Revoked = False\<rparr>"

definition busy1 :: rstate where
  "busy1 = (let s = rinit [info1, info2] Map.empty; s = s\<lparr>rs_reg := setUsed ''web1'' 10 (rs_reg s)\<rparr>
     in s\<lparr>rs_reg := fst (ReserveUsage 1 5 (rs_reg s))\<rparr>)"

definition busy2 :: rstate where
  "busy2 = (let s = busy1\<lparr>rs_reg := fst (usageSnapshot (rs_reg busy1)), rs_flight := Some (snd (usageSnapshot (rs_reg busy1)))\<rparr>;
       s = s\<lparr>rs_reg := fst (replaceTargets [info2] (rs_reg s))\<rparr>
     in s\<lparr>rs_reg := setUsed ''web2'' 0 (rs_reg s)\<rparr>)"

lemma busy1_reached: "rstep\<^sup>*\<^sup>* (rinit [info1, info2] Map.empty) busy1"
proof -
  let ?a = "rinit [info1, info2] Map.empty"
  let ?b = "?a\<lparr>rs_reg := setUsed ''web1'' 10 (rs_reg ?a)\<rparr>"
  have "rstep ?a ?b" "rstep ?b busy1" unfolding busy1_def Let_def by (rule rstep.measure, rule rstep.reserve)
  then show ?thesis by (meson converse_rtranclp_into_rtranclp rtranclp.rtrancl_refl)
qed

lemma busy2_reached: "rstep\<^sup>*\<^sup>* (rinit [info1, info2] Map.empty) busy2"
proof -
  let ?a = "busy1\<lparr>rs_reg := fst (usageSnapshot (rs_reg busy1)), rs_flight := Some (snd (usageSnapshot (rs_reg busy1)))\<rparr>"
  let ?b = "?a\<lparr>rs_reg := fst (replaceTargets [info2] (rs_reg ?a))\<rparr>"
  have "rstep busy1 ?a" by (rule rstep.snapshot) code_simp
  moreover have "rstep ?a ?b" by (rule rstep.replace) code_simp
  moreover have "rstep ?b busy2" unfolding busy2_def Let_def by (rule rstep.measure)
  ultimately show ?thesis using busy1_reached by (meson rtranclp.rtrancl_into_rtrancl)
qed

text \<open>
  C38. The registry never follows a dangling id: in every state a node reaches, through any
  sequence of target replacements, measurements, reservations, releases and usage reports, an id belongs to a name
  exactly when the target of that name has this id, so that the two maps are in step, and
  reserving and releasing usage for any id, also one that was just removed, returns normally.
\<close>

theorem registry_never_dereferences_nil:
  assumes "int (length ts) < 2 ^ 63 - 1" "rstep\<^sup>*\<^sup>* (rinit ts acked) s"
  shows "(get (byID (rs_reg s)) i = Some n \<longleftrightarrow> (\<exists>t. get (byName (rs_reg s)) n = Some t \<and> lt_id t = i)) \<and>
    snd (ReserveUsage i d (rs_reg s)) \<noteq> Inl NilDereference \<and> snd (ReleaseUsage i d (rs_reg s)) = None"
  using rinv_reachable [OF assms(2,1)] by (auto simp: rinv_def ReserveUsage_no_nil ReleaseUsage_no_nil reg_inv_def)

theorem registry_never_dereferences_nil_witness:
  "get (byID (rs_reg busy1)) 1 = Some ''web1'' \<and> get (byID (rs_reg busy2)) 1 = None \<and>
   snd (ReserveUsage 1 5 (rs_reg busy1)) = Inr True \<and> snd (ReserveUsage 1 5 (rs_reg busy2)) = Inr False \<and>
   snd (ReleaseUsage 1 5 (rs_reg busy2)) = None \<and>
   (\<exists>t. get (byName (rs_reg busy2)) ''web2'' = Some t \<and> lt_id t = 2) \<and> snd (ReserveUsage 2 7 (rs_reg busy2)) = Inr True"
proof -
  have ids: "get (byID (rs_reg busy1)) 1 = Some ''web1''" "get (byID (rs_reg busy2)) 1 = None" "get (byID (rs_reg busy2)) 2 = Some ''web2''"
    by code_simp+
  have answers: "snd (ReserveUsage 1 5 (rs_reg busy1)) = Inr True" "snd (ReserveUsage 1 5 (rs_reg busy2)) = Inr False"
    "snd (ReserveUsage 2 7 (rs_reg busy2)) = Inr True"
    by code_simp+
  have small: "int (length [info1, info2]) < 2 ^ 63 - 1" by simp
  from registry_never_dereferences_nil [OF small busy2_reached, of 2 "''web2''"] ids(3)
  have "\<exists>t. get (byName (rs_reg busy2)) ''web2'' = Some t \<and> lt_id t = 2" by simp
  moreover from registry_never_dereferences_nil [OF small busy2_reached, of 1 _ 5]
  have "snd (ReleaseUsage 1 5 (rs_reg busy2)) = None" by simp
  ultimately show ?thesis using ids answers by simp
qed

text \<open>
  No change of usage is lost on the way to the control server, whether reports succeed or
  fail and whatever happens while one is under way: when no report is in flight, the current
  usage of every measured target is in the next report, unless the server has that very value.
\<close>

lemma usage_reports_lossless:
  assumes "int (length ts) < 2 ^ 63 - 1" "rstep\<^sup>*\<^sup>* (rinit ts acked) s" "rs_flight s = None"
    "get (byName (rs_reg s)) n = Some t" "lt_ready t"
  shows "(n, lt_used t) \<in> set (snd (usageSnapshot (rs_reg s))) \<or> rs_acked s n = Some (lt_used t)"
proof -
  have inv: "reg_inv (rs_reg s)" "clean_ok s" using rinv_reachable [OF assms(2,1)] by (simp_all add: rinv_def)
  show ?thesis
  proof (cases "lt_dirty t")
    case True
    then have "get (snd (usageSnapshot (rs_reg s))) n = Some (lt_used t)"
      using inv(1) assms(4) by (simp add: get_usageSnapshot)
    then show ?thesis by (simp add: map_of_SomeD)
  next
    case False
    then show ?thesis using inv(2) assms(3-5) by (auto simp: clean_ok_def in_flight_def)
  qed
qed

datatype usage_op = Reserve int int | Release int int

fun usage_do :: "usage_op \<Rightarrow> localRegistry \<Rightarrow> localRegistry" where
  "usage_do (Reserve i d) r = fst (ReserveUsage i d r)"
| "usage_do (Release i d) r = fst (ReleaseUsage i d r)"

fun op_delta :: "usage_op \<Rightarrow> int" where
  "op_delta (Reserve i d) = d"
| "op_delta (Release i d) = d"

definition within_quota :: "int \<Rightarrow> string \<Rightarrow> localRegistry \<Rightarrow> bool" where
  "within_quota q n r \<longleftrightarrow> (\<exists>t. get (byName r) n = Some t \<and> lt_quota t = q \<and> 0 \<le> lt_used t \<and> lt_used t \<le> q)"

lemma within_quota_put:
  "\<lbrakk>within_quota q n r; get (byName r) m = Some t; m = n \<Longrightarrow> lt_quota t = q \<Longrightarrow> 0 \<le> lt_used t \<Longrightarrow> lt_used t \<le> q \<Longrightarrow>
      lt_quota t' = q \<and> 0 \<le> lt_used t' \<and> lt_used t' \<le> q\<rbrakk>
    \<Longrightarrow> within_quota q n (r\<lparr>byName := put m t' (byName r)\<rparr>)"
  by (auto simp: within_quota_def)

lemma within_quota_step:
  assumes "reg_inv r" "within_quota q n r" "0 < q" "in_i64 q" "in_i64 (op_delta u)"
  shows "within_quota q n (usage_do u r)"
proof (cases u)
  case (Reserve i d)
  obtain r' res where s: "ReserveUsage i d r = (r', res)" by fastforce
  from s assms(1) show ?thesis
  proof (rule ReserveUsage_cases)
    fix m t
    assume g: "get (byName r) m = Some t" "\<not> over_quota t d" "0 < d"
      and r': "r' = r\<lparr>byName := put m (t\<lparr>lt_used := i64 (lt_used t + d), lt_dirty := True\<rparr>) (byName r)\<rparr>"
    have "lt_used t + d \<le> q \<and> i64 (lt_used t + d) = lt_used t + d" if "lt_quota t = q" "0 \<le> lt_used t"
      using that g assms(3,4) in_i64_quota [of d q] by (auto simp: over_quota_def in_i64_def intro!: i64_id)
    with g(3) show ?thesis unfolding Reserve usage_do.simps s fst_conv r'
      by (intro within_quota_put [OF assms(2) g(1)]) auto
  qed (use assms(2) in \<open>simp add: Reserve s\<close>)
next
  case (Release i d)
  obtain r' res where s: "ReleaseUsage i d r = (r', res)" by fastforce
  from s assms(1) show ?thesis
  proof (rule ReleaseUsage_cases)
    fix m t
    assume g: "get (byName r) m = Some t" "0 < d"
      and r': "r' = r\<lparr>byName := put m (t\<lparr>lt_used := max 0 (i64 (lt_used t - d)), lt_dirty := True\<rparr>) (byName r)\<rparr>"
    have "i64 (lt_used t - d) = lt_used t - d" if "0 \<le> lt_used t" "lt_used t \<le> q"
      using that g assms(4,5) by (intro i64_id) (auto simp: in_i64_def Release)
    with g(2) assms(3) show ?thesis unfolding Release usage_do.simps s fst_conv r'
      by (intro within_quota_put [OF assms(2) g(1)]) auto
  qed (use assms(2) in \<open>simp add: Release s\<close>)
qed

lemma reg_inv_usage_do: "reg_inv r \<Longrightarrow> reg_inv (usage_do u r)"
  by (cases u) auto

text \<open>
  C37. The quota holds: a target with a quota whose recorded usage is between zero and the quota
  stays there through every sequence of reservations and releases, for this target and others,
  with deltas of any size: the comparison does not overflow and the sum does not wrap.
\<close>

theorem quota_respected:
  assumes "reg_inv r" "within_quota q n r" "0 < q" "in_i64 q" "\<forall>u\<in>set us. in_i64 (op_delta u)"
  shows "within_quota q n (fold usage_do us r)"
  using assms
proof (induction us arbitrary: r)
  case (Cons u us)
  then show ?case by (simp add: within_quota_step reg_inv_usage_do)
qed simp

lemma reg1_facts: "reg_inv reg1" "within_quota 100 ''web1'' reg1"
proof -
  show "reg_inv reg1" using reg_inv_new [of "[info1]"] by (simp add: reg1_def)
  have "get (byName reg1) ''web1'' =
      Some \<lparr>lt_id = 1, lt_hash = key32, lt_quota = 100, lt_used = 10, lt_revoked = False, lt_ready = True, lt_dirty = True\<rparr>"
    by code_simp
  then show "within_quota 100 ''web1'' reg1" by (simp add: within_quota_def)
qed

theorem quota_respected_witness:
  "within_quota 100 ''web1'' (fold usage_do [Reserve 1 60, Reserve 1 9223372036854775807, Release 1 20, Reserve 1 60] reg1)"
  by (rule quota_respected [OF reg1_facts]) (simp_all add: in_i64_def)

section \<open>Credentials\<close>

definition good_hash :: "nodeTargetInfo \<Rightarrow> bool" where
  "good_hash t \<longleftrightarrow> (case hex_decode (ti_SecretHash t) of None \<Rightarrow> False | Some raw \<Rightarrow> length raw = 32)"

lemma add_target_other: "n \<noteq> ti_Name t \<Longrightarrow> get (byName (fst (add_target t (r, a)))) n = get (byName r) n"
  by (auto simp: add_target_def Let_def split: option.splits)

text \<open>What the entry of a target looks like after its information arrived.\<close>

definition bound_as :: "nodeTargetInfo \<Rightarrow> localTarget option \<Rightarrow> localTarget option \<Rightarrow> bool" where
  "bound_as t old new \<longleftrightarrow> (case new of None \<Rightarrow> False | Some u \<Rightarrow>
     hex_decode (ti_SecretHash t) = Some (lt_hash u) \<and> lt_revoked u = ti_Revoked t \<and> lt_quota u = ti_QuotaBytes t \<and>
     lt_ready u = (case old of None \<Rightarrow> False | Some o' \<Rightarrow> lt_ready o'))"

lemma add_target_same:
  "good_hash t \<Longrightarrow> bound_as t (get (byName r) (ti_Name t)) (get (byName (fst (add_target t (r, a)))) (ti_Name t))"
  by (auto simp: good_hash_def add_target_def bound_as_def Let_def split: option.splits if_splits)

lemma fold_add_other: "n \<notin> ti_Name ` set ts \<Longrightarrow> get (byName (fst (fold add_target ts (r, a)))) n = get (byName r) n"
proof (induction ts arbitrary: r a)
  case (Cons t ts)
  obtain r' a' where s: "add_target t (r, a) = (r', a')" by fastforce
  show ?case using Cons add_target_other [of n t r a] by (simp add: s)
qed simp

lemma fold_add_same:
  "\<lbrakk>t \<in> set ts; distinct (map ti_Name ts); good_hash t\<rbrakk> \<Longrightarrow>
     bound_as t (get (byName r) (ti_Name t)) (get (byName (fst (fold add_target ts (r, a)))) (ti_Name t))"
proof (induction ts arbitrary: r a)
  case (Cons x ts)
  obtain r' a' where s: "add_target x (r, a) = (r', a')" by fastforce
  show ?case
  proof (cases "x = t")
    case True
    then have "ti_Name t \<notin> ti_Name ` set ts" using Cons.prems(2) by auto
    then show ?thesis using add_target_same [OF Cons.prems(3), of r a] fold_add_other [of _ ts r' a'] s by (simp add: True)
  next
    case False
    then have m: "t \<in> set ts" using Cons.prems(1) by simp
    then have "ti_Name t \<noteq> ti_Name x" using Cons.prems(2) by (metis distinct.simps(2) image_eqI list.simps(9) set_map)
    then show ?thesis using Cons.IH [OF m _ Cons.prems(3), of r' a'] Cons.prems(2) add_target_other [of _ x r a] by (simp add: s)
  qed
qed simp

text \<open>
  Assignments, revocations and rotations take effect at once: after the node replaced its
  targets by a configuration with distinct names and well-formed hashes, a name and a secret
  open a repository exactly when the configuration lists that name, not revoked, with the
  digest of that secret, and the repository was measured before. A repository that is no longer
  listed, a revoked one and an old secret are refused from then on.
\<close>

lemma ResolveTarget_after_replace:
  assumes "reg_inv r" "0 < nextID r" "nextID r + int (length ts) < 2 ^ 63"
    "distinct (map ti_Name ts)" "\<forall>t\<in>set ts. good_hash t"
  shows "ResolveTarget sha repo secret (fst (replaceTargets ts r)) \<noteq> None \<longleftrightarrow>
    (\<exists>t\<in>set ts. ti_Name t = repo \<and> \<not> ti_Revoked t \<and> hex_decode (ti_SecretHash t) = Some (sha secret)) \<and>
    (\<exists>old. get (byName r) repo = Some old \<and> lt_ready old)"
proof -
  let ?r = "fst (fold add_target ts (r, []))"
  have "reg_inv ?r" using assms(1-3) by (rule reg_inv_fold_add)
  then have g: "get (byName (fst (replaceTargets ts r))) repo = (if repo \<in> ti_Name ` set ts then get (byName ?r) repo else None)"
    by (simp add: replaceTargets_def case_prod_beta drop_unseen_get)
  show ?thesis
  proof (cases "repo \<in> ti_Name ` set ts")
    case True
    then obtain t where t: "t \<in> set ts" "ti_Name t = repo" by auto
    have "bound_as t (get (byName r) repo) (get (byName ?r) repo)"
      using fold_add_same [OF t(1) assms(4), of r "[]"] assms(5) t by blast
    then obtain u where u: "get (byName ?r) repo = Some u" "hex_decode (ti_SecretHash t) = Some (lt_hash u)"
      "lt_revoked u = ti_Revoked t" "lt_ready u \<longleftrightarrow> (\<exists>old. get (byName r) repo = Some old \<and> lt_ready old)"
      by (auto simp: bound_as_def split: option.splits)
    have uniq: "(\<exists>t'\<in>set ts. ti_Name t' = repo \<and> P t') \<longleftrightarrow> P t" for P
      using t assms(4) by (metis distinct_map inj_onD)
    show ?thesis unfolding uniq using u t(1) by (simp add: ResolveTarget_def g True)
  qed (auto simp: ResolveTarget_def g)
qed

text \<open>
  An entry whose hash is malformed is skipped, so it neither changes nor revokes an existing
  target: the old credentials and the old state of revocation stay in force.
\<close>

lemma malformed_hash_keeps_target:
  "\<not> good_hash t \<Longrightarrow> add_target t (r, a) = (r, a)"
  by (auto simp: good_hash_def add_target_def split: option.splits)

end
