(* ===== verification/Rest_Server.thy ===== *)
theory Rest_Server
  imports Node_Registry
begin

text \<open>
  The restic REST gateway (\<open>pkg/restserver/server.go\<close>): authentication, the handlers and the
  accounting of usage around uploads. A request arrives already matched against the route table
  (the router is the package chi) and with its headers parsed; a handler maps the state (disk
  and registry) and the request to the new state and the response. The registry is a parameter,
  a record of its three operations; the node's \<open>localRegistry\<close> is the instance of this library.
\<close>

section \<open>Requests and responses\<close>

datatype meth = POST | GET | HEAD | DELETE

text \<open>The patterns of the route table with the values of their parameters.\<close>

datatype route =
    RepoRoute string
  | ConfigRoute string
  | ListRoute string string
  | ObjectRoute string string string

fun route_repo :: "route \<Rightarrow> string" where
  "route_repo (RepoRoute repo) = repo"
| "route_repo (ConfigRoute repo) = repo"
| "route_repo (ListRoute repo _) = repo"
| "route_repo (ObjectRoute repo _ _) = repo"

record request =
  rq_method :: meth
  rq_route :: route
  rq_auth :: "(string \<times> string) option"
  rq_Accept :: string
  rq_Range :: "(int \<times> int option) option"
  rq_ContentLength :: int
  rq_Body :: reader

datatype body =
    Text string
  | Bytes string
  | Infos "blobInfo list"
  | Names "string list"
  | Empty

record response =
  rp_status :: int
  rp_body :: body

record target =
  tg_id :: int
  tg_quota :: int
  tg_used :: int

record 'r registry =
  rg_ResolveTarget :: "string \<Rightarrow> string \<Rightarrow> 'r \<Rightarrow> reg_err + (int \<times> int \<times> int) option"
  rg_ReserveUsage :: "int \<Rightarrow> int \<Rightarrow> 'r \<Rightarrow> 'r \<times> (reg_err + bool)"
  rg_ReleaseUsage :: "int \<Rightarrow> int \<Rightarrow> 'r \<Rightarrow> 'r \<times> reg_err option"

record 'r server =
  sv_registry :: "'r registry"
  sv_sha :: "string \<Rightarrow> string"
  sv_maxBlob :: int

record 'r gateway =
  gw_disk :: disk
  gw_reg :: 'r

text \<open>What the system calls of one request do: the look of \<open>objectPresent\<close> and the store operation itself.\<close>

record env =
  ev_stat :: io
  ev_store :: io

definition New_server :: "'r registry \<Rightarrow> (string \<Rightarrow> string) \<Rightarrow> int \<Rightarrow> 'r server" where
  "New_server reg sha maxBlob =
     \<lparr>sv_registry = reg, sv_sha = sha, sv_maxBlob = (if maxBlob \<le> 0 then 2 ^ 30 else maxBlob)\<rparr>"

section \<open>Handlers\<close>

definition http_error :: "string \<Rightarrow> int \<Rightarrow> response" where
  "http_error msg code = \<lparr>rp_status = code, rp_body = Text msg\<rparr>"

definition http_ok :: "body \<Rightarrow> response" where
  "http_ok b = \<lparr>rp_status = 200, rp_body = b\<rparr>"

definition unauthorized :: response where
  "unauthorized = http_error ''unauthorized'' 401"

definition storeError :: "store_err \<Rightarrow> response" where
  "storeError e =
     (if e = ErrNotFound then http_error ''not found'' 404
      else if is_ErrExists e then http_error ''object already exists'' 403
      else if e = ErrInvalidRef then http_error ''invalid object reference'' 400
      else http_error ''internal error'' 500)"

definition forbid :: response where
  "forbid = http_error ''append-only: operation not permitted'' 403"

definition handleCreateRepo :: "env \<Rightarrow> string \<Rightarrow> 'r gateway \<Rightarrow> 'r gateway \<times> response" where
  "handleCreateRepo ev repo g =
     (case EnsureRepo (ev_store ev) repo (gw_disk g) of
        (d, Some e) \<Rightarrow> (g\<lparr>gw_disk := d\<rparr>, storeError e)
      | (d, None) \<Rightarrow> (g\<lparr>gw_disk := d\<rparr>, http_ok Empty))"

text \<open>\<open>strings.Contains\<close>.\<close>

fun str_contains :: "string \<Rightarrow> string \<Rightarrow> bool" where
  "str_contains [] p = (p = [])"
| "str_contains (c # s) p = (is_prefix p (c # s) \<or> str_contains s p)"

definition restV2ContentType :: string where
  "restV2ContentType = ''application/vnd.x.restic.rest.v2''"

definition handleList :: "env \<Rightarrow> request \<Rightarrow> string \<Rightarrow> string \<Rightarrow> 'r gateway \<Rightarrow> response" where
  "handleList ev rq repo typ g =
     (if \<not> validType typ then http_error ''invalid type'' 404
      else (case store_List (ev_store ev) repo typ (gw_disk g) of
              Inl e \<Rightarrow> storeError e
            | Inr infos \<Rightarrow>
                if str_contains (rq_Accept rq) restV2ContentType then http_ok (Infos infos)
                else http_ok (Names (map bi_Name infos))))"

definition head :: "env \<Rightarrow> string \<Rightarrow> string \<Rightarrow> string \<Rightarrow> 'r gateway \<Rightarrow> response" where
  "head ev repo typ name g =
     (case Stat (ev_store ev) repo typ name (gw_disk g) of
        Inl e \<Rightarrow> storeError e
      | Inr sz \<Rightarrow> http_ok (Text (show_int sz)))"

text \<open>
  \<open>http.ServeContent\<close> with no conditional headers and at most one range \<open>bytes=a-b\<close> or
  \<open>bytes=a-\<close>: a range that starts beyond the end or ends before its start is refused, an
  end beyond the content is cut, and a range into empty content is ignored.
\<close>

definition serveContent :: "(int \<times> int option) option \<Rightarrow> string \<Rightarrow> response" where
  "serveContent rng c =
     (case rng of
        None \<Rightarrow> http_ok (Bytes c)
      | Some (a, b) \<Rightarrow>
          if (case b of None \<Rightarrow> False | Some e \<Rightarrow> e < a) then http_error ''invalid range'' 416
          else if c = [] then http_ok (Bytes c)
          else if int (length c) \<le> a then http_error ''invalid range: failed to overlap'' 416
          else (let e = (case b of None \<Rightarrow> int (length c) - 1 | Some e \<Rightarrow> min e (int (length c) - 1))
                in \<lparr>rp_status = 206, rp_body = Bytes (take (nat (e - a + 1)) (drop (nat a) c))\<rparr>))"

definition get_object :: "env \<Rightarrow> request \<Rightarrow> string \<Rightarrow> string \<Rightarrow> string \<Rightarrow> 'r gateway \<Rightarrow> response" where
  "get_object ev rq repo typ name g =
     (case Open (ev_store ev) repo typ name (gw_disk g) of
        Inl e \<Rightarrow> storeError e
      | Inr (c, _) \<Rightarrow> serveContent (rq_Range rq) c)"

definition objectPresent :: "env \<Rightarrow> string \<Rightarrow> string \<Rightarrow> string \<Rightarrow> 'r gateway \<Rightarrow> bool" where
  "objectPresent ev repo typ name g =
     (case Stat (ev_stat ev) repo typ name (gw_disk g) of Inl _ \<Rightarrow> False | Inr _ \<Rightarrow> True)"

definition releaseUsage :: "'r server \<Rightarrow> int \<Rightarrow> int \<Rightarrow> 'r gateway \<Rightarrow> 'r gateway" where
  "releaseUsage sv i delta g = g\<lparr>gw_reg := fst (rg_ReleaseUsage (sv_registry sv) i delta (gw_reg g))\<rparr>"

definition reserveAfterUnaccountedCommit :: "'r server \<Rightarrow> int \<Rightarrow> int \<Rightarrow> 'r gateway \<Rightarrow> 'r gateway" where
  "reserveAfterUnaccountedCommit sv i delta g =
     g\<lparr>gw_reg := fst (rg_ReserveUsage (sv_registry sv) i delta (gw_reg g))\<rparr>"

text \<open>\<open>http.MaxBytesReader\<close>: at most \<open>n\<close> bytes; more of them is an error.\<close>

definition maxBytesReader :: "int \<Rightarrow> reader \<Rightarrow> reader" where
  "maxBytesReader n r =
     (if n < int (length (rd_bytes r)) then \<lparr>rd_bytes = take (nat n) (rd_bytes r), rd_err = Some ErrMaxBytes\<rparr> else r)"

definition definitelyNotCommitted :: "store_err \<Rightarrow> bool" where
  "definitelyNotCommitted e \<longleftrightarrow> is_ErrExists e \<or> e = ErrExistsCorrupt \<or> e = ErrInvalidRef \<or> is_MaxBytes e"

definition post_failure :: "store_err \<Rightarrow> response" where
  "post_failure e =
     (if e = ErrExistsCorrupt then http_error ''object already exists'' 403
      else if is_ErrExists e then http_error ''object already exists'' 403
      else if is_MaxBytes e then http_error ''object too large'' 413
      else storeError e)"

definition post_upload ::
  "'r server \<Rightarrow> env \<Rightarrow> request \<Rightarrow> string \<Rightarrow> string \<Rightarrow> string \<Rightarrow> target \<Rightarrow> bool \<Rightarrow> 'r gateway \<Rightarrow> 'r gateway \<times> response" where
  "post_upload sv ev rq repo typ name t reserved g =
     (case Create (sv_sha sv) (ev_store ev) repo typ name (rq_ContentLength rq)
             (maxBytesReader (rq_ContentLength rq) (rq_Body rq)) (gw_disk g) of
        (d, None) \<Rightarrow>
          (let g = g\<lparr>gw_disk := d\<rparr> in
           (if \<not> reserved then reserveAfterUnaccountedCommit sv (tg_id t) (rq_ContentLength rq) g else g, http_ok Empty))
      | (d, Some e) \<Rightarrow>
          (let g = g\<lparr>gw_disk := d\<rparr> in
           if e = ErrExistsIdentical
           then (if reserved then releaseUsage sv (tg_id t) (rq_ContentLength rq) g else g, http_ok Empty)
           else (if definitelyNotCommitted e \<and> reserved then releaseUsage sv (tg_id t) (rq_ContentLength rq) g else g,
                 post_failure e)))"

definition post ::
  "'r server \<Rightarrow> env \<Rightarrow> request \<Rightarrow> string \<Rightarrow> string \<Rightarrow> string \<Rightarrow> target \<Rightarrow> 'r gateway \<Rightarrow> 'r gateway \<times> response" where
  "post sv ev rq repo typ name t g =
     (if rq_ContentLength rq < 0 then (g, http_error ''content-length required'' 411)
      else if sv_maxBlob sv < rq_ContentLength rq then (g, http_error ''object too large'' 413)
      else (case rg_ReserveUsage (sv_registry sv) (tg_id t) (rq_ContentLength rq) (gw_reg g) of
        (r, Inl _) \<Rightarrow> (g\<lparr>gw_reg := r\<rparr>, http_error ''internal error'' 500)
      | (r, Inr reserved) \<Rightarrow>
          (let g = g\<lparr>gw_reg := r\<rparr> in
           if \<not> reserved \<and> (deletableType typ \<or> \<not> objectPresent ev repo typ name g)
           then (g, http_error ''quota exceeded'' 413)
           else post_upload sv ev rq repo typ name t reserved g)))"

definition handleDelete ::
  "'r server \<Rightarrow> env \<Rightarrow> string \<Rightarrow> string \<Rightarrow> string \<Rightarrow> target \<Rightarrow> 'r gateway \<Rightarrow> 'r gateway \<times> response" where
  "handleDelete sv ev repo typ name t g =
     (if \<not> validType typ then (g, http_error ''invalid type'' 404)
      else if \<not> deletableType typ then (g, http_error ''append-only: only locks may be removed'' 403)
      else (case DeleteLock (ev_store ev) repo name (gw_disk g) of
        (d, Inl e) \<Rightarrow> (g\<lparr>gw_disk := d\<rparr>, storeError e)
      | (d, Inr freed) \<Rightarrow>
          (let g = g\<lparr>gw_disk := d\<rparr> in
           (if 0 < freed then releaseUsage sv (tg_id t) freed g else g, http_ok Empty))))"

text \<open>The handlers that take the type from the route check it first.\<close>

definition handleHead :: "env \<Rightarrow> string \<Rightarrow> string \<Rightarrow> string \<Rightarrow> 'r gateway \<Rightarrow> response" where
  "handleHead ev repo typ name g =
     (if \<not> validType typ then http_error ''invalid type'' 404 else head ev repo typ name g)"

definition handleGet :: "env \<Rightarrow> request \<Rightarrow> string \<Rightarrow> string \<Rightarrow> string \<Rightarrow> 'r gateway \<Rightarrow> response" where
  "handleGet ev rq repo typ name g =
     (if \<not> validType typ then http_error ''invalid type'' 404 else get_object ev rq repo typ name g)"

definition handlePost ::
  "'r server \<Rightarrow> env \<Rightarrow> request \<Rightarrow> string \<Rightarrow> string \<Rightarrow> string \<Rightarrow> target \<Rightarrow> 'r gateway \<Rightarrow> 'r gateway \<times> response" where
  "handlePost sv ev rq repo typ name t g =
     (if \<not> validType typ then (g, http_error ''invalid type'' 404) else post sv ev rq repo typ name t g)"

text \<open>The route table: the handler of each method and pattern; other methods are not allowed.\<close>

definition Routes ::
  "'r server \<Rightarrow> env \<Rightarrow> request \<Rightarrow> string \<Rightarrow> target \<Rightarrow> 'r gateway \<Rightarrow> 'r gateway \<times> response" where
  "Routes sv ev rq repo t g =
     (case (rq_method rq, rq_route rq) of
        (POST, RepoRoute _) \<Rightarrow> handleCreateRepo ev repo g
      | (DELETE, RepoRoute _) \<Rightarrow> (g, forbid)
      | (HEAD, ConfigRoute _) \<Rightarrow> (g, head ev repo configType configType g)
      | (GET, ConfigRoute _) \<Rightarrow> (g, get_object ev rq repo configType configType g)
      | (POST, ConfigRoute _) \<Rightarrow> post sv ev rq repo configType configType t g
      | (DELETE, ConfigRoute _) \<Rightarrow> (g, forbid)
      | (GET, ListRoute _ typ) \<Rightarrow> (g, handleList ev rq repo typ g)
      | (HEAD, ObjectRoute _ typ name) \<Rightarrow> (g, handleHead ev repo typ name g)
      | (GET, ObjectRoute _ typ name) \<Rightarrow> (g, handleGet ev rq repo typ name g)
      | (POST, ObjectRoute _ typ name) \<Rightarrow> handlePost sv ev rq repo typ name t g
      | (DELETE, ObjectRoute _ typ name) \<Rightarrow> handleDelete sv ev repo typ name t g
      | _ \<Rightarrow> (g, http_error ''method not allowed'' 405))"

definition routed :: "request \<Rightarrow> bool" where
  "routed rq \<longleftrightarrow> (case (rq_method rq, rq_route rq) of
     (GET, RepoRoute _) \<Rightarrow> False
   | (HEAD, RepoRoute _) \<Rightarrow> False
   | (POST, ListRoute _ _) \<Rightarrow> False
   | (HEAD, ListRoute _ _) \<Rightarrow> False
   | (DELETE, ListRoute _ _) \<Rightarrow> False
   | _ \<Rightarrow> True)"

text \<open>\<open>auth\<close> wraps every handler.\<close>

definition serve :: "'r server \<Rightarrow> env \<Rightarrow> request \<Rightarrow> 'r gateway \<Rightarrow> 'r gateway \<times> response" where
  "serve sv ev rq g =
     (let repo = route_repo (rq_route rq) in
      if \<not> routed rq then (g, http_error ''method not allowed'' 405)
      else if \<not> validName repo then (g, http_error ''invalid repository'' 400)
      else (case rq_auth rq of
        None \<Rightarrow> (g, unauthorized)
      | Some (user, pass) \<Rightarrow>
          if user \<noteq> repo then (g, unauthorized)
          else (case rg_ResolveTarget (sv_registry sv) repo pass (gw_reg g) of
            Inl _ \<Rightarrow> (g, http_error ''internal error'' 500)
          | Inr None \<Rightarrow> (g, unauthorized)
          | Inr (Some (i, q, u)) \<Rightarrow> Routes sv ev rq repo \<lparr>tg_id = i, tg_quota = q, tg_used = u\<rparr> g)))"

definition serve_all :: "'r server \<Rightarrow> (env \<times> request) list \<Rightarrow> 'r gateway \<Rightarrow> 'r gateway" where
  "serve_all sv rqs g = fold (\<lambda>(ev, rq) g. fst (serve sv ev rq g)) rqs g"

section \<open>What a request can do to the store\<close>

lemma disk_release [simp]:
  "gw_disk (releaseUsage sv i z g) = gw_disk g" "gw_disk (reserveAfterUnaccountedCommit sv i z g) = gw_disk g"
  by (simp_all add: releaseUsage_def reserveAfterUnaccountedCommit_def)

abbreviation upload ::
  "'r server \<Rightarrow> env \<Rightarrow> request \<Rightarrow> string \<Rightarrow> string \<Rightarrow> string \<Rightarrow> disk \<Rightarrow> disk \<times> store_err option" where
  "upload sv ev rq repo typ name \<equiv> Create (sv_sha sv) (ev_store ev) repo typ name (rq_ContentLength rq)
     (maxBytesReader (rq_ContentLength rq) (rq_Body rq))"

lemma disk_post_upload:
  "gw_disk (fst (post_upload sv ev rq repo typ name t reserved g)) = fst (upload sv ev rq repo typ name (gw_disk g))"
  by (simp add: post_upload_def Let_def split: prod.split option.split)

lemma disk_post:
  "gw_disk (fst (post sv ev rq repo typ name t g)) \<in> {gw_disk g, fst (upload sv ev rq repo typ name (gw_disk g))}"
  by (simp add: post_def Let_def disk_post_upload split: prod.split sum.split)

lemma disk_CreateRepo: "gw_disk (fst (handleCreateRepo ev repo g)) = fst (EnsureRepo (ev_store ev) repo (gw_disk g))"
  by (simp add: handleCreateRepo_def split: prod.split option.split)

lemma disk_Delete:
  "gw_disk (fst (handleDelete sv ev repo typ name t g)) \<in> {gw_disk g, fst (DeleteLock (ev_store ev) repo name (gw_disk g))}"
  by (simp add: handleDelete_def Let_def split: prod.split sum.split)

text \<open>A request reaches a handler only with credentials that the registry resolves.\<close>

definition authorized :: "'r server \<Rightarrow> request \<Rightarrow> 'r gateway \<Rightarrow> target \<Rightarrow> bool" where
  "authorized sv rq g t \<longleftrightarrow> routed rq \<and> validName (route_repo (rq_route rq)) \<and>
     (\<exists>pass. rq_auth rq = Some (route_repo (rq_route rq), pass) \<and>
        rg_ResolveTarget (sv_registry sv) (route_repo (rq_route rq)) pass (gw_reg g) =
          Inr (Some (tg_id t, tg_quota t, tg_used t)))"

lemma serve_cases:
  obtains (handler) t where "authorized sv rq g t" "serve sv ev rq g = Routes sv ev rq (route_repo (rq_route rq)) t g"
  | (refused) rp where "\<And>t. \<not> authorized sv rq g t" "serve sv ev rq g = (g, rp)" "rp_status rp \<in> {400, 401, 405, 500}"
      "\<exists>msg. rp_body rp = Text msg"
proof (cases "\<exists>t. authorized sv rq g t")
  case True
  then obtain t where t: "authorized sv rq g t" by blast
  obtain i q u where "t = \<lparr>tg_id = i, tg_quota = q, tg_used = u\<rparr>" by (cases t)
  with t show thesis
    by (intro handler [OF t]) (auto simp: serve_def authorized_def Let_def)
next
  case False
  have "\<not> (routed rq \<and> validName (route_repo (rq_route rq)) \<and> rq_auth rq = Some (route_repo (rq_route rq), pass) \<and>
      rg_ResolveTarget (sv_registry sv) (route_repo (rq_route rq)) pass (gw_reg g) = Inr (Some (i, q, u)))" for pass i q u
    using False by (auto simp: authorized_def dest: spec [of _ "\<lparr>tg_id = i, tg_quota = q, tg_used = u\<rparr>"])
  then have "\<exists>rp. serve sv ev rq g = (g, rp) \<and> rp_status rp \<in> {400, 401, 405, 500} \<and> (\<exists>msg. rp_body rp = Text msg)"
    by (auto simp: serve_def Let_def unauthorized_def http_error_def split: option.splits sum.splits)
  with False show thesis using refused by blast
qed

lemmas route_splits = meth.split route.split

text \<open>Every request leaves the disk alone or applies one store operation to its own repository.\<close>

lemma Routes_disk_cases:
  "gw_disk (fst (Routes sv ev rq repo t g)) = gw_disk g \<or>
   gw_disk (fst (Routes sv ev rq repo t g)) = fst (EnsureRepo (ev_store ev) repo (gw_disk g)) \<or>
   (\<exists>typ name. gw_disk (fst (Routes sv ev rq repo t g)) = fst (upload sv ev rq repo typ name (gw_disk g))) \<or>
   (\<exists>name. gw_disk (fst (Routes sv ev rq repo t g)) = fst (DeleteLock (ev_store ev) repo name (gw_disk g)))"
  using disk_post [of sv ev rq repo _ _ t g] disk_Delete [of sv ev repo _ _ t g] disk_CreateRepo [of ev repo g]
  by (simp add: Routes_def handlePost_def split: route_splits) blast

lemma serve_disk_cases:
  obtains (same) "gw_disk (fst (serve sv ev rq g)) = gw_disk g"
  | (ensure) "gw_disk (fst (serve sv ev rq g)) = fst (EnsureRepo (ev_store ev) (route_repo (rq_route rq)) (gw_disk g))"
  | (create) t n where
      "gw_disk (fst (serve sv ev rq g)) = fst (upload sv ev rq (route_repo (rq_route rq)) t n (gw_disk g))"
  | (delete) n where
      "gw_disk (fst (serve sv ev rq g)) = fst (DeleteLock (ev_store ev) (route_repo (rq_route rq)) n (gw_disk g))"
proof (cases rule: serve_cases [of sv rq g ev])
  case (handler t)
  then show thesis using Routes_disk_cases [of sv ev rq "route_repo (rq_route rq)" t g] that by metis
next
  case (refused rp)
  then show thesis using same by simp
qed

lemma serve_keeps_object:
  assumes "io_adds (ev_store ev)" "t \<noteq> ''locks''" "obj (gw_disk g) r t n = Some c"
  shows "obj (gw_disk (fst (serve sv ev rq g))) r t n = Some c"
  by (cases rule: serve_disk_cases [of sv ev rq g])
     (use assms in \<open>simp_all add: disk_store.create_keeps disk_store.delete_lock_only disk_store.ensure_keeps\<close>)

text \<open>Files outside a repository are untouched by the store operations on it.\<close>

lemma Create_elsewhere:
  assumes "io_quiet io" "\<not> under [repo] q" "q \<noteq> []"
  shows "get (files (fst (Create sha io repo typ name sz r d))) q = get (files d) q"
proof (cases "objectPath repo typ name")
  case (Inr p)
  then have p: "under [repo] p" "q \<noteq> p" using objectPath_under [OF Inr, of repo] assms(2) by auto
  have "under [repo] (butlast p @ [uploadTempPrefix @ io_tmp io])"
    using Inr by (auto elim!: objectPath_cases simp: under_def)
  then have t: "q \<noteq> butlast p @ [uploadTempPrefix @ io_tmp io]" using assms(2) by auto
  show ?thesis
    using p(2) t assms(1) Inr
    by (simp add: Create_def Let_def get_remove_tmp io_quiet_def commit_def case_prod_beta split: option.split)
qed (simp add: Create_def)

lemma DeleteLock_elsewhere:
  "\<not> under [repo] q \<Longrightarrow> get (files (fst (DeleteLock io repo name d))) q = get (files d) q"
  using objectPath_under [of repo "''locks''" name _ repo]
  by (auto simp: DeleteLock_def Let_def split: sum.splits option.splits)

section \<open>Properties of the gateway\<close>

text \<open>
  C1. The gateway is append-only: whatever requests are served, with whatever credentials, in
  whatever order, with whatever failures of the file system and with whatever concurrent uploads
  adding objects, an object that is stored and is not a lock keeps its content for ever.
\<close>

theorem gateway_append_only:
  assumes "\<forall>(ev, rq)\<in>set rqs. io_adds (ev_store ev)" "t \<noteq> ''locks''" "obj (gw_disk g) r t n = Some c"
  shows "obj (gw_disk (serve_all sv rqs g)) r t n = Some c"
  using assms
proof (induction rqs arbitrary: g)
  case (Cons e rqs)
  obtain ev rq where e: "e = (ev, rq)" by fastforce
  have "obj (gw_disk (fst (serve sv ev rq g))) r t n = Some c"
    using Cons.prems by (intro serve_keeps_object) (auto simp: e)
  with Cons show ?case by (simp add: serve_all_def e)
qed (simp add: serve_all_def)

text \<open>The node's registry as the gateway's.\<close>

definition local_ops :: "(string \<Rightarrow> string) \<Rightarrow> localRegistry registry" where
  "local_ops sha = \<lparr>rg_ResolveTarget = (\<lambda>repo secret r. Inr (ResolveTarget sha repo secret r)),
     rg_ReserveUsage = ReserveUsage, rg_ReleaseUsage = ReleaseUsage\<rparr>"

definition env_ok :: env where
  "env_ok = \<lparr>ev_stat = io_ok, ev_store = io_ok\<rparr>"

definition server1 :: "localRegistry server" where
  "server1 = New_server (local_ops (\<lambda>_. key32)) (\<lambda>s. take 1 s) 1000"

definition upload1 :: request where
  "upload1 = \<lparr>rq_method = POST, rq_route = ObjectRoute ''web1'' ''keys'' ''61'', rq_auth = Some (''web1'', ''s''),
     rq_Accept = [], rq_Range = None, rq_ContentLength = 2, rq_Body = \<lparr>rd_bytes = ''ab'', rd_err = None\<rparr>\<rparr>"

definition delete1 :: request where
  "delete1 = upload1\<lparr>rq_method := DELETE\<rparr>"

definition gateway0 :: "localRegistry gateway" where
  "gateway0 = \<lparr>gw_disk = \<lparr>files = [], dirs = {}\<rparr>, gw_reg = reg1\<rparr>"

lemma io_ok_adds [simp]: "io_adds io_ok" "io_quiet io_ok"
  by (simp_all add: io_adds_def io_quiet_def io_ok_def)

definition gateway1 :: "localRegistry gateway" where
  "gateway1 = \<lparr>gw_disk = \<lparr>files = [([''web1'', ''keys'', ''61''], \<lparr>content = ''ab'', mtime = 1\<rparr>)], dirs = {}\<rparr>, gw_reg = reg1\<rparr>"

theorem gateway_append_only_witness:
  "obj (gw_disk (serve_all server1 [(env_ok, delete1), (env_ok, upload1), (env_ok, delete1)] gateway1)) ''web1'' ''keys'' ''61'' = Some ''ab''"
proof -
  have "obj (gw_disk gateway1) ''web1'' ''keys'' ''61'' = Some ''ab''" by code_simp
  then show ?thesis by (intro gateway_append_only) (simp_all add: env_ok_def)
qed

text \<open>
  C4. Access is confined: a request that changes anything, or that is answered with anything
  but a refusal, presented the name of its repository and a secret that the registry resolves;
  and even then it changes no file outside the directory of that repository.
\<close>

theorem access_confined:
  assumes "io_quiet (ev_store ev)" "serve sv ev rq g = (g', rp)"
    "g' \<noteq> g \<or> rp_status rp \<notin> {400, 401, 405, 500}"
  shows "(\<exists>t. authorized sv rq g t) \<and>
    (\<forall>q. q \<noteq> [] \<longrightarrow> \<not> under [route_repo (rq_route rq)] q \<longrightarrow> get (files (gw_disk g')) q = get (files (gw_disk g)) q)"
proof
  show "\<exists>t. authorized sv rq g t"
    by (cases rule: serve_cases [of sv rq g ev]) (use assms in auto)
  have g': "g' = fst (serve sv ev rq g)" using assms(2) by simp
  show "\<forall>q. q \<noteq> [] \<longrightarrow> \<not> under [route_repo (rq_route rq)] q \<longrightarrow> get (files (gw_disk g')) q = get (files (gw_disk g)) q"
    unfolding g' by (cases rule: serve_disk_cases [of sv ev rq g])
      (use assms(1) in \<open>simp_all add: Create_elsewhere DeleteLock_elsewhere\<close>)
qed

theorem access_confined_witness:
  "authorized server1 upload1 gateway0 \<lparr>tg_id = 1, tg_quota = 100, tg_used = 10\<rparr> \<and>
   (\<exists>t. authorized server1 upload1 gateway0 t)"
proof
  have r: "ResolveTarget (\<lambda>_. key32) ''web1'' ''s'' reg1 = Some (1, 100, 10)" by code_simp
  have v: "validName ''web1''" by code_simp
  show a: "authorized server1 upload1 gateway0 \<lparr>tg_id = 1, tg_quota = 100, tg_used = 10\<rparr>"
    by (simp add: authorized_def r v server1_def New_server_def upload1_def gateway0_def local_ops_def routed_def)
  have s: "rp_status (snd (serve server1 env_ok upload1 gateway0)) = 200" by code_simp
  show "\<exists>t. authorized server1 upload1 gateway0 t"
    using access_confined [of env_ok server1 upload1 gateway0, OF _ surjective_pairing] s by (simp add: env_ok_def)
qed

text \<open>The object an upload refers to.\<close>

fun upload_ref :: "route \<Rightarrow> (string \<times> string) option" where
  "upload_ref (ObjectRoute _ typ name) = Some (typ, name)"
| "upload_ref (ConfigRoute _) = Some (configType, configType)"
| "upload_ref _ = None"

lemma maxBytesReader_ok:
  "rd_err (maxBytesReader n r) = None \<Longrightarrow> rd_bytes (maxBytesReader n r) = rd_bytes r \<and> int (length (rd_bytes r)) \<le> n"
  by (auto simp: maxBytesReader_def split: if_splits)

lemma post_failure_status: "rp_status (post_failure e) \<noteq> 200"
  by (auto simp: post_failure_def storeError_def http_error_def)

lemma objectPath_err: "objectPath repo typ name \<noteq> Inl ErrExistsIdentical"
  by (auto simp: objectPath_def repoDir_def)

lemma post_ok:
  assumes "post sv ev rq repo typ name t g = (g', rp)" "rp_status rp = 200" "rd_err (rq_Body rq) \<noteq> Some ErrExistsIdentical"
  shows "\<exists>c. obj (gw_disk g') repo typ name = Some c \<and>
    hex_encode (sv_sha sv c) = hex_encode (sv_sha sv (rd_bytes (rq_Body rq)))"
proof -
  let ?r = "maxBytesReader (rq_ContentLength rq) (rq_Body rq)"
  obtain g1 reserved where p: "post_upload sv ev rq repo typ name t reserved g1 = (g', rp)" and "gw_disk g1 = gw_disk g"
    using assms(1,2) by (auto simp: post_def Let_def http_error_def split: if_splits prod.splits sum.splits)
  then have d: "gw_disk g' = fst (upload sv ev rq repo typ name (gw_disk g1))"
    using disk_post_upload [of sv ev rq repo "typ" name t reserved g1] by simp
  have r: "rd_err ?r \<noteq> Some ErrExistsIdentical" using assms(3) by (simp add: maxBytesReader_def)
  consider "snd (upload sv ev rq repo typ name (gw_disk g1)) = None"
    | "snd (upload sv ev rq repo typ name (gw_disk g1)) = Some ErrExistsIdentical"
    using p assms(2) post_failure_status
    by (auto simp: post_upload_def Let_def split: prod.splits option.splits if_splits)
  then show ?thesis
  proof cases
    case 1
    then have "rd_err ?r = None" by (rule Create_ok)
    then show ?thesis using disk_store.create_stores [OF 1] maxBytesReader_ok d by auto
  next
    case 2
    then show ?thesis using Create_identical [OF 2 r objectPath_err] maxBytesReader_ok d by fastforce
  qed
qed

text \<open>
  C3. An acknowledged upload is stored: when the gateway answers an upload with 200, the
  store holds an object under that name whose digest is the digest of the uploaded bytes,
  whether this request stored it or it was there before, and whatever system calls failed.
\<close>

theorem upload_acknowledged_is_stored:
  assumes "serve sv ev rq g = (g', rp)" "rp_status rp = 200" "rq_method rq = POST"
    "upload_ref (rq_route rq) = Some (typ, name)" "rd_err (rq_Body rq) \<noteq> Some ErrExistsIdentical"
  shows "\<exists>c. obj (gw_disk g') (route_repo (rq_route rq)) typ name = Some c \<and>
    hex_encode (sv_sha sv c) = hex_encode (sv_sha sv (rd_bytes (rq_Body rq)))"
proof (cases rule: serve_cases [of sv rq g ev])
  case (handler t)
  then have "post sv ev rq (route_repo (rq_route rq)) typ name t g = (g', rp)"
    using assms(1-4) by (cases "rq_route rq") (auto simp: Routes_def handlePost_def http_error_def split: if_splits)
  then show ?thesis using assms(2,5) by (rule post_ok)
next
  case (refused rp')
  then show ?thesis using assms(1,2) by auto
qed

theorem upload_acknowledged_is_stored_witness:
  "\<exists>c. obj (gw_disk (fst (serve server1 env_ok upload1 gateway0))) ''web1'' ''keys'' ''61'' = Some c \<and>
    hex_encode (sv_sha server1 c) = ''61''"
proof -
  have s: "rp_status (snd (serve server1 env_ok upload1 gateway0)) = 200" by code_simp
  have h: "hex_encode (sv_sha server1 (rd_bytes (rq_Body upload1))) = ''61''" by code_simp
  show ?thesis
    using upload_acknowledged_is_stored [OF surjective_pairing s, of "''keys''" "''61''"] h by (simp add: upload1_def)
qed

section \<open>Accounting\<close>

text \<open>The bytes of the finished objects of a repository, as \<open>RepoUsage\<close> measures them.\<close>

definition stored_bytes :: "files \<Rightarrow> string \<Rightarrow> int" where
  "stored_bytes fs repo = (\<Sum>(p, f)\<leftarrow>stored_in [repo] fs. int (length (content f)))"

lemma RepoUsage_stored: "\<lbrakk>validName repo; \<not> io_read_err io\<rbrakk> \<Longrightarrow> RepoUsage io repo d = Inr (stored_bytes (files d) repo)"
  by (simp add: RepoUsage_def repoDir_def stored_bytes_def)

definition weight :: "string \<Rightarrow> path \<Rightarrow> diskfile \<Rightarrow> int" where
  "weight repo p f = (if under [repo] p \<and> \<not> isUploadTemp (last p) then int (length (content f)) else 0)"

lemma stored_bytes_Cons [simp]: "stored_bytes ((p, f) # fs) repo = weight repo p f + stored_bytes fs repo"
  by (simp add: stored_bytes_def stored_in_def weight_def)

lemma stored_bytes_Nil [simp]: "stored_bytes [] repo = 0"
  by (simp add: stored_bytes_def stored_in_def)

lemma stored_bytes_nonneg: "0 \<le> stored_bytes fs repo"
  by (induction fs) (auto simp: weight_def)

lemma stored_bytes_put_new: "get fs p = None \<Longrightarrow> stored_bytes (put p f fs) repo = weight repo p f + stored_bytes fs repo"
  by (induction fs) (auto split: if_splits)

lemma stored_bytes_del:
  "wf_map fs \<Longrightarrow> stored_bytes (del p fs) repo =
     stored_bytes fs repo - (case get fs p of None \<Rightarrow> 0 | Some f \<Rightarrow> weight repo p f)"
proof (induction fs)
  case (Cons e fs)
  obtain q f where e: "e = (q, f)" by (cases e)
  have "del q fs = fs" if "get fs q = None" using that by (simp add: delete_id map_of_eq_None_iff)
  with Cons show ?case by (auto simp: e)
qed simp

lemma weight_temp [simp]: "weight repo (q @ [uploadTempPrefix @ x]) f = 0"
  by (simp add: weight_def isUploadTemp_def is_prefix_def)

lemma stored_bytes_put_temp: "stored_bytes (put (q @ [uploadTempPrefix @ x]) f fs) repo = stored_bytes fs repo"
  by (induction fs) auto

lemma stored_bytes_del_temp: "stored_bytes (del (q @ [uploadTempPrefix @ x]) fs) repo = stored_bytes fs repo"
  by (induction fs) auto

lemma stored_bytes_remove_tmp [simp]:
  "stored_bytes (remove_tmp io (q @ [uploadTempPrefix @ x]) fs) repo = stored_bytes fs repo"
  by (simp add: remove_tmp_def stored_bytes_del_temp)

lemma weight_object: "objectPath repo typ name = Inr p \<Longrightarrow> weight repo' p f = (if repo' = repo then int (length (content f)) else 0)"
  by (auto simp: weight_def objectPath_under dest: objectPath_not_temp)

lemma stored_bytes_Create:
  assumes "io_quiet io"
  shows "stored_bytes (files (fst (Create sha io repo typ name sz r d))) repo' = stored_bytes (files d) repo' +
    (if snd (Create sha io repo typ name sz r d) = None \<and> repo' = repo then int (length (rd_bytes r)) else 0)"
proof (cases "objectPath repo typ name")
  case (Inr p)
  let ?tmp = "butlast p @ [uploadTempPrefix @ io_tmp io]"
  let ?w = "put ?tmp \<lparr>content = rd_bytes r, mtime = io_now io\<rparr> (files d)"
  have p: "p \<noteq> ?tmp" by (rule objectPath_not_tmp [OF Inr])
  have c: "stored_bytes (fst (commit sha io p ?tmp typ name (rd_bytes r) sz ?w)) repo' = stored_bytes (files d) repo' +
      (if snd (commit sha io p ?tmp typ name (rd_bytes r) sz ?w) = None \<and> repo' = repo then int (length (rd_bytes r)) else 0)"
    using p by (auto simp: commit_def stored_bytes_put_new stored_bytes_put_temp weight_object [OF Inr])
  show ?thesis
    using assms Inr c
    by (auto simp: Create_def Let_def io_quiet_def case_prod_beta stored_bytes_put_temp split: option.split)
qed (simp add: Create_def)

lemma stored_bytes_DeleteLock:
  assumes "wf_map (files d)"
  shows "stored_bytes (files (fst (DeleteLock io repo name d))) repo' = stored_bytes (files d) repo' -
    (case snd (DeleteLock io repo name d) of Inl _ \<Rightarrow> 0 | Inr freed \<Rightarrow> if repo' = repo then freed else 0)"
  using assms
  by (auto simp: DeleteLock_def Let_def stored_bytes_del weight_object split: sum.splits option.splits)

text \<open>The bytes that requests announce.\<close>

definition announces :: "request \<Rightarrow> int" where
  "announces rq = max 0 (rq_ContentLength rq)"

definition announced :: "(env \<times> request) list \<Rightarrow> int" where
  "announced rqs = sum_list (map (\<lambda>(ev, rq). announces rq) rqs)"

lemma announced_Cons [simp]: "announced ((ev, rq) # rqs) = announces rq + announced rqs"
  by (simp add: announced_def)

lemma announced_nonneg: "0 \<le> announced rqs"
  unfolding announced_def by (rule sum_list_nonneg) (auto simp: announces_def)

text \<open>
  A registry that keeps account: it knows the repository of every id, resolves a repository to
  its own id with the recorded usage, and grants no reservation that would leave the range of
  64-bit integers. As a repository without a quota is granted anything, it has \<open>room\<close> for a number of bytes, which
  reservations use up.
\<close>

locale accounted_registry = usage_registry reserve release inv used
  for reserve :: "int \<Rightarrow> int \<Rightarrow> 'r \<Rightarrow> 'r \<times> (reg_err + bool)"
    and release :: "int \<Rightarrow> int \<Rightarrow> 'r \<Rightarrow> 'r \<times> reg_err option"
    and inv :: "'r \<Rightarrow> bool"
    and used :: "'r \<Rightarrow> int \<Rightarrow> int option" +
  fixes resolve :: "string \<Rightarrow> string \<Rightarrow> 'r \<Rightarrow> reg_err + (int \<times> int \<times> int) option"
    and repo_of :: "'r \<Rightarrow> int \<Rightarrow> string option"
    and room :: "int \<Rightarrow> 'r \<Rightarrow> bool"
  assumes resolve_used: "\<lbrakk>inv r; resolve repo secret r = Inr (Some (i, q, u))\<rbrakk> \<Longrightarrow> used r i = Some u \<and> repo_of r i = Some repo"
    and repo_of_inj: "\<lbrakk>inv r; repo_of r i = Some n; repo_of r j = Some n\<rbrakk> \<Longrightarrow> i = j"
    and reserve_repo_of: "inv r \<Longrightarrow> repo_of (fst (reserve i d r)) = repo_of r"
    and release_repo_of: "inv r \<Longrightarrow> repo_of (fst (release i d r)) = repo_of r"
    and room_inv: "room m r \<Longrightarrow> inv r"
    and room_less: "\<lbrakk>room m r; k \<le> m\<rbrakk> \<Longrightarrow> room k r"
    and reserve_room: "\<lbrakk>room m r; 0 \<le> d; d \<le> m\<rbrakk> \<Longrightarrow> room (m - d) (fst (reserve i d r))"
    and release_room: "\<lbrakk>room m r; in_i64 d\<rbrakk> \<Longrightarrow> room m (fst (release i d r))"
    and used_range: "\<lbrakk>room m r; 0 \<le> m; used r i = Some u\<rbrakk> \<Longrightarrow> 0 \<le> u \<and> u < 2 ^ 63"
    and granted_range: "\<lbrakk>room m r; 0 \<le> d; d \<le> m; snd (reserve i d r) = Inr True; used r i = Some u\<rbrakk> \<Longrightarrow> u + d < 2 ^ 63"
begin

text \<open>The recorded usage of every target is at least what the store holds for it.\<close>

definition covers :: "files \<Rightarrow> 'r \<Rightarrow> bool" where
  "covers fs r \<longleftrightarrow> (\<forall>i repo u. repo_of r i = Some repo \<longrightarrow> used r i = Some u \<longrightarrow> stored_bytes fs repo \<le> u)"

lemma coversD: "\<lbrakk>covers fs r; repo_of r i = Some repo; used r i = Some u\<rbrakk> \<Longrightarrow> stored_bytes fs repo \<le> u"
  by (auto simp: covers_def)

definition ops :: "'r registry" where
  "ops = \<lparr>rg_ResolveTarget = resolve, rg_ReserveUsage = reserve, rg_ReleaseUsage = release\<rparr>"

definition sound :: "int \<Rightarrow> 'r gateway \<Rightarrow> bool" where
  "sound m g \<longleftrightarrow> wf_map (files (gw_disk g)) \<and> room m (gw_reg g) \<and> 0 \<le> m \<and> covers (files (gw_disk g)) (gw_reg g)"

lemma sound_less: "\<lbrakk>sound m g; 0 \<le> k; k \<le> m\<rbrakk> \<Longrightarrow> sound k g"
  using room_less by (auto simp: sound_def)

text \<open>A change of disk and registry is sound if what one repository gains is what its record gains at least.\<close>

lemma covers_change:
  assumes "inv r" "covers fs r" "repo_of r i = Some repo" "used r i = Some u"
    "repo_of r' = repo_of r" "\<And>j. j \<noteq> i \<Longrightarrow> used r' j = used r j" "used r' i = Some u'"
    "\<And>repo'. repo' \<noteq> repo \<Longrightarrow> stored_bytes fs' repo' \<le> stored_bytes fs repo'" "stored_bytes fs' repo - stored_bytes fs repo \<le> u' - u"
  shows "covers fs' r'"
  unfolding covers_def
proof (intro allI impI)
  fix j n v
  assume j: "repo_of r' j = Some n" "used r' j = Some v"
  show "stored_bytes fs' n \<le> v"
  proof (cases "j = i")
    case True
    then have "n = repo" "v = u'" using assms(3,5,7) j by auto
    then show ?thesis using assms(9) coversD [OF assms(2-4)] by simp
  next
    case False
    then have "n \<noteq> repo" using repo_of_inj [OF assms(1)] assms(3,5) j by metis
    then show ?thesis using False assms(5,6,8) coversD [OF assms(2), of j n v] j by fastforce
  qed
qed

lemma release_reserved:
  assumes "room m r" "snd (reserve i z r) = Inr True" "used r i = Some u" "0 \<le> z" "z \<le> m"
  shows "used (fst (release i z (fst (reserve i z r)))) = used r"
  using reserve_release [OF room_inv [OF assms(1)] assms(2,3) _ assms(4) granted_range [OF assms(1,4,5,2,3)]]
    used_range [OF assms(1) _ assms(3)] assms(4,5) by auto

lemma wf_map_Create: "\<lbrakk>wf_map (files d); io_quiet io\<rbrakk> \<Longrightarrow> wf_map (files (fst (Create sha io repo typ name sz b d)))"
  by (auto simp: Create_def commit_def Let_def io_quiet_def remove_tmp_def case_prod_beta split: sum.split option.split)

lemma post_upload_sound:
  assumes "room m r" "wf_map (files (gw_disk g))" "covers (files (gw_disk g)) r" "repo_of r (tg_id t) = Some repo" "used r (tg_id t) = Some u"
    "sv_registry sv = ops" "io_quiet (ev_store ev)" "0 \<le> rq_ContentLength rq" "rq_ContentLength rq \<le> m"
    "snd (reserve (tg_id t) (rq_ContentLength rq) r) = Inr True" "gw_reg g = fst (reserve (tg_id t) (rq_ContentLength rq) r)"
  shows "sound (m - rq_ContentLength rq) (fst (post_upload sv ev rq repo typ name t True g))"
proof -
  let ?z = "rq_ContentLength rq" and ?i = "tg_id t"
  let ?r1 = "fst (reserve ?i ?z r)" and ?r2 = "fst (release ?i ?z (fst (reserve ?i ?z r)))"
  let ?d = "fst (upload sv ev rq repo typ name (gw_disk g))" and ?e = "snd (upload sv ev rq repo typ name (gw_disk g))"
  note r = room_inv [OF assms(1)]
  have u: "0 \<le> u" "u + ?z < 2 ^ 63" using used_range [OF assms(1) _ assms(5)] granted_range [OF assms(1,8,9,10,5)] assms(8,9) by auto
  then have "in_i64 ?z" using assms(8) by (simp add: in_i64_def)
  then have room: "room (m - ?z) ?r1" "room (m - ?z) ?r2" using assms(1,8,9) by (simp_all add: reserve_room release_room)
  have u1: "used ?r1 ?i = Some (u + ?z)"
    using reserve_granted [OF r assms(10,5)] u assms(8) by (simp add: in_i64_def)
  have repo: "repo_of ?r1 = repo_of r" "repo_of ?r2 = repo_of r"
    using r room_inv [OF room(1)] by (simp_all add: reserve_repo_of release_repo_of)
  have len: "int (length (rd_bytes (maxBytesReader ?z (rq_Body rq)))) \<le> ?z"
    using assms(8) by (auto simp: maxBytesReader_def)
  note bytes = stored_bytes_Create [OF assms(7), of "sv_sha sv" repo "typ" name ?z "maxBytesReader ?z (rq_Body rq)" "gw_disk g"]
  have c1: "covers (files ?d) ?r1"
    by (rule covers_change [OF r assms(3,4,5) repo(1) _ u1]) (use len assms(8) r in \<open>auto simp: bytes reserve_others\<close>)
  have c2: "covers (files ?d) ?r2" if "?e \<noteq> None"
    by (rule covers_change [OF r assms(3,4,5) repo(2)])
      (use that assms(5) in \<open>auto simp: bytes release_reserved [OF assms(1,10,5,8,9)]\<close>)
  have "gw_reg (fst (post_upload sv ev rq repo typ name t True g)) \<in> (if ?e = None then {?r1} else {?r1, ?r2})"
    by (simp add: post_upload_def Let_def releaseUsage_def assms(6,11) ops_def split: prod.split option.split)
  with room c1 c2 assms(9) show ?thesis
    using wf_map_Create [OF assms(2,7)] by (auto simp: sound_def disk_post_upload split: if_splits)
qed

lemma post_sound:
  assumes "sound (m + announces rq) g" "0 \<le> m" "repo_of (gw_reg g) (tg_id t) = Some repo" "used (gw_reg g) (tg_id t) = Some u"
    "sv_registry sv = ops" "io_quiet (ev_store ev)"
  shows "sound m (fst (post sv ev rq repo typ name t g))"
proof (cases "rq_ContentLength rq < 0 \<or> sv_maxBlob sv < rq_ContentLength rq")
  case False
  let ?z = "rq_ContentLength rq" and ?i = "tg_id t"
  have z: "announces rq = ?z" "0 \<le> ?z" using False by (simp_all add: announces_def)
  have less: "sound m g" using sound_less [OF assms(1,2)] z by simp
  have g: "room (m + ?z) (gw_reg g)" "wf_map (files (gw_disk g))" "covers (files (gw_disk g)) (gw_reg g)"
    using assms(1) by (simp_all add: sound_def z)
  obtain r1 res where r: "reserve ?i ?z (gw_reg g) = (r1, res)" by fastforce
  show ?thesis
  proof (cases "res = Inr True")
    case True
    have "sound (m + ?z - ?z) (fst (post_upload sv ev rq repo typ name t True (g\<lparr>gw_reg := r1\<rparr>)))"
      by (rule post_upload_sound [OF g(1) _ _ assms(3-6)]) (use False r True g assms(2) in auto)
    then show ?thesis using False True r assms(5) by (simp add: post_def ops_def Let_def)
  next
    case refused: False
    then have r1: "r1 = gw_reg g" using reserve_refused [OF room_inv [OF g(1)], of ?i ?z] r by simp
    have p: "sound m (fst (post_upload sv ev rq repo typ name t False g))" if present: "objectPresent ev repo typ name g"
    proof -
      obtain p where "objectPath repo typ name = Inr p" "get (files (gw_disk g)) p \<noteq> None"
        using present by (auto simp: objectPresent_def Stat_def split: sum.splits option.splits if_splits)
      note same = Create_exists_same [OF this, of "sv_sha sv" "ev_store ev" ?z "maxBytesReader ?z (rq_Body rq)"]
      then show ?thesis using less by (auto simp: post_upload_def Let_def split: prod.split option.split)
    qed
    moreover have "res = Inr False \<or> (\<exists>e. res = Inl e)" using refused by (cases res) auto
    ultimately show ?thesis
      using False r r1 less assms(5) by (auto simp: post_def ops_def Let_def)
  qed
next
  case True
  then show ?thesis using sound_less [OF assms(1,2)] by (auto simp: post_def announces_def)
qed

lemma handleDelete_sound:
  assumes "sound m g" "repo_of (gw_reg g) (tg_id t) = Some repo" "used (gw_reg g) (tg_id t) = Some u" "sv_registry sv = ops"
  shows "sound m (fst (handleDelete sv ev repo typ name t g))"
proof -
  let ?i = "tg_id t"
  have g: "room m (gw_reg g)" "wf_map (files (gw_disk g))" "covers (files (gw_disk g)) (gw_reg g)" "0 \<le> m"
    using assms(1) by (simp_all add: sound_def)
  note inv = room_inv [OF g(1)]
  obtain d res where dl: "DeleteLock (ev_store ev) repo name (gw_disk g) = (d, res)" by fastforce
  have wf: "wf_map (files d)"
    using g(2) dl by (auto simp: DeleteLock_def Let_def split: sum.splits if_splits)
  note bytes = stored_bytes_DeleteLock [OF g(2), of "ev_store ev" repo name, unfolded dl fst_conv snd_conv]
  have same: "covers (files d) (gw_reg g)" if "\<And>repo'. stored_bytes (files d) repo' \<le> stored_bytes (files (gw_disk g)) repo'"
    using g(3) that by (meson covers_def order_trans)
  have rel: "covers (files d) (fst (release ?i f (gw_reg g))) \<and> room m (fst (release ?i f (gw_reg g)))" if f: "res = Inr f" "0 < f" for f
  proof -
    have "stored_bytes (files d) repo = stored_bytes (files (gw_disk g)) repo - f" using bytes [of repo] f by simp
    then have le: "f \<le> u" using coversD [OF g(3) assms(2,3)] stored_bytes_nonneg [of "files d" repo] by linarith
    have u: "0 \<le> u" "u < 2 ^ 63" using used_range [OF g(1,4) assms(3)] by auto
    have "used (fst (release ?i f (gw_reg g))) ?i = Some (u - f)"
      using release_used [OF inv assms(3), of f] u le f by (simp add: in_i64_def max_def)
    then have "covers (files d) (fst (release ?i f (gw_reg g)))"
      by (rule covers_change [OF inv g(3) assms(2,3) release_repo_of [OF inv], rotated]) (use bytes f inv in \<open>auto simp: release_others\<close>)
    moreover have "in_i64 f" using le u f by (simp add: in_i64_def)
    ultimately show ?thesis using release_room [OF g(1)] by blast
  qed
  have disk: "sound m (g\<lparr>gw_disk := d\<rparr>)" if "res = Inl e \<or> res = Inr f \<and> \<not> 0 < f" for e f
  proof -
    have "0 \<le> f" if "res = Inr f" for f
      using dl that by (auto simp: DeleteLock_def Let_def split: sum.splits if_splits option.splits)
    then show ?thesis using that wf g(1,4) bytes by (auto simp: sound_def intro!: same)
  qed
  show ?thesis
    using rel disk assms(1,4) wf g(1,4)
    by (auto simp: handleDelete_def dl Let_def releaseUsage_def ops_def sound_def split: sum.split)
qed

lemma handleCreateRepo_sound: "sound m g \<Longrightarrow> sound m (fst (handleCreateRepo ev repo g))"
proof -
  have "gw_reg (fst (handleCreateRepo ev repo g)) = gw_reg g"
    by (simp add: handleCreateRepo_def split: prod.split option.split)
  then show "sound m g \<Longrightarrow> ?thesis" by (simp add: sound_def disk_CreateRepo)
qed

lemma Routes_sound:
  assumes "sound (m + announces rq) g" "0 \<le> m" "repo_of (gw_reg g) (tg_id t) = Some repo" "used (gw_reg g) (tg_id t) = Some u"
    "sv_registry sv = ops" "io_quiet (ev_store ev)"
  shows "sound m (fst (Routes sv ev rq repo t g))"
proof -
  have "sound m g" using sound_less [OF assms(1,2)] by (simp add: announces_def)
  then show ?thesis
    using post_sound [OF assms] handleDelete_sound [OF _ assms(3-5)] handleCreateRepo_sound
    by (simp add: Routes_def handlePost_def split: route_splits)
qed

lemma serve_sound:
  assumes "sound (m + announces rq) g" "0 \<le> m" "sv_registry sv = ops" "io_quiet (ev_store ev)"
  shows "sound m (fst (serve sv ev rq g))"
proof (cases rule: serve_cases [of sv rq g ev])
  case (handler t)
  have "inv (gw_reg g)" using assms(1) room_inv unfolding sound_def by blast
  then have "used (gw_reg g) (tg_id t) = Some (tg_used t)" "repo_of (gw_reg g) (tg_id t) = Some (route_repo (rq_route rq))"
    using resolve_used [of "gw_reg g"] handler(1) assms(3) by (auto simp: authorized_def ops_def)
  then show ?thesis unfolding handler(2) using Routes_sound assms by blast
next
  case unauthorized: refused
  then show ?thesis using sound_less [OF assms(1,2)] by (simp add: announces_def)
qed

text \<open>The bytes that requests announce are all the room that is needed.\<close>

lemma serve_all_sound:
  assumes "sound (m + announced rqs) g" "0 \<le> m" "sv_registry sv = ops" "\<forall>(ev, rq)\<in>set rqs. io_quiet (ev_store ev)"
  shows "sound m (serve_all sv rqs g)"
  using assms
proof (induction rqs arbitrary: g)
  case (Cons e rqs)
  obtain ev rq where e: "e = (ev, rq)" by fastforce
  have "sound (m + announced rqs) (fst (serve sv ev rq g))"
    using Cons.prems announced_nonneg [of rqs] by (intro serve_sound) (auto simp: e add_ac)
  with Cons show ?case by (simp add: serve_all_def e)
qed (simp add: serve_all_def announced_def)

end

text \<open>
  What the accounts of a node start from, when \<open>m\<close> bytes are announced: recorded usages and quotas are non-negative 64-bit integers,
  and the usage of a target without a quota stays so with these bytes. (Where it does not, the addition wraps around.)
\<close>

definition account_fits :: "int \<Rightarrow> localTarget \<Rightarrow> bool" where
  "account_fits m t \<longleftrightarrow> 0 \<le> lt_used t \<and> in_i64 (lt_used t) \<and> in_i64 (lt_quota t) \<and> (0 < lt_quota t \<or> lt_used t + m < 2 ^ 63)"

definition accounts_fit :: "int \<Rightarrow> localRegistry \<Rightarrow> bool" where
  "accounts_fit m r \<longleftrightarrow> reg_inv r \<and> (\<forall>n t. get (byName r) n = Some t \<longrightarrow> account_fits m t)"

lemma account_fits_less: "\<lbrakk>account_fits m t; k \<le> m\<rbrakk> \<Longrightarrow> account_fits k t"
  by (auto simp: account_fits_def)

lemma accounts_fit_put:
  "\<lbrakk>accounts_fit m r; get (byName r) n = Some t; lt_id t' = lt_id t; account_fits k t'; k \<le> m\<rbrakk>
    \<Longrightarrow> accounts_fit k (r\<lparr>byName := put n t' (byName r)\<rparr>)"
  by (auto simp: accounts_fit_def intro!: reg_inv_put intro: account_fits_less)

lemma accounts_fit_less: "\<lbrakk>accounts_fit m r; k \<le> m\<rbrakk> \<Longrightarrow> accounts_fit k r"
  by (auto simp: accounts_fit_def intro: account_fits_less)

lemma granted_sum:
  assumes "0 < lt_quota t" "in_i64 (lt_quota t)" "0 \<le> d" "\<not> over_quota t d"
  shows "lt_used t + d \<le> lt_quota t"
  using assms in_i64_quota [of d "lt_quota t"] by (auto simp: over_quota_def)

lemma granted_fits:
  assumes "account_fits m t" "0 \<le> d" "d \<le> m" "\<not> over_quota t d"
  shows "lt_used t + d < 2 ^ 63"
proof (cases "0 < lt_quota t")
  case True
  then have "lt_used t + d \<le> lt_quota t" using assms granted_sum by (auto simp: account_fits_def)
  then show ?thesis using assms(1) by (auto simp: account_fits_def in_i64_def)
qed (use assms in \<open>auto simp: account_fits_def\<close>)

lemma accounts_fit_Reserve:
  assumes q: "accounts_fit m r" and d: "0 \<le> d" "d \<le> m"
  shows "accounts_fit (m - d) (fst (ReserveUsage i d r))"
proof -
  have r: "reg_inv r" using q by (simp add: accounts_fit_def)
  obtain r' res where s: "ReserveUsage i d r = (r', res)" by fastforce
  from s r show ?thesis
  proof (cases rule: ReserveUsage_cases)
    case (granted n t)
    then have t: "account_fits m t" using q by (auto simp: accounts_fit_def)
    from granted_fits [OF this d] granted(8) have fits: "lt_used t + d < 2 ^ 63" by blast
    then have "in_i64 (lt_used t + d)" using t d(1) by (auto simp: in_i64_def account_fits_def)
    then show ?thesis using t d fits
      by (auto simp: s granted(9) account_fits_def intro!: accounts_fit_put [OF q granted(4)])
  qed (use accounts_fit_less [OF q] d s in simp)
qed

lemma accounts_fit_Release:
  assumes q: "accounts_fit m r" and d: "in_i64 d"
  shows "accounts_fit m (fst (ReleaseUsage i d r))"
proof -
  have r: "reg_inv r" using q by (simp add: accounts_fit_def)
  obtain r' res where s: "ReleaseUsage i d r = (r', res)" by fastforce
  from s r show ?thesis
  proof (cases rule: ReleaseUsage_cases)
    case (released n t)
    then have t: "account_fits m t" using q by (auto simp: accounts_fit_def)
    then have "i64 (lt_used t - d) = lt_used t - d" using d released by (intro i64_id) (auto simp: account_fits_def in_i64_def)
    then show ?thesis using t released
      by (auto simp: s released(6) account_fits_def in_i64_def intro!: accounts_fit_put [OF q released(4)])
  qed (use q s in simp)
qed

lemma used_of_fits: "\<lbrakk>accounts_fit m r; used_of r i = Some u\<rbrakk> \<Longrightarrow> 0 \<le> u \<and> in_i64 u"
  by (auto simp: accounts_fit_def account_fits_def used_of_def split: option.splits if_splits)

interpretation local_accounts: accounted_registry ReserveUsage ReleaseUsage reg_inv used_of
  "\<lambda>repo secret r. Inr (ResolveTarget sha repo secret r)" "\<lambda>r. get (byID r)" accounts_fit for sha
proof
  fix r i d u j q n repo secret m k
  show "(Inr (ResolveTarget sha repo secret r) :: reg_err + _) = Inr (Some (i, q, u)) \<Longrightarrow> used_of r i = Some u \<and> get (byID r) i = Some repo"
    if "reg_inv r"
    using that by (auto simp: ResolveTarget_def used_of_def reg_inv_def split: option.splits if_splits)
  show "\<lbrakk>reg_inv r; get (byID r) i = Some n; get (byID r) j = Some n\<rbrakk> \<Longrightarrow> i = j"
    by (auto simp: reg_inv_def) (metis option.inject)
  show "get (byID (fst (ReserveUsage i d r))) = get (byID r)"
    by (simp add: ReserveUsage_def split: option.split)
  show "get (byID (fst (ReleaseUsage i d r))) = get (byID r)"
    by (simp add: ReleaseUsage_def Let_def split: option.split)
  assume fit: "accounts_fit m r"
  then show r: "reg_inv r" by (simp add: accounts_fit_def)
  show "k \<le> m \<Longrightarrow> accounts_fit k r" using fit by (rule accounts_fit_less)
  show "\<lbrakk>0 \<le> d; d \<le> m\<rbrakk> \<Longrightarrow> accounts_fit (m - d) (fst (ReserveUsage i d r))" using fit by (rule accounts_fit_Reserve)
  show "in_i64 d \<Longrightarrow> accounts_fit m (fst (ReleaseUsage i d r))" using fit by (rule accounts_fit_Release)
  show "used_of r i = Some u \<Longrightarrow> 0 \<le> u \<and> u < 2 ^ 63"
    using used_of_fits [OF fit] by (auto simp: in_i64_def)
  show "\<lbrakk>0 \<le> d; d \<le> m; snd (ReserveUsage i d r) = Inr True; used_of r i = Some u\<rbrakk> \<Longrightarrow> u + d < 2 ^ 63"
  proof -
    assume a: "0 \<le> d" "d \<le> m" "snd (ReserveUsage i d r) = Inr True" "used_of r i = Some u"
    obtain r' res where s: "ReserveUsage i d r = (r', res)" by fastforce
    from s r show "u + d < 2 ^ 63"
    proof (cases rule: ReserveUsage_cases)
      case refused
      then show ?thesis using a s used_of_fits [OF fit a(4)] by (simp add: in_i64_def)
    next
      case (granted x t)
      then have "account_fits m t" "u = lt_used t"
        using fit a(4) used_of_Some [OF r granted(4)] by (auto simp: accounts_fit_def)
      then show ?thesis using granted_fits [of m t d] granted(8) a(1,2) by simp
    qed
  qed
qed

text \<open>
  C2. The accounts cover the store: if the recorded usage of every measured repository is at
  least what its directory holds, then this is so after any
  sequence of requests, successful or not and whatever system calls fail: a reservation is only
  given back when nothing was stored, and a lock gives back what it took. So the measured usage
  of a repository that stays within its quota never exceeds the quota. For a repository without a quota the recorded usage and all
  bytes that the requests announce must be below \<open>2^63\<close> together, as their addition is not checked.
\<close>

theorem usage_covers_store:
  assumes "accounts_fit (announced rqs) (gw_reg g)" "wf_map (files (gw_disk g))"
    "\<forall>n t. get (byName (gw_reg g)) n = Some t \<and> lt_ready t \<longrightarrow> stored_bytes (files (gw_disk g)) n \<le> lt_used t"
    "\<forall>(ev, rq)\<in>set rqs. io_quiet (ev_store ev)"
    "g' = serve_all (New_server (local_ops sha) digest maxBlob) rqs g"
    "get (byName (gw_reg g')) n = Some t" "lt_ready t"
  shows "stored_bytes (files (gw_disk g')) n \<le> lt_used t \<and> 0 \<le> lt_used t"
proof -
  let ?sv = "New_server (local_ops sha) digest maxBlob" and ?m = "announced rqs"
  have ops: "sv_registry ?sv = local_accounts.ops sha"
    by (simp add: New_server_def local_ops_def local_accounts.ops_def)
  have r: "reg_inv (gw_reg g)" using assms(1) by (simp add: accounts_fit_def)
  have "local_accounts.sound (0 + ?m) g"
    unfolding local_accounts.sound_def local_accounts.covers_def
    using assms(1-3) r announced_nonneg [of rqs] by (auto simp: used_of_def split: option.splits if_splits)
  then have s: "local_accounts.sound 0 g'"
    using local_accounts.serve_all_sound [OF _ _ ops assms(4), of 0] assms(5) by simp
  then have "accounts_fit 0 (gw_reg g')" "local_accounts.covers (files (gw_disk g')) (gw_reg g')"
    by (simp_all add: local_accounts.sound_def)
  moreover from this(1) have "reg_inv (gw_reg g')" by (simp add: accounts_fit_def)
  moreover from this assms(6,7) have "used_of (gw_reg g') (lt_id t) = Some (lt_used t)" "get (byID (gw_reg g')) (lt_id t) = Some n"
    by (auto simp: used_of_Some reg_inv_def)
  ultimately show ?thesis using used_of_fits [of 0 "gw_reg g'" "lt_id t"] local_accounts.coversD by blast
qed

text \<open>The repository of the example with its quota and without one.\<close>

definition unlimited0 :: "localRegistry gateway" where
  "unlimited0 = gateway0\<lparr>gw_reg := (gw_reg gateway0)\<lparr>byName := map (\<lambda>(n, t). (n, t\<lparr>lt_quota := 0\<rparr>)) (byName (gw_reg gateway0))\<rparr>\<rparr>"

theorem usage_covers_store_witness:
  "(\<exists>t. get (byName (gw_reg (serve_all server1 [(env_ok, upload1), (env_ok, delete1)] gateway0))) ''web1'' = Some t \<and>
     lt_used t = 12 \<and> stored_bytes (files (gw_disk (serve_all server1 [(env_ok, upload1), (env_ok, delete1)] gateway0))) ''web1'' \<le> 12) \<and>
   (\<exists>t. get (byName (gw_reg (serve_all server1 [(env_ok, upload1), (env_ok, delete1)] unlimited0))) ''web1'' = Some t \<and> lt_quota t = 0 \<and>
     lt_used t = 12 \<and> stored_bytes (files (gw_disk (serve_all server1 [(env_ok, upload1), (env_ok, delete1)] unlimited0))) ''web1'' \<le> 12)"
proof
  let ?rqs = "[(env_ok, upload1), (env_ok, delete1)]"
  have n: "announced ?rqs = 4" by code_simp
  {
    let ?g = "serve_all server1 ?rqs gateway0"
    let ?t = "\<lparr>lt_id = 1, lt_hash = key32, lt_quota = 100, lt_used = 12, lt_revoked = False, lt_ready = True, lt_dirty = True\<rparr>"
    have g: "get (byName (gw_reg ?g)) ''web1'' = Some ?t" by code_simp
    have b: "byName reg1 = [(''web1'', \<lparr>lt_id = 1, lt_hash = key32, lt_quota = 100, lt_used = 10, lt_revoked = False, lt_ready = True, lt_dirty = True\<rparr>)]"
      by code_simp
    have q: "accounts_fit (announced ?rqs) (gw_reg gateway0)"
      unfolding n using reg1_facts(1) by (auto simp: gateway0_def accounts_fit_def account_fits_def b in_i64_def split: if_splits)
    have "stored_bytes (files (gw_disk ?g)) ''web1'' \<le> lt_used ?t \<and> 0 \<le> lt_used ?t"
      by (rule usage_covers_store [OF q, where sha = "\<lambda>_. key32" and digest = "\<lambda>s. take 1 s" and maxBlob = 1000 and n = "''web1''"])
         (use g in \<open>auto simp: gateway0_def b env_ok_def server1_def split: if_splits\<close>)
    then show "\<exists>t. get (byName (gw_reg ?g)) ''web1'' = Some t \<and> lt_used t = 12 \<and> stored_bytes (files (gw_disk ?g)) ''web1'' \<le> 12"
      using g by simp
  }
  let ?g = "serve_all server1 ?rqs unlimited0"
  let ?t = "\<lparr>lt_id = 1, lt_hash = key32, lt_quota = 0, lt_used = 12, lt_revoked = False, lt_ready = True, lt_dirty = True\<rparr>"
  have g: "get (byName (gw_reg ?g)) ''web1'' = Some ?t" by code_simp
  have b: "gw_reg unlimited0 = \<lparr>byName = [(''web1'', \<lparr>lt_id = 1, lt_hash = key32, lt_quota = 0, lt_used = 10, lt_revoked = False, lt_ready = True, lt_dirty = True\<rparr>)],
      byID = [(1, ''web1'')], nextID = 2\<rparr>"
    by code_simp
  have q: "accounts_fit (announced ?rqs) (gw_reg unlimited0)"
    unfolding n b by (auto simp: accounts_fit_def account_fits_def reg_inv_def in_i64_def wf_map_def split: if_splits)
  have "stored_bytes (files (gw_disk ?g)) ''web1'' \<le> lt_used ?t \<and> 0 \<le> lt_used ?t"
    by (rule usage_covers_store [OF q, where sha = "\<lambda>_. key32" and digest = "\<lambda>s. take 1 s" and maxBlob = 1000 and n = "''web1''"])
       (use g in \<open>auto simp: b env_ok_def server1_def split: if_splits\<close>, simp_all add: unlimited0_def gateway0_def)
  then show "\<exists>t. get (byName (gw_reg ?g)) ''web1'' = Some t \<and> lt_quota t = 0 \<and> lt_used t = 12 \<and> stored_bytes (files (gw_disk ?g)) ''web1'' \<le> 12"
    using g by simp
qed

end
