(* ===== verification/Wg_Tunnel.thy ===== *)
theory Wg_Tunnel
  imports Node_Registry Netip
begin

text \<open>
  Keys and peers of the WireGuard tunnel (\<open>pkg/wgtunnel\<close>): the base64 and hexadecimal forms of
  a key, the configuration text of a peer and the parser of the device's status text. A key is
  the list of its 32 bytes. The device itself (package wireguard) is not part of the model.
\<close>

section \<open>Base64\<close>

definition b64c :: "int \<Rightarrow> char" where
  "b64c v = (if v < 26 then char_of (65 + v) else if v < 52 then char_of (71 + v)
     else if v < 62 then char_of (v - 4) else if v = 62 then CHR ''+'' else CHR ''/'')"

definition b64v :: "char \<Rightarrow> int option" where
  "b64v c = (let b = byte c in
     if 65 \<le> b \<and> b \<le> 90 then Some (b - 65)
     else if 97 \<le> b \<and> b \<le> 122 then Some (b - 71)
     else if 48 \<le> b \<and> b \<le> 57 then Some (b + 4)
     else if c = CHR ''+'' then Some 62
     else if c = CHR ''/'' then Some 63
     else None)"

definition pad :: char where
  "pad = CHR ''=''"

fun b64_encode :: "string \<Rightarrow> string" where
  "b64_encode [] = []"
| "b64_encode [a] = [b64c (byte a div 4), b64c (byte a mod 4 * 16), pad, pad]"
| "b64_encode [a, b] =
     [b64c (byte a div 4), b64c (byte a mod 4 * 16 + byte b div 16), b64c (byte b mod 16 * 4), pad]"
| "b64_encode (a # b # c # s) =
     b64c (byte a div 4) # b64c (byte a mod 4 * 16 + byte b div 16) #
     b64c (byte b mod 16 * 4 + byte c div 64) # b64c (byte c mod 64) # b64_encode s"

text \<open>
  \<open>StdEncoding.DecodeString\<close>: line breaks are skipped, padding is required at the end and only
  there, and the unused bits of the last group are ignored.
\<close>

fun b64_groups :: "string \<Rightarrow> string option" where
  "b64_groups [] = Some []"
| "b64_groups (a # b # c # d # s) =
     (case (b64v a, b64v b) of
        (Some w, Some x) \<Rightarrow>
          if c = pad then (if d = pad \<and> s = [] then Some [char_of (w * 4 + x div 16)] else None)
          else (case b64v c of
            None \<Rightarrow> None
          | Some y \<Rightarrow>
              if d = pad then (if s = [] then Some [char_of (w * 4 + x div 16), char_of (x mod 16 * 16 + y div 4)] else None)
              else (case (b64v d, b64_groups s) of
                (Some z, Some r) \<Rightarrow>
                  Some (char_of (w * 4 + x div 16) # char_of (x mod 16 * 16 + y div 4) # char_of (y mod 4 * 64 + z) # r)
              | _ \<Rightarrow> None))
      | _ \<Rightarrow> None)"
| "b64_groups _ = None"

definition b64_decode :: "string \<Rightarrow> string option" where
  "b64_decode s = b64_groups (filter (\<lambda>c. byte c \<noteq> 10 \<and> byte c \<noteq> 13) s)"

section \<open>Keys\<close>

type_synonym wgkey = string

definition ParseKey :: "string \<Rightarrow> wgkey option" where
  "ParseKey s = (case b64_decode s of None \<Rightarrow> None | Some raw \<Rightarrow> if length raw \<noteq> 32 then None else Some raw)"

definition KeyFromBytes :: "string \<Rightarrow> wgkey option" where
  "KeyFromBytes raw = (if length raw \<noteq> 32 then None else Some raw)"

definition key_String :: "wgkey \<Rightarrow> string" where
  "key_String k = b64_encode k"

definition key_IsZero :: "wgkey \<Rightarrow> bool" where
  "key_IsZero k \<longleftrightarrow> k = replicate 32 (CHR 0x00)"

definition parseHexKey :: "string \<Rightarrow> wgkey option" where
  "parseHexKey s = (case hex_decode s of None \<Rightarrow> None | Some raw \<Rightarrow> if length raw \<noteq> 32 then None else Some raw)"

section \<open>Peers\<close>

record peer =
  pe_PublicKey :: wgkey
  pe_AllowedIPs :: "pfx list"
  pe_Endpoint :: string
  pe_PersistentKeepalive :: int

text \<open>The configuration text of a peer; \<open>resolve\<close> is the resolver of endpoints.\<close>

definition line :: "string \<Rightarrow> string" where
  "line s = s @ [CHR 0x0A]"

definition peerIPC :: "(string \<Rightarrow> string option) \<Rightarrow> peer \<Rightarrow> string option" where
  "peerIPC resolve p =
     (if key_IsZero (pe_PublicKey p) then None
      else (let head = line (''public_key='' @ hex_encode (pe_PublicKey p)) @ line ''replace_allowed_ips=true'' @
                concat (map (\<lambda>x. line (''allowed_ip='' @ pfx_String x)) (pe_AllowedIPs p));
              keep = (if 0 < pe_PersistentKeepalive p
                then line (''persistent_keepalive_interval='' @ show_int (pe_PersistentKeepalive p)) else [])
            in if pe_Endpoint p \<noteq> [] then
                 (case resolve (pe_Endpoint p) of
                    None \<Rightarrow> None
                  | Some e \<Rightarrow> Some (head @ line (''endpoint='' @ e) @ keep))
               else Some (head @ keep)))"

section \<open>The status text\<close>

record peerStats =
  ps_PublicKey :: wgkey
  ps_Endpoint :: string
  ps_LastHandshake :: time
  ps_RxBytes :: int
  ps_TxBytes :: int

text \<open>The state of the loop: finished peers, the current one, and the two parts of the handshake time.\<close>

record psloop =
  pl_out :: "peerStats list"
  pl_current :: "peerStats option"
  pl_sec :: int
  pl_nsec :: int

text \<open>\<open>strconv.ParseInt\<close> with its error dropped: 0 for malformed text, the nearest bound out of range.\<close>

definition parse_int :: "string \<Rightarrow> int" where
  "parse_int s = (let neg = is_prefix ''-'' s;
       ds = (if neg \<or> is_prefix ''+'' s then tl s else s);
       n = (if neg then - dec_val 0 ds else dec_val 0 ds)
     in if ds = [] \<or> \<not> list_all is_digit ds then 0 else max (- (2 ^ 63)) (min (2 ^ 63 - 1) n))"

definition ps_flush :: "psloop \<Rightarrow> psloop" where
  "ps_flush st = (case pl_current st of
     None \<Rightarrow> st
   | Some c \<Rightarrow>
       (let c' = (if 0 < pl_sec st \<or> 0 < pl_nsec st
             then c\<lparr>ps_LastHandshake := unix_epoch + pl_sec st * 1000000000 + pl_nsec st\<rparr> else c)
        in st\<lparr>pl_out := pl_out st @ [c'], pl_current := None, pl_sec := 0, pl_nsec := 0\<rparr>))"

definition ps_line :: "string \<Rightarrow> psloop \<Rightarrow> psloop option" where
  "ps_line l st =
     (case cut_at (CHR ''='') (trim_space l) of
        (_, None) \<Rightarrow> Some st
      | (key, Some val) \<Rightarrow>
          if key = ''public_key'' then
            (case parseHexKey val of
               None \<Rightarrow> None
             | Some k \<Rightarrow> Some ((ps_flush st)\<lparr>pl_current := Some \<lparr>ps_PublicKey = k, ps_Endpoint = [],
                 ps_LastHandshake = zero_time, ps_RxBytes = 0, ps_TxBytes = 0\<rparr>\<rparr>))
          else if key = ''endpoint'' then Some (st\<lparr>pl_current := map_option (\<lambda>c. c\<lparr>ps_Endpoint := val\<rparr>) (pl_current st)\<rparr>)
          else if key = ''last_handshake_time_sec'' then Some (st\<lparr>pl_sec := parse_int val\<rparr>)
          else if key = ''last_handshake_time_nsec'' then Some (st\<lparr>pl_nsec := parse_int val\<rparr>)
          else if key = ''rx_bytes'' then Some (st\<lparr>pl_current := map_option (\<lambda>c. c\<lparr>ps_RxBytes := parse_int val\<rparr>) (pl_current st)\<rparr>)
          else if key = ''tx_bytes'' then Some (st\<lparr>pl_current := map_option (\<lambda>c. c\<lparr>ps_TxBytes := parse_int val\<rparr>) (pl_current st)\<rparr>)
          else Some st)"

fun ps_lines :: "string list \<Rightarrow> psloop \<Rightarrow> psloop option" where
  "ps_lines [] st = Some st"
| "ps_lines (l # ls) st = (case ps_line l st of None \<Rightarrow> None | Some st' \<Rightarrow> ps_lines ls st')"

definition PeerStats :: "string \<Rightarrow> peerStats list option" where
  "PeerStats raw =
     (case ps_lines (split_on (CHR 0x0A) raw) \<lparr>pl_out = [], pl_current = None, pl_sec = 0, pl_nsec = 0\<rparr> of
        None \<Rightarrow> None
      | Some st \<Rightarrow> Some (pl_out (ps_flush st)))"

section \<open>Round trips\<close>

lemma byte_range [simp]: "0 \<le> byte c" "byte c < 256"
  using pos_mod_sign [of 256 "byte c"] pos_mod_bound [of 256 "byte c"] by (simp_all add: byte_def)

lemma char_of_byte [simp]: "char_of (byte c) = c"
  by (simp add: byte_def)

lemma b64_digits: "\<forall>v\<in>set [0..63]. b64v (b64c v) = Some v \<and> b64c v \<noteq> pad \<and> byte (b64c v) \<noteq> 10 \<and> byte (b64c v) \<noteq> 13"
  by code_simp

lemma b64v_b64c [simp]: "\<lbrakk>0 \<le> v; v < 64\<rbrakk> \<Longrightarrow> b64v (b64c v) = Some v"
  and b64c_pad [simp]: "\<lbrakk>0 \<le> v; v < 64\<rbrakk> \<Longrightarrow> b64c v \<noteq> pad"
  and b64c_break: "\<lbrakk>0 \<le> v; v < 64\<rbrakk> \<Longrightarrow> byte (b64c v) \<noteq> 10 \<and> byte (b64c v) \<noteq> 13"
  using b64_digits by auto

lemma byte_table:
  "\<forall>b\<in>set [0..255]. 0 \<le> b div 4 \<and> b div 4 < 64 \<and> 0 \<le> b div 16 \<and> b div 16 < 16 \<and> 0 \<le> b div 64 \<and> b div 64 < (4 :: int) \<and>
     b div 16 div 16 = 0 \<and> b div 64 div 4 = 0 \<and> b div 16 mod 16 = b div 16 \<and> b div 64 mod 4 = b div 64 \<and>
     b div 16 * 16 + b mod 16 = b \<and> b div 64 * 64 + b mod 64 = b \<and>
     0 \<le> b mod 4 \<and> b mod 4 \<le> 3 \<and> 0 \<le> b mod 16 \<and> b mod 16 \<le> 15 \<and> 0 \<le> b mod 64 \<and> b mod 64 < 64"
  by code_simp

lemma byte_in_table: "byte c \<in> set [0..255]"
proof -
  have "byte c < 256" by (rule byte_range)
  then have "byte c \<le> 255" by linarith
  then show ?thesis by simp
qed

lemma byte_div:
  "0 \<le> byte c div 4" "byte c div 4 < 64" "0 \<le> byte c div 16" "byte c div 16 < 16" "0 \<le> byte c div 64" "byte c div 64 < 4"
  "0 \<le> byte c mod 4" "byte c mod 4 \<le> 3" "0 \<le> byte c mod 16" "byte c mod 16 \<le> 15" "0 \<le> byte c mod 64" "byte c mod 64 < 64"
  using bspec [OF byte_table byte_in_table] by blast+

lemma regroup:
  "byte b div 16 div 16 = 0" "byte b div 64 div 4 = 0" "byte b div 16 mod 16 = byte b div 16" "byte b div 64 mod 4 = byte b div 64"
  "byte b div 16 * 16 + byte b mod 16 = byte b" "byte b div 64 * 64 + byte b mod 64 = byte b"
  using bspec [OF byte_table byte_in_table] by blast+

lemma six_bits_sum: "\<lbrakk>0 \<le> x; x \<le> 3; 0 \<le> y; y < 16\<rbrakk> \<Longrightarrow> 0 \<le> x * 16 + y \<and> x * 16 + y < (64 :: int)"
  "\<lbrakk>0 \<le> x; x \<le> 15; 0 \<le> y; y < 4\<rbrakk> \<Longrightarrow> 0 \<le> x * 4 + y \<and> x * 4 + y < (64 :: int)"
  by auto

lemma six_bits:
  "0 \<le> byte a mod 4 * 16 + byte b div 16" "byte a mod 4 * 16 + byte b div 16 < 64"
  "0 \<le> byte b mod 16 * 4 + byte c div 64" "byte b mod 16 * 4 + byte c div 64 < 64"
  "0 \<le> byte a mod 4 * 16" "byte a mod 4 * 16 < 64" "0 \<le> byte b mod 16 * 4" "byte b mod 16 * 4 < 64"
  using six_bits_sum(1) [of "byte a mod 4" "byte b div 16", OF byte_div(7,8,3,4)]
    six_bits_sum(2) [of "byte b mod 16" "byte c div 64", OF byte_div(9,10,5,6)]
    six_bits_sum(1) [of "byte a mod 4" 0, OF byte_div(7,8)] six_bits_sum(2) [of "byte b mod 16" 0, OF byte_div(9,10)]
  by simp_all

lemma b64_groups_encode: "b64_groups (b64_encode s) = Some s"
  by (induction s rule: b64_encode.induct) (simp_all add: byte_div six_bits regroup)

lemma b64_encode_no_breaks: "filter (\<lambda>c. byte c \<noteq> 10 \<and> byte c \<noteq> 13) (b64_encode s) = b64_encode s"
proof -
  have "byte pad = 61" by code_simp
  then show ?thesis by (induction s rule: b64_encode.induct) (simp_all add: b64c_break six_bits byte_div)
qed

lemma hex_digits: "\<forall>v\<in>set [0..15]. unhex (hexc v) = Some v"
  by code_simp

lemma hex_roundtrip: "hex_decode (hex_encode s) = Some s"
proof (induction s)
  case (Cons c s)
  have "0 \<le> byte c div 16" "byte c div 16 < 16" "0 \<le> byte c mod 16" "byte c mod 16 < 16"
    using byte_div [of c] by auto
  then have "unhex (hexc (byte c div 16)) = Some (byte c div 16)" "unhex (hexc (byte c mod 16)) = Some (byte c mod 16)"
    using hex_digits by auto
  with Cons show ?case by (simp add: hex_encode_def)
qed (simp add: hex_encode_def)

text \<open>
  A key survives its two text forms: what \<open>String\<close> writes, \<open>ParseKey\<close> reads back, also
  with line breaks anywhere in the text, and the hexadecimal form in the device's
  configuration is read back by the parser of its status text.
\<close>

lemma key_roundtrip:
  assumes "length k = 32" "filter (\<lambda>c. byte c \<noteq> 10 \<and> byte c \<noteq> 13) s = key_String k"
  shows "ParseKey s = Some k \<and> parseHexKey (hex_encode k) = Some k \<and> KeyFromBytes k = Some k"
proof -
  have "b64_decode s = Some k"
    using assms(2) by (simp add: b64_decode_def key_String_def b64_groups_encode)
  with assms(1) show ?thesis by (simp add: ParseKey_def parseHexKey_def KeyFromBytes_def hex_roundtrip)
qed

end
