(* ===== verification/Backup_Node.thy ===== *)
theory Backup_Node
  imports Rest_Server Wg_Tunnel
begin

text \<open>
  The role of a backup node (\<open>internal/agent/backupnode/manager.go\<close>): the control loop that
  fetches its configuration, starts and stops the storage endpoint, reconciles targets and
  tunnel peers, remembers which credentials a repository was bound to, and reports usage. The
  registry is the one of \<open>Node_Registry\<close>, the store is the disk of \<open>Blob_Store\<close>. Network
  and device calls take their outcome from an environment record, so every error branch is
  in the model; texts of errors that other packages produce are values of that record.
\<close>

section \<open>Repository bindings\<close>

text \<open>What \<open>os.ReadFile\<close> and \<open>json.Unmarshal\<close> find in the bindings file.\<close>

datatype bfile = Missing | Unreadable | Garbled | Null | Bound "(string, string) gomap"

record repositoryBindings =
  rb_bound :: "(string, string) gomap"
  rb_warnings :: "(string, string) gomap"

definition repositoryFingerprint :: "(string \<Rightarrow> string) \<Rightarrow> string \<Rightarrow> string \<Rightarrow> string" where
  "repositoryFingerprint sha name secretHash =
     hex_encode (sha (''servermonitor-backup-repository-binding'' @ [CHR 0x00] @ name @ [CHR 0x00] @ secretHash))"

text \<open>The file after \<open>save\<close>: the temporary file replaces it, or nothing happens.\<close>

definition save :: "bool \<Rightarrow> repositoryBindings \<Rightarrow> bfile \<Rightarrow> bfile" where
  "save failed b f = (if failed then f else Bound (rb_bound b))"

definition adopt ::
  "(string \<Rightarrow> string) \<Rightarrow> bool \<Rightarrow> nodeTargetInfo list \<Rightarrow> repositoryBindings \<Rightarrow> bfile \<Rightarrow> repositoryBindings \<times> bfile" where
  "adopt sha failed configured b f =
     (let b' = b\<lparr>rb_bound := fold (\<lambda>t. put (ti_Name t) (repositoryFingerprint sha (ti_Name t) (ti_SecretHash t))) configured []\<rparr>
      in (b', save failed b' f))"

definition loadRepositoryBindings ::
  "(string \<Rightarrow> string) \<Rightarrow> bool \<Rightarrow> nodeTargetInfo list \<Rightarrow> bfile \<Rightarrow> repositoryBindings \<times> bfile" where
  "loadRepositoryBindings sha failed configured f =
     (let b = \<lparr>rb_bound = [], rb_warnings = []\<rparr> in
      case f of
        Bound m \<Rightarrow> (b\<lparr>rb_bound := m\<rparr>, f)
      | _ \<Rightarrow> adopt sha failed configured b f)"

text \<open>The text of a warning; \<open>quote\<close> prints a string the way \<^verbatim>\<open>%q\<close> does, \<open>dir\<close> is the store directory.\<close>

definition warning :: "(string \<Rightarrow> string) \<Rightarrow> string \<Rightarrow> string \<Rightarrow> int \<Rightarrow> string" where
  "warning quote dir name used = (let dataPath = dir @ ''/'' @ name in
     ''repository '' @ quote name @ '' now serves '' @ show_int used @ '' bytes at '' @ dataPath @
     '' that were written under that name by an earlier binding; expected after a credential rotation, but if the repository was deleted and recreated those snapshots belong to the old one and '' @
     dataPath @ '' should be deleted'')"

definition observe ::
  "(string \<Rightarrow> string) \<Rightarrow> (string \<Rightarrow> string) \<Rightarrow> string \<Rightarrow> nodeTargetInfo \<Rightarrow> int \<Rightarrow> repositoryBindings \<Rightarrow> repositoryBindings" where
  "observe sha quote dir t usedBytes b =
     (let fingerprint = repositoryFingerprint sha (ti_Name t) (ti_SecretHash t);
          previous = get (rb_bound b) (ti_Name t);
          b = b\<lparr>rb_bound := put (ti_Name t) fingerprint (rb_bound b), rb_warnings := del (ti_Name t) (rb_warnings b)\<rparr>
      in if usedBytes \<le> 0 \<or> previous = Some fingerprint then b
         else b\<lparr>rb_warnings := put (ti_Name t) (warning quote dir (ti_Name t) usedBytes) (rb_warnings b)\<rparr>)"

definition forgetUnconfigured :: "nodeTargetInfo list \<Rightarrow> repositoryBindings \<Rightarrow> repositoryBindings" where
  "forgetUnconfigured configured b =
     b\<lparr>rb_warnings := filter (\<lambda>(name, _). name \<in> ti_Name ` set configured) (rb_warnings b)\<rparr>"

definition pendingWarnings :: "repositoryBindings \<Rightarrow> string list" where
  "pendingWarnings b = sort (map snd (rb_warnings b))"

section \<open>Peers\<close>

record nodePeerInfo =
  pi_PublicKey :: string
  pi_TunnelIP :: string

type_synonym peers = "(wgkey, addr) gomap"

definition host_peer :: "wgkey \<Rightarrow> addr \<Rightarrow> peer" where
  "host_peer key a = \<lparr>pe_PublicKey = key, pe_AllowedIPs = [PrefixFrom a (BitLen a)], pe_Endpoint = [], pe_PersistentKeepalive = 0\<rparr>"

definition buildPeers :: "nodePeerInfo list \<Rightarrow> peer list \<times> peers" where
  "buildPeers infos =
     foldl (\<lambda>(ps, m) info.
       (case ParseKey (pi_PublicKey info) of
          None \<Rightarrow> (ps, m)
        | Some key \<Rightarrow>
            (case ParseAddr (pi_TunnelIP info) of
               None \<Rightarrow> (ps, m)
             | Some a \<Rightarrow> (ps @ [host_peer key a], put key a m)))) ([], []) infos"

datatype dev_call = SetPeer peer | RemovePeer wgkey

text \<open>The two loops; \<open>fails\<close> says which device calls fail, and the calls made are recorded.\<close>

definition set_peers :: "(dev_call \<Rightarrow> bool) \<Rightarrow> peers \<Rightarrow> peers \<Rightarrow> peers \<times> dev_call list" where
  "set_peers fails desired ps =
     foldl (\<lambda>(ps, calls) (key, a).
       if get ps key \<noteq> Some a
       then (if fails (SetPeer (host_peer key a)) then (ps, calls @ [SetPeer (host_peer key a)])
             else (put key a ps, calls @ [SetPeer (host_peer key a)]))
       else (ps, calls)) (ps, []) desired"

definition remove_peers :: "(dev_call \<Rightarrow> bool) \<Rightarrow> peers \<Rightarrow> peers \<Rightarrow> peers \<times> dev_call list" where
  "remove_peers fails desired ps =
     foldl (\<lambda>(ps', calls) (key, _).
       if get desired key = None
       then (if fails (RemovePeer key) then (ps', calls @ [RemovePeer key]) else (del key ps', calls @ [RemovePeer key]))
       else (ps', calls)) (ps, []) ps"

definition reconcilePeersLocked :: "(dev_call \<Rightarrow> bool) \<Rightarrow> nodePeerInfo list \<Rightarrow> peers \<Rightarrow> peers \<times> dev_call list" where
  "reconcilePeersLocked fails infos ps =
     (let desired = snd (buildPeers infos); (ps1, c1) = set_peers fails desired ps; (ps2, c2) = remove_peers fails desired ps1
      in (ps2, c1 @ c2))"

record nodePeerStat =
  np_PublicKey :: string
  np_LastHandshakeUnix :: int
  np_RxBytes :: int
  np_TxBytes :: int

definition peer_stat :: "peerStats \<Rightarrow> nodePeerStat" where
  "peer_stat s = \<lparr>np_PublicKey = key_String (ps_PublicKey s),
     np_LastHandshakeUnix = (if ps_LastHandshake s = zero_time then 0 else time_Unix (ps_LastHandshake s)),
     np_RxBytes = ps_RxBytes s, np_TxBytes = ps_TxBytes s\<rparr>"

definition peerStatsPayload :: "peerStats list \<Rightarrow> peers \<Rightarrow> wgkey \<Rightarrow> nodePeerStat list" where
  "peerStatsPayload stats known self =
     (let ps = map peer_stat (filter (\<lambda>s. get known (ps_PublicKey s) \<noteq> None \<and>
                 \<not> (ps_LastHandshake s = zero_time \<and> ps_RxBytes s = 0 \<and> ps_TxBytes s = 0)) stats)
      in if ps \<noteq> [] then ps @ [\<lparr>np_PublicKey = key_String self,
             np_LastHandshakeUnix = foldl max 0 (map np_LastHandshakeUnix ps),
             np_RxBytes = foldl (\<lambda>a x. i64 (a + x)) 0 (map np_RxBytes ps),
             np_TxBytes = foldl (\<lambda>a x. i64 (a + x)) 0 (map np_TxBytes ps)\<rparr>]
         else ps)"

section \<open>The manager\<close>

record runtimeSpec =
  rs_udpPort :: int
  rs_tunnelIP :: string
  rs_storeDir :: string
  rs_maxBlob :: int
  rs_restPort :: int

record backupNodeConfig =
  nc_Enabled :: bool
  nc_UDPPort :: int
  nc_StoreDir :: string
  nc_MaxBlobBytes :: int
  nc_RestPort :: int
  nc_Targets :: "nodeTargetInfo list"
  nc_Peers :: "nodePeerInfo list"

record nodeRuntime =
  rt_registry :: localRegistry
  rt_bindings :: repositoryBindings
  rt_spec :: runtimeSpec
  rt_peers :: peers
  rt_pub :: wgkey

record manager =
  mg_dataDir :: string
  mg_runtime :: "nodeRuntime option"
  mg_roleActive :: bool
  mg_lastStartError :: string

text \<open>The file system: the store and the bindings file of every directory.\<close>

record world =
  wd_store :: "string \<Rightarrow> disk"
  wd_bindings :: "string \<Rightarrow> bfile"

text \<open>The outcomes of the calls outside the model; \<open>Inl\<close> is the text of the error.\<close>

record nenv =
  ne_sha :: "string \<Rightarrow> string"
  ne_quote :: "string \<Rightarrow> string"
  ne_fetch :: "string + backupNodeConfig"
  ne_key :: "string + (wgkey \<times> wgkey)"
  ne_enroll :: "string + string"
  ne_addr_err :: string
  ne_start_err :: "string option"
  ne_mkdir_err :: "string option"
  ne_usage_err :: "string \<Rightarrow> string option"
  ne_listen_err :: "string option"
  ne_save_err :: bool
  ne_peer_err :: "dev_call \<Rightarrow> bool"
  ne_now :: time
  ne_stats :: "string option"
  ne_post_ok :: bool

text \<open>
  \<open>measureTargetUsage\<close>: a failure stops it, and the targets before keep what was measured. An
  invalid name fails with its own error, a failing walk with the file system's.
\<close>

fun measure_loop ::
  "nenv \<Rightarrow> string \<Rightarrow> disk \<Rightarrow> nodeTargetInfo list \<Rightarrow> localRegistry \<times> repositoryBindings \<Rightarrow> localRegistry \<times> repositoryBindings \<times> string option" where
  "measure_loop ev dir d [] (r, b) = (r, b, None)"
| "measure_loop ev dir d (t # ts) (r, b) =
     (case RepoUsage (io_ok\<lparr>io_read_err := (ne_usage_err ev (ti_Name t) \<noteq> None)\<rparr>) (ti_Name t) d of
        Inl e \<Rightarrow> (r, b, Some (''measure repository '' @ ne_quote ev (ti_Name t) @ '': '' @
                     (case ne_usage_err ev (ti_Name t) of Some m \<Rightarrow> m | None \<Rightarrow> ''invalid object reference'')))
      | Inr used \<Rightarrow>
          measure_loop ev dir d ts (setUsed (ti_Name t) used r, observe (ne_sha ev) (ne_quote ev) dir t used b))"

definition measureTargetUsage ::
  "nenv \<Rightarrow> string \<Rightarrow> disk \<Rightarrow> nodeTargetInfo list \<Rightarrow> localRegistry \<Rightarrow> repositoryBindings \<Rightarrow> bfile
    \<Rightarrow> localRegistry \<times> repositoryBindings \<times> bfile \<times> string option" where
  "measureTargetUsage ev dir d ts r b f =
     (case measure_loop ev dir d ts (r, b) of
        (r, b, Some e) \<Rightarrow> (r, b, f, Some e)
      | (r, b, None) \<Rightarrow> (r, b, save (ne_save_err ev) b f, None))"

definition staleUploadAge :: duration where
  "staleUploadAge = 24 * Hour"

definition startRuntime ::
  "nenv \<Rightarrow> wgkey \<Rightarrow> runtimeSpec \<Rightarrow> backupNodeConfig \<Rightarrow> world \<Rightarrow> world \<times> (string + nodeRuntime)" where
  "startRuntime ev pub spec cfg w =
     (let dir = rs_storeDir spec in
      case ParseAddr (rs_tunnelIP spec) of
        None \<Rightarrow> (w, Inl (''tunnel ip: '' @ ne_addr_err ev))
      | Some _ \<Rightarrow>
          (case ne_start_err ev of
             Some e \<Rightarrow> (w, Inl e)
           | None \<Rightarrow>
               (case ne_mkdir_err ev of
                  Some e \<Rightarrow> (w, Inl e)
                | None \<Rightarrow>
                    (let d = sweepStaleUploads (ne_now ev - staleUploadAge) (wd_store w dir);
                         (b, f) = loadRepositoryBindings (ne_sha ev) (ne_save_err ev) (nc_Targets cfg) (wd_bindings w dir);
                         (r, b, f, e) = measureTargetUsage ev dir d (nc_Targets cfg) (newLocalRegistry (nc_Targets cfg)) b f;
                         w = w\<lparr>wd_store := (wd_store w)(dir := d), wd_bindings := (wd_bindings w)(dir := f)\<rparr>
                     in case e of
                          Some e \<Rightarrow> (w, Inl e)
                        | None \<Rightarrow>
                            (case ne_listen_err ev of
                               Some e \<Rightarrow> (w, Inl e)
                             | None \<Rightarrow> (w, Inr \<lparr>rt_registry = r, rt_bindings = b, rt_spec = spec,
                                             rt_peers = snd (buildPeers (nc_Peers cfg)), rt_pub = pub\<rparr>))))))"

definition stopLocked :: "manager \<Rightarrow> manager" where
  "stopLocked m = m\<lparr>mg_runtime := None\<rparr>"

text \<open>The running endpoint takes over a new configuration.\<close>

definition reconcile_running :: "nenv \<Rightarrow> backupNodeConfig \<Rightarrow> nodeRuntime \<Rightarrow> manager \<Rightarrow> world \<Rightarrow> manager \<times> world" where
  "reconcile_running ev cfg rt m w =
     (let dir = rs_storeDir (rt_spec rt);
          b = forgetUnconfigured (nc_Targets cfg) (rt_bindings rt);
          (r, added) = replaceTargets (nc_Targets cfg) (rt_registry rt);
          rt = rt\<lparr>rt_registry := r, rt_bindings := b\<rparr>;
          peers = (\<lambda>rt. rt\<lparr>rt_peers := fst (reconcilePeersLocked (ne_peer_err ev) (nc_Peers cfg) (rt_peers rt))\<rparr>)
      in if added \<noteq> [] then
           (case measureTargetUsage ev dir (wd_store w dir) added r b (wd_bindings w dir) of
              (r, b, f, Some e) \<Rightarrow>
                (m\<lparr>mg_runtime := Some (rt\<lparr>rt_registry := r, rt_bindings := b\<rparr>), mg_lastStartError := e\<rparr>,
                 w\<lparr>wd_bindings := (wd_bindings w)(dir := f)\<rparr>)
            | (r, b, f, None) \<Rightarrow>
                (m\<lparr>mg_runtime := Some (peers (rt\<lparr>rt_registry := r, rt_bindings := b\<rparr>)), mg_lastStartError := []\<rparr>,
                 w\<lparr>wd_bindings := (wd_bindings w)(dir := f)\<rparr>))
         else (m\<lparr>mg_runtime := Some (peers rt)\<rparr>, w))"

definition reconcile :: "nenv \<Rightarrow> manager \<Rightarrow> world \<Rightarrow> manager \<times> world" where
  "reconcile ev m w =
     (case ne_fetch ev of
        Inl _ \<Rightarrow> (m, w)
      | Inr cfg \<Rightarrow>
          if \<not> nc_Enabled cfg then (stopLocked (m\<lparr>mg_roleActive := False, mg_lastStartError := []\<rparr>), w)
          else
            (let m = m\<lparr>mg_roleActive := True\<rparr> in
             case ne_key ev of
               Inl _ \<Rightarrow> (m, w)
             | Inr (key, pub) \<Rightarrow>
                 (case ne_enroll ev of
                    Inl _ \<Rightarrow> (m, w)
                  | Inr tunnelIP \<Rightarrow>
                      (let dir = trim_space (nc_StoreDir cfg);
                           dir = (if dir = [] then mg_dataDir m @ ''/backup-store'' else dir);
                           spec = \<lparr>rs_udpPort = nc_UDPPort cfg, rs_tunnelIP = tunnelIP, rs_storeDir = dir,
                             rs_maxBlob = nc_MaxBlobBytes cfg, rs_restPort = nc_RestPort cfg\<rparr>;
                           start = (\<lambda>m. case startRuntime ev pub spec cfg w of
                              (w, Inl e) \<Rightarrow> (m\<lparr>mg_lastStartError := e\<rparr>, w)
                            | (w, Inr rt) \<Rightarrow> (m\<lparr>mg_runtime := Some rt, mg_lastStartError := []\<rparr>, w))
                       in case mg_runtime m of
                            Some rt \<Rightarrow>
                              if rt_spec rt = spec then reconcile_running ev cfg rt m w
                              else start (stopLocked m)
                          | None \<Rightarrow> start (stopLocked m)))))"

definition nodeStatusError :: "string \<Rightarrow> string list \<Rightarrow> string" where
  "nodeStatusError startError warnings =
     (let parts = (if startError \<noteq> [] then [startError] else []) @ warnings
      in case parts of [] \<Rightarrow> [] | p # ps \<Rightarrow> p @ concat (map (\<lambda>x. ''; '' @ x) ps))"

record usageReport =
  ur_Targets :: "(string \<times> int) list"
  ur_Peers :: "nodePeerStat list"
  ur_Running :: bool
  ur_Error :: string

text \<open>\<open>reportUsage\<close>: the new state and the report that was sent, if one was.\<close>

definition reportUsage :: "nenv \<Rightarrow> manager \<Rightarrow> manager \<times> usageReport option" where
  "reportUsage ev m =
     (let (m', entries, ps, warnings) =
          (case mg_runtime m of
             None \<Rightarrow> (m, [], [], [])
           | Some rt \<Rightarrow>
               (let (r, entries) = usageSnapshot (rt_registry rt);
                    ps = (case ne_stats ev of
                            None \<Rightarrow> []
                          | Some raw \<Rightarrow> (case PeerStats raw of None \<Rightarrow> [] | Some st \<Rightarrow> peerStatsPayload st (rt_peers rt) (rt_pub rt)))
                in (m\<lparr>mg_runtime := Some (rt\<lparr>rt_registry := r\<rparr>)\<rparr>, entries, ps, pendingWarnings (rt_bindings rt))))
      in if \<not> mg_roleActive m \<and> entries = [] \<and> ps = [] then (m', None)
         else ((if ne_post_ok ev then m'
                else m'\<lparr>mg_runtime := map_option (\<lambda>rt. rt\<lparr>rt_registry := restoreDirty entries (rt_registry rt)\<rparr>) (mg_runtime m')\<rparr>),
               Some \<lparr>ur_Targets = entries, ur_Peers = ps, ur_Running = (mg_runtime m \<noteq> None),
                     ur_Error = nodeStatusError (mg_lastStartError m) warnings\<rparr>))"

section \<open>Peers follow the configuration\<close>

lemma wf_map_buildPeers: "wf_map (snd (buildPeers infos))"
proof -
  have "wf_map (snd (foldl (\<lambda>(ps, m) info.
       (case ParseKey (pi_PublicKey info) of
          None \<Rightarrow> (ps, m)
        | Some key \<Rightarrow>
            (case ParseAddr (pi_TunnelIP info) of
               None \<Rightarrow> (ps, m)
             | Some a \<Rightarrow> (ps @ [host_peer key a], put key a m)))) (ps, m) infos))" if "wf_map m" for ps m
    using that by (induction infos arbitrary: ps m) (auto split: option.splits)
  then show ?thesis by (simp add: buildPeers_def)
qed

lemma set_peers_get:
  fixes fails
  defines "step \<equiv> (\<lambda>(ps :: peers, calls) (key, a).
       if get ps key \<noteq> Some a
       then (if fails (SetPeer (host_peer key a)) then (ps, calls @ [SetPeer (host_peer key a)])
             else (put key a ps, calls @ [SetPeer (host_peer key a)]))
       else (ps, calls))"
  assumes "wf_map desired"
  shows "(\<forall>k. get (fst (foldl step (ps, calls) desired)) k = (case get desired k of
           None \<Rightarrow> get ps k
         | Some a \<Rightarrow> if fails (SetPeer (host_peer k a)) then get ps k else Some a)) \<and>
         set (snd (foldl step (ps, calls) desired)) =
           set calls \<union> (\<lambda>(k, a). SetPeer (host_peer k a)) ` {(k, a). get desired k = Some a \<and> get ps k \<noteq> Some a}"
  using assms(2)
proof (induction desired arbitrary: ps calls)
  case (Cons e desired)
  obtain key a where e: "e = (key, a)" by (cases e)
  obtain ps' calls' where st: "step (ps, calls) (key, a) = (ps', calls')" by fastforce
  have n: "get desired key = None" and wf: "wf_map desired" using Cons.prems by (auto simp: e)
  have p: "get ps' k = (if k = key \<and> \<not> fails (SetPeer (host_peer key a)) then Some a else get ps k)" for k
    using st by (auto simp: step_def split: if_splits)
  have c: "set calls' = set calls \<union> (if get ps key \<noteq> Some a then {SetPeer (host_peer key a)} else {})"
    using st by (auto simp: step_def split: if_splits)
  have "get desired k = Some a \<and> get ps' k \<noteq> Some a \<longleftrightarrow> get desired k = Some a \<and> get ps k \<noteq> Some a" for k a
    using n by (auto simp: p)
  then have "{(k, b). get (e # desired) k = Some b \<and> get ps k \<noteq> Some b} =
      (if get ps key \<noteq> Some a then {(key, a)} else {}) \<union> {(k, b). get desired k = Some b \<and> get ps' k \<noteq> Some b}"
    using n by (auto simp: e split: if_splits)
  then have 2: "set (snd (foldl step (ps, calls) (e # desired))) =
      set calls \<union> (\<lambda>(k, a). SetPeer (host_peer k a)) ` {(k, b). get (e # desired) k = Some b \<and> get ps k \<noteq> Some b}"
    using Cons.IH [OF wf, of ps' calls'] c by (auto simp: e st)
  have 1: "\<forall>k. get (fst (foldl step (ps, calls) (e # desired))) k = (case get (e # desired) k of
           None \<Rightarrow> get ps k
         | Some a \<Rightarrow> if fails (SetPeer (host_peer k a)) then get ps k else Some a)"
    using Cons.IH [OF wf, of ps' calls'] n by (simp add: e st p split: option.splits)
  from 1 2 show ?case by blast
qed (auto split: option.splits)

lemma remove_peers_get:
  fixes fails desired
  defines "step \<equiv> (\<lambda>(ps' :: peers, calls) (key, _ :: addr).
       if get (desired :: peers) key = None
       then (if fails (RemovePeer key) then (ps', calls @ [RemovePeer key]) else (del key ps', calls @ [RemovePeer key]))
       else (ps', calls))"
  shows "(\<forall>k. get (fst (foldl step (ps, calls) l)) k =
           (if k \<in> fst ` set l \<and> get desired k = None \<and> \<not> fails (RemovePeer k) then None else get ps k)) \<and>
         set (snd (foldl step (ps, calls) l)) = set calls \<union> {RemovePeer k | k. k \<in> fst ` set l \<and> get desired k = None}"
proof (induction l arbitrary: ps calls)
  case (Cons e l)
  obtain key a where e: "e = (key, a)" by (cases e)
  obtain ps' calls' where st: "step (ps, calls) (key, a) = (ps', calls')" by fastforce
  have p: "get ps' k = (if k = key \<and> get desired key = None \<and> \<not> fails (RemovePeer key) then None else get ps k)" for k
    using st by (auto simp: step_def split: if_splits)
  have c: "set calls' = set calls \<union> (if get desired key = None then {RemovePeer key} else {})"
    using st by (auto simp: step_def split: if_splits)
  show ?case using Cons.IH [of ps' calls'] c by (auto simp: e st p)
qed auto

lemma reconcilePeers_get:
  assumes "snd (buildPeers infos) = desired"
  shows "get (fst (reconcilePeersLocked fails infos ps)) k = (case get desired k of
      Some a \<Rightarrow> if fails (SetPeer (host_peer k a)) then get ps k else Some a
    | None \<Rightarrow> if fails (RemovePeer k) then get ps k else None)"
    and "set (snd (reconcilePeersLocked fails infos ps)) =
      (\<lambda>(k, a). SetPeer (host_peer k a)) ` {(k, a). get desired k = Some a \<and> get ps k \<noteq> Some a} \<union>
      {RemovePeer k | k. get ps k \<noteq> None \<and> get desired k = None}"
proof -
  have wf: "wf_map desired" using wf_map_buildPeers assms by metis
  obtain ps1 c1 where 1: "set_peers fails desired ps = (ps1, c1)" by fastforce
  obtain ps2 c2 where 2: "remove_peers fails desired ps1 = (ps2, c2)" by fastforce
  have g1: "get ps1 k = (case get desired k of None \<Rightarrow> get ps k
      | Some a \<Rightarrow> if fails (SetPeer (host_peer k a)) then get ps k else Some a)" for k
    using set_peers_get [OF wf, of fails ps "[]"] 1 by (simp add: set_peers_def)
  have g2: "get ps2 k = (if get desired k = None \<and> \<not> fails (RemovePeer k) then None else get ps1 k)" for k
    using remove_peers_get [of desired fails ps1 "[]" ps1] 2 map_of_eq_None_iff [of ps1 k]
    by (auto simp: remove_peers_def split: if_splits)
  have r: "reconcilePeersLocked fails infos ps = (ps2, c1 @ c2)"
    by (simp add: reconcilePeersLocked_def assms 1 2)
  show "get (fst (reconcilePeersLocked fails infos ps)) k = (case get desired k of
      Some a \<Rightarrow> if fails (SetPeer (host_peer k a)) then get ps k else Some a
    | None \<Rightarrow> if fails (RemovePeer k) then get ps k else None)"
    by (simp add: r g2 g1 split: option.splits)
  have k: "k \<in> fst ` set ps1 \<longleftrightarrow> get ps1 k \<noteq> None" for k by (simp add: map_of_eq_None_iff)
  have "{RemovePeer k | k. k \<in> fst ` set ps1 \<and> get desired k = None} = {RemovePeer k | k. get ps k \<noteq> None \<and> get desired k = None}"
    unfolding k by (intro Collect_cong ex_cong) (auto simp: g1)
  then show "set (snd (reconcilePeersLocked fails infos ps)) =
      (\<lambda>(k, a). SetPeer (host_peer k a)) ` {(k, a). get desired k = Some a \<and> get ps k \<noteq> Some a} \<union>
      {RemovePeer k | k. get ps k \<noteq> None \<and> get desired k = None}"
    using set_peers_get [OF wf, of fails ps "[]"] 1 remove_peers_get [of desired fails ps1 "[]" ps1] 2
    by (simp add: r set_peers_def remove_peers_def)
qed

text \<open>
  The tunnel follows the configuration: after a reconciliation every peer has its configured
  address or, if the device refused a call for it, its former state; when no call fails the
  peers are exactly the configured ones, and reconciling the same configuration again makes no
  further call to the device.
\<close>

lemma peers_follow_configuration:
  assumes "desired = snd (buildPeers infos)"
  shows "(\<forall>k. get (fst (reconcilePeersLocked fails infos ps)) k \<in> {get ps k, get desired k}) \<and>
    ((\<forall>c \<in> set (snd (reconcilePeersLocked fails infos ps)). \<not> fails c) \<longrightarrow>
       get (fst (reconcilePeersLocked fails infos ps)) = get desired \<and>
       snd (reconcilePeersLocked fails' infos (fst (reconcilePeersLocked fails infos ps))) = [])"
proof (intro conjI impI allI)
  note g = reconcilePeers_get [OF assms [symmetric]]
  show "get (fst (reconcilePeersLocked fails infos ps)) k \<in> {get ps k, get desired k}" for k
    by (simp add: g(1) split: option.splits)
  assume ok: "\<forall>c \<in> set (snd (reconcilePeersLocked fails infos ps)). \<not> fails c"
  show all: "get (fst (reconcilePeersLocked fails infos ps)) = get desired"
  proof
    fix k
    have "\<not> fails (SetPeer (host_peer k a))" if "get desired k = Some a" "get ps k \<noteq> Some a" for a
      using ok that by (force simp: g(2))
    moreover have "\<not> fails (RemovePeer k)" if "get desired k = None" "get ps k \<noteq> None"
      using ok that by (force simp: g(2))
    ultimately show "get (fst (reconcilePeersLocked fails infos ps)) k = get desired k"
      by (cases "get desired k"; cases "get ps k") (auto simp: g(1))
  qed
  have "set (snd (reconcilePeersLocked fails' infos (fst (reconcilePeersLocked fails infos ps)))) = {}"
    unfolding g(2) [of fails'] all by auto
  then show "snd (reconcilePeersLocked fails' infos (fst (reconcilePeersLocked fails infos ps))) = []" by simp
qed

section \<open>Measuring\<close>

lemma get_setUsed: "get (byName (setUsed name u r)) n =
    (if n = name then map_option (\<lambda>t. t\<lparr>lt_used := u, lt_ready := True, lt_dirty := True\<rparr>) (get (byName r) n) else get (byName r) n)"
  by (simp add: setUsed_def get_upd_target)

lemma observe_other:
  "n \<noteq> ti_Name t \<Longrightarrow> get (rb_warnings (observe sha q dir t u b)) n = get (rb_warnings b) n \<and>
     get (rb_bound (observe sha q dir t u b)) n = get (rb_bound b) n"
  by (simp add: observe_def Let_def)

lemma observe_warning:
  "get (rb_warnings (observe sha q dir t u b)) (ti_Name t) =
     (if 0 < u \<and> get (rb_bound b) (ti_Name t) \<noteq> Some (repositoryFingerprint sha (ti_Name t) (ti_SecretHash t))
      then Some (warning q dir (ti_Name t) u) else None)"
  by (auto simp: observe_def Let_def)

lemma RepoUsage_Inr:
  "RepoUsage io repo d = Inr u \<Longrightarrow> validName repo \<and> u = stored_bytes (files d) repo"
  by (auto simp: RepoUsage_def repoDir_def stored_bytes_def split: if_splits)

lemma measure_other:
  "\<lbrakk>measure_loop ev dir d ts (r, b) = (r', b', e); n \<notin> ti_Name ` set ts\<rbrakk> \<Longrightarrow>
     get (byName r') n = get (byName r) n \<and> get (rb_warnings b') n = get (rb_warnings b) n"
proof (induction ts arbitrary: r b)
  case (Cons t ts)
  then show ?case
    by (cases "RepoUsage (io_ok\<lparr>io_read_err := (ne_usage_err ev (ti_Name t) \<noteq> None)\<rparr>) (ti_Name t) d")
       (auto simp: get_setUsed observe_other)
qed auto

lemma measure_same:
  assumes "measure_loop ev dir d ts (r, b) = (r', b', None)" "t \<in> set ts" "distinct (map ti_Name ts)"
  shows "get (byName r') (ti_Name t) = map_option (\<lambda>u. u\<lparr>lt_used := stored_bytes (files d) (ti_Name t), lt_ready := True, lt_dirty := True\<rparr>)
           (get (byName r) (ti_Name t)) \<and>
         get (rb_warnings b') (ti_Name t) =
           (if 0 < stored_bytes (files d) (ti_Name t) \<and>
               get (rb_bound b) (ti_Name t) \<noteq> Some (repositoryFingerprint (ne_sha ev) (ti_Name t) (ti_SecretHash t))
            then Some (warning (ne_quote ev) dir (ti_Name t) (stored_bytes (files d) (ti_Name t))) else None)"
  using assms
proof (induction ts arbitrary: r b)
  case (Cons x ts)
  then obtain u where u: "RepoUsage (io_ok\<lparr>io_read_err := (ne_usage_err ev (ti_Name x) \<noteq> None)\<rparr>) (ti_Name x) d = Inr u"
    by (auto split: sum.splits)
  then have m: "measure_loop ev dir d ts (setUsed (ti_Name x) u r, observe (ne_sha ev) (ne_quote ev) dir x u b) = (r', b', None)"
    using Cons.prems(1) by simp
  have u': "u = stored_bytes (files d) (ti_Name x)" using RepoUsage_Inr [OF u] by simp
  show ?case
  proof (cases "x = t")
    case True
    then have "ti_Name t \<notin> ti_Name ` set ts" using Cons.prems(3) by auto
    then show ?thesis using measure_other [OF m] u' by (simp add: True get_setUsed observe_warning)
  next
    case False
    then have t: "t \<in> set ts" using Cons.prems(2) by simp
    then have "ti_Name t \<noteq> ti_Name x" using Cons.prems(3) by (metis distinct.simps(2) image_eqI list.simps(9) set_map)
    then show ?thesis using Cons.IH [OF m t] Cons.prems(3) by (simp add: get_setUsed observe_other)
  qed
qed simp

lemma get_newLocalRegistry:
  assumes "t \<in> set ts" "distinct (map ti_Name ts)" "good_hash t" "int (length ts) < 2 ^ 63 - 1"
  shows "bound_as t None (get (byName (newLocalRegistry ts)) (ti_Name t))"
proof -
  have "reg_inv (fst (fold add_target ts (emptyRegistry, [])))"
    using assms(4) by (intro reg_inv_fold_add) (simp_all, simp_all add: emptyRegistry_def)
  then show ?thesis
    using fold_add_same [OF assms(1-3), of emptyRegistry "[]"] assms(1)
    by (simp add: newLocalRegistry_def replaceTargets_def case_prod_beta drop_unseen_get) (simp add: emptyRegistry_def)
qed

lemma fold_put_bound:
  "t \<in> set ts \<Longrightarrow> distinct (map ti_Name ts) \<Longrightarrow> get (fold (\<lambda>t. put (ti_Name t) (f t)) ts m) (ti_Name t) = Some (f t)"
proof (induction ts arbitrary: m)
  case (Cons x ts)
  have o: "n \<notin> ti_Name ` set ts \<Longrightarrow> get (fold (\<lambda>t. put (ti_Name t) (f t)) ts m) n = get m n" for n m
    by (induction ts arbitrary: m) auto
  from Cons show ?case by (cases "x = t") (auto simp: o)
qed simp

lemma load_bound:
  assumes "loadRepositoryBindings sha failed ts bf = (b, f)" "t \<in> set ts" "distinct (map ti_Name ts)"
  defines "fp \<equiv> repositoryFingerprint sha (ti_Name t) (ti_SecretHash t)"
  shows "get (rb_bound b) (ti_Name t) \<noteq> Some fp \<longleftrightarrow> (\<exists>m. bf = Bound m \<and> get m (ti_Name t) \<noteq> Some fp)"
  using assms(1) fold_put_bound [OF assms(2,3)]
  by (cases bf) (auto simp: loadRepositoryBindings_def adopt_def Let_def fp_def)

text \<open>
  A node starts with true accounts: when the storage endpoint comes up, every configured
  repository (with distinct names and well-formed hashes) is open to its credential with the
  configured quota and revocation, and its recorded usage is what its directory holds. A
  repository is reported as bound to foreign data exactly when its directory holds data and
  the bindings file names another credential for it or does not know it; a missing or
  unreadable file counts as naming the present credentials.
\<close>

lemma start_measures_targets:
  assumes "startRuntime ev pub spec cfg w = (w', Inr rt)" "distinct (map ti_Name (nc_Targets cfg))"
    "\<forall>t\<in>set (nc_Targets cfg). good_hash t" "int (length (nc_Targets cfg)) < 2 ^ 63 - 1" "t \<in> set (nc_Targets cfg)"
  defines "bytes \<equiv> stored_bytes (files (wd_store w' (rs_storeDir spec))) (ti_Name t)"
  shows "(\<exists>u. get (byName (rt_registry rt)) (ti_Name t) = Some u \<and> lt_ready u \<and> lt_used u = bytes \<and>
       hex_decode (ti_SecretHash t) = Some (lt_hash u) \<and> lt_quota u = ti_QuotaBytes t \<and> lt_revoked u = ti_Revoked t) \<and>
    (get (rb_warnings (rt_bindings rt)) (ti_Name t) \<noteq> None \<longleftrightarrow> 0 < bytes \<and>
       (\<exists>m. wd_bindings w (rs_storeDir spec) = Bound m \<and>
          get m (ti_Name t) \<noteq> Some (repositoryFingerprint (ne_sha ev) (ti_Name t) (ti_SecretHash t))))"
proof -
  let ?dir = "rs_storeDir spec" and ?ts = "nc_Targets cfg" and ?fp = "repositoryFingerprint (ne_sha ev) (ti_Name t) (ti_SecretHash t)"
  define d where "d = sweepStaleUploads (ne_now ev - staleUploadAge) (wd_store w ?dir)"
  obtain b f where l: "loadRepositoryBindings (ne_sha ev) (ne_save_err ev) ?ts (wd_bindings w ?dir) = (b, f)" by fastforce
  obtain r b' e where m: "measure_loop ev ?dir d ?ts (newLocalRegistry ?ts, b) = (r, b', e)" by (metis prod_cases3)
  have e: "e = None" and rt: "rt_registry rt = r" "rt_bindings rt = b'" and w': "wd_store w' ?dir = d"
    using assms(1) l m by (auto simp: startRuntime_def Let_def d_def measureTargetUsage_def split: option.splits)
  have bs: "bytes = stored_bytes (files d) (ti_Name t)" by (simp add: bytes_def w')
  note ms = measure_same [OF m [unfolded e] assms(5,2)]
  have "bound_as t None (get (byName (newLocalRegistry ?ts)) (ti_Name t))"
    using get_newLocalRegistry assms(2-5) by blast
  then have 1: "\<exists>u. get (byName r) (ti_Name t) = Some u \<and> lt_ready u \<and> lt_used u = bytes \<and>
       hex_decode (ti_SecretHash t) = Some (lt_hash u) \<and> lt_quota u = ti_QuotaBytes t \<and> lt_revoked u = ti_Revoked t"
    using ms by (auto simp: bound_as_def bs split: option.splits)
  have "get (rb_bound b) (ti_Name t) \<noteq> Some ?fp \<longleftrightarrow> (\<exists>m. wd_bindings w ?dir = Bound m \<and> get m (ti_Name t) \<noteq> Some ?fp)"
    by (rule load_bound [OF l assms(5,2)])
  with 1 show ?thesis using ms by (auto simp: rt bs)
qed

definition spec1 :: runtimeSpec where
  "spec1 = \<lparr>rs_udpPort = 51820, rs_tunnelIP = ''10.0.0.1'', rs_storeDir = ''/store'', rs_maxBlob = 0, rs_restPort = 0\<rparr>"

definition cfg1 :: backupNodeConfig where
  "cfg1 = \<lparr>nc_Enabled = True, nc_UDPPort = 51820, nc_StoreDir = ''/store'', nc_MaxBlobBytes = 0, nc_RestPort = 0,
     nc_Targets = [info1], nc_Peers = []\<rparr>"

definition nenv1 :: nenv where
  "nenv1 = \<lparr>ne_sha = (\<lambda>s. take 4 s), ne_quote = (\<lambda>s. s), ne_fetch = Inr cfg1, ne_key = Inr (key32, key32), ne_enroll = Inr ''10.0.0.1'',
     ne_addr_err = [], ne_start_err = None, ne_mkdir_err = None, ne_usage_err = (\<lambda>_. None), ne_listen_err = None,
     ne_save_err = False, ne_peer_err = (\<lambda>_. False), ne_now = 1, ne_stats = None, ne_post_ok = True\<rparr>"

definition world1 :: world where
  "world1 = \<lparr>wd_store = (\<lambda>_. gw_disk gateway1), wd_bindings = (\<lambda>_. Bound [(''web1'', ''other'')])\<rparr>"

text \<open>
  The measurement of a repository whose credential was rotated is not synchronised with uploads:
  the target stays open while its directory is walked, and an upload that is stored after the
  walk and before the result is recorded is not in the record afterwards.
\<close>

lemma rotation_measurement_race:
  "\<exists>u. RepoUsage io_ok ''web1'' (gw_disk gateway0) = Inr u \<and>
     rp_status (snd (serve server1 env_ok upload1 gateway0)) = 200 \<and>
     map_option lt_used (get (byName (setUsed ''web1'' u (gw_reg (fst (serve server1 env_ok upload1 gateway0))))) ''web1'') = Some 0 \<and>
     stored_bytes (files (gw_disk (fst (serve server1 env_ok upload1 gateway0)))) ''web1'' = 2"
proof (intro exI conjI)
  show "RepoUsage io_ok ''web1'' (gw_disk gateway0) = Inr 0" by code_simp
  show "rp_status (snd (serve server1 env_ok upload1 gateway0)) = 200" by code_simp
  show "map_option lt_used (get (byName (setUsed ''web1'' 0 (gw_reg (fst (serve server1 env_ok upload1 gateway0))))) ''web1'') = Some 0"
    by code_simp
  show "stored_bytes (files (gw_disk (fst (serve server1 env_ok upload1 gateway0)))) ''web1'' = 2" by code_simp
qed

end
