(* ===== verification/Metrics.thy ===== *)
theory Metrics
  imports Go_Prelude
begin

text \<open>
  \<open>pkg/metrics\<close>: the numbers, names and units of the metrics. The numbers are stored in the
  database and sent by agents, the names appear in the API and in notifications.
\<close>

record Meta =
  mt_Name :: string
  mt_Unit :: string

text \<open>The constants of type \<open>ID\<close>, by name.\<close>

definition metric_ids :: "(string, int) gomap" where
  "metric_ids = [
     (''Unknown'', 0), (''CPUUserPct'', 100), (''CPUSystemPct'', 101), (''CPUIdlePct'', 102),
     (''CPUIOWaitPct'', 103), (''CPUStealPct'', 104), (''CPUTotalPct'', 105), (''CPUFreqMHz'', 106),
     (''CPUCorePct'', 107), (''LoadAvg1'', 110), (''LoadAvg5'', 111), (''LoadAvg15'', 112),
     (''UptimeSec'', 120), (''MemTotal'', 200), (''MemUsed'', 201), (''MemFree'', 202),
     (''MemAvailable'', 203), (''MemBuffers'', 204), (''MemCached'', 205), (''MemUsedPct'', 206),
     (''SwapTotal'', 210), (''SwapUsed'', 211), (''SwapFree'', 212), (''SwapUsedPct'', 213),
     (''DiskReadBytes'', 300), (''DiskWriteBytes'', 301), (''DiskReadOps'', 302), (''DiskWriteOps'', 303),
     (''DiskBusyPct'', 304), (''FSTotal'', 310), (''FSUsed'', 311), (''FSFree'', 312), (''FSUsedPct'', 313),
     (''FSInodesUsed'', 314), (''FSInodesFree'', 315), (''FSOverallTotal'', 316), (''FSOverallUsed'', 317),
     (''FSOverallUsedPct'', 318), (''NetRxBytes'', 400), (''NetTxBytes'', 401), (''NetRxPackets'', 402),
     (''NetTxPackets'', 403), (''NetRxErrors'', 404), (''NetTxErrors'', 405), (''NetRxDropped'', 406),
     (''NetTxDropped'', 407), (''ConnEstab'', 410), (''ConnListen'', 411), (''ConnTimeWait'', 412),
     (''PortOpen'', 420), (''WifiSignal'', 430), (''WifiBitrate'', 431), (''ProcCount'', 500),
     (''ProcRunning'', 501), (''ProcSleep'', 502), (''ProcZombie'', 503), (''ProcStop'', 504),
     (''ProcThreads'', 505), (''ProcScanSkipped'', 506), (''ContainerCount'', 600),
     (''ContainerRunning'', 601), (''ContainerStopped'', 602), (''GPUUsagePct'', 700), (''GPUMemUsed'', 701),
     (''GPUMemTotal'', 702), (''GPUMemUsedPct'', 703), (''GPUTempC'', 704), (''GPUPowerWatts'', 705),
     (''GPUFanPct'', 706), (''GPUClockMHz'', 707), (''GPUMemClockMHz'', 708), (''SensorTempC'', 800),
     (''SensorFanRPM'', 801), (''BatteryPct'', 810), (''BatteryChargingW'', 811), (''SmartTempC'', 900),
     (''SmartReallocSectors'', 901), (''SmartPendingSectors'', 902), (''SmartPowerOnHours'', 903),
     (''SmartHealthy'', 904), (''SmartDataWrittenBytes'', 905), (''SmartDataReadBytes'', 906),
     (''SmartPercentUsed'', 907), (''SmartAvailableSpare'', 908), (''SmartMediaErrors'', 909),
     (''SmartPowerCycles'', 910), (''SmartUnsafeShutdowns'', 911), (''SmartOfflineUncorrect'', 912),
     (''SmartCRCErrors'', 913), (''RaidDegraded'', 950), (''RaidSyncPct'', 951),
     (''BackupLastSuccessAgeS'', 1000), (''BackupLastRunOK'', 1001), (''BackupDurationS'', 1002),
     (''BackupAddedBytes'', 1003), (''BackupTotalBytes'', 1004), (''BackupSnapshotCount'', 1005),
     (''BackupCheckAgeS'', 1006), (''BackupCheckOK'', 1007), (''BackupRunning'', 1008),
     (''BackupRunElapsedS'', 1009), (''BackupProgressPct'', 1010), (''BackupProgressBytes'', 1011),
     (''BackupProgressTotalBytes'', 1012), (''BackupAgentStale'', 1013), (''BackupAgentUnexecutable'', 1014),
     (''AgentCPUPct'', 1050), (''AgentRSSBytes'', 1051), (''IPBanAuthFailuresPerMin'', 1100),
     (''IPBanBansPerHour'', 1101), (''IPBanActiveLocal'', 1102), (''IPBanFleetApplied'', 1103)]"

text \<open>The table \<open>meta\<close>: the name and the unit of each number.\<close>

definition meta :: "(int, Meta) gomap" where
  "meta = map (\<lambda>(i, n, u). (i, \<lparr>mt_Name = n, mt_Unit = u\<rparr>)) [
     (100, ''cpu_user_pct'', ''%''), (101, ''cpu_system_pct'', ''%''), (102, ''cpu_idle_pct'', ''%''),
     (103, ''cpu_iowait_pct'', ''%''), (104, ''cpu_steal_pct'', ''%''), (105, ''cpu_total_pct'', ''%''),
     (106, ''cpu_freq_mhz'', ''MHz''), (107, ''cpu_core_pct'', ''%''), (110, ''load_avg_1'', ''''),
     (111, ''load_avg_5'', ''''), (112, ''load_avg_15'', ''''), (120, ''uptime_sec'', ''s''),
     (200, ''mem_total'', ''B''), (201, ''mem_used'', ''B''), (202, ''mem_free'', ''B''),
     (203, ''mem_available'', ''B''), (204, ''mem_buffers'', ''B''), (205, ''mem_cached'', ''B''),
     (206, ''mem_used_pct'', ''%''), (210, ''swap_total'', ''B''), (211, ''swap_used'', ''B''),
     (212, ''swap_free'', ''B''), (213, ''swap_used_pct'', ''%''), (300, ''disk_read_bytes'', ''B''),
     (301, ''disk_write_bytes'', ''B''), (302, ''disk_read_ops'', ''ops''),
     (303, ''disk_write_ops'', ''ops''), (304, ''disk_busy_pct'', ''%''), (310, ''fs_total'', ''B''),
     (311, ''fs_used'', ''B''), (312, ''fs_free'', ''B''), (313, ''fs_used_pct'', ''%''),
     (314, ''fs_inodes_used'', ''''), (315, ''fs_inodes_free'', ''''), (316, ''fs_overall_total'', ''B''),
     (317, ''fs_overall_used'', ''B''), (318, ''fs_overall_used_pct'', ''%''), (400, ''net_rx_bytes'', ''B''),
     (401, ''net_tx_bytes'', ''B''), (402, ''net_rx_packets'', ''pkts''), (403, ''net_tx_packets'', ''pkts''),
     (404, ''net_rx_errors'', ''''), (405, ''net_tx_errors'', ''''), (406, ''net_rx_dropped'', ''''),
     (407, ''net_tx_dropped'', ''''), (410, ''conn_estab'', ''''), (411, ''conn_listen'', ''''),
     (412, ''conn_timewait'', ''''), (420, ''port_open'', ''''), (430, ''wifi_signal'', ''dBm''),
     (431, ''wifi_bitrate'', ''bps''), (500, ''proc_count'', ''''), (501, ''proc_running'', ''''),
     (502, ''proc_sleep'', ''''), (503, ''proc_zombie'', ''''), (504, ''proc_stop'', ''''),
     (505, ''proc_threads'', ''''), (506, ''proc_scan_skipped'', ''''), (600, ''container_count'', ''''),
     (601, ''container_running'', ''''), (602, ''container_stopped'', ''''), (700, ''gpu_usage_pct'', ''%''),
     (701, ''gpu_mem_used'', ''B''), (702, ''gpu_mem_total'', ''B''), (703, ''gpu_mem_used_pct'', ''%''),
     (704, ''gpu_temp_c'', ''C''), (705, ''gpu_power_w'', ''W''), (706, ''gpu_fan_pct'', ''%''),
     (707, ''gpu_clock_mhz'', ''MHz''), (708, ''gpu_mem_clock_mhz'', ''MHz''),
     (800, ''sensor_temp_c'', ''C''), (801, ''sensor_fan_rpm'', ''rpm''), (810, ''battery_pct'', ''%''),
     (811, ''battery_charging_w'', ''W''), (900, ''smart_temp_c'', ''C''),
     (901, ''smart_realloc_sectors'', ''''), (902, ''smart_pending_sectors'', ''''),
     (903, ''smart_power_on_hours'', ''h''), (904, ''smart_healthy'', ''''),
     (905, ''smart_data_written_bytes'', ''B''), (906, ''smart_data_read_bytes'', ''B''),
     (907, ''smart_percent_used'', ''%''), (908, ''smart_available_spare'', ''%''),
     (909, ''smart_media_errors'', ''''), (910, ''smart_power_cycles'', ''''),
     (911, ''smart_unsafe_shutdowns'', ''''), (912, ''smart_offline_uncorrectable'', ''''),
     (913, ''smart_crc_errors'', ''''), (950, ''raid_degraded'', ''''), (951, ''raid_sync_pct'', ''%''),
     (1000, ''backup_last_success_age_s'', ''s''), (1001, ''backup_last_run_ok'', ''bool''),
     (1002, ''backup_duration_s'', ''s''), (1003, ''backup_added_bytes'', ''B''),
     (1004, ''backup_total_bytes'', ''B''), (1005, ''backup_snapshot_count'', ''count''),
     (1006, ''backup_check_age_s'', ''s''), (1007, ''backup_check_ok'', ''bool''),
     (1008, ''backup_running'', ''bool''), (1009, ''backup_run_elapsed_s'', ''s''),
     (1010, ''backup_progress_pct'', ''%''), (1011, ''backup_progress_bytes'', ''B''),
     (1012, ''backup_progress_total_bytes'', ''B''), (1013, ''backup_agent_stale'', ''bool''),
     (1014, ''backup_agent_unexecutable'', ''bool''), (1050, ''agent_cpu_pct'', ''%''),
     (1051, ''agent_rss_bytes'', ''B''), (1100, ''ipban_auth_failures_per_min'', ''/min''),
     (1101, ''ipban_bans_per_hour'', ''/h''), (1102, ''ipban_active_local'', ''count''),
     (1103, ''ipban_fleet_applied'', ''count'')]"

definition metric_Meta :: "int \<Rightarrow> Meta" where
  "metric_Meta i = (case get meta i of Some m \<Rightarrow> m | None \<Rightarrow> \<lparr>mt_Name = ''unknown'', mt_Unit = []\<rparr>)"

text \<open>The search by name visits the table in the order \<open>it\<close>, which Go leaves open.\<close>

fun ByName :: "(int, Meta) gomap \<Rightarrow> string \<Rightarrow> int \<times> bool" where
  "ByName [] name = (0, False)"
| "ByName ((i, m) # it) name = (if mt_Name m = name then (i, True) else ByName it name)"


lemma meta_complete: "map snd metric_ids = 0 # map fst meta"
  by (simp add: metric_ids_def meta_def)

lemma meta_wf: "wf_map meta"
  by (simp add: meta_def wf_map_def)

lemma meta_names_distinct: "distinct (map (mt_Name \<circ> snd) meta)"
  by (simp add: meta_def)

lemma meta_int16: "\<forall>i\<in>fst ` set meta. 0 < i \<and> i < 2 ^ 15"
  by (simp add: meta_def)

lemma meta_names_known: "''unknown'' \<notin> (mt_Name \<circ> snd) ` set meta"
  by (simp add: meta_def)

lemma ByName_found:
  "\<lbrakk>distinct (map (mt_Name \<circ> snd) it); (i, m) \<in> set it\<rbrakk> \<Longrightarrow> ByName it (mt_Name m) = (i, True)"
  by (induction it) (force simp: image_iff)+

lemma ByName_missing: "n \<notin> (mt_Name \<circ> snd) ` set it \<Longrightarrow> ByName it n = (0, False)"
  by (induction it) auto

text \<open>
  Names and numbers of metrics correspond one to one: whatever order the table is visited
  in, the search for the name of a number gives the number back, and the name that unknown
  numbers are shown under is not found. Every declared number has a name.
\<close>

lemma metric_names_roundtrip:
  assumes "mset it = mset meta"
  shows "ByName it (mt_Name (metric_Meta i)) = (if i \<in> snd ` set metric_ids - {0} then (i, True) else (0, False))"
proof -
  have s: "set it = set meta" using assms by (rule mset_eq_setD)
  have d: "distinct (map (mt_Name \<circ> snd) it)"
    using meta_names_distinct assms by (metis distinct_count_atmost_1 mset_map set_mset_mset)
  have "snd ` set metric_ids = insert 0 (fst ` set meta)"
    by (metis list.set(2) list.set_map meta_complete)
  moreover have "0 \<notin> fst ` set meta" using meta_int16 by force
  ultimately have ids: "snd ` set metric_ids - {0} = fst ` set meta" by auto
  show ?thesis
  proof (cases "get meta i")
    case None
    then have "i \<notin> fst ` set meta" by (simp add: map_of_eq_None_iff)
    moreover have "ByName it ''unknown'' = (0, False)" using ByName_missing s meta_names_known by metis
    ultimately show ?thesis unfolding ids using None by (simp add: metric_Meta_def)
  next
    case (Some m)
    then have mem: "(i, m) \<in> set meta" by (rule map_of_SomeD)
    then have "i \<in> fst ` set meta" by force
    moreover have "ByName it (mt_Name m) = (i, True)" using ByName_found d mem s by blast
    ultimately show ?thesis unfolding ids using Some by (simp add: metric_Meta_def)
  qed
qed

end
