(* ===== verification/Wire.thy ===== *)
theory Wire
  imports Go_Prelude
begin

text \<open>
  \<open>pkg/wire\<close>: the messages between agents and the server that the ingest path reads and writes.
  A pointer is an option; a map that may be nil is an option of a map. Reports of the ban
  component are the type parameter of a batch.
\<close>

record point =
  pt_Time :: time
  pt_Metric :: int
  pt_Labels :: "labels option"
  pt_Value :: f64

record process =
  ps_Time :: time
  ps_PID :: int
  ps_Name :: string
  ps_User :: string
  ps_Cmdline :: string
  ps_CPUPct :: f64
  ps_MemRSS :: int
  ps_Status :: string
  ps_NThreads :: int

record container =
  cn_Time :: time
  cn_ID :: string
  cn_Name :: string
  cn_Image :: string
  cn_State :: string
  cn_CPUPct :: f64
  cn_MemUsed :: int
  cn_MemLimit :: int
  cn_RxBytes :: int
  cn_TxBytes :: int

record port =
  po_Time :: time
  po_Proto :: string
  po_Addr :: string
  po_Port :: int
  po_PID :: int
  po_Process :: string

record backupSnapshot =
  bs_ID :: string
  bs_Time :: time
  bs_Paths :: "string list"
  bs_SizeBytes :: "int option"
  bs_AddedBytes :: "int option"
  bs_FileCount :: "int option"
  bs_DurationS :: "f64 option"

record backupPathStat =
  bp_Path :: string
  bp_Bytes :: int
  bp_Files :: int

record backupRepoStatus =
  bk_Name :: string
  bk_Engine :: string
  bk_LastStarted :: "time option"
  bk_LastFinished :: "time option"
  bk_LastSuccess :: "time option"
  bk_Success :: bool
  bk_Error :: string
  bk_DurationS :: int
  bk_AddedBytes :: int
  bk_TotalBytes :: int
  bk_SnapshotCount :: int
  bk_CheckLast :: "time option"
  bk_CheckSuccess :: "bool option"
  bk_CheckError :: string
  bk_Tunnel :: bool
  bk_NextRun :: "time option"
  bk_Paths :: "string list"
  bk_Excludes :: "string list"
  bk_OneFileSystem :: "bool option"
  bk_PathStats :: "backupPathStat list"
  bk_StatsSnapshot :: string
  bk_StatsAt :: "time option"
  bk_Snapshots :: "backupSnapshot list"

record collectorState =
  cs_State :: string
  cs_Message :: string

record hostInfo =
  ho_Hostname :: string
  ho_OS :: string
  ho_Arch :: string
  ho_Kernel :: string
  ho_CPUModel :: string
  ho_CPUCores :: int
  ho_CPUThreads :: int
  ho_AgentVersion :: string
  ho_Collectors :: "string list"
  ho_CollectorStatus :: "(string, collectorState) gomap"
  ho_Tags :: labels
  ho_ExternallyManaged :: "bool option"

record 'report batch =
  bt_Host :: hostInfo
  bt_Points :: "point list"
  bt_Processes :: "process list"
  bt_Containers :: "container list"
  bt_Ports :: "port list"
  bt_Backups :: "backupRepoStatus list"
  bt_IPBan :: "'report option"

record ingestAck =
  ak_Accepted :: int
  ak_HostID :: int
  ak_IntervalS :: int
  ak_LatestAgentVersion :: string
  ak_AutoUpgrade :: "bool option"
  ak_UpgradeNow :: bool
  ak_ServerPubkey :: string
  ak_BackupBrowsePending :: bool
  ak_IPBanVersion :: int

record alertEvent =
  br_Kind :: string
  br_HostID :: int
  br_RuleID :: int
  br_RuleName :: string
  br_Severity :: string
  br_Metric :: string
  br_Value :: f64
  br_Time :: time

end
