(* ===== verification/Alert_Engine.thy ===== *)
theory Alert_Engine
  imports Metrics Wire
begin

text \<open>
  \<open>internal/server/alerting\<close>: the evaluator of alert rules. The database is a record of tables;
  every statement the code executes goes through \<open>stmt\<close>, which fails when the environment
  says so (by the number of the statement), so that all error paths are in the model. The
  result rows of the metric query are a parameter (its aggregates are computed by the
  time-series database).
\<close>

section \<open>Data\<close>

record hostSelector =
  hs_All :: bool
  hs_IDs :: "int list"
  hs_Tags :: labels

record rule =
  ru_ID :: int
  ru_Name :: string
  ru_HostSelector :: hostSelector
  ru_Metric :: int
  ru_Comparator :: string
  ru_Threshold :: f64
  ru_ForS :: int
  ru_Severity :: string
  ru_CooldownS :: int
  ru_ChannelIDs :: "int list"
  ru_Enabled :: bool

record channel =
  ch_Name :: string
  ch_Kind :: string
  ch_Enabled :: bool

record ruleHost =
  rh_id :: int
  rh_hostname :: string

record ruleGroup =
  rg_value :: f64
  rg_labels :: labels

datatype st = Ok | Pending | Firing

record astate =
  as_state :: st
  as_since :: time
  as_last_notified :: "time option"
  as_last_value :: "f64 option"

record hist =
  hi_rule :: int
  hi_host :: int
  hi_key :: string
  hi_fired_at :: time
  hi_value :: f64
  hi_labels :: labels
  hi_severity :: string
  hi_resolved_at :: "time option"

record hostrow =
  hr_id :: int
  hr_hostname :: string
  hr_tags :: labels
  hr_deleted :: bool
  hr_archived :: bool

text \<open>A notification, with the channel the dispatcher sends it to.\<close>

record notification =
  no_Kind :: string
  no_RuleID :: int
  no_RuleName :: string
  no_HostID :: int
  no_Hostname :: string
  no_Metric :: string
  no_Unit :: string
  no_Labels :: labels
  no_Value :: f64
  no_Threshold :: f64
  no_Cmp :: string
  no_Severity :: string
  no_FiredAt :: time

record sent =
  se_kind :: string
  se_name :: string
  se_msg :: notification

type_synonym akey = "int \<times> int \<times> string"

record db =
  db_states :: "(akey, astate) gomap"
  db_history :: "hist list"
  db_hosts :: "hostrow list"
  db_sent :: "sent list"
  db_broadcasts :: "alertEvent list"
  db_stmts :: nat

record aenv =
  av_now :: time
  av_sql_now :: time
  av_fail :: "nat \<Rightarrow> bool"
  av_broadcaster :: bool
  av_groups :: "int \<Rightarrow> int \<Rightarrow> (labels \<times> f64) list"

section \<open>Label keys and comparison\<close>

definition labelKey :: "labels \<Rightarrow> string" where
  "labelKey labels =
     (if labels = [] then []
      else concat (map (\<lambda>k. k @ ''='' @ the (get labels k) @ '';'') (sort (map fst labels))))"

fun parse_pairs :: "string list \<Rightarrow> labels \<Rightarrow> labels" where
  "parse_pairs [] out = out"
| "parse_pairs (p # ps) out =
     (if p = [] then parse_pairs ps out
      else (case cut_at (CHR ''='') p of
              (_, None) \<Rightarrow> parse_pairs ps out
            | (k, Some v) \<Rightarrow> parse_pairs ps (put k v out)))"

definition parseLabelKey :: "string \<Rightarrow> labels" where
  "parseLabelKey k = (if k = [] then [] else parse_pairs (split_on (CHR '';'') (trim_suffix '';'' k)) [])"

definition compare_rule :: "rule \<Rightarrow> f64 \<Rightarrow> bool" where
  "compare_rule r v =
     (let c = ru_Comparator r; t = ru_Threshold r in
      if c = ''>'' then f64_less t v
      else if c = ''<'' then f64_less v t
      else if c = ''>='' then f64_less t v \<or> f64_eq v t
      else if c = ''<='' then f64_less v t \<or> f64_eq v t
      else if c = ''=='' then f64_eq v t
      else if c = ''!='' then \<not> f64_eq v t
      else False)"

section \<open>Statements\<close>

definition stmt :: "aenv \<Rightarrow> (db \<Rightarrow> db) \<Rightarrow> db \<Rightarrow> db \<times> bool" where
  "stmt ev f d =
     (let d' = d\<lparr>db_stmts := db_stmts d + 1\<rparr> in if av_fail ev (db_stmts d) then (d', False) else (f d', True))"

definition set_state :: "akey \<Rightarrow> (astate \<Rightarrow> astate) \<Rightarrow> db \<Rightarrow> db" where
  "set_state k f d = (case get (db_states d) k of None \<Rightarrow> d | Some s \<Rightarrow> d\<lparr>db_states := put k (f s) (db_states d)\<rparr>)"

text \<open>The upsert to \<open>pending\<close>: an existing row keeps its time of notification.\<close>

definition upsert_pending :: "time \<Rightarrow> akey \<Rightarrow> f64 \<Rightarrow> db \<Rightarrow> db" where
  "upsert_pending now k v d =
     d\<lparr>db_states := put k (case get (db_states d) k of
         None \<Rightarrow> \<lparr>as_state = Pending, as_since = now, as_last_notified = None, as_last_value = Some v\<rparr>
       | Some s \<Rightarrow> s\<lparr>as_state := Pending, as_since := now, as_last_value := Some v\<rparr>) (db_states d)\<rparr>"

text \<open>The most recent open history row of a key is closed.\<close>

definition open_of :: "akey \<Rightarrow> hist \<Rightarrow> bool" where
  "open_of k h \<longleftrightarrow> (hi_rule h, hi_host h, hi_key h) = k \<and> hi_resolved_at h = None"

fun close_at :: "akey \<Rightarrow> time \<Rightarrow> time \<Rightarrow> hist list \<Rightarrow> hist list" where
  "close_at k t now [] = []"
| "close_at k t now (h # hs) =
     (if open_of k h \<and> hi_fired_at h = t then h\<lparr>hi_resolved_at := Some now\<rparr> # hs else h # close_at k t now hs)"

definition close_latest :: "akey \<Rightarrow> time \<Rightarrow> db \<Rightarrow> db" where
  "close_latest k now d =
     (case map hi_fired_at (filter (open_of k) (db_history d)) of
        [] \<Rightarrow> d
      | t # ts \<Rightarrow> d\<lparr>db_history := close_at k (foldl max t ts) now (db_history d)\<rparr>)"

section \<open>Transitions\<close>

definition dispatch ::
  "aenv \<Rightarrow> string \<Rightarrow> rule \<Rightarrow> ruleHost \<Rightarrow> labels \<Rightarrow> f64 \<Rightarrow> (int, channel) gomap \<Rightarrow> db \<Rightarrow> db" where
  "dispatch ev kind r h labels v channels d =
     (let m = metric_Meta (ru_Metric r);
          msg = \<lparr>no_Kind = kind, no_RuleID = ru_ID r, no_RuleName = ru_Name r, no_HostID = rh_id h,
            no_Hostname = rh_hostname h, no_Metric = mt_Name m, no_Unit = mt_Unit m, no_Labels = labels,
            no_Value = v, no_Threshold = ru_Threshold r, no_Cmp = ru_Comparator r, no_Severity = ru_Severity r,
            no_FiredAt = av_now ev\<rparr>;
          d = d\<lparr>db_sent := db_sent d @ concat (map (\<lambda>i. case get channels i of
                None \<Rightarrow> []
              | Some c \<Rightarrow> if ch_Enabled c then [\<lparr>se_kind = ch_Kind c, se_name = ch_Name c, se_msg = msg\<rparr>] else [])
              (ru_ChannelIDs r))\<rparr>
      in if \<not> av_broadcaster ev then d
         else d\<lparr>db_broadcasts := db_broadcasts d @ [\<lparr>br_Kind = kind, br_HostID = rh_id h, br_RuleID = ru_ID r,
                br_RuleName = ru_Name r, br_Severity = ru_Severity r, br_Metric = mt_Name m, br_Value = v,
                br_Time = av_now ev\<rparr>]\<rparr>)"

definition seconds :: "int \<Rightarrow> duration" where
  "seconds n = i64 (n * Second)"

text \<open>The case of a pending alert, also reached by falling through from the first case.\<close>

definition transition_pending ::
  "aenv \<Rightarrow> rule \<Rightarrow> ruleHost \<Rightarrow> string \<Rightarrow> labels \<Rightarrow> f64 \<Rightarrow> (int, channel) gomap \<Rightarrow> time \<Rightarrow> db \<Rightarrow> db \<times> bool" where
  "transition_pending ev r h key labels v channels since d =
     (let k = (ru_ID r, rh_id h, key) in
      if time_Sub (av_now ev) since < seconds (ru_ForS r)
      then stmt ev (set_state k (\<lambda>s. s\<lparr>as_last_value := Some v\<rparr>)) d
      else (case stmt ev (set_state k (\<lambda>s. s\<lparr>as_state := Firing, as_since := av_sql_now ev,
               as_last_notified := Some (av_sql_now ev), as_last_value := Some v\<rparr>)) d of
        (d, False) \<Rightarrow> (d, False)
      | (d, True) \<Rightarrow>
          (let d = fst (stmt ev (\<lambda>d. d\<lparr>db_history := db_history d @ [\<lparr>hi_rule = ru_ID r, hi_host = rh_id h, hi_key = key,
                     hi_fired_at = av_sql_now ev, hi_value = v, hi_labels = labels, hi_severity = ru_Severity r,
                     hi_resolved_at = None\<rparr>]\<rparr>) d)
           in (dispatch ev ''fire'' r h labels v channels d, True))))"

text \<open>The second component of the result is \<open>False\<close> for an error.\<close>

definition transition ::
  "aenv \<Rightarrow> rule \<Rightarrow> ruleHost \<Rightarrow> string \<Rightarrow> labels \<Rightarrow> bool \<Rightarrow> f64 \<Rightarrow> (int, channel) gomap \<Rightarrow> db \<Rightarrow> db \<times> bool" where
  "transition ev r h key labels predicate v channels d =
     (let k = (ru_ID r, rh_id h, key); now = av_now ev in
      case stmt ev id d of
        (d, False) \<Rightarrow> (d, False)
      | (d, True) \<Rightarrow>
          (let row = get (db_states d) k;
               state = (case row of None \<Rightarrow> Ok | Some s \<Rightarrow> as_state s);
               since = (case row of None \<Rightarrow> now | Some s \<Rightarrow> as_since s);
               lastNotified = (case row of None \<Rightarrow> None | Some s \<Rightarrow> as_last_notified s)
           in if predicate \<and> state = Ok then
                (case stmt ev (upsert_pending (av_sql_now ev) k v) d of
                   (d, False) \<Rightarrow> (d, False)
                 | (d, True) \<Rightarrow>
                     if 0 < ru_ForS r then (d, True)
                     else transition_pending ev r h key labels v channels now d)
              else if predicate \<and> state = Pending then transition_pending ev r h key labels v channels since d
              else if predicate \<and> state = Firing then
                (let shouldRenotify = (case lastNotified of None \<Rightarrow> True | Some t \<Rightarrow> seconds (ru_CooldownS r) \<le> time_Sub now t)
                 in case stmt ev (set_state k (\<lambda>s. s\<lparr>as_last_value := Some v\<rparr>)) d of
                      (d, False) \<Rightarrow> (d, False)
                    | (d, True) \<Rightarrow>
                        if shouldRenotify
                        then (dispatch ev ''fire'' r h labels v channels
                                (fst (stmt ev (set_state k (\<lambda>s. s\<lparr>as_last_notified := Some (av_sql_now ev)\<rparr>)) d)), True)
                        else (d, True))
              else if \<not> predicate \<and> (state = Firing \<or> state = Pending) then
                (case stmt ev (set_state k (\<lambda>s. s\<lparr>as_state := Ok, as_since := av_sql_now ev, as_last_value := Some v\<rparr>)) d of
                   (d, False) \<Rightarrow> (d, False)
                 | (d, True) \<Rightarrow>
                     if state = Firing
                     then (dispatch ev ''resolve'' r h labels v channels (fst (stmt ev (close_latest k (av_sql_now ev)) d)), True)
                     else (d, True))
              else (d, True)))"

section \<open>Evaluation\<close>

definition jsonb_contains :: "labels \<Rightarrow> labels \<Rightarrow> bool" where
  "jsonb_contains a b \<longleftrightarrow> list_all (\<lambda>(k, v). get a k = Some v) b"

definition live_hosts :: "(hostrow \<Rightarrow> bool) \<Rightarrow> db \<Rightarrow> ruleHost list" where
  "live_hosts P d = map (\<lambda>h. \<lparr>rh_id = hr_id h, rh_hostname = hr_hostname h\<rparr>)
     (filter (\<lambda>h. P h \<and> \<not> hr_deleted h \<and> \<not> hr_archived h) (db_hosts d))"

definition matchedHosts :: "aenv \<Rightarrow> rule \<Rightarrow> db \<Rightarrow> db \<times> ruleHost list option" where
  "matchedHosts ev r d =
     (let s = ru_HostSelector r;
          query = (\<lambda>P. case stmt ev id d of (d, False) \<Rightarrow> (d, None) | (d, True) \<Rightarrow> (d, Some (live_hosts P d)))
      in if hs_All s then query (\<lambda>_. True)
         else if hs_IDs s \<noteq> [] then query (\<lambda>h. hr_id h \<in> set (hs_IDs s))
         else if hs_Tags s \<noteq> [] then query (\<lambda>h. jsonb_contains (hr_tags h) (hs_Tags s))
         else (d, Some []))"

definition queryGroups :: "aenv \<Rightarrow> rule \<Rightarrow> int \<Rightarrow> db \<Rightarrow> db \<times> (string, ruleGroup) gomap option" where
  "queryGroups ev r host d =
     (case stmt ev id d of
        (d, False) \<Rightarrow> (d, None)
      | (d, True) \<Rightarrow> (d, Some (fold (\<lambda>(l, v). put (labelKey l) \<lparr>rg_value = v, rg_labels = l\<rparr>) (av_groups ev (ru_ID r) host) [])))"

definition active_state :: "astate \<Rightarrow> bool" where
  "active_state s \<longleftrightarrow> as_state s = Pending \<or> as_state s = Firing"

definition staleStates :: "aenv \<Rightarrow> int \<Rightarrow> int \<Rightarrow> (string, ruleGroup) gomap \<Rightarrow> db \<Rightarrow> db \<times> (string \<times> labels) list option" where
  "staleStates ev rule host present d =
     (case stmt ev id d of
        (d, False) \<Rightarrow> (d, None)
      | (d, True) \<Rightarrow> (d, Some (map (\<lambda>((_, _, k), _). (k, parseLabelKey k))
          (filter (\<lambda>((r, h, k), s). r = rule \<and> h = host \<and> active_state s \<and> get present k = None) (db_states d)))))"

fun eval_groups :: "aenv \<Rightarrow> rule \<Rightarrow> ruleHost \<Rightarrow> (int, channel) gomap \<Rightarrow> (string \<times> ruleGroup) list \<Rightarrow> db \<Rightarrow> db \<times> bool" where
  "eval_groups ev r h channels [] d = (d, True)"
| "eval_groups ev r h channels ((k, g) # gs) d =
     (case transition ev r h k (rg_labels g) (compare_rule r (rg_value g)) (rg_value g) channels d of
        (d, False) \<Rightarrow> (d, False)
      | (d, True) \<Rightarrow> eval_groups ev r h channels gs d)"

fun eval_stale :: "aenv \<Rightarrow> rule \<Rightarrow> ruleHost \<Rightarrow> (int, channel) gomap \<Rightarrow> (string \<times> labels) list \<Rightarrow> db \<Rightarrow> db \<times> bool" where
  "eval_stale ev r h channels [] d = (d, True)"
| "eval_stale ev r h channels ((k, l) # ks) d =
     (case transition ev r h k l False (Fin 0) channels d of
        (d, False) \<Rightarrow> (d, False)
      | (d, True) \<Rightarrow> eval_stale ev r h channels ks d)"

definition evaluate_host :: "aenv \<Rightarrow> rule \<Rightarrow> (int, channel) gomap \<Rightarrow> ruleHost \<Rightarrow> db \<Rightarrow> db \<times> bool" where
  "evaluate_host ev r channels h d =
     (case queryGroups ev r (rh_id h) d of
        (d, None) \<Rightarrow> (d, False)
      | (d, Some groups) \<Rightarrow>
          (case eval_groups ev r h channels groups d of
             (d, False) \<Rightarrow> (d, False)
           | (d, True) \<Rightarrow>
               (case staleStates ev (ru_ID r) (rh_id h) groups d of
                  (d, None) \<Rightarrow> (d, False)
                | (d, Some stale) \<Rightarrow> eval_stale ev r h channels stale d)))"

fun evaluateRule :: "aenv \<Rightarrow> rule \<Rightarrow> ruleHost list \<Rightarrow> (int, channel) gomap \<Rightarrow> db \<Rightarrow> db \<times> bool" where
  "evaluateRule ev r [] channels d = (d, True)"
| "evaluateRule ev r (h # hs) channels d =
     (case evaluate_host ev r channels h d of
        (d, False) \<Rightarrow> (d, False)
      | (d, True) \<Rightarrow> evaluateRule ev r hs channels d)"

record orphan =
  or_rule :: rule
  or_host :: ruleHost
  or_key :: string
  or_value :: f64

text \<open>Whether the row of a state is an orphan: its rule is disabled or no longer matches its host.\<close>

definition is_orphan :: "(int, rule) gomap \<Rightarrow> (int, int list) gomap \<Rightarrow> akey \<Rightarrow> bool" where
  "is_orphan rules matched k = (case k of (rid, host, _) \<Rightarrow>
     (case get rules rid of
        None \<Rightarrow> False
      | Some r \<Rightarrow>
          if \<not> ru_Enabled r then True
          else (case get matched rid of None \<Rightarrow> False | Some hosts \<Rightarrow> host \<notin> set hosts)))"

definition orphans :: "(int, rule) gomap \<Rightarrow> (int, int list) gomap \<Rightarrow> db \<Rightarrow> orphan list" where
  "orphans rules matched d =
     concat (map (\<lambda>((rid, host, key), s).
       (case (find (\<lambda>h. hr_id h = host) (db_hosts d), get rules rid) of
          (Some h, Some r) \<Rightarrow>
            if active_state s \<and> is_orphan rules matched (rid, host, key)
            then [\<lparr>or_rule = r, or_host = \<lparr>rh_id = host, rh_hostname = hr_hostname h\<rparr>, or_key = key,
                   or_value = (case as_last_value s of None \<Rightarrow> Fin 0 | Some v \<Rightarrow> v)\<rparr>]
            else []
        | _ \<Rightarrow> [])) (db_states d))"

fun resolve_orphans :: "aenv \<Rightarrow> (int, channel) gomap \<Rightarrow> orphan list \<Rightarrow> db \<Rightarrow> db" where
  "resolve_orphans ev channels [] d = d"
| "resolve_orphans ev channels (x # xs) d =
     resolve_orphans ev channels xs
       (fst (transition ev (or_rule x) (or_host x) (or_key x) (parseLabelKey (or_key x)) False (or_value x) channels d))"

definition sweepOrphans :: "aenv \<Rightarrow> (int, rule) gomap \<Rightarrow> (int, int list) gomap \<Rightarrow> (int, channel) gomap \<Rightarrow> db \<Rightarrow> db" where
  "sweepOrphans ev rules matched channels d =
     (case stmt ev id d of
        (d, False) \<Rightarrow> d
      | (d, True) \<Rightarrow> resolve_orphans ev channels (orphans rules matched d) d)"

fun eval_rules :: "aenv \<Rightarrow> (int, channel) gomap \<Rightarrow> rule list \<Rightarrow> (int, int list) gomap \<Rightarrow> db \<Rightarrow> db \<times> (int, int list) gomap" where
  "eval_rules ev channels [] matched d = (d, matched)"
| "eval_rules ev channels (r # rs) matched d =
     (if \<not> ru_Enabled r then eval_rules ev channels rs matched d
      else (case matchedHosts ev r d of
              (d, None) \<Rightarrow> eval_rules ev channels rs matched d
            | (d, Some hosts) \<Rightarrow>
                eval_rules ev channels rs (put (ru_ID r) (map rh_id hosts) matched) (fst (evaluateRule ev r hosts channels d))))"

text \<open>\<open>evaluateAll\<close>, from the rules and channels that were loaded (\<open>None\<close>: loading failed).\<close>

definition evaluateAll :: "aenv \<Rightarrow> rule list option \<Rightarrow> (int, channel) gomap option \<Rightarrow> db \<Rightarrow> db" where
  "evaluateAll ev rules channels d =
     (case rules of
        None \<Rightarrow> d
      | Some rs \<Rightarrow>
          (case channels of
             None \<Rightarrow> d
           | Some cs \<Rightarrow>
               (case eval_rules ev cs rs [] d of
                  (d, matched) \<Rightarrow> sweepOrphans ev (fold (\<lambda>r. put (ru_ID r) r) rs []) matched cs d)))"

section \<open>Severities\<close>

definition SeverityRank :: "string \<Rightarrow> int" where
  "SeverityRank s = (if s = ''critical'' then 3 else if s = ''warning'' then 2 else if s = ''info'' then 1 else 0)"

definition SeverityName :: "int \<Rightarrow> string" where
  "SeverityName n = (if n = 3 then ''critical'' else if n = 2 then ''warning'' else if n = 1 then ''info'' else [])"

lemma severity_roundtrip:
  "s \<in> {''critical'', ''warning'', ''info''} \<Longrightarrow> SeverityName (SeverityRank s) = s"
  by (auto simp: SeverityName_def SeverityRank_def)

section \<open>Label keys are faithful\<close>

lemma trim_suffix_snoc: "trim_suffix [c] (t @ [c]) = t"
  by (simp add: trim_suffix_def trim_prefix_def is_prefix_def)

lemma split_on_joined:
  "\<lbrakk>\<forall>p\<in>set ps. c \<notin> set p; c \<notin> set q\<rbrakk> \<Longrightarrow> split_on c (concat (map (\<lambda>p. p @ [c]) ps) @ q) = ps @ [q]"
  by (induction ps) (auto simp: split_on_append split_on_no_sep)

lemma split_on_terminated:
  assumes "ps \<noteq> []" "\<forall>p\<in>set ps. c \<notin> set p"
  shows "split_on c (trim_suffix [c] (concat (map (\<lambda>p. p @ [c]) ps))) = ps"
proof -
  obtain qs q where ps: "ps = qs @ [q]" using assms(1) by (metis append_butlast_last_id)
  then have "concat (map (\<lambda>p. p @ [c]) ps) = (concat (map (\<lambda>p. p @ [c]) qs) @ q) @ [c]" by simp
  then show ?thesis using split_on_joined [of qs c q] assms(2) ps by (simp only: trim_suffix_snoc) auto
qed

text \<open>No separator inside a label: \<open>=\<close> or \<open>;\<close> in a name, \<open>;\<close> in a value.\<close>

definition plain_labels :: "labels \<Rightarrow> bool" where
  "plain_labels l \<longleftrightarrow> wf_map l \<and>
     list_all (\<lambda>(k, v). CHR ''='' \<notin> set k \<and> CHR '';'' \<notin> set k \<and> CHR '';'' \<notin> set v) l"

definition label_pairs :: "labels \<Rightarrow> string list" where
  "label_pairs l = map (\<lambda>k. k @ ''='' @ the (get l k)) (sort (map fst l))"

lemma labelKey_pairs: "labelKey l = concat (map (\<lambda>p. p @ '';'') (label_pairs l))"
  by (simp add: labelKey_def label_pairs_def comp_def)

lemma parse_pairs_plain:
  "\<forall>k\<in>set ks. CHR ''='' \<notin> set k \<Longrightarrow>
     get (parse_pairs (map (\<lambda>k. k @ ''='' @ f k) ks) out) x = (if x \<in> set ks then Some (f x) else get out x)"
  by (induction ks arbitrary: out) (auto simp: cut_at_append)

lemma labelKey_parse:
  assumes "plain_labels l"
  shows "get (parseLabelKey (labelKey l)) = get l"
proof (cases "l = []")
  case True
  then show ?thesis by (simp add: labelKey_def parseLabelKey_def)
next
  case False
  let ?ks = "sort (map fst l)" and ?f = "\<lambda>k. the (get l k)"
  have kv: "CHR ''='' \<notin> set k \<and> CHR '';'' \<notin> set k \<and> CHR '';'' \<notin> set (?f k)" if "k \<in> set ?ks" for k
    using assms that by (force simp: plain_labels_def list_all_iff wf_map_def)
  have ks: "sort (map fst l) \<noteq> []" using False by (metis length_0_conv length_map length_sort)
  then have "label_pairs l \<noteq> []" by (simp add: label_pairs_def)
  moreover have "\<forall>p\<in>set (label_pairs l). CHR '';'' \<notin> set p" using kv by (auto simp: label_pairs_def)
  ultimately have "split_on (CHR '';'') (trim_suffix '';'' (labelKey l)) = label_pairs l"
    unfolding labelKey_pairs by (rule split_on_terminated)
  moreover have "labelKey l \<noteq> []" using False ks by (cases "sort (map fst l)") (auto simp: labelKey_def)
  ultimately have "parseLabelKey (labelKey l) = parse_pairs (map (\<lambda>k. k @ ''='' @ ?f k) ?ks) []"
    by (simp add: parseLabelKey_def label_pairs_def)
  then have "get (parseLabelKey (labelKey l)) x = (if x \<in> fst ` set l then Some (?f x) else None)" for x
    using parse_pairs_plain [of ?ks ?f "[]" x] kv by simp
  moreover have "get l x = (if x \<in> fst ` set l then Some (?f x) else None)" for x
    by (cases "get l x") (auto simp: map_of_eq_None_iff dest: map_of_SomeD intro: rev_image_eqI)
  ultimately show ?thesis by auto
qed

text \<open>
  Alert states are keyed faithfully: the key of a set of labels is parsed back to these
  labels, and two sets of labels with the same key are the same set, as long as no label name
  contains an equals sign or a semicolon and no value a semicolon.
\<close>

lemma labelKey_roundtrip:
  assumes "plain_labels l"
  shows "get (parseLabelKey (labelKey l)) = get l \<and>
    (\<forall>l'. plain_labels l' \<and> labelKey l' = labelKey l \<longrightarrow> get l' = get l)"
  using labelKey_parse [OF assms] labelKey_parse by metis

text \<open>The condition on values is needed: a semicolon in a value makes two sets of labels collide.\<close>

lemma labelKey_collision:
  "labelKey [(''a'', ''1;b=2'')] = labelKey [(''a'', ''1''), (''b'', ''2'')]"
  by code_simp

end
