(* ===== verification/Alert_Machine.thy ===== *)
theory Alert_Machine
  imports Alert_Engine
begin

text \<open>
  What the alert evaluator promises. First the effect of one evaluation on the active alerts,
  and with it the result of a whole pass over all rules; then the abstract machine of one
  alert, which the transitions refine, and what it does over a history of evaluations.
\<close>

section \<open>Passes without failing statements\<close>

definition healthy :: "aenv \<Rightarrow> bool" where
  "healthy ev \<longleftrightarrow> (\<forall>n. \<not> av_fail ev n)"

lemma stmt_healthy [simp]: "healthy ev \<Longrightarrow> stmt ev f d = (f (d\<lparr>db_stmts := db_stmts d + 1\<rparr>), True)"
  by (simp add: healthy_def stmt_def Let_def)

text \<open>The alerts that are pending or firing.\<close>

definition alive :: "db \<Rightarrow> akey \<Rightarrow> bool" where
  "alive d k = (case get (db_states d) k of None \<Rightarrow> False | Some s \<Rightarrow> active_state s)"

text \<open>What every operation of the evaluator keeps.\<close>

definition db_ok :: "db \<Rightarrow> bool" where
  "db_ok d \<longleftrightarrow> wf_map (db_states d)"

lemma set_state_simps [simp]:
  "db_hosts (set_state k f d) = db_hosts d"
  "db_history (set_state k f d) = db_history d"
  "db_broadcasts (set_state k f d) = db_broadcasts d"
  "db_sent (set_state k f d) = db_sent d"
  "get (db_states (set_state k f d)) = (get (db_states d))(k := map_option f (get (db_states d) k))"
  "db_ok d \<Longrightarrow> db_ok (set_state k f d)"
  by (auto simp: set_state_def db_ok_def split: option.split)

lemma upsert_pending_simps [simp]:
  "db_hosts (upsert_pending t k v d) = db_hosts d"
  "db_history (upsert_pending t k v d) = db_history d"
  "db_broadcasts (upsert_pending t k v d) = db_broadcasts d"
  "db_ok d \<Longrightarrow> db_ok (upsert_pending t k v d)"
  by (simp_all add: upsert_pending_def db_ok_def)

lemma close_latest_simps [simp]:
  "db_hosts (close_latest k t d) = db_hosts d"
  "db_states (close_latest k t d) = db_states d"
  "db_broadcasts (close_latest k t d) = db_broadcasts d"
  "db_ok (close_latest k t d) = db_ok d"
  by (auto simp: close_latest_def db_ok_def split: list.split)

lemma dispatch_simps [simp]:
  "db_hosts (dispatch ev kind r h l v cs d) = db_hosts d"
  "db_states (dispatch ev kind r h l v cs d) = db_states d"
  "db_history (dispatch ev kind r h l v cs d) = db_history d"
  "db_ok (dispatch ev kind r h l v cs d) = db_ok d"
  by (simp_all add: dispatch_def Let_def db_ok_def)

lemma db_updates_simps [simp]:
  "db_ok (d\<lparr>db_stmts := n\<rparr>) = db_ok d"
  "db_ok (d\<lparr>db_history := hs\<rparr>) = db_ok d"
  "alive (d\<lparr>db_stmts := n\<rparr>) = alive d"
  "alive (d\<lparr>db_history := hs\<rparr>) = alive d"
  by (simp_all add: db_ok_def alive_def fun_eq_iff)

text \<open>
  One evaluation of an alert makes it active exactly when its condition holds and leaves the
  other alerts and the hosts alone.
\<close>

definition effect :: "db \<Rightarrow> (akey \<Rightarrow> bool) \<Rightarrow> db \<Rightarrow> bool" where
  "effect d A d' \<longleftrightarrow> alive d' = A \<and> db_hosts d' = db_hosts d \<and> (db_ok d \<longrightarrow> db_ok d')"

lemma transition_pending_effect:
  assumes "healthy ev" "alive d (ru_ID r, rh_id h, key)"
  shows "\<exists>d'. transition_pending ev r h key l v cs since d = (d', True) \<and> effect d (alive d) d'"
  using assms unfolding effect_def
  by (auto simp: transition_pending_def Let_def alive_def fun_eq_iff active_state_def split: option.splits)

lemma alive_upsert: "alive (upsert_pending t k v d) = (alive d)(k := True)"
  by (auto simp: alive_def upsert_pending_def active_state_def fun_eq_iff split: option.split)

lemma alive_set_state:
  "alive (set_state k f d) = (alive d)(k := (case get (db_states d) k of None \<Rightarrow> False | Some s \<Rightarrow> active_state (f s)))"
  by (auto simp: alive_def fun_eq_iff split: option.split)

lemma alive_simps [simp]:
  "alive (close_latest k t d) = alive d"
  "alive (dispatch ev kind r h l v cs d) = alive d"
  by (simp_all add: alive_def fun_eq_iff)

lemma active_stateI [simp]: "active_state s \<longleftrightarrow> as_state s \<noteq> Ok"
  by (cases "as_state s") (auto simp: active_state_def)

lemma transition_effect_idle:
  assumes "healthy ev" "\<not> alive d (ru_ID r, rh_id h, key)"
  shows "\<exists>d'. transition ev r h key l p v cs d = (d', True) \<and> effect d ((alive d)((ru_ID r, rh_id h, key) := p)) d'"
proof -
  let ?k = "(ru_ID r, rh_id h, key)"
  let ?d = "upsert_pending (av_sql_now ev) ?k v (d\<lparr>db_stmts := db_stmts d + 1 + 1\<rparr>)"
  have ok: "(case get (db_states d) ?k of None \<Rightarrow> Ok | Some s \<Rightarrow> as_state s) = Ok"
    using assms(2) by (auto simp: alive_def split: option.splits)
  have "\<exists>d'. transition_pending ev r h key l v cs (av_now ev) ?d = (d', True) \<and> effect ?d (alive ?d) d'"
    using transition_pending_effect [OF assms(1), of ?d r h key] by (simp add: alive_upsert)
  then show ?thesis
    using assms ok by (cases p) (auto simp: transition_def Let_def effect_def alive_upsert fun_eq_iff)
qed

lemma transition_effect_active:
  assumes "healthy ev" "alive d (ru_ID r, rh_id h, key)"
  shows "\<exists>d'. transition ev r h key l p v cs d = (d', True) \<and> effect d ((alive d)((ru_ID r, rh_id h, key) := p)) d'"
proof -
  let ?k = "(ru_ID r, rh_id h, key)"
  let ?d = "d\<lparr>db_stmts := db_stmts d + 1\<rparr>"
  obtain s where s: "get (db_states d) ?k = Some s" "as_state s \<noteq> Ok"
    using assms(2) by (auto simp: alive_def split: option.splits)
  have "\<exists>d'. transition_pending ev r h key l v cs (as_since s) ?d = (d', True) \<and> effect ?d (alive ?d) d'"
    by (rule transition_pending_effect) (simp_all add: assms)
  then show ?thesis
    using assms s
    by (cases p; cases "as_state s") (auto simp: transition_def Let_def effect_def alive_set_state fun_eq_iff)
qed

lemma transition_effect:
  "healthy ev \<Longrightarrow>
     \<exists>d'. transition ev r h key l p v cs d = (d', True) \<and> effect d ((alive d)((ru_ID r, rh_id h, key) := p)) d'"
  using transition_effect_idle transition_effect_active by blast

section \<open>A pass over all rules\<close>

text \<open>The alerts of one rule on one host set by a partial function of their keys.\<close>

definition over :: "(akey \<Rightarrow> bool) \<Rightarrow> int \<Rightarrow> int \<Rightarrow> (string \<Rightarrow> bool option) \<Rightarrow> akey \<Rightarrow> bool" where
  "over A r h f = (\<lambda>(rid, hid, key). case f key of
     Some b \<Rightarrow> if rid = r \<and> hid = h then b else A (rid, hid, key)
   | None \<Rightarrow> A (rid, hid, key))"

lemma effect_trans: "\<lbrakk>effect d A d1; effect d1 B d2\<rbrakk> \<Longrightarrow> effect d B d2"
  by (simp add: effect_def)

lemma effect_stmts [simp]: "effect (d\<lparr>db_stmts := n\<rparr>) A d' = effect d A d'"
  by (simp add: effect_def)

lemma effect_ok: "\<lbrakk>effect d A d'; db_ok d\<rbrakk> \<Longrightarrow> db_ok d' \<and> alive d' = A \<and> db_hosts d' = db_hosts d"
  by (simp add: effect_def)

lemma over_none [simp]: "over A r h (\<lambda>_. None) = A"
  by (simp add: over_def fun_eq_iff)

lemma over_upd: "f k = None \<Longrightarrow> over (A((r, h, k) := b)) r h f = over A r h (f(k \<mapsto> b))"
  by (auto simp: over_def fun_eq_iff split: option.split)

lemma eval_groups_effect:
  assumes "healthy ev"
  shows "wf_map gs \<Longrightarrow> \<exists>d'. eval_groups ev r h cs gs d = (d', True) \<and>
    effect d (over (alive d) (ru_ID r) (rh_id h) (\<lambda>k. map_option (\<lambda>g. compare_rule r (rg_value g)) (get gs k))) d'"
proof (induction gs arbitrary: d)
  case Nil
  then show ?case by (simp add: effect_def)
next
  case (Cons kg gs)
  obtain k g where kg: "kg = (k, g)" by (cases kg)
  let ?b = "compare_rule r (rg_value g)" and ?f = "\<lambda>k. map_option (\<lambda>g. compare_rule r (rg_value g)) (get gs k)"
  have k: "?f k = None" and wf: "wf_map gs" using Cons.prems kg by auto
  obtain d1 where d1: "transition ev r h k (rg_labels g) ?b (rg_value g) cs d = (d1, True)"
    "effect d ((alive d)((ru_ID r, rh_id h, k) := ?b)) d1"
    using transition_effect [OF assms] by blast
  obtain d2 where d2: "eval_groups ev r h cs gs d1 = (d2, True)" "effect d1 (over (alive d1) (ru_ID r) (rh_id h) ?f) d2"
    using Cons.IH [OF wf] by blast
  have "alive d1 = (alive d)((ru_ID r, rh_id h, k) := ?b)" using d1(2) by (simp add: effect_def)
  then have "effect d (over (alive d) (ru_ID r) (rh_id h) (?f(k \<mapsto> ?b))) d2"
    using effect_trans [OF d1(2) d2(2)] over_upd [of ?f k, OF k] by simp
  moreover have "(\<lambda>x. map_option (\<lambda>g. compare_rule r (rg_value g)) (get (kg # gs) x)) = ?f(k \<mapsto> ?b)"
    by (simp add: kg fun_eq_iff)
  ultimately show ?case using d1(1) d2(1) kg by simp
qed

lemma eval_stale_effect:
  assumes "healthy ev"
  shows "\<exists>d'. eval_stale ev r h cs ks d = (d', True) \<and>
    effect d (\<lambda>(rid, hid, key). alive d (rid, hid, key) \<and> \<not> (rid = ru_ID r \<and> hid = rh_id h \<and> key \<in> fst ` set ks)) d'"
proof (induction ks arbitrary: d)
  case Nil
  then show ?case by (simp add: effect_def)
next
  case (Cons kl ks)
  obtain k l where kl: "kl = (k, l)" by (cases kl)
  obtain d1 where d1: "transition ev r h k l False (Fin 0) cs d = (d1, True)"
    "effect d ((alive d)((ru_ID r, rh_id h, k) := False)) d1"
    using transition_effect [OF assms] by blast
  obtain d2 where d2: "eval_stale ev r h cs ks d1 = (d2, True)"
    "effect d1 (\<lambda>(rid, hid, key). alive d1 (rid, hid, key) \<and> \<not> (rid = ru_ID r \<and> hid = rh_id h \<and> key \<in> fst ` set ks)) d2"
    using Cons.IH by blast
  have "alive d1 = (alive d)((ru_ID r, rh_id h, k) := False)" using d1(2) by (simp add: effect_def)
  then have "(\<lambda>(rid, hid, key). alive d1 (rid, hid, key) \<and> \<not> (rid = ru_ID r \<and> hid = rh_id h \<and> key \<in> fst ` set ks)) =
    (\<lambda>(rid, hid, key). alive d (rid, hid, key) \<and> \<not> (rid = ru_ID r \<and> hid = rh_id h \<and> key \<in> fst ` set (kl # ks)))"
    by (auto simp: fun_eq_iff kl)
  then show ?case using effect_trans [OF d1(2) d2(2)] d1(1) d2(1) kl by simp
qed

text \<open>The condition of a rule on a host for the labels with a given key, from the measured groups.\<close>

definition groups_of :: "aenv \<Rightarrow> int \<Rightarrow> int \<Rightarrow> (string, ruleGroup) gomap" where
  "groups_of ev r h = fold (\<lambda>(l, v). put (labelKey l) \<lparr>rg_value = v, rg_labels = l\<rparr>) (av_groups ev r h) []"

definition condition :: "aenv \<Rightarrow> rule \<Rightarrow> int \<Rightarrow> string \<Rightarrow> bool" where
  "condition ev r h key =
     (case get (groups_of ev (ru_ID r) h) key of None \<Rightarrow> False | Some g \<Rightarrow> compare_rule r (rg_value g))"

lemma groups_of_wf: "wf_map (groups_of ev r h)"
proof -
  have "(\<lambda>(l, v). put (labelKey l) \<lparr>rg_value = v, rg_labels = l\<rparr>) =
    (\<lambda>x. put (labelKey (fst x)) \<lparr>rg_value = snd x, rg_labels = fst x\<rparr>)" by (simp add: fun_eq_iff)
  then show ?thesis by (simp only: groups_of_def wf_fold_put wf_map_Nil)
qed

lemma evaluate_host_effect:
  assumes "healthy ev" "db_ok d"
  shows "\<exists>d'. evaluate_host ev r cs h d = (d', True) \<and>
    effect d (\<lambda>(rid, hid, key). if rid = ru_ID r \<and> hid = rh_id h then condition ev r hid key else alive d (rid, hid, key)) d'"
proof -
  let ?gs = "groups_of ev (ru_ID r) (rh_id h)" and ?d = "d\<lparr>db_stmts := db_stmts d + 1\<rparr>"
  let ?f = "\<lambda>k. map_option (\<lambda>g. compare_rule r (rg_value g)) (get ?gs k)"
  have q: "queryGroups ev r (rh_id h) d = (?d, Some ?gs)"
    using assms(1) by (simp add: queryGroups_def groups_of_def)
  obtain d1 where d1: "eval_groups ev r h cs ?gs ?d = (d1, True)" "effect d (over (alive d) (ru_ID r) (rh_id h) ?f) d1"
    using eval_groups_effect [OF assms(1) groups_of_wf, where d = ?d] by force
  have ok1: "wf_map (db_states d1)" and al1: "alive d1 = over (alive d) (ru_ID r) (rh_id h) ?f"
    using effect_ok [OF d1(2) assms(2)] by (simp_all add: db_ok_def)
  define ks where "ks = map (\<lambda>((_, _, k), _). (k, parseLabelKey k))
    (filter (\<lambda>((r', h', k), s). r' = ru_ID r \<and> h' = rh_id h \<and> active_state s \<and> get ?gs k = None) (db_states d1))"
  have ks: "key \<in> fst ` set ks \<longleftrightarrow> alive d1 (ru_ID r, rh_id h, key) \<and> get ?gs key = None" for key
    using get_set [OF ok1] by (force simp: ks_def alive_def split: option.splits)
  have st: "staleStates ev (ru_ID r) (rh_id h) ?gs d1 = (d1\<lparr>db_stmts := db_stmts d1 + 1\<rparr>, Some ks)"
    using assms(1) by (simp add: staleStates_def ks_def)
  obtain d2 where d2: "eval_stale ev r h cs ks (d1\<lparr>db_stmts := db_stmts d1 + 1\<rparr>) = (d2, True)"
    "effect d1 (\<lambda>(rid, hid, key). alive d1 (rid, hid, key) \<and> \<not> (rid = ru_ID r \<and> hid = rh_id h \<and> key \<in> fst ` set ks)) d2"
    using eval_stale_effect [OF assms(1), of r h cs ks "d1\<lparr>db_stmts := db_stmts d1 + 1\<rparr>"] by auto
  have "(\<lambda>(rid, hid, key). alive d1 (rid, hid, key) \<and> \<not> (rid = ru_ID r \<and> hid = rh_id h \<and> key \<in> fst ` set ks)) =
    (\<lambda>(rid, hid, key). if rid = ru_ID r \<and> hid = rh_id h then condition ev r hid key else alive d (rid, hid, key))"
    unfolding ks by (auto simp: fun_eq_iff al1 over_def condition_def split: option.splits)
  then show ?thesis using effect_trans [OF d1(2) d2(2)] q d1(1) st d2(1) by (simp add: evaluate_host_def)
qed

lemma evaluateRule_effect:
  assumes "healthy ev"
  shows "db_ok d \<Longrightarrow> \<exists>d'. evaluateRule ev r hs cs d = (d', True) \<and>
    effect d (\<lambda>(rid, hid, key). if rid = ru_ID r \<and> hid \<in> rh_id ` set hs then condition ev r hid key else alive d (rid, hid, key)) d'"
proof (induction hs arbitrary: d)
  case Nil
  have "(\<lambda>(rid, hid, key). alive d (rid, hid, key)) = alive d" by (simp add: fun_eq_iff)
  then show ?case by (simp add: effect_def)
next
  case (Cons h hs)
  let ?A = "\<lambda>d hs (rid, hid, key). if rid = ru_ID r \<and> hid \<in> rh_id ` set hs then condition ev r hid key else alive d (rid, hid, key)"
  obtain d1 where d1: "evaluate_host ev r cs h d = (d1, True)"
    "effect d (\<lambda>(rid, hid, key). if rid = ru_ID r \<and> hid = rh_id h then condition ev r hid key else alive d (rid, hid, key)) d1"
    using evaluate_host_effect [OF assms Cons.prems] by blast
  obtain d2 where d2: "evaluateRule ev r hs cs d1 = (d2, True)" "effect d1 (?A d1 hs) d2"
    using Cons.IH [of d1] effect_ok [OF d1(2) Cons.prems] by blast
  have "?A d1 hs = ?A d (h # hs)"
    using effect_ok [OF d1(2) Cons.prems] by (auto simp: fun_eq_iff)
  then show ?case using effect_trans [OF d1(2) d2(2)] d1(1) d2(1) by simp
qed

text \<open>The hosts a selector picks.\<close>

definition selects :: "hostSelector \<Rightarrow> hostrow \<Rightarrow> bool" where
  "selects s h \<longleftrightarrow> \<not> hr_deleted h \<and> \<not> hr_archived h \<and>
     (if hs_All s then True
      else if hs_IDs s \<noteq> [] then hr_id h \<in> set (hs_IDs s)
      else hs_Tags s \<noteq> [] \<and> jsonb_contains (hr_tags h) (hs_Tags s))"

lemma matchedHosts_healthy:
  assumes "healthy ev"
  shows "\<exists>n hs. matchedHosts ev r d = (d\<lparr>db_stmts := n\<rparr>, Some hs) \<and>
    rh_id ` set hs = hr_id ` {h \<in> set (db_hosts d). selects (ru_HostSelector r) h}"
proof -
  have ids: "rh_id ` set (live_hosts P d) = hr_id ` {h \<in> set (db_hosts d). P h \<and> \<not> hr_deleted h \<and> \<not> hr_archived h}" for P
    by (auto simp: live_hosts_def image_image)
  let ?s = "ru_HostSelector r"
  consider "hs_All ?s" | "\<not> hs_All ?s" "hs_IDs ?s \<noteq> []" | "\<not> hs_All ?s" "hs_IDs ?s = []" "hs_Tags ?s \<noteq> []"
    | "\<not> hs_All ?s" "hs_IDs ?s = []" "hs_Tags ?s = []" by blast
  then show ?thesis
  proof cases
    case 4
    then have "matchedHosts ev r d = (d\<lparr>db_stmts := db_stmts d\<rparr>, Some [])" by (simp add: matchedHosts_def Let_def)
    then show ?thesis using 4 by (intro exI [of _ "db_stmts d"] exI [of _ "[]"]) (simp add: selects_def)
  qed (use assms ids in \<open>auto simp: matchedHosts_def selects_def Let_def live_hosts_def image_image conj_ac cong: rev_conj_cong\<close>)
qed

definition selected :: "rule \<Rightarrow> hostrow list \<Rightarrow> int set" where
  "selected r hosts = hr_id ` {h \<in> set hosts. selects (ru_HostSelector r) h}"

lemma eval_rules_effect:
  assumes "healthy ev"
  shows "\<lbrakk>db_ok d; distinct (map ru_ID rs)\<rbrakk> \<Longrightarrow> \<exists>d' m'. eval_rules ev cs rs m d = (d', m') \<and>
    db_ok d' \<and> db_hosts d' = db_hosts d \<and>
    (\<forall>r\<in>set rs. ru_Enabled r \<longrightarrow> (\<exists>ids. get m' (ru_ID r) = Some ids \<and> set ids = selected r (db_hosts d))) \<and>
    (\<forall>i. i \<notin> ru_ID ` set rs \<longrightarrow> get m' i = get m i) \<and>
    (\<forall>r hid key. r \<in> set rs \<longrightarrow> alive d' (ru_ID r, hid, key) =
       (if ru_Enabled r \<and> hid \<in> selected r (db_hosts d) then condition ev r hid key else alive d (ru_ID r, hid, key))) \<and>
    (\<forall>i hid key. i \<notin> ru_ID ` set rs \<longrightarrow> alive d' (i, hid, key) = alive d (i, hid, key))"
proof (induction rs arbitrary: m d)
  case Nil
  then show ?case by simp
next
  case (Cons r rs)
  show ?case
  proof (cases "ru_Enabled r")
    case False
    then show ?thesis using Cons.IH [OF Cons.prems(1), of m] Cons.prems(2) by (auto simp: image_iff)
  next
    case True
    obtain n hs where mh: "matchedHosts ev r d = (d\<lparr>db_stmts := n\<rparr>, Some hs)"
      "rh_id ` set hs = selected r (db_hosts d)"
      using matchedHosts_healthy [OF assms] unfolding selected_def by blast
    obtain d1 where d1: "evaluateRule ev r hs cs (d\<lparr>db_stmts := n\<rparr>) = (d1, True)"
      "effect d (\<lambda>(rid, hid, key). if rid = ru_ID r \<and> hid \<in> selected r (db_hosts d) then condition ev r hid key else alive d (rid, hid, key)) d1"
      using evaluateRule_effect [OF assms, of "d\<lparr>db_stmts := n\<rparr>" r hs cs] Cons.prems(1) by (auto simp: mh(2) cong: if_cong)
    have e: "db_ok d1" "db_hosts d1 = db_hosts d" "alive d1 = (\<lambda>(rid, hid, key). if rid = ru_ID r \<and> hid \<in> selected r (db_hosts d) then condition ev r hid key else alive d (rid, hid, key))"
      using effect_ok [OF d1(2) Cons.prems(1)] by simp_all
    have new: "ru_ID r \<notin> ru_ID ` set rs" and dist: "distinct (map ru_ID rs)" using Cons.prems(2) by auto
    obtain d' m' where ih: "eval_rules ev cs rs (put (ru_ID r) (map rh_id hs) m) d1 = (d', m')"
      "db_ok d'" "db_hosts d' = db_hosts d"
      "\<forall>x\<in>set rs. ru_Enabled x \<longrightarrow> (\<exists>ids. get m' (ru_ID x) = Some ids \<and> set ids = selected x (db_hosts d))"
      "\<And>i. i \<notin> ru_ID ` set rs \<Longrightarrow> get m' i = get (put (ru_ID r) (map rh_id hs) m) i"
      "\<And>x hid key. x \<in> set rs \<Longrightarrow> alive d' (ru_ID x, hid, key) =
         (if ru_Enabled x \<and> hid \<in> selected x (db_hosts d) then condition ev x hid key else alive d1 (ru_ID x, hid, key))"
      "\<And>i hid key. i \<notin> ru_ID ` set rs \<Longrightarrow> alive d' (i, hid, key) = alive d1 (i, hid, key)"
      using Cons.IH [OF e(1) dist, of "put (ru_ID r) (map rh_id hs) m"] unfolding e(2) by blast
    have m': "get m' (ru_ID r) = Some (map rh_id hs)" using ih(5) [OF new] by simp
    have old: "alive d1 (ru_ID x, hid, key) = alive d (ru_ID x, hid, key)" if "x \<in> set rs" for x hid key
    proof -
      have "ru_ID x \<noteq> ru_ID r" using new that by (metis imageI)
      then show ?thesis by (simp add: e(3))
    qed
    show ?thesis
      using True mh(1) d1(1) ih(1-4) m' mh(2) new ih(5,7) ih(6) old
      by (intro exI [of _ d'] exI [of _ m']) (auto simp: e(3))
  qed
qed

text \<open>The sweep ends every alert whose rule is disabled or no longer matches the host.\<close>

definition or_akey :: "orphan \<Rightarrow> akey" where
  "or_akey x = (ru_ID (or_rule x), rh_id (or_host x), or_key x)"

lemma resolve_orphans_effect:
  assumes "healthy ev"
  shows "effect d (\<lambda>k. alive d k \<and> k \<notin> or_akey ` set xs) (resolve_orphans ev cs xs d)"
proof (induction xs arbitrary: d)
  case Nil
  then show ?case by (simp add: effect_def)
next
  case (Cons x xs)
  obtain d1 where d1: "transition ev (or_rule x) (or_host x) (or_key x) (parseLabelKey (or_key x)) False (or_value x) cs d = (d1, True)"
    "effect d ((alive d)(or_akey x := False)) d1"
    using transition_effect [OF assms] unfolding or_akey_def by blast
  have "alive d1 = (alive d)(or_akey x := False)" using d1(2) by (simp add: effect_def)
  then have "(\<lambda>k. alive d1 k \<and> k \<notin> or_akey ` set xs) = (\<lambda>k. alive d k \<and> k \<notin> or_akey ` set (x # xs))"
    by (auto simp: fun_eq_iff)
  then show ?case using effect_trans [OF d1(2) Cons.IH [of d1]] d1(1) by simp
qed

lemma orphans_keys:
  assumes "db_ok d" "\<And>i r. get rules i = Some r \<Longrightarrow> ru_ID r = i"
  shows "or_akey ` set (orphans rules m d) =
    {(i, h, key) | i h key. alive d (i, h, key) \<and> h \<in> hr_id ` set (db_hosts d) \<and> is_orphan rules m (i, h, key)}"
    (is "?L = ?R")
proof -
  have wf: "wf_map (db_states d)" using assms(1) by (simp add: db_ok_def)
  have host: "(\<exists>x. find (\<lambda>h. hr_id h = i) (db_hosts d) = Some x) \<longleftrightarrow> i \<in> hr_id ` set (db_hosts d)" for i
    by (auto simp: find_None_iff image_iff simp flip: not_None_eq)
  have "(i, h, key) \<in> ?L \<longleftrightarrow> (i, h, key) \<in> ?R" for i h key
  proof -
    have "(i, h, key) \<in> ?L \<longleftrightarrow> (\<exists>s x r. ((i, h, key), s) \<in> set (db_states d) \<and>
        find (\<lambda>y. hr_id y = h) (db_hosts d) = Some x \<and> get rules i = Some r \<and> active_state s \<and> is_orphan rules m (i, h, key))"
      (is "_ \<longleftrightarrow> (\<exists>s x r. ?P s x r)")
    proof
      assume "(i, h, key) \<in> ?L"
      then obtain o' where o': "o' \<in> set (orphans rules m d)" "or_akey o' = (i, h, key)" by (metis imageE)
      from o'(1) obtain i' h' key' s x r where "((i', h', key'), s) \<in> set (db_states d)"
        "find (\<lambda>y. hr_id y = h') (db_hosts d) = Some x" "get rules i' = Some r" "active_state s"
        "is_orphan rules m (i', h', key')" "or_rule o' = r" "rh_id (or_host o') = h'" "or_key o' = key'"
        unfolding orphans_def by (auto split: option.splits if_splits) (metis (no_types))+
      then show "\<exists>s x r. ?P s x r" using assms(2) o'(2) by (auto simp: or_akey_def)
    next
      assume "\<exists>s x r. ?P s x r"
      then obtain s x r where P: "?P s x r" by blast
      let ?o = "\<lparr>or_rule = r, or_host = \<lparr>rh_id = h, rh_hostname = hr_hostname x\<rparr>, or_key = key,
        or_value = (case as_last_value s of None \<Rightarrow> Fin 0 | Some v \<Rightarrow> v)\<rparr>"
      have "?o \<in> set (orphans rules m d)" unfolding orphans_def set_concat set_map
        by (rule UN_I, rule imageI, rule P [THEN conjunct1]) (use P in simp)
      moreover have "or_akey ?o = (i, h, key)" using assms(2) P by (simp add: or_akey_def)
      ultimately show "(i, h, key) \<in> ?L" by (metis imageI)
    qed
    also have "\<dots> \<longleftrightarrow> (i, h, key) \<in> ?R" using host [of h]
      by (auto simp: alive_def is_orphan_def get_set [OF wf] split: option.splits)
    finally show ?thesis .
  qed
  then have "k \<in> ?L \<longleftrightarrow> k \<in> ?R" for k by (cases k) (simp only:)
  then show ?thesis by blast
qed

lemma rules_by_id:
  assumes "distinct (map ru_ID rs)"
  shows "get (fold (\<lambda>r. put (ru_ID r) r) rs []) i = Some r \<longleftrightarrow> r \<in> set rs \<and> ru_ID r = i"
proof (cases "i \<in> ru_ID ` set rs")
  case True
  then obtain x where x: "x \<in> set rs" "ru_ID x = i" by auto
  then have "get (fold (\<lambda>r. put (ru_ID r) r) rs []) i = Some x" using fold_put_mem [OF assms] by blast
  then show ?thesis using x assms by (auto simp: distinct_map dest: inj_onD)
next
  case False
  then show ?thesis using fold_put_other [OF False, of "[]"] by auto
qed

text \<open>
  C25. After a pass in which no statement fails, an alert is pending or firing exactly when its rule
  is enabled, its host is live and selected by the rule, and the group of measurements with
  its labels exists and meets the rule's condition now: no alert survives the disabling of its
  rule, the loss of its host or of its data, and none is missed. Assumed of the database: a row of
  alert states belongs to a row of hosts (the foreign key), rule numbers are unique.
\<close>

theorem active_iff_condition:
  assumes "healthy ev" "db_ok d" "distinct (map ru_ID rs)"
    "\<forall>i h key. alive d (i, h, key) \<longrightarrow> h \<in> hr_id ` set (db_hosts d)" "r \<in> set rs"
  shows "alive (evaluateAll ev (Some rs) (Some cs) d) (ru_ID r, hid, key) \<longleftrightarrow>
    ru_Enabled r \<and> (\<exists>h\<in>set (db_hosts d). hr_id h = hid \<and> selects (ru_HostSelector r) h) \<and> condition ev r hid key"
proof -
  let ?rules = "fold (\<lambda>r. put (ru_ID r) r) rs []"
  obtain d1 m1 where er: "eval_rules ev cs rs [] d = (d1, m1)" "db_ok d1" "db_hosts d1 = db_hosts d"
    "ru_Enabled r \<Longrightarrow> \<exists>ids. get m1 (ru_ID r) = Some ids \<and> set ids = selected r (db_hosts d)"
    "alive d1 (ru_ID r, hid, key) =
       (if ru_Enabled r \<and> hid \<in> selected r (db_hosts d) then condition ev r hid key else alive d (ru_ID r, hid, key))"
    using eval_rules_effect [OF assms(1-3)] assms(5) by metis
  let ?d = "d1\<lparr>db_stmts := db_stmts d1 + 1\<rparr>"
  have keys: "or_akey ` set (orphans ?rules m1 ?d) = {(i, h, key) | i h key. alive d1 (i, h, key) \<and>
      h \<in> hr_id ` set (db_hosts d) \<and> is_orphan ?rules m1 (i, h, key)}"
    using orphans_keys [where d = ?d and rules = ?rules and m = m1] rules_by_id [OF assms(3)] er(2,3) by simp
  have all: "evaluateAll ev (Some rs) (Some cs) d = resolve_orphans ev cs (orphans ?rules m1 ?d) ?d"
    using er(1) assms(1) by (simp add: evaluateAll_def sweepOrphans_def)
  have "alive (evaluateAll ev (Some rs) (Some cs) d) (ru_ID r, hid, key) \<longleftrightarrow>
      alive d1 (ru_ID r, hid, key) \<and> \<not> (hid \<in> hr_id ` set (db_hosts d) \<and> is_orphan ?rules m1 (ru_ID r, hid, key))"
    using resolve_orphans_effect [OF assms(1), where d = ?d and cs = cs and xs = "orphans ?rules m1 ?d"] unfolding all keys
    by (auto simp: effect_def)
  moreover have "is_orphan ?rules m1 (ru_ID r, hid, key) \<longleftrightarrow> \<not> (ru_Enabled r \<and> hid \<in> selected r (db_hosts d))"
    using rules_by_id [OF assms(3), of "ru_ID r" r] assms(5) er(4) by (auto simp: is_orphan_def)
  moreover have "hid \<in> selected r (db_hosts d) \<longleftrightarrow> (\<exists>h\<in>set (db_hosts d). hr_id h = hid \<and> selects (ru_HostSelector r) h)"
    by (auto simp: selected_def)
  ultimately show ?thesis using er(5) assms(4) by auto
qed

definition rule1 :: rule where
  "rule1 = \<lparr>ru_ID = 1, ru_Name = ''cpu'', ru_HostSelector = \<lparr>hs_All = True, hs_IDs = [], hs_Tags = []\<rparr>, ru_Metric = 105,
     ru_Comparator = ''>'', ru_Threshold = Fin 90, ru_ForS = 60, ru_Severity = ''critical'', ru_CooldownS = 300,
     ru_ChannelIDs = [], ru_Enabled = True\<rparr>"

definition host1 :: hostrow where
  "host1 = \<lparr>hr_id = 7, hr_hostname = ''web'', hr_tags = [], hr_deleted = False, hr_archived = False\<rparr>"

definition aenv1 :: aenv where
  "aenv1 = \<lparr>av_now = 1000 * Second, av_sql_now = 1000 * Second, av_fail = (\<lambda>_. False), av_broadcaster = True,
     av_groups = (\<lambda>_ _. [([(''cpu'', ''0'')], Fin 95), ([(''cpu'', ''1'')], Fin 20)])\<rparr>"

definition db1 :: db where
  "db1 = \<lparr>db_states = [((1, 7, ''cpu=1;''), \<lparr>as_state = Firing, as_since = 0, as_last_notified = Some 0, as_last_value = None\<rparr>)],
     db_history = [], db_hosts = [host1], db_sent = [], db_broadcasts = [], db_stmts = 0\<rparr>"

lemma aenv1_healthy: "healthy aenv1"
  by (simp add: healthy_def aenv1_def)

theorem active_iff_condition_witness:
  "alive (evaluateAll aenv1 (Some [rule1]) (Some []) db1) (1, 7, ''cpu=0;'') \<and>
   \<not> alive (evaluateAll aenv1 (Some [rule1]) (Some []) db1) (1, 7, ''cpu=1;'')"
proof -
  have "condition aenv1 rule1 7 ''cpu=0;''" "\<not> condition aenv1 rule1 7 ''cpu=1;''" by code_simp+
  moreover have "ru_ID rule1 = 1" "ru_Enabled rule1" "selects (ru_HostSelector rule1) host1" "hr_id host1 = 7"
    "db_hosts db1 = [host1]" by (simp_all add: rule1_def host1_def selects_def db1_def)
  moreover have "db_ok db1" "\<forall>i h key. alive db1 (i, h, key) \<longrightarrow> h \<in> hr_id ` set (db_hosts db1)"
    by (auto simp: db_ok_def db1_def alive_def host1_def split: if_splits)
  ultimately show ?thesis
    using active_iff_condition [OF aenv1_healthy, of db1 "[rule1]" rule1 "[]" 7] by simp
qed

section \<open>The machine of one alert\<close>

text \<open>
  What an alert is, abstractly: quiet, waiting since an instant at which its condition began to
  hold, or ringing, with the instant of the last notification. A step reads the clock and the
  condition; it may emit a notification.
\<close>

datatype alarm = Quiet | Waiting time | Ringing time

fun alarm_step :: "int \<Rightarrow> int \<Rightarrow> time \<Rightarrow> bool \<Rightarrow> alarm \<Rightarrow> alarm \<times> (time \<times> string) list" where
  "alarm_step hold cool now True Quiet =
     (if hold \<le> 0 then (Ringing now, [(now, ''fire'')]) else (Waiting now, []))"
| "alarm_step hold cool now True (Waiting t) =
     (if hold \<le> now - t then (Ringing now, [(now, ''fire'')]) else (Waiting t, []))"
| "alarm_step hold cool now True (Ringing n) =
     (if cool \<le> now - n then (Ringing now, [(now, ''fire'')]) else (Ringing n, []))"
| "alarm_step hold cool now False (Ringing n) = (Quiet, [(now, ''resolve'')])"
| "alarm_step hold cool now False a = (Quiet, [])"

fun alarm_run :: "int \<Rightarrow> int \<Rightarrow> (time \<times> bool) list \<Rightarrow> alarm \<Rightarrow> alarm \<times> (time \<times> string) list" where
  "alarm_run hold cool [] a = (a, [])"
| "alarm_run hold cool ((t, p) # es) a =
     (case alarm_step hold cool t p a of (a', ns) \<Rightarrow> (case alarm_run hold cool es a' of (a'', ns') \<Rightarrow> (a'', ns @ ns')))"

lemma alarm_run_snoc:
  "alarm_run hold cool (es @ [(t, p)]) a =
     (let (a', ns) = alarm_run hold cool es a; (a'', ns') = alarm_step hold cool t p a' in (a'', ns @ ns'))"
  by (induction es arbitrary: a) (auto simp: Let_def split: prod.splits)

text \<open>The evaluations since the condition last became true, up to the last one.\<close>

definition streak :: "(time \<times> bool) list \<Rightarrow> (time \<times> bool) list" where
  "streak es = rev (takeWhile snd (rev es))"

lemma streak_snoc: "streak (es @ [(t, p)]) = (if p then streak es @ [(t, p)] else [])"
  by (simp add: streak_def)

lemma alarm_run_streak:
  "sorted (map fst es) \<Longrightarrow>
    (case streak es of
       [] \<Rightarrow> fst (alarm_run hold cool es Quiet) = Quiet
     | e # _ \<Rightarrow> if hold \<le> fst (last es) - fst e then (\<exists>n. fst (alarm_run hold cool es Quiet) = Ringing n)
               else fst (alarm_run hold cool es Quiet) = Waiting (fst e))"
proof (induction es rule: rev_induct)
  case (snoc x es)
  obtain t p where x: "x = (t, p)" by (cases x)
  have s: "sorted (map fst es)" and le: "\<forall>e\<in>set es. fst e \<le> t" using snoc.prems by (auto simp: x sorted_append)
  have last: "fst (last es) \<le> t" if "streak es \<noteq> []"
    using that le by (cases es rule: rev_cases) (auto simp: streak_def)
  show ?case
  proof (cases p)
    case False
    then show ?thesis
      by (cases "fst (alarm_run hold cool es Quiet)") (simp_all add: x streak_snoc alarm_run_snoc case_prod_beta Let_def)
  next
    case True
    show ?thesis
    proof (cases "streak es")
      case Nil
      then show ?thesis using snoc.IH [OF s] True by (simp add: x streak_snoc alarm_run_snoc case_prod_beta Let_def)
    next
      case (Cons e rest)
      then show ?thesis using snoc.IH [OF s] True last
        by (auto simp: x streak_snoc alarm_run_snoc case_prod_beta Let_def split: if_splits)
    qed
  qed
qed (simp add: streak_def)

text \<open>Notifications that follow each other: a resolution follows a fire, a repeated fire only after the cooldown.\<close>

definition follows :: "int \<Rightarrow> time \<times> string \<Rightarrow> time \<times> string \<Rightarrow> bool" where
  "follows cool a b \<longleftrightarrow> (if snd b = ''fire'' then snd a = ''resolve'' \<or> cool \<le> fst b - fst a else snd a = ''fire'' \<and> snd b = ''resolve'')"

lemma alarm_run_notes:
  "let (a, ns) = alarm_run hold cool es Quiet in
     successively (follows cool) ns \<and> (ns \<noteq> [] \<longrightarrow> snd (hd ns) = ''fire'') \<and>
     (case a of Ringing n \<Rightarrow> ns \<noteq> [] \<and> last ns = (n, ''fire'') | _ \<Rightarrow> ns \<noteq> [] \<longrightarrow> snd (last ns) = ''resolve'')"
proof (induction es rule: rev_induct)
  case (snoc x es)
  obtain t p where x: "x = (t, p)" by (cases x)
  obtain a ns where run: "alarm_run hold cool es Quiet = (a, ns)" by (cases "alarm_run hold cool es Quiet")
  from snoc.IH show ?case unfolding run
    by (cases a; cases p; cases "ns = []") (auto simp: x alarm_run_snoc run Let_def follows_def successively_append_iff)
qed simp

text \<open>The instants and conditions of a history of evaluations, without the measured values.\<close>

definition conditions :: "(time \<times> bool \<times> 'v) list \<Rightarrow> (time \<times> bool) list" where
  "conditions es = map (\<lambda>(t, p, _). (t, p)) es"

lemma conditions_simps [simp]:
  "conditions [] = []" "conditions ((t, p, v) # es) = (t, p) # conditions es"
  by (simp_all add: conditions_def)

lemma conditions_times: "map fst (conditions es) = map fst es"
  by (induction es) auto

lemma conditions_last: "es \<noteq> [] \<Longrightarrow> fst (last (conditions es)) = fst (last es)"
  by (cases es rule: rev_cases) (auto simp: conditions_def split: prod.splits)

text \<open>
  An implementation of the machine: a step on its own state, seen through \<open>abs\<close> and the list of
  notifications it has emitted. Runs of the implementation are then runs of the machine.
\<close>

locale alarm_impl =
  fixes step :: "time \<Rightarrow> bool \<Rightarrow> 'v \<Rightarrow> 'd \<Rightarrow> 'd"
    and abs :: "'d \<Rightarrow> alarm"
    and emitted :: "'d \<Rightarrow> (time \<times> string) list"
    and inv :: "'d \<Rightarrow> bool"
    and hold :: int
    and cool :: int
  assumes step_inv: "inv d \<Longrightarrow> inv (step t p v d)"
    and step_abs: "inv d \<Longrightarrow> abs (step t p v d) = fst (alarm_step hold cool t p (abs d))"
    and step_notes: "inv d \<Longrightarrow> emitted (step t p v d) = emitted d @ snd (alarm_step hold cool t p (abs d))"
begin

lemma run_refines:
  "inv d \<Longrightarrow> inv (fold (\<lambda>(t, p, v). step t p v) es d) \<and>
     abs (fold (\<lambda>(t, p, v). step t p v) es d) = fst (alarm_run hold cool (conditions es) (abs d)) \<and>
     emitted (fold (\<lambda>(t, p, v). step t p v) es d) = emitted d @ snd (alarm_run hold cool (conditions es) (abs d))"
  by (induction es arbitrary: d) (auto simp: step_inv step_abs step_notes split: prod.splits)

lemma held_then_rings:
  assumes "inv d" "abs d = Quiet" "sorted (map fst es)"
  shows "case streak (conditions es) of
       [] \<Rightarrow> abs (fold (\<lambda>(t, p, v). step t p v) es d) = Quiet
     | e # _ \<Rightarrow> if hold \<le> fst (last es) - fst e then (\<exists>n. abs (fold (\<lambda>(t, p, v). step t p v) es d) = Ringing n)
               else abs (fold (\<lambda>(t, p, v). step t p v) es d) = Waiting (fst e)"
proof -
  have a: "abs (fold (\<lambda>(t, p, v). step t p v) es d) = fst (alarm_run hold cool (conditions es) Quiet)"
    using run_refines [OF assms(1), of es] assms(2) by simp
  have "sorted (map fst (conditions es))" using assms(3) by (simp add: conditions_times)
  note run = alarm_run_streak [OF this, of hold cool]
  show ?thesis
  proof (cases "streak (conditions es)")
    case Nil
    then show ?thesis using run a by simp
  next
    case (Cons e rest)
    then have "es \<noteq> []" by (auto simp: streak_def)
    then show ?thesis using run a Cons by (simp add: conditions_last)
  qed
qed

lemma notes_spaced:
  assumes "inv d" "abs d = Quiet"
  shows "\<exists>ns. emitted (fold (\<lambda>(t, p, v). step t p v) es d) = emitted d @ ns \<and> successively (follows cool) ns \<and>
    (ns \<noteq> [] \<longrightarrow> snd (hd ns) = ''fire'') \<and>
    (ns \<noteq> [] \<and> snd (last ns) = ''fire'' \<longleftrightarrow> (\<exists>n. abs (fold (\<lambda>(t, p, v). step t p v) es d) = Ringing n))"
proof -
  let ?es = "conditions es"
  obtain a ns where r: "alarm_run hold cool ?es Quiet = (a, ns)" by (cases "alarm_run hold cool ?es Quiet")
  then show ?thesis using alarm_run_notes [of hold cool ?es] run_refines [OF assms(1), of es] assms(2)
    by (intro exI [of _ ns]) (cases a; force)
qed

end

text \<open>The row of an alert as a state of the machine, and what the evaluator keeps of it.\<close>

definition alarm_of :: "akey \<Rightarrow> db \<Rightarrow> alarm" where
  "alarm_of k d = (case get (db_states d) k of
     None \<Rightarrow> Quiet
   | Some s \<Rightarrow> (case as_state s of Ok \<Rightarrow> Quiet | Pending \<Rightarrow> Waiting (as_since s) | Firing \<Rightarrow> Ringing (the (as_last_notified s))))"

definition notes_of :: "db \<Rightarrow> (time \<times> string) list" where
  "notes_of d = map (\<lambda>e. (br_Time e, br_Kind e)) (db_broadcasts d)"

definition rule_ok :: "rule \<Rightarrow> bool" where
  "rule_ok r \<longleftrightarrow> \<bar>ru_ForS r\<bar> < 2 ^ 31 \<and> \<bar>ru_CooldownS r\<bar> < 2 ^ 31"

definition alert_inv :: "aenv \<Rightarrow> rule \<Rightarrow> akey \<Rightarrow> db \<Rightarrow> bool" where
  "alert_inv ev r k d \<longleftrightarrow> healthy ev \<and> av_broadcaster ev \<and> rule_ok r \<and>
     (\<forall>s. get (db_states d) k = Some s \<and> as_state s = Firing \<longrightarrow> as_last_notified s \<noteq> None) \<and>
     length (filter (open_of k) (db_history d)) = (case alarm_of k d of Ringing _ \<Rightarrow> 1 | _ \<Rightarrow> 0)"

definition at_time :: "aenv \<Rightarrow> time \<Rightarrow> aenv" where
  "at_time ev t = ev\<lparr>av_now := t, av_sql_now := t\<rparr>"

definition evaluation :: "aenv \<Rightarrow> rule \<Rightarrow> ruleHost \<Rightarrow> string \<Rightarrow> labels \<Rightarrow> (int, channel) gomap \<Rightarrow> time \<Rightarrow> bool \<Rightarrow> f64 \<Rightarrow> db \<Rightarrow> db" where
  "evaluation ev r h key l cs t p v d = fst (transition (at_time ev t) r h key l p v cs d)"

lemma at_time_simps [simp]:
  "av_now (at_time ev t) = t" "av_sql_now (at_time ev t) = t" "healthy (at_time ev t) = healthy ev"
  "av_broadcaster (at_time ev t) = av_broadcaster ev"
  by (simp_all add: at_time_def healthy_def)

lemma seconds_bounds: "\<bar>n\<bar> < 2 ^ 31 \<Longrightarrow> - (2 ^ 63) < n * Second \<and> n * Second < 2 ^ 63 - 1"
  by (auto simp: Second_def abs_less_iff)

lemma seconds_exact: "\<bar>n\<bar> < 2 ^ 31 \<Longrightarrow> seconds n = n * Second"
  using seconds_bounds [of n] by (simp add: seconds_def in_i64_def)

lemma time_Sub_less_seconds: "\<bar>n\<bar> < 2 ^ 31 \<Longrightarrow> time_Sub t u < seconds n \<longleftrightarrow> t - u < n * Second"
  using seconds_bounds [of n] by (auto simp: time_Sub_def seconds_exact)

lemma close_latest_open:
  assumes "length (filter (open_of k) (db_history d)) = 1"
  shows "filter (open_of k) (db_history (close_latest k t d)) = []"
proof -
  obtain h where h: "filter (open_of k) (db_history d) = [h]" using assms by (cases "filter (open_of k) (db_history d)") auto
  have "filter (open_of k) hs = [h] \<Longrightarrow> filter (open_of k) (close_at k (hi_fired_at h) t hs) = []" for hs
    by (induction hs) (auto simp: open_of_def filter_eq_Cons_iff split: if_splits)
  then show ?thesis using h by (simp add: close_latest_def)
qed

lemma alarm_of_simps [simp]:
  "alarm_of k (d\<lparr>db_stmts := n\<rparr>) = alarm_of k d"
  "alarm_of k (d\<lparr>db_history := hs\<rparr>) = alarm_of k d"
  "alarm_of k (close_latest k' t d) = alarm_of k d"
  "alarm_of k (dispatch ev kind r h l v cs d) = alarm_of k d"
  by (simp_all add: alarm_of_def)

lemma notes_dispatch [simp]:
  "notes_of (dispatch ev kind r h l v cs d) = notes_of d @ (if av_broadcaster ev then [(av_now ev, kind)] else [])"
  by (simp add: notes_of_def dispatch_def Let_def)

lemma notes_of_simps [simp]:
  "notes_of (d\<lparr>db_stmts := n\<rparr>) = notes_of d"
  "notes_of (d\<lparr>db_history := hs\<rparr>) = notes_of d"
  "notes_of (set_state k f d) = notes_of d"
  "notes_of (upsert_pending t k v d) = notes_of d"
  "notes_of (close_latest k t d) = notes_of d"
  by (simp_all add: notes_of_def)

text \<open>A step of the evaluator is a step of the machine.\<close>

definition refines_step :: "aenv \<Rightarrow> rule \<Rightarrow> akey \<Rightarrow> db \<Rightarrow> alarm \<times> (time \<times> string) list \<Rightarrow> db \<Rightarrow> bool" where
  "refines_step ev r k d an d' \<longleftrightarrow> alert_inv ev r k d' \<and> alarm_of k d' = fst an \<and> notes_of d' = notes_of d @ snd an \<and>
     (\<forall>k'. k' \<noteq> k \<longrightarrow> get (db_states d') k' = get (db_states d) k')"

lemma transition_pending_refines:
  assumes "alert_inv ev r k d" "k = (ru_ID r, rh_id h, key)" "alarm_of k d = Waiting since"
  shows "refines_step ev r k d (alarm_step (ru_ForS r * Second) cool t True (Waiting since))
    (fst (transition_pending (at_time ev t) r h key l v cs since d))"
  using assms time_Sub_less_seconds [of "ru_ForS r" t since]
  by (auto simp: refines_step_def transition_pending_def Let_def alert_inv_def rule_ok_def alarm_of_def open_of_def
      split: option.splits st.splits)

lemma alert_inv_stmts [simp]: "alert_inv ev r k (d\<lparr>db_stmts := n\<rparr>) = alert_inv ev r k d"
  by (simp add: alert_inv_def)

lemma transition_refines_quiet:
  assumes "alert_inv ev r k d" "k = (ru_ID r, rh_id h, key)" "alarm_of k d = Quiet"
  shows "refines_step ev r k d (alarm_step (ru_ForS r * Second) cool t p Quiet)
    (fst (transition (at_time ev t) r h key l p v cs d))"
proof -
  let ?d = "upsert_pending t k v (d\<lparr>db_stmts := db_stmts d + 1 + 1\<rparr>)"
  have ok: "(case get (db_states d) k of None \<Rightarrow> Ok | Some s \<Rightarrow> as_state s) = Ok" and h: "healthy ev"
    using assms(1,3) by (auto simp: alarm_of_def alert_inv_def split: option.splits st.splits)
  have w: "alarm_of k ?d = Waiting t" by (auto simp: alarm_of_def upsert_pending_def split: option.split)
  have inv: "alert_inv ev r k ?d"
    using assms(1) w assms(3) by (auto simp: alert_inv_def upsert_pending_def split: option.splits)
  have other: "get (db_states ?d) k' = get (db_states d) k'" if "k' \<noteq> k" for k'
    using that by (simp add: upsert_pending_def)
  have "refines_step ev r k ?d (alarm_step (ru_ForS r * Second) cool t True (Waiting t))
    (fst (transition_pending (at_time ev t) r h key l v cs t ?d))"
    by (rule transition_pending_refines [OF inv assms(2) w])
  then show ?thesis
    using assms(1,3) ok h w inv other
    by (cases p) (auto simp: transition_def Let_def refines_step_def assms(2) Second_def)
qed

lemma transition_refines_waiting:
  assumes "alert_inv ev r k d" "k = (ru_ID r, rh_id h, key)" "alarm_of k d = Waiting since"
  shows "refines_step ev r k d (alarm_step (ru_ForS r * Second) cool t p (Waiting since))
    (fst (transition (at_time ev t) r h key l p v cs d))"
proof -
  let ?d = "d\<lparr>db_stmts := db_stmts d + 1\<rparr>"
  obtain s where s: "get (db_states d) k = Some s" "as_state s = Pending" "as_since s = since"
    using assms(3) by (auto simp: alarm_of_def split: option.splits st.splits)
  have h: "healthy ev" using assms(1) by (simp add: alert_inv_def)
  have "refines_step ev r k ?d (alarm_step (ru_ForS r * Second) cool t True (Waiting since))
    (fst (transition_pending (at_time ev t) r h key l v cs since ?d))"
    by (rule transition_pending_refines) (use assms in simp_all)
  then show ?thesis
    using assms(1,3) s h
    by (cases p) (auto simp: transition_def Let_def refines_step_def assms(2) alert_inv_def alarm_of_def)
qed

lemma transition_refines_ringing:
  assumes "alert_inv ev r k d" "k = (ru_ID r, rh_id h, key)" "alarm_of k d = Ringing n"
  shows "refines_step ev r k d (alarm_step hold (ru_CooldownS r * Second) t p (Ringing n))
    (fst (transition (at_time ev t) r h key l p v cs d))"
proof -
  obtain s where s: "get (db_states d) k = Some s" "as_state s = Firing" "as_last_notified s = Some n"
    using assms(1,3) by (auto simp: alarm_of_def alert_inv_def split: option.splits st.splits)
  have h: "healthy ev" and c: "time_Sub t n < seconds (ru_CooldownS r) \<longleftrightarrow> t - n < ru_CooldownS r * Second"
    using assms(1) time_Sub_less_seconds by (simp_all add: alert_inv_def rule_ok_def)
  have cl: "filter (open_of k) (db_history (close_latest k t (set_state k f (d\<lparr>db_stmts := m\<rparr>)\<lparr>db_stmts := m'\<rparr>))) = []" for f m m'
    using assms(1,3) by (intro close_latest_open) (simp add: alert_inv_def)
  show ?thesis
    using assms(1,3) s h c cl
    by (cases p) (auto simp: transition_def Let_def refines_step_def assms(2) alert_inv_def alarm_of_def not_less)
qed

lemma evaluation_refines:
  assumes "alert_inv ev r (ru_ID r, rh_id h, key) d"
  shows "refines_step ev r (ru_ID r, rh_id h, key) d
    (alarm_step (ru_ForS r * Second) (ru_CooldownS r * Second) t p (alarm_of (ru_ID r, rh_id h, key) d))
    (evaluation ev r h key l cs t p v d)"
  unfolding evaluation_def
  using transition_refines_quiet [OF assms refl] transition_refines_waiting [OF assms refl]
    transition_refines_ringing [OF assms refl]
  by (cases "alarm_of (ru_ID r, rh_id h, key) d") simp_all

interpretation alert: alarm_impl "evaluation ev r h key l cs" "alarm_of (ru_ID r, rh_id h, key)" notes_of
  "alert_inv ev r (ru_ID r, rh_id h, key)" "ru_ForS r * Second" "ru_CooldownS r * Second"
  for ev r h key l cs
  by unfold_locales (use evaluation_refines in \<open>auto simp: refines_step_def\<close>)

section \<open>Guarantees\<close>

text \<open>
  C26. The evaluator implements the machine of an alert: one evaluation of a rule on a host and a
  set of labels, in which the statements succeed, takes the row of the alert from a state of
  the machine to the next one, emits its notification, leaves every other alert alone and
  keeps one open history entry exactly while the alert is firing.
\<close>

theorem evaluation_refines_machine:
  assumes "alert_inv ev r (ru_ID r, rh_id h, key) d"
  shows "alarm_of (ru_ID r, rh_id h, key) (evaluation ev r h key l cs t p v d) =
      fst (alarm_step (ru_ForS r * Second) (ru_CooldownS r * Second) t p (alarm_of (ru_ID r, rh_id h, key) d)) \<and>
    notes_of (evaluation ev r h key l cs t p v d) = notes_of d @
      snd (alarm_step (ru_ForS r * Second) (ru_CooldownS r * Second) t p (alarm_of (ru_ID r, rh_id h, key) d)) \<and>
    (\<forall>k. k \<noteq> (ru_ID r, rh_id h, key) \<longrightarrow> get (db_states (evaluation ev r h key l cs t p v d)) k = get (db_states d) k) \<and>
    length (filter (open_of (ru_ID r, rh_id h, key)) (db_history (evaluation ev r h key l cs t p v d))) =
      (case alarm_of (ru_ID r, rh_id h, key) (evaluation ev r h key l cs t p v d) of Ringing _ \<Rightarrow> 1 | _ \<Rightarrow> 0)"
  using evaluation_refines [OF assms, of t p l cs v] by (auto simp: refines_step_def alert_inv_def)

definition rhost1 :: ruleHost where
  "rhost1 = \<lparr>rh_id = 7, rh_hostname = ''web''\<rparr>"

definition db0 :: db where
  "db0 = \<lparr>db_states = [], db_history = [], db_hosts = [host1], db_sent = [], db_broadcasts = [], db_stmts = 0\<rparr>"

lemma db0_inv: "alert_inv aenv1 rule1 (ru_ID rule1, rh_id rhost1, key) db0"
  by (simp add: alert_inv_def healthy_def aenv1_def rule_ok_def rule1_def alarm_of_def db0_def)

lemma db0_quiet: "alarm_of k db0 = Quiet"
  by (simp add: alarm_of_def db0_def)

theorem evaluation_refines_machine_witness:
  "alarm_of (1, 7, []) (evaluation aenv1 rule1 rhost1 [] [] [] (5 * Second) True (Fin 95) db0) = Waiting (5 * Second)"
  using evaluation_refines_machine [OF db0_inv, of "[]" "[]" "[]" "5 * Second" True "Fin 95"]
  by (simp add: db0_quiet rule1_def rhost1_def Second_def)





text \<open>
  Notifications of an alert are well formed over any history of evaluations from a quiet
  alert: the first one is a fire; a resolution comes only after a fire; between a fire and
  the next fire there is a resolution or at least the rule's cooldown; and the last one is a
  fire exactly when the alert is firing.
\<close>

lemma notifications_spaced:
  assumes "alert_inv ev r (ru_ID r, rh_id h, key) d" "alarm_of (ru_ID r, rh_id h, key) d = Quiet"
  shows "let d' = fold (\<lambda>(t, p, v). evaluation ev r h key l cs t p v) es d in
    \<exists>ns. notes_of d' = notes_of d @ ns \<and> successively (follows (ru_CooldownS r * Second)) ns \<and>
      (ns \<noteq> [] \<longrightarrow> snd (hd ns) = ''fire'') \<and>
      (ns \<noteq> [] \<and> snd (last ns) = ''fire'' \<longleftrightarrow> (\<exists>n. alarm_of (ru_ID r, rh_id h, key) d' = Ringing n))"
  using alert.notes_spaced [OF assms] unfolding Let_def .

end
