(* ===== verification/Ingest_Batcher.thy ===== *)
theory Ingest_Batcher
  imports Go_Prelude
begin

text \<open>
  \<open>internal/server/ingest/batcher.go\<close>: the queue between the ingest requests and the table of
  measurements. Requests reserve room, then commit or release the reservation; one goroutine
  receives rows, collects them in a buffer and copies the buffer into the database. The
  theory has the operations, the conversion of a batch into rows, the transaction that stores
  snapshots, and the interleavings of requests and the goroutine as a step relation.
\<close>

section \<open>Rows\<close>

text \<open>JSON labels: \<^verbatim>\<open>json.Marshal\<close> of a nil map is \<open>null\<close>, of any other map an object.\<close>

datatype jlabels = JNull | JObject labels

record row =
  rw_Time :: time
  rw_HostID :: int
  rw_Metric :: int
  rw_Labels :: jlabels
  rw_Value :: f64

record processRow =
  pw_Time :: time
  pw_HostID :: int
  pw_PID :: int
  pw_Name :: string
  pw_User :: string
  pw_Cmdline :: string
  pw_CPUPct :: f64
  pw_MemRSS :: int
  pw_Status :: string
  pw_NThreads :: int

record containerRow =
  cw_Time :: time
  cw_HostID :: int
  cw_CID :: string
  cw_Name :: string
  cw_Image :: string
  cw_State :: string
  cw_CPUPct :: f64
  cw_MemUsed :: int
  cw_MemLimit :: int
  cw_RxBytes :: int
  cw_TxBytes :: int

record portRow =
  ow_Time :: time
  ow_HostID :: int
  ow_Proto :: string
  ow_Addr :: string
  ow_Port :: int
  ow_PID :: "int option"
  ow_Process :: "string option"

section \<open>The queue\<close>

text \<open>
  The fields of \<open>Batcher\<close>, the two local variables of its goroutine (\<open>buf\<close>, \<open>retryAt\<close>) and the
  table it copies to. The channel is the list of its queued rows.
\<close>

record batcher =
  ba_in :: "row list"
  ba_reserved :: int
  ba_maxRows :: int
  ba_retainRows :: int
  ba_maxAge :: duration
  ba_dropped :: int
  ba_flushed :: int
  ba_buf :: "row list"
  ba_retryAt :: time
  ba_metric_points :: "row list"

definition queue_cap :: int where
  "queue_cap = 200000"

definition u64 :: "int \<Rightarrow> int" where
  "u64 x = x mod 2 ^ 64"

definition NewBatcher :: "int \<Rightarrow> duration \<Rightarrow> row list \<Rightarrow> batcher" where
  "NewBatcher maxRows maxAge tab =
     (let maxRows = (if maxRows \<le> 0 then 50000 else maxRows);
          maxAge = (if maxAge \<le> 0 then 2 * Second else maxAge)
      in \<lparr>ba_in = [], ba_reserved = 0, ba_maxRows = maxRows, ba_retainRows = i64 (maxRows * 4), ba_maxAge = maxAge,
          ba_dropped = 0, ba_flushed = 0, ba_buf = [], ba_retryAt = zero_time, ba_metric_points = tab\<rparr>)"

text \<open>\<open>False\<close> is \<open>ErrBackpressure\<close>.\<close>

definition Reserve :: "int \<Rightarrow> batcher \<Rightarrow> batcher \<times> bool" where
  "Reserve n b =
     (if n \<le> 0 then (b, True)
      else if queue_cap - int (length (ba_in b)) - ba_reserved b < n
      then (b\<lparr>ba_dropped := u64 (ba_dropped b + n)\<rparr>, False)
      else (b\<lparr>ba_reserved := ba_reserved b + n\<rparr>, True))"

text \<open>One round of the loop of \<open>CommitReserved\<close>: a send on a full channel blocks (\<open>None\<close>).\<close>

definition send_row :: "row \<Rightarrow> batcher \<Rightarrow> batcher option" where
  "send_row r b =
     (if queue_cap \<le> int (length (ba_in b)) then None
      else Some (b\<lparr>ba_in := ba_in b @ [r], ba_reserved := ba_reserved b - 1\<rparr>))"

fun CommitReserved :: "row list \<Rightarrow> batcher \<Rightarrow> batcher option" where
  "CommitReserved [] b = Some b"
| "CommitReserved (r # rs) b = (case send_row r b of None \<Rightarrow> None | Some b \<Rightarrow> CommitReserved rs b)"

definition ReleaseReserved :: "int \<Rightarrow> batcher \<Rightarrow> batcher" where
  "ReleaseReserved n b = (if n \<le> 0 then b else b\<lparr>ba_reserved := ba_reserved b - n\<rparr>)"

definition Enqueue :: "row list \<Rightarrow> batcher \<Rightarrow> (batcher \<times> bool) option" where
  "Enqueue rows b =
     (if rows = [] then Some (b, True)
      else (case Reserve (int (length rows)) b of
              (b, False) \<Rightarrow> Some (b, False)
            | (b, True) \<Rightarrow> map_option (\<lambda>b. (b, True)) (CommitReserved rows b)))"

definition Stats :: "batcher \<Rightarrow> int \<times> int \<times> int" where
  "Stats b = (int (length (ba_in b)), ba_flushed b, ba_dropped b)"

text \<open>
  \<open>copyRows\<close> with the outcome \<open>ok\<close> of the COPY statement, which stores all rows or none. The JSON
  text of labels is never empty, so its replacement by an empty object does not happen.
\<close>

definition copyRows :: "bool \<Rightarrow> row list \<Rightarrow> batcher \<Rightarrow> batcher \<times> bool" where
  "copyRows ok rows b = (if ok then (b\<lparr>ba_metric_points := ba_metric_points b @ rows\<rparr>, True) else (b, False))"

definition flush :: "time \<Rightarrow> bool \<Rightarrow> batcher \<Rightarrow> batcher" where
  "flush now ok b =
     (if ba_buf b = [] then b
      else (case copyRows ok (ba_buf b) b of
              (b, False) \<Rightarrow>
                (let b = b\<lparr>ba_retryAt := now + ba_maxAge b\<rparr>;
                     overflow = int (length (ba_buf b)) - ba_retainRows b
                 in if 0 < overflow
                    then b\<lparr>ba_dropped := u64 (ba_dropped b + overflow), ba_buf := drop (nat overflow) (ba_buf b)\<rparr>
                    else b)
            | (b, True) \<Rightarrow> b\<lparr>ba_flushed := u64 (ba_flushed b + int (length (ba_buf b))), ba_buf := []\<rparr>))"

text \<open>The two cases of the loop that work: a row is received, or the timer fires (\<open>flush\<close>).\<close>

definition receive :: "time \<Rightarrow> bool \<Rightarrow> batcher \<Rightarrow> batcher" where
  "receive now ok b =
     (case ba_in b of
        [] \<Rightarrow> b
      | r # rs \<Rightarrow>
          (let b = b\<lparr>ba_in := rs, ba_buf := ba_buf b @ [r]\<rparr>
           in if ba_maxRows b \<le> int (length (ba_buf b)) \<and> \<not> now < ba_retryAt b then flush now ok b else b))"

text \<open>\<open>drainAndFlush\<close>, with the instants and outcomes of its attempts.\<close>

fun drain_in :: "row list \<Rightarrow> batcher \<Rightarrow> batcher" where
  "drain_in [] b = b"
| "drain_in (r # rs) b = drain_in rs (b\<lparr>ba_in := rs, ba_buf := ba_buf b @ [r]\<rparr>)"

function flush_attempts :: "nat \<Rightarrow> (nat \<Rightarrow> time \<times> bool) \<Rightarrow> batcher \<Rightarrow> batcher" where
  "flush_attempts attempt out b =
     (if attempt < 3 \<and> ba_buf b \<noteq> [] then flush_attempts (attempt + 1) out (flush (fst (out attempt)) (snd (out attempt)) b) else b)"
  by pat_completeness auto
termination
  by (relation "measure (\<lambda>(a, _, _). 3 - a)") auto

declare flush_attempts.simps [simp del]

definition drainAndFlush :: "(nat \<Rightarrow> time \<times> bool) \<Rightarrow> batcher \<Rightarrow> batcher" where
  "drainAndFlush out b =
     (let b = flush_attempts 0 out (drain_in (ba_in b) b)
      in if ba_buf b \<noteq> [] then b\<lparr>ba_dropped := u64 (ba_dropped b + int (length (ba_buf b)))\<rparr> else b)"

section \<open>Interleavings\<close>

text \<open>
  The batcher with its clients: the outstanding reservations, the rows that a commit holding
  the mutex has yet to send, and what happened to every row so far: the rows sent, those that left
  the buffer (with whether they were stored), and the number of rows refused by \<open>Reserve\<close>.
\<close>

record ingest =
  ig_b :: batcher
  ig_tickets :: "nat multiset"
  ig_commit :: "row list"
  ig_sent :: "row list"
  ig_gone :: "(row \<times> bool) list"
  ig_refused :: int

definition left_buf :: "bool \<Rightarrow> batcher \<Rightarrow> (row \<times> bool) list" where
  "left_buf ok b = (if ok then map (\<lambda>r. (r, True)) (ba_buf b)
     else map (\<lambda>r. (r, False)) (take (nat (int (length (ba_buf b)) - ba_retainRows b)) (ba_buf b)))"

inductive bstep :: "ingest \<Rightarrow> ingest \<Rightarrow> bool" where
  reserve: "\<lbrakk>ig_commit s = []; 0 < n; Reserve (int n) (ig_b s) = (b, True)\<rbrakk> \<Longrightarrow>
    bstep s (s\<lparr>ig_b := b, ig_tickets := add_mset n (ig_tickets s)\<rparr>)"
| refuse: "\<lbrakk>ig_commit s = []; 0 < n; Reserve (int n) (ig_b s) = (b, False)\<rbrakk> \<Longrightarrow>
    bstep s (s\<lparr>ig_b := b, ig_refused := ig_refused s + int n\<rparr>)"
| release: "\<lbrakk>ig_commit s = []; n \<in># ig_tickets s\<rbrakk> \<Longrightarrow>
    bstep s (s\<lparr>ig_b := ReleaseReserved (int n) (ig_b s), ig_tickets := ig_tickets s - {#n#}\<rparr>)"
| commit: "\<lbrakk>ig_commit s = []; length rows \<in># ig_tickets s\<rbrakk> \<Longrightarrow>
    bstep s (s\<lparr>ig_commit := rows, ig_tickets := ig_tickets s - {#length rows#}\<rparr>)"
| send: "\<lbrakk>ig_commit s = r # rs; send_row r (ig_b s) = Some b\<rbrakk> \<Longrightarrow>
    bstep s (s\<lparr>ig_b := b, ig_commit := rs, ig_sent := ig_sent s @ [r]\<rparr>)"
| append: "\<lbrakk>ba_in (ig_b s) = r # rs; b = ig_b s\<lparr>ba_in := rs, ba_buf := ba_buf (ig_b s) @ [r]\<rparr>;
     ba_maxRows b \<le> int (length (ba_buf b)) \<longrightarrow> now < ba_retryAt b\<rbrakk> \<Longrightarrow>
    bstep s (s\<lparr>ig_b := receive now ok (ig_b s)\<rparr>)"
| full: "\<lbrakk>ba_in (ig_b s) = r # rs; b = ig_b s\<lparr>ba_in := rs, ba_buf := ba_buf (ig_b s) @ [r]\<rparr>;
     ba_maxRows b \<le> int (length (ba_buf b)); \<not> now < ba_retryAt b\<rbrakk> \<Longrightarrow>
    bstep s (s\<lparr>ig_b := receive now ok (ig_b s), ig_gone := ig_gone s @ left_buf ok b\<rparr>)"
| timer: "bstep s (s\<lparr>ig_b := flush now ok (ig_b s), ig_gone := ig_gone s @ left_buf ok (ig_b s)\<rparr>)"

definition ingest_init :: "batcher \<Rightarrow> ingest" where
  "ingest_init b = \<lparr>ig_b = b, ig_tickets = {#}, ig_commit = [], ig_sent = [], ig_gone = [], ig_refused = 0\<rparr>"

definition ireach :: "int \<Rightarrow> duration \<Rightarrow> row list \<Rightarrow> ingest \<Rightarrow> bool" where
  "ireach maxRows maxAge tab s \<longleftrightarrow> bstep\<^sup>*\<^sup>* (ingest_init (NewBatcher maxRows maxAge tab)) s"

section \<open>Invariants\<close>

definition binv :: "row list \<Rightarrow> ingest \<Rightarrow> bool" where
  "binv tab s \<longleftrightarrow>
     ba_reserved (ig_b s) = int (sum_mset (ig_tickets s)) + int (length (ig_commit s)) \<and>
     int (length (ba_in (ig_b s))) + ba_reserved (ig_b s) \<le> queue_cap \<and>
     ig_sent s = map fst (ig_gone s) @ ba_buf (ig_b s) @ ba_in (ig_b s) \<and>
     ba_metric_points (ig_b s) = tab @ map fst (filter snd (ig_gone s)) \<and>
     ba_flushed (ig_b s) = u64 (int (length (filter snd (ig_gone s)))) \<and>
     ba_dropped (ig_b s) = u64 (ig_refused s + int (length (filter (\<lambda>x. \<not> snd x) (ig_gone s)))) \<and>
     0 \<le> ba_retainRows (ig_b s)"

lemma u64_add [simp]: "u64 (u64 a + b) = u64 (a + b)"
  by (simp add: u64_def mod_simps)

lemma u64_add_left [simp]: "u64 (b + u64 a) = u64 (a + b)"
  using u64_add [of a b] by (simp add: add.commute)

lemma flush_keeps [simp]:
  "ba_in (flush now ok b) = ba_in b" "ba_reserved (flush now ok b) = ba_reserved b"
  "ba_retainRows (flush now ok b) = ba_retainRows b" "ba_maxRows (flush now ok b) = ba_maxRows b"
  by (simp_all add: flush_def copyRows_def Let_def)

text \<open>A flush takes rows off the front of the buffer: all of them, stored, or the overflow, counted as dropped.\<close>

lemma flush_moves:
  assumes "0 \<le> ba_retainRows b"
  shows "ba_buf b = map fst (left_buf ok b) @ ba_buf (flush now ok b)"
    "ba_metric_points (flush now ok b) = ba_metric_points b @ map fst (filter snd (left_buf ok b))"
    "ba_flushed (flush now ok b) = (if ba_buf b = [] \<or> \<not> ok then ba_flushed b else u64 (ba_flushed b + int (length (filter snd (left_buf ok b)))))"
    "ba_dropped (flush now ok b) = (if int (length (ba_buf b)) \<le> ba_retainRows b \<or> ok then ba_dropped b
       else u64 (ba_dropped b + int (length (filter (\<lambda>x. \<not> snd x) (left_buf ok b)))))"
  using assms
  by (auto simp: flush_def copyRows_def left_buf_def Let_def comp_def filter_map)

lemma flush_inv:
  assumes "binv tab s"
  shows "binv tab (s\<lparr>ig_b := flush now ok (ig_b s), ig_gone := ig_gone s @ left_buf ok (ig_b s)\<rparr>)"
proof -
  have r: "0 \<le> ba_retainRows (ig_b s)" using assms by (simp add: binv_def)
  note m = flush_moves [OF r, where ok = ok and now = now]
  have z: "filter snd (left_buf ok (ig_b s)) = []" if "ba_buf (ig_b s) = [] \<or> \<not> ok"
    using that by (auto simp: left_buf_def filter_map comp_def)
  have z': "filter (\<lambda>x. \<not> snd x) (left_buf ok (ig_b s)) = []" if "int (length (ba_buf (ig_b s))) \<le> ba_retainRows (ig_b s) \<or> ok"
    using that by (auto simp: left_buf_def filter_map comp_def)
  have "map fst (left_buf ok (ig_b s)) @ ba_buf (flush now ok (ig_b s)) @ xs = ba_buf (ig_b s) @ xs" for xs
    by (metis append_assoc m(1))
  then show ?thesis
    using assms z z' m(2-4) by (auto simp: binv_def add_ac)
qed

lemma receive_inv:
  assumes "binv tab s" "ba_in (ig_b s) = r # rs"
  shows "binv tab (s\<lparr>ig_b := ig_b s\<lparr>ba_in := rs, ba_buf := ba_buf (ig_b s) @ [r]\<rparr>\<rparr>)"
  using assms by (auto simp: binv_def)

lemma sum_mset_remove:
  assumes "n \<in># M"
  shows "sum_mset (image_mset int (M - {#n#})) = sum_mset (image_mset int M) - int n"
proof -
  have "image_mset int M = add_mset (int n) (image_mset int (M - {#n#}))"
    using assms by (metis image_mset_add_mset insert_DiffM)
  then show ?thesis by simp
qed

lemma bstep_inv: "\<lbrakk>bstep s s'; binv tab s\<rbrakk> \<Longrightarrow> binv tab s'"
proof (induction rule: bstep.induct)
  case (reserve s n b)
  then show ?case by (auto simp: binv_def Reserve_def split: if_splits)
next
  case (refuse s n b)
  then show ?case by (auto simp: binv_def Reserve_def add_ac split: if_splits)
next
  case (release s n)
  then show ?case by (auto simp: binv_def ReleaseReserved_def sum_mset_remove)
next
  case (commit s rows)
  then show ?case by (auto simp: binv_def sum_mset_remove)
next
  case (send s r rs b)
  then show ?case by (auto simp: binv_def send_row_def split: if_splits)
next
  case (append s r rs b now ok)
  then show ?case using receive_inv [OF append.prems append.hyps(1)] by (auto simp: receive_def Let_def)
next
  case (full s r rs b now ok)
  then show ?case using flush_inv [OF receive_inv [OF full.prems full.hyps(1)], where now = now and ok = ok]
    by (simp add: receive_def Let_def)
next
  case (timer s now ok)
  then show ?case by (rule flush_inv)
qed

lemma ireach_inv:
  assumes "ireach maxRows maxAge tab s" "maxRows < 2 ^ 61"
  shows "binv tab s"
proof -
  have "binv tab (ingest_init (NewBatcher maxRows maxAge tab))"
    using assms(2) by (auto simp: binv_def ingest_init_def NewBatcher_def Let_def queue_cap_def u64_def in_i64_def)
  then show ?thesis
    using assms(1) unfolding ireach_def by (rotate_tac 1) (induction rule: rtranclp_induct, auto intro: bstep_inv)
qed

section \<open>Guarantees\<close>

text \<open>
  C23. Every measurement that the queue accepted is accounted for, however requests, the
  goroutine and failing copies interleave: the rows sent are, in this order, those that left the
  buffer, those in the buffer and those in the channel; a row that left was stored once or
  is counted as dropped, and the table holds the stored ones in the order they were sent.
\<close>

theorem rows_conserved:
  assumes "ireach maxRows maxAge tab s" "maxRows < 2 ^ 61"
  shows "ig_sent s = map fst (ig_gone s) @ ba_buf (ig_b s) @ ba_in (ig_b s) \<and>
    ba_metric_points (ig_b s) = tab @ map fst (filter snd (ig_gone s)) \<and>
    ba_flushed (ig_b s) = u64 (int (length (filter snd (ig_gone s)))) \<and>
    ba_dropped (ig_b s) = u64 (ig_refused s + int (length (filter (\<lambda>x. \<not> snd x) (ig_gone s))))"
  using ireach_inv [OF assms] by (simp add: binv_def)

definition row1 :: row where
  "row1 = \<lparr>rw_Time = 5, rw_HostID = 1, rw_Metric = 105, rw_Labels = JNull, rw_Value = Fin 42\<rparr>"

text \<open>A life of the queue: a row is reserved, committed, received and copied.\<close>

definition life1 :: ingest where
  "life1 = (let b = NewBatcher 10 Second [] in
     \<lparr>ig_b = b\<lparr>ba_metric_points := [row1], ba_flushed := 1\<rparr>, ig_tickets = {#}, ig_commit = [], ig_sent = [row1],
      ig_gone = [(row1, True)], ig_refused = 0\<rparr>)"

lemma life1_reached: "ireach 10 Second [] life1"
proof -
  let ?b = "NewBatcher 10 Second []"
  let ?s0 = "ingest_init ?b"
  let ?s1 = "?s0\<lparr>ig_b := ?b\<lparr>ba_reserved := 1\<rparr>, ig_tickets := {#1#}\<rparr>"
  let ?s2 = "?s1\<lparr>ig_commit := [row1], ig_tickets := {#}\<rparr>"
  let ?s3 = "?s2\<lparr>ig_b := ?b\<lparr>ba_in := [row1]\<rparr>, ig_commit := [], ig_sent := [row1]\<rparr>"
  let ?s4 = "?s3\<lparr>ig_b := ?b\<lparr>ba_buf := [row1]\<rparr>\<rparr>"
  note new = NewBatcher_def ingest_init_def Let_def
  have "bstep ?s0 ?s1" using bstep.reserve [of ?s0 1 "?b\<lparr>ba_reserved := 1\<rparr>"] by (simp add: Reserve_def new queue_cap_def)
  moreover have "bstep ?s1 ?s2" using bstep.commit [of ?s1 "[row1]"] by (simp add: new)
  moreover have "bstep ?s2 ?s3" using bstep.send [of ?s2 row1 "[]" "?b\<lparr>ba_in := [row1]\<rparr>"] by (simp add: send_row_def new queue_cap_def)
  moreover have "bstep ?s3 ?s4" using bstep.append [of ?s3 row1 "[]" _ 0 True, OF _ refl] by (simp add: receive_def new)
  moreover have "bstep ?s4 life1" using bstep.timer [of ?s4 True 0]
    by (simp add: flush_def copyRows_def new life1_def left_buf_def u64_def)
  ultimately show ?thesis unfolding ireach_def by (meson converse_rtranclp_into_rtranclp rtranclp.rtrancl_refl)
qed

theorem rows_conserved_witness:
  "ba_metric_points (ig_b life1) = map fst (filter snd (ig_gone life1)) \<and> ig_sent life1 = [row1]"
  using rows_conserved [OF life1_reached] by (simp add: life1_def Let_def)

text \<open>
  C24. A commit never blocks while it holds the mutex: in every reachable state of the queue,
  the channel has room for all rows that a commit has yet to send and for every outstanding
  reservation, so its next send succeeds; requests cannot deadlock the queue even when the
  goroutine stands still.
\<close>

theorem commit_never_blocks:
  assumes "ireach maxRows maxAge tab s" "maxRows < 2 ^ 61"
  shows "int (length (ba_in (ig_b s))) + int (length (ig_commit s)) + int (sum_mset (ig_tickets s)) \<le> queue_cap \<and>
    (ig_commit s = r # rs \<longrightarrow> (\<exists>b. send_row r (ig_b s) = Some b \<and> bstep s (s\<lparr>ig_b := b, ig_commit := rs, ig_sent := ig_sent s @ [r]\<rparr>)))"
proof -
  have room: "int (length (ba_in (ig_b s))) + int (length (ig_commit s)) + int (sum_mset (ig_tickets s)) \<le> queue_cap"
    using ireach_inv [OF assms] by (auto simp: binv_def)
  have "\<exists>b. send_row r (ig_b s) = Some b" if "ig_commit s = r # rs"
  proof -
    have "0 \<le> int (sum_mset (ig_tickets s))" by (rule of_nat_0_le_iff)
    then have "int (length (ba_in (ig_b s))) < queue_cap" using room that by simp
    then show ?thesis by (simp add: send_row_def)
  qed
  then show ?thesis using room bstep.send by blast
qed

theorem commit_never_blocks_witness:
  "int (length (ba_in (ig_b life1))) + int (length (ig_commit life1)) + int (sum_mset (ig_tickets life1)) \<le> queue_cap"
  using commit_never_blocks [OF life1_reached, of row1 "[]"] by simp

text \<open>Shutdown.\<close>

lemma drain_in_all:
  "ba_in b = rs \<Longrightarrow> drain_in rs b = b\<lparr>ba_in := [], ba_buf := ba_buf b @ rs\<rparr>"
  by (induction rs arbitrary: b) auto

text \<open>From one state to another, the first rows of the buffer are lost and counted, the next ones stored.\<close>

definition moved :: "batcher \<Rightarrow> batcher \<Rightarrow> row list \<Rightarrow> row list \<Rightarrow> bool" where
  "moved b b' lost stored \<longleftrightarrow> ba_buf b = lost @ stored @ ba_buf b' \<and> ba_in b' = ba_in b \<and>
     ba_metric_points b' = ba_metric_points b @ stored \<and>
     ba_flushed b' = u64 (ba_flushed b + int (length stored)) \<and>
     ba_dropped b' = u64 (ba_dropped b + int (length lost))"

lemma moved_trans: "\<lbrakk>moved b b1 lost []; moved b1 b2 lost' stored\<rbrakk> \<Longrightarrow> moved b b2 (lost @ lost') stored"
  by (auto simp: moved_def add.assoc)

lemma flush_failed:
  assumes "0 \<le> ba_retainRows b" "u64 (ba_dropped b) = ba_dropped b" "u64 (ba_flushed b) = ba_flushed b"
  shows "\<exists>lost. moved b (flush now False b) lost [] \<and> int (length lost) = max 0 (int (length (ba_buf b)) - ba_retainRows b)"
  using assms
  by (intro exI [of _ "take (nat (int (length (ba_buf b)) - ba_retainRows b)) (ba_buf b)"])
    (auto simp: moved_def flush_def copyRows_def Let_def)

lemma flush_attempts_ok:
  "\<lbrakk>a < 3; snd (out a); ba_buf b \<noteq> []\<rbrakk> \<Longrightarrow> flush_attempts a out b = flush (fst (out a)) True b"
  by (subst flush_attempts.simps, subst flush_attempts.simps) (simp add: flush_def copyRows_def)

lemma flush_attempts_moves:
  assumes "0 \<le> ba_retainRows b" "u64 (ba_dropped b) = ba_dropped b" "u64 (ba_flushed b) = ba_flushed b"
  shows "\<exists>lost stored. moved b (flush_attempts a out b) lost stored \<and>
     int (length lost) \<le> max 0 (int (length (ba_buf b)) - ba_retainRows b) \<and>
     (if \<exists>i. a \<le> i \<and> i < 3 \<and> snd (out i) then ba_buf (flush_attempts a out b) = [] else stored = [])"
  using assms
proof (induction a out b rule: flush_attempts.induct)
  case (1 a out b)
  show ?case
  proof (cases "a < 3 \<and> ba_buf b \<noteq> []")
    case False
    then show ?thesis using 1(3,4) by (intro exI [of _ "[]"]) (auto simp: flush_attempts.simps [of a] moved_def)
  next
    case go: True
    show ?thesis
    proof (cases "snd (out a)")
      case True
      then show ?thesis using go 1(3,4)
        by (intro exI [of _ "[]"] exI [of _ "ba_buf b"]) (auto simp: flush_attempts_ok moved_def flush_def copyRows_def)
    next
      case False
      let ?b = "flush (fst (out a)) False b"
      have fb: "flush (fst (out a)) (snd (out a)) b = ?b" using False by simp
      have f: "flush_attempts a out b = flush_attempts (a + 1) out ?b" using go False by (subst flush_attempts.simps) simp
      obtain lost where l: "moved b ?b lost []" "int (length lost) = max 0 (int (length (ba_buf b)) - ba_retainRows b)"
        using flush_failed [OF 1(2-4)] by blast
      have len: "length (ba_buf b) = length lost + length (ba_buf ?b)" using l(1) by (simp add: moved_def)
      have "u64 (ba_dropped ?b) = ba_dropped ?b" "u64 (ba_flushed ?b) = ba_flushed ?b" using l(1) by (simp_all add: moved_def u64_def)
      from 1(1) [OF go, unfolded fb flush_keeps, OF 1(2) this] obtain lost' stored where h: "moved ?b (flush_attempts (a + 1) out ?b) lost' stored"
         "int (length lost') \<le> max 0 (int (length (ba_buf ?b)) - ba_retainRows b)"
         "if \<exists>i. a + 1 \<le> i \<and> i < 3 \<and> snd (out i) then ba_buf (flush_attempts (a + 1) out ?b) = [] else stored = []"
        by blast
      have "a \<le> i \<and> i < 3 \<and> snd (out i) \<longleftrightarrow> a + 1 \<le> i \<and> i < 3 \<and> snd (out i)" for i
        using False by (cases "i = a") auto
      then have "(\<exists>i. a \<le> i \<and> i < 3 \<and> snd (out i)) \<longleftrightarrow> (\<exists>i. a + 1 \<le> i \<and> i < 3 \<and> snd (out i))" by (simp only:)
      moreover have "int (length (lost @ lost')) \<le> max 0 (int (length (ba_buf b)) - ba_retainRows b)"
        using h(2) l(2) len by auto
      ultimately show ?thesis unfolding f using moved_trans [OF l(1) h(1)] h(3) by metis
    qed
  qed
qed

text \<open>
  Shutting down loses nothing silently: the goroutine stops after at most three attempts; of
  the rows in the buffer and the channel, a tail is stored in order and the rest is
  counted as dropped. When one of the attempts succeeds, only the rows beyond the retained
  maximum can be lost; when the first one succeeds none is.
\<close>

lemma shutdown_accounts:
  assumes "0 \<le> ba_retainRows b" "u64 (ba_dropped b) = ba_dropped b" "u64 (ba_flushed b) = ba_flushed b"
  shows "\<exists>lost stored. ba_buf b @ ba_in b = lost @ stored \<and> ba_in (drainAndFlush out b) = [] \<and>
     ba_metric_points (drainAndFlush out b) = ba_metric_points b @ stored \<and>
     ba_flushed (drainAndFlush out b) = u64 (ba_flushed b + int (length stored)) \<and>
     ba_dropped (drainAndFlush out b) = u64 (ba_dropped b + int (length lost)) \<and>
     ((\<exists>i<3. snd (out i)) \<longrightarrow> int (length lost) \<le> max 0 (int (length (ba_buf b @ ba_in b)) - ba_retainRows b)) \<and>
     (snd (out 0) \<longrightarrow> lost = [])"
proof -
  let ?d = "b\<lparr>ba_in := [], ba_buf := ba_buf b @ ba_in b\<rparr>"
  define e where "e = flush_attempts 0 out ?d"
  define rows where "rows = ba_buf b @ ba_in b"
  have d: "drain_in (ba_in b) b = ?d" by (rule drain_in_all) simp
  have "0 \<le> ba_retainRows ?d" "u64 (ba_dropped ?d) = ba_dropped ?d" "u64 (ba_flushed ?d) = ba_flushed ?d"
    using assms by simp_all
  from flush_attempts_moves [OF this, of 0 out, folded e_def] obtain lost stored where
     m: "moved ?d e lost stored" "int (length lost) \<le> max 0 (int (length rows) - ba_retainRows b)"
     and ok: "if \<exists>i<3. snd (out i) then ba_buf e = [] else stored = []" by (auto simp: rows_def)
  have mv: "rows = lost @ stored @ ba_buf e" "ba_in e = []" "ba_metric_points e = ba_metric_points b @ stored"
    "ba_flushed e = u64 (ba_flushed b + int (length stored))" "ba_dropped e = u64 (ba_dropped b + int (length lost))"
    using m(1) by (simp_all add: moved_def rows_def)
  have first: "lost = []" if "snd (out 0)" "ba_buf e = []"
  proof (cases "rows = []")
    case False
    then have "ba_metric_points e = ba_metric_points b @ rows"
      using flush_attempts_ok [of 0 out ?d] that(1) by (simp add: flush_def copyRows_def e_def rows_def)
    then show ?thesis using mv(1,3) that(2) by simp
  qed (use mv(1) in simp)
  have df: "drainAndFlush out b = (if ba_buf e \<noteq> [] then e\<lparr>ba_dropped := u64 (ba_dropped e + int (length (ba_buf e)))\<rparr> else e)"
    by (simp add: drainAndFlush_def d Let_def e_def)
  show ?thesis
  proof (cases "ba_buf e = []")
    case True
    have "rows = lost @ stored" using mv(1) True by simp
    then show ?thesis unfolding df rows_def [symmetric] using mv(2-) m(2) first True
      by (intro exI [where x = lost] exI [where x = stored] conjI impI) simp_all
  next
    case False
    have st: "stored = []" and none: "\<not> (\<exists>i<3. snd (out i))" using ok False by (auto split: if_splits)
    have "\<not> snd (out 0)" using none by force
    moreover have "rows = (lost @ ba_buf e) @ []" using mv(1) st by simp
    moreover have "ba_dropped (drainAndFlush out b) = u64 (ba_dropped b + int (length (lost @ ba_buf e)))"
      using False mv(5) by (simp add: df add.assoc)
    ultimately show ?thesis unfolding rows_def [symmetric] using mv(2-4) none False st
      by (intro exI [where x = "lost @ ba_buf e"] exI [where x = "[]"] conjI impI) (simp_all add: df)
  qed
qed

end
