(* ===== verification/Host_Store.thy ===== *)
theory Host_Store
  imports Wire
begin

text \<open>
  \<open>internal/server/storage/hosts.go\<close> and the token check of \<open>internal/server/api/middleware.go\<close>: the
  table of hosts, with the cache that answers most lookups. The table is a list of rows;
  a column that may be NULL but is read through COALESCE has its default instead of NULL. Every
  database call has an outcome of the environment. The digest of tokens (SHA-256) is a
  parameter.
\<close>

section \<open>Data\<close>

record host =
  ht_ID :: int
  ht_Hostname :: string
  ht_OS :: string
  ht_Arch :: string
  ht_Kernel :: string
  ht_CPUModel :: string
  ht_CPUCores :: int
  ht_CPUThreads :: int
  ht_AgentVersion :: string
  ht_SampleIntervalS :: int
  ht_EnabledCollectors :: "string list"
  ht_CollectorStatus :: "(string, collectorState) gomap"
  ht_Tags :: labels
  ht_LastSeen :: "time option"
  ht_CreatedAt :: time
  ht_DeletedAt :: "time option"
  ht_ArchivedAt :: "time option"
  ht_AutoUpgrade :: bool
  ht_UpgradeRequestedAt :: "time option"
  ht_ExternallyManaged :: bool
  ht_UpgradeStallSince :: "time option"
  ht_UpgradeDispatchedAt :: "time option"

text \<open>A row of the table also has the digest of the host's token.\<close>

record hostRow = host +
  hw_hash :: string

datatype herr = ErrNotFound | ErrTombstoned | ErrArchived | ErrHostnameTaken | ErrDB

record hostUpdate =
  hu_Hostname :: "string option"
  hu_SampleIntervalS :: "int option"
  hu_AutoUpgrade :: "bool option"

record hostInfoUpdate =
  hi_OS :: string
  hi_Arch :: string
  hi_Kernel :: string
  hi_CPUModel :: string
  hi_CPUCores :: int
  hi_CPUThreads :: int
  hi_AgentVersion :: string
  hi_Collectors :: "string list"
  hi_CollectorStatus :: "(string, collectorState) gomap"
  hi_Tags :: labels
  hi_ExternallyManaged :: "bool option"
  hi_ShouldSelfUpgrade :: bool

text \<open>The table with its sequence of numbers, and the fields of \<open>Hosts\<close>.\<close>

record hosts =
  hh_rows :: "hostRow list"
  hh_nextID :: int
  hh_byToken :: "(string, int) gomap"
  hh_byID :: "(int, host) gomap"
  hh_cachedAt :: time
  hh_missRefresh :: time

definition cacheTTL :: duration where "cacheTTL = 30 * Second"
definition missCooldown :: duration where "missCooldown = Second"

text \<open>The clock (of the server and of the database) and whether the database call of an operation succeeds.\<close>

record henv =
  he_now :: time
  he_ok :: bool

section \<open>The cache\<close>

definition invalidate :: "hosts \<Rightarrow> hosts" where
  "invalidate s = s\<lparr>hh_cachedAt := zero_time, hh_missRefresh := zero_time\<rparr>"

definition pad32 :: "string \<Rightarrow> string" where
  "pad32 h = take 32 (h @ replicate 32 (char_of (0 :: nat)))"

text \<open>\<open>refresh\<close> reads the table and then installs the maps it built; other calls can run in between.\<close>

fun build_maps :: "hostRow list \<Rightarrow> (string, int) gomap \<Rightarrow> (int, host) gomap \<Rightarrow> (string, int) gomap \<times> (int, host) gomap" where
  "build_maps [] byToken byID = (byToken, byID)"
| "build_maps (r # rs) byToken byID =
     build_maps rs (put (pad32 (hw_hash r)) (ht_ID r) byToken) (put (ht_ID r) (host.truncate r) byID)"

definition install_maps :: "time \<Rightarrow> (string, int) gomap \<times> (int, host) gomap \<Rightarrow> hosts \<Rightarrow> hosts" where
  "install_maps now m s = s\<lparr>hh_byToken := fst m, hh_byID := snd m, hh_cachedAt := now\<rparr>"

definition refresh :: "henv \<Rightarrow> hosts \<Rightarrow> hosts \<times> bool" where
  "refresh ev s = (if \<not> he_ok ev then (s, False) else (install_maps (he_now ev) (build_maps (hh_rows s) [] []) s, True))"

definition claimMissRefresh :: "time \<Rightarrow> hosts \<Rightarrow> hosts \<times> bool" where
  "claimMissRefresh now s =
     (if hh_cachedAt s = zero_time then (s, True)
      else if time_Sub now (hh_missRefresh s) < missCooldown then (s, False)
      else (s\<lparr>hh_missRefresh := now\<rparr>, True))"

text \<open>All keys are compared; the last match counts.\<close>

fun constantTimeLookup :: "(string, int) gomap \<Rightarrow> string \<Rightarrow> int option \<Rightarrow> int option" where
  "constantTimeLookup [] candidate m = m"
| "constantTimeLookup ((k, i) # xs) candidate m = constantTimeLookup xs candidate (if k = candidate then Some i else m)"

definition check_host :: "hosts \<Rightarrow> int \<Rightarrow> herr + int" where
  "check_host s i = (case get (hh_byID s) i of
     Some h \<Rightarrow> if ht_DeletedAt h \<noteq> None then Inl ErrTombstoned else if ht_ArchivedAt h \<noteq> None then Inl ErrArchived else Inr i
   | None \<Rightarrow> Inr i)"

definition cached :: "time \<Rightarrow> hosts \<Rightarrow> bool" where
  "cached now s \<longleftrightarrow> time_Sub now (hh_cachedAt s) < cacheTTL"

definition ResolveToken :: "(string \<Rightarrow> string) \<Rightarrow> henv \<Rightarrow> string \<Rightarrow> hosts \<Rightarrow> hosts \<times> (herr + int)" where
  "ResolveToken sha ev token s =
     (let candidate = sha token;
          hit = (if cached (he_now ev) s then constantTimeLookup (hh_byToken s) candidate None else None)
      in case hit of
           Some i \<Rightarrow> (s, check_host s i)
         | None \<Rightarrow>
             (case claimMissRefresh (he_now ev) s of
                (s, False) \<Rightarrow> (s, Inl ErrNotFound)
              | (s, True) \<Rightarrow>
                  (case refresh ev s of
                     (s, False) \<Rightarrow> (s, Inl ErrDB)
                   | (s, True) \<Rightarrow>
                       (case constantTimeLookup (hh_byToken s) candidate None of
                          None \<Rightarrow> (s, Inl ErrNotFound)
                        | Some i \<Rightarrow> (s, check_host s i)))))"

text \<open>The middleware: the status it answers with, or the host the request runs for.\<close>

definition requireAgentToken :: "(string \<Rightarrow> string) \<Rightarrow> henv \<Rightarrow> string \<Rightarrow> hosts \<Rightarrow> hosts \<times> (int + int)" where
  "requireAgentToken sha ev token s =
     (if token = [] then (s, Inl 401)
      else (case ResolveToken sha ev token s of
              (s, Inl ErrTombstoned) \<Rightarrow> (s, Inl 410)
            | (s, Inl ErrArchived) \<Rightarrow> (s, Inl 403)
            | (s, Inl ErrNotFound) \<Rightarrow> (s, Inl 401)
            | (s, Inl _) \<Rightarrow> (s, Inl 500)
            | (s, Inr i) \<Rightarrow> (s, Inr i)))"

definition host_Get :: "henv \<Rightarrow> int \<Rightarrow> hosts \<Rightarrow> hosts \<times> (herr + host)" where
  "host_Get ev i s =
     (case (if cached (he_now ev) s then get (hh_byID s) i else None) of
        Some h \<Rightarrow> (s, if ht_DeletedAt h \<noteq> None then Inl ErrNotFound else Inr h)
      | None \<Rightarrow>
          (case refresh ev s of
             (s, False) \<Rightarrow> (s, Inl ErrDB)
           | (s, True) \<Rightarrow> (s, case get (hh_byID s) i of
               Some h \<Rightarrow> if ht_DeletedAt h = None then Inr h else Inl ErrNotFound
             | None \<Rightarrow> Inl ErrNotFound)))"

section \<open>Updates\<close>

definition live :: "hostRow \<Rightarrow> bool" where
  "live r \<longleftrightarrow> ht_DeletedAt r = None \<and> ht_ArchivedAt r = None"

definition update_where :: "(hostRow \<Rightarrow> bool) \<Rightarrow> (hostRow \<Rightarrow> hostRow) \<Rightarrow> hosts \<Rightarrow> hosts" where
  "update_where P f s = s\<lparr>hh_rows := map (\<lambda>r. if P r then f r else r) (hh_rows s)\<rparr>"

definition affected :: "(hostRow \<Rightarrow> bool) \<Rightarrow> hosts \<Rightarrow> bool" where
  "affected P s \<longleftrightarrow> list_ex P (hh_rows s)"

definition new_row :: "int \<Rightarrow> string \<Rightarrow> string \<Rightarrow> int \<Rightarrow> time \<Rightarrow> hostRow" where
  "new_row i hostname hash intervalS now =
     \<lparr>ht_ID = i, ht_Hostname = hostname, ht_OS = [], ht_Arch = [], ht_Kernel = [], ht_CPUModel = [], ht_CPUCores = 0,
      ht_CPUThreads = 0, ht_AgentVersion = [], ht_SampleIntervalS = intervalS, ht_EnabledCollectors = [],
      ht_CollectorStatus = [], ht_Tags = [], ht_LastSeen = None, ht_CreatedAt = now, ht_DeletedAt = None,
      ht_ArchivedAt = None, ht_AutoUpgrade = False, ht_UpgradeRequestedAt = None, ht_ExternallyManaged = False,
      ht_UpgradeStallSince = None, ht_UpgradeDispatchedAt = None, hw_hash = hash\<rparr>"

definition Register :: "(string \<Rightarrow> string) \<Rightarrow> henv \<Rightarrow> string \<Rightarrow> string \<Rightarrow> int \<Rightarrow> hosts \<Rightarrow> hosts \<times> (herr + int)" where
  "Register sha ev hostname token intervalS s =
     (let intervalS = (if intervalS \<le> 0 then 10 else intervalS); hash = sha token
      in if \<not> he_ok ev then (s, Inl ErrDB)
         else (let i = hh_nextID s; s = s\<lparr>hh_nextID := i + 1\<rparr>
               in case find (\<lambda>r. ht_Hostname r = hostname \<and> live r) (hh_rows s) of
                    None \<Rightarrow> (invalidate (s\<lparr>hh_rows := hh_rows s @ [new_row i hostname hash intervalS (he_now ev)]\<rparr>), Inr i)
                  | Some r \<Rightarrow>
                      if ht_LastSeen r \<noteq> None then (s, Inl ErrHostnameTaken)
                      else (invalidate (update_where (\<lambda>x. ht_ID x = ht_ID r)
                              (\<lambda>x. x\<lparr>ht_SampleIntervalS := intervalS, hw_hash := hash\<rparr>) s), Inr (ht_ID r))))"

text \<open>Another live row has the name.\<close>

definition name_taken :: "int \<Rightarrow> string \<Rightarrow> hosts \<Rightarrow> bool" where
  "name_taken i n s \<longleftrightarrow> list_ex (\<lambda>r. ht_ID r \<noteq> i \<and> ht_Hostname r = n \<and> live r) (hh_rows s)"

definition host_Update :: "henv \<Rightarrow> int \<Rightarrow> hostUpdate \<Rightarrow> hosts \<Rightarrow> hosts \<times> (herr + unit)" where
  "host_Update ev i u s =
     (if hu_Hostname u = None \<and> hu_SampleIntervalS u = None \<and> hu_AutoUpgrade u = None then (s, Inr ())
      else if \<not> he_ok ev then (s, Inl ErrDB)
      else (let P = (\<lambda>r. ht_ID r = i \<and> live r)
            in if \<not> affected P s then (s, Inl ErrNotFound)
               else if (case hu_Hostname u of None \<Rightarrow> False | Some n \<Rightarrow> name_taken i n s) then (s, Inl ErrHostnameTaken)
               else (invalidate (update_where P (\<lambda>r.
                  (let off = (hu_AutoUpgrade u = Some False \<and> ht_UpgradeRequestedAt r = None)
                   in r\<lparr>ht_Hostname := (case hu_Hostname u of None \<Rightarrow> ht_Hostname r | Some n \<Rightarrow> n),
                        ht_SampleIntervalS := (case hu_SampleIntervalS u of None \<Rightarrow> ht_SampleIntervalS r | Some n \<Rightarrow> n),
                        ht_AutoUpgrade := (case hu_AutoUpgrade u of None \<Rightarrow> ht_AutoUpgrade r | Some b \<Rightarrow> b),
                        ht_UpgradeStallSince := (if off then None else ht_UpgradeStallSince r),
                        ht_UpgradeDispatchedAt := (if off then None else ht_UpgradeDispatchedAt r)\<rparr>)) s), Inr ())))"

definition RequestUpgrade :: "henv \<Rightarrow> int \<Rightarrow> hosts \<Rightarrow> hosts \<times> (herr + unit)" where
  "RequestUpgrade ev i s =
     (let P = (\<lambda>r. ht_ID r = i \<and> live r)
      in if \<not> he_ok ev then (s, Inl ErrDB)
         else if \<not> affected P s then (s, Inl ErrNotFound)
         else (invalidate (update_where P (\<lambda>r. r\<lparr>ht_UpgradeRequestedAt := Some (he_now ev), ht_UpgradeStallSince := None,
                 ht_UpgradeDispatchedAt := None\<rparr>) s), Inr ()))"

definition ClearUpgradeRequest :: "henv \<Rightarrow> int \<Rightarrow> hosts \<Rightarrow> hosts \<times> (herr + unit)" where
  "ClearUpgradeRequest ev i s =
     (if \<not> he_ok ev then (s, Inl ErrDB)
      else (invalidate (update_where (\<lambda>r. ht_ID r = i \<and> ht_UpgradeRequestedAt r \<noteq> None)
              (\<lambda>r. r\<lparr>ht_UpgradeRequestedAt := None\<rparr>) s), Inr ()))"

text \<open>The remaining operations change rows that satisfy a condition; the cache is dropped even if there is none.\<close>

definition exec_rows :: "henv \<Rightarrow> (hostRow \<Rightarrow> bool) \<Rightarrow> (hostRow \<Rightarrow> hostRow) \<Rightarrow> hosts \<Rightarrow> hosts \<times> (herr + unit)" where
  "exec_rows ev P f s =
     (if \<not> he_ok ev then (s, Inl ErrDB)
      else (invalidate (update_where P f s), if affected P s then Inr () else Inl ErrNotFound))"

definition host_Delete :: "henv \<Rightarrow> int \<Rightarrow> hosts \<Rightarrow> hosts \<times> (herr + unit)" where
  "host_Delete ev i = exec_rows ev (\<lambda>r. ht_ID r = i \<and> ht_DeletedAt r = None) (\<lambda>r. r\<lparr>ht_DeletedAt := Some (he_now ev)\<rparr>)"

definition Archive :: "henv \<Rightarrow> int \<Rightarrow> hosts \<Rightarrow> hosts \<times> (herr + unit)" where
  "Archive ev i = exec_rows ev (\<lambda>r. ht_ID r = i \<and> live r)
     (\<lambda>r. r\<lparr>ht_ArchivedAt := Some (he_now ev), ht_AutoUpgrade := False, ht_UpgradeRequestedAt := None,
            ht_UpgradeStallSince := None, ht_UpgradeDispatchedAt := None\<rparr>)"

definition Unarchive :: "henv \<Rightarrow> int \<Rightarrow> hosts \<Rightarrow> hosts \<times> (herr + unit)" where
  "Unarchive ev i s =
     (let P = (\<lambda>r. ht_ID r = i \<and> ht_DeletedAt r = None \<and> ht_ArchivedAt r \<noteq> None)
      in if he_ok ev \<and> list_ex (\<lambda>r. P r \<and> name_taken i (ht_Hostname r) s) (hh_rows s) then (s, Inl ErrHostnameTaken)
         else exec_rows ev P (\<lambda>r. r\<lparr>ht_ArchivedAt := None\<rparr>) s)"

section \<open>Reports of agents\<close>

definition timePtrEqual :: "time option \<Rightarrow> time option \<Rightarrow> bool" where
  "timePtrEqual a b \<longleftrightarrow> a = b"

definition coalesce :: "string \<Rightarrow> string \<Rightarrow> string" where
  "coalesce a b = (if a = [] then b else a)"

definition touch_row :: "time \<Rightarrow> hostInfoUpdate \<Rightarrow> hostRow \<Rightarrow> hostRow" where
  "touch_row now u r =
     (let managed = (case hi_ExternallyManaged u of None \<Rightarrow> ht_ExternallyManaged r | Some b \<Rightarrow> b);
          upgrading = (hi_ShouldSelfUpgrade u \<and> \<not> managed \<and>
            (ht_UpgradeDispatchedAt r \<noteq> None \<or> ht_AutoUpgrade r \<or> ht_UpgradeRequestedAt r \<noteq> None));
          version = coalesce (hi_AgentVersion u) (ht_AgentVersion r)
      in r\<lparr>ht_OS := coalesce (hi_OS u) (ht_OS r), ht_Arch := coalesce (hi_Arch u) (ht_Arch r),
           ht_Kernel := coalesce (hi_Kernel u) (ht_Kernel r), ht_CPUModel := coalesce (hi_CPUModel u) (ht_CPUModel r),
           ht_CPUCores := (if hi_CPUCores u = 0 then ht_CPUCores r else hi_CPUCores u),
           ht_CPUThreads := (if hi_CPUThreads u = 0 then ht_CPUThreads r else hi_CPUThreads u),
           ht_AgentVersion := version,
           ht_EnabledCollectors := (if hi_Collectors u = [] then ht_EnabledCollectors r else hi_Collectors u),
           ht_Tags := (if hi_Tags u = [] then ht_Tags r else hi_Tags u),
           ht_CollectorStatus := (if hi_CollectorStatus u = [] then ht_CollectorStatus r else hi_CollectorStatus u),
           ht_ExternallyManaged := managed,
           ht_UpgradeStallSince := (if upgrading then
               (if ht_AgentVersion r \<noteq> version then Some now
                else (case ht_UpgradeStallSince r of None \<Rightarrow> Some now | Some t \<Rightarrow> Some t)) else None),
           ht_UpgradeDispatchedAt := (if upgrading then
               (case ht_UpgradeDispatchedAt r of None \<Rightarrow> Some now | Some t \<Rightarrow> Some t) else None),
           ht_LastSeen := Some now\<rparr>)"

definition same_map :: "('k, 'v) gomap \<Rightarrow> ('k, 'v) gomap \<Rightarrow> bool" where
  "same_map a b \<longleftrightarrow> length a = length b \<and> list_all (\<lambda>(k, v). get b k = Some v) a"

definition Touch :: "henv \<Rightarrow> int \<Rightarrow> hostInfoUpdate \<Rightarrow> hosts \<Rightarrow> hosts \<times> (herr + time option)" where
  "Touch ev i u s =
     (let P = (\<lambda>r. ht_ID r = i \<and> live r); now = he_now ev
      in if \<not> he_ok ev then (s, Inl ErrDB)
         else (case find P (hh_rows s) of
                 None \<Rightarrow> (s, Inr None)
               | Some r \<Rightarrow>
                   (let r' = touch_row now u r; s = update_where P (touch_row now u) s
                    in case (if cached now s then get (hh_byID s) i else None) of
                         None \<Rightarrow> (s, Inr (ht_UpgradeStallSince r'))
                       | Some c \<Rightarrow>
                           (if hi_Tags u \<noteq> [] \<and> \<not> same_map (hi_Tags u) (ht_Tags c) \<or>
                               hi_CollectorStatus u \<noteq> [] \<and> \<not> same_map (hi_CollectorStatus u) (ht_CollectorStatus c) \<or>
                               (case hi_ExternallyManaged u of None \<Rightarrow> False | Some b \<Rightarrow> b \<noteq> ht_ExternallyManaged c) \<or>
                               \<not> timePtrEqual (ht_UpgradeStallSince r') (ht_UpgradeStallSince c) \<or>
                               \<not> timePtrEqual (ht_UpgradeDispatchedAt r') (ht_UpgradeDispatchedAt c)
                            then invalidate s else s, Inr (ht_UpgradeStallSince r')))))"

section \<open>The cache agrees with the table\<close>

text \<open>What the table says of a token's digest.\<close>

definition resolve_spec :: "hostRow list \<Rightarrow> string \<Rightarrow> herr + int" where
  "resolve_spec rows k = (case find (\<lambda>r. hw_hash r = k) rows of
     None \<Rightarrow> Inl ErrNotFound
   | Some r \<Rightarrow> if ht_DeletedAt r \<noteq> None then Inl ErrTombstoned else if ht_ArchivedAt r \<noteq> None then Inl ErrArchived else Inr (ht_ID r))"

definition stat :: "'a host_scheme \<Rightarrow> time option \<times> time option" where
  "stat h = (ht_DeletedAt h, ht_ArchivedAt h)"

definition rows_ok :: "hosts \<Rightarrow> bool" where
  "rows_ok s \<longleftrightarrow> distinct (map ht_ID (hh_rows s)) \<and> (\<forall>r\<in>set (hh_rows s). ht_ID r < hh_nextID s) \<and>
     distinct (map hw_hash (hh_rows s)) \<and> (\<forall>r\<in>set (hh_rows s). length (hw_hash r) = 32)"

definition maps_agree :: "hosts \<Rightarrow> bool" where
  "maps_agree s \<longleftrightarrow> wf_map (hh_byToken s) \<and>
     (\<forall>k. get (hh_byToken s) k = map_option ht_ID (find (\<lambda>r. hw_hash r = k) (hh_rows s))) \<and>
     (\<forall>i. map_option stat (get (hh_byID s) i) = map_option stat (find (\<lambda>r. ht_ID r = i) (hh_rows s)))"

definition hinv :: "hosts \<Rightarrow> bool" where
  "hinv s \<longleftrightarrow> rows_ok s \<and> (hh_cachedAt s \<noteq> zero_time \<longrightarrow> maps_agree s)"

lemma pad32_id: "length h = 32 \<Longrightarrow> pad32 h = h"
  by (simp add: pad32_def)

lemma lookup_get: "wf_map m \<Longrightarrow> constantTimeLookup m k acc = (case get m k of Some i \<Rightarrow> Some i | None \<Rightarrow> acc)"
  by (induction m k acc rule: constantTimeLookup.induct) (auto split: option.splits)

lemma find_none_distinct: "f x \<notin> f ` set xs \<Longrightarrow> find (\<lambda>r. f r = f x) xs = None"
  by (metis (mono_tags, lifting) find_None_iff imageI)

lemma build_maps_token:
  "\<lbrakk>distinct (map hw_hash rows); \<forall>r\<in>set rows. length (hw_hash r) = 32\<rbrakk> \<Longrightarrow>
    get (fst (build_maps rows t b)) k = (case find (\<lambda>r. hw_hash r = k) rows of Some r \<Rightarrow> Some (ht_ID r) | None \<Rightarrow> get t k)"
  by (induction rows arbitrary: t b) (auto simp: pad32_id find_none_distinct split: option.splits)

lemma build_maps_id:
  "distinct (map ht_ID rows) \<Longrightarrow>
    get (snd (build_maps rows t b)) i = (case find (\<lambda>r. ht_ID r = i) rows of Some r \<Rightarrow> Some (host.truncate r) | None \<Rightarrow> get b i)"
  by (induction rows arbitrary: t b) (auto simp: find_none_distinct split: option.splits)

lemma build_maps_wf: "wf_map t \<Longrightarrow> wf_map (fst (build_maps rows t b))"
  by (induction rows arbitrary: t b) auto

lemma stat_truncate [simp]: "stat (host.truncate r) = stat r"
  by (simp add: stat_def host.defs)

lemma rows_ok_simps [simp]:
  "rows_ok (s\<lparr>hh_missRefresh := t\<rparr>) = rows_ok s" "rows_ok (invalidate s) = rows_ok s"
  "rows_ok (install_maps now m s) = rows_ok s"
  by (simp_all add: rows_ok_def invalidate_def install_maps_def)

lemma install_agrees:
  assumes "rows_ok s"
  shows "maps_agree (install_maps now (build_maps (hh_rows s) [] []) s)"
  using assms build_maps_token [of "hh_rows s" "[]" "[]"] build_maps_id [of "hh_rows s" "[]" "[]"]
  by (auto simp: maps_agree_def install_maps_def rows_ok_def build_maps_wf split: option.splits)

lemma hinv_invalidate: "rows_ok s \<Longrightarrow> hinv (invalidate s)"
  by (simp add: hinv_def) (simp add: invalidate_def)

lemma refresh_inv: "\<lbrakk>hinv s; refresh ev s = (s', b)\<rbrakk> \<Longrightarrow> hinv s'"
  using install_agrees by (auto simp: refresh_def hinv_def split: if_splits)

lemma maps_agree_miss [simp]: "maps_agree (s\<lparr>hh_missRefresh := m\<rparr>) = maps_agree s"
  by (simp add: maps_agree_def)

lemma claim_inv: "\<lbrakk>hinv s; claimMissRefresh now s = (s', b)\<rbrakk> \<Longrightarrow> hinv s' \<and> hh_rows s' = hh_rows s"
  by (auto simp: claimMissRefresh_def hinv_def split: if_splits)

lemma update_where_rows:
  assumes "rows_ok s" "\<And>r. ht_ID (f r) = ht_ID r \<and> hw_hash (f r) = hw_hash r"
  shows "rows_ok (update_where P f s)"
  using assms by (auto simp: rows_ok_def update_where_def comp_def if_distrib cong: if_cong)

lemma find_update:
  assumes "\<And>r. key (f r) = key r" "\<And>r. g (f r) = g r"
  shows "map_option g (find (\<lambda>r. key r = k) (map (\<lambda>r. if P r then f r else r) xs)) = map_option g (find (\<lambda>r. key r = k) xs)"
  by (induction xs) (auto simp: assms)

text \<open>An update that keeps identities, digests, deletion and archiving leaves the cache in agreement.\<close>

lemma update_where_agrees:
  assumes "hinv s" "\<And>r. ht_ID (f r) = ht_ID r \<and> hw_hash (f r) = hw_hash r \<and> stat (f r) = stat r"
  shows "hinv (update_where P f s)"
proof -
  have "rows_ok (update_where P f s)" using assms by (intro update_where_rows) (auto simp: hinv_def)
  moreover have "maps_agree (update_where P f s)" if "maps_agree s"
    using that assms(2) find_update [of hw_hash f ht_ID _ P "hh_rows s"] find_update [of ht_ID f stat _ P "hh_rows s"]
    by (simp add: maps_agree_def update_where_def)
  ultimately show ?thesis using assms(1) by (auto simp: hinv_def update_where_def)
qed

text \<open>
  The histories of a server: calls in any order, at instants after 1970, with any outcome of
  the database. Tokens are random, so the digest of a new token occurs in no row.
\<close>

inductive hstep :: "(string \<Rightarrow> string) \<Rightarrow> hosts \<Rightarrow> hosts \<Rightarrow> bool" for sha where
  register: "\<lbrakk>sha token \<notin> hw_hash ` set (hh_rows s); length (sha token) = 32\<rbrakk> \<Longrightarrow>
    hstep sha s (fst (Register sha ev hostname token n s))"
| update: "hstep sha s (fst (host_Update ev i u s))"
| request: "hstep sha s (fst (RequestUpgrade ev i s))"
| clear: "hstep sha s (fst (ClearUpgradeRequest ev i s))"
| delete: "hstep sha s (fst (host_Delete ev i s))"
| archive: "hstep sha s (fst (Archive ev i s))"
| unarchive: "hstep sha s (fst (Unarchive ev i s))"
| touch: "hstep sha s (fst (Touch ev i info s))"
| resolve: "hstep sha s (fst (ResolveToken sha ev token s))"
| look: "hstep sha s (fst (host_Get ev i s))"

definition hosts0 :: hosts where
  "hosts0 = \<lparr>hh_rows = [], hh_nextID = 1, hh_byToken = [], hh_byID = [], hh_cachedAt = zero_time, hh_missRefresh = zero_time\<rparr>"

lemma keeps_identity:
  assumes "hinv s" "\<And>r. ht_ID (f r) = ht_ID r \<and> hw_hash (f r) = hw_hash r"
  shows "hinv (invalidate (update_where P f s))"
  using assms by (intro hinv_invalidate update_where_rows) (auto simp: hinv_def)

lemma exec_rows_inv:
  assumes "hinv s" "\<And>r. ht_ID (f r) = ht_ID r \<and> hw_hash (f r) = hw_hash r"
  shows "hinv (fst (exec_rows ev P f s))"
  using keeps_identity [OF assms] assms(1) by (simp add: exec_rows_def)

lemma touch_row_keeps: "ht_ID (touch_row now u r) = ht_ID r \<and> hw_hash (touch_row now u r) = hw_hash r \<and> stat (touch_row now u r) = stat r"
  by (simp add: touch_row_def Let_def stat_def)

lemma Touch_inv: "hinv s \<Longrightarrow> hinv (fst (Touch ev i u s))"
  using update_where_agrees [of s "touch_row (he_now ev) u" "\<lambda>r. ht_ID r = i \<and> live r"]
    keeps_identity [of s "touch_row (he_now ev) u" "\<lambda>r. ht_ID r = i \<and> live r"]
  by (auto simp: Touch_def Let_def touch_row_keeps split: option.split)

lemma ResolveToken_inv:
  assumes "hinv s"
  shows "hinv (fst (ResolveToken sha ev token s))"
proof -
  obtain s1 b1 where c: "claimMissRefresh (he_now ev) s = (s1, b1)" by fastforce
  obtain s2 b2 where r: "refresh ev s1 = (s2, b2)" by fastforce
  have "hinv s1" "hinv s2" using claim_inv [OF assms c] refresh_inv r by auto
  then show ?thesis using assms by (simp add: ResolveToken_def Let_def c r split: option.split bool.split)
qed

lemma Register_inv:
  assumes "hinv s" "sha token \<notin> hw_hash ` set (hh_rows s)" "length (sha token) = 32"
  shows "hinv (fst (Register sha ev hostname token n s))"
proof -
  have bump: "hinv (s\<lparr>hh_nextID := hh_nextID s + 1\<rparr>)"
    using assms(1) by (auto simp: hinv_def rows_ok_def maps_agree_def)
  have "rows_ok (s\<lparr>hh_nextID := hh_nextID s + 1, hh_rows := hh_rows s @ [new_row (hh_nextID s) hostname (sha token) n' t]\<rparr>)" for n' t
    using assms by (auto simp: hinv_def rows_ok_def new_row_def)
  moreover have "rows_ok (update_where (\<lambda>x. ht_ID x = ht_ID r) (\<lambda>x. x\<lparr>ht_SampleIntervalS := n', hw_hash := sha token\<rparr>)
      (s\<lparr>hh_nextID := hh_nextID s + 1\<rparr>))" for r n'
  proof -
    have "distinct (map hw_hash (map (\<lambda>x. if ht_ID x = i then x\<lparr>ht_SampleIntervalS := n', hw_hash := sha token\<rparr> else x) rows))"
      if "distinct (map ht_ID rows)" "distinct (map hw_hash rows)" "sha token \<notin> hw_hash ` set rows" for i rows
      using that by (induction rows) (auto simp: image_iff split: if_splits)
    then show ?thesis using assms
      by (auto simp: hinv_def rows_ok_def update_where_def comp_def if_distrib cong: if_cong)
  qed
  ultimately show ?thesis using assms(1) bump
    by (auto simp: Register_def Let_def intro!: hinv_invalidate split: option.split)
qed

lemma hstep_inv: "\<lbrakk>hstep sha s s'; hinv s\<rbrakk> \<Longrightarrow> hinv s'"
proof (induction rule: hstep.induct)
  case (register token s ev hostname n)
  then show ?case by (intro Register_inv)
next
  case (update s ev i u)
  then show ?case by (auto simp: host_Update_def Let_def intro!: keeps_identity)
next
  case (request s ev i)
  then show ?case by (auto simp: RequestUpgrade_def Let_def intro!: keeps_identity)
next
  case (clear s ev i)
  then show ?case by (auto simp: ClearUpgradeRequest_def intro!: keeps_identity)
next
  case (delete s ev i)
  then show ?case by (auto simp: host_Delete_def intro!: exec_rows_inv)
next
  case (archive s ev i)
  then show ?case by (auto simp: Archive_def intro!: exec_rows_inv)
next
  case (unarchive s ev i)
  then show ?case by (auto simp: Unarchive_def Let_def intro!: exec_rows_inv)
next
  case (touch s ev i info)
  then show ?case by (intro Touch_inv)
next
  case (resolve s ev token)
  then show ?case by (intro ResolveToken_inv)
next
  case (look s ev i)
  then show ?case using refresh_inv by (auto simp: host_Get_def split: option.split prod.split bool.split)
qed

lemma hreach_inv: "(hstep sha)\<^sup>*\<^sup>* hosts0 s \<Longrightarrow> hinv s"
proof (induction rule: rtranclp_induct)
  case base
  then show ?case by (simp add: hinv_def hosts0_def rows_ok_def)
next
  case (step s s')
  then show ?case by (auto intro: hstep_inv)
qed

lemma find_unique: "\<lbrakk>distinct (map f xs); r \<in> set xs\<rbrakk> \<Longrightarrow> find (\<lambda>x. f x = f r) xs = Some r"
  by (induction xs) auto

lemma check_agrees:
  assumes "maps_agree s" "rows_ok s" "get (hh_byToken s) k = Some i"
  shows "check_host s i = resolve_spec (hh_rows s) k"
proof -
  obtain r where r: "find (\<lambda>r. hw_hash r = k) (hh_rows s) = Some r" "ht_ID r = i"
    using assms(1,3) by (auto simp: maps_agree_def)
  then have "r \<in> set (hh_rows s)" by (auto simp: find_Some_iff)
  then have "find (\<lambda>x. ht_ID x = i) (hh_rows s) = Some r"
    using assms(2) r(2) find_unique [of ht_ID "hh_rows s" r] by (simp add: rows_ok_def)
  then have "map_option stat (get (hh_byID s) i) = Some (stat r)" using assms(1) by (simp add: maps_agree_def)
  then obtain h where "get (hh_byID s) i = Some h" "stat h = stat r" by blast
  then show ?thesis using r by (simp add: check_host_def resolve_spec_def stat_def)
qed

lemma lookup_agrees:
  assumes "maps_agree s" "rows_ok s"
  shows "(case constantTimeLookup (hh_byToken s) k None of None \<Rightarrow> Inl ErrNotFound | Some i \<Rightarrow> check_host s i) = resolve_spec (hh_rows s) k"
proof (cases "get (hh_byToken s) k")
  case None
  then have "find (\<lambda>r. hw_hash r = k) (hh_rows s) = None" using assms(1) by (simp add: maps_agree_def)
  then show ?thesis using None assms(1) by (simp add: lookup_get maps_agree_def resolve_spec_def)
next
  case (Some i)
  have "wf_map (hh_byToken s)" using assms(1) by (simp add: maps_agree_def)
  then show ?thesis using check_agrees [OF assms Some] Some by (simp add: lookup_get)
qed

section \<open>Guarantees\<close>

text \<open>The lookup can reach the table: the cache answers, or a refresh is due and succeeds.\<close>

definition can_resolve :: "henv \<Rightarrow> hosts \<Rightarrow> bool" where
  "can_resolve ev s \<longleftrightarrow> he_ok ev \<and>
     (hh_cachedAt s = zero_time \<or> cached (he_now ev) s \<or> missCooldown \<le> time_Sub (he_now ev) (hh_missRefresh s))"

lemma not_cached_zero: "unix_epoch \<le> he_now ev \<Longrightarrow> hh_cachedAt s = zero_time \<Longrightarrow> \<not> cached (he_now ev) s"
  by (simp add: cached_def time_Sub_def zero_time_def unix_epoch_def cacheTTL_def Second_def)

lemma resolve_after_refresh:
  assumes "rows_ok s" "he_ok ev"
  shows "snd (case refresh ev s of (s, False) \<Rightarrow> (s, Inl ErrDB) | (s, True) \<Rightarrow>
      (case constantTimeLookup (hh_byToken s) k None of None \<Rightarrow> (s, Inl ErrNotFound) | Some i \<Rightarrow> (s, check_host s i)))
    = resolve_spec (hh_rows s) k"
proof -
  let ?s = "install_maps (he_now ev) (build_maps (hh_rows s) [] []) s"
  have "refresh ev s = (?s, True)" using assms(2) by (simp add: refresh_def)
  moreover have "hh_rows ?s = hh_rows s" by (simp add: install_maps_def)
  ultimately show ?thesis using lookup_agrees [OF install_agrees [OF assms(1)], of "he_now ev" k] assms(1)
    by (simp split: option.splits)
qed

text \<open>A fresh cache has the digest, so the table is not asked.\<close>

definition cache_hit :: "(string \<Rightarrow> string) \<Rightarrow> henv \<Rightarrow> string \<Rightarrow> hosts \<Rightarrow> bool" where
  "cache_hit sha ev token s \<longleftrightarrow> cached (he_now ev) s \<and> constantTimeLookup (hh_byToken s) (sha token) None \<noteq> None"

text \<open>The answer is that of the table, or an error because the table could not be reached.\<close>

lemma ResolveToken_result:
  assumes "hinv s" "unix_epoch \<le> he_now ev"
  shows "if can_resolve ev s \<or> cache_hit sha ev token s then snd (ResolveToken sha ev token s) = resolve_spec (hh_rows s) (sha token)
    else snd (ResolveToken sha ev token s) \<in> {Inl ErrNotFound, Inl ErrDB}"
proof -
  let ?k = "sha token"
  let ?hit = "if cached (he_now ev) s then constantTimeLookup (hh_byToken s) ?k None else None"
  have agree: "maps_agree s" if "cached (he_now ev) s"
    using assms not_cached_zero that by (auto simp: hinv_def)
  have rows: "rows_ok s" using assms(1) by (simp add: hinv_def)
  show ?thesis
  proof (cases ?hit)
    case (Some i)
    then have "cached (he_now ev) s" "cache_hit sha ev token s" by (auto simp: cache_hit_def split: if_splits)
    then show ?thesis using lookup_agrees [OF agree rows, of ?k] Some by (simp add: ResolveToken_def Let_def)
  next
    case None
    then have no_hit: "\<not> cache_hit sha ev token s" by (auto simp: cache_hit_def)
    obtain s1 b1 where c: "claimMissRefresh (he_now ev) s = (s1, b1)" by fastforce
    have s1: "rows_ok s1" "hh_rows s1 = hh_rows s" using claim_inv [OF assms(1) c] by (simp_all add: hinv_def)
    have res: "snd (ResolveToken sha ev token s) = (if b1 then snd (case refresh ev s1 of (s, False) \<Rightarrow> (s, Inl ErrDB) | (s, True) \<Rightarrow>
      (case constantTimeLookup (hh_byToken s) ?k None of None \<Rightarrow> (s, Inl ErrNotFound) | Some i \<Rightarrow> (s, check_host s i))) else Inl ErrNotFound)"
      unfolding ResolveToken_def Let_def None c by (cases b1) simp_all
    have spec: "resolve_spec (hh_rows s) ?k = Inl ErrNotFound" if "cached (he_now ev) s"
      using lookup_agrees [OF agree [OF that] rows, of ?k] None that by simp
    show ?thesis
    proof (cases "b1 \<and> he_ok ev")
      case True
      then have "can_resolve ev s" using c by (auto simp: can_resolve_def claimMissRefresh_def split: if_splits)
      then show ?thesis using True res resolve_after_refresh [OF s1(1), of ev ?k] s1(2) by simp
    next
      case False
      then show ?thesis using res spec c no_hit
        by (auto simp: can_resolve_def refresh_def claimMissRefresh_def split: if_splits)
    qed
  qed
qed

text \<open>
  C12. Agents are admitted by the table. After any calls, which run one after the other, when a fresh cache has the token, or
  the database answers and the cache is fresh or may be refreshed, the token check lets a request in exactly for the live host whose
  row has the digest of the token, and answers 410, 403 or 401 for a deleted, an archived or no such host. Otherwise
  everyone is refused with 401 or 500. In no case a request is admitted for another than a live host with this digest in
  the table. A refresh that overlaps a deletion is treated in \<open>refresh_race_admits_deleted\<close> below.
\<close>

theorem token_check_follows_table:
  assumes "(hstep sha)\<^sup>*\<^sup>* hosts0 s" "unix_epoch \<le> he_now ev" "token \<noteq> []"
  shows "(if can_resolve ev s \<or> cache_hit sha ev token s then snd (requireAgentToken sha ev token s) =
      (case find (\<lambda>r. hw_hash r = sha token) (hh_rows s) of
         None \<Rightarrow> Inl 401
       | Some r \<Rightarrow> if ht_DeletedAt r \<noteq> None then Inl 410 else if ht_ArchivedAt r \<noteq> None then Inl 403 else Inr (ht_ID r))
      else snd (requireAgentToken sha ev token s) \<in> {Inl 401, Inl 500}) \<and>
    (snd (requireAgentToken sha ev token s) = Inr i \<longrightarrow>
      (\<exists>r\<in>set (hh_rows s). ht_ID r = i \<and> hw_hash r = sha token \<and> live r))"
proof -
  have inv: "hinv s" by (rule hreach_inv [OF assms(1)])
  obtain s' res where r: "ResolveToken sha ev token s = (s', res)" by fastforce
  have cases: "if can_resolve ev s \<or> cache_hit sha ev token s then res = resolve_spec (hh_rows s) (sha token)
      else res = Inl ErrNotFound \<or> res = Inl ErrDB"
    using ResolveToken_result [OF inv assms(2), of sha token] unfolding r snd_conv by (auto split: if_splits)
  have mw: "snd (requireAgentToken sha ev token s) = (case res of Inr i \<Rightarrow> Inr i
      | Inl e \<Rightarrow> Inl (case e of ErrTombstoned \<Rightarrow> 410 | ErrArchived \<Rightarrow> 403 | ErrNotFound \<Rightarrow> 401 | _ \<Rightarrow> 500))"
    using assms(3) r by (simp add: requireAgentToken_def split: sum.split herr.split)
  show ?thesis
  proof (cases "find (\<lambda>r. hw_hash r = sha token) (hh_rows s)")
    case None
    then show ?thesis using cases by (auto simp: mw resolve_spec_def split: if_splits)
  next
    case (Some r)
    then have "r \<in> set (hh_rows s)" "hw_hash r = sha token" by (auto simp: find_Some_iff)
    then show ?thesis using cases Some by (auto simp: mw resolve_spec_def live_def split: if_splits)
  qed
qed

text \<open>A server with one host, and a digest for the examples: the token padded to 32 bytes.\<close>

definition sha0 :: "string \<Rightarrow> string" where
  "sha0 t = pad32 t"

definition henv0 :: henv where
  "henv0 = \<lparr>he_now = unix_epoch + 1700000000 * Second, he_ok = True\<rparr>"

definition hosts1 :: hosts where
  "hosts1 = fst (Register sha0 henv0 ''web'' ''secret'' 10 hosts0)"

lemma hosts1_reached: "(hstep sha0)\<^sup>*\<^sup>* hosts0 hosts1"
proof -
  have "hstep sha0 hosts0 hosts1" unfolding hosts1_def by (rule hstep.register) (simp_all add: hosts0_def sha0_def pad32_def)
  then show ?thesis by simp
qed

theorem token_check_follows_table_witness:
  "snd (requireAgentToken sha0 henv0 ''secret'' hosts1) = Inr 1 \<and>
   snd (requireAgentToken sha0 henv0 ''guess'' hosts1) = Inl 401"
proof -
  have c: "can_resolve henv0 hosts1" by code_simp
  have rows: "find (\<lambda>r. hw_hash r = sha0 ''secret'') (hh_rows hosts1) = Some (new_row 1 ''web'' (sha0 ''secret'') 10 (he_now henv0))"
    "find (\<lambda>r. hw_hash r = sha0 ''guess'') (hh_rows hosts1) = None" by code_simp+
  have t: "unix_epoch \<le> he_now henv0" by (simp add: henv0_def Second_def)
  show ?thesis
    using token_check_follows_table [OF hosts1_reached t, of "''secret''"] token_check_follows_table [OF hosts1_reached t, of "''guess''"]
    by (simp add: c rows new_row_def)
qed

text \<open>
  The theorem is about calls that run one after the other. A refresh that has read the table
  before a deletion and installs its maps after it leaves the deleted host in the cache, and its
  token is accepted until the cache expires.
\<close>

lemma refresh_race_admits_deleted:
  "let snapshot = build_maps (hh_rows hosts1) [] [];
       deleted = fst (host_Delete henv0 1 hosts1);
       raced = install_maps (he_now henv0) snapshot deleted
   in snd (requireAgentToken sha0 henv0 ''secret'' deleted) = Inl 410 \<and>
      snd (requireAgentToken sha0 henv0 ''secret'' raced) = Inr 1"
  by code_simp

text \<open>
  When the cache has expired and reading the table fails, the first request is answered with 500;
  further requests within a second are answered 401 although their token is valid.
\<close>

lemma outage_reported_as_unknown:
  "let s1 = fst (requireAgentToken sha0 henv0 ''secret'' hosts1);
       late = \<lparr>he_now = he_now henv0 + 60 * Second, he_ok = False\<rparr>;
       s2 = fst (requireAgentToken sha0 late ''secret'' s1)
   in snd (requireAgentToken sha0 late ''secret'' s1) = Inl 500 \<and>
      snd (requireAgentToken sha0 late ''secret'' s2) = Inl 401"
  by code_simp

end
