(* ===== verification/Sse_Hub.thy ===== *)
theory Sse_Hub
  imports Metrics Wire
begin

text \<open>
  \<open>internal/server/sse/hub.go\<close>: live updates to browsers. A subscriber has a bounded channel; a
  broadcast never waits for a slow one.
\<close>

section \<open>Definitions\<close>

datatype subKind = subPoints | subAlerts

definition pointsChanBuffer :: int where "pointsChanBuffer = 1024"
definition alertChanBuffer :: int where "alertChanBuffer = 64"

text \<open>An event with the value whose JSON text is its data.\<close>

datatype subMsg = PointsMsg int "point list" | AlertMsg alertEvent

record sub =
  su_hostID :: int
  su_kind :: subKind
  su_metrics :: "string list"
  su_cap :: int
  su_ch :: "subMsg list"

text \<open>JSON has no infinities or NaN, and an instant must have a year from 0 to 9999.\<close>

definition json_float :: "f64 \<Rightarrow> bool" where
  "json_float v = (case v of Fin _ \<Rightarrow> True | _ \<Rightarrow> False)"

definition json_time :: "time \<Rightarrow> bool" where
  "json_time t \<longleftrightarrow> - 31622400 * Second \<le> t \<and> t < 315537897600 * Second"

text \<open>A send that is dropped when the channel is full.\<close>

definition offer :: "subMsg \<Rightarrow> sub \<Rightarrow> sub" where
  "offer m s = (if int (length (su_ch s)) < su_cap s then s\<lparr>su_ch := su_ch s @ [m]\<rparr> else s)"

definition broadcast_sub :: "int \<Rightarrow> point list \<Rightarrow> sub \<Rightarrow> sub" where
  "broadcast_sub hostID points s =
     (if su_kind s \<noteq> subPoints then s
      else if su_hostID s \<noteq> 0 \<and> su_hostID s \<noteq> hostID then s
      else (let filtered = (if su_metrics s = [] then points
                  else filter (\<lambda>p. mt_Name (metric_Meta (pt_Metric p)) \<in> set (su_metrics s)) points)
            in if su_metrics s \<noteq> [] \<and> filtered = [] then s
               else if list_all (\<lambda>p. json_float (pt_Value p) \<and> json_time (pt_Time p)) filtered
               then offer (PointsMsg hostID filtered) s
               else s))"

definition Broadcast :: "int \<Rightarrow> point list \<Rightarrow> sub list \<Rightarrow> sub list" where
  "Broadcast hostID points subs = map (broadcast_sub hostID points) subs"

definition BroadcastAlert :: "alertEvent \<Rightarrow> sub list \<Rightarrow> sub list" where
  "BroadcastAlert ev subs =
     (if \<not> (json_float (br_Value ev) \<and> json_time (br_Time ev)) then subs
      else map (\<lambda>s. if su_kind s \<noteq> subAlerts then s
                    else if su_hostID s \<noteq> 0 \<and> su_hostID s \<noteq> br_HostID ev then s
                    else offer (AlertMsg ev) s) subs)"

fun splitCSV_from :: "string \<Rightarrow> string \<Rightarrow> string list" where
  "splitCSV_from cur [] = (if cur = [] then [] else [cur])"
| "splitCSV_from cur (c # cs) =
     (if c = CHR '','' then (if cur = [] then splitCSV_from [] cs else cur # splitCSV_from [] cs)
      else splitCSV_from (cur @ [c]) cs)"

definition splitCSV :: "string \<Rightarrow> string list" where
  "splitCSV s = splitCSV_from [] s"

text \<open>
  \<open>strconv.ParseInt\<close> with its error ignored: 0 for a text that is no number, the nearest
  representable number for one out of range.
\<close>

definition parse_or_zero :: "string \<Rightarrow> int" where
  "parse_or_zero s =
     (let neg = (s \<noteq> [] \<and> hd s = CHR ''-''); ds = (if s \<noteq> [] \<and> hd s \<in> {CHR ''-'', CHR ''+''} then tl s else s)
      in if ds = [] \<or> \<not> list_all is_digit ds then 0
         else max (- (2 ^ 63)) (min (2 ^ 63 - 1) (if neg then - dec_val 0 ds else dec_val 0 ds)))"

text \<open>The subscription of a request, from its query parameters.\<close>

definition subscribe :: "string \<Rightarrow> string \<Rightarrow> string \<Rightarrow> sub" where
  "subscribe host_id metrics kind =
     (let k = (if kind = ''alerts'' then subAlerts else subPoints)
      in \<lparr>su_hostID = parse_or_zero host_id, su_kind = k,
          su_metrics = remdups (splitCSV metrics),
          su_cap = (if k = subPoints then pointsChanBuffer else alertChanBuffer), su_ch = []\<rparr>)"

section \<open>Guarantees\<close>

text \<open>The points of a message, and those a subscriber asked for.\<close>

definition wanted :: "sub \<Rightarrow> int \<Rightarrow> point \<Rightarrow> bool" where
  "wanted s hostID p \<longleftrightarrow> su_kind s = subPoints \<and> (su_hostID s = 0 \<or> su_hostID s = hostID) \<and>
     (su_metrics s = [] \<or> mt_Name (metric_Meta (pt_Metric p)) \<in> set (su_metrics s))"

lemma offer_ch: "su_ch (offer m s) = su_ch s \<or> su_ch (offer m s) = su_ch s @ [m]"
  by (simp add: offer_def)

lemma offer_bounded: "int (length (su_ch s)) \<le> su_cap s \<Longrightarrow> int (length (su_ch (offer m s))) \<le> su_cap (offer m s)"
  by (simp add: offer_def)

lemma wanted_filter:
  "\<lbrakk>su_kind s = subPoints; su_hostID s = 0 \<or> su_hostID s = h\<rbrakk> \<Longrightarrow>
     (if su_metrics s = [] then ps else filter (\<lambda>p. mt_Name (metric_Meta (pt_Metric p)) \<in> set (su_metrics s)) ps) = filter (wanted s h) ps"
  by (auto simp: wanted_def intro!: filter_cong)

text \<open>The broadcast to one subscriber in terms of the points it wants.\<close>

lemma broadcast_sub_wanted:
  "broadcast_sub h ps s =
     (if su_kind s = subPoints \<and> (su_hostID s = 0 \<or> su_hostID s = h) \<and> (su_metrics s = [] \<or> filter (wanted s h) ps \<noteq> []) \<and>
         list_all (\<lambda>p. json_float (pt_Value p) \<and> json_time (pt_Time p)) (filter (wanted s h) ps)
      then offer (PointsMsg h (filter (wanted s h) ps)) s else s)"
proof (cases "su_kind s = subPoints \<and> (su_hostID s = 0 \<or> su_hostID s = h)")
  case True
  then have w: "(if su_metrics s = [] then ps else filter (\<lambda>p. mt_Name (metric_Meta (pt_Metric p)) \<in> set (su_metrics s)) ps) =
    filter (wanted s h) ps" using wanted_filter by blast
  show ?thesis unfolding broadcast_sub_def w using True by (auto simp: Let_def)
next
  case False
  then show ?thesis by (auto simp: broadcast_sub_def)
qed

lemma broadcast_sub_ch:
  "su_ch (broadcast_sub h ps s) \<noteq> su_ch s \<Longrightarrow>
     su_ch (broadcast_sub h ps s) = su_ch s @ [PointsMsg h (filter (wanted s h) ps)] \<and> int (length (su_ch s)) < su_cap s \<and> su_kind s = subPoints"
  by (auto simp: broadcast_sub_wanted offer_def split: if_splits)

lemma broadcast_delivers:
  assumes "int (length (su_ch s)) < su_cap s" "filter (wanted s h) ps \<noteq> []"
    "\<forall>p\<in>set ps. json_float (pt_Value p) \<and> json_time (pt_Time p)"
  shows "su_ch (broadcast_sub h ps s) = su_ch s @ [PointsMsg h (filter (wanted s h) ps)]"
proof -
  have "su_kind s = subPoints \<and> (su_hostID s = 0 \<or> su_hostID s = h)"
    using assms(2) by (auto simp: wanted_def filter_empty_conv)
  then show ?thesis using assms by (simp add: broadcast_sub_wanted offer_def list_all_iff)
qed

text \<open>
  A broadcast gives each subscriber exactly the points it asked for. Its channel gets at most one
  message, with the points of its host and metrics in their order; a subscriber with room and
  a matching point gets it; channels never exceed their capacity, and subscribers of
  alerts get none.
\<close>

lemma broadcast_exact:
  assumes "s \<in> set subs" "int (length (su_ch s)) \<le> su_cap s"
    "\<forall>p\<in>set ps. json_float (pt_Value p) \<and> json_time (pt_Time p)"
  shows "broadcast_sub h ps s \<in> set (Broadcast h ps subs) \<and>
    int (length (su_ch (broadcast_sub h ps s))) \<le> su_cap (broadcast_sub h ps s) \<and>
    (su_ch (broadcast_sub h ps s) = su_ch s \<or> su_ch (broadcast_sub h ps s) = su_ch s @ [PointsMsg h (filter (wanted s h) ps)]) \<and>
    (int (length (su_ch s)) < su_cap s \<and> filter (wanted s h) ps \<noteq> [] \<longrightarrow>
       su_ch (broadcast_sub h ps s) = su_ch s @ [PointsMsg h (filter (wanted s h) ps)]) \<and>
    (su_kind s = subAlerts \<longrightarrow> su_ch (broadcast_sub h ps s) = su_ch s)"
proof -
  have cap: "su_cap (broadcast_sub h ps s) = su_cap s" by (simp add: broadcast_sub_wanted offer_def)
  have mem: "broadcast_sub h ps s \<in> set (Broadcast h ps subs)" using assms(1) by (simp add: Broadcast_def)
  show ?thesis
  proof (cases "su_ch (broadcast_sub h ps s) = su_ch s")
    case True
    then show ?thesis using mem cap assms(2) broadcast_delivers [OF _ _ assms(3), of s h] by fastforce
  next
    case False
    then show ?thesis using mem cap broadcast_sub_ch [OF False] by simp
  qed
qed

definition sub1 :: sub where
  "sub1 = subscribe ''7'' ''cpu_total_pct,mem_used'' []"

definition points1 :: "point list" where
  "points1 = [\<lparr>pt_Time = unix_epoch, pt_Metric = 105, pt_Labels = None, pt_Value = Fin 1\<rparr>,
              \<lparr>pt_Time = unix_epoch, pt_Metric = 120, pt_Labels = None, pt_Value = Fin 2\<rparr>]"

end
