(* ===== verification/Ingest_Handler.thy ===== *)
theory Ingest_Handler
  imports Ingest_Batcher Host_Store Sse_Hub Version
begin

text \<open>
  \<open>internal/server/api/ingest.go\<close> with the conversions and the snapshot transaction of
  \<open>internal/server/ingest/batcher.go\<close>: the request by which an agent delivers a batch. It
  composes the queue, the tables of snapshots, the hosts, the live updates and the ban service;
  the last one is a parameter. The decoded body is the input (or why it could not be decoded).
\<close>

section \<open>Conversions\<close>

record backupRow =
  bw_HostID :: int
  bw_Repo :: string
  bw_Payload :: backupRepoStatus
  bw_UpdatedAt :: time

definition backupSnapshotLimit :: nat where "backupSnapshotLimit = 50"

text \<open>The map by repository; \<open>fails\<close> says for which values \<^verbatim>\<open>json.Marshal\<close> fails.\<close>

fun by_repo :: "backupRepoStatus list \<Rightarrow> (string, backupRepoStatus) gomap \<Rightarrow> (string, backupRepoStatus) gomap" where
  "by_repo [] m = m"
| "by_repo (b # bs) m =
     (let b = b\<lparr>bk_Name := trim_space (bk_Name b)\<rparr>
      in if bk_Name b = [] then by_repo bs m
         else (let b = (if backupSnapshotLimit < length (bk_Snapshots b)
                        then b\<lparr>bk_Snapshots := take backupSnapshotLimit (bk_Snapshots b)\<rparr> else b)
               in by_repo bs (put (bk_Name b) b m)))"

definition ConvertBackups ::
  "(backupRepoStatus \<Rightarrow> bool) \<Rightarrow> int \<Rightarrow> backupRepoStatus list \<Rightarrow> time \<Rightarrow> (backupRow list \<times> string list) option" where
  "ConvertBackups fails hostID backups updatedAt =
     (if backups = [] then Some ([], [])
      else (let byRepo = by_repo backups []; repos = sort (map fst byRepo)
            in if list_ex (\<lambda>r. fails (the (get byRepo r))) repos then None
               else Some (map (\<lambda>r. \<lparr>bw_HostID = hostID, bw_Repo = r, bw_Payload = the (get byRepo r), bw_UpdatedAt = updatedAt\<rparr>) repos, repos)))"

definition or_now :: "time \<Rightarrow> time \<Rightarrow> time" where
  "or_now now t = (if t = zero_time then now else t)"

definition conv_point :: "int \<Rightarrow> time \<Rightarrow> point \<Rightarrow> row" where
  "conv_point hostID now p = \<lparr>rw_Time = or_now now (pt_Time p), rw_HostID = hostID, rw_Metric = pt_Metric p,
     rw_Labels = (case pt_Labels p of None \<Rightarrow> JNull | Some m \<Rightarrow> JObject m), rw_Value = pt_Value p\<rparr>"

definition conv_process :: "int \<Rightarrow> time \<Rightarrow> process \<Rightarrow> processRow" where
  "conv_process hostID now p = \<lparr>pw_Time = or_now now (ps_Time p), pw_HostID = hostID, pw_PID = ps_PID p, pw_Name = ps_Name p,
     pw_User = ps_User p, pw_Cmdline = ps_Cmdline p, pw_CPUPct = ps_CPUPct p, pw_MemRSS = ps_MemRSS p,
     pw_Status = ps_Status p, pw_NThreads = ps_NThreads p\<rparr>"

definition conv_container :: "int \<Rightarrow> time \<Rightarrow> container \<Rightarrow> containerRow" where
  "conv_container hostID now c = \<lparr>cw_Time = or_now now (cn_Time c), cw_HostID = hostID, cw_CID = cn_ID c, cw_Name = cn_Name c,
     cw_Image = cn_Image c, cw_State = cn_State c, cw_CPUPct = cn_CPUPct c, cw_MemUsed = cn_MemUsed c,
     cw_MemLimit = cn_MemLimit c, cw_RxBytes = cn_RxBytes c, cw_TxBytes = cn_TxBytes c\<rparr>"

definition conv_port :: "int \<Rightarrow> time \<Rightarrow> port \<Rightarrow> portRow" where
  "conv_port hostID now p = \<lparr>ow_Time = or_now now (po_Time p), ow_HostID = hostID, ow_Proto = po_Proto p, ow_Addr = po_Addr p,
     ow_Port = po_Port p, ow_PID = (if 0 < po_PID p then Some (po_PID p) else None),
     ow_Process = (if po_Process p \<noteq> [] then Some (po_Process p) else None)\<rparr>"

definition ConvertBatch :: "int \<Rightarrow> time \<Rightarrow> 'r batch \<Rightarrow> row list \<times> processRow list \<times> containerRow list \<times> portRow list" where
  "ConvertBatch hostID now b =
     (map (conv_point hostID now) (bt_Points b), map (conv_process hostID now) (bt_Processes b),
      map (conv_container hostID now) (bt_Containers b), map (conv_port hostID now) (bt_Ports b))"

section \<open>Snapshots\<close>

record snapdb =
  sd_processes :: "processRow list"
  sd_containers :: "containerRow list"
  sd_ports :: "portRow list"
  sd_backup_status :: "(int \<times> string, backupRow) gomap"

text \<open>A transaction: its statements in order, each of which can fail, then the commit.\<close>

fun run_tx :: "(nat \<Rightarrow> bool) \<Rightarrow> nat \<Rightarrow> (snapdb \<Rightarrow> snapdb) list \<Rightarrow> snapdb \<Rightarrow> snapdb option" where
  "run_tx fail n [] d = (if fail n then None else Some d)"
| "run_tx fail n (f # fs) d = (if fail n then None else run_tx fail (n + 1) fs (f d))"

definition upsert_backup :: "backupRow \<Rightarrow> snapdb \<Rightarrow> snapdb" where
  "upsert_backup r d = d\<lparr>sd_backup_status := put (bw_HostID r, bw_Repo r) r (sd_backup_status d)\<rparr>"

definition delete_other_repos :: "int \<Rightarrow> string list \<Rightarrow> snapdb \<Rightarrow> snapdb" where
  "delete_other_repos host repos d =
     d\<lparr>sd_backup_status := filter (\<lambda>((h, r), _). \<not> (h = host \<and> r \<notin> set repos)) (sd_backup_status d)\<rparr>"

definition snapshot_stmts ::
  "processRow list \<Rightarrow> containerRow list \<Rightarrow> portRow list \<Rightarrow> backupRow list \<Rightarrow> string list \<Rightarrow> (snapdb \<Rightarrow> snapdb) list" where
  "snapshot_stmts procs conts ports backups repos =
     (if procs \<noteq> [] then [\<lambda>d. d\<lparr>sd_processes := sd_processes d @ procs\<rparr>] else []) @
     (if conts \<noteq> [] then [\<lambda>d. d\<lparr>sd_containers := sd_containers d @ conts\<rparr>] else []) @
     (if ports \<noteq> [] then [\<lambda>d. d\<lparr>sd_ports := sd_ports d @ ports\<rparr>] else []) @
     (if backups \<noteq> [] then map upsert_backup backups @ [delete_other_repos (bw_HostID (hd backups)) repos] else [])"

definition InsertSnapshots ::
  "(nat \<Rightarrow> bool) \<Rightarrow> processRow list \<Rightarrow> containerRow list \<Rightarrow> portRow list \<Rightarrow> backupRow list \<Rightarrow> string list \<Rightarrow> snapdb \<Rightarrow> snapdb \<times> bool" where
  "InsertSnapshots fail procs conts ports backups repos d =
     (if procs = [] \<and> conts = [] \<and> ports = [] \<and> backups = [] then (d, True)
      else if fail 0 then (d, False)
      else (case run_tx fail 1 (snapshot_stmts procs conts ports backups repos) d of
              None \<Rightarrow> (d, False)
            | Some d' \<Rightarrow> (d', True)))"

section \<open>The request\<close>

definition minRemoteUpgradeVersion :: string where
  "minRemoteUpgradeVersion = ''0.1.1''"

definition supportsRemoteUpgrade :: "string \<Rightarrow> bool" where
  "supportsRemoteUpgrade v = (if v = [] then False else \<not> IsNewer minRemoteUpgradeVersion v)"

definition upgradeStallWindow :: duration where
  "upgradeStallWindow = 15 * Minute"

datatype 'r body = BadGzip | BadJSON | BodyTooLarge | TrailingData | Decoded "'r batch"

record 'b isys =
  is_b :: batcher
  is_db :: snapdb
  is_hub :: "sub list"
  is_hosts :: hosts
  is_bans :: 'b

record ('b, 'r) ienv =
  ie_now :: time
  ie_marshal_fails :: "backupRepoStatus \<Rightarrow> bool"
  ie_snap_fail :: "nat \<Rightarrow> bool"
  ie_bans :: "(('b \<Rightarrow> int \<Rightarrow> 'r \<Rightarrow> 'b \<times> bool) \<times> ('b \<Rightarrow> int)) option"
  ie_browse :: "bool option"
  ie_pubkey :: "string option"
  ie_version :: string
  ie_touch :: henv
  ie_get :: henv
  ie_clear :: henv

datatype response = RErr int | ROk ingestAck

text \<open>The timestamps of a list: zero becomes \<open>now\<close>, anything outside the window is refused.\<close>

fun check_times :: "('a \<Rightarrow> time) \<Rightarrow> (time \<Rightarrow> 'a \<Rightarrow> 'a) \<Rightarrow> time \<Rightarrow> 'a list \<Rightarrow> 'a list option" where
  "check_times g u now [] = Some []"
| "check_times g u now (x # xs) =
     (if g x = zero_time then map_option (Cons (u now x)) (check_times g u now xs)
      else if g x < now - 2 * Hour \<or> now + 2 * Minute < g x then None
      else map_option (Cons x) (check_times g u now xs))"

definition check_batch :: "time \<Rightarrow> 'r batch \<Rightarrow> 'r batch option" where
  "check_batch now b =
     (case check_times pt_Time (\<lambda>t x. x\<lparr>pt_Time := t\<rparr>) now (bt_Points b) of None \<Rightarrow> None | Some ps \<Rightarrow>
     (case check_times ps_Time (\<lambda>t x. x\<lparr>ps_Time := t\<rparr>) now (bt_Processes b) of None \<Rightarrow> None | Some qs \<Rightarrow>
     (case check_times cn_Time (\<lambda>t x. x\<lparr>cn_Time := t\<rparr>) now (bt_Containers b) of None \<Rightarrow> None | Some cs \<Rightarrow>
     (case check_times po_Time (\<lambda>t x. x\<lparr>po_Time := t\<rparr>) now (bt_Ports b) of None \<Rightarrow> None | Some os \<Rightarrow>
        Some (b\<lparr>bt_Points := ps, bt_Processes := qs, bt_Containers := cs, bt_Ports := os\<rparr>)))))"

definition empty_batch :: "'r batch \<Rightarrow> bool" where
  "empty_batch b \<longleftrightarrow> bt_Points b = [] \<and> bt_Processes b = [] \<and> bt_Containers b = [] \<and> bt_Ports b = [] \<and> bt_Backups b = [] \<and> bt_IPBan b = None"

definition base_ack :: "('b, 'r) ienv \<Rightarrow> int \<Rightarrow> int \<Rightarrow> 'b isys \<Rightarrow> ingestAck" where
  "base_ack ev n hostID s = \<lparr>ak_Accepted = n, ak_HostID = hostID, ak_IntervalS = 0, ak_LatestAgentVersion = [],
     ak_AutoUpgrade = None, ak_UpgradeNow = False,
     ak_ServerPubkey = (case ie_pubkey ev of None \<Rightarrow> [] | Some k \<Rightarrow> k),
     ak_BackupBrowsePending = (case ie_browse ev of None \<Rightarrow> False | Some p \<Rightarrow> p),
     ak_IPBanVersion = (case ie_bans ev of None \<Rightarrow> 0 | Some (_, v) \<Rightarrow> v (is_bans s))\<rparr>"

definition host_update :: "('b, 'r) ienv \<Rightarrow> hostInfo \<Rightarrow> hostInfoUpdate" where
  "host_update ev h =
     (let reported = ho_AgentVersion h
      in \<lparr>hi_OS = ho_OS h, hi_Arch = ho_Arch h, hi_Kernel = ho_Kernel h, hi_CPUModel = ho_CPUModel h, hi_CPUCores = ho_CPUCores h,
          hi_CPUThreads = ho_CPUThreads h, hi_AgentVersion = reported, hi_Collectors = ho_Collectors h,
          hi_CollectorStatus = ho_CollectorStatus h, hi_Tags = ho_Tags h, hi_ExternallyManaged = ho_ExternallyManaged h,
          hi_ShouldSelfUpgrade = (reported \<noteq> [] \<and> supportsRemoteUpgrade reported \<and> IsNewer (ie_version ev) reported)\<rparr>)"

text \<open>What follows the commit: the host's row, the live updates and the answer.\<close>

definition finish_ingest :: "('b, 'r) ienv \<Rightarrow> int \<Rightarrow> 'r batch \<Rightarrow> 'b isys \<Rightarrow> 'b isys \<times> response" where
  "finish_ingest ev hostID batch s =
     (case Touch (ie_touch ev) hostID (host_update ev (bt_Host batch)) (is_hosts s) of
        (hs, res) \<Rightarrow>
          (let stallSince = (case res of Inl _ \<Rightarrow> None | Inr t \<Rightarrow> t);
               selfUpgradeStalled = (case stallSince of None \<Rightarrow> False | Some t \<Rightarrow> upgradeStallWindow \<le> time_Sub (he_now (ie_get ev)) t);
               s = s\<lparr>is_hosts := hs, is_hub := Broadcast hostID (bt_Points batch) (is_hub s)\<rparr>;
               ack = (base_ack ev (int (length (bt_Points batch))) hostID s)\<lparr>ak_LatestAgentVersion := ie_version ev\<rparr>
           in case host_Get (ie_get ev) hostID (is_hosts s) of
                (hs, Inl _) \<Rightarrow> (s\<lparr>is_hosts := hs\<rparr>, ROk ack)
              | (hs, Inr h) \<Rightarrow>
                  (let s = s\<lparr>is_hosts := hs\<rparr>;
                       ack = ack\<lparr>ak_IntervalS := (if 0 < ht_SampleIntervalS h then ht_SampleIntervalS h else 0),
                                 ak_AutoUpgrade := Some (if selfUpgradeStalled then False else ht_AutoUpgrade h)\<rparr>
                   in if ht_UpgradeRequestedAt h = None then (s, ROk ack)
                      else if \<not> IsNewer (ie_version ev) (ho_AgentVersion (bt_Host batch))
                      then (s\<lparr>is_hosts := fst (ClearUpgradeRequest (ie_clear ev) hostID (is_hosts s))\<rparr>, ROk ack)
                      else (s, ROk (if selfUpgradeStalled then ack else ack\<lparr>ak_UpgradeNow := True\<rparr>)))))"

text \<open>
  The part between the checks and the answer: reserve, store the snapshots, commit. \<open>None\<close>: the
  commit blocks.
\<close>

definition ingest_store ::
  "('b, 'r) ienv \<Rightarrow> int \<Rightarrow> 'r batch \<Rightarrow> row list \<Rightarrow> processRow list \<Rightarrow> containerRow list \<Rightarrow> portRow list \<Rightarrow> backupRow list \<Rightarrow>
   string list \<Rightarrow> 'b isys \<Rightarrow> ('b isys \<times> response) option" where
  "ingest_store ev hostID batch points procs conts ports backups repos s =
     (case Reserve (int (length points)) (is_b s) of
        (b, False) \<Rightarrow> Some (s\<lparr>is_b := b\<rparr>, RErr 429)
      | (b, True) \<Rightarrow>
          (case InsertSnapshots (ie_snap_fail ev) procs conts ports backups repos (is_db s) of
             (d, False) \<Rightarrow> Some (s\<lparr>is_b := ReleaseReserved (int (length points)) b, is_db := d\<rparr>, RErr 502)
           | (d, True) \<Rightarrow>
               map_option (\<lambda>b. finish_ingest ev hostID batch (s\<lparr>is_b := b, is_db := d\<rparr>)) (CommitReserved points b)))"

text \<open>The report of the ban component is delivered first.\<close>

definition ingest_bans :: "('b, 'r) ienv \<Rightarrow> int \<Rightarrow> 'r option \<Rightarrow> 'b isys \<Rightarrow> 'b isys \<times> bool" where
  "ingest_bans ev hostID report s =
     (case (ie_bans ev, report) of
        (Some (ingest, _), Some r) \<Rightarrow> (case ingest (is_bans s) hostID r of (b, ok) \<Rightarrow> (s\<lparr>is_bans := b\<rparr>, ok))
      | _ \<Rightarrow> (s, True))"

text \<open>The host is that of the token check, if there was one.\<close>

definition ingestHandler :: "('b, 'r) ienv \<Rightarrow> int option \<Rightarrow> 'r body \<Rightarrow> 'b isys \<Rightarrow> ('b isys \<times> response) option" where
  "ingestHandler ev host body s =
     (case host of
        None \<Rightarrow> Some (s, RErr 401)
      | Some hostID \<Rightarrow>
     (case body of
        BadGzip \<Rightarrow> Some (s, RErr 400)
      | BadJSON \<Rightarrow> Some (s, RErr 400)
      | BodyTooLarge \<Rightarrow> Some (s, RErr 413)
      | TrailingData \<Rightarrow> Some (s, RErr 400)
      | Decoded batch \<Rightarrow>
          if empty_batch batch then Some (s, ROk (base_ack ev 0 hostID s))
          else (case check_batch (ie_now ev) batch of
             None \<Rightarrow> Some (s, RErr 400)
           | Some batch \<Rightarrow>
               (case ConvertBatch hostID (ie_now ev) batch of (points, procs, conts, ports) \<Rightarrow>
               (case ConvertBackups (ie_marshal_fails ev) hostID (bt_Backups batch) (ie_now ev) of
                  None \<Rightarrow> Some (s, RErr 400)
                | Some (backups, repos) \<Rightarrow>
                    (case ingest_bans ev hostID (bt_IPBan batch) s of
                       (s, False) \<Rightarrow> Some (s, RErr 502)
                     | (s, True) \<Rightarrow>
                         ingest_store ev hostID batch points procs conts ports backups repos s))))))"

section \<open>Lemmas\<close>

definition in_window :: "time \<Rightarrow> time \<Rightarrow> bool" where
  "in_window now t \<longleftrightarrow> now - 2 * Hour \<le> t \<and> t \<le> now + 2 * Minute"

lemma in_window_now [simp]: "in_window now now"
  by (simp add: in_window_def duration_defs)

lemma check_times_rel:
  "check_times g u now xs = Some ys \<Longrightarrow>
     list_all2 (\<lambda>y x. y = x \<and> g x \<noteq> zero_time \<and> in_window now (g x) \<or> g x = zero_time \<and> y = u now x) ys xs"
  by (induction xs arbitrary: ys) (auto simp: in_window_def split: if_splits)

lemma check_batch_points:
  assumes "check_batch now b = Some b'"
  shows "list_all2 (\<lambda>y x. y = x \<and> pt_Time x \<noteq> zero_time \<and> in_window now (pt_Time x) \<or> pt_Time x = zero_time \<and> y = x\<lparr>pt_Time := now\<rparr>)
      (bt_Points b') (bt_Points b)"
    "bt_IPBan b' = bt_IPBan b" "bt_Backups b' = bt_Backups b" "bt_Host b' = bt_Host b"
  using assms check_times_rel [of pt_Time "\<lambda>t x. x\<lparr>pt_Time := t\<rparr>" now]
  by (auto simp: check_batch_def split: option.splits)

lemma CommitReserved_room:
  "\<lbrakk>int (length (ba_in b)) + ba_reserved b \<le> queue_cap; int (length rows) \<le> ba_reserved b\<rbrakk> \<Longrightarrow>
    CommitReserved rows b = Some (b\<lparr>ba_in := ba_in b @ rows, ba_reserved := ba_reserved b - int (length rows)\<rparr>)"
proof (induction rows arbitrary: b)
  case (Cons r rows)
  let ?b = "b\<lparr>ba_in := ba_in b @ [r], ba_reserved := ba_reserved b - 1\<rparr>"
  have "send_row r b = Some ?b" using Cons.prems by (simp add: send_row_def)
  moreover have "CommitReserved rows ?b = Some (?b\<lparr>ba_in := ba_in ?b @ rows, ba_reserved := ba_reserved ?b - int (length rows)\<rparr>)"
    using Cons.prems by (intro Cons.IH) simp_all
  ultimately show ?case by simp
qed simp

lemma finish_ingest_facts:
  "\<exists>s' ack. finish_ingest ev h batch s = (s', ROk ack) \<and> is_b s' = is_b s \<and> is_db s' = is_db s \<and> is_bans s' = is_bans s \<and>
     ak_Accepted ack = int (length (bt_Points batch)) \<and> ak_HostID ack = h"
  by (simp add: finish_ingest_def base_ack_def Let_def split: prod.split sum.split)

lemma InsertSnapshots_failed: "InsertSnapshots fail ps cs os bs rs d = (d', False) \<Longrightarrow> d' = d"
  by (auto simp: InsertSnapshots_def split: if_splits option.splits)

text \<open>The rows a batch becomes: same measurements, of this host, with an instant in the window.\<close>

definition row_of :: "int \<Rightarrow> time \<Rightarrow> row \<Rightarrow> point \<Rightarrow> bool" where
  "row_of h now r p \<longleftrightarrow> rw_HostID r = h \<and> rw_Metric r = pt_Metric p \<and> rw_Value r = pt_Value p \<and>
     rw_Labels r = (case pt_Labels p of None \<Rightarrow> JNull | Some m \<Rightarrow> JObject m) \<and>
     rw_Time r = (if pt_Time p = zero_time then now else pt_Time p) \<and> in_window now (rw_Time r)"

lemma converted_rows:
  assumes "check_batch now b = Some b'"
  shows "list_all2 (row_of h now) (map (conv_point h now) (bt_Points b')) (bt_Points b)"
proof -
  have "list_all2 (\<lambda>y x. row_of h now (conv_point h now y) x) (bt_Points b') (bt_Points b)"
    by (rule list_all2_mono [OF check_batch_points(1) [OF assms]]) (auto simp: row_of_def conv_point_def or_now_def)
  then show ?thesis by (simp add: list.rel_map)
qed

definition queue_ok :: "batcher \<Rightarrow> bool" where
  "queue_ok b \<longleftrightarrow> int (length (ba_in b)) + ba_reserved b \<le> queue_cap \<and> 0 \<le> ba_reserved b"

text \<open>
  What an answer means. The report of bans that a batch may carry is given to the ban component before anything of the batch is
  stored, so an error after that, 429 or 502, leaves there what that component made of the report, and nothing else of the
  batch. A success has all of it.
\<close>

definition bans_after :: "('b, 'r) ienv \<Rightarrow> int \<Rightarrow> 'r batch \<Rightarrow> 'b isys \<Rightarrow> 'b" where
  "bans_after ev h batch s = is_bans (fst (ingest_bans ev h (bt_IPBan batch) s))"

definition bans_left :: "('b, 'r) ienv \<Rightarrow> int option \<Rightarrow> 'r body \<Rightarrow> int \<Rightarrow> 'b isys \<Rightarrow> 'b" where
  "bans_left ev host body code s = (case (host, body) of
     (Some h, Decoded batch) \<Rightarrow> if code \<in> {429, 502} then bans_after ev h batch s else is_bans s
   | _ \<Rightarrow> is_bans s)"

definition ingest_post :: "('b, 'r) ienv \<Rightarrow> int option \<Rightarrow> 'r body \<Rightarrow> 'b isys \<Rightarrow> 'b isys \<Rightarrow> response \<Rightarrow> bool" where
  "ingest_post ev host body s s' resp \<longleftrightarrow> ba_reserved (is_b s') = ba_reserved (is_b s) \<and>
     (case resp of
        RErr code \<Rightarrow> ba_in (is_b s') = ba_in (is_b s) \<and> is_db s' = is_db s \<and> is_hosts s' = is_hosts s \<and> is_hub s' = is_hub s \<and>
          is_bans s' = bans_left ev host body code s
      | ROk ack \<Rightarrow> (\<exists>h batch rows. host = Some h \<and> body = Decoded batch \<and> ak_HostID ack = h \<and>
          ak_Accepted ack = int (length (bt_Points batch)) \<and> ba_in (is_b s') = ba_in (is_b s) @ rows \<and>
          list_all2 (row_of h (ie_now ev)) rows (bt_Points batch) \<and>
          is_bans s' = bans_after ev h batch s \<and> snd (ingest_bans ev h (bt_IPBan batch) s)))"

lemma ingest_bans_keeps:
  "ingest_bans ev h r s = (s', ok) \<Longrightarrow> is_b s' = is_b s \<and> is_db s' = is_db s \<and> is_hub s' = is_hub s \<and> is_hosts s' = is_hosts s"
  by (auto simp: ingest_bans_def split: option.splits prod.splits)

text \<open>The part after the delivery of the ban report, from the state \<open>s\<close> it left.\<close>

definition store_post :: "('b, 'r) ienv \<Rightarrow> int \<Rightarrow> 'r batch \<Rightarrow> 'b isys \<Rightarrow> 'b isys \<Rightarrow> response \<Rightarrow> bool" where
  "store_post ev h batch s s' resp \<longleftrightarrow> ba_reserved (is_b s') = ba_reserved (is_b s) \<and> is_bans s' = is_bans s \<and>
     (case resp of
        RErr code \<Rightarrow> ba_in (is_b s') = ba_in (is_b s) \<and> is_db s' = is_db s \<and> is_hosts s' = is_hosts s \<and> is_hub s' = is_hub s \<and>
          code \<in> {429, 502}
      | ROk ack \<Rightarrow> (\<exists>rows. ak_HostID ack = h \<and> ak_Accepted ack = int (length (bt_Points batch)) \<and>
          ba_in (is_b s') = ba_in (is_b s) @ rows \<and> list_all2 (row_of h (ie_now ev)) rows (bt_Points batch)))"

lemma ingest_commits:
  assumes "queue_ok (is_b s)" "check_batch (ie_now ev) batch = Some batch'" "Reserve (int (length (bt_Points batch'))) (is_b s) = (b', True)"
  shows "\<exists>s' resp. map_option (\<lambda>b. finish_ingest ev h batch' (s\<lparr>is_b := b, is_db := d\<rparr>))
      (CommitReserved (map (conv_point h (ie_now ev)) (bt_Points batch')) b') = Some (s', resp) \<and>
    store_post ev h batch s s' resp"
proof -
  let ?b = "is_b s" and ?rows = "map (conv_point h (ie_now ev)) (bt_Points batch')"
  have b': "ba_in b' = ba_in ?b" "ba_reserved b' = ba_reserved ?b + int (length ?rows)"
    "int (length (ba_in b')) + ba_reserved b' \<le> queue_cap" "0 \<le> ba_reserved ?b"
    using assms(1,3) by (auto simp: Reserve_def queue_ok_def split: if_splits)
  then have c: "CommitReserved ?rows b' = Some (b'\<lparr>ba_in := ba_in ?b @ ?rows, ba_reserved := ba_reserved ?b\<rparr>)"
    using CommitReserved_room [of b' ?rows] by simp
  let ?s = "s\<lparr>is_b := b'\<lparr>ba_in := ba_in ?b @ ?rows, ba_reserved := ba_reserved ?b\<rparr>, is_db := d\<rparr>"
  obtain s' ack where f: "finish_ingest ev h batch' ?s = (s', ROk ack)" "is_b s' = is_b ?s" "is_bans s' = is_bans ?s"
    "ak_Accepted ack = int (length (bt_Points batch'))" "ak_HostID ack = h"
    using finish_ingest_facts [of ev h batch' ?s] by blast
  have "length (bt_Points batch') = length (bt_Points batch)"
    using check_batch_points(1) [OF assms(2)] by (rule list_all2_lengthD)
  then show ?thesis using c f converted_rows [OF assms(2), of h] by (simp add: store_post_def)
qed

lemma ingest_store_post:
  assumes "queue_ok (is_b s)" "check_batch (ie_now ev) batch = Some batch'"
  shows "\<exists>s' resp. ingest_store ev h batch' (map (conv_point h (ie_now ev)) (bt_Points batch')) ps cs os bs rs s = Some (s', resp) \<and>
    store_post ev h batch s s' resp"
proof -
  obtain b' r where res: "Reserve (int (length (bt_Points batch'))) (is_b s) = (b', r)" by fastforce
  obtain d i where ins: "InsertSnapshots (ie_snap_fail ev) ps cs os bs rs (is_db s) = (d, i)" by fastforce
  consider "\<not> r" | "r" "\<not> i" | "r" "i" by blast
  then show ?thesis
  proof cases
    case 1
    then show ?thesis using res by (auto simp: ingest_store_def store_post_def Reserve_def split: if_splits)
  next
    case 2
    then have "d = is_db s" using InsertSnapshots_failed ins by metis
    then show ?thesis using res ins 2
      by (auto simp: ingest_store_def store_post_def Reserve_def ReleaseReserved_def split: if_splits)
  next
    case 3
    then show ?thesis using ingest_commits [OF assms, of b'] res ins by (simp add: ingest_store_def)
  qed
qed

lemma ingest_post_bans:
  assumes "ingest_bans ev h (bt_IPBan batch) s = (s1, True)" "store_post ev h batch s1 s' resp"
  shows "ingest_post ev (Some h) (Decoded batch) s s' resp"
  using ingest_bans_keeps[OF assms(1)] assms
  by (cases resp) (auto simp: ingest_post_def store_post_def bans_left_def bans_after_def)

section \<open>Guarantees\<close>

text \<open>
  C22. Delivering a batch is all or nothing but for its ban report. A request always returns (its commit finds the room it
  reserved) and gives its reservation back. An answer with an error means that no measurement
  was queued, no snapshot stored and neither the host's row nor the live updates were
  touched, so the agent may send the batch again. The ban report it may carry is delivered first: after 429 or 502 the ban
  component is as it was after this report, after any other error as before. A success means that exactly the measurements of
  the batch were queued, in order, for the host of the token, each with an instant
  between two hours ago and two minutes ahead, and that the ban component accepted its report.
\<close>

theorem ingest_all_or_nothing:
  assumes "queue_ok (is_b s)"
  shows "\<exists>s' resp. ingestHandler ev host body s = Some (s', resp) \<and> ingest_post ev host body s s' resp"
proof (cases "\<exists>h batch. host = Some h \<and> body = Decoded batch \<and> \<not> empty_batch batch \<and> check_batch (ie_now ev) batch \<noteq> None")
  case False
  then show ?thesis
    by (auto simp: ingestHandler_def ingest_post_def base_ack_def empty_batch_def bans_left_def bans_after_def ingest_bans_def
        split: option.split body.split)
next
  case True
  then obtain h batch batch' where hb: "host = Some h" "body = Decoded batch" "\<not> empty_batch batch"
    "check_batch (ie_now ev) batch = Some batch'" by auto
  have same: "bt_IPBan batch' = bt_IPBan batch" using check_batch_points(2) [OF hb(4)] .
  show ?thesis
  proof (cases "ConvertBackups (ie_marshal_fails ev) h (bt_Backups batch') (ie_now ev)")
    case None
    then show ?thesis using hb by (simp add: ingestHandler_def ConvertBatch_def ingest_post_def bans_left_def)
  next
    case (Some br)
    obtain backups repos where br: "br = (backups, repos)" by (cases br)
    obtain s1 ok where bans: "ingest_bans ev h (bt_IPBan batch) s = (s1, ok)" by fastforce
    have q: "queue_ok (is_b s1)" using ingest_bans_keeps [OF bans] assms by simp
    show ?thesis
    proof (cases ok)
      case False
      then show ?thesis using hb Some br bans ingest_bans_keeps [OF bans]
        by (simp add: ingestHandler_def ConvertBatch_def ingest_post_def bans_left_def bans_after_def same)
    next
      case True
      obtain s' resp where store: "ingest_store ev h batch' (map (conv_point h (ie_now ev)) (bt_Points batch'))
          (map (conv_process h (ie_now ev)) (bt_Processes batch')) (map (conv_container h (ie_now ev)) (bt_Containers batch'))
          (map (conv_port h (ie_now ev)) (bt_Ports batch')) backups repos s1 = Some (s', resp)" "store_post ev h batch s1 s' resp"
        using ingest_store_post [OF q hb(4)] by blast
      have "ingestHandler ev host body s = Some (s', resp)"
        using store(1) True hb Some br bans by (simp add: ingestHandler_def ConvertBatch_def same)
      moreover have "ingest_bans ev h (bt_IPBan batch) s = (s1, True)" using bans True by simp
      ultimately show ?thesis using ingest_post_bans store(2) hb(1,2) by blast
    qed
  qed
qed

definition batch1 :: "unit batch" where
  "batch1 = \<lparr>bt_Host = \<lparr>ho_Hostname = ''web'', ho_OS = ''linux'', ho_Arch = [], ho_Kernel = [], ho_CPUModel = [], ho_CPUCores = 0,
       ho_CPUThreads = 0, ho_AgentVersion = ''1.1.0'', ho_Collectors = [], ho_CollectorStatus = [], ho_Tags = [],
       ho_ExternallyManaged = None\<rparr>,
     bt_Points = [\<lparr>pt_Time = zero_time, pt_Metric = 105, pt_Labels = None, pt_Value = Fin 50\<rparr>], bt_Processes = [],
     bt_Containers = [], bt_Ports = [], bt_Backups = [], bt_IPBan = None\<rparr>"

text \<open>A batch with a ban report, when the database does not take the snapshot; the ban component counts its reports.\<close>

definition ienv2 :: "(nat, unit) ienv" where
  "ienv2 = \<lparr>ie_now = he_now henv0, ie_marshal_fails = (\<lambda>_. False), ie_snap_fail = (\<lambda>n. n = 1),
     ie_bans = Some (\<lambda>b h r. (b + 1, True), int), ie_browse = None,
     ie_pubkey = None, ie_version = ''1.2.0'', ie_touch = henv0, ie_get = henv0, ie_clear = henv0\<rparr>"

definition isys2 :: "nat isys" where
  "isys2 = \<lparr>is_b = NewBatcher 10 Second [], is_db = \<lparr>sd_processes = [], sd_containers = [], sd_ports = [], sd_backup_status = []\<rparr>,
     is_hub = [sub1], is_hosts = hosts1, is_bans = 0\<rparr>"

definition batch2 :: "unit batch" where
  "batch2 = batch1\<lparr>bt_Ports := [\<lparr>po_Time = zero_time, po_Proto = ''tcp'', po_Addr = [], po_Port = 22, po_PID = 1, po_Process = []\<rparr>],
     bt_IPBan := Some ()\<rparr>"

theorem ingest_all_or_nothing_witness:
  "\<exists>s'. ingestHandler ienv2 (Some 1) (Decoded batch2) isys2 = Some (s', RErr 502) \<and>
    ba_in (is_b s') = [] \<and> ba_reserved (is_b s') = 0 \<and> is_db s' = is_db isys2 \<and> is_bans s' = 1"
proof -
  have "queue_ok (is_b isys2)" by (simp add: isys2_def queue_ok_def NewBatcher_def Let_def queue_cap_def)
  from ingest_all_or_nothing [OF this, of ienv2 "Some 1" "Decoded batch2"] obtain s' resp where
    r: "ingestHandler ienv2 (Some 1) (Decoded batch2) isys2 = Some (s', resp)" "ingest_post ienv2 (Some 1) (Decoded batch2) isys2 s' resp"
    by blast
  have "map_option snd (ingestHandler ienv2 (Some 1) (Decoded batch2) isys2) = Some (RErr 502)" by code_simp
  then have "resp = RErr 502" using r(1) by simp
  moreover have "bans_after ienv2 1 batch2 isys2 = 1" by code_simp
  ultimately show ?thesis using r
    by (simp add: ingest_post_def bans_left_def) (simp add: isys2_def NewBatcher_def Let_def)
qed

text \<open>
  A measurement without labels is stored with the JSON value \<open>null\<close>, although the copy means to
  store an empty object: the text \<open>null\<close> is not empty.
\<close>

lemma unlabelled_point_stored_as_null: "rw_Labels (conv_point h now (p\<lparr>pt_Labels := None\<rparr>)) = JNull"
  by (simp add: conv_point_def)

text \<open>The reported repositories.\<close>

definition reported :: "backupRepoStatus list \<Rightarrow> string set" where
  "reported bs = {r. r \<noteq> [] \<and> (\<exists>b\<in>set bs. trim_space (bk_Name b) = r)}"

lemma by_repo_keys: "fst ` set (by_repo bs m) = fst ` set m \<union> reported bs"
proof -
  have "dom (get (by_repo bs m)) = dom (get m) \<union> reported bs"
    by (induction bs arbitrary: m) (auto simp: reported_def Let_def)
  then show ?thesis by (simp add: dom_get)
qed

lemma by_repo_wf: "wf_map m \<Longrightarrow> wf_map (by_repo bs m)"
  by (induction bs arbitrary: m) (auto simp: Let_def)

definition status_ok :: "string \<Rightarrow> backupRepoStatus \<Rightarrow> bool" where
  "status_ok r b \<longleftrightarrow> bk_Name b = r \<and> length (bk_Snapshots b) \<le> backupSnapshotLimit"

lemma by_repo_values:
  "\<lbrakk>\<forall>r b. get m r = Some b \<longrightarrow> status_ok r b; get (by_repo bs m) r = Some b\<rbrakk> \<Longrightarrow> status_ok r b"
proof (induction bs arbitrary: m)
  case (Cons x bs)
  show ?case
  proof (cases "trim_space (bk_Name x) = []")
    case True
    then show ?thesis using Cons by (simp add: Let_def)
  next
    case False
    define y where "y = x\<lparr>bk_Name := trim_space (bk_Name x), bk_Snapshots := take backupSnapshotLimit (bk_Snapshots x)\<rparr>"
    have "by_repo (x # bs) m = by_repo bs (put (bk_Name y) y m)" using False by (simp add: y_def Let_def)
    moreover have "status_ok (bk_Name y) y" by (simp add: y_def status_ok_def)
    ultimately show ?thesis using Cons.prems Cons.IH [of "put (bk_Name y) y m"] by simp
  qed
qed simp

lemma run_tx_Some: "run_tx fail n fs d = Some d' \<Longrightarrow> d' = fold (\<lambda>f d. f d) fs d"
  by (induction fs arbitrary: n d) (auto split: if_splits)

lemma fold_upserts:
  "sd_backup_status (fold (\<lambda>f d. f d) (map upsert_backup rows) d) =
     fold (\<lambda>r. put (bw_HostID r, bw_Repo r) r) rows (sd_backup_status d)"
  by (induction rows arbitrary: d) (simp_all add: upsert_backup_def)

lemma snapshot_status:
  assumes "InsertSnapshots fail ps cs os bs rs d = (d', True)" "bs \<noteq> []"
  shows "sd_backup_status d' = filter (\<lambda>((h, r), _). \<not> (h = bw_HostID (hd bs) \<and> r \<notin> set rs))
    (fold (\<lambda>r. put (bw_HostID r, bw_Repo r) r) bs (sd_backup_status d))"
proof -
  have "run_tx fail 1 (snapshot_stmts ps cs os bs rs) d = Some d'"
    using assms by (auto simp: InsertSnapshots_def split: if_splits option.splits)
  from run_tx_Some [OF this] show ?thesis
    using assms(2) by (simp add: snapshot_stmts_def delete_other_repos_def fold_upserts)
qed

text \<open>
  The stored backup states of a host are those of its last report. After a snapshot transaction
  that succeeds for a report that names a repository, the table has for this host exactly the
  repositories named in the report (names trimmed, blank ones ignored), each with a status of
  that name that lists at most fifty snapshots, and the rows of other hosts are as before.
\<close>

lemma backup_status_exact:
  assumes "ConvertBackups fails hostID bs now = Some (rows, repos)" "reported bs \<noteq> {}"
    "InsertSnapshots fail ps cs os rows repos d = (d', True)" "wf_map (sd_backup_status d)"
  shows "(\<exists>row. get (sd_backup_status d') (h, r) = Some row) = (if h = hostID then r \<in> reported bs else get (sd_backup_status d) (h, r) \<noteq> None) \<and>
    (h \<noteq> hostID \<longrightarrow> get (sd_backup_status d') (h, r) = get (sd_backup_status d) (h, r)) \<and>
    (\<forall>row. h = hostID \<and> get (sd_backup_status d') (h, r) = Some row \<longrightarrow>
       status_ok r (bw_Payload row) \<and> bw_UpdatedAt row = now)"
proof -
  let ?m = "by_repo bs []"
  let ?mk = "\<lambda>r. \<lparr>bw_HostID = hostID, bw_Repo = r, bw_Payload = the (get ?m r), bw_UpdatedAt = now\<rparr>"
  have bs: "bs \<noteq> []" using assms(2) by (auto simp: reported_def)
  have repos: "repos = sort (map fst ?m)" and rows: "rows = map ?mk repos"
    using assms(1) bs by (auto simp: ConvertBackups_def Let_def split: if_splits)
  have keys: "set repos = reported bs" using by_repo_keys [of bs "[]"] by (simp add: repos)
  have dist: "distinct repos" using by_repo_wf [of "[]" bs] by (simp add: repos wf_map_def)
  have ne: "rows \<noteq> []" using assms(2) keys rows by auto
  have host: "bw_HostID (hd rows) = hostID" using ne rows by (cases repos) auto
  let ?t = "fold (\<lambda>r. put (bw_HostID r, bw_Repo r) r) rows (sd_backup_status d)"
  have t: "sd_backup_status d' = filter (\<lambda>((h, r), _). \<not> (h = hostID \<and> r \<notin> set repos)) ?t"
    using snapshot_status [OF assms(3) ne] by (simp add: host)
  have g: "get (sd_backup_status d') (h, r) = (if h = hostID \<and> r \<notin> set repos then None else get ?t (h, r))"
    unfolding t get_filter [OF wf_fold_put [OF assms(4)]] by (auto split: option.splits)
  have inj: "distinct (map (\<lambda>r. (bw_HostID r, bw_Repo r)) rows)" using dist by (simp add: rows comp_def distinct_map inj_on_def)
  have mem: "get ?t (hostID, r) = Some (?mk r)" if "r \<in> set repos"
    using fold_put_mem [OF inj, of "?mk r" "sd_backup_status d"] that by (simp add: rows)
  have other: "get ?t (h, r) = get (sd_backup_status d) (h, r)" if "h \<noteq> hostID"
    using that by (intro fold_put_other) (auto simp: rows)
  have ok: "status_ok r (the (get ?m r))" if "r \<in> set repos"
  proof -
    from that obtain b where "get ?m r = Some b" by (metis (no_types, lifting) repos set_sort list.set_map dom_get domD)
    then show ?thesis using by_repo_values [of "[]" bs r b] by simp
  qed
  show ?thesis using g mem other ok keys by auto
qed

definition status1 :: backupRepoStatus where
  "status1 = \<lparr>bk_Name = ''home '', bk_Engine = ''restic'', bk_LastStarted = None, bk_LastFinished = None, bk_LastSuccess = None,
     bk_Success = True, bk_Error = [], bk_DurationS = 0, bk_AddedBytes = 0, bk_TotalBytes = 0, bk_SnapshotCount = 0,
     bk_CheckLast = None, bk_CheckSuccess = None, bk_CheckError = [], bk_Tunnel = False, bk_NextRun = None, bk_Paths = [],
     bk_Excludes = [], bk_OneFileSystem = None, bk_PathStats = [], bk_StatsSnapshot = [], bk_StatsAt = None, bk_Snapshots = []\<rparr>"

end
