(* ===== verification/Backup_Sched.thy ===== *)
theory Backup_Sched
  imports Go_Prelude
begin

text \<open>
  \<open>internal/agent/backupsched\<close>: when an agent runs its backups (daily) and checks (weekly). Local
  time is modelled as package \<open>time\<close> computes it: a location is its list of transitions, a civil
  date is the number of its day (day 0 is 1 January of year 1, a Monday), \<open>Date\<close> and \<open>AddDate\<close> go
  from wall clock to instant by the documented lookup. One round of the scheduler's loop reads
  the clock once; the jitter is chosen by the environment.
\<close>

section \<open>Local time\<close>

record location =
  lo_first :: int
  lo_trans :: "(time \<times> int) list"

text \<open>The offset (in seconds) in force at an instant, and the interval in which it is.\<close>

fun lookup_from :: "int \<Rightarrow> time option \<Rightarrow> (time \<times> int) list \<Rightarrow> time \<Rightarrow> int \<times> time option \<times> time option" where
  "lookup_from off start [] t = (off, start, None)"
| "lookup_from off start ((s, o') # ts) t = (if t < s then (off, start, Some s) else lookup_from o' (Some s) ts t)"

definition lookup :: "location \<Rightarrow> time \<Rightarrow> int \<times> time option \<times> time option" where
  "lookup l t = lookup_from (lo_first l) None (lo_trans l) t"

definition day_ns :: int where "day_ns = 24 * Hour"

definition wall :: "location \<Rightarrow> time \<Rightarrow> int" where
  "wall l t = t + fst (lookup l t) * Second"

definition time_Date :: "location \<Rightarrow> int \<Rightarrow> time" where
  "time_Date l w =
     (case lookup l w of (off, start, stop) \<Rightarrow>
        if off = 0 then w
        else (let utc = w - off * Second
              in if (case start of None \<Rightarrow> False | Some s \<Rightarrow> utc < s) \<or> (case stop of None \<Rightarrow> False | Some e \<Rightarrow> e \<le> utc)
                 then w - fst (lookup l utc) * Second
                 else utc))"

definition day_of :: "location \<Rightarrow> time \<Rightarrow> int" where
  "day_of l t = wall l t div day_ns"

definition AddDays :: "location \<Rightarrow> int \<Rightarrow> time \<Rightarrow> time" where
  "AddDays l n t = time_Date l (wall l t + n * day_ns)"

text \<open>Sunday is 0.\<close>

definition Weekday :: "location \<Rightarrow> time \<Rightarrow> int" where
  "Weekday l t = (day_of l t + 1) mod 7"

definition at_clock :: "location \<Rightarrow> time \<Rightarrow> int \<Rightarrow> int \<Rightarrow> time" where
  "at_clock l now hh mm = time_Date l (day_of l now * day_ns + hh * Hour + mm * Minute)"

section \<open>Occurrences\<close>

definition parseHHMM :: "string \<Rightarrow> (int \<times> int) option" where
  "parseHHMM s =
     (case cut_at (CHR '':'') (trim_space s) of
        (_, None) \<Rightarrow> None
      | (h, Some m) \<Rightarrow>
          (case atoi h of
             None \<Rightarrow> None
           | Some hh \<Rightarrow> if hh < 0 \<or> 23 < hh then None
               else (case atoi m of
                       None \<Rightarrow> None
                     | Some mm \<Rightarrow> if mm < 0 \<or> 59 < mm then None else Some (hh, mm))))"

definition mostRecentDaily :: "location \<Rightarrow> time \<Rightarrow> int \<Rightarrow> int \<Rightarrow> time" where
  "mostRecentDaily l now hh mm = (let t = at_clock l now hh mm in if now < t then AddDays l (- 1) t else t)"

definition nextDaily :: "location \<Rightarrow> time \<Rightarrow> int \<Rightarrow> int \<Rightarrow> time" where
  "nextDaily l now hh mm = (let t = at_clock l now hh mm in if \<not> now < t then AddDays l 1 t else t)"

definition mostRecentWeekly :: "location \<Rightarrow> time \<Rightarrow> int \<Rightarrow> int \<Rightarrow> int \<Rightarrow> time" where
  "mostRecentWeekly l now wd hh mm =
     (let daysSince = (Weekday l now - wd + 7) mod 7; t = AddDays l (- daysSince) (at_clock l now hh mm)
      in if now < t then AddDays l (- 7) t else t)"

definition nextWeekly :: "location \<Rightarrow> time \<Rightarrow> int \<Rightarrow> int \<Rightarrow> int \<Rightarrow> time" where
  "nextWeekly l now wd hh mm =
     (let daysUntil = (wd - Weekday l now + 7) mod 7; t = AddDays l daysUntil (at_clock l now hh mm)
      in if \<not> now < t then AddDays l 7 t else t)"

section \<open>The scheduler\<close>

record schedConfig =
  sc_BackupTime :: string
  sc_BackupJitter :: duration
  sc_CheckWeekday :: int
  sc_CheckTime :: string
  sc_CheckJitter :: duration

record scheduleState =
  ss_BackupLastTrigger :: int
  ss_CheckLastTrigger :: int

datatype job = BackupJob | CheckJob

text \<open>The scheduler with the state file it has (or not) and the jobs it started, with their instants.\<close>

record scheduler =
  sd_nextBackup :: time
  sd_nextCheck :: time
  sd_st :: scheduleState
  sd_file :: "scheduleState option"
  sd_runs :: "(time \<times> job) list"

text \<open>The environment of a round: the clock, the two jitters and whether saving the state succeeds.\<close>

record senv =
  sv_now :: time
  sv_backup_jitter :: duration
  sv_check_jitter :: duration
  sv_save :: bool

definition saveState :: "bool \<Rightarrow> scheduler \<Rightarrow> scheduler" where
  "saveState ok s = (if ok then s\<lparr>sd_file := Some (sd_st s)\<rparr> else s)"

definition sched_arm :: "time \<Rightarrow> int \<Rightarrow> (time \<Rightarrow> time) \<Rightarrow> (time \<Rightarrow> time) \<Rightarrow> duration \<Rightarrow> time" where
  "sched_arm now lastTrigger recent next jitter =
     (if lastTrigger < time_Unix (recent now) then now + jitter else next now + jitter)"

text \<open>The start of \<open>Run\<close>: \<open>None\<close> when a configured time is invalid. An unreadable state file counts as absent.\<close>

definition sched_start :: "schedConfig \<Rightarrow> location \<Rightarrow> senv \<Rightarrow> scheduleState option \<Rightarrow> scheduler option" where
  "sched_start cfg l ev file =
     (case parseHHMM (sc_BackupTime cfg) of
        None \<Rightarrow> None
      | Some (bh, bm) \<Rightarrow>
     (case parseHHMM (sc_CheckTime cfg) of
        None \<Rightarrow> None
      | Some (ch, cm) \<Rightarrow>
          (let now = sv_now ev;
               fresh = \<lparr>ss_BackupLastTrigger = time_Unix now, ss_CheckLastTrigger = time_Unix now\<rparr>;
               st = (case file of None \<Rightarrow> fresh | Some st \<Rightarrow> st);
               s = \<lparr>sd_nextBackup = zero_time, sd_nextCheck = zero_time, sd_st = st, sd_file = file, sd_runs = []\<rparr>;
               s = (if file = None then saveState (sv_save ev) s else s)
           in Some (s\<lparr>sd_nextBackup := sched_arm now (ss_BackupLastTrigger st) (\<lambda>t. mostRecentDaily l t bh bm)
                         (\<lambda>t. nextDaily l t bh bm) (sv_backup_jitter ev),
                      sd_nextCheck := sched_arm now (ss_CheckLastTrigger st) (\<lambda>t. mostRecentWeekly l t (sc_CheckWeekday cfg) ch cm)
                         (\<lambda>t. nextWeekly l t (sc_CheckWeekday cfg) ch cm) (sv_check_jitter ev)\<rparr>))))"

definition soonest :: "scheduler \<Rightarrow> time" where
  "soonest s =
     (if sd_nextBackup s = zero_time then sd_nextCheck s
      else if sd_nextCheck s = zero_time then sd_nextBackup s
      else if sd_nextBackup s < sd_nextCheck s then sd_nextBackup s
      else sd_nextCheck s)"

definition reconcileInterval :: duration where "reconcileInterval = Minute"

definition sleepFor :: "time \<Rightarrow> scheduler \<Rightarrow> duration" where
  "sleepFor now s =
     (if soonest s = zero_time then reconcileInterval
      else (let d = time_Sub (soonest s) now; d = (if d < 0 then 0 else d)
            in if reconcileInterval < d then reconcileInterval else d))"

definition NextBackupRun :: "scheduler \<Rightarrow> time option" where
  "NextBackupRun s = (if sd_nextBackup s = zero_time then None else Some (sd_nextBackup s))"

definition nextCheckRun :: "scheduler \<Rightarrow> time option" where
  "nextCheckRun s = (if sd_nextCheck s = zero_time then None else Some (sd_nextCheck s))"

text \<open>The two halves of a round of the loop, after the timer has fired.\<close>

definition backup_round :: "location \<Rightarrow> int \<Rightarrow> int \<Rightarrow> senv \<Rightarrow> scheduler \<Rightarrow> scheduler" where
  "backup_round l bh bm ev s =
     (let now = sv_now ev
      in case NextBackupRun s of
           None \<Rightarrow> s
         | Some next \<Rightarrow>
             if now < next then s
             else (let s = saveState (sv_save ev) (s\<lparr>sd_st := (sd_st s)\<lparr>ss_BackupLastTrigger := time_Unix (mostRecentDaily l now bh bm)\<rparr>\<rparr>)
                   in s\<lparr>sd_nextBackup := nextDaily l now bh bm + sv_backup_jitter ev, sd_runs := sd_runs s @ [(now, BackupJob)]\<rparr>))"

definition check_round :: "location \<Rightarrow> int \<Rightarrow> int \<Rightarrow> int \<Rightarrow> senv \<Rightarrow> scheduler \<Rightarrow> scheduler" where
  "check_round l wd ch cm ev s =
     (let now = sv_now ev
      in case nextCheckRun s of
           None \<Rightarrow> s
         | Some next \<Rightarrow>
             if now < next then s
             else (let s = saveState (sv_save ev) (s\<lparr>sd_st := (sd_st s)\<lparr>ss_CheckLastTrigger := time_Unix (mostRecentWeekly l now wd ch cm)\<rparr>\<rparr>)
                   in s\<lparr>sd_nextCheck := nextWeekly l now wd ch cm + sv_check_jitter ev, sd_runs := sd_runs s @ [(now, CheckJob)]\<rparr>))"

definition sched_round :: "schedConfig \<Rightarrow> location \<Rightarrow> int \<times> int \<Rightarrow> int \<times> int \<Rightarrow> senv \<Rightarrow> scheduler \<Rightarrow> scheduler" where
  "sched_round cfg l b c ev s =
     check_round l (sc_CheckWeekday cfg) (fst c) (snd c) ev (backup_round l (fst b) (snd b) ev s)"

section \<open>Occurrences under a fixed offset\<close>

text \<open>
  In a location without transitions the wall clock runs evenly, and the occurrences of a daily
  time are a day apart.
\<close>

definition fixed_offset :: "location \<Rightarrow> bool" where
  "fixed_offset l \<longleftrightarrow> lo_trans l = []"

definition clock_ok :: "int \<Rightarrow> int \<Rightarrow> bool" where
  "clock_ok hh mm \<longleftrightarrow> 0 \<le> hh \<and> hh \<le> 23 \<and> 0 \<le> mm \<and> mm \<le> 59"

lemma day_ns_pos [simp]: "0 < day_ns"
  by (simp add: day_ns_def duration_defs)

lemma clock_within: "clock_ok hh mm \<Longrightarrow> 0 \<le> hh * Hour + mm * Minute \<and> hh * Hour + mm * Minute < day_ns"
  by (auto simp: clock_ok_def day_ns_def duration_defs)

lemma lookup_fixed: "fixed_offset l \<Longrightarrow> lookup l t = (lo_first l, None, None)"
  by (simp add: lookup_def fixed_offset_def)

lemma wall_Date: "fixed_offset l \<Longrightarrow> wall l (time_Date l w) = w"
  by (simp add: wall_def time_Date_def lookup_fixed)

lemma AddDays_fixed: "fixed_offset l \<Longrightarrow> AddDays l n t = t + n * day_ns"
  by (simp add: AddDays_def time_Date_def wall_def lookup_fixed)

lemma wall_diff: "fixed_offset l \<Longrightarrow> wall l t - wall l u = t - u"
  by (simp add: wall_def lookup_fixed)

text \<open>The occurrences of a daily time: the instants at which the wall clock shows it.\<close>

definition daily_occ :: "location \<Rightarrow> int \<Rightarrow> int \<Rightarrow> time \<Rightarrow> bool" where
  "daily_occ l hh mm t \<longleftrightarrow> wall l t mod day_ns = hh * Hour + mm * Minute"

lemma at_clock_window:
  assumes "fixed_offset l" "clock_ok hh mm"
  shows "now - day_ns < at_clock l now hh mm" "at_clock l now hh mm < now + day_ns" "daily_occ l hh mm (at_clock l now hh mm)"
proof -
  let ?c = "hh * Hour + mm * Minute" and ?t = "at_clock l now hh mm"
  have w: "wall l ?t = day_of l now * day_ns + ?c" using assms(1) by (simp add: at_clock_def wall_Date add.assoc)
  have d: "?t - now = wall l ?t - wall l now" using wall_diff [OF assms(1)] by simp
  have n: "wall l now = day_of l now * day_ns + wall l now mod day_ns" by (simp add: day_of_def)
  have m: "0 \<le> wall l now mod day_ns" "wall l now mod day_ns < day_ns"
    by (simp_all add: pos_mod_sign pos_mod_bound)
  have c: "0 \<le> ?c" "?c < day_ns" using clock_within [OF assms(2)] by auto
  show "now - day_ns < ?t" "?t < now + day_ns" using w d n m c by linarith+
  have "wall l ?t mod day_ns = ?c mod day_ns" unfolding w by simp
  then show "daily_occ l hh mm ?t" using c by (simp add: daily_occ_def)
qed

lemma daily_occ_shift: "fixed_offset l \<Longrightarrow> daily_occ l hh mm (t + n * day_ns) = daily_occ l hh mm t"
proof -
  assume f: "fixed_offset l"
  have "wall l (t + n * day_ns) = wall l t + n * day_ns" using f by (simp add: wall_def lookup_fixed)
  then show ?thesis by (simp add: daily_occ_def)
qed

lemma mostRecentDaily_fixed:
  assumes "fixed_offset l" "clock_ok hh mm"
  shows "mostRecentDaily l now hh mm \<le> now" "now < mostRecentDaily l now hh mm + day_ns"
    "daily_occ l hh mm (mostRecentDaily l now hh mm)"
  using at_clock_window [OF assms, of now] daily_occ_shift [OF assms(1), of hh mm _ "- 1"]
  by (auto simp: mostRecentDaily_def Let_def AddDays_fixed [OF assms(1)])

lemma nextDaily_fixed:
  assumes "fixed_offset l" "clock_ok hh mm"
  shows "nextDaily l now hh mm = mostRecentDaily l now hh mm + day_ns"
  using at_clock_window [OF assms, of now]
  by (auto simp: nextDaily_def mostRecentDaily_def Let_def AddDays_fixed [OF assms(1)])

lemma daily_occ_unique:
  assumes "fixed_offset l" "daily_occ l hh mm t" "daily_occ l hh mm u" "t \<le> u" "u < t + day_ns"
  shows "u = t"
proof -
  have "(u - t) mod day_ns = 0"
    using assms(2,3) wall_diff [OF assms(1), of u t] by (metis daily_occ_def mod_0_imp_dvd mod_eq_dvd_iff mod_eq_0_iff_dvd)
  moreover have "0 \<le> u - t" "u - t < day_ns" using assms(4,5) by auto
  ultimately show ?thesis by (simp add: mod_pos_pos_trivial)
qed

lemma weekly_days:
  fixes w wd :: int
  assumes "0 \<le> wd" "wd < 7" "0 \<le> w" "w < 7"
  shows "(w - wd + 7) mod 7 = (if wd \<le> w then w - wd else w - wd + 7)" "(wd - w + 7) mod 7 = (if w \<le> wd then wd - w else wd - w + 7)"
  using assms by (split if_split, presburger)+

lemma weekly_fixed:
  assumes "fixed_offset l" "clock_ok hh mm" "0 \<le> wd" "wd < 7"
  shows "mostRecentWeekly l now wd hh mm \<le> now \<and> now < mostRecentWeekly l now wd hh mm + 7 * day_ns \<and>
    nextWeekly l now wd hh mm = mostRecentWeekly l now wd hh mm + 7 * day_ns"
proof -
  let ?t = "at_clock l now hh mm" and ?w = "Weekday l now"
  note a = at_clock_window [OF assms(1,2), of now]
  have w: "0 \<le> ?w" "?w < 7" by (simp_all add: Weekday_def)
  define ds du where "ds = (?w - wd + 7) mod 7" and "du = (wd - ?w + 7) mod 7"
  have d: "0 \<le> ds" "ds \<le> 6" "du = (if ds = 0 then 0 else 7 - ds)"
    using weekly_days [OF assms(3,4) w] w assms(3,4) by (auto simp: ds_def du_def)
  have recent: "mostRecentWeekly l now wd hh mm = (if now < ?t - ds * day_ns then ?t - ds * day_ns - 7 * day_ns else ?t - ds * day_ns)"
    by (simp add: mostRecentWeekly_def Let_def AddDays_fixed [OF assms(1)] ds_def)
  have next': "nextWeekly l now wd hh mm = (if now < ?t + du * day_ns then ?t + du * day_ns else ?t + du * day_ns + 7 * day_ns)"
    by (simp add: nextWeekly_def Let_def AddDays_fixed [OF assms(1)] du_def)
  show ?thesis
  proof (cases "ds = 0")
    case True
    then show ?thesis using recent next' d a day_ns_pos by auto
  next
    case False
    then have "1 * day_ns \<le> ds * day_ns" "ds * day_ns \<le> 6 * day_ns" "1 * day_ns \<le> du * day_ns" "du * day_ns = 7 * day_ns - ds * day_ns"
      using d day_ns_pos by (auto simp: left_diff_distrib intro!: mult_right_mono)
    then have "\<not> now < ?t - ds * day_ns" "now < ?t + du * day_ns" "now < ?t - ds * day_ns + 7 * day_ns"
      "?t + du * day_ns = ?t - ds * day_ns + 7 * day_ns" using a by linarith+
    then show ?thesis by (simp only: recent next' if_True if_False) simp
  qed
qed

section \<open>A recurring job\<close>

text \<open>
  The rounds of the loop seen by one job: at each one the clock and a jitter; the job starts when
  its time has come and is then armed for the next occurrence.
\<close>

fun job_runs :: "(time \<Rightarrow> time) \<Rightarrow> (time \<times> duration) list \<Rightarrow> time \<Rightarrow> time list" where
  "job_runs nxt [] due = []"
| "job_runs nxt ((now, j) # rs) due = (if now < due then job_runs nxt rs due else now # job_runs nxt rs (nxt now + j))"

text \<open>Occurrences that recur with a period: the laws hold under the condition \<open>ok\<close>.\<close>

locale recurring =
  fixes recent :: "time \<Rightarrow> time" and nxt :: "time \<Rightarrow> time" and period :: duration and ok :: bool
  assumes period_pos: "0 < period"
    and recent_le: "ok \<Longrightarrow> recent now \<le> now"
    and recent_gt: "ok \<Longrightarrow> now < recent now + period"
    and nxt_recent: "ok \<Longrightarrow> nxt now = recent now + period"
begin

lemma nxt_gt: "ok \<Longrightarrow> now < nxt now"
  using recent_gt nxt_recent by simp

lemma nxt_le: "ok \<Longrightarrow> nxt now \<le> now + period"
  using recent_le nxt_recent by simp

text \<open>The first run is due when its time is; each run is due by the next occurrence after the last, plus the jitter.\<close>

lemma first_run:
  "\<lbrakk>(w, j) \<in> set rs; due \<le> w; sorted (map fst rs)\<rbrakk> \<Longrightarrow> \<exists>v\<in>set (job_runs nxt rs due). due \<le> v \<and> v \<le> w"
proof (induction rs arbitrary: due)
  case (Cons x rs)
  obtain now k where x: "x = (now, k)" by (cases x)
  have "now \<le> w" using Cons.prems(1,3) x by auto
  then show ?case using Cons x by (auto split: if_splits)
qed simp

lemma runs_from: "\<lbrakk>sorted (map fst rs); v \<in> set (job_runs nxt rs due); \<forall>r\<in>set rs. 0 \<le> snd r; ok\<rbrakk> \<Longrightarrow> due \<le> v"
proof (induction rs arbitrary: due)
  case (Cons x rs)
  obtain now k where x: "x = (now, k)" by (cases x)
  show ?case
  proof (cases "now < due")
    case True
    then show ?thesis using Cons x by simp
  next
    case False
    then have "v = now \<or> v \<in> set (job_runs nxt rs (nxt now + k))" using Cons.prems(2) x by auto
    moreover have "nxt now + k \<le> v" if "v \<in> set (job_runs nxt rs (nxt now + k))"
      using Cons.IH [OF _ that] Cons.prems x by simp
    ultimately show ?thesis using False nxt_gt [OF Cons.prems(4), of now] Cons.prems(3) x by fastforce
  qed
qed simp

lemma runs_spaced:
  "\<lbrakk>sorted (map fst rs); \<forall>r\<in>set rs. 0 \<le> snd r; ok\<rbrakk> \<Longrightarrow> successively (\<lambda>u v. nxt u \<le> v) (job_runs nxt rs due)"
proof (induction rs arbitrary: due)
  case (Cons x rs)
  obtain now k where x: "x = (now, k)" by (cases x)
  have "nxt now \<le> v" if "v \<in> set (job_runs nxt rs (nxt now + k))" for v
    using runs_from [OF _ that] Cons.prems x by fastforce
  moreover have "successively (\<lambda>u v. nxt u \<le> v) (job_runs nxt rs due)" for due
    using Cons.prems by (intro Cons.IH) auto
  ultimately show ?case using x hd_in_set by (auto simp: successively_Cons)
qed simp

lemma no_occurrence_missed:
  "\<lbrakk>u \<in> set (job_runs nxt rs due); (w, j) \<in> set rs; nxt u + J \<le> w; sorted (map fst rs); \<forall>r\<in>set rs. 0 \<le> snd r \<and> snd r \<le> J; ok\<rbrakk> \<Longrightarrow>
    \<exists>v\<in>set (job_runs nxt rs due). nxt u \<le> v \<and> v \<le> w"
proof (induction rs arbitrary: due)
  case (Cons x rs)
  obtain now k where x: "x = (now, k)" by (cases x)
  have J: "0 \<le> k" "k \<le> J" and s: "sorted (map fst rs)" using Cons.prems(4,5) x by auto
  have later: "(w, j) \<in> set rs" if "now < w" using Cons.prems(2) x that by auto
  show ?case
  proof (cases "now < due")
    case True
    have u: "u \<in> set (job_runs nxt rs due)" using True Cons.prems(1) x by simp
    then have "u \<in> fst ` set rs" by (induction nxt rs due rule: job_runs.induct) (auto split: if_splits)
    then have "now \<le> u" using Cons.prems(4) x by auto
    then have "now < w" using nxt_gt [OF Cons.prems(6), of u] Cons.prems(3) J by linarith
    then show ?thesis using Cons.IH [OF u later] Cons.prems True x by simp
  next
    case False
    consider "u = now" | "u \<in> set (job_runs nxt rs (nxt now + k))" using False Cons.prems(1) x by auto
    then show ?thesis
    proof cases
      case 1
      have "now < w" using nxt_gt [OF Cons.prems(6), of now] Cons.prems(3) J 1 by simp
      then have "\<exists>v\<in>set (job_runs nxt rs (nxt now + k)). nxt now + k \<le> v \<and> v \<le> w"
        using Cons.prems(3) J 1 s by (intro first_run [OF later]) auto
      then show ?thesis using False x 1 J by fastforce
    next
      case 2
      then have "nxt now + k \<le> u" using runs_from [OF s 2] Cons.prems by simp
      then have "now < w" using nxt_gt [OF Cons.prems(6), of now] nxt_gt [OF Cons.prems(6), of u] Cons.prems(3) J by linarith
      then show ?thesis using Cons.IH [OF 2 later] Cons.prems False x by auto
    qed
  qed
qed simp

end

interpretation daily: recurring "\<lambda>t. mostRecentDaily l t hh mm" "\<lambda>t. nextDaily l t hh mm" day_ns "fixed_offset l \<and> clock_ok hh mm"
  for l hh mm
  by unfold_locales (auto simp: mostRecentDaily_fixed nextDaily_fixed)

interpretation weekly: recurring "\<lambda>t. mostRecentWeekly l t wd hh mm" "\<lambda>t. nextWeekly l t wd hh mm" "7 * day_ns"
  "fixed_offset l \<and> clock_ok hh mm \<and> 0 \<le> wd \<and> wd < 7"
  for l wd hh mm
  by unfold_locales (auto simp: weekly_fixed)

section \<open>The scheduler's rounds are those of its jobs\<close>

definition runs_of :: "job \<Rightarrow> scheduler \<Rightarrow> time list" where
  "runs_of j s = map fst (filter (\<lambda>r. snd r = j) (sd_runs s))"

lemma saveState_keeps [simp]:
  "sd_nextBackup (saveState ok s) = sd_nextBackup s" "sd_nextCheck (saveState ok s) = sd_nextCheck s"
  "sd_runs (saveState ok s) = sd_runs s" "sd_st (saveState ok s) = sd_st s"
  by (simp_all add: saveState_def)

lemma backup_round_runs:
  assumes "sd_nextBackup s \<noteq> zero_time"
  shows "runs_of BackupJob (backup_round l bh bm ev s) = runs_of BackupJob s @ (if sv_now ev < sd_nextBackup s then [] else [sv_now ev])"
    "sd_nextBackup (backup_round l bh bm ev s) = (if sv_now ev < sd_nextBackup s then sd_nextBackup s else nextDaily l (sv_now ev) bh bm + sv_backup_jitter ev)"
  using assms by (simp_all add: backup_round_def NextBackupRun_def runs_of_def Let_def)

lemma check_round_keeps [simp]:
  "runs_of BackupJob (check_round l wd ch cm ev s) = runs_of BackupJob s" "sd_nextBackup (check_round l wd ch cm ev s) = sd_nextBackup s"
  by (simp_all add: check_round_def nextCheckRun_def runs_of_def Let_def split: option.split)

lemma check_round_runs:
  assumes "sd_nextCheck s \<noteq> zero_time"
  shows "runs_of CheckJob (check_round l wd ch cm ev s) = runs_of CheckJob s @ (if sv_now ev < sd_nextCheck s then [] else [sv_now ev])"
    "sd_nextCheck (check_round l wd ch cm ev s) = (if sv_now ev < sd_nextCheck s then sd_nextCheck s else nextWeekly l (sv_now ev) wd ch cm + sv_check_jitter ev)"
  using assms by (simp_all add: check_round_def nextCheckRun_def runs_of_def Let_def)

lemma backup_round_keeps [simp]:
  "runs_of CheckJob (backup_round l bh bm ev s) = runs_of CheckJob s" "sd_nextCheck (backup_round l bh bm ev s) = sd_nextCheck s"
  by (simp_all add: backup_round_def NextBackupRun_def runs_of_def Let_def split: option.split)

definition rounds_ok :: "duration \<Rightarrow> duration \<Rightarrow> senv list \<Rightarrow> bool" where
  "rounds_ok JB JC evs \<longleftrightarrow> sorted (map sv_now evs) \<and>
     (\<forall>ev\<in>set evs. zero_time < sv_now ev \<and> 0 \<le> sv_backup_jitter ev \<and> sv_backup_jitter ev \<le> JB \<and> 0 \<le> sv_check_jitter ev \<and> sv_check_jitter ev \<le> JC)"

lemma backup_runs:
  assumes "fixed_offset l" "clock_ok (fst b) (snd b)"
  shows "\<lbrakk>\<forall>ev\<in>set evs. zero_time < sv_now ev \<and> 0 \<le> sv_backup_jitter ev; zero_time < sd_nextBackup s\<rbrakk> \<Longrightarrow>
    runs_of BackupJob (fold (sched_round cfg l b c) evs s) =
      runs_of BackupJob s @ job_runs (\<lambda>t. nextDaily l t (fst b) (snd b)) (map (\<lambda>ev. (sv_now ev, sv_backup_jitter ev)) evs) (sd_nextBackup s)"
proof (induction evs arbitrary: s)
  case (Cons ev evs)
  have "sv_now ev < nextDaily l (sv_now ev) (fst b) (snd b)" using daily.nxt_gt assms by blast
  then have "zero_time < sd_nextBackup (sched_round cfg l b c ev s)"
    using Cons.prems backup_round_runs(2) [of s l "fst b" "snd b" ev] by (force simp: sched_round_def)
  then show ?case using Cons.prems Cons.IH [of "sched_round cfg l b c ev s"] backup_round_runs [of s l "fst b" "snd b" ev]
    by (simp add: sched_round_def)
qed simp

lemma check_runs:
  assumes "fixed_offset l" "clock_ok (fst c) (snd c)" "0 \<le> sc_CheckWeekday cfg" "sc_CheckWeekday cfg < 7"
  shows "\<lbrakk>\<forall>ev\<in>set evs. zero_time < sv_now ev \<and> 0 \<le> sv_check_jitter ev; zero_time < sd_nextCheck s\<rbrakk> \<Longrightarrow>
    runs_of CheckJob (fold (sched_round cfg l b c) evs s) =
      runs_of CheckJob s @ job_runs (\<lambda>t. nextWeekly l t (sc_CheckWeekday cfg) (fst c) (snd c)) (map (\<lambda>ev. (sv_now ev, sv_check_jitter ev)) evs) (sd_nextCheck s)"
proof (induction evs arbitrary: s)
  case (Cons ev evs)
  let ?s = "backup_round l (fst b) (snd b) ev s"
  have "sv_now ev < nextWeekly l (sv_now ev) (sc_CheckWeekday cfg) (fst c) (snd c)" using weekly.nxt_gt assms by blast
  then have "zero_time < sd_nextCheck (sched_round cfg l b c ev s)"
    using Cons.prems check_round_runs(2) [of ?s l "sc_CheckWeekday cfg" "fst c" "snd c" ev] by (force simp: sched_round_def)
  then show ?case using Cons.prems Cons.IH [of "sched_round cfg l b c ev s"] check_round_runs [of ?s l "sc_CheckWeekday cfg" "fst c" "snd c" ev]
    by (simp add: sched_round_def)
qed simp

text \<open>The runs of a job, in words: never two for one occurrence, none left out, the first when due.\<close>

definition regular :: "(time \<Rightarrow> time) \<Rightarrow> duration \<Rightarrow> time \<Rightarrow> time list \<Rightarrow> time list \<Rightarrow> bool" where
  "regular nxt J due clocks runs \<longleftrightarrow> successively (\<lambda>u v. nxt u \<le> v) runs \<and>
     (\<forall>u\<in>set runs. \<forall>w\<in>set clocks. nxt u + J \<le> w \<longrightarrow> (\<exists>v\<in>set runs. nxt u \<le> v \<and> v \<le> w)) \<and>
     (\<forall>w\<in>set clocks. due \<le> w \<longrightarrow> (\<exists>v\<in>set runs. due \<le> v \<and> v \<le> w))"

text \<open>
  C40. Backups are made every day and checks every week. Consider any rounds of the scheduler's loop, at
  instants that do not decrease and with jitters up to the configured ones, in a time zone with a
  fixed offset. Between two backups there is an occurrence of the configured time, so no day
  has two; whenever a round takes place at or after the next occurrence plus the maximal
  jitter, the backup of that occurrence has been started; and the first one is started by
  the first round at which it is due. The same holds for the weekly checks.
\<close>

theorem jobs_run_regularly:
  assumes "fixed_offset l" "clock_ok (fst b) (snd b)" "clock_ok (fst c) (snd c)" "0 \<le> sc_CheckWeekday cfg" "sc_CheckWeekday cfg < 7"
    "rounds_ok JB JC evs" "zero_time < sd_nextBackup s" "zero_time < sd_nextCheck s" "sd_runs s = []"
  shows "regular (\<lambda>t. nextDaily l t (fst b) (snd b)) JB (sd_nextBackup s) (map sv_now evs) (runs_of BackupJob (fold (sched_round cfg l b c) evs s)) \<and>
    regular (\<lambda>t. nextWeekly l t (sc_CheckWeekday cfg) (fst c) (snd c)) JC (sd_nextCheck s) (map sv_now evs) (runs_of CheckJob (fold (sched_round cfg l b c) evs s))"
proof -
  let ?B = "map (\<lambda>ev. (sv_now ev, sv_backup_jitter ev)) evs" and ?C = "map (\<lambda>ev. (sv_now ev, sv_check_jitter ev)) evs"
  have sorted: "sorted (map fst ?B)" "sorted (map fst ?C)" using assms(6) by (simp_all add: rounds_ok_def comp_def)
  have jB: "\<forall>r\<in>set ?B. 0 \<le> snd r \<and> snd r \<le> JB" and jC: "\<forall>r\<in>set ?C. 0 \<le> snd r \<and> snd r \<le> JC"
    using assms(6) by (auto simp: rounds_ok_def)
  have d: "fixed_offset l \<and> clock_ok (fst b) (snd b)" and w: "fixed_offset l \<and> clock_ok (fst c) (snd c) \<and> 0 \<le> sc_CheckWeekday cfg \<and> sc_CheckWeekday cfg < 7"
    using assms by simp_all
  have rB: "runs_of BackupJob (fold (sched_round cfg l b c) evs s) = job_runs (\<lambda>t. nextDaily l t (fst b) (snd b)) ?B (sd_nextBackup s)"
    using backup_runs [OF assms(1,2), where evs = evs and s = s and cfg = cfg and c = c] assms(6-9) by (auto simp: rounds_ok_def runs_of_def)
  have rC: "runs_of CheckJob (fold (sched_round cfg l b c) evs s) = job_runs (\<lambda>t. nextWeekly l t (sc_CheckWeekday cfg) (fst c) (snd c)) ?C (sd_nextCheck s)"
    using check_runs [OF assms(1,3-5), where evs = evs and s = s and b = b] assms(6-9) by (auto simp: rounds_ok_def runs_of_def)
  have "regular (\<lambda>t. nextDaily l t (fst b) (snd b)) JB (sd_nextBackup s) (map sv_now evs) (job_runs (\<lambda>t. nextDaily l t (fst b) (snd b)) ?B (sd_nextBackup s))"
    unfolding regular_def
    using daily.runs_spaced [OF sorted(1) _ d] daily.no_occurrence_missed [OF _ _ _ sorted(1) jB d] daily.first_run [OF _ _ sorted(1)] jB
    by (fastforce simp: image_iff)
  moreover have "regular (\<lambda>t. nextWeekly l t (sc_CheckWeekday cfg) (fst c) (snd c)) JC (sd_nextCheck s) (map sv_now evs)
    (job_runs (\<lambda>t. nextWeekly l t (sc_CheckWeekday cfg) (fst c) (snd c)) ?C (sd_nextCheck s))"
    unfolding regular_def
    using weekly.runs_spaced [OF sorted(2) _ w] weekly.no_occurrence_missed [OF _ _ _ sorted(2) jC w] weekly.first_run [OF _ _ sorted(2)] jC
    by (fastforce simp: image_iff)
  ultimately show ?thesis unfolding rB rC ..
qed

definition utc :: location where
  "utc = \<lparr>lo_first = 0, lo_trans = []\<rparr>"

definition cfg1 :: schedConfig where
  "cfg1 = \<lparr>sc_BackupTime = ''02:30'', sc_BackupJitter = Hour, sc_CheckWeekday = 0, sc_CheckTime = ''04:00'', sc_CheckJitter = 0\<rparr>"

definition round_at :: "time \<Rightarrow> senv" where
  "round_at t = \<lparr>sv_now = t, sv_backup_jitter = 0, sv_check_jitter = 0, sv_save = True\<rparr>"

definition sched1 :: scheduler where
  "sched1 = the (sched_start cfg1 utc (round_at (700000 * day_ns + Hour)) None)"

lemma sched1_facts: "zero_time < sd_nextBackup sched1" "zero_time < sd_nextCheck sched1" "sd_runs sched1 = []"
  by code_simp+

definition rounds1 :: "senv list" where
  "rounds1 = map (\<lambda>i. round_at (700000 * day_ns + i * Hour)) [2, 3, 10, 30]"

theorem jobs_run_regularly_witness:
  "regular (\<lambda>t. nextDaily utc t 2 30) Hour (sd_nextBackup sched1) (map sv_now rounds1)
     (runs_of BackupJob (fold (sched_round cfg1 utc (2, 30) (4, 0)) rounds1 sched1))"
proof -
  have "fixed_offset utc" "clock_ok 2 30" "clock_ok 4 0" "0 \<le> sc_CheckWeekday cfg1" "sc_CheckWeekday cfg1 < 7"
    by (simp_all add: fixed_offset_def utc_def clock_ok_def cfg1_def)
  moreover have "rounds_ok Hour 0 rounds1" by code_simp
  ultimately show ?thesis
    using jobs_run_regularly [of utc "(2, 30)" "(4, 0)" cfg1 Hour 0 rounds1 sched1] sched1_facts by simp
qed

lemma parseHHMM_clock: "parseHHMM s = Some (hh, mm) \<Longrightarrow> clock_ok hh mm"
  by (auto simp: parseHHMM_def clock_ok_def split: prod.splits option.splits if_splits)

text \<open>The loop never sleeps longer than a minute, and not beyond the instant at which a job is due.\<close>

lemma sleepFor_bounds:
  "0 \<le> sleepFor now s \<and> sleepFor now s \<le> Minute \<and>
   (soonest s \<noteq> zero_time \<and> now \<le> soonest s \<longrightarrow> now + sleepFor now s \<le> soonest s)"
  by (auto simp: sleepFor_def Let_def reconcileInterval_def time_Sub_def Minute_def Second_def)

lemma recent_mono:
  assumes "fixed_offset l" "clock_ok hh mm" "u \<le> now"
  shows "mostRecentDaily l u hh mm = mostRecentDaily l now hh mm \<or> mostRecentDaily l u hh mm + day_ns \<le> mostRecentDaily l now hh mm"
proof -
  note r = mostRecentDaily_fixed [OF assms(1,2)]
  show ?thesis
    using daily_occ_unique [OF assms(1) r(3) r(3), of u now] daily_occ_unique [OF assms(1) r(3) r(3), of now u] r(1,2) [of u] r(1,2) [of now] assms(3)
    by force
qed

lemma missed_iff:
  assumes "fixed_offset l" "clock_ok hh mm" "u \<le> now"
  shows "time_Unix (mostRecentDaily l u hh mm) < time_Unix (mostRecentDaily l now hh mm) \<longleftrightarrow>
    (\<exists>occ. daily_occ l hh mm occ \<and> u < occ \<and> occ \<le> now)"
proof -
  let ?m = "mostRecentDaily l u hh mm" and ?n = "mostRecentDaily l now hh mm"
  note r = mostRecentDaily_fixed [OF assms(1,2)]
  show ?thesis
  proof (cases "?m = ?n")
    case True
    have "occ \<le> u" if "daily_occ l hh mm occ" "occ \<le> now" for occ
    proof (cases "?n \<le> occ")
      case True
      then have "occ = ?n" using daily_occ_unique [OF assms(1) r(3) that(1)] that(2) r(2) [of now] by force
      then show ?thesis using \<open>?m = ?n\<close> r(1) [of u] by simp
    next
      case False
      then show ?thesis using \<open>?m = ?n\<close> r(1) [of u] by simp
    qed
    then show ?thesis using True by force
  next
    case False
    then have le: "?m + day_ns \<le> ?n" using recent_mono [OF assms] by blast
    have "(?m - unix_epoch) div 1000000000 + 86400 = (?m + day_ns - unix_epoch) div 1000000000"
      by (simp add: day_ns_def duration_defs algebra_simps)
    also have "\<dots> \<le> (?n - unix_epoch) div 1000000000" using le by (intro zdiv_mono1) auto
    finally have "time_Unix ?m < time_Unix ?n" by (simp add: time_Unix_def)
    moreover have "u < ?n" using le r(2) [of u] by simp
    ultimately show ?thesis using r(1,3) [of now] by blast
  qed
qed

text \<open>
  A restart neither repeats nor forgets a backup. When the agent starts and finds the state that a
  scheduler saved at a run, the next backup is due at once (after the jitter) if an occurrence of
  the configured time has passed since that run, and at the next occurrence if not.
\<close>

lemma restart_catches_up:
  assumes "fixed_offset l" "parseHHMM (sc_BackupTime cfg) = Some (bh, bm)" "parseHHMM (sc_CheckTime cfg) = Some c"
    "ss_BackupLastTrigger st = time_Unix (mostRecentDaily l u bh bm)" "u \<le> sv_now ev"
  shows "\<exists>s. sched_start cfg l ev (Some st) = Some s \<and>
    sd_nextBackup s = (if \<exists>occ. daily_occ l bh bm occ \<and> u < occ \<and> occ \<le> sv_now ev then sv_now ev else nextDaily l (sv_now ev) bh bm) + sv_backup_jitter ev"
  using assms missed_iff [OF assms(1) parseHHMM_clock [OF assms(2)] assms(5)]
  by (cases c) (auto simp: sched_start_def sched_arm_def Let_def)

text \<open>
  With transitions the wall clock can skip the configured time: on such a day the occurrence is
  an hour late, and because the next one is computed from it by adding a day, it is an
  hour late as well although that day has the configured time.
\<close>

definition summer :: location where
  "summer = \<lparr>lo_first = 3600, lo_trans = [(700000 * day_ns + Hour, 7200)]\<rparr>"

lemma dst_gap_shifts_next_day:
  "wall summer (nextDaily summer (700000 * day_ns + 10 * Hour) 2 30) = 700001 * day_ns + 3 * Hour + 30 * Minute \<and>
   wall summer (at_clock summer (700001 * day_ns + 10 * Hour) 2 30) = 700001 * day_ns + 2 * Hour + 30 * Minute"
  by code_simp

end
