(* ===== verification/Auth.thy ===== *)
theory Auth
  imports Wg_Tunnel
begin

text \<open>
  Accounts and sessions, \<open>internal/server/auth/auth.go\<close>: the tables \<open>users\<close> and \<open>sessions\<close>, and every operation
  of \<open>Service\<close>, statement by statement. \<open>bcrypt\<close>, the digest of tokens, random bytes, clocks and failures
  of statements are parameters. Two results: for any history of operations a token opens exactly the session
  that the history grants, and the number of passwords that can be tried against an account is bounded by
  the time that passes.
\<close>

section \<open>Errors, passwords\<close>

datatype auth_err =
    ErrInvalidCredentials
  | ErrNoUser
  | ErrSessionExpired
  | ErrAlreadyInitialized
  | ErrAccountLocked
  | ErrWeakPassword
  | ErrText string
  | ErrDB string

definition SessionTTL :: duration where "SessionTTL = 30 * 24 * Hour"
definition MinPasswordLength :: nat where "MinPasswordLength = 12"
definition MaxFailedLogins :: int where "MaxFailedLogins = 10"
definition LockoutDuration :: duration where "LockoutDuration = 15 * Minute"

definition weakPasswordPrefixes :: "string list" where
  "weakPasswordPrefixes = [
     ''password'', ''passw0rd'', ''letmein'', ''welcome'', ''admin'', ''administrator'',
     ''qwerty'', ''asdfgh'', ''zxcvbn'', ''iloveyou'', ''monkey'', ''dragon'',
     ''sunshine'', ''princess'', ''football'', ''baseball'', ''master'',
     ''changeme'', ''secret'']"

text \<open>
  \<open>strings.ToLower\<close> as far as it yields ASCII: the capital letters, and the two other characters whose lower case is
  ASCII (U+0130, U+212A); what else it changes stays outside ASCII and cannot begin a weak prefix.
\<close>

fun lower_ascii :: "string \<Rightarrow> string" where
  "lower_ascii [] = []"
| "lower_ascii (c # s) =
     (if 65 \<le> byte c \<and> byte c \<le> 90 then char_of (byte c + 32) # lower_ascii s
      else if byte c = 196 \<and> s \<noteq> [] \<and> byte (hd s) = 176 then CHR ''i'' # lower_ascii (drop 1 s)
      else if byte c = 226 \<and> length s \<ge> 2 \<and> byte (s ! 0) = 132 \<and> byte (s ! 1) = 170 then CHR ''k'' # lower_ascii (drop 2 s)
      else c # lower_ascii s)"

definition validatePassword :: "string \<Rightarrow> auth_err option" where
  "validatePassword p =
     (if length p < MinPasswordLength then Some (ErrText ''password must be at least 12 characters'')
      else if list_ex (\<lambda>w. is_prefix w (lower_ascii p)) weakPasswordPrefixes then Some ErrWeakPassword
      else None)"

section \<open>Tables\<close>

record user =
  us_ID :: int
  us_Username :: string
  us_Role :: string
  us_CreatedAt :: time

record user_row = user +
  ur_password_hash :: string
  ur_failed_login_count :: int
  ur_locked_until :: "time option"

record session_row =
  se_token :: string
  se_user_id :: int
  se_expires_at :: time

record auth_db =
  ad_users :: "user_row list"
  ad_sessions :: "session_row list"
  ad_next_id :: int

text \<open>
  What an operation finds: its clock (and the clock when a session is created, and the database's), random bytes,
  the salted hash of \<open>bcrypt\<close> (or its error), and the error of the statement with a given number, counted
  from 0 in the order of the source; a transaction whose \<open>Commit\<close> fails changed nothing.
\<close>

record auth_env =
  ae_now :: time
  ae_session_now :: time
  ae_db_now :: time
  ae_rand :: "string + string"
  ae_Generate :: "string \<Rightarrow> string + string"
  ae_stmt :: "nat \<Rightarrow> string option"

record crypt =
  cr_Compare :: "string \<Rightarrow> string \<Rightarrow> bool"
  cr_dummy :: string
  cr_hashToken :: "string \<Rightarrow> string"

definition user_where :: "(user_row \<Rightarrow> bool) \<Rightarrow> auth_db \<Rightarrow> user_row option" where
  "user_where P db = List.find P (ad_users db)"

definition update_user :: "int \<Rightarrow> (user_row \<Rightarrow> user_row) \<Rightarrow> auth_db \<Rightarrow> auth_db" where
  "update_user i f db = db\<lparr>ad_users := map (\<lambda>u. if us_ID u = i then f u else u) (ad_users db)\<rparr>"

definition delete_sessions :: "(session_row \<Rightarrow> bool) \<Rightarrow> auth_db \<Rightarrow> auth_db" where
  "delete_sessions P db = db\<lparr>ad_sessions := filter (\<lambda>s. \<not> P s) (ad_sessions db)\<rparr>"

definition user_of :: "user_row \<Rightarrow> user" where "user_of r = user.truncate r"

text \<open>
  \<open>INSERT INTO sessions\<close>: \<open>token\<close> is the primary key and \<open>user_id\<close> refers to a user.
\<close>

definition insert_session :: "session_row \<Rightarrow> auth_db \<Rightarrow> string + auth_db" where
  "insert_session s db =
     (if list_ex (\<lambda>x. se_token x = se_token s) (ad_sessions db) then Inl ''duplicate key value''
      else if \<not> list_ex (\<lambda>u. us_ID u = se_user_id s) (ad_users db) then Inl ''foreign key violation''
      else Inr (db\<lparr>ad_sessions := ad_sessions db @ [s]\<rparr>))"

section \<open>Operations\<close>

definition HasAnyUser :: "auth_env \<Rightarrow> auth_db \<Rightarrow> auth_err + bool" where
  "HasAnyUser ev db = (case ae_stmt ev 0 of Some e \<Rightarrow> Inl (ErrDB e) | None \<Rightarrow> Inr (length (ad_users db) > 0))"

definition CreateAdmin :: "auth_env \<Rightarrow> string \<Rightarrow> string \<Rightarrow> auth_db \<Rightarrow> auth_db \<times> (auth_err + user)" where
  "CreateAdmin ev username password db =
     (if username = [] \<or> password = [] then (db, Inl (ErrText ''username and password required''))
      else (case validatePassword password of Some e \<Rightarrow> (db, Inl e)
      | None \<Rightarrow> (case ae_Generate ev password of Inl e \<Rightarrow> (db, Inl (ErrText e))
      | Inr hash \<Rightarrow> (case ae_stmt ev 0 of Some e \<Rightarrow> (db, Inl (ErrDB e))
      | None \<Rightarrow> (case ae_stmt ev 1 of Some e \<Rightarrow> (db, Inl (ErrDB e))
      | None \<Rightarrow> (case ae_stmt ev 2 of Some e \<Rightarrow> (db, Inl (ErrDB e))
      | None \<Rightarrow>
         if length (ad_users db) > 0 then (db, Inl ErrAlreadyInitialized)
         else (case ae_stmt ev 3 of Some e \<Rightarrow> (db, Inl (ErrDB e))
         | None \<Rightarrow> (case ae_stmt ev 4 of Some e \<Rightarrow> (db, Inl (ErrDB e))
         | None \<Rightarrow>
            (let row = \<lparr>us_ID = ad_next_id db, us_Username = username, us_Role = ''admin'',
                        us_CreatedAt = ae_db_now ev, ur_password_hash = hash,
                        ur_failed_login_count = 0, ur_locked_until = None\<rparr>
             in (db\<lparr>ad_users := ad_users db @ [row], ad_next_id := ad_next_id db + 1\<rparr>, Inr (user_of row)))))))))))"

text \<open>The new password and the end of all sessions, the common part of the two transactions.\<close>

definition set_password :: "int \<Rightarrow> string \<Rightarrow> auth_db \<Rightarrow> auth_db" where
  "set_password i newHash db =
     delete_sessions (\<lambda>s. se_user_id s = i) (update_user i (\<lambda>u. u\<lparr>ur_password_hash := newHash\<rparr>) db)"

definition ChangePassword :: "crypt \<Rightarrow> auth_env \<Rightarrow> int \<Rightarrow> string \<Rightarrow> string \<Rightarrow> auth_db \<Rightarrow> auth_db \<times> (auth_err + string)" where
  "ChangePassword c ev userID current new db =
     (if current = [] \<or> new = [] then (db, Inl (ErrText ''current and new password required''))
      else (case validatePassword new of Some e \<Rightarrow> (db, Inl e)
      | None \<Rightarrow>
        if current = new then (db, Inl (ErrText ''new password must differ from current password''))
        else (case ae_stmt ev 0 of Some e \<Rightarrow> (db, Inl (ErrDB e))
      | None \<Rightarrow> (case user_where (\<lambda>u. us_ID u = userID) db of None \<Rightarrow> (db, Inl ErrNoUser)
      | Some r \<Rightarrow>
        if \<not> cr_Compare c (ur_password_hash r) current then (db, Inl ErrInvalidCredentials)
        else (case ae_Generate ev new of Inl e \<Rightarrow> (db, Inl (ErrText e))
      | Inr newHash \<Rightarrow> (case ae_stmt ev 1 of Some e \<Rightarrow> (db, Inl (ErrDB e))
      | None \<Rightarrow> (case ae_stmt ev 2 of Some e \<Rightarrow> (db, Inl (ErrDB e))
      | None \<Rightarrow> (case ae_stmt ev 3 of Some e \<Rightarrow> (db, Inl (ErrDB e))
      | None \<Rightarrow> (case ae_rand ev of Inl e \<Rightarrow> (db, Inl (ErrText e))
      | Inr raw \<Rightarrow> (case ae_stmt ev 4 of Some e \<Rightarrow> (db, Inl (ErrDB e))
      | None \<Rightarrow> (case insert_session \<lparr>se_token = cr_hashToken c raw, se_user_id = userID,
                                      se_expires_at = ae_session_now ev + SessionTTL\<rparr> (set_password userID newHash db) of
          Inl e \<Rightarrow> (db, Inl (ErrDB e))
        | Inr db' \<Rightarrow> (case ae_stmt ev 5 of Some e \<Rightarrow> (db, Inl (ErrDB e))
          | None \<Rightarrow> (db', Inr (hex_encode raw))))))))))))))"

definition ResetPassword :: "auth_env \<Rightarrow> string \<Rightarrow> string \<Rightarrow> auth_db \<Rightarrow> auth_db \<times> auth_err option" where
  "ResetPassword ev username password db =
     (if username = [] \<or> password = [] then (db, Some (ErrText ''username and password required''))
      else (case validatePassword password of Some e \<Rightarrow> (db, Some e)
      | None \<Rightarrow> (case ae_Generate ev password of Inl e \<Rightarrow> (db, Some (ErrText e))
      | Inr newHash \<Rightarrow> (case ae_stmt ev 0 of Some e \<Rightarrow> (db, Some (ErrDB e))
      | None \<Rightarrow> (case ae_stmt ev 1 of Some e \<Rightarrow> (db, Some (ErrDB e))
      | None \<Rightarrow> (case user_where (\<lambda>u. us_Username u = username) db of None \<Rightarrow> (db, Some ErrNoUser)
      | Some r \<Rightarrow> (case ae_stmt ev 2 of Some e \<Rightarrow> (db, Some (ErrDB e))
      | None \<Rightarrow> (case ae_stmt ev 3 of Some e \<Rightarrow> (db, Some (ErrDB e))
      | None \<Rightarrow> (case ae_stmt ev 4 of Some e \<Rightarrow> (db, Some (ErrDB e))
      | None \<Rightarrow> (set_password (us_ID r) newHash db, None))))))))))"

definition createSession :: "crypt \<Rightarrow> auth_env \<Rightarrow> nat \<Rightarrow> int \<Rightarrow> auth_db \<Rightarrow> auth_db \<times> (auth_err + string)" where
  "createSession c ev k userID db = (case ae_rand ev of Inl e \<Rightarrow> (db, Inl (ErrText e))
   | Inr raw \<Rightarrow> (case ae_stmt ev k of Some e \<Rightarrow> (db, Inl (ErrDB e))
   | None \<Rightarrow> (case insert_session \<lparr>se_token = cr_hashToken c raw, se_user_id = userID,
                                   se_expires_at = ae_session_now ev + SessionTTL\<rparr> db of
       Inl e \<Rightarrow> (db, Inl (ErrDB e))
     | Inr db' \<Rightarrow> (db', Inr (hex_encode raw)))))"

text \<open>
  \<open>Login\<close> after its first statement, which read the row: comparing a password takes long, and other requests
  run meanwhile, so the row may be out of date.
\<close>

definition locked_at :: "time \<Rightarrow> user_row \<Rightarrow> bool" where
  "locked_at now r = (case ur_locked_until r of None \<Rightarrow> False | Some u \<Rightarrow> now < u)"

definition login_failed :: "auth_env \<Rightarrow> user_row \<Rightarrow> auth_db \<Rightarrow> auth_db \<times> auth_err" where
  "login_failed ev r db =
     (if ae_stmt ev 1 \<noteq> None then (db, ErrInvalidCredentials)
      else (let db1 = update_user (us_ID r) (\<lambda>u. u\<lparr>ur_failed_login_count := ur_failed_login_count u + 1\<rparr>) db
            in case user_where (\<lambda>u. us_ID u = us_ID r) db1 of
                 None \<Rightarrow> (db1, ErrInvalidCredentials)
               | Some u \<Rightarrow>
                   if ur_failed_login_count u \<ge> MaxFailedLogins
                   then ((if ae_stmt ev 2 \<noteq> None then db1
                          else update_user (us_ID r)
                            (\<lambda>u. u\<lparr>ur_failed_login_count := 0, ur_locked_until := Some (ae_now ev + LockoutDuration)\<rparr>) db1),
                         ErrAccountLocked)
                   else (db1, ErrInvalidCredentials)))"

definition login_finish :: "crypt \<Rightarrow> auth_env \<Rightarrow> user_row option \<Rightarrow> string \<Rightarrow> auth_db \<Rightarrow> auth_db \<times> (auth_err + user \<times> string)" where
  "login_finish c ev row password db = (case row of None \<Rightarrow> (db, Inl ErrInvalidCredentials)
   | Some r \<Rightarrow>
       if locked_at (ae_now ev) r then (db, Inl ErrAccountLocked)
       else if \<not> cr_Compare c (ur_password_hash r) password
       then (case login_failed ev r db of (db', e) \<Rightarrow> (db', Inl e))
       else (let db1 = (if (ur_failed_login_count r \<noteq> 0 \<or> ur_locked_until r \<noteq> None) \<and> ae_stmt ev 3 = None
                        then update_user (us_ID r) (\<lambda>u. u\<lparr>ur_failed_login_count := 0, ur_locked_until := None\<rparr>) db
                        else db)
             in case createSession c ev 4 (us_ID r) db1 of
                  (db2, Inl e) \<Rightarrow> (db2, Inl e)
                | (db2, Inr token) \<Rightarrow> (db2, Inr (user_of r, token))))"

definition Login :: "crypt \<Rightarrow> auth_env \<Rightarrow> string \<Rightarrow> string \<Rightarrow> auth_db \<Rightarrow> auth_db \<times> (auth_err + user \<times> string)" where
  "Login c ev username password db = (case ae_stmt ev 0 of Some e \<Rightarrow> (db, Inl (ErrDB e))
   | None \<Rightarrow> login_finish c ev (user_where (\<lambda>u. us_Username u = username) db) password db)"

definition session_where :: "string \<Rightarrow> auth_db \<Rightarrow> session_row option" where
  "session_where h db = List.find (\<lambda>s. se_token s = h) (ad_sessions db)"

definition ResolveSession :: "crypt \<Rightarrow> auth_env \<Rightarrow> string \<Rightarrow> auth_db \<Rightarrow> auth_db \<times> (auth_err + user)" where
  "ResolveSession c ev token db = (case hex_decode token of None \<Rightarrow> (db, Inl ErrInvalidCredentials)
   | Some raw \<Rightarrow> (case ae_stmt ev 0 of Some e \<Rightarrow> (db, Inl (ErrDB e))
   | None \<Rightarrow> (case session_where (cr_hashToken c raw) db of None \<Rightarrow> (db, Inl ErrInvalidCredentials)
   | Some s \<Rightarrow> (case user_where (\<lambda>u. us_ID u = se_user_id s) db of None \<Rightarrow> (db, Inl ErrInvalidCredentials)
   | Some u \<Rightarrow>
       if ae_now ev > se_expires_at s
       then ((if ae_stmt ev 1 = None then delete_sessions (\<lambda>x. se_token x = cr_hashToken c raw) db else db),
             Inl ErrSessionExpired)
       else (db, Inr (user_of u))))))"

definition Logout :: "crypt \<Rightarrow> auth_env \<Rightarrow> string \<Rightarrow> auth_db \<Rightarrow> auth_db \<times> auth_err option" where
  "Logout c ev token db = (case hex_decode token of None \<Rightarrow> (db, None)
   | Some raw \<Rightarrow> (case ae_stmt ev 0 of Some e \<Rightarrow> (db, Some (ErrDB e))
   | None \<Rightarrow> (delete_sessions (\<lambda>s. se_token s = cr_hashToken c raw) db, None)))"

definition PurgeExpired :: "auth_env \<Rightarrow> auth_db \<Rightarrow> auth_db \<times> auth_err option" where
  "PurgeExpired ev db = (case ae_stmt ev 0 of Some e \<Rightarrow> (db, Some (ErrDB e))
   | None \<Rightarrow> (delete_sessions (\<lambda>s. se_expires_at s < ae_db_now ev) db, None))"

section \<open>Histories\<close>

datatype auth_op =
    OpLogin string string
  | OpChange int string string
  | OpReset string string
  | OpCreate string string
  | OpResolve string
  | OpLogout string
  | OpPurge

datatype auth_res = RUser user | RLogin user string | RToken string | ROk | RErr auth_err

fun auth_exec :: "crypt \<Rightarrow> auth_env \<Rightarrow> auth_op \<Rightarrow> auth_db \<Rightarrow> auth_db \<times> auth_res" where
  "auth_exec c ev (OpLogin n p) db = (case Login c ev n p db of
     (db', Inl e) \<Rightarrow> (db', RErr e) | (db', Inr (u, t)) \<Rightarrow> (db', RLogin u t))"
| "auth_exec c ev (OpChange i p q) db = (case ChangePassword c ev i p q db of
     (db', Inl e) \<Rightarrow> (db', RErr e) | (db', Inr t) \<Rightarrow> (db', RToken t))"
| "auth_exec c ev (OpReset n p) db = (case ResetPassword ev n p db of
     (db', Some e) \<Rightarrow> (db', RErr e) | (db', None) \<Rightarrow> (db', ROk))"
| "auth_exec c ev (OpCreate n p) db = (case CreateAdmin ev n p db of
     (db', Inl e) \<Rightarrow> (db', RErr e) | (db', Inr u) \<Rightarrow> (db', RUser u))"
| "auth_exec c ev (OpResolve t) db = (case ResolveSession c ev t db of
     (db', Inl e) \<Rightarrow> (db', RErr e) | (db', Inr u) \<Rightarrow> (db', RUser u))"
| "auth_exec c ev (OpLogout t) db = (case Logout c ev t db of
     (db', Some e) \<Rightarrow> (db', RErr e) | (db', None) \<Rightarrow> (db', ROk))"
| "auth_exec c ev OpPurge db = (case PurgeExpired ev db of
     (db', Some e) \<Rightarrow> (db', RErr e) | (db', None) \<Rightarrow> (db', ROk))"

type_synonym auth_step = "auth_env \<times> auth_op"
type_synonym auth_event = "auth_env \<times> auth_op \<times> auth_res"

text \<open>A run of operations, one after the other: the state, and what happened, the latest first.\<close>

definition auth_do :: "crypt \<Rightarrow> auth_step \<Rightarrow> auth_db \<times> auth_event list \<Rightarrow> auth_db \<times> auth_event list" where
  "auth_do c x s = (case x of (ev, op) \<Rightarrow> (case auth_exec c ev op (fst s) of
     (db', r) \<Rightarrow> (db', (ev, op, r) # snd s)))"

definition auth_run :: "crypt \<Rightarrow> auth_step list \<Rightarrow> auth_db \<Rightarrow> auth_db \<times> auth_event list" where
  "auth_run c xs db = fold (auth_do c) xs (db, [])"

text \<open>
  What a history grants: an operation that opens a session for a user, one that ends it, and the time until which
  a token opens the session of a user, by the history alone.
\<close>

fun opens :: "int \<Rightarrow> string \<Rightarrow> auth_event \<Rightarrow> bool" where
  "opens i raw (ev, OpLogin n p, RLogin u t) = (us_ID u = i \<and> hex_decode t = Some raw)"
| "opens i raw (ev, OpChange j p q, RToken t) = (j = i \<and> hex_decode t = Some raw)"
| "opens i raw _ = False"

fun ends_session :: "user \<Rightarrow> string \<Rightarrow> auth_event \<Rightarrow> bool" where
  "ends_session u raw (ev, OpChange j p q, RToken t) = (j = us_ID u)"
| "ends_session u raw (ev, OpReset n p, ROk) = (n = us_Username u)"
| "ends_session u raw (ev, OpLogout t, ROk) = (hex_decode t = Some raw)"
| "ends_session u raw _ = False"

fun granted :: "user \<Rightarrow> string \<Rightarrow> auth_event list \<Rightarrow> time option" where
  "granted u raw [] = None"
| "granted u raw (x # h) =
     (if opens (us_ID u) raw x then Some (ae_session_now (fst x) + SessionTTL)
      else if ends_session u raw x then None else granted u raw h)"

definition wf_users :: "auth_db \<Rightarrow> bool" where
  "wf_users db \<longleftrightarrow> distinct (map us_ID (ad_users db)) \<and> distinct (map us_Username (ad_users db))
     \<and> ad_users db \<noteq> []"

definition wf_sessions :: "auth_db \<Rightarrow> bool" where
  "wf_sessions db \<longleftrightarrow> distinct (map se_token (ad_sessions db))"

lemma find_SomeD: "List.find P xs = Some x \<Longrightarrow> x \<in> set xs \<and> P x"
  by (induction xs) (auto split: if_splits)

lemma find_filter_tokens:
  "distinct (map se_token ss) \<Longrightarrow> List.find (\<lambda>s. se_token s = h) (filter (\<lambda>s. \<not> P s) ss) =
     (case List.find (\<lambda>s. se_token s = h) ss of Some s \<Rightarrow> if P s then None else Some s | None \<Rightarrow> None)"
  by (induction ss) (auto simp: find_None_iff split: option.splits dest!: find_SomeD)

lemma find_snoc: "List.find P (xs @ [x]) = (case List.find P xs of Some y \<Rightarrow> Some y | None \<Rightarrow> if P x then Some x else None)"
  by (induction xs) auto

lemma session_where_delete:
  "wf_sessions db \<Longrightarrow> session_where h (delete_sessions P db) =
     (case session_where h db of Some s \<Rightarrow> if P s then None else Some s | None \<Rightarrow> None)"
  by (simp add: session_where_def delete_sessions_def wf_sessions_def find_filter_tokens)

lemma session_where_users [simp]:
  "session_where h (update_user i f db) = session_where h db" "wf_sessions (update_user i f db) = wf_sessions db"
  by (simp_all add: session_where_def update_user_def wf_sessions_def)

lemma wf_delete [simp]: "wf_sessions db \<Longrightarrow> wf_sessions (delete_sessions P db)"
  by (auto simp: wf_sessions_def delete_sessions_def distinct_map_filter)

lemma insert_session_result:
  assumes "insert_session s db = Inr db'"
  shows "session_where h db' = (if h = se_token s then Some s else session_where h db)"
    "session_where (se_token s) db = None" "wf_sessions db \<Longrightarrow> wf_sessions db'"
    "ad_users db' = ad_users db"
proof -
  from assms have new: "\<not> list_ex (\<lambda>x. se_token x = se_token s) (ad_sessions db)"
    and db': "db' = db\<lparr>ad_sessions := ad_sessions db @ [s]\<rparr>"
    by (auto simp: insert_session_def split: if_splits)
  from new show none: "session_where (se_token s) db = None"
    by (auto simp: session_where_def find_None_iff list_ex_iff)
  show "session_where h db' = (if h = se_token s then Some s else session_where h db)"
    using none by (auto simp: db' session_where_def find_snoc split: option.splits)
  show "wf_sessions db \<Longrightarrow> wf_sessions db'" using new by (auto simp: db' wf_sessions_def list_ex_iff)
  show "ad_users db' = ad_users db" by (simp add: db')
qed

lemma session_where_token: "session_where h db = Some s \<Longrightarrow> se_token s = h"
  by (auto simp: session_where_def find_Some_iff)

text \<open>Who the users are never changes, only their passwords and counters.\<close>

abbreviation identities :: "auth_db \<Rightarrow> user list" where "identities db \<equiv> map user_of (ad_users db)"

lemma identities_update [simp]:
  assumes "\<And>u. user_of (f u) = user_of u"
  shows "identities (update_user i f db) = identities db"
  using assms by (auto simp: update_user_def)

lemma identities_delete [simp]: "identities (delete_sessions P db) = identities db"
  by (simp add: delete_sessions_def)

lemma user_of_simps [simp]:
  "user_of (u\<lparr>ur_password_hash := x\<rparr>) = user_of u" "user_of (u\<lparr>ur_failed_login_count := n\<rparr>) = user_of u"
  "user_of (u\<lparr>ur_locked_until := l\<rparr>) = user_of u"
  "us_ID (user_of u) = us_ID u" "us_Username (user_of u) = us_Username u"
  by (simp_all add: user_of_def user.truncate_def)

lemma wf_users_identities: "identities db' = identities db \<Longrightarrow> wf_users db' = wf_users db"
proof -
  have "map us_ID (ad_users d) = map us_ID (identities d)" "map us_Username (ad_users d) = map us_Username (identities d)"
    for d by simp_all
  then show "identities db' = identities db \<Longrightarrow> wf_users db' = wf_users db"
    unfolding wf_users_def by (metis Nil_is_map_conv)
qed

text \<open>The expiry of the session of a user that a token opens, in the table.\<close>

definition owned :: "crypt \<Rightarrow> user \<Rightarrow> string \<Rightarrow> auth_db \<Rightarrow> time option" where
  "owned c u raw db = (case session_where (cr_hashToken c raw) db of None \<Rightarrow> None
     | Some s \<Rightarrow> if se_user_id s = us_ID u then Some (se_expires_at s) else None)"

lemma owned_update [simp]: "owned c u raw (update_user i f db) = owned c u raw db"
  by (simp add: owned_def)

lemma owned_delete:
  "wf_sessions db \<Longrightarrow> owned c u raw (delete_sessions P db) =
     (case session_where (cr_hashToken c raw) db of None \<Rightarrow> None
      | Some s \<Rightarrow> if P s then None else owned c u raw db)"
  by (auto simp: owned_def session_where_delete split: option.splits)

lemma owned_insert:
  assumes "insert_session s db = Inr db'"
  shows "owned c u raw db' = (if cr_hashToken c raw = se_token s
      then (if se_user_id s = us_ID u then Some (se_expires_at s) else None) else owned c u raw db)"
    "cr_hashToken c raw = se_token s \<Longrightarrow> owned c u raw db = None"
  using insert_session_result(1,2)[OF assms] by (auto simp: owned_def)

text \<open>
  The effect of one operation on the sessions: a session is opened, ended, dropped because it expired, or kept.
\<close>

definition session_step :: "crypt \<Rightarrow> string set \<Rightarrow> auth_event \<Rightarrow> auth_db \<Rightarrow> auth_db \<Rightarrow> bool" where
  "session_step c S x db db' \<longleftrightarrow>
     identities db' = identities db \<and> wf_sessions db' \<and>
     (\<forall>u \<in> set (identities db). \<forall>raw \<in> S.
        (if opens (us_ID u) raw x then owned c u raw db' = Some (ae_session_now (fst x) + SessionTTL)
         else if ends_session u raw x then owned c u raw db' = None
         else owned c u raw db' = owned c u raw db \<or>
           (\<exists>e. owned c u raw db = Some e \<and> owned c u raw db' = None \<and> (e < ae_now (fst x) \<or> e < ae_db_now (fst x)))))"

definition raws_of :: "auth_step list \<Rightarrow> string set" where
  "raws_of xs = {raw. \<exists>(ev, op) \<in> set xs. ae_rand ev = Inr raw \<or>
     (\<exists>t. (op = OpLogout t \<or> op = OpResolve t) \<and> hex_decode t = Some raw)}"

lemma raws_of_append: "raws_of (xs @ ys) = raws_of xs \<union> raws_of ys"
  unfolding raws_of_def set_append bex_Un by blast

lemma step_kept: "wf_sessions db \<Longrightarrow> (\<And>i raw. \<not> opens i raw x) \<Longrightarrow> (\<And>u raw. \<not> ends_session u raw x) \<Longrightarrow> session_step c S x db db"
  by (simp add: session_step_def)

lemma createSession_cases:
  "createSession c ev k i db = (db', r) \<Longrightarrow>
    (\<exists>e. r = Inl e \<and> db' = db) \<or>
    (\<exists>raw. ae_rand ev = Inr raw \<and> r = Inr (hex_encode raw) \<and>
       insert_session \<lparr>se_token = cr_hashToken c raw, se_user_id = i, se_expires_at = ae_session_now ev + SessionTTL\<rparr> db = Inr db')"
  by (auto simp: createSession_def split: sum.splits option.splits)

lemma login_failed_sessions:
  "login_failed ev r db = (db', e) \<Longrightarrow> ad_sessions db' = ad_sessions db \<and> identities db' = identities db"
  by (auto simp: login_failed_def Let_def update_user_def split: if_splits option.splits)

lemma step_opens:
  assumes ins: "insert_session \<lparr>se_token = cr_hashToken c raw, se_user_id = i, se_expires_at = e\<rparr> db1 = Inr db'"
    and wf: "wf_sessions db1" "identities db1 = identities db"
    and inj: "inj_on (cr_hashToken c) S" "raw \<in> S"
    and x: "\<And>j r. opens j r x \<longleftrightarrow> j = i \<and> r = raw" "e = ae_session_now (fst x) + SessionTTL"
    and same: "\<And>u r. r \<in> S \<Longrightarrow> r \<noteq> raw \<or> us_ID u \<noteq> i \<Longrightarrow> u \<in> set (identities db) \<Longrightarrow>
       (if ends_session u r x then owned c u r db1 = None else owned c u r db1 = owned c u r db)"
  shows "session_step c S x db db'"
  unfolding session_step_def
proof (intro conjI ballI)
  show "identities db' = identities db" using insert_session_result(4)[OF ins] wf(2) by simp
  show "wf_sessions db'" using insert_session_result(3)[OF ins wf(1)] .
  fix u r assume u: "u \<in> set (identities db)" and r: "r \<in> S"
  have eq: "cr_hashToken c r = cr_hashToken c raw \<longleftrightarrow> r = raw" using inj r by (auto dest: inj_onD)
  show "if opens (us_ID u) r x then owned c u r db' = Some (ae_session_now (fst x) + SessionTTL)
         else if ends_session u r x then owned c u r db' = None
         else owned c u r db' = owned c u r db \<or>
           (\<exists>e. owned c u r db = Some e \<and> owned c u r db' = None \<and> (e < ae_now (fst x) \<or> e < ae_db_now (fst x)))"
    using same[OF r _ u] owned_insert[OF ins, where c = c and u = u and raw = r] by (auto simp: x eq)
qed

lemma step_same_sessions:
  assumes "ad_sessions db' = ad_sessions db" "identities db' = identities db" "wf_sessions db"
    and "\<And>i raw. \<not> opens i raw x" "\<And>u raw. \<not> ends_session u raw x"
  shows "session_step c S x db db'"
proof -
  have "owned c u raw db' = owned c u raw db" for u raw by (simp add: owned_def session_where_def assms(1))
  then show ?thesis using assms by (simp add: session_step_def wf_sessions_def)
qed

lemma Login_step:
  assumes run: "auth_exec c ev (OpLogin n p) db = (db', r)" and wf: "wf_sessions db"
    and inj: "inj_on (cr_hashToken c) S" "raws_of [(ev, OpLogin n p)] \<subseteq> S"
  shows "session_step c S (ev, OpLogin n p, r) db db'"
proof (cases "snd (Login c ev n p db)")
  case (Inl e)
  then have r: "r = RErr e" and db': "db' = fst (Login c ev n p db)"
    using run by (auto split: prod.splits)
  have "ad_sessions db' = ad_sessions db \<and> identities db' = identities db"
    using Inl unfolding db' Login_def login_finish_def
    by (auto simp: Let_def update_user_def split: option.splits if_splits sum.splits prod.splits
        dest: login_failed_sessions createSession_cases)
  then show ?thesis using wf r by (intro step_same_sessions) auto
next
  case (Inr ut)
  obtain u t where ut: "ut = (u, t)" by (cases ut)
  from Inr run ut have r: "r = RLogin u t" and db': "Login c ev n p db = (db', Inr (u, t))"
    by (auto split: prod.splits)
  define f where "f = (\<lambda>u :: user_row. u\<lparr>ur_failed_login_count := 0, ur_locked_until := None :: time option\<rparr>)"
  obtain row db1 where row: "u = user_of row" "db1 = update_user (us_ID row) f db \<or> db1 = db"
    and cs: "createSession c ev 4 (us_ID row) db1 = (db', Inr t)"
    using db' unfolding Login_def login_finish_def f_def
    by (auto simp: Let_def split: option.splits if_splits sum.splits prod.splits)
  from createSession_cases[OF cs] obtain raw where raw: "ae_rand ev = Inr raw" "t = hex_encode raw"
    and ins: "insert_session \<lparr>se_token = cr_hashToken c raw, se_user_id = us_ID row, se_expires_at = ae_session_now ev + SessionTTL\<rparr> db1 = Inr db'"
    by auto
  have same: "identities db1 = identities db" "wf_sessions db1" "\<And>u r. owned c u r db1 = owned c u r db"
    using row(2) wf by (auto simp: f_def)
  from inj(2) raw(1) have "raw \<in> S" by (auto simp: raws_of_def)
  then show ?thesis
    unfolding r using same
    by (intro step_opens[OF ins _ _ inj(1)]) (auto simp: row(1) raw(2) hex_roundtrip)
qed

lemma wf_users_unique:
  "\<lbrakk>wf_users db; u \<in> set (identities db); v \<in> set (identities db)\<rbrakk> \<Longrightarrow>
     us_ID u = us_ID v \<longleftrightarrow> us_Username u = us_Username v"
  unfolding wf_users_def by (auto simp: distinct_map inj_on_def)

lemma set_password_owned:
  "wf_sessions db \<Longrightarrow> owned c u raw (set_password i h db) = (if us_ID u = i then None else owned c u raw db)"
  by (auto simp: set_password_def owned_delete) (auto simp: owned_def split: option.splits)

lemma set_password_simps [simp]:
  "identities (set_password i h db) = identities db" "wf_sessions db \<Longrightarrow> wf_sessions (set_password i h db)"
  by (simp_all add: set_password_def)

lemma user_where_identity: "user_where P db = Some r \<Longrightarrow> user_of r \<in> set (identities db) \<and> P r"
  by (auto simp: user_where_def dest: find_SomeD)

lemma Change_step:
  assumes run: "auth_exec c ev (OpChange i p q) db = (db', r)" and wf: "wf_sessions db"
    and inj: "inj_on (cr_hashToken c) S" "raws_of [(ev, OpChange i p q)] \<subseteq> S"
  shows "session_step c S (ev, OpChange i p q, r) db db'"
proof (cases "snd (ChangePassword c ev i p q db)")
  case (Inl e)
  then have "r = RErr e" "db' = db"
    using run by (auto simp: ChangePassword_def split: prod.splits option.splits sum.splits if_splits)
  then show ?thesis using wf by (intro step_same_sessions) auto
next
  case (Inr t)
  then obtain raw h where raw: "ae_rand ev = Inr raw" "t = hex_encode raw" "r = RToken t"
    and ins: "insert_session \<lparr>se_token = cr_hashToken c raw, se_user_id = i, se_expires_at = ae_session_now ev + SessionTTL\<rparr>
        (set_password i h db) = Inr db'"
    using run by (auto simp: ChangePassword_def split: prod.splits option.splits sum.splits if_splits)
  from inj(2) raw(1) have "raw \<in> S" by (auto simp: raws_of_def)
  then show ?thesis
    unfolding raw(3) using wf
    by (intro step_opens[OF ins _ _ inj(1)]) (auto simp: raw(2) hex_roundtrip set_password_owned)
qed

lemma Reset_step:
  assumes run: "auth_exec c ev (OpReset n p) db = (db', r)" and wf: "wf_sessions db" "wf_users db"
  shows "session_step c S (ev, OpReset n p, r) db db'"
proof (cases "snd (ResetPassword ev n p db)")
  case (Some e)
  then have "r = RErr e" "db' = db"
    using run by (auto simp: ResetPassword_def split: prod.splits option.splits sum.splits if_splits)
  then show ?thesis using wf by (intro step_same_sessions) auto
next
  case None
  then obtain row h where row: "user_where (\<lambda>u. us_Username u = n) db = Some row" "r = ROk"
      "db' = set_password (us_ID row) h db"
    using run by (auto simp: ResetPassword_def split: prod.splits option.splits sum.splits if_splits)
  have same: "us_ID u = us_ID row \<longleftrightarrow> n = us_Username u" if "u \<in> set (identities db)" for u
    using wf_users_unique[OF wf(2) that, of "user_of row"] user_where_identity[OF row(1)] by auto
  have "owned c u raw db' = (if ends_session u raw (ev, OpReset n p, r) then None else owned c u raw db)"
    if "u \<in> set (identities db)" for u raw
    using same[OF that] wf(1) by (simp add: row set_password_owned)
  then show ?thesis unfolding session_step_def using wf row by simp
qed

lemma Create_step:
  assumes run: "auth_exec c ev (OpCreate n p) db = (db', r)" and wf: "wf_sessions db" "wf_users db"
  shows "session_step c S (ev, OpCreate n p, r) db db'"
proof -
  have "db' = db \<and> (\<exists>e. r = RErr e)"
    using run wf(2) by (auto simp: CreateAdmin_def wf_users_def split: prod.splits option.splits sum.splits if_splits)
  then show ?thesis using wf by (auto intro!: step_same_sessions)
qed

lemma owned_expired:
  assumes "wf_sessions db" "owned c u raw (delete_sessions P db) \<noteq> owned c u raw db"
    and "\<And>s. session_where (cr_hashToken c raw) db = Some s \<Longrightarrow> P s \<Longrightarrow> se_expires_at s < t"
  shows "\<exists>e. owned c u raw db = Some e \<and> owned c u raw (delete_sessions P db) = None \<and> e < t"
  using assms by (auto simp: owned_delete) (auto simp: owned_def split: option.splits if_splits)

lemma Resolve_deletes:
  assumes "fst (ResolveSession c ev t db) \<noteq> db"
  shows "\<exists>raw s. hex_decode t = Some raw \<and> session_where (cr_hashToken c raw) db = Some s \<and> se_expires_at s < ae_now ev
    \<and> fst (ResolveSession c ev t db) = delete_sessions (\<lambda>x. se_token x = cr_hashToken c raw) db"
proof -
  obtain raw s u where *: "hex_decode t = Some raw" "ae_stmt ev 0 = None"
      "session_where (cr_hashToken c raw) db = Some s" "user_where (\<lambda>u. us_ID u = se_user_id s) db = Some u"
      "se_expires_at s < ae_now ev" "ae_stmt ev (Suc 0) = None"
    using assms unfolding ResolveSession_def by (simp split: option.splits if_splits)
  then have "fst (ResolveSession c ev t db) = delete_sessions (\<lambda>x. se_token x = cr_hashToken c raw) db"
    by (simp add: ResolveSession_def)
  with * show ?thesis by blast
qed

lemma Resolve_step:
  assumes run: "auth_exec c ev (OpResolve t) db = (db', r)" and wf: "wf_sessions db"
    and inj: "inj_on (cr_hashToken c) S" "raws_of [(ev, OpResolve t)] \<subseteq> S"
  shows "session_step c S (ev, OpResolve t, r) db db'"
proof (cases "db' = db")
  case True
  then show ?thesis using wf by (intro step_same_sessions) auto
next
  case False
  then obtain raw s where raw: "hex_decode t = Some raw" "session_where (cr_hashToken c raw) db = Some s"
      "se_expires_at s < ae_now ev" "db' = delete_sessions (\<lambda>x. se_token x = cr_hashToken c raw) db"
    using Resolve_deletes[of c ev t db] run by (auto split: prod.splits sum.splits)
  have old: "se_expires_at s' < ae_now ev"
    if "session_where (cr_hashToken c r') db = Some s'" "se_token s' = cr_hashToken c raw" for r' s'
    using that raw(2,3) session_where_token[OF that(1)] by simp
  have "owned c u r' db' = owned c u r' db \<or>
      (\<exists>e. owned c u r' db = Some e \<and> owned c u r' db' = None \<and> e < ae_now ev)" for u r'
    using owned_expired[OF wf, where P = "\<lambda>x. se_token x = cr_hashToken c raw" and t = "ae_now ev"] old
    unfolding raw(4) by blast
  then show ?thesis unfolding session_step_def using wf raw(4) by auto
qed

lemma Logout_step:
  assumes run: "auth_exec c ev (OpLogout t) db = (db', r)" and wf: "wf_sessions db"
    and inj: "inj_on (cr_hashToken c) S" "raws_of [(ev, OpLogout t)] \<subseteq> S"
  shows "session_step c S (ev, OpLogout t, r) db db'"
proof (cases "hex_decode t")
  case None
  then have "db' = db" "r = ROk" using run by (auto simp: Logout_def)
  then show ?thesis using wf None by (auto intro!: step_same_sessions)
next
  case (Some raw)
  show ?thesis
  proof (cases "ae_stmt ev 0")
    case err: (Some e)
    then have "db' = db" "r = RErr (ErrDB e)" using run Some by (auto simp: Logout_def)
    then show ?thesis using wf by (auto intro!: step_same_sessions)
  next
    case None
    then have db': "db' = delete_sessions (\<lambda>x. se_token x = cr_hashToken c raw) db" "r = ROk"
      using run Some by (auto simp: Logout_def)
    have "raw \<in> S" using inj(2) Some by (auto simp: raws_of_def)
    then have eq: "cr_hashToken c r' = cr_hashToken c raw \<longleftrightarrow> r' = raw" if "r' \<in> S" for r'
      using inj(1) that by (auto dest: inj_onD)
    have "owned c u r' db' = (if ends_session u r' (ev, OpLogout t, r) then None else owned c u r' db)" if "r' \<in> S" for u r'
      using eq[OF that] wf Some
      by (auto simp: db' owned_delete) (auto simp: owned_def dest: session_where_token split: option.splits)
    then show ?thesis unfolding session_step_def using wf db' by simp
  qed
qed

lemma Purge_step:
  assumes run: "auth_exec c ev OpPurge db = (db', r)" and wf: "wf_sessions db"
  shows "session_step c S (ev, OpPurge, r) db db'"
proof (cases "ae_stmt ev 0")
  case (Some e)
  then have "db' = db" using run by (auto simp: PurgeExpired_def)
  then show ?thesis using wf by (intro step_same_sessions) auto
next
  case None
  then have db': "db' = delete_sessions (\<lambda>s. se_expires_at s < ae_db_now ev) db"
    using run by (auto simp: PurgeExpired_def)
  have "owned c u r' db' = owned c u r' db \<or>
      (\<exists>e. owned c u r' db = Some e \<and> owned c u r' db' = None \<and> e < ae_db_now ev)" for u r'
    using owned_expired[OF wf, of c u r' "\<lambda>s. se_expires_at s < ae_db_now ev" "ae_db_now ev"] by (auto simp: db')
  then show ?thesis unfolding session_step_def using wf db' by fastforce
qed

lemma auth_exec_step:
  assumes "auth_exec c ev op db = (db', r)" "wf_sessions db" "wf_users db"
    "inj_on (cr_hashToken c) S" "raws_of [(ev, op)] \<subseteq> S"
  shows "session_step c S (ev, op, r) db db'"
  using assms Login_step Change_step Reset_step Create_step Resolve_step Logout_step Purge_step
  by (cases op) metis+

section \<open>A token opens what the history grants\<close>

definition lapsed :: "auth_event list \<Rightarrow> time option \<Rightarrow> bool" where
  "lapsed h g \<longleftrightarrow> (\<forall>e. g = Some e \<longrightarrow> (\<exists>x \<in> set h. e < ae_now (fst x) \<or> e < ae_db_now (fst x)))"

definition auth_inv :: "crypt \<Rightarrow> string set \<Rightarrow> auth_db \<Rightarrow> auth_event list \<Rightarrow> auth_db \<Rightarrow> bool" where
  "auth_inv c S db0 h db \<longleftrightarrow> identities db = identities db0 \<and> wf_sessions db \<and>
     (\<forall>u \<in> set (identities db0). \<forall>raw \<in> S. case owned c u raw db of
        Some e \<Rightarrow> granted u raw h = Some e | None \<Rightarrow> lapsed h (granted u raw h))"

lemma auth_inv_step:
  assumes "session_step c S x db db'" "auth_inv c S db0 h db"
  shows "auth_inv c S db0 (x # h) db'"
  unfolding auth_inv_def
proof (intro conjI ballI)
  show "identities db' = identities db0" "wf_sessions db'"
    using assms by (auto simp: auth_inv_def session_step_def)
  fix u raw assume u: "u \<in> set (identities db0)" and raw: "raw \<in> S"
  have inv: "case owned c u raw db of Some e \<Rightarrow> granted u raw h = Some e | None \<Rightarrow> lapsed h (granted u raw h)"
    using assms(2) u raw by (auto simp: auth_inv_def)
  have mono: "lapsed h g \<Longrightarrow> lapsed (x # h) g" for g by (auto simp: lapsed_def)
  have "u \<in> set (identities db)" using assms(2) u by (simp add: auth_inv_def)
  then have step: "if opens (us_ID u) raw x then owned c u raw db' = Some (ae_session_now (fst x) + SessionTTL)
         else if ends_session u raw x then owned c u raw db' = None
         else owned c u raw db' = owned c u raw db \<or>
           (\<exists>e. owned c u raw db = Some e \<and> owned c u raw db' = None \<and> (e < ae_now (fst x) \<or> e < ae_db_now (fst x)))"
    using assms(1) raw unfolding session_step_def by blast
  then show "case owned c u raw db' of Some e \<Rightarrow> granted u raw (x # h) = Some e | None \<Rightarrow> lapsed (x # h) (granted u raw (x # h))"
    using inv mono by (auto simp: lapsed_def split: if_splits option.splits)
qed

lemma auth_run_inv:
  assumes "auth_inv c S db0 [] db0" "wf_users db0" "inj_on (cr_hashToken c) S" "raws_of xs \<subseteq> S"
  shows "auth_inv c S db0 (snd (auth_run c xs db0)) (fst (auth_run c xs db0))"
  using assms(4)
proof (induction xs rule: rev_induct)
  case Nil
  then show ?case using assms(1) by (simp add: auth_run_def)
next
  case (snoc x xs)
  obtain ev op where x: "x = (ev, op)" by (cases x)
  let ?s = "auth_run c xs db0"
  obtain db' r where r: "auth_exec c ev op (fst ?s) = (db', r)" by fastforce
  have "raws_of xs \<subseteq> S" using snoc.prems by (simp add: raws_of_append)
  then have inv: "auth_inv c S db0 (snd ?s) (fst ?s)" by (rule snoc.IH)
  then have "wf_users (fst ?s)" "wf_sessions (fst ?s)"
    using wf_users_identities[of "fst ?s" db0] assms(2) by (auto simp: auth_inv_def)
  moreover have "raws_of [(ev, op)] \<subseteq> S" using snoc.prems x by (simp add: raws_of_append)
  ultimately have "session_step c S (ev, op, r) (fst ?s) db'" using auth_exec_step[OF r] assms(3) by blast
  from auth_inv_step[OF this inv] show ?case by (simp add: auth_run_def auth_do_def x r[unfolded auth_run_def])
qed

lemma auth_run_events: "map (\<lambda>x. (fst x, fst (snd x))) (snd (auth_run c xs db)) = rev xs"
proof (induction xs rule: rev_induct)
  case (snoc x xs)
  then show ?case by (auto simp: auth_run_def auth_do_def split: prod.splits)
qed (simp add: auth_run_def)

lemma user_where_unique:
  assumes "wf_users db" "user_of r \<in> set (identities db)"
  shows "\<exists>x. user_where (\<lambda>u. us_ID u = us_ID r) db = Some x \<and> user_of x = user_of r"
proof -
  from assms(2) obtain y where y: "y \<in> set (ad_users db)" "user_of y = user_of r" by auto
  then have id: "us_ID y = us_ID r" by (metis user_of_simps(4))
  with y(1) obtain x where x: "user_where (\<lambda>u. us_ID u = us_ID r) db = Some x"
    unfolding user_where_def by (cases "List.find (\<lambda>u. us_ID u = us_ID r) (ad_users db)") (auto simp: find_None_iff)
  then have "x \<in> set (ad_users db)" "us_ID x = us_ID y" using id by (auto simp: user_where_def dest: find_SomeD)
  with y(1) assms(1) have "x = y" by (auto simp: wf_users_def distinct_map inj_on_def)
  with x y show ?thesis by simp
qed

lemma ResolveSession_iff:
  assumes "hex_decode tok = Some raw" "ae_stmt ev 0 = None" "wf_users db"
  shows "snd (ResolveSession c ev tok db) = Inr u \<longleftrightarrow>
    u \<in> set (identities db) \<and> (\<exists>e. owned c u raw db = Some e \<and> ae_now ev \<le> e)"
proof (rule iffI, goal_cases)
  case 1
  then show "u \<in> set (identities db) \<and> (\<exists>e. owned c u raw db = Some e \<and> ae_now ev \<le> e)"
  proof -
    assume "snd (ResolveSession c ev tok db) = Inr u"
    then obtain s r where "session_where (cr_hashToken c raw) db = Some s"
        "user_where (\<lambda>u. us_ID u = se_user_id s) db = Some r" "ae_now ev \<le> se_expires_at s" "u = user_of r"
      using assms(1,2) unfolding ResolveSession_def by (simp split: option.splits if_splits)
    moreover from this(2) have "user_of r \<in> set (identities db)" "us_ID r = se_user_id s"
      using user_where_identity by blast+
    ultimately show ?thesis by (simp add: owned_def)
  qed
next
  case 2
  then have *: "u \<in> set (identities db) \<and> (\<exists>e. owned c u raw db = Some e \<and> ae_now ev \<le> e)" .
  then obtain s where s: "session_where (cr_hashToken c raw) db = Some s" "se_user_id s = us_ID u" "ae_now ev \<le> se_expires_at s"
    by (auto simp: owned_def split: option.splits if_splits)
  from * obtain r where r: "r \<in> set (ad_users db)" "u = user_of r" by auto
  with user_where_unique[OF assms(3), of r] obtain x where
    "user_where (\<lambda>v. us_ID v = us_ID u) db = Some x" "user_of x = u" by auto
  then show "snd (ResolveSession c ev tok db) = Inr u"
    using s assms(1,2) by (simp add: ResolveSession_def)
qed

lemma session_history:
  assumes "wf_users db0" "ad_sessions db0 = []" and "inj_on (cr_hashToken c) S" "raws_of xs \<subseteq> S" "raw \<in> S"
    and "hex_decode tok = Some raw" "ae_stmt ev 0 = None"
    and "\<forall>x \<in> set xs. ae_now (fst x) \<le> ae_now ev \<and> ae_db_now (fst x) \<le> ae_now ev"
  shows "snd (ResolveSession c ev tok (fst (auth_run c xs db0))) = Inr u \<longleftrightarrow>
    u \<in> set (identities db0) \<and> (\<exists>e. granted u raw (snd (auth_run c xs db0)) = Some e \<and> ae_now ev \<le> e)"
proof -
  let ?db = "fst (auth_run c xs db0)" and ?h = "snd (auth_run c xs db0)"
  have "auth_inv c S db0 [] db0"
    using assms(2) by (auto simp: auth_inv_def wf_sessions_def owned_def session_where_def lapsed_def)
  from auth_run_inv[OF this assms(1,3,4)] have inv: "auth_inv c S db0 ?h ?db" .
  then have ids: "identities ?db = identities db0" unfolding auth_inv_def by blast
  from wf_users_identities[OF ids] assms(1) have wf: "wf_users ?db" by simp
  have past: "ae_now (fst x) \<le> ae_now ev \<and> ae_db_now (fst x) \<le> ae_now ev" if "x \<in> set ?h" for x
  proof -
    have "(\<lambda>x. (fst x, fst (snd x))) x \<in> set (map (\<lambda>x. (fst x, fst (snd x))) ?h)"
      unfolding set_map using that by (rule imageI)
    then have "(fst x, fst (snd x)) \<in> set xs" unfolding auth_run_events by simp
    from bspec[OF assms(8) this] show ?thesis by simp
  qed
  have "(\<exists>e. owned c u raw ?db = Some e \<and> ae_now ev \<le> e) \<longleftrightarrow> (\<exists>e. granted u raw ?h = Some e \<and> ae_now ev \<le> e)"
    if u: "u \<in> set (identities db0)"
  proof -
    have *: "case owned c u raw ?db of Some e \<Rightarrow> granted u raw ?h = Some e | None \<Rightarrow> lapsed ?h (granted u raw ?h)"
      using inv u assms(5) unfolding auth_inv_def by blast
    show ?thesis
    proof (cases "owned c u raw ?db")
      case None
      with * have "lapsed ?h (granted u raw ?h)" by simp
      have "\<not> ae_now ev \<le> e" if g: "granted u raw ?h = Some e" for e
      proof -
        from \<open>lapsed ?h (granted u raw ?h)\<close> g obtain x where x: "x \<in> set ?h" "e < ae_now (fst x) \<or> e < ae_db_now (fst x)"
          unfolding lapsed_def by blast
        from past[OF x(1)] x(2) show ?thesis by auto
      qed
      with None show ?thesis by simp
    qed (use * in simp)
  qed
  then show ?thesis using ResolveSession_iff[OF assms(6,7) wf, where c = c and u = u] unfolding ids by blast
qed

text \<open>
  C7. After any history of operations a token opens a session exactly as the history grants it: it was given
  out by a login of that user or a change of the password, since then the user has not logged out with it and
  the password was neither changed nor reset, and thirty days have not passed. Purging and the removal of expired
  sessions are not observable. Digests of different tokens of the history differ, and clocks do not run back behind those of the
  past.
\<close>

theorem sessions_follow_history:
  assumes "wf_users db0" "ad_sessions db0 = []" and "inj_on (cr_hashToken c) S" "raws_of xs \<subseteq> S" "raw \<in> S"
    and "hex_decode tok = Some raw" "ae_stmt ev 0 = None"
    and "\<forall>x \<in> set xs. ae_now (fst x) \<le> ae_now ev \<and> ae_db_now (fst x) \<le> ae_now ev"
  shows "snd (ResolveSession c ev tok (fst (auth_run c xs db0))) = Inr u \<longleftrightarrow>
    u \<in> set (identities db0) \<and> (\<exists>e. granted u raw (snd (auth_run c xs db0)) = Some e \<and> ae_now ev \<le> e)"
  by (rule session_history[OF assms])

text \<open>
  An account \<open>root\<close>, where a hash is the password itself: it logs in twice, changes the password, and
  only the token of the change still opens a session.
\<close>

definition crypt1 :: crypt where
  "crypt1 = \<lparr>cr_Compare = (=), cr_dummy = [], cr_hashToken = id\<rparr>"

definition auth_env1 :: "time \<Rightarrow> string \<Rightarrow> auth_env" where
  "auth_env1 t raw = \<lparr>ae_now = t, ae_session_now = t, ae_db_now = t, ae_rand = Inr raw, ae_Generate = Inr, ae_stmt = (\<lambda>_. None)\<rparr>"

definition root1 :: user_row where
  "root1 = \<lparr>us_ID = 1, us_Username = ''root'', us_Role = ''admin'', us_CreatedAt = 0,
     ur_password_hash = ''correct horse'', ur_failed_login_count = 0, ur_locked_until = None\<rparr>"

definition auth_db1 :: auth_db where
  "auth_db1 = \<lparr>ad_users = [root1], ad_sessions = [], ad_next_id = 2\<rparr>"

definition auth_ops1 :: "auth_step list" where
  "auth_ops1 = [(auth_env1 10 ''a'', OpLogin ''root'' ''correct horse''), (auth_env1 20 ''b'', OpLogin ''root'' ''correct horse''),
     (auth_env1 30 ''c'', OpChange 1 ''correct horse'' ''battery staple'')]"

theorem sessions_follow_history_witness:
  "\<not> (\<exists>u. snd (ResolveSession crypt1 (auth_env1 40 []) (hex_encode ''a'') (fst (auth_run crypt1 auth_ops1 auth_db1))) = Inr u)
   \<and> \<not> (\<exists>u. snd (ResolveSession crypt1 (auth_env1 40 []) (hex_encode ''b'') (fst (auth_run crypt1 auth_ops1 auth_db1))) = Inr u)
   \<and> snd (ResolveSession crypt1 (auth_env1 40 []) (hex_encode ''c'') (fst (auth_run crypt1 auth_ops1 auth_db1))) = Inr (user_of root1)"
proof -
  have wf: "wf_users auth_db1" "ad_sessions auth_db1 = []" by code_simp+
  have inj: "inj_on (cr_hashToken crypt1) UNIV" by (simp add: crypt1_def)
  have clk: "\<forall>x \<in> set auth_ops1. ae_now (fst x) \<le> ae_now (auth_env1 40 []) \<and> ae_db_now (fst x) \<le> ae_now (auth_env1 40 [])"
    by code_simp
  have st: "ae_stmt (auth_env1 40 []) 0 = None" by (simp add: auth_env1_def)
  note iff = sessions_follow_history[OF wf inj subset_UNIV UNIV_I hex_roundtrip st clk]
  have ids: "set (identities auth_db1) = {user_of root1}" by (simp add: auth_db1_def)
  have "granted (user_of root1) ''a'' (snd (auth_run crypt1 auth_ops1 auth_db1)) = None"
    "granted (user_of root1) ''b'' (snd (auth_run crypt1 auth_ops1 auth_db1)) = None"
    "granted (user_of root1) ''c'' (snd (auth_run crypt1 auth_ops1 auth_db1)) = Some (30 + SessionTTL)"
    "ae_now (auth_env1 40 []) \<le> 30 + SessionTTL"
    by code_simp+
  then show ?thesis unfolding iff ids by simp
qed

section \<open>How many passwords can be tried\<close>

text \<open>An operation compares a wrong (or the right) password with the one of the account.\<close>

definition compares :: "crypt \<Rightarrow> bool \<Rightarrow> string \<Rightarrow> auth_step \<Rightarrow> auth_db \<Rightarrow> bool" where
  "compares c right name x db = (case x of (ev, OpLogin n p) \<Rightarrow>
       n = name \<and> ae_stmt ev 0 = None \<and> (case user_where (\<lambda>u. us_Username u = name) db of
         None \<Rightarrow> False
       | Some r \<Rightarrow> \<not> locked_at (ae_now ev) r \<and> cr_Compare c (ur_password_hash r) p = right)
     | _ \<Rightarrow> False)"

fun count_compares :: "crypt \<Rightarrow> bool \<Rightarrow> string \<Rightarrow> auth_step list \<Rightarrow> auth_db \<Rightarrow> int" where
  "count_compares c right name [] db = 0"
| "count_compares c right name (x # xs) db =
     (if compares c right name x db then 1 else 0)
       + count_compares c right name xs (fst (auth_exec c (fst x) (snd x) db))"

definition guard_of :: "string \<Rightarrow> auth_db \<Rightarrow> (int \<times> time option) option" where
  "guard_of name db =
     map_option (\<lambda>r. (ur_failed_login_count r, ur_locked_until r)) (user_where (\<lambda>u. us_Username u = name) db)"

text \<open>A wrong password whose failure is not recorded, as one of the two statements that do it fails; the code ignores these errors.\<close>

definition uncounted :: "crypt \<Rightarrow> string \<Rightarrow> auth_step \<Rightarrow> auth_db \<Rightarrow> bool" where
  "uncounted c name x db \<longleftrightarrow> compares c False name x db \<and> (ae_stmt (fst x) 1 \<noteq> None \<or>
     ae_stmt (fst x) 2 \<noteq> None \<and> (case guard_of name db of None \<Rightarrow> False | Some (failed, lock) \<Rightarrow> failed + 1 \<ge> MaxFailedLogins))"

fun count_uncounted :: "crypt \<Rightarrow> string \<Rightarrow> auth_step list \<Rightarrow> auth_db \<Rightarrow> int" where
  "count_uncounted c name [] db = 0"
| "count_uncounted c name (x # xs) db =
     (if uncounted c name x db then 1 else 0) + count_uncounted c name xs (fst (auth_exec c (fst x) (snd x) db))"

lemma find_map: "List.find P (map f xs) = map_option f (List.find (P \<circ> f) xs)"
  by (induction xs) auto

lemma user_where_update:
  assumes "\<And>r. P (f r) = P r"
  shows "user_where P (update_user i f db) = map_option (\<lambda>r. if us_ID r = i then f r else r) (user_where P db)"
proof -
  have "P \<circ> (\<lambda>u. if us_ID u = i then f u else u) = P" using assms by (auto simp: fun_eq_iff)
  then show ?thesis by (simp add: user_where_def update_user_def find_map)
qed

lemma guard_of_update:
  "guard_of name (update_user i (\<lambda>u. u\<lparr>ur_password_hash := h\<rparr>) db) = guard_of name db"
  by (cases "user_where (\<lambda>u. us_Username u = name) db") (simp_all add: guard_of_def user_where_update)

lemma guard_of_users: "ad_users db' = ad_users db \<Longrightarrow> guard_of name db' = guard_of name db"
  by (simp add: guard_of_def user_where_def)

lemma guard_of_set_password [simp]: "guard_of name (set_password i h db) = guard_of name db"
  using guard_of_users[of "set_password i h db" "update_user i (\<lambda>u. u\<lparr>ur_password_hash := h\<rparr>) db" name]
  by (simp add: set_password_def delete_sessions_def guard_of_update)

lemma createSession_users: "createSession c ev k i db = (db', r) \<Longrightarrow> ad_users db' = ad_users db"
  by (auto dest!: createSession_cases dest: insert_session_result(4))

definition reset_row :: "user_row \<Rightarrow> user_row" where
  "reset_row u = u\<lparr>ur_failed_login_count := 0, ur_locked_until := None\<rparr>"

lemma reset_row_name [simp]: "us_Username (reset_row u) = us_Username u" "us_ID (reset_row u) = us_ID u"
  by (simp_all add: reset_row_def)

lemma login_finish_db:
  "fst (login_finish c ev (Some r) p db) =
      (if locked_at (ae_now ev) r then db
       else if \<not> cr_Compare c (ur_password_hash r) p then fst (login_failed ev r db)
       else fst (createSession c ev 4 (us_ID r)
         (if (ur_failed_login_count r \<noteq> 0 \<or> ur_locked_until r \<noteq> None) \<and> ae_stmt ev 3 = None
          then update_user (us_ID r) reset_row db else db)))"
  by (simp add: login_finish_def reset_row_def[abs_def] Let_def split: prod.splits sum.splits)

lemma createSession_guard: "guard_of name (fst (createSession c ev k i db)) = guard_of name db"
  using createSession_users[of c ev k i db] by (metis guard_of_users prod.collapse)

lemma exec_fst:
  "fst (auth_exec c ev (OpLogin n p) db) = fst (Login c ev n p db)"
  "fst (auth_exec c ev (OpChange i p q) db) = fst (ChangePassword c ev i p q db)"
  "fst (auth_exec c ev (OpReset n p) db) = fst (ResetPassword ev n p db)"
  "fst (auth_exec c ev (OpCreate n p) db) = fst (CreateAdmin ev n p db)"
  "fst (auth_exec c ev (OpResolve t) db) = fst (ResolveSession c ev t db)"
  "fst (auth_exec c ev (OpLogout t) db) = fst (Logout c ev t db)"
  "fst (auth_exec c ev OpPurge db) = fst (PurgeExpired ev db)"
  by (simp_all split: prod.splits sum.splits option.splits)

lemma Login_guard:
  assumes wf: "wf_users db" and row: "user_where (\<lambda>u. us_Username u = name) db = Some r"
  shows "guard_of name (fst (Login c ev name p db)) =
    (if ae_stmt ev 0 \<noteq> None \<or> locked_at (ae_now ev) r then guard_of name db
     else if \<not> cr_Compare c (ur_password_hash r) p
     then Some (if ae_stmt ev 1 \<noteq> None then (ur_failed_login_count r, ur_locked_until r)
                else if ur_failed_login_count r + 1 \<ge> MaxFailedLogins \<and> ae_stmt ev 2 = None then (0, Some (ae_now ev + LockoutDuration))
                else (ur_failed_login_count r + 1, ur_locked_until r))
     else if ae_stmt ev 3 = None then Some (0, None) else guard_of name db)"
proof -
  have g: "guard_of name db = Some (ur_failed_login_count r, ur_locked_until r)" by (simp add: guard_of_def row)
  have name: "us_Username r = name" using user_where_identity[OF row] by simp
  have "user_of r \<in> set (identities db)" using user_where_identity[OF row] by simp
  from user_where_unique[OF wf this] obtain x where x: "user_where (\<lambda>u. us_ID u = us_ID r) db = Some x" by blast
  have "x \<in> set (ad_users db)" "r \<in> set (ad_users db)" "us_ID x = us_ID r"
    using find_SomeD[OF x[unfolded user_where_def]] find_SomeD[OF row[unfolded user_where_def]] by blast+
  moreover have "inj_on us_ID (set (ad_users db))" using wf by (simp add: wf_users_def distinct_map)
  ultimately have "x = r" by (blast dest: inj_onD)
  with x have ri: "user_where (\<lambda>u. us_ID u = us_ID r) db = Some r" by simp
  have lf: "guard_of name (fst (login_failed ev r db)) =
      Some (if ae_stmt ev 1 \<noteq> None then (ur_failed_login_count r, ur_locked_until r)
            else if ur_failed_login_count r + 1 \<ge> MaxFailedLogins \<and> ae_stmt ev 2 = None then (0, Some (ae_now ev + LockoutDuration))
            else (ur_failed_login_count r + 1, ur_locked_until r))"
    by (auto simp: login_failed_def Let_def guard_of_def user_where_update ri row)
  have reset: "guard_of name (update_user (us_ID r) reset_row db) = Some (0, None)"
    by (simp add: guard_of_def user_where_update row) (simp add: reset_row_def)
  show ?thesis
  proof (cases "ae_stmt ev 0")
    case None
    then have "fst (Login c ev name p db) = fst (login_finish c ev (Some r) p db)" by (simp add: Login_def row)
    then show ?thesis using None by (simp add: login_finish_db lf createSession_guard reset g)
  qed (simp add: Login_def)
qed

lemma guard_of_other_id:
  assumes "\<And>r. user_where (\<lambda>u. us_Username u = name) db = Some r \<Longrightarrow> us_ID r \<noteq> i" "\<And>u. us_Username (f u) = us_Username u"
  shows "guard_of name (update_user i f db) = guard_of name db"
  using assms by (cases "user_where (\<lambda>u. us_Username u = name) db") (simp_all add: guard_of_def user_where_update)

lemma Login_other_guard:
  assumes wf: "wf_users db" and n: "n \<noteq> name"
  shows "guard_of name (fst (Login c ev n p db)) = guard_of name db"
proof (cases "user_where (\<lambda>u. us_Username u = n) db")
  case None
  then show ?thesis by (simp add: Login_def login_finish_def split: option.splits)
next
  case (Some r)
  have id: "us_ID x \<noteq> us_ID r" if "user_where (\<lambda>u. us_Username u = name) db = Some x" for x
    using wf_users_unique[OF wf, of "user_of x" "user_of r"] user_where_identity[OF that] user_where_identity[OF Some] n
    by simp
  have upd: "guard_of name (update_user (us_ID r) f d) = guard_of name d"
    if "\<And>u. us_Username (f u) = us_Username u"
      "\<And>x. user_where (\<lambda>u. us_Username u = name) d = Some x \<Longrightarrow> us_ID x \<noteq> us_ID r" for f d
    using guard_of_other_id[OF that(2) that(1)] .
  define f1 where "f1 = (\<lambda>u :: user_row. u\<lparr>ur_failed_login_count := ur_failed_login_count u + 1\<rparr>)"
  have id1: "us_ID x \<noteq> us_ID r" if "user_where (\<lambda>u. us_Username u = name) (update_user (us_ID r) f1 db) = Some x" for x
    using that id by (auto simp: user_where_update f1_def split: if_splits)
  have lf: "guard_of name (fst (login_failed ev r db)) = guard_of name db"
    using id id1 by (auto simp: login_failed_def Let_def upd f1_def split: option.splits)
  have "guard_of name (fst (login_finish c ev (Some r) p db)) = guard_of name db"
    using id by (simp add: login_finish_db lf createSession_guard upd)
  then show ?thesis using Some by (simp add: Login_def split: option.splits)
qed

lemma exec_other_guard:
  assumes "wf_users db" "\<nexists>p. op = OpLogin name p"
  shows "guard_of name (fst (auth_exec c ev op db)) = guard_of name db"
proof (cases op)
  case (OpLogin n p)
  then show ?thesis using Login_other_guard[OF assms(1), of n name c ev p] assms(2) by (simp only: exec_fst) blast
next
  case (OpChange i p q)
  have ins: "guard_of name db' = guard_of name db" if "insert_session x (set_password i h db) = Inr db'" for x h db'
    using guard_of_users[OF insert_session_result(4)[OF that]] by simp
  show ?thesis unfolding OpChange exec_fst by (simp add: ChangePassword_def ins split: option.splits sum.splits)
next
  case (OpReset n p)
  then show ?thesis unfolding OpReset exec_fst by (simp add: ResetPassword_def split: option.splits sum.splits)
next
  case (OpCreate n p)
  have "fst (CreateAdmin ev n p db) = db"
    using assms(1) by (simp add: CreateAdmin_def wf_users_def split: option.splits sum.splits)
  then show ?thesis unfolding OpCreate exec_fst by simp
next
  case (OpResolve t)
  have "ad_users (fst (ResolveSession c ev t db)) = ad_users db"
    using Resolve_deletes[of c ev t db] by (cases "fst (ResolveSession c ev t db) = db") (auto simp: delete_sessions_def)
  then show ?thesis unfolding OpResolve exec_fst by (rule guard_of_users)
next
  case (OpLogout t)
  show ?thesis unfolding OpLogout exec_fst
    by (rule guard_of_users) (simp add: Logout_def delete_sessions_def split: option.splits)
next
  case OpPurge
  show ?thesis unfolding OpPurge exec_fst
    by (rule guard_of_users) (simp add: PurgeExpired_def delete_sessions_def split: option.splits)
qed

lemma exec_identities:
  assumes "wf_users db"
  shows "identities (fst (auth_exec c ev op db)) = identities db"
proof (cases op)
  case (OpLogin n p)
  have lf: "identities (fst (login_failed ev r db)) = identities db" for r
    using login_failed_sessions[of ev r db] by (metis prod.collapse)
  have cs: "identities (fst (createSession c ev 4 i d)) = identities d" for i d
    using createSession_users[of c ev 4 i d] by (metis prod.collapse)
  have "identities (fst (login_finish c ev row p db)) = identities db" for row
    by (cases row) (simp_all add: login_finish_db lf cs identities_update reset_row_def, simp add: login_finish_def)
  then show ?thesis unfolding OpLogin exec_fst by (simp add: Login_def split: option.splits)
next
  case (OpChange i p q)
  have ins: "identities db' = identities db" if "insert_session x (set_password i h db) = Inr db'" for x h db'
    using insert_session_result(4)[OF that] by simp
  show ?thesis unfolding OpChange exec_fst by (simp add: ChangePassword_def ins split: option.splits sum.splits)
next
  case (OpReset n p)
  then show ?thesis unfolding OpReset exec_fst by (simp add: ResetPassword_def split: option.splits sum.splits)
next
  case (OpCreate n p)
  have "fst (CreateAdmin ev n p db) = db"
    using assms by (simp add: CreateAdmin_def wf_users_def split: option.splits sum.splits)
  then show ?thesis unfolding OpCreate exec_fst by simp
next
  case (OpResolve t)
  show ?thesis unfolding OpResolve exec_fst
    using Resolve_deletes[of c ev t db] by (cases "fst (ResolveSession c ev t db) = db") (auto simp: delete_sessions_def)
next
  case (OpLogout t)
  show ?thesis unfolding OpLogout exec_fst by (simp add: Logout_def delete_sessions_def split: option.splits)
next
  case OpPurge
  show ?thesis unfolding OpPurge exec_fst by (simp add: PurgeExpired_def delete_sessions_def split: option.splits)
qed

text \<open>
  The state of the limiter of an account: \<open>g\<close> wrong and \<open>s\<close> right passwords were compared since \<open>t0\<close>, \<open>w\<close> wrong ones were not
  recorded, the account was locked \<open>k\<close> times.
\<close>

definition limiter :: "time \<Rightarrow> time \<Rightarrow> int \<Rightarrow> int \<Rightarrow> int \<Rightarrow> int \<Rightarrow> int \<times> time option \<Rightarrow> bool" where
  "limiter t0 now g s w k r \<longleftrightarrow> (case r of (failed, lock) \<Rightarrow>
     0 \<le> failed \<and> 0 \<le> k \<and> 0 \<le> s \<and> t0 \<le> now \<and> g \<le> 10 * k + min failed 9 + 9 * s + w
     \<and> (failed > 0 \<longrightarrow> t0 + k * LockoutDuration \<le> now)
     \<and> (k \<ge> 1 \<longrightarrow> t0 + (k - 1) * LockoutDuration \<le> now)
     \<and> (t0 + k * LockoutDuration \<le> now \<or> (\<exists>u. lock = Some u \<and> t0 + k * LockoutDuration \<le> u)))"

lemma limiter_later: "\<lbrakk>limiter t0 now g s w k r; now \<le> now'\<rbrakk> \<Longrightarrow> limiter t0 now' g s w k r"
  by (auto simp: limiter_def split: prod.splits)

lemma limiter_wrong:
  assumes "limiter t0 now g s w k (failed, lock)" "now \<le> now'" "\<forall>u. lock = Some u \<longrightarrow> u \<le> now'"
  shows "failed + 1 \<ge> MaxFailedLogins \<Longrightarrow> limiter t0 now' (g + 1) s w (k + 1) (0, Some (now' + LockoutDuration))"
    "\<not> failed + 1 \<ge> MaxFailedLogins \<Longrightarrow> limiter t0 now' (g + 1) s w k (failed + 1, lock)"
    "limiter t0 now' (g + 1) s (w + 1) k (failed, lock)" "limiter t0 now' (g + 1) s (w + 1) k (failed + 1, lock)"
proof -
  have "t0 + k * LockoutDuration \<le> now'" using assms by (auto simp: limiter_def)
  then show "failed + 1 \<ge> MaxFailedLogins \<Longrightarrow> limiter t0 now' (g + 1) s w (k + 1) (0, Some (now' + LockoutDuration))"
    "\<not> failed + 1 \<ge> MaxFailedLogins \<Longrightarrow> limiter t0 now' (g + 1) s w k (failed + 1, lock)"
    "limiter t0 now' (g + 1) s (w + 1) k (failed, lock)" "limiter t0 now' (g + 1) s (w + 1) k (failed + 1, lock)"
    using assms by (auto simp: limiter_def MaxFailedLogins_def algebra_simps min_def split: if_splits)
qed

lemma limiter_right:
  assumes "limiter t0 now g s w k (failed, lock)" "now \<le> now'" "\<forall>u. lock = Some u \<longrightarrow> u \<le> now'"
  shows "limiter t0 now' g (s + 1) w k (0, None)" "limiter t0 now' g (s + 1) w k (failed, lock)"
proof -
  have "t0 + k * LockoutDuration \<le> now'" using assms by (auto simp: limiter_def)
  then show "limiter t0 now' g (s + 1) w k (0, None)" "limiter t0 now' g (s + 1) w k (failed, lock)"
    using assms by (auto simp: limiter_def min_def split: if_splits)
qed

lemma limiter_bound:
  assumes "limiter t0 now g s w k r"
  shows "g \<le> 10 * ((now - t0) div LockoutDuration + 1) + 9 * s + w"
proof -
  have pos: "LockoutDuration > 0" by (simp add: LockoutDuration_def duration_defs)
  obtain failed lock where r: "r = (failed, lock)" by (cases r)
  have le: "j \<le> (now - t0) div LockoutDuration" if "t0 + j * LockoutDuration \<le> now" for j
  proof -
    have "j * LockoutDuration div LockoutDuration \<le> (now - t0) div LockoutDuration"
      using that pos by (intro zdiv_mono1) simp_all
    then show ?thesis using pos by simp
  qed
  show ?thesis
  proof (cases "failed > 0")
    case True
    then have "k \<le> (now - t0) div LockoutDuration" using assms r by (intro le) (simp add: limiter_def)
    then show ?thesis using assms r by (auto simp: limiter_def MaxFailedLogins_def)
  next
    case False
    have "k - 1 \<le> (now - t0) div LockoutDuration"
    proof (cases "k \<ge> 1")
      case True
      then show ?thesis using assms r by (intro le) (simp add: limiter_def)
    next
      case False
      have "t0 \<le> now" using assms r by (simp add: limiter_def)
      then have "0 \<le> (now - t0) div LockoutDuration" using pos by (simp add: pos_imp_zdiv_nonneg_iff)
      with False show ?thesis by simp
    qed
    then show ?thesis using assms r False by (auto simp: limiter_def)
  qed
qed

lemma exec_limiter:
  assumes lim: "limiter t0 now g s w k r" and guard: "guard_of name db = Some r" and wf: "wf_users db" and time: "now \<le> ae_now ev"
  shows "\<exists>k' r'. guard_of name (fst (auth_exec c ev op db)) = Some r' \<and>
    limiter t0 (ae_now ev) (g + (if compares c False name (ev, op) db then 1 else 0))
      (s + (if compares c True name (ev, op) db then 1 else 0)) (w + (if uncounted c name (ev, op) db then 1 else 0)) k' r'"
proof -
  obtain row where row: "user_where (\<lambda>u. us_Username u = name) db = Some row"
      and r: "r = (ur_failed_login_count row, ur_locked_until row)"
    using guard by (auto simp: guard_of_def)
  note later = limiter_later[OF lim time]
  show ?thesis
  proof (cases "\<exists>p. op = OpLogin name p \<and> ae_stmt ev 0 = None \<and> \<not> locked_at (ae_now ev) row")
    case False
    have "guard_of name (fst (auth_exec c ev op db)) = Some r"
    proof (cases "\<exists>p. op = OpLogin name p")
      case True
      then obtain p where p: "op = OpLogin name p" by blast
      show ?thesis unfolding p exec_fst Login_guard[OF wf row] using False p guard by auto
    next
      case other: False
      then show ?thesis using exec_other_guard[OF wf, of op name c ev] guard by simp
    qed
    moreover have "\<not> compares c b name (ev, op) db" for b
      using False row by (auto simp: compares_def split: auth_op.splits)
    ultimately show ?thesis using later by (auto simp: uncounted_def)
  next
    case True
    then obtain p where p: "op = OpLogin name p" "ae_stmt ev 0 = None" "\<not> locked_at (ae_now ev) row" by blast
    have cmp: "compares c b name (ev, op) db \<longleftrightarrow> cr_Compare c (ur_password_hash row) p = b" for b
      using p row by (simp add: compares_def)
    have unlocked: "\<forall>u. ur_locked_until row = Some u \<longrightarrow> u \<le> ae_now ev" using p(3) by (auto simp: locked_at_def)
    note wrong = limiter_wrong[OF lim[unfolded r] time unlocked] and right = limiter_right[OF lim[unfolded r] time unlocked]
    note g = Login_guard[OF wf row, of c ev p]
    show ?thesis
    proof (cases "cr_Compare c (ur_password_hash row) p")
      case True
      then show ?thesis using right p cmp guard
        by (cases "ae_stmt ev 3") (auto simp: uncounted_def p(1) exec_fst g r simp del: auth_exec.simps)
    next
      case False
      let ?g' = "if ae_stmt ev 1 \<noteq> None then (ur_failed_login_count row, ur_locked_until row)
        else if ur_failed_login_count row + 1 \<ge> MaxFailedLogins \<and> ae_stmt ev 2 = None then (0, Some (ae_now ev + LockoutDuration))
        else (ur_failed_login_count row + 1, ur_locked_until row)"
      have after: "guard_of name (fst (auth_exec c ev op db)) = Some ?g'"
        unfolding p(1) exec_fst g using False p(2,3) by simp
      have "\<exists>k'. limiter t0 (ae_now ev) (g + 1) s (w + (if ae_stmt ev 1 \<noteq> None \<or> ae_stmt ev 2 \<noteq> None \<and> ur_failed_login_count row + 1 \<ge> MaxFailedLogins then 1 else 0)) k' ?g'"
        using wrong by (cases "ae_stmt ev 1"; cases "ae_stmt ev 2"; cases "ur_failed_login_count row + 1 \<ge> MaxFailedLogins") auto
      with after cmp False guard r show ?thesis by (auto simp: uncounted_def)
    qed
  qed
qed

lemma run_limiter:
  assumes "limiter t0 now g s w k r" "guard_of name db = Some r" "wf_users db"
    and "sorted (map (\<lambda>x. ae_now (fst x)) xs)" "\<forall>x \<in> set xs. now \<le> ae_now (fst x) \<and> ae_now (fst x) \<le> t1" "now \<le> t1"
  shows "\<exists>k' r'. limiter t0 t1 (g + count_compares c False name xs db) (s + count_compares c True name xs db)
    (w + count_uncounted c name xs db) k' r'"
  using assms
proof (induction xs arbitrary: now g s w k r db)
  case Nil
  then show ?case using limiter_later by fastforce
next
  case (Cons x xs)
  obtain ev op where x: "x = (ev, op)" by (cases x)
  let ?db = "fst (auth_exec c ev op db)"
  let ?g = "if compares c False name x db then 1 else 0 :: int" and ?s = "if compares c True name x db then 1 else 0 :: int"
    and ?w = "if uncounted c name x db then 1 else 0 :: int"
  obtain k' r' where step: "guard_of name ?db = Some r'" "limiter t0 (ae_now ev) (g + ?g) (s + ?s) (w + ?w) k' r'"
    using exec_limiter[OF Cons.prems(1-3), of ev c op] Cons.prems(5) x by auto
  have "wf_users ?db" using wf_users_identities[OF exec_identities[OF Cons.prems(3)]] Cons.prems(3) by blast
  from Cons.IH[OF step(2,1) this] Cons.prems(4-6)
  show ?case by (auto simp: x add.assoc simp del: auth_exec.simps)
qed

text \<open>
  C8. Between two instants the wrong passwords that are compared for an account are at most ten for each lockout of fifteen
  minutes that fits in between, plus ten, plus nine for each right password, plus those whose failure could not be recorded because
  the database refused, whatever else is done to the account and its sessions. Operations run one after the other.
\<close>

theorem guesses_bounded:
  assumes "wf_users db" "guard_of name db = Some (f0, lock)" "0 \<le> f0"
    and "sorted (map (\<lambda>x. ae_now (fst x)) xs)" "\<forall>x \<in> set xs. t0 \<le> ae_now (fst x) \<and> ae_now (fst x) \<le> t1" "t0 \<le> t1"
  shows "count_compares c False name xs db \<le>
    10 * ((t1 - t0) div LockoutDuration + 1) + 9 * count_compares c True name xs db + count_uncounted c name xs db"
proof -
  have "limiter t0 t0 0 0 0 0 (f0, lock)" using assms(3) by (simp add: limiter_def)
  from run_limiter[OF this assms(2,1,4,5,6), where c = c] obtain k r
    where "limiter t0 t1 (count_compares c False name xs db) (count_compares c True name xs db) (count_uncounted c name xs db) k r" by auto
  then show ?thesis by (rule limiter_bound)
qed

text \<open>Thirteen wrong passwords, one a minute: ten are compared, then the account is locked.\<close>

definition attack1 :: "auth_step list" where
  "attack1 = map (\<lambda>i. (auth_env1 (i * Minute) [], OpLogin ''root'' ''guess'')) [1, 2, 3, 4, 5, 6, 7, 8, 9, 10, 11, 12, 13]"

theorem guesses_bounded_witness:
  "count_compares crypt1 False ''root'' attack1 auth_db1 = 10 \<and>
   count_compares crypt1 False ''root'' attack1 auth_db1 \<le> 10 * ((13 * Minute - 0) div LockoutDuration + 1)"
proof
  have "wf_users auth_db1" "guard_of ''root'' auth_db1 = Some (0, None)" "sorted (map (\<lambda>x. ae_now (fst x)) attack1)"
    "\<forall>x \<in> set attack1. 0 \<le> ae_now (fst x) \<and> ae_now (fst x) \<le> 13 * Minute" "(0::int) \<le> 13 * Minute"
    by code_simp+
  moreover have "count_uncounted crypt1 ''root'' attack1 auth_db1 = 0" by code_simp
  moreover have "count_compares crypt1 True ''root'' attack1 auth_db1 = 0" by code_simp
  ultimately show "count_compares crypt1 False ''root'' attack1 auth_db1 \<le> 10 * ((13 * Minute - 0) div LockoutDuration + 1)"
    using guesses_bounded[of auth_db1 "''root''" 0 None attack1 0 "13 * Minute" crypt1] by simp
  show "count_compares crypt1 False ''root'' attack1 auth_db1 = 10" by code_simp
qed

section \<open>Requests that overlap\<close>

text \<open>
  The bound needs operations that run one after the other. Requests that read the row before the first of
  them has counted its failure are all compared: after any number of wrong passwords the right one is still
  accepted.
\<close>

lemma overlapping_guesses_unlimited:
  assumes "\<not> locked_at (ae_now ev) r" "cr_Compare c (ur_password_hash r) p" "ae_rand ev = Inr raw" "ae_stmt ev 4 = None"
    and "us_ID r \<in> us_ID ` set (ad_users db)" "cr_hashToken c raw \<notin> se_token ` set (ad_sessions db)"
    and "\<forall>w \<in> set ws. \<not> cr_Compare c (ur_password_hash r) w"
  shows "snd (login_finish c ev (Some r) p (fold (\<lambda>w d. fst (login_finish c ev (Some r) w d)) ws db))
    = Inr (user_of r, hex_encode raw)"
  using assms(5-7)
proof (induction ws arbitrary: db)
  case Nil
  have created: "snd (createSession c ev 4 (us_ID r) d) = Inr (hex_encode raw)"
    if "us_ID r \<in> us_ID ` set (ad_users d)" "cr_hashToken c raw \<notin> se_token ` set (ad_sessions d)" for d
  proof -
    have "\<not> list_ex (\<lambda>x. se_token x = cr_hashToken c raw) (ad_sessions d)" "list_ex (\<lambda>u. us_ID u = us_ID r) (ad_users d)"
      using that unfolding list_ex_iff by (auto, metis imageI)
    then show ?thesis using assms(3,4) by (simp add: createSession_def insert_session_def)
  qed
  have "us_ID ` set (ad_users (update_user (us_ID r) reset_row db)) = us_ID ` set (ad_users db)"
    unfolding update_user_def by (simp add: image_image if_distrib[of us_ID] del: if_image_distrib cong: if_cong)
  then have "snd (createSession c ev 4 (us_ID r) (update_user (us_ID r) reset_row db)) = Inr (hex_encode raw)"
    using Nil by (intro created) (simp_all add: update_user_def)
  moreover have "snd (createSession c ev 4 (us_ID r) db) = Inr (hex_encode raw)" using Nil by (intro created)
  ultimately show ?case
    using assms(1,2) by (auto simp: login_finish_def reset_row_def[abs_def] Let_def split: prod.splits)
next
  case (Cons w ws)
  have "fst (login_finish c ev (Some r) w db) = fst (login_failed ev r db)"
    using Cons.prems(3) assms(1) by (simp add: login_finish_db)
  moreover have "ad_sessions (fst (login_failed ev r db)) = ad_sessions db"
    "identities (fst (login_failed ev r db)) = identities db"
    using login_failed_sessions[of ev r db] by (metis prod.collapse)+
  moreover have ids: "us_ID ` set (ad_users d) = us_ID ` set (identities d)" for d by force
  have "us_ID ` set (ad_users (fst (login_failed ev r db))) = us_ID ` set (ad_users db)"
    unfolding ids calculation(3) ..
  moreover have "\<forall>w \<in> set ws. \<not> cr_Compare c (ur_password_hash r) w" using Cons.prems(3) by simp
  ultimately show ?case using Cons.IH[of "fst (login_failed ev r db)"] Cons.prems(1,2) by simp
qed

text \<open>
  And a login that read the row before the password was changed opens a session with the old password after the
  change has ended all sessions.
\<close>

lemma login_with_old_password_after_change:
  "(let row = user_where (\<lambda>u. us_Username u = ''root'') auth_db1;
        db = fst (ChangePassword crypt1 (auth_env1 20 ''c'') 1 ''correct horse'' ''battery staple'' auth_db1);
        (db', r) = login_finish crypt1 (auth_env1 10 ''d'') row ''correct horse'' db
    in snd (ResolveSession crypt1 (auth_env1 30 []) (hex_encode ''d'') db') = Inr (user_of root1))"
  by code_simp

end
