(* ===== verification/Api_Access.thy ===== *)
theory Api_Access
  imports Auth Host_Store
begin

text \<open>
  Who may call what: the middleware and the routes of \<open>internal/server/api\<close> (\<open>auth.go\<close>, \<open>csrf.go\<close>,
  \<open>security.go\<close>, \<open>limiter.go\<close>, \<open>router.go\<close>). A handler is a function of request, context and state; the middleware
  are functions from handlers to handlers, composed as \<open>New\<close> composes them. The results: a handler behind the user group runs
  only for a session that the history of accounts grants (or the administrator's token) and with a matching CSRF token;
  the address of a client cannot be forged through trusted proxies.
\<close>

section \<open>Requests and answers\<close>

text \<open>
  A request as \<open>net/http\<close> presents it, with all lines of each header; \<open>w_login\<close> and \<open>w_change\<close> are the decoded bodies
  (\<open>None\<close> if the JSON is invalid).
\<close>

record web_request =
  w_Method :: string
  w_Path :: string
  w_Headers :: "string \<Rightarrow> string list"
  w_Cookie :: "string \<Rightarrow> string option"
  w_TLS :: bool
  w_RemoteAddr :: string
  w_login :: "(string \<times> string) option"
  w_change :: "(string \<times> string) option"

text \<open>\<open>Header.Get\<close>: the first line of a header; an absent one reads as the empty text.\<close>

definition w_Header :: "web_request \<Rightarrow> string \<Rightarrow> string" where
  "w_Header rq n = (case w_Headers rq n of [] \<Rightarrow> [] | v # vs \<Rightarrow> v)"

record cookie =
  ck_Name :: string
  ck_Value :: string
  ck_Expires :: "time option"
  ck_MaxAge :: int
  ck_HttpOnly :: bool
  ck_Secure :: bool
  ck_SameSite :: string

text \<open>An answer; \<open>rs_actor\<close> is the user that \<open>recordActor\<close> stored for the audit log.\<close>

record response =
  rs_status :: int
  rs_body :: string
  rs_cookies :: "cookie list"
  rs_retry :: string
  rs_actor :: "user option"

definition reply :: "int \<Rightarrow> string \<Rightarrow> response" where
  "reply st b = \<lparr>rs_status = st, rs_body = b, rs_cookies = [], rs_retry = [], rs_actor = None\<rparr>"

definition add_cookie :: "cookie \<Rightarrow> response \<Rightarrow> response" where
  "add_cookie k r = r\<lparr>rs_cookies := k # rs_cookies r\<rparr>"

definition recordActor :: "user \<Rightarrow> response \<Rightarrow> response" where
  "recordActor u r = r\<lparr>rs_actor := (case rs_actor r of None \<Rightarrow> Some u | Some v \<Rightarrow> Some v)\<rparr>"

text \<open>A row of the table \<open>audit_log\<close>.\<close>

record audit_row =
  au_actor :: string
  au_method :: string
  au_path :: string
  au_remote_ip :: string
  au_status :: int

text \<open>The state of the server: accounts, hosts, the audit log, and whatever else the handlers work on.\<close>

record web =
  we_auth :: auth_db
  we_hosts :: hosts
  we_audit :: "audit_row list"

record web_ctx =
  cx_user :: "user option"
  cx_host :: "int option"

type_synonym 's handler = "web_request \<Rightarrow> web_ctx \<Rightarrow> 's web_scheme \<Rightarrow> 's web_scheme \<times> response"

text \<open>
  Configuration, and the environment of one request: that of the accounts for the first operation and for a
  second one (\<open>setup\<close>), that of the hosts, the answer of the limiters, fresh random bytes, and whether the audit log can be written.
  \<open>net.SplitHostPort\<close> on the remote address is a parameter (\<open>None\<close> for its error).
\<close>

record web_env =
  wv_crypt :: crypt
  wv_auth :: auth_env
  wv_auth2 :: auth_env
  wv_sha :: "string \<Rightarrow> string"
  wv_hosts :: henv
  wv_auth_allowed :: bool
  wv_ingest_allowed :: bool
  wv_csrf_rand :: "string option"
  wv_AdminToken :: string
  wv_Secure :: bool
  wv_trusted :: "pfx list"
  wv_splitHost :: "string \<Rightarrow> string option"
  wv_audit :: bool

section \<open>Cookies\<close>

definition sessionCookie :: string where "sessionCookie = ''sm_session''"
definition csrfCookie :: string where "csrfCookie = ''sm_csrf''"
definition csrfHeader :: string where "csrfHeader = ''X-CSRF-Token''"

definition setSessionCookie :: "web_env \<Rightarrow> web_request \<Rightarrow> string \<Rightarrow> response \<Rightarrow> response" where
  "setSessionCookie ev rq token =
     add_cookie \<lparr>ck_Name = sessionCookie, ck_Value = token, ck_Expires = Some (ae_session_now (wv_auth ev) + SessionTTL),
       ck_MaxAge = go_div SessionTTL Second, ck_HttpOnly = True, ck_Secure = (wv_Secure ev \<or> w_TLS rq), ck_SameSite = ''Lax''\<rparr>"

definition clearSessionCookie :: "web_env \<Rightarrow> web_request \<Rightarrow> response \<Rightarrow> response" where
  "clearSessionCookie ev rq =
     add_cookie \<lparr>ck_Name = sessionCookie, ck_Value = [], ck_Expires = Some unix_epoch,
       ck_MaxAge = - 1, ck_HttpOnly = True, ck_Secure = (wv_Secure ev \<or> w_TLS rq), ck_SameSite = ''Lax''\<rparr>"

definition setCSRFCookie :: "web_env \<Rightarrow> response \<Rightarrow> response" where
  "setCSRFCookie ev r = (case wv_csrf_rand ev of None \<Rightarrow> r
   | Some raw \<Rightarrow> add_cookie \<lparr>ck_Name = csrfCookie, ck_Value = hex_encode raw, ck_Expires = None, ck_MaxAge = 0,
       ck_HttpOnly = False, ck_Secure = wv_Secure ev, ck_SameSite = ''Strict''\<rparr> r)"

section \<open>Middleware\<close>

text \<open>A method is a token of ASCII characters (\<open>net/http\<close> refuses others), so upper case is that of ASCII.\<close>

definition csrfMethodSafe :: "string \<Rightarrow> bool" where
  "csrfMethodSafe m \<longleftrightarrow> map (\<lambda>c. if 97 \<le> byte c \<and> byte c \<le> 122 then char_of (byte c - 32) else c) m
     \<in> {''GET'', ''HEAD'', ''OPTIONS''}"

definition csrfIssuer :: "web_env \<Rightarrow> 's handler \<Rightarrow> 's handler" where
  "csrfIssuer ev h rq cx s =
     (case h rq cx s of (s', r) \<Rightarrow>
        (s', if w_Method rq \<in> {''GET'', ''HEAD'', ''OPTIONS''} \<and> (w_Cookie rq csrfCookie = None \<or> w_Cookie rq csrfCookie = Some [])
             then setCSRFCookie ev r else r))"

definition csrfVerifier :: "'s handler \<Rightarrow> 's handler" where
  "csrfVerifier h rq cx s =
     (if csrfMethodSafe (w_Method rq) then h rq cx s
      else if w_Header rq ''X-Admin-Token'' \<noteq> [] \<or> w_Header rq ''X-Agent-Token'' \<noteq> [] then h rq cx s
      else (case w_Cookie rq csrfCookie of None \<Rightarrow> (s, reply 403 ''missing csrf cookie'')
      | Some v \<Rightarrow>
          if v = [] then (s, reply 403 ''missing csrf cookie'')
          else if w_Header rq csrfHeader = [] then (s, reply 403 ''missing csrf header'')
          else if w_Header rq csrfHeader \<noteq> v then (s, reply 403 ''csrf token mismatch'')
          else h rq cx s))"

definition admin_user :: user where
  "admin_user = \<lparr>us_ID = 0, us_Username = ''admin'', us_Role = ''admin'', us_CreatedAt = zero_time\<rparr>"

definition requireUser :: "web_env \<Rightarrow> 's handler \<Rightarrow> 's handler" where
  "requireUser ev h rq cx s =
     (let t = w_Header rq ''X-Admin-Token'' in
      if t \<noteq> [] \<and> wv_AdminToken ev \<noteq> [] \<and> t = wv_AdminToken ev
      then (case h rq (cx\<lparr>cx_user := Some admin_user\<rparr>) s of (s', r) \<Rightarrow> (s', recordActor admin_user r))
      else (case w_Cookie rq sessionCookie of None \<Rightarrow> (s, reply 401 ''not authenticated'')
      | Some v \<Rightarrow> (case ResolveSession (wv_crypt ev) (wv_auth ev) v (we_auth s) of
            (a, Inl e) \<Rightarrow> (s\<lparr>we_auth := a\<rparr>, clearSessionCookie ev rq (reply 401 ''session invalid''))
          | (a, Inr u) \<Rightarrow> (case h rq (cx\<lparr>cx_user := Some u\<rparr>) (s\<lparr>we_auth := a\<rparr>) of (s', r) \<Rightarrow> (s', recordActor u r)))))"

definition requireAdmin :: "'s handler \<Rightarrow> 's handler" where
  "requireAdmin h rq cx s = (case cx_user cx of None \<Rightarrow> (s, reply 401 ''not authenticated'')
   | Some u \<Rightarrow> if us_Role u \<noteq> ''admin'' then (s, reply 403 ''admin role required'') else h rq cx s)"

definition agent_error :: "int \<Rightarrow> string" where
  "agent_error st = (if st = 410 then ''host deregistered'' else if st = 403 then ''host archived''
     else if st = 401 then ''unknown agent token'' else ''token lookup failed'')"

definition agentToken :: "web_env \<Rightarrow> 's handler \<Rightarrow> 's handler" where
  "agentToken ev h rq cx s =
     (case requireAgentToken (wv_sha ev) (wv_hosts ev) (w_Header rq ''X-Agent-Token'') (we_hosts s) of
        (hs, Inl st) \<Rightarrow> (s\<lparr>we_hosts := hs\<rparr>,
          reply st (if w_Header rq ''X-Agent-Token'' = [] then ''missing agent token'' else agent_error st))
      | (hs, Inr i) \<Rightarrow> h rq (cx\<lparr>cx_host := Some i\<rparr>) (s\<lparr>we_hosts := hs\<rparr>))"

definition authRateLimiter :: "web_env \<Rightarrow> 's handler \<Rightarrow> 's handler" where
  "authRateLimiter ev h rq cx s =
     (if \<not> wv_auth_allowed ev then (s, (reply 429 ''too many attempts'')\<lparr>rs_retry := ''30''\<rparr>) else h rq cx s)"

definition ingestLimiter :: "web_env \<Rightarrow> 's handler \<Rightarrow> 's handler" where
  "ingestLimiter ev h rq cx s =
     (if w_Header rq ''X-Agent-Token'' = [] then h rq cx s
      else if \<not> wv_ingest_allowed ev then (s, (reply 429 ''rate limit'')\<lparr>rs_retry := ''1''\<rparr>) else h rq cx s)"

section \<open>Handlers of accounts\<close>

fun auth_err_text :: "auth_err \<Rightarrow> string" where
  "auth_err_text ErrInvalidCredentials = ''invalid credentials''"
| "auth_err_text ErrNoUser = ''no user''"
| "auth_err_text ErrSessionExpired = ''session expired''"
| "auth_err_text ErrAlreadyInitialized = ''admin already exists''"
| "auth_err_text ErrAccountLocked = ''account temporarily locked''"
| "auth_err_text ErrWeakPassword = ''password is too weak''"
| "auth_err_text (ErrText e) = e"
| "auth_err_text (auth_err.ErrDB e) = e"

text \<open>Bodies of answers other than errors are JSON texts; here they are the values they encode.\<close>

definition meResponse :: "user \<Rightarrow> string" where "meResponse u = us_Username u @ '' '' @ us_Role u"

definition authStatusHandler :: "web_env \<Rightarrow> 's handler" where
  "authStatusHandler ev rq cx s = (case HasAnyUser (wv_auth ev) (we_auth s) of
     Inl e \<Rightarrow> (s, reply 500 (auth_err_text e))
   | Inr has \<Rightarrow> (s, reply 200 (if has then ''initialized'' else [])))"

definition setupHandler :: "web_env \<Rightarrow> 's handler" where
  "setupHandler ev rq cx s = (case w_login rq of None \<Rightarrow> (s, reply 400 ''invalid json'')
   | Some (name, pw) \<Rightarrow> (case CreateAdmin (wv_auth ev) name pw (we_auth s) of
       (a, Inl e) \<Rightarrow> (s\<lparr>we_auth := a\<rparr>,
          if e = ErrAlreadyInitialized then reply 409 ''admin already exists'' else reply 400 (auth_err_text e))
     | (a, Inr u) \<Rightarrow> (case Login (wv_crypt ev) (wv_auth2 ev) (us_Username u) pw a of
         (a', Inl e) \<Rightarrow> (s\<lparr>we_auth := a'\<rparr>, reply 500 (auth_err_text e))
       | (a', Inr (_, token)) \<Rightarrow>
           (s\<lparr>we_auth := a'\<rparr>, setSessionCookie ev rq token (recordActor u (reply 201 (meResponse u)))))))"

definition loginHandler :: "web_env \<Rightarrow> 's handler" where
  "loginHandler ev rq cx s = (case w_login rq of None \<Rightarrow> (s, reply 400 ''invalid json'')
   | Some (name, pw) \<Rightarrow> (case Login (wv_crypt ev) (wv_auth ev) name pw (we_auth s) of
       (a, Inl e) \<Rightarrow> (s\<lparr>we_auth := a\<rparr>,
          if e = ErrInvalidCredentials then reply 401 ''invalid credentials''
          else if e = ErrAccountLocked
          then (reply 423 ''account temporarily locked due to repeated failed logins'')\<lparr>rs_retry := ''900''\<rparr>
          else reply 500 (auth_err_text e))
     | (a, Inr (u, token)) \<Rightarrow>
         (s\<lparr>we_auth := a\<rparr>, setSessionCookie ev rq token (recordActor u (reply 200 (meResponse u))))))"

definition logoutHandler :: "web_env \<Rightarrow> 's handler" where
  "logoutHandler ev rq cx s =
     (case w_Cookie rq sessionCookie of
        None \<Rightarrow> (s, clearSessionCookie ev rq (reply 204 []))
      | Some v \<Rightarrow> (s\<lparr>we_auth := fst (Logout (wv_crypt ev) (wv_auth ev) v (we_auth s))\<rparr>, clearSessionCookie ev rq (reply 204 [])))"

definition changePasswordHandler :: "web_env \<Rightarrow> 's handler" where
  "changePasswordHandler ev rq cx s = (case cx_user cx of None \<Rightarrow> (s, reply 401 ''not authenticated'')
   | Some u \<Rightarrow>
      if us_ID u = 0
      then (s, reply 400 ''admin token bypass cannot change a stored password; use the sm-server reset-password subcommand'')
      else (case w_change rq of None \<Rightarrow> (s, reply 400 ''invalid json'')
      | Some (cur, new) \<Rightarrow> (case ChangePassword (wv_crypt ev) (wv_auth ev) (us_ID u) cur new (we_auth s) of
          (a, Inl e) \<Rightarrow> (s\<lparr>we_auth := a\<rparr>,
             if e = ErrInvalidCredentials then reply 401 ''current password is incorrect''
             else if e = ErrNoUser then reply 404 ''user not found'' else reply 400 (auth_err_text e))
        | (a, Inr token) \<Rightarrow> (s\<lparr>we_auth := a\<rparr>, setSessionCookie ev rq token (reply 204 [])))))"

definition meHandler :: "'s handler" where
  "meHandler rq cx s = (case cx_user cx of None \<Rightarrow> (s, reply 401 ''not authenticated'')
   | Some u \<Rightarrow> (s, reply 200 (meResponse u)))"

section \<open>The address of a client\<close>

text \<open>
  \<open>net.ParseIP\<close> reads what \<open>netip.ParseAddr\<close> reads, without
  zones, and takes an IPv4 address inside IPv6 for the IPv4 address.
\<close>

definition net_ParseIP :: "string \<Rightarrow> addr option" where
  "net_ParseIP s = (case ParseAddr s of None \<Rightarrow> None | Some a \<Rightarrow> if has_zone a then None else Some (Unmap a))"

definition remoteIP :: "(string \<Rightarrow> string option) \<Rightarrow> web_request \<Rightarrow> string" where
  "remoteIP splitHost rq = (case splitHost (w_RemoteAddr rq) of None \<Rightarrow> w_RemoteAddr rq | Some h \<Rightarrow> h)"

definition ipInNets :: "addr option \<Rightarrow> pfx list \<Rightarrow> bool" where
  "ipInNets ip nets = (case ip of None \<Rightarrow> False | Some a \<Rightarrow> list_ex (\<lambda>n. Contains n a) nets)"

text \<open>The loop over \<open>X-Forwarded-For\<close>, from the right; the list is reversed.\<close>

fun forwarded :: "pfx list \<Rightarrow> string list \<Rightarrow> string option" where
  "forwarded nets [] = None"
| "forwarded nets (p # ps) =
     (let ip = trim_space p in
      if ip = [] then forwarded nets ps
      else (case net_ParseIP ip of None \<Rightarrow> forwarded nets ps
      | Some a \<Rightarrow> if \<not> ipInNets (Some a) nets then Some ip else forwarded nets ps))"

definition clientIP :: "(string \<Rightarrow> string option) \<Rightarrow> web_request \<Rightarrow> pfx list \<Rightarrow> string" where
  "clientIP splitHost rq trusted =
     (let direct = remoteIP splitHost rq;
          real = trim_space (w_Header rq ''X-Real-IP'');
          fallback = (if real \<noteq> [] then real else direct);
          xff = w_Header rq ''X-Forwarded-For''
      in if trusted = [] then direct
         else if \<not> ipInNets (net_ParseIP direct) trusted then direct
         else if xff \<noteq> [] then
           (let parts = split_on CHR '','' xff in
            case forwarded trusted (rev parts) of Some ip \<Rightarrow> ip
            | None \<Rightarrow> if trim_space (hd parts) \<noteq> [] then trim_space (hd parts) else fallback)
         else fallback)"

section \<open>Limiters\<close>

text \<open>
  The map of limiters; a limiter of \<open>golang.org/x/time/rate\<close> is a value of type \<open>'l\<close>: \<open>fresh\<close> is a new one, and
  \<open>allow\<close> answers at an instant.
\<close>

record 'l limiterEntry =
  le_limiter :: 'l
  le_seen :: time

type_synonym 'l limiterMap = "(string, 'l limiterEntry) gomap"

definition limiter_get :: "'l \<Rightarrow> time \<Rightarrow> string \<Rightarrow> 'l limiterMap \<Rightarrow> 'l limiterMap \<times> 'l" where
  "limiter_get fresh now key m =
     (let l = (case get m key of None \<Rightarrow> fresh | Some e \<Rightarrow> le_limiter e)
      in (put key \<lparr>le_limiter = l, le_seen = now\<rparr> m, l))"

definition limiter_sweep :: "time \<Rightarrow> 'l limiterMap \<Rightarrow> 'l limiterMap" where
  "limiter_sweep now m = filter (\<lambda>(k, e). \<not> le_seen e < now - 15 * Minute) m"

text \<open>A request of a key: the limiter is fetched and asked, and it keeps the change.\<close>

definition limiter_allow :: "('l \<Rightarrow> time \<Rightarrow> bool \<times> 'l) \<Rightarrow> 'l \<Rightarrow> time \<Rightarrow> string \<Rightarrow> 'l limiterMap \<Rightarrow> 'l limiterMap \<times> bool" where
  "limiter_allow allow fresh now key m =
     (case limiter_get fresh now key m of (m', l) \<Rightarrow>
        (case allow l now of (ok, l') \<Rightarrow> (put key \<lparr>le_limiter = l', le_seen = now\<rparr> m', ok)))"

section \<open>The audit log\<close>

text \<open>The row that is written after a request, if any.\<close>

definition audit_entry :: "web_env \<Rightarrow> web_request \<Rightarrow> response \<Rightarrow> audit_row option" where
  "audit_entry ev rq r =
     (if w_Method rq \<in> {''GET'', ''HEAD'', ''OPTIONS''} then None
      else if \<not> is_prefix ''/api/v1/'' (w_Path rq) then None
      else Some \<lparr>au_actor = (case rs_actor r of None \<Rightarrow> ''anonymous'' | Some u \<Rightarrow> us_Username u),
        au_method = w_Method rq, au_path = w_Path rq, au_remote_ip = clientIP (wv_splitHost ev) rq (wv_trusted ev), au_status = rs_status r\<rparr>)"

text \<open>An error of the statement is dropped.\<close>

definition auditLogger :: "web_env \<Rightarrow> 's handler \<Rightarrow> 's handler" where
  "auditLogger ev h rq cx s =
     (case h rq cx s of (s', r) \<Rightarrow>
        (case audit_entry ev rq r of
           None \<Rightarrow> (s', r)
         | Some row \<Rightarrow> if wv_audit ev then (s'\<lparr>we_audit := we_audit s' @ [row]\<rparr>, r) else (s', r)))"

section \<open>Routes\<close>

text \<open>The groups of \<open>New\<close> with their middleware, in the order of \<open>Use\<close>.\<close>

datatype route_group = Open_Group | Auth_Group | Logout_Group | Agent_Group | User_Group | Admin_Group

fun chain :: "web_env \<Rightarrow> route_group \<Rightarrow> 's handler \<Rightarrow> 's handler" where
  "chain ev Open_Group h = h"
| "chain ev Auth_Group h = authRateLimiter ev (csrfVerifier h)"
| "chain ev Logout_Group h = csrfVerifier h"
| "chain ev Agent_Group h = ingestLimiter ev (agentToken ev h)"
| "chain ev User_Group h = requireUser ev (csrfVerifier h)"
| "chain ev Admin_Group h = requireUser ev (csrfVerifier (requireAdmin h))"

text \<open>Around every route, in the order of \<open>Use\<close> in \<open>New\<close>; what else is used there leaves the state alone.\<close>

definition server_chain :: "web_env \<Rightarrow> route_group \<Rightarrow> 's handler \<Rightarrow> 's handler" where
  "server_chain ev g h = csrfIssuer ev (auditLogger ev (chain ev g h))"

text \<open>The routes of \<open>New\<close>: with the ban service, and with the backup targets; method, pattern and group.\<close>

definition routes :: "bool \<Rightarrow> bool \<Rightarrow> (string \<times> string \<times> route_group) list" where
  "routes ipban backups =
    [(''GET'', ''/healthz'', Open_Group), (''GET'', ''/install.sh'', Open_Group), (''GET'', ''/install.ps1'', Open_Group),
     (''GET'', ''/api/v1/auth/status'', Open_Group), (''GET'', ''/api/v1/agent/binary'', Open_Group),
     (''POST'', ''/api/v1/auth/setup'', Auth_Group), (''POST'', ''/api/v1/auth/login'', Auth_Group),
     (''POST'', ''/api/v1/auth/logout'', Logout_Group),
     (''POST'', ''/api/v1/ingest'', Agent_Group)] @
    (if ipban then [(''GET'', ''/api/v1/agent/ipban'', Agent_Group)] else []) @
    [(''POST'', ''/api/v1/agent/tunnel'', Agent_Group), (''GET'', ''/api/v1/agent/backup-browse'', Agent_Group),
     (''POST'', ''/api/v1/agent/backup-browse/{jobID}'', Agent_Group), (''GET'', ''/api/v1/agent/tunnel/nodes'', Agent_Group),
     (''GET'', ''/api/v1/agent/backup-node'', Agent_Group), (''POST'', ''/api/v1/agent/backup-node/usage'', Agent_Group)] @
    (if backups then [(''GET'', ''/api/v1/agent/backup-config'', Agent_Group)] else []) @
    map (\<lambda>(m, p). (m, ''/api/v1'' @ p, User_Group))
    ([(''GET'', ''/stream''), (''GET'', ''/auth/me''), (''POST'', ''/auth/password''), (''POST'', ''/admin/hosts''),
      (''PATCH'', ''/admin/hosts/{id}''), (''POST'', ''/admin/hosts/{id}/upgrade''), (''POST'', ''/admin/hosts/{id}/archive''),
      (''POST'', ''/admin/hosts/{id}/unarchive''), (''DELETE'', ''/admin/hosts/{id}''), (''GET'', ''/hosts''),
      (''GET'', ''/hosts/{id}''), (''GET'', ''/hosts/{id}/processes''), (''GET'', ''/hosts/{id}/processes/{pid}/series''),
      (''GET'', ''/hosts/{id}/containers''), (''GET'', ''/hosts/{id}/containers/{cid}/series''), (''GET'', ''/hosts/{id}/ports''),
      (''GET'', ''/hosts/{id}/backups''), (''POST'', ''/hosts/{id}/backups/browse''), (''GET'', ''/hosts/{id}/backups/browse/{jobID}''),
      (''GET'', ''/hosts/{id}/labels''), (''GET'', ''/hosts/{id}/alerts/active''), (''GET'', ''/series''), (''GET'', ''/series/multi''),
      (''GET'', ''/series/group''), (''GET'', ''/series/batch''), (''GET'', ''/metrics''), (''GET'', ''/stats''), (''GET'', ''/retention''),
      (''GET'', ''/storage''), (''GET'', ''/agent/platforms''), (''GET'', ''/server/info''),
      (''GET'', ''/alerts''), (''POST'', ''/alerts''), (''PUT'', ''/alerts/{id}''), (''DELETE'', ''/alerts/{id}''),
      (''GET'', ''/alerts/history''), (''DELETE'', ''/alerts/history''),
      (''GET'', ''/channels''), (''POST'', ''/channels''), (''PUT'', ''/channels/{id}''), (''DELETE'', ''/channels/{id}'')] @
     (if ipban then
      [(''GET'', ''/ipban/settings''), (''GET'', ''/ipban/summary''), (''GET'', ''/ipban/hosts''), (''GET'', ''/ipban/active''),
       (''GET'', ''/ipban/fleet''), (''GET'', ''/ipban/events''), (''GET'', ''/ipban/stats'')] else []) @
     (if backups then
      concat (map (\<lambda>r. [(''GET'', r), (''POST'', r), (''PATCH'', r @ ''/{id}''), (''POST'', r @ ''/{id}/rotate''),
        (''POST'', r @ ''/{id}/measure''), (''POST'', r @ ''/{id}/revoke''), (''DELETE'', r @ ''/{id}'')])
        [''/backup-targets'', ''/backup-repositories'']) @
      [(''PUT'', ''/backup-repositories/{id}/credentials''), (''GET'', ''/backup-destinations''), (''POST'', ''/backup-destinations''),
       (''PUT'', ''/backup-destinations/{id}/credentials''), (''DELETE'', ''/backup-destinations/{id}''),
       (''GET'', ''/backup-tunnel''), (''DELETE'', ''/backup-tunnel/peers/{hostID}''), (''GET'', ''/backup-nodes''),
       (''POST'', ''/backup-nodes''), (''PATCH'', ''/backup-nodes/{hostID}''), (''DELETE'', ''/backup-nodes/{hostID}'')] else [])) @
    (if ipban then
      map (\<lambda>(m, p). (m, ''/api/v1'' @ p, Admin_Group))
      [(''PUT'', ''/ipban/settings''), (''PUT'', ''/ipban/hosts/{id}''), (''POST'', ''/ipban/fleet''), (''DELETE'', ''/ipban/fleet/{ip}''),
       (''POST'', ''/ipban/unban'')] else [])"

section \<open>What runs behind the user group\<close>

definition admin_token_ok :: "web_env \<Rightarrow> web_request \<Rightarrow> bool" where
  "admin_token_ok ev rq \<longleftrightarrow> w_Header rq ''X-Admin-Token'' \<noteq> [] \<and> w_Header rq ''X-Admin-Token'' = wv_AdminToken ev"

definition csrf_ok :: "web_request \<Rightarrow> bool" where
  "csrf_ok rq \<longleftrightarrow> csrfMethodSafe (w_Method rq) \<or> w_Header rq ''X-Admin-Token'' \<noteq> [] \<or> w_Header rq ''X-Agent-Token'' \<noteq> []
     \<or> (w_Header rq csrfHeader \<noteq> [] \<and> w_Cookie rq csrfCookie = Some (w_Header rq csrfHeader))"

lemma csrfVerifier_cases:
  "csrf_ok rq \<Longrightarrow> csrfVerifier h rq cx s = h rq cx s"
  "\<not> csrf_ok rq \<Longrightarrow> \<exists>b. csrfVerifier h rq cx s = (s, reply 403 b)"
  by (auto simp: csrfVerifier_def csrf_ok_def split: option.splits)

text \<open>Of the accounts nothing changes but that the presented session, if it has expired, is deleted.\<close>

definition only_expired :: "web_env \<Rightarrow> web_request \<Rightarrow> auth_db \<Rightarrow> auth_db \<Rightarrow> bool" where
  "only_expired ev rq d d' \<longleftrightarrow> d' = d \<or>
     (case w_Cookie rq sessionCookie of None \<Rightarrow> False | Some v \<Rightarrow>
     (case hex_decode v of None \<Rightarrow> False | Some raw \<Rightarrow>
     (case session_where (cr_hashToken (wv_crypt ev) raw) d of None \<Rightarrow> False | Some x \<Rightarrow>
        se_expires_at x < ae_now (wv_auth ev) \<and> d' = delete_sessions (\<lambda>x. se_token x = cr_hashToken (wv_crypt ev) raw) d)))"

lemma only_expired_refl [simp]: "only_expired ev rq d d"
  by (simp add: only_expired_def)

lemma Resolve_only_expired:
  "w_Cookie rq sessionCookie = Some v \<Longrightarrow> only_expired ev rq d (fst (ResolveSession (wv_crypt ev) (wv_auth ev) v d))"
  using Resolve_deletes[of "wv_crypt ev" "wv_auth ev" v d]
  by (cases "fst (ResolveSession (wv_crypt ev) (wv_auth ev) v d) = d") (auto simp: only_expired_def)

text \<open>What a refused request leaves: everything as it was, but for an expired session and its row in the audit log.\<close>

definition refused_effect :: "web_env \<Rightarrow> web_request \<Rightarrow> 's web_scheme \<Rightarrow> 's web_scheme \<Rightarrow> bool" where
  "refused_effect ev rq s s' \<longleftrightarrow> web.more s' = web.more s \<and> we_hosts s' = we_hosts s \<and> only_expired ev rq (we_auth s) (we_auth s') \<and>
     (we_audit s' = we_audit s \<or>
      we_audit s' = we_audit s @ [last (we_audit s')] \<and> au_method (last (we_audit s')) = w_Method rq \<and>
        au_path (last (we_audit s')) = w_Path rq \<and> au_status (last (we_audit s')) \<in> {401, 403})"

text \<open>
  A request behind the user group runs its handler for a user that the administrator's token or a session stands for,
  with the CSRF check passed (and the role, in the admin group); otherwise it changes nothing but sessions that have expired.
\<close>

lemma user_group_cases:
  assumes "g = User_Group \<or> g = Admin_Group"
  shows "(\<exists>u s1. chain ev g h rq cx s = (case h rq (cx\<lparr>cx_user := Some u\<rparr>) s1 of (s', r) \<Rightarrow> (s', recordActor u r))
        \<and> (admin_token_ok ev rq \<and> u = admin_user \<or>
           (\<exists>v. w_Cookie rq sessionCookie = Some v \<and> snd (ResolveSession (wv_crypt ev) (wv_auth ev) v (we_auth s)) = Inr u))
        \<and> csrf_ok rq \<and> (g = Admin_Group \<longrightarrow> us_Role u = ''admin''))
    \<or> (rs_status (snd (chain ev g h rq cx s)) \<in> {401, 403} \<and>
        (\<exists>a. only_expired ev rq (we_auth s) a \<and> fst (chain ev g h rq cx s) = s\<lparr>we_auth := a\<rparr>))"
    (is "?run \<or> ?refused")
proof -
  define k where "k = (if g = Admin_Group then requireAdmin h else h)"
  have chain: "chain ev g h = requireUser ev (csrfVerifier k)" using assms by (auto simp: k_def)
  have inner: "(csrf_ok rq \<and> (g = Admin_Group \<longrightarrow> us_Role u = ''admin'') \<and>
        csrfVerifier k rq (cx\<lparr>cx_user := Some u\<rparr>) s1 = h rq (cx\<lparr>cx_user := Some u\<rparr>) s1) \<or>
      (\<exists>b. csrfVerifier k rq (cx\<lparr>cx_user := Some u\<rparr>) s1 = (s1, reply 403 b))" for u s1
  proof (cases "csrf_ok rq")
    case True
    then have "csrfVerifier k rq (cx\<lparr>cx_user := Some u\<rparr>) s1 = k rq (cx\<lparr>cx_user := Some u\<rparr>) s1"
      by (rule csrfVerifier_cases(1))
    with True show ?thesis by (cases "g = Admin_Group") (auto simp: k_def requireAdmin_def)
  next
    case False
    then show ?thesis using csrfVerifier_cases(2) by blast
  qed
  have concl: ?thesis
    if eq: "chain ev g h rq cx s = (case csrfVerifier k rq (cx\<lparr>cx_user := Some u\<rparr>) s1 of (s', r) \<Rightarrow> (s', recordActor u r))"
      and same: "\<exists>a. only_expired ev rq (we_auth s) a \<and> s1 = s\<lparr>we_auth := a\<rparr>"
      and who: "admin_token_ok ev rq \<and> u = admin_user \<or>
        (\<exists>v. w_Cookie rq sessionCookie = Some v \<and> snd (ResolveSession (wv_crypt ev) (wv_auth ev) v (we_auth s)) = Inr u)"
    for u s1
    using inner[of u s1]
  proof
    assume run: "csrf_ok rq \<and> (g = Admin_Group \<longrightarrow> us_Role u = ''admin'') \<and>
        csrfVerifier k rq (cx\<lparr>cx_user := Some u\<rparr>) s1 = h rq (cx\<lparr>cx_user := Some u\<rparr>) s1"
    then have "chain ev g h rq cx s = (case h rq (cx\<lparr>cx_user := Some u\<rparr>) s1 of (s', r) \<Rightarrow> (s', recordActor u r))"
      using eq by simp
    with run who show ?thesis by blast
  next
    assume "\<exists>b. csrfVerifier k rq (cx\<lparr>cx_user := Some u\<rparr>) s1 = (s1, reply 403 b)"
    then obtain b where "chain ev g h rq cx s = (s1, recordActor u (reply 403 b))" using eq by auto
    then show ?thesis using same by (simp add: reply_def recordActor_def)
  qed
  show ?thesis
  proof (cases "admin_token_ok ev rq")
    case True
    then have "chain ev g h rq cx s = (case csrfVerifier k rq (cx\<lparr>cx_user := Some admin_user\<rparr>) s of
        (s', r) \<Rightarrow> (s', recordActor admin_user r))"
      unfolding chain requireUser_def by (auto simp: admin_token_ok_def Let_def)
    moreover have "\<exists>a. only_expired ev rq (we_auth s) a \<and> s = s\<lparr>we_auth := a\<rparr>" by (rule exI[of _ "we_auth s"]) simp
    ultimately show ?thesis using concl True by blast
  next
    case no_token: False
    have rest: "requireUser ev h' rq cx s = (case w_Cookie rq sessionCookie of None \<Rightarrow> (s, reply 401 ''not authenticated'')
      | Some v \<Rightarrow> (case ResolveSession (wv_crypt ev) (wv_auth ev) v (we_auth s) of
            (a, Inl e) \<Rightarrow> (s\<lparr>we_auth := a\<rparr>, clearSessionCookie ev rq (reply 401 ''session invalid''))
          | (a, Inr u) \<Rightarrow> (case h' rq (cx\<lparr>cx_user := Some u\<rparr>) (s\<lparr>we_auth := a\<rparr>) of (s', r) \<Rightarrow> (s', recordActor u r))))"
      for h' using no_token unfolding requireUser_def Let_def admin_token_ok_def by (metis (no_types, lifting))
    show ?thesis
    proof (cases "w_Cookie rq sessionCookie")
      case None
      then have "chain ev g h rq cx s = (s, reply 401 ''not authenticated'')" unfolding chain rest by simp
      moreover have "\<exists>a. only_expired ev rq (we_auth s) a \<and> s = s\<lparr>we_auth := a\<rparr>" by (rule exI[of _ "we_auth s"]) simp
      ultimately show ?thesis by (simp add: reply_def)
    next
      case (Some v)
      obtain a r where ar: "ResolveSession (wv_crypt ev) (wv_auth ev) v (we_auth s) = (a, r)" by fastforce
      have exp: "only_expired ev rq (we_auth s) a" using Resolve_only_expired[OF Some, of ev "we_auth s"] ar by simp
      show ?thesis
      proof (cases r)
        case (Inl e)
        then have "chain ev g h rq cx s = (s\<lparr>we_auth := a\<rparr>, clearSessionCookie ev rq (reply 401 ''session invalid''))"
          using Some ar unfolding chain rest by simp
        then show ?thesis using exp by (auto simp: reply_def clearSessionCookie_def add_cookie_def)
      next
        case (Inr u)
        then have "chain ev g h rq cx s = (case csrfVerifier k rq (cx\<lparr>cx_user := Some u\<rparr>) (s\<lparr>we_auth := a\<rparr>) of
            (s', r) \<Rightarrow> (s', recordActor u r))"
          using Some ar unfolding chain rest by simp
        from concl[OF this] exp Some ar Inr show ?thesis by auto
      qed
    qed
  qed
qed

lemma server_chain_more: "web.more (fst (server_chain ev g h rq cx s)) = web.more (fst (chain ev g h rq cx s))"
  by (simp add: server_chain_def csrfIssuer_def auditLogger_def split: prod.split option.split)

lemma refused_state:
  assumes "rs_status (snd (chain ev g h rq cx s)) \<in> {401, 403}" "only_expired ev rq (we_auth s) a" "fst (chain ev g h rq cx s) = s\<lparr>we_auth := a\<rparr>"
  shows "refused_effect ev rq s (fst (server_chain ev g h rq cx s))"
proof -
  obtain s' r where sr: "chain ev g h rq cx s = (s', r)" by fastforce
  with assms have *: "rs_status r \<in> {401, 403}" "s' = s\<lparr>we_auth := a\<rparr>" by simp_all
  have "fst (server_chain ev g h rq cx s) = (case audit_entry ev rq r of None \<Rightarrow> s'
      | Some row \<Rightarrow> if wv_audit ev then s'\<lparr>we_audit := we_audit s' @ [row]\<rparr> else s')"
    by (simp add: server_chain_def csrfIssuer_def auditLogger_def sr split: option.split)
  moreover have "au_method row = w_Method rq \<and> au_path row = w_Path rq \<and> au_status row \<in> {401, 403}" if "audit_entry ev rq r = Some row" for row
    using that *(1) by (auto simp: audit_entry_def split: if_splits)
  ultimately show ?thesis using assms(2) *(2)
    by (simp add: refused_effect_def split: option.split)
qed

text \<open>
  C9. A request behind the user and admin groups without the administrator's token changes nothing but that its own session, if it
  has expired, is deleted and that one row with status 401 or 403 enters the audit log, unless its
  session cookie is one that the history of accounts grants to an existing user at this time, and, for a method that changes
  things, the CSRF header repeats the CSRF cookie, or one of the headers \<open>X-Admin-Token\<close>, \<open>X-Agent-Token\<close>, which a
  foreign page cannot set, is present; in the admin group the user has the role. This is so whatever the handler does.
\<close>

theorem change_needs_granted_session:
  assumes "g = User_Group \<or> g = Admin_Group" and "\<not> admin_token_ok ev rq"
    and "we_auth s = fst (auth_run (wv_crypt ev) xs db0)" "wf_users db0" "ad_sessions db0 = []"
    and "inj_on (cr_hashToken (wv_crypt ev)) S" "\<forall>v. w_Cookie rq sessionCookie = Some v \<longrightarrow> raws_of ((wv_auth ev, OpResolve v) # xs) \<subseteq> S"
    and "\<forall>x \<in> set xs. ae_now (fst x) \<le> ae_now (wv_auth ev) \<and> ae_db_now (fst x) \<le> ae_now (wv_auth ev)"
    and changed: "\<not> refused_effect ev rq s (fst (server_chain ev g h rq cx s))"
  shows "\<exists>v raw u e. w_Cookie rq sessionCookie = Some v \<and> hex_decode v = Some raw \<and> u \<in> set (identities db0)
    \<and> granted u raw (snd (auth_run (wv_crypt ev) xs db0)) = Some e \<and> ae_now (wv_auth ev) \<le> e
    \<and> csrf_ok rq \<and> (g = Admin_Group \<longrightarrow> us_Role u = ''admin'')"
proof -
  from user_group_cases[OF assms(1), of ev h rq cx s] changed assms(2) refused_state[of ev g h rq cx s]
  obtain u v where u: "w_Cookie rq sessionCookie = Some v"
      "snd (ResolveSession (wv_crypt ev) (wv_auth ev) v (we_auth s)) = Inr u"
      "csrf_ok rq" "g = Admin_Group \<longrightarrow> us_Role u = ''admin''"
    by blast
  from u(2) obtain raw where raw: "hex_decode v = Some raw" and st: "ae_stmt (wv_auth ev) 0 = None"
    by (auto simp: ResolveSession_def split: option.splits)
  have "raws_of ((wv_auth ev, OpResolve v) # xs) \<subseteq> S" using assms(7) u(1) by blast
  then have S: "raws_of xs \<subseteq> S" "raw \<in> S" using raw by (auto simp: raws_of_def)
  have "snd (ResolveSession (wv_crypt ev) (wv_auth ev) v (fst (auth_run (wv_crypt ev) xs db0))) = Inr u"
    using u(2) assms(3) by simp
  with session_history[OF assms(4,5,6) S raw st assms(8)] u raw show ?thesis by blast
qed

text \<open>A request that changes something, with the session and without.\<close>

definition web_env1 :: web_env where
  "web_env1 = \<lparr>wv_crypt = crypt1, wv_auth = auth_env1 40 [], wv_auth2 = auth_env1 40 [], wv_sha = id,
     wv_hosts = undefined, wv_auth_allowed = True, wv_ingest_allowed = True, wv_csrf_rand = None,
     wv_AdminToken = [], wv_Secure = True, wv_trusted = [], wv_splitHost = (\<lambda>_. None), wv_audit = True\<rparr>"

definition post1 :: "string \<Rightarrow> web_request" where
  "post1 raw = \<lparr>w_Method = ''POST'', w_Path = ''/api/v1/alerts'',
     w_Headers = (\<lambda>n. if n = csrfHeader then [''t''] else []),
     w_Cookie = (\<lambda>n. if n = csrfCookie then Some ''t'' else if n = sessionCookie then Some (hex_encode raw) else None),
     w_TLS = True, w_RemoteAddr = [], w_login = None, w_change = None\<rparr>"

definition web1 :: "nat web_scheme" where
  "web1 = \<lparr>we_auth = fst (auth_run crypt1 auth_ops1 auth_db1), we_hosts = hosts0, we_audit = [], \<dots> = 0\<rparr>"

definition add_one :: "nat handler" where
  "add_one rq cx s = (web.more_update Suc s, reply 200 [])"

theorem change_needs_granted_session_witness:
  "web.more (fst (server_chain web_env1 User_Group add_one (post1 ''c'') \<lparr>cx_user = None, cx_host = None\<rparr> web1)) = 1
   \<and> (\<exists>v raw u e. w_Cookie (post1 ''c'') sessionCookie = Some v \<and> hex_decode v = Some raw \<and> u \<in> set (identities auth_db1)
    \<and> granted u raw (snd (auth_run crypt1 auth_ops1 auth_db1)) = Some e \<and> csrf_ok (post1 ''c''))"
proof -
  let ?cx = "\<lparr>cx_user = None, cx_host = None\<rparr>"
  have env: "wv_crypt web_env1 = crypt1" "wv_auth web_env1 = auth_env1 40 []" "wv_AdminToken web_env1 = []"
    by (simp_all add: web_env1_def)
  have wf: "wf_users auth_db1" "ad_sessions auth_db1 = []" by code_simp+
  have inj: "inj_on (cr_hashToken (wv_crypt web_env1)) UNIV" by (simp add: web_env1_def crypt1_def)
  have clk: "\<forall>x \<in> set auth_ops1. ae_now (fst x) \<le> ae_now (wv_auth web_env1) \<and> ae_db_now (fst x) \<le> ae_now (wv_auth web_env1)"
    unfolding env by code_simp
  have tok: "w_Cookie (post1 ''c'') sessionCookie = Some (hex_encode ''c'')"
    "w_Header (post1 ''c'') ''X-Admin-Token'' = []" "csrf_ok (post1 ''c'')"
    by (simp_all add: post1_def w_Header_def sessionCookie_def csrfCookie_def csrfHeader_def csrf_ok_def)
  have res: "ResolveSession crypt1 (auth_env1 40 []) (hex_encode ''c'') (fst (auth_run crypt1 auth_ops1 auth_db1))
      = (fst (auth_run crypt1 auth_ops1 auth_db1), Inr (user_of root1))"
    by code_simp
  have more: "web.more (fst (server_chain web_env1 User_Group add_one (post1 ''c'') ?cx web1)) = 1"
    by (simp add: server_chain_more requireUser_def env tok Let_def web1_def res csrfVerifier_cases(1)[OF tok(3)] add_one_def split: prod.splits)
  have hist: "we_auth web1 = fst (auth_run (wv_crypt web_env1) auth_ops1 auth_db1)" by (simp add: web1_def env)
  have "\<not> admin_token_ok web_env1 (post1 ''c'')" by (simp add: admin_token_ok_def env tok)
  moreover have "\<not> refused_effect web_env1 (post1 ''c'') web1 (fst (server_chain web_env1 User_Group add_one (post1 ''c'') ?cx web1))"
    using more by (simp add: refused_effect_def) (simp add: web1_def)
  ultimately show ?thesis
    using change_needs_granted_session[OF disjI1[OF refl] _ hist wf inj _ clk, of "post1 ''c''" add_one ?cx] more
    by (auto simp: env tok)
qed

text \<open>Every route with a method that changes things has a group with middleware.\<close>

lemma changing_routes_guarded:
  "\<lbrakk>(m, p, g) \<in> set (routes ipban backups); \<not> csrfMethodSafe m\<rbrakk> \<Longrightarrow> g \<noteq> Open_Group"
proof -
  have "list_all (\<lambda>(m, p, g). csrfMethodSafe m \<or> g \<noteq> Open_Group)
      (routes True True @ routes True False @ routes False True @ routes False False)"
    by code_simp
  then have "list_all (\<lambda>(m, p, g). csrfMethodSafe m \<or> g \<noteq> Open_Group) (routes ipban backups)"
    by (cases ipban; cases backups) simp_all
  then show "\<lbrakk>(m, p, g) \<in> set (routes ipban backups); \<not> csrfMethodSafe m\<rbrakk> \<Longrightarrow> g \<noteq> Open_Group"
    by (force simp: list_all_iff)
qed

section \<open>The address of a client is not forged\<close>

lemma forwarded_skips:
  assumes "\<forall>p \<in> set ps. case net_ParseIP (trim_space p) of None \<Rightarrow> True | Some b \<Rightarrow> ipInNets (Some b) nets"
  shows "forwarded nets (ps @ qs) = forwarded nets qs"
  using assms by (induction ps) (auto simp: Let_def split: option.splits)

lemma split_on_parts_append:
  "split_on c (s @ c # t) = split_on c s @ split_on c t"
proof (induction s)
  case (Cons x s)
  then show ?case by (auto split: list.splits)
qed simp

text \<open>
  C33. When the request comes through trusted proxies, each of which appends the plain address it saw to the first
  \<open>X-Forwarded-For\<close> line, and the outermost of them saw an address that is not itself trusted, the server takes that
  address, whatever the client wrote into this line before it, into further lines and into
  \<open>X-Real-IP\<close>; so neither the limiter of logins nor the audit log can be misled. Proxies that append an address with a port or
  add a line of their own are treated below.
\<close>

theorem client_ip_not_forged:
  assumes "trusted \<noteq> []" "ipInNets (net_ParseIP (remoteIP splitHost rq)) trusted"
    and first_line: "w_Headers rq ''X-Forwarded-For'' = (forged @ seen) # further"
    and "split_on CHR '','' seen = c # proxies" "forged = [] \<or> last forged = CHR '',''"
    and "net_ParseIP (trim_space c) = Some a" "\<not> ipInNets (Some a) trusted"
    and "\<forall>p \<in> set proxies. case net_ParseIP (trim_space p) of None \<Rightarrow> True | Some b \<Rightarrow> ipInNets (Some b) trusted"
  shows "clientIP splitHost rq trusted = trim_space c"
proof -
  have xff: "w_Header rq ''X-Forwarded-For'' = forged @ seen" by (simp add: w_Header_def first_line)
  obtain front where parts: "split_on CHR '','' (w_Header rq ''X-Forwarded-For'') = front @ c # proxies"
  proof (cases "forged = []")
    case True
    with xff assms(4) that[of "[]"] show ?thesis by simp
  next
    case False
    then obtain f where "forged = f @ [CHR '','']" using assms(5) by (metis append_butlast_last_id)
    with xff assms(4) that show ?thesis by (simp add: split_on_parts_append)
  qed
  have ne: "w_Header rq ''X-Forwarded-For'' \<noteq> []"
  proof
    assume "w_Header rq ''X-Forwarded-For'' = []"
    with parts have "front @ c # proxies = [[]]" by simp
    then have "c = []" by (cases front) auto
    with assms(6) have "net_ParseIP (trim_space []) \<noteq> None" by simp
    moreover have "net_ParseIP (trim_space []) = None" by code_simp
    ultimately show False by simp
  qed
  have "trim_space c \<noteq> []"
  proof
    assume "trim_space c = []"
    with assms(6) have "net_ParseIP [] \<noteq> None" by simp
    moreover have "net_ParseIP [] = None" by code_simp
    ultimately show False by simp
  qed
  then have "forwarded trusted (c # rev front) = Some (trim_space c)" using assms(6,7) by (simp add: Let_def)
  then have "forwarded trusted (rev (front @ c # proxies)) = Some (trim_space c)"
    using forwarded_skips[of "rev proxies" trusted "c # rev front"] assms(8) by simp
  with parts ne show ?thesis using assms(1,2) by (simp add: clientIP_def Let_def)
qed

definition proxied :: "string list \<Rightarrow> web_request" where
  "proxied xff = \<lparr>w_Method = ''POST'', w_Path = ''/api/v1/auth/login'',
     w_Headers = (\<lambda>n. if n = ''X-Forwarded-For'' then xff else []), w_Cookie = (\<lambda>_. None),
     w_TLS = False, w_RemoteAddr = ''10.0.0.2'', w_login = None, w_change = None\<rparr>"

definition proxies10 :: "pfx list" where "proxies10 = [Pfx (A4 0x0A000000) 8]"

theorem client_ip_not_forged_witness:
  "clientIP (\<lambda>_. None) (proxied [''8.8.8.8, 203.0.113.5, 10.0.0.3'', ''9.9.9.9'']) proxies10 = ''203.0.113.5''"
proof -
  have "proxies10 \<noteq> []" "ipInNets (net_ParseIP (remoteIP (\<lambda>_. None) (proxied [''8.8.8.8, 203.0.113.5, 10.0.0.3'', ''9.9.9.9'']))) proxies10"
    by code_simp+
  moreover have "w_Headers (proxied [''8.8.8.8, 203.0.113.5, 10.0.0.3'', ''9.9.9.9'']) ''X-Forwarded-For'' = (''8.8.8.8,'' @ '' 203.0.113.5, 10.0.0.3'') # [''9.9.9.9'']"
    by code_simp
  moreover have "split_on CHR '','' '' 203.0.113.5, 10.0.0.3'' = '' 203.0.113.5'' # ['' 10.0.0.3'']" by code_simp
  moreover have "net_ParseIP (trim_space '' 203.0.113.5'') = Some (A4 3405803781)" by code_simp
  moreover have "\<not> ipInNets (Some (A4 3405803781)) proxies10" by code_simp
  moreover have "\<forall>p \<in> set ['' 10.0.0.3'']. case net_ParseIP (trim_space p) of None \<Rightarrow> True | Some b \<Rightarrow> ipInNets (Some b) proxies10"
    by code_simp
  moreover have "trim_space '' 203.0.113.5'' = ''203.0.113.5''" by code_simp
  ultimately show ?thesis
    using client_ip_not_forged[where trusted = proxies10 and splitHost = "\<lambda>_. None" and rq = "proxied [''8.8.8.8, 203.0.113.5, 10.0.0.3'', ''9.9.9.9'']"
        and forged = "''8.8.8.8,''" and seen = "'' 203.0.113.5, 10.0.0.3''" and c = "'' 203.0.113.5''" and proxies = "['' 10.0.0.3'']"] by simp
qed

text \<open>
  An entry that is not an address, such as one with a port as some proxies append it, is passed over, and then the client's
  own text is believed.
\<close>

lemma entry_with_port_is_passed_over:
  "clientIP (\<lambda>_. None) (proxied [''8.8.8.8, 203.0.113.5:4711'']) proxies10 = ''8.8.8.8''"
  by code_simp

text \<open>Only the first line is read, so a proxy that adds a line of its own leaves the client's line to be believed.\<close>

lemma later_line_is_ignored:
  "clientIP (\<lambda>_. None) (proxied [''8.8.8.8'', ''203.0.113.5'']) proxies10 = ''8.8.8.8''"
  by code_simp

text \<open>A failure of the database during the check of a session is answered like an invalid session, and the cookie is cleared.\<close>

lemma outage_clears_session_cookie:
  assumes "w_Header rq ''X-Admin-Token'' = []" "w_Cookie rq sessionCookie = Some v" "hex_decode v \<noteq> None"
    and "ae_stmt (wv_auth ev) 0 = Some e"
  shows "requireUser ev h rq cx s = (s, clearSessionCookie ev rq (reply 401 ''session invalid''))"
  using assms by (auto simp: requireUser_def Let_def ResolveSession_def)

end
