(* ===== verification/Direct_Prefix.thy ===== *)
theory Direct_Prefix
  imports Rest_Server
begin

text \<open>
  The pure part of \<open>internal/server/storage/backupdestinations.go\<close>: what is accepted as a destination in
  object storage and as its credentials, and the prefix under which a repository is put. \<open>url.Parse\<close> is a
  parameter; regular expressions are predicates on the characters, as their patterns are character classes.
\<close>

section \<open>Strings\<close>

text \<open>\<open>strings.Trim\<close> with a set of characters and \<open>strings.TrimRight\<close>.\<close>

definition trim_right :: "char list \<Rightarrow> string \<Rightarrow> string" where
  "trim_right cs s = rev (dropWhile (\<lambda>c. c \<in> set cs) (rev s))"

definition trim_set :: "char list \<Rightarrow> string \<Rightarrow> string" where
  "trim_set cs s = trim_right cs (dropWhile (\<lambda>c. c \<in> set cs) s)"

text \<open>\<open>strings.NewReplacer(...).Replace\<close>: at each position the first pair that matches.\<close>

function replace_all :: "(string \<times> string) list \<Rightarrow> string \<Rightarrow> string" where
  "replace_all ps [] = []"
| "replace_all ps (c # s) =
     (case find (\<lambda>(k, _). is_prefix k (c # s)) ps of
        None \<Rightarrow> c # replace_all ps s
      | Some (k, v) \<Rightarrow> v @ replace_all ps (drop (length k - 1) s))"
  by pat_completeness auto
termination
  by (relation "measure (\<lambda>(_, s). length s)") auto

definition alnum :: "char \<Rightarrow> bool" where
  "alnum c \<longleftrightarrow> (let b = byte c in 48 \<le> b \<and> b \<le> 57 \<or> 65 \<le> b \<and> b \<le> 90 \<or> 97 \<le> b \<and> b \<le> 122)"

definition segment_char :: "char \<Rightarrow> bool" where
  "segment_char c \<longleftrightarrow> alnum c \<or> c \<in> set ''._-''"

text \<open>\<open>unsafePrefixSegmentRE.ReplaceAllString(s, "-")\<close>: every run of other characters becomes one dash.\<close>

function squash :: "string \<Rightarrow> string" where
  "squash [] = []"
| "squash (c # s) = (if segment_char c then c # squash s else CHR ''-'' # squash (dropWhile (\<lambda>c. \<not> segment_char c) s))"
  by pat_completeness auto
termination
  by (relation "measure length") (auto simp: le_imp_less_Suc length_dropWhile_le)

section \<open>Credentials and destinations\<close>

record s3Credentials =
  s3_AccessKeyID :: string
  s3_SecretAccessKey :: string
  s3_SessionToken :: string

definition no_s3 :: s3Credentials where
  "no_s3 = \<lparr>s3_AccessKeyID = [], s3_SecretAccessKey = [], s3_SessionToken = []\<rparr>"

definition creds_Empty :: "s3Credentials \<Rightarrow> bool" where
  "creds_Empty c \<longleftrightarrow> s3_AccessKeyID c = [] \<and> s3_SecretAccessKey c = [] \<and> s3_SessionToken c = []"

definition breaks_lines :: "string \<Rightarrow> bool" where
  "breaks_lines s \<longleftrightarrow> list_ex (\<lambda>c. byte c = 13 \<or> byte c = 10 \<or> byte c = 0) s"

definition creds_Validate :: "s3Credentials \<Rightarrow> bool" where
  "creds_Validate c \<longleftrightarrow> creds_Empty c \<or>
     trim_space (s3_AccessKeyID c) \<noteq> [] \<and> trim_space (s3_SecretAccessKey c) \<noteq> [] \<and>
     \<not> breaks_lines (s3_AccessKeyID c) \<and> \<not> breaks_lines (s3_SecretAccessKey c) \<and> \<not> breaks_lines (s3_SessionToken c)"

record destinationInput =
  di_Name :: string
  di_Kind :: string
  di_Endpoint :: string
  di_Bucket :: string
  di_Region :: string
  di_PrefixTemplate :: string
  di_UsePathStyle :: bool
  di_Credentials :: s3Credentials

definition BackupDestinationDirectS3 :: string where "BackupDestinationDirectS3 = ''direct_s3''"

definition DefaultDirectPrefixTemplate :: string where
  "DefaultDirectPrefixTemplate = ''backups/hosts/{host_id}-{hostname}/{repository}''"

definition normalizeDestinationInput :: "destinationInput \<Rightarrow> destinationInput" where
  "normalizeDestinationInput i =
     (let kind = trim_space (di_Kind i); template = trim_set ''/'' (trim_space (di_PrefixTemplate i)); c = di_Credentials i
      in i\<lparr>di_Name := trim_space (di_Name i),
           di_Kind := (if kind = [] then BackupDestinationDirectS3 else kind),
           di_Endpoint := trim_right ''/'' (trim_space (di_Endpoint i)),
           di_Bucket := trim_set ''/'' (trim_space (di_Bucket i)),
           di_Region := trim_space (di_Region i),
           di_PrefixTemplate := (if template = [] then DefaultDirectPrefixTemplate else template),
           di_Credentials := c\<lparr>s3_AccessKeyID := trim_space (s3_AccessKeyID c), s3_SecretAccessKey := trim_space (s3_SecretAccessKey c),
             s3_SessionToken := trim_space (s3_SessionToken c)\<rparr>\<rparr>)"

text \<open>\<open>bucketNameRE\<close> and \<open>regionNameRE\<close>.\<close>

definition name_of_length :: "nat \<Rightarrow> string \<Rightarrow> bool" where
  "name_of_length n s \<longleftrightarrow> s \<noteq> [] \<and> alnum (hd s) \<and> list_all segment_char (tl s) \<and> length (tl s) \<le> n"

text \<open>What \<open>url.Parse\<close> finds: scheme, user, host, path, query, fragment.\<close>

record parsed_url =
  pu_Scheme :: string
  pu_HasUser :: bool
  pu_Host :: string
  pu_Path :: string
  pu_RawQuery :: string
  pu_Fragment :: string

definition validateDirectS3Endpoint :: "(string \<Rightarrow> parsed_url option) \<Rightarrow> string \<Rightarrow> bool" where
  "validateDirectS3Endpoint parse endpoint \<longleftrightarrow> endpoint = [] \<or>
     (case parse endpoint of
        None \<Rightarrow> False
      | Some u \<Rightarrow> pu_Scheme u = ''https'' \<and> pu_Host u \<noteq> [] \<and> \<not> pu_HasUser u \<and> pu_RawQuery u = [] \<and> pu_Fragment u = [] \<and>
          (pu_Path u = [] \<or> pu_Path u = ''/''))"

definition template_char :: "char \<Rightarrow> bool" where
  "template_char c \<longleftrightarrow> alnum c \<or> c \<in> set ''._/{}-''"

definition prefix_segment :: "string \<Rightarrow> string" where
  "prefix_segment s = trim_set ''.-'' (squash (trim_space s))"

text \<open>The last step is \<open>path.Clean\<close>, which changes nothing in a path without empty, dot or parent segments.\<close>

definition ExpandDirectPrefix :: "string \<Rightarrow> int \<Rightarrow> string \<Rightarrow> string \<Rightarrow> string option" where
  "ExpandDirectPrefix template hostID hostname repository =
     (if hostID \<le> 0 then None
      else if template = [] \<or> \<not> list_all template_char template then None
      else if list_ex (\<lambda>c. c \<in> set ''{}'') (replace_all [(''{host_id}'', []), (''{hostname}'', []), (''{repository}'', [])] template) then None
      else (let hostname = prefix_segment hostname;
                hostname = (if hostname = [] then ''host'' else hostname);
                repository = prefix_segment repository
            in if repository = [] then None
               else (let prefix = trim_set ''/'' (replace_all
                         [(''{host_id}'', show_int hostID), (''{hostname}'', hostname), (''{repository}'', repository)] template)
                     in if prefix = [] \<or> list_ex (\<lambda>c. byte c = 92) prefix then None
                        else if list_ex (\<lambda>seg. seg = [] \<or> seg = ''.'' \<or> seg = ''..'') (split_on (CHR ''/'') prefix) then None
                        else Some prefix)))"

definition validateDestinationInput :: "(string \<Rightarrow> parsed_url option) \<Rightarrow> destinationInput \<Rightarrow> bool" where
  "validateDestinationInput parse i \<longleftrightarrow> di_Name i \<noteq> [] \<and> length (di_Name i) \<le> 128 \<and> \<not> breaks_lines (di_Name i) \<and>
     di_Kind i = BackupDestinationDirectS3 \<and> di_Bucket i \<noteq> [] \<and> name_of_length 254 (di_Bucket i) \<and>
     (di_Region i = [] \<or> name_of_length 127 (di_Region i)) \<and> validateDirectS3Endpoint parse (di_Endpoint i) \<and>
     str_contains (di_PrefixTemplate i) ''{host_id}'' \<and> str_contains (di_PrefixTemplate i) ''{repository}'' \<and>
     ExpandDirectPrefix (di_PrefixTemplate i) 1 ''example-host'' ''example-repo'' \<noteq> None \<and> creds_Validate (di_Credentials i)"

text \<open>\<open>path.Join\<close> of a bucket and a prefix that are clean.\<close>

definition DirectS3RepositoryURL :: "string \<Rightarrow> string \<Rightarrow> string \<Rightarrow> string" where
  "DirectS3RepositoryURL endpoint bucket prefix =
     (let endpoint = trim_right ''/'' (trim_space endpoint); endpoint = (if endpoint = [] then ''s3.amazonaws.com'' else endpoint)
      in ''s3:'' @ endpoint @ ''/'' @ trim_set ''/'' bucket @ ''/'' @ trim_set ''/'' prefix)"

definition destinationCredentialsAAD :: "int \<Rightarrow> string" where
  "destinationCredentialsAAD i = ''servermonitor:backup-destination:'' @ show_int i @ '':v1''"

definition repositoryCredentialsAAD :: "int \<Rightarrow> string" where
  "repositoryCredentialsAAD i = ''servermonitor:backup-repository:'' @ show_int i @ '':v1''"

section \<open>Where a repository lies\<close>

lemma squash_chars: "c \<in> set (squash s) \<Longrightarrow> segment_char c"
  by (induction s rule: squash.induct) (auto simp: segment_char_def split: if_splits)

lemma trim_set_subset: "set (trim_set cs s) \<subseteq> set s"
proof
  fix x
  assume "x \<in> set (trim_set cs s)"
  then have "x \<in> set (dropWhile (\<lambda>c. c \<in> set cs) (rev (dropWhile (\<lambda>c. c \<in> set cs) s)))"
    by (simp add: trim_set_def trim_right_def)
  then have "x \<in> set (dropWhile (\<lambda>c. c \<in> set cs) s)" by (auto dest: set_dropWhileD)
  then show "x \<in> set s" by (auto dest: set_dropWhileD)
qed

lemma trim_right_last: "trim_right cs s \<noteq> [] \<Longrightarrow> last (trim_right cs s) \<notin> set cs"
  using hd_dropWhile [of "\<lambda>c. c \<in> set cs" "rev s"] by (simp add: trim_right_def last_rev)

lemma prefix_segment_chars: "c \<in> set (prefix_segment s) \<Longrightarrow> segment_char c"
  using trim_set_subset squash_chars by (fastforce simp: prefix_segment_def)

lemma prefix_segment_last: "prefix_segment s \<noteq> [] \<Longrightarrow> last (prefix_segment s) \<notin> set ''.-''"
  by (simp only: prefix_segment_def trim_set_def trim_right_last simp_thms)

lemma no_slash: "segment_char c \<Longrightarrow> c \<noteq> CHR ''/''"
  by (auto simp: segment_char_def alnum_def byte_def)

lemma trim_set_id:
  assumes "s \<noteq> []" "hd s \<notin> set cs" "last s \<notin> set cs"
  shows "trim_set cs s = s"
proof -
  have "dropWhile (\<lambda>c. c \<in> set cs) s = s" using assms(1,2) by (cases s) auto
  moreover have "dropWhile (\<lambda>c. c \<in> set cs) (rev s) = rev s"
    using assms(1,3) by (cases "rev s") (auto simp: hd_rev [symmetric])
  ultimately show ?thesis by (simp add: trim_set_def trim_right_def)
qed


lemma show_pos_digits: "\<lbrakk>0 \<le> n; c \<in> set (show_pos n)\<rbrakk> \<Longrightarrow> is_digit c"
proof (induction n rule: show_pos.induct)
  case (1 n)
  have d: "is_digit (char_of (48 + m))" if "0 \<le> m" "m < 10" for m :: int
    using that by (simp add: is_digit_def byte_def)
  show ?case
  proof (cases "n < 10")
    case True
    then show ?thesis using 1 d by (auto simp: show_pos.simps [of n])
  next
    case False
    then show ?thesis using 1 d [of "n mod 10"] by (auto simp: show_pos.simps [of n])
  qed
qed

lemma dec_val_append: "dec_val a (s @ t) = dec_val (dec_val a s) t"
  by (induction s arbitrary: a) auto

lemma dec_val_show: "0 \<le> n \<Longrightarrow> dec_val 0 (show_pos n) = n"
proof (induction n rule: show_pos.induct)
  case (1 n)
  then show ?case by (cases "n < 10") (auto simp: show_pos.simps [of n] dec_val_append byte_def)
qed

lemma show_pos_inj: "\<lbrakk>0 \<le> m; 0 \<le> n; show_pos m = show_pos n\<rbrakk> \<Longrightarrow> m = n"
  by (metis dec_val_show)

lemma show_pos_nonempty: "show_pos n \<noteq> []"
  by (simp add: show_pos.simps [of n])

lemma show_pos_no: "\<lbrakk>0 \<le> n; \<not> is_digit c\<rbrakk> \<Longrightarrow> c \<notin> set (show_pos n)"
  using show_pos_digits by blast

definition host_segment :: "string \<Rightarrow> string" where
  "host_segment hostname = (if prefix_segment hostname = [] then ''host'' else prefix_segment hostname)"

lemma prefix_segment_no_slash: "CHR ''/'' \<notin> set (prefix_segment n)"
  using prefix_segment_chars no_slash by blast

lemma host_segment_no_slash: "CHR ''/'' \<notin> set (host_segment n)"
  using prefix_segment_no_slash by (simp add: host_segment_def)

lemma prefix_segment_no_backslash: "c \<in> set (prefix_segment n) \<Longrightarrow> byte c \<noteq> 92"
  using prefix_segment_chars [of c n] by (auto simp: segment_char_def alnum_def byte_def)

abbreviation default_prefix :: "int \<Rightarrow> string \<Rightarrow> string \<Rightarrow> string" where
  "default_prefix h n r \<equiv> ''backups/hosts/'' @ show_int h @ ''-'' @ host_segment n @ ''/'' @ prefix_segment r"

lemma split_default:
  "0 < h \<Longrightarrow> split_on (CHR ''/'') (default_prefix h n r) = [''backups'', ''hosts'', show_int h @ ''-'' @ host_segment n, prefix_segment r]"
proof -
  assume "0 < h"
  then have "CHR ''/'' \<notin> set (show_int h @ ''-'' @ host_segment n)"
    using show_pos_no [of h "CHR ''/''"] host_segment_no_slash by (auto simp: show_int_def is_digit_def byte_def)
  from split_on_append [OF this, of "prefix_segment r"] show ?thesis
    using split_on_no_sep [OF prefix_segment_no_slash] by simp
qed

text \<open>The prefix of the default template.\<close>

lemma replace_default:
  "replace_all [(''{host_id}'', i), (''{hostname}'', n), (''{repository}'', r)] DefaultDirectPrefixTemplate =
     ''backups/hosts/'' @ i @ ''-'' @ n @ ''/'' @ r"
  by (simp add: DefaultDirectPrefixTemplate_def is_prefix_def)

lemma expand_default:
  assumes "0 < h" "prefix_segment r \<noteq> []"
  shows "ExpandDirectPrefix DefaultDirectPrefixTemplate h n r = Some (default_prefix h n r)"
proof -
  have t: "DefaultDirectPrefixTemplate \<noteq> []" "list_all template_char DefaultDirectPrefixTemplate" by code_simp+
  have trim: "trim_set ''/'' (default_prefix h n r) = default_prefix h n r"
    using prefix_segment_no_slash [of r] assms(2) by (intro trim_set_id) (auto dest: last_in_set)
  have bs: "\<not> list_ex (\<lambda>c. byte c = 92) (default_prefix h n r)"
  proof -
    have "byte c \<noteq> 92" if "c \<in> set (show_int h)" for c
      using that assms(1) show_pos_digits [of h c] by (auto simp: show_int_def is_digit_def)
    moreover have "byte c \<noteq> 92" if "c \<in> set (host_segment n)" for c
      using that prefix_segment_no_backslash by (auto simp: host_segment_def byte_def split: if_splits)
    moreover have "byte c \<noteq> 92" if "c \<in> set ''backups/hosts/-''" for c using that by (auto simp: byte_def)
    ultimately show ?thesis using prefix_segment_no_backslash [of _ r] by (auto simp: list_ex_iff)
  qed
  have seg: "\<not> list_ex (\<lambda>seg. seg = [] \<or> seg = ''.'' \<or> seg = ''..'') (split_on (CHR ''/'') (default_prefix h n r))"
  proof -
    have "show_int h @ ''-'' @ host_segment n \<noteq> ''.''" "show_int h @ ''-'' @ host_segment n \<noteq> ''..''"
      using assms(1) show_pos_nonempty [of h] show_pos_no [of h "CHR ''.''"]
      by (cases "show_pos h"; auto simp: show_int_def is_digit_def byte_def)+
    moreover have "prefix_segment r \<noteq> ''.''" "prefix_segment r \<noteq> ''..''" using prefix_segment_last [of r] by auto
    ultimately show ?thesis using assms split_default [of h n r] by simp
  qed
  show ?thesis
    using assms t trim bs seg replace_default
    by (simp add: ExpandDirectPrefix_def Let_def host_segment_def [symmetric])
qed


definition path_under :: "string \<Rightarrow> string \<Rightarrow> bool" where
  "path_under p q \<longleftrightarrow> p = q \<or> is_prefix (p @ ''/'') q"

lemma expand_default_inv:
  assumes "ExpandDirectPrefix DefaultDirectPrefixTemplate h n r = Some p"
  shows "0 < h \<and> prefix_segment r \<noteq> [] \<and> p = default_prefix h n r"
proof -
  have "0 < h" "prefix_segment r \<noteq> []"
    using assms by (auto simp: ExpandDirectPrefix_def Let_def split: if_splits)
  with expand_default [OF this, of n] assms show ?thesis by simp
qed

lemma split_on_under: "is_prefix (p @ [c]) q \<Longrightarrow> \<exists>t. split_on c q = split_on c p @ split_on c t"
proof -
  assume "is_prefix (p @ [c]) q"
  then have "q = p @ c # drop (length p + 1) q"
    by (metis append.assoc append_Cons append_Nil append_take_drop_id is_prefix_def length_append_singleton Suc_eq_plus1)
  moreover have "split_on c (p @ c # t) = split_on c p @ split_on c t" for t
    by (induction p) (auto split: list.splits)
  ultimately show ?thesis by metis
qed

text \<open>
  C36. Under the default template no two repositories share a place in the bucket: if the prefix of one
  repository lies at or under the prefix of another, both belong to the same host and their names agree
  up to dots and dashes at the ends.
\<close>

theorem default_prefixes_disjoint:
  assumes "ExpandDirectPrefix DefaultDirectPrefixTemplate h n r = Some p"
    "ExpandDirectPrefix DefaultDirectPrefixTemplate h' n' r' = Some p'" "path_under p p'"
  shows "h = h' \<and> prefix_segment r = prefix_segment r' \<and> p = p'"
proof -
  note a = expand_default_inv [OF assms(1)] and b = expand_default_inv [OF assms(2)]
  have "split_on (CHR ''/'') p = split_on (CHR ''/'') p'"
  proof (cases "p = p'")
    case False
    then obtain t where "split_on (CHR ''/'') p' = split_on (CHR ''/'') p @ split_on (CHR ''/'') t"
      using assms(3) split_on_under [of p "CHR ''/''" p'] unfolding path_under_def by blast
    moreover have "length (split_on (CHR ''/'') p) = 4" "length (split_on (CHR ''/'') p') = 4"
      using a b by (simp_all only: split_default list.size)
    ultimately have "length (split_on (CHR ''/'') t) = 0" by (simp only: length_append)
    then show ?thesis by simp
  qed simp
  then have seg: "show_int h @ ''-'' @ host_segment n = show_int h' @ ''-'' @ host_segment n'" "prefix_segment r = prefix_segment r'"
    using split_default a b by simp_all
  have no: "CHR ''-'' \<notin> set (show_int i)" if "0 < i" for i
    using that show_pos_no [of i "CHR ''-''"] by (simp add: show_int_def is_digit_def byte_def)
  have "show_int h = show_int h'"
    using arg_cong [OF seg(1), of "\<lambda>s. fst (cut_at (CHR ''-'') s)"] cut_at_append [OF no] a b by simp
  then have "h = h'" using show_pos_inj [of h h'] a b by (simp add: show_int_def)
  then show ?thesis using seg a b by simp
qed

theorem default_prefixes_disjoint_witness:
  "ExpandDirectPrefix DefaultDirectPrefixTemplate 12 ''Web 01'' ''docs'' = Some ''backups/hosts/12-Web-01/docs''
   \<and> \<not> path_under ''backups/hosts/12-Web-01/docs'' ''backups/hosts/1-web/docs''"
proof -
  have e: "ExpandDirectPrefix DefaultDirectPrefixTemplate 12 ''Web 01'' ''docs'' = Some ''backups/hosts/12-Web-01/docs''"
    "ExpandDirectPrefix DefaultDirectPrefixTemplate 1 ''web'' ''docs'' = Some ''backups/hosts/1-web/docs''"
    by code_simp+
  from default_prefixes_disjoint [OF e] e(1) show ?thesis by auto
qed

text \<open>
  Two names of one host that differ in dots or dashes at their ends are both valid but share a prefix.
\<close>

lemma names_share_prefix:
  "ExpandDirectPrefix DefaultDirectPrefixTemplate 1 ''web'' ''docs'' = ExpandDirectPrefix DefaultDirectPrefixTemplate 1 ''web'' ''docs.''"
  by code_simp

text \<open>
  A template is accepted without a separator between its placeholders; then repositories of different
  hosts share a prefix.
\<close>

definition glued_destination :: destinationInput where
  "glued_destination = \<lparr>di_Name = ''s3'', di_Kind = ''direct_s3'', di_Endpoint = [], di_Bucket = ''bucket'', di_Region = [],
     di_PrefixTemplate = ''b/{host_id}{repository}'', di_UsePathStyle = False, di_Credentials = no_s3\<rparr>"

lemma glued_template_shares_prefix:
  "validateDestinationInput parse glued_destination \<and>
   ExpandDirectPrefix (di_PrefixTemplate glued_destination) 1 ''web'' ''1docs'' = ExpandDirectPrefix (di_PrefixTemplate glued_destination) 11 ''db'' ''docs''"
proof -
  have "validateDirectS3Endpoint parse (di_Endpoint glued_destination)"
    by (simp add: validateDirectS3Endpoint_def glued_destination_def)
  moreover have "di_Name glued_destination \<noteq> [] \<and> length (di_Name glued_destination) \<le> 128 \<and> \<not> breaks_lines (di_Name glued_destination) \<and>
     di_Kind glued_destination = BackupDestinationDirectS3 \<and> di_Bucket glued_destination \<noteq> [] \<and> name_of_length 254 (di_Bucket glued_destination) \<and>
     di_Region glued_destination = []"
    by code_simp
  moreover have "str_contains (di_PrefixTemplate glued_destination) ''{host_id}'' \<and> str_contains (di_PrefixTemplate glued_destination) ''{repository}'' \<and>
     ExpandDirectPrefix (di_PrefixTemplate glued_destination) 1 ''example-host'' ''example-repo'' \<noteq> None \<and> creds_Validate (di_Credentials glued_destination)"
    by code_simp
  moreover have "ExpandDirectPrefix (di_PrefixTemplate glued_destination) 1 ''web'' ''1docs'' = ExpandDirectPrefix (di_PrefixTemplate glued_destination) 11 ''db'' ''docs''"
    by code_simp
  ultimately show ?thesis unfolding validateDestinationInput_def by blast
qed

end
