(* ===== verification/Tunnel_Peers.thy ===== *)
theory Tunnel_Peers
  imports Backup_Node Host_Store
begin

text \<open>
  The hosts that may use the backup tunnel of the server: the table of enrolled peers
  (\<open>internal/server/storage/tunnel.go\<close>), the enrolment and revocation of a host
  (\<open>internal/server/api/tunnel.go\<close>) and the tunnel's start (\<open>pkg/restserver/tunnel.go\<close>). The calls of an
  operation to the database are numbered; \<open>te_stmt n\<close> says whether the n-th succeeds. The WireGuard
  device is a parameter: what a call does to it, or that the call fails.
\<close>

section \<open>Addresses of a subnet\<close>

text \<open>\<open>netip.Addr.Next\<close>: the zero address after the last one.\<close>

fun addr_Next :: "addr \<Rightarrow> addr" where
  "addr_Next (A4 w) = (if w = - 1 then Addr0 else A4 (w + 1))"
| "addr_Next (A6 w z) = (if w = - 1 then Addr0 else A6 (w + 1) z)"
| "addr_Next Addr0 = Addr0"

definition ServerTunnelIP :: "pfx \<Rightarrow> addr" where
  "ServerTunnelIP subnet = addr_Next (pfx_addr (Masked subnet))"

definition alloc_limit :: int where "alloc_limit = 2 ^ 20"

function free_loop :: "pfx \<Rightarrow> addr list \<Rightarrow> int \<Rightarrow> addr \<Rightarrow> addr option" where
  "free_loop subnet used i addr =
     (if alloc_limit \<le> i then None
      else if \<not> Contains subnet addr then None
      else if addr \<notin> set used then Some addr
      else free_loop subnet used (i + 1) (addr_Next addr))"
  by pat_completeness auto
termination
  by (relation "measure (\<lambda>(_, _, i, _). nat (alloc_limit - i))") auto

declare free_loop.simps [simp del]

definition firstFreeAddr :: "pfx \<Rightarrow> addr list \<Rightarrow> addr option" where
  "firstFreeAddr subnet used = (let subnet = Masked subnet in free_loop subnet used 0 (addr_Next (pfx_addr subnet)))"

section \<open>The tables\<close>

record tunnelPeer =
  tp_HostID :: int
  tp_PublicKey :: string
  tp_TunnelIP :: addr
  tp_EnrolledAt :: time

record tunnel_db =
  td_identity :: "(string \<times> string) option"
  td_peers :: "tunnelPeer list"
  td_hosts :: "hostRow list"

datatype tunnel_err = ErrTunnelKeyTaken | TunnelExhausted | TunnelNotFound | TunnelDB

record tunnel_env =
  te_now :: time
  te_stmt :: "nat \<Rightarrow> bool"

definition EnsureIdentity ::
  "tunnel_env \<Rightarrow> string \<Rightarrow> string option \<Rightarrow> tunnel_db \<Rightarrow> tunnel_db \<times> string option" where
  "EnsureIdentity ev subnet generate db =
     (if \<not> te_stmt ev 0 then (db, None)
      else (case td_identity db of
        Some (key, old) \<Rightarrow> if te_stmt ev 1 then (db\<lparr>td_identity := Some (key, subnet)\<rparr>, Some key) else (db, None)
      | None \<Rightarrow>
          (case generate of
             None \<Rightarrow> (db, None)
           | Some fresh \<Rightarrow>
               if \<not> te_stmt ev 1 then (db, None)
               else (let db = db\<lparr>td_identity := Some (fresh, subnet)\<rparr>
                     in (db, if te_stmt ev 2 then Some fresh else None)))))"

text \<open>The unique constraints of the table, for a row that is written.\<close>

definition peer_conflict :: "tunnelPeer \<Rightarrow> tunnel_db \<Rightarrow> bool" where
  "peer_conflict p db \<longleftrightarrow> list_ex (\<lambda>q. tp_HostID q \<noteq> tp_HostID p \<and>
     (tp_PublicKey q = tp_PublicKey p \<or> tp_TunnelIP q = tp_TunnelIP p)) (td_peers db)"

definition host_known :: "int \<Rightarrow> tunnel_db \<Rightarrow> bool" where
  "host_known i db \<longleftrightarrow> list_ex (\<lambda>h. ht_ID h = i) (td_hosts db)"

definition EnrollPeer ::
  "tunnel_env \<Rightarrow> int \<Rightarrow> string \<Rightarrow> pfx \<Rightarrow> addr \<Rightarrow> tunnel_db \<Rightarrow> tunnel_db \<times> (tunnel_err + addr)" where
  "EnrollPeer ev host key subnet reserved db =
     (if \<not> te_stmt ev 0 \<or> \<not> te_stmt ev 1 \<or> \<not> te_stmt ev 2 then (db, Inl TunnelDB)
      else (case find (\<lambda>p. tp_HostID p = host) (td_peers db) of
        Some p \<Rightarrow>
          (let p' = p\<lparr>tp_PublicKey := key, tp_EnrolledAt := te_now ev\<rparr>
           in if \<not> te_stmt ev 3 then (db, Inl TunnelDB)
              else if peer_conflict p' db then (db, Inl ErrTunnelKeyTaken)
              else if \<not> te_stmt ev 4 then (db, Inl TunnelDB)
              else (db\<lparr>td_peers := map (\<lambda>q. if tp_HostID q = host then p' else q) (td_peers db)\<rparr>, Inr (tp_TunnelIP p)))
      | None \<Rightarrow>
          if \<not> te_stmt ev 3 then (db, Inl TunnelDB)
          else (case firstFreeAddr subnet (reserved # map (Unmap \<circ> tp_TunnelIP) (td_peers db)) of
            None \<Rightarrow> (db, Inl TunnelExhausted)
          | Some a \<Rightarrow>
              (let p = \<lparr>tp_HostID = host, tp_PublicKey = key, tp_TunnelIP = a, tp_EnrolledAt = te_now ev\<rparr>
               in if \<not> te_stmt ev 4 then (db, Inl TunnelDB)
                  else if peer_conflict p db then (db, Inl ErrTunnelKeyTaken)
                  else if \<not> host_known host db then (db, Inl TunnelDB)
                  else if \<not> te_stmt ev 5 then (db, Inl TunnelDB)
                  else (db\<lparr>td_peers := td_peers db @ [p]\<rparr>, Inr a)))))"

text \<open>A peer as the callers see it, with the name of its host.\<close>

definition read_peer :: "tunnelPeer \<Rightarrow> tunnelPeer" where
  "read_peer p = p\<lparr>tp_TunnelIP := Unmap (tp_TunnelIP p)\<rparr>"

definition ListPeers :: "tunnel_env \<Rightarrow> tunnel_db \<Rightarrow> (tunnelPeer \<times> string) list option" where
  "ListPeers ev db =
     (if \<not> te_stmt ev 0 then None
      else Some (sort_key snd (concat (map (\<lambda>p. map (\<lambda>h. (read_peer p, ht_Hostname h))
        (filter (\<lambda>h. ht_ID h = tp_HostID p \<and> ht_DeletedAt h = None) (td_hosts db))) (td_peers db)))))"

definition GetPeer :: "tunnel_env \<Rightarrow> int \<Rightarrow> tunnel_db \<Rightarrow> tunnel_err + tunnelPeer" where
  "GetPeer ev host db =
     (if \<not> te_stmt ev 0 then Inl TunnelDB
      else (case find (\<lambda>p. tp_HostID p = host) (td_peers db) of
        None \<Rightarrow> Inl TunnelNotFound
      | Some p \<Rightarrow> Inr (read_peer p)))"

definition DeletePeer :: "tunnel_env \<Rightarrow> int \<Rightarrow> tunnel_db \<Rightarrow> tunnel_db \<times> (tunnel_err + unit)" where
  "DeletePeer ev host db =
     (if \<not> te_stmt ev 1 then (db, Inl TunnelDB)
      else (db\<lparr>td_peers := filter (\<lambda>p. tp_HostID p \<noteq> host) (td_peers db)\<rparr>,
            if list_ex (\<lambda>p. tp_HostID p = host) (td_peers db) then Inr () else Inl TunnelNotFound))"

section \<open>Hosts and ports\<close>

text \<open>\<open>net.SplitHostPort\<close> and \<open>net.JoinHostPort\<close>.\<close>

definition after_last :: "char \<Rightarrow> string \<Rightarrow> (string \<times> string) option" where
  "after_last c s = (case cut_at c (rev s) of (_, None) \<Rightarrow> None | (r, Some l) \<Rightarrow> Some (rev l, rev r))"

definition SplitHostPort :: "string \<Rightarrow> (string \<times> string) option" where
  "SplitHostPort s =
     (case after_last (CHR '':'') s of
        None \<Rightarrow> None
      | Some (before, port) \<Rightarrow>
          if is_prefix ''['' s then
            (case cut_at (CHR '']'') s of
               (_, None) \<Rightarrow> None
             | (open_host, Some rest) \<Rightarrow>
                 if rest \<noteq> CHR '':'' # port then None
                 else if CHR ''['' \<in> set (tl s) \<or> CHR '']'' \<in> set rest then None
                 else Some (tl open_host, port))
          else if CHR '':'' \<in> set before then None
          else if CHR ''['' \<in> set s \<or> CHR '']'' \<in> set s then None
          else Some (before, port))"

definition JoinHostPort :: "string \<Rightarrow> string \<Rightarrow> string" where
  "JoinHostPort host port =
     (if CHR '':'' \<in> set host then ''['' @ host @ '']:'' @ port else host @ '':'' @ port)"

record tunnelInfo =
  tn_ListenPort :: int
  tn_Endpoint :: string
  tn_Subnet :: string
  tn_PublicHTTP :: bool
  tn_ServerStorage :: bool

definition tunnelEndpointForRequest :: "tunnelInfo \<Rightarrow> string \<Rightarrow> string" where
  "tunnelEndpointForRequest info rhost =
     (let endpoint = trim_space (tn_Endpoint info); port = show_int (tn_ListenPort info)
      in if endpoint \<noteq> [] then (if SplitHostPort endpoint \<noteq> None then endpoint else JoinHostPort endpoint port)
         else (let host = (case SplitHostPort rhost of Some (h, _) \<Rightarrow> h | None \<Rightarrow> rhost)
               in if host = [] then [] else JoinHostPort host port))"

section \<open>The tunnel and its handlers\<close>

text \<open>
  The device: what a call of \<open>SetPeer\<close> or \<open>RemovePeer\<close> makes of it, nothing when the call fails. The tunnel
  has its own address and subnet; \<open>None\<close> for the tunnel means that it is not enabled.
\<close>

type_synonym 'd device = "dev_call \<Rightarrow> 'd \<Rightarrow> 'd option"

record tunnel =
  tu_subnet :: pfx
  tu_serverIP :: addr
  tu_publicKey :: wgkey

record 'd tunnel_sys =
  ts_db :: tunnel_db
  ts_dev :: 'd

definition StartTunnel_ip :: "pfx \<Rightarrow> wgkey \<Rightarrow> tunnel" where
  "StartTunnel_ip subnet pub = \<lparr>tu_subnet = Masked subnet, tu_serverIP = ServerTunnelIP subnet, tu_publicKey = pub\<rparr>"

definition PeerFromParts :: "string \<Rightarrow> addr \<Rightarrow> peer option" where
  "PeerFromParts publicKey tunnelIP =
     (case KeyFromBytes publicKey of
        None \<Rightarrow> None
      | Some key \<Rightarrow> if \<not> IsValid tunnelIP then None else Some (host_peer key tunnelIP))"

definition tunnel_SetPeer :: "'d device \<Rightarrow> string \<Rightarrow> addr \<Rightarrow> 'd \<Rightarrow> 'd option" where
  "tunnel_SetPeer dev publicKey tunnelIP d =
     (case PeerFromParts publicKey tunnelIP of None \<Rightarrow> None | Some p \<Rightarrow> dev (SetPeer p) d)"

definition tunnel_RemovePeer :: "'d device \<Rightarrow> string \<Rightarrow> 'd \<Rightarrow> 'd option" where
  "tunnel_RemovePeer dev publicKey d =
     (case KeyFromBytes publicKey of None \<Rightarrow> None | Some key \<Rightarrow> dev (RemovePeer key) d)"

record enrollReply =
  er_ServerPublicKey :: string
  er_Endpoint :: string
  er_TunnelIP :: addr
  er_ServerTunnelIP :: addr
  er_RestPort :: int
  er_ServerStorage :: bool

definition TunnelRestPort :: int where "TunnelRestPort = 8443"

text \<open>The body of the request is the public key it holds, or nothing when it is not JSON.\<close>

definition tunnelEnrollHandler ::
  "'d device \<Rightarrow> tunnel option \<Rightarrow> tunnelInfo \<Rightarrow> tunnel_env \<Rightarrow> int option \<Rightarrow> string \<Rightarrow> string option \<Rightarrow> 'd tunnel_sys
     \<Rightarrow> 'd tunnel_sys \<times> (int + enrollReply)" where
  "tunnelEnrollHandler dev tun info ev hostID rhost body s =
     (case tun of
        None \<Rightarrow> (s, Inl 503)
      | Some t \<Rightarrow>
     (case hostID of
        None \<Rightarrow> (s, Inl 401)
      | Some host \<Rightarrow>
     (case body of
        None \<Rightarrow> (s, Inl 400)
      | Some raw \<Rightarrow>
     (case ParseKey (trim_space raw) of
        None \<Rightarrow> (s, Inl 400)
      | Some pub \<Rightarrow>
          if key_IsZero pub then (s, Inl 400)
          else (case EnrollPeer ev host pub (tu_subnet t) (tu_serverIP t) (ts_db s) of
             (db, Inl e) \<Rightarrow> (s\<lparr>ts_db := db\<rparr>, Inl (if e = ErrTunnelKeyTaken then 409 else 500))
           | (db, Inr ip) \<Rightarrow>
               (let s = s\<lparr>ts_db := db\<rparr>
                in case tunnel_SetPeer dev pub ip (ts_dev s) of
                     None \<Rightarrow> (s, Inl 500)
                   | Some d \<Rightarrow>
                       (let s = s\<lparr>ts_dev := d\<rparr>; endpoint = tunnelEndpointForRequest info rhost
                        in if endpoint = [] then (s, Inl 500)
                           else (s, Inr \<lparr>er_ServerPublicKey = key_String (tu_publicKey t), er_Endpoint = endpoint,
                             er_TunnelIP = ip, er_ServerTunnelIP = tu_serverIP t, er_RestPort = TunnelRestPort,
                             er_ServerStorage = tn_ServerStorage info\<rparr>))))))))"

text \<open>The statistics of the peers that storage nodes reported are forgotten with the peer; they are not part of the state here.\<close>

definition revokeTunnelPeerHandler ::
  "'d device \<Rightarrow> tunnel option \<Rightarrow> tunnel_env \<Rightarrow> int option \<Rightarrow> 'd tunnel_sys \<Rightarrow> 'd tunnel_sys \<times> (int + wgkey option)" where
  "revokeTunnelPeerHandler dev tun ev hostID s =
     (case tun of
        None \<Rightarrow> (s, Inl 503)
      | Some t \<Rightarrow>
     (case hostID of
        None \<Rightarrow> (s, Inl 400)
      | Some host \<Rightarrow>
     (case GetPeer ev host (ts_db s) of
        Inl e \<Rightarrow> (s, Inl (if e = TunnelNotFound then 404 else 500))
      | Inr p \<Rightarrow>
     (case DeletePeer ev host (ts_db s) of
        (db, Inl TunnelDB) \<Rightarrow> (s, Inl 500)
      | (db, _) \<Rightarrow>
          (let s = s\<lparr>ts_db := db\<rparr>
           in case tunnel_RemovePeer dev (tp_PublicKey p) (ts_dev s) of
                None \<Rightarrow> (s, Inl 500)
              | Some d \<Rightarrow> (s\<lparr>ts_dev := d\<rparr>, Inr (KeyFromBytes (tp_PublicKey p))))))))"

text \<open>What the deletion of a host does to its peer (\<open>internal/server/api/hosts.go\<close>); errors are dropped.\<close>

definition delete_host_peer :: "'d device \<Rightarrow> tunnel option \<Rightarrow> tunnel_env \<Rightarrow> int \<Rightarrow> 'd tunnel_sys \<Rightarrow> 'd tunnel_sys" where
  "delete_host_peer dev tun ev host s =
     (case tun of
        None \<Rightarrow> s
      | Some _ \<Rightarrow>
     (case GetPeer ev host (ts_db s) of
        Inl _ \<Rightarrow> s
      | Inr p \<Rightarrow>
          (let s = s\<lparr>ts_db := fst (DeletePeer ev host (ts_db s))\<rparr>
           in case tunnel_RemovePeer dev (tp_PublicKey p) (ts_dev s) of None \<Rightarrow> s | Some d \<Rightarrow> s\<lparr>ts_dev := d\<rparr>)))"

text \<open>The start of the server: the peers of the table, skipping rows that make no peer, on a fresh device.\<close>

definition start_peers :: "(tunnelPeer \<times> string) list \<Rightarrow> peer list" where
  "start_peers rows = List.map_filter (\<lambda>(p, _). PeerFromParts (tp_PublicKey p) (tp_TunnelIP p)) rows"


section \<open>The lowest free address\<close>

lemma drop_bit_div: "uint (drop_bit k w) = uint w div 2 ^ k" for w :: "'a::len word"
  by (subst unsigned_drop_bit_eq) (simp add: drop_bit_eq_div take_bit_int_eq_self)

lemma block_start:
  fixes x u :: "'a::len word"
  assumes "drop_bit k x = drop_bit k u"
  shows "push_bit k (drop_bit k u) \<le> x"
proof -
  have "push_bit k (drop_bit k x) = x AND NOT (mask k)"
    by (rule bit_word_eqI) (auto simp: bit_simps)
  then show ?thesis using assms word_and_le2 by metis
qed

lemma block_convex:
  fixes x a c :: "'a::len word"
  assumes "drop_bit k a = drop_bit k c" "a \<le> x" "x \<le> c"
  shows "drop_bit k x = drop_bit k c"
proof -
  have "uint a div 2 ^ k \<le> uint x div 2 ^ k" "uint x div 2 ^ k \<le> uint c div 2 ^ k"
    using assms(2,3) by (simp_all add: word_le_def zdiv_mono1)
  moreover have "uint a div 2 ^ k = uint c div 2 ^ k" using arg_cong [OF assms(1), of uint] by (simp add: drop_bit_div)
  ultimately have "uint (drop_bit k x) = uint (drop_bit k c)" by (simp only: drop_bit_div)
  then show ?thesis by (simp only: word_uint_eq_iff)
qed


text \<open>The value of an address within its family, and whether two addresses are of one family.\<close>

fun addr_num :: "addr \<Rightarrow> int" where
  "addr_num (A4 w) = uint w"
| "addr_num (A6 w _) = uint w"
| "addr_num Addr0 = -1"

fun same_family :: "addr \<Rightarrow> addr \<Rightarrow> bool" where
  "same_family (A4 _) (A4 _) = True"
| "same_family (A6 _ y) (A6 _ z) = (y = [] \<and> z = [])"
| "same_family _ _ = False"

lemma uint_succ: "w \<noteq> - 1 \<Longrightarrow> uint (w + 1) = uint w + 1" for w :: "'a::len word"
proof -
  assume "w \<noteq> - 1"
  then have "uint w \<noteq> 2 ^ LENGTH('a) - 1" by (simp add: word_uint_eq_iff unsigned_minus_1_eq_mask mask_eq_exp_minus_1)
  then have "uint w + 1 < 2 ^ LENGTH('a)" using uint_lt2p [of w] by linarith
  then show "uint (w + 1) = uint w + 1" by (simp add: uint_plus_if')
qed

lemma addr_num_inj: "\<lbrakk>same_family a b; addr_num a = addr_num b\<rbrakk> \<Longrightarrow> a = b"
  by (cases a; cases b) (auto simp: word_uint_eq_iff)

lemma Next_num: "\<lbrakk>same_family b a; addr_Next a \<noteq> Addr0\<rbrakk> \<Longrightarrow> addr_num (addr_Next a) = addr_num a + 1 \<and> same_family b (addr_Next a)"
  by (cases a; cases b) (auto simp: uint_succ split: if_splits)

lemma Next_iter:
  assumes "same_family b a" "(addr_Next ^^ n) a \<noteq> Addr0"
  shows "addr_num ((addr_Next ^^ n) a) = addr_num a + int n \<and> same_family b ((addr_Next ^^ n) a)"
  using assms
proof (induction n)
  case (Suc n)
  then have "(addr_Next ^^ n) a \<noteq> Addr0" by auto
  with Suc Next_num[of b "(addr_Next ^^ n) a"] show ?case by simp
qed simp

lemma Masked_cases:
  assumes "Contains (Masked p) c" "\<not> has_zone (pfx_addr p)"
  obtains (v4) u w b where "p = Pfx (A4 u) b" "c = A4 w" "0 \<le> b" "b \<le> 32" "drop_bit (32 - nat b) w = drop_bit (32 - nat b) u"
  | (v6) u w b where "p = Pfx (A6 u []) b" "c = A6 w []" "0 \<le> b" "b \<le> 128" "drop_bit (128 - nat b) w = drop_bit (128 - nat b) u"
proof -
  obtain a b where p: "p = Pfx a b" by (cases p)
  have "\<not> b < 0 \<and> IsValid a \<and> \<not> BitLen a < b"
    using assms(1) by (auto simp: p Masked_def Contains_def split: if_splits)
  then have "Contains (Pfx a b) c" using assms(1) Contains_Masked [of p c] by (simp add: p)
  with assms(2) \<open>\<not> b < 0 \<and> _\<close> show thesis
    by (cases a; cases c) (auto simp: p Contains_iff intro: that)
qed


text \<open>The addresses of a subnet without a zone: the base is the lowest, and there are no gaps.\<close>

abbreviation base_of :: "pfx \<Rightarrow> addr" where
  "base_of p \<equiv> pfx_addr (Masked p)"

lemma base_lowest:
  assumes "Contains (Masked p) c" "\<not> has_zone (pfx_addr p)"
  shows "same_family (base_of p) c \<and> addr_num (base_of p) \<le> addr_num c"
  using assms by (cases rule: Masked_cases) (auto simp: Masked_def simp flip: word_le_def intro!: block_start)

lemma subnet_convex:
  assumes "Contains (Masked p) c" "\<not> has_zone (pfx_addr p)" "same_family (base_of p) x"
    "addr_num (base_of p) \<le> addr_num x" "addr_num x \<le> addr_num c"
  shows "Contains (Masked p) x"
  using assms(1,2)
proof (cases rule: Masked_cases)
  case (v4 u w b)
  then obtain y where x: "x = A4 y" using assms(3) by (cases x) (auto simp: Masked_def)
  have "drop_bit (32 - nat b) y = drop_bit (32 - nat b) w"
    by (rule block_convex [of _ "push_bit (32 - nat b) (drop_bit (32 - nat b) u)"])
       (use assms(4,5) v4 x in \<open>auto simp: Masked_def drop_push_drop word_le_def\<close>)
  then show ?thesis using v4 x Contains_Masked [of p x] by (simp add: Contains_iff)
next
  case (v6 u w b)
  then obtain y where x: "x = A6 y []" using assms(3) by (cases x) (auto simp: Masked_def)
  have "drop_bit (128 - nat b) y = drop_bit (128 - nat b) w"
    by (rule block_convex [of _ "push_bit (128 - nat b) (drop_bit (128 - nat b) u)"])
       (use assms(4,5) v6 x in \<open>auto simp: Masked_def drop_push_drop word_le_def\<close>)
  then show ?thesis using v6 x Contains_Masked [of p x] by (simp add: Contains_iff)
qed

text \<open>What the loop has seen when it returns.\<close>

lemma free_loop_Some:
  "free_loop p used i a = Some b \<Longrightarrow>
    \<exists>n. b = (addr_Next ^^ n) a \<and> Contains p b \<and> b \<notin> set used \<and> (\<forall>m<n. (addr_Next ^^ m) a \<in> set used)"
proof (induction p used i a rule: free_loop.induct)
  case (1 p used i a)
  show ?case
  proof (cases "a \<in> set used")
    case True
    with "1.prems" have r: "\<not> alloc_limit \<le> i" "Contains p a" "free_loop p used (i + 1) (addr_Next a) = Some b"
      by (auto simp: free_loop.simps [of p used i a] split: if_splits)
    with 1 True obtain n where n: "b = (addr_Next ^^ n) (addr_Next a)" "Contains p b" "b \<notin> set used"
      "\<forall>m<n. (addr_Next ^^ m) (addr_Next a) \<in> set used" by blast
    have "\<forall>m<Suc n. (addr_Next ^^ m) a \<in> set used"
      using n(4) True by (auto simp: less_Suc_eq_0_disj funpow_Suc_right simp del: funpow.simps(2))
    then show ?thesis using n by (intro exI [of _ "Suc n"]) (simp add: funpow_Suc_right del: funpow.simps(2))
  next
    case False
    then show ?thesis using "1.prems"
      by (intro exI [of _ 0]) (auto simp: free_loop.simps [of p used i a] split: if_splits)
  qed
qed

lemma free_loop_None:
  "\<lbrakk>free_loop p used i a = None; i \<le> alloc_limit\<rbrakk> \<Longrightarrow>
    \<exists>n. (\<forall>m<n. (addr_Next ^^ m) a \<in> set used \<and> Contains p ((addr_Next ^^ m) a)) \<and>
      (i + int n = alloc_limit \<or> \<not> Contains p ((addr_Next ^^ n) a))"
proof (induction p used i a rule: free_loop.induct)
  case (1 p used i a)
  show ?case
  proof (cases "alloc_limit \<le> i \<or> \<not> Contains p a")
    case True
    then show ?thesis using "1.prems" by (intro exI [of _ 0]) auto
  next
    case False
    then have u: "a \<in> set used" and r: "free_loop p used (i + 1) (addr_Next a) = None"
      using "1.prems" by (auto simp: free_loop.simps [of p used i a] split: if_splits)
    with 1 False obtain n where n: "\<forall>m<n. (addr_Next ^^ m) (addr_Next a) \<in> set used \<and> Contains p ((addr_Next ^^ m) (addr_Next a))"
      "i + 1 + int n = alloc_limit \<or> \<not> Contains p ((addr_Next ^^ n) (addr_Next a))" by fastforce
    have "\<forall>m<Suc n. (addr_Next ^^ m) a \<in> set used \<and> Contains p ((addr_Next ^^ m) a)"
      using n(1) u False by (auto simp: less_Suc_eq_0_disj funpow_Suc_right simp del: funpow.simps(2))
    then show ?thesis using n(2)
      by (intro exI [of _ "Suc n"]) (simp add: funpow_Suc_right algebra_simps del: funpow.simps(2))
  qed
qed


lemma Next_below: "\<lbrakk>same_family a c; addr_num a < addr_num c\<rbrakk> \<Longrightarrow> addr_Next a \<noteq> Addr0"
  by (cases a; cases c) (auto simp flip: word_less_def)

lemma Next_Addr0 [simp]: "(addr_Next ^^ n) Addr0 = Addr0"
  by (induction n) auto

lemma Next_reaches:
  assumes "same_family a a" "same_family a c" "addr_num c = addr_num a + int n"
  shows "(addr_Next ^^ n) a = c"
  using assms(2,3)
proof (induction n arbitrary: c)
  case 0
  then show ?case using addr_num_inj by simp
next
  case (Suc n)
  have "(addr_Next ^^ m) a \<noteq> Addr0 \<and> addr_num ((addr_Next ^^ m) a) = addr_num a + int m \<and> same_family a ((addr_Next ^^ m) a)" if "m \<le> Suc n" for m
    using that
  proof (induction m)
    case 0
    then show ?case using assms(1) by auto
  next
    case (Suc m)
    let ?x = "(addr_Next ^^ m) a"
    have x: "addr_num ?x = addr_num a + int m" "same_family a ?x" using Suc by auto
    then have "same_family ?x c" using \<open>same_family a c\<close> by (cases a; cases ?x; cases c) auto
    then have "addr_Next ?x \<noteq> Addr0" using Suc.prems x(1) \<open>addr_num c = _\<close> by (intro Next_below) auto
    then show ?case using Next_num [OF x(2)] x(1) by simp
  qed
  from this [of "Suc n"] have y: "addr_num ((addr_Next ^^ Suc n) a) = addr_num c" "same_family a ((addr_Next ^^ Suc n) a)"
    using Suc.prems(2) by auto
  then have "same_family ((addr_Next ^^ Suc n) a) c"
    using Suc.prems(1) by (cases a; cases "(addr_Next ^^ Suc n) a"; cases c) auto
  then show ?case using y(1) by (rule addr_num_inj)
qed

text \<open>Every address of the subnet above the base is reached, through addresses of the subnet.\<close>

lemma subnet_reached:
  assumes "Contains (Masked p) c" "\<not> has_zone (pfx_addr p)" "c \<noteq> base_of p"
  obtains k where "addr_num c = addr_num (base_of p) + 1 + int k" "(addr_Next ^^ k) (addr_Next (base_of p)) = c"
    "\<And>n. n \<le> k \<Longrightarrow> Contains (Masked p) ((addr_Next ^^ n) (addr_Next (base_of p)))"
proof -
  let ?b = "base_of p"
  have low: "same_family ?b c" "addr_num ?b \<le> addr_num c" using base_lowest [OF assms(1,2)] by auto
  then have "addr_num ?b \<noteq> addr_num c" using addr_num_inj assms(3) by blast
  with low obtain k where k: "addr_num c = addr_num ?b + 1 + int k"
    by (metis add.assoc order_le_less zless_iff_Suc_zadd of_nat_Suc add.commute)
  have self: "same_family ?b ?b" using low(1) by (cases ?b; cases c) auto
  have c: "(addr_Next ^^ Suc k) ?b = c" by (rule Next_reaches [OF self low(1)]) (simp add: k)
  have "Contains (Masked p) ((addr_Next ^^ Suc n) ?b)" if n: "n \<le> k" for n
  proof -
    have "(addr_Next ^^ Suc n) ?b \<noteq> Addr0"
    proof
      assume z: "(addr_Next ^^ Suc n) ?b = Addr0"
      have "(addr_Next ^^ (k - n + Suc n)) ?b = (addr_Next ^^ (k - n)) Addr0" unfolding funpow_add comp_apply z ..
      also have "\<dots> = Addr0" by simp
      finally show False using c n assms(1) by simp
    qed
    from Next_iter [OF self this] show ?thesis
      using subnet_convex [OF assms(1,2)] k n by auto
  qed
  with k c show thesis by (intro that [of k]) (simp_all add: funpow_Suc_right del: funpow.simps(2))
qed

lemma firstFree_Some:
  assumes "firstFreeAddr p used = Some a" "\<not> has_zone (pfx_addr p)"
  shows "Contains (Masked p) a" "a \<notin> set used" "a \<noteq> base_of p"
    "\<lbrakk>Contains (Masked p) c; c \<noteq> base_of p; addr_num c < addr_num a\<rbrakk> \<Longrightarrow> c \<in> set used"
proof -
  let ?b = "base_of p"
  obtain n where n: "a = (addr_Next ^^ n) (addr_Next ?b)" "Contains (Masked p) a" "a \<notin> set used"
    "\<forall>m<n. (addr_Next ^^ m) (addr_Next ?b) \<in> set used"
    using free_loop_Some assms(1) unfolding firstFreeAddr_def Let_def by blast
  show "Contains (Masked p) a" "a \<notin> set used" by (fact n)+
  have nz: "(addr_Next ^^ n) (addr_Next ?b) \<noteq> Addr0" using n(1,2) by auto
  have low: "same_family ?b a" using base_lowest [OF n(2) assms(2)] by simp
  have self: "same_family ?b ?b" using low by (cases ?b; cases a) auto
  have num: "addr_num a = addr_num ?b + 1 + int n"
    using Next_iter [OF self, of "Suc n"] nz n(1) by (simp add: funpow_Suc_right del: funpow.simps(2))
  then show "a \<noteq> ?b" by auto
  show "c \<in> set used" if c: "Contains (Masked p) c" "c \<noteq> ?b" "addr_num c < addr_num a"
  proof -
    obtain k where "addr_num c = addr_num ?b + 1 + int k" "(addr_Next ^^ k) (addr_Next ?b) = c"
      using subnet_reached [OF c(1) assms(2) c(2)] by metis
    then show ?thesis using n(4) num c(3) by fastforce
  qed
qed

lemma firstFree_None:
  assumes "firstFreeAddr p used = None" "\<not> has_zone (pfx_addr p)" "int (length used) < alloc_limit"
    and c: "Contains (Masked p) c" "c \<noteq> base_of p"
  shows "c \<in> set used"
proof -
  let ?b = "base_of p" and ?it = "\<lambda>n. (addr_Next ^^ n) (addr_Next (base_of p))"
  have "free_loop (Masked p) used 0 (addr_Next ?b) = None" using assms(1) by (simp add: firstFreeAddr_def Let_def)
  from free_loop_None [OF this] obtain n where n: "\<forall>m<n. ?it m \<in> set used \<and> Contains (Masked p) (?it m)"
    "int n = alloc_limit \<or> \<not> Contains (Masked p) (?it n)"
    by (auto simp: alloc_limit_def)
  obtain k where k: "?it k = c" "\<And>n. n \<le> k \<Longrightarrow> Contains (Masked p) (?it n)"
    using subnet_reached [OF c(1) assms(2) c(2)] by metis
  have "same_family ?b c" using base_lowest [OF c(1) assms(2)] by simp
  then have self: "same_family ?b ?b" by (cases ?b; cases c) auto
  have "inj_on ?it {..<n}"
  proof (rule inj_onI)
    fix x y
    assume xy: "x \<in> {..<n}" "y \<in> {..<n}" "?it x = ?it y"
    then have "?it x \<noteq> Addr0" "?it y \<noteq> Addr0" using n(1) by force+
    then show "x = y"
      using Next_iter [OF self, of "Suc x"] Next_iter [OF self, of "Suc y"] xy(3)
      by (simp add: funpow_Suc_right del: funpow.simps(2))
  qed
  then have "n \<le> card (set used)"
    using card_mono [of "set used" "?it ` {..<n}"] n(1) by (auto simp: card_image image_subset_iff)
  then have "int n \<noteq> alloc_limit" using assms(3) card_length [of used] by linarith
  with n(2) k(2) [of n] have "k < n" by (meson not_le)
  then show ?thesis using n(1) k(1) by auto
qed


section \<open>Histories\<close>

text \<open>
  The requests a server with an enabled tunnel serves one after the other; the table of hosts changes
  in any way. (If the row of a deleted host cannot be removed its route goes all the same; the row is skipped
  at the next start.)
\<close>

inductive tstep :: "'d device \<Rightarrow> tunnel \<Rightarrow> tunnelInfo \<Rightarrow> 'd tunnel_sys \<Rightarrow> 'd tunnel_sys \<Rightarrow> bool" for dev t info where
  enroll: "tstep dev t info s (fst (tunnelEnrollHandler dev (Some t) info ev hostID rhost body s))"
| revoke: "tstep dev t info s (fst (revokeTunnelPeerHandler dev (Some t) ev hostID s))"
| delete: "te_stmt ev 1 \<Longrightarrow> tstep dev t info s (delete_host_peer dev (Some t) ev host s)"
| hosts: "tstep dev t info s (s\<lparr>ts_db := (ts_db s)\<lparr>td_hosts := hs\<rparr>\<rparr>)"

text \<open>
  A subnet as the configuration gives it: without a zone, and without IPv4-mapped addresses, which
  would be read back as IPv4 addresses.
\<close>

definition plain_subnet :: "pfx \<Rightarrow> bool" where
  "plain_subnet p \<longleftrightarrow> \<not> has_zone (pfx_addr p) \<and> (\<forall>c. Contains (Masked p) c \<longrightarrow> \<not> Is4In6 c)"

definition peers_inv :: "pfx \<Rightarrow> tunnelPeer list \<Rightarrow> bool" where
  "peers_inv subnet ps \<longleftrightarrow> distinct (map tp_HostID ps) \<and>
     (\<forall>p \<in> set ps. \<forall>q \<in> set ps. tp_HostID p \<noteq> tp_HostID q \<longrightarrow> tp_PublicKey p \<noteq> tp_PublicKey q \<and> tp_TunnelIP p \<noteq> tp_TunnelIP q) \<and>
     (\<forall>p \<in> set ps. Contains (Masked subnet) (tp_TunnelIP p) \<and> tp_TunnelIP p \<noteq> base_of subnet \<and>
        tp_TunnelIP p \<noteq> ServerTunnelIP subnet \<and> length (tp_PublicKey p) = 32)"

text \<open>
  What WireGuard documents of its routing: an allowed address belongs to the peer it was last given to,
  \<open>replace_allowed_ips\<close> takes a peer's other addresses away, and so does the removal of the peer.
  \<open>route d a\<close> is the peer whose packets with the tunnel address \<open>a\<close> are let through.
\<close>

definition wg_routing :: "'d device \<Rightarrow> ('d \<Rightarrow> addr \<Rightarrow> wgkey option) \<Rightarrow> bool" where
  "wg_routing dev route \<longleftrightarrow>
     (\<forall>k a d d' b. IsValid a \<longrightarrow> \<not> has_zone a \<longrightarrow> dev (SetPeer (host_peer k a)) d = Some d' \<longrightarrow>
        route d' b = (if b = a then Some k else if route d b = Some k then None else route d b)) \<and>
     (\<forall>k d d' b. dev (RemovePeer k) d = Some d' \<longrightarrow> route d' b = (if route d b = Some k then None else route d b))"

definition routes_ok :: "('d \<Rightarrow> addr \<Rightarrow> wgkey option) \<Rightarrow> 'd tunnel_sys \<Rightarrow> bool" where
  "routes_ok route s \<longleftrightarrow> (\<forall>a k. route (ts_dev s) a = Some k \<longleftrightarrow>
     (\<exists>p \<in> set (td_peers (ts_db s)). tp_TunnelIP p = a \<and> tp_PublicKey p = k))"

lemma Contains_valid: "Contains p a \<Longrightarrow> IsValid a \<and> \<not> has_zone a"
  by (cases a) (auto simp: Contains_def)

lemma not_mapped: "\<not> Is4In6 a \<Longrightarrow> Unmap a = a"
  by (cases a) auto

lemma Masked_twice: "\<lbrakk>Contains (Masked p) c; \<not> has_zone (pfx_addr p)\<rbrakk> \<Longrightarrow> Masked (Masked p) = Masked p"
  by (erule (1) Masked_cases) (simp_all add: Masked_def drop_push_drop)

lemma find_mem: "find P xs = Some x \<Longrightarrow> x \<in> set xs \<and> P x"
  by (auto simp: find_Some_iff)

lemma no_conflict:
  "\<not> peer_conflict p db \<longleftrightarrow> (\<forall>q \<in> set (td_peers db). tp_HostID q \<noteq> tp_HostID p \<longrightarrow>
     tp_PublicKey q \<noteq> tp_PublicKey p \<and> tp_TunnelIP q \<noteq> tp_TunnelIP p)"
  by (auto simp: peer_conflict_def list_ex_iff)

text \<open>The outcomes of an enrolment.\<close>

lemma EnrollPeer_cases:
  assumes "EnrollPeer ev host key subnet reserved db = (db', r)"
  obtains (failed) e where "r = Inl e" "db' = db"
  | (again) p where "p \<in> set (td_peers db)" "tp_HostID p = host" "r = Inr (tp_TunnelIP p)"
      "\<not> peer_conflict (p\<lparr>tp_PublicKey := key, tp_EnrolledAt := te_now ev\<rparr>) db"
      "db' = db\<lparr>td_peers := map (\<lambda>q. if tp_HostID q = host then p\<lparr>tp_PublicKey := key, tp_EnrolledAt := te_now ev\<rparr> else q) (td_peers db)\<rparr>"
  | (fresh) a where "\<forall>p \<in> set (td_peers db). tp_HostID p \<noteq> host" "r = Inr a"
      "firstFreeAddr subnet (reserved # map (Unmap \<circ> tp_TunnelIP) (td_peers db)) = Some a"
      "\<not> peer_conflict \<lparr>tp_HostID = host, tp_PublicKey = key, tp_TunnelIP = a, tp_EnrolledAt = te_now ev\<rparr> db"
      "db' = db\<lparr>td_peers := td_peers db @ [\<lparr>tp_HostID = host, tp_PublicKey = key, tp_TunnelIP = a, tp_EnrolledAt = te_now ev\<rparr>]\<rparr>"
proof (cases "\<exists>e. r = Inl e")
  case True
  then have "db' = db" using assms by (auto simp: EnrollPeer_def Let_def split: if_splits option.splits)
  then show thesis using True failed by blast
next
  case False
  then obtain v where r: "r = Inr v" by (cases r) auto
  show thesis
  proof (cases "find (\<lambda>p. tp_HostID p = host) (td_peers db)")
    case None
    then have "\<forall>p \<in> set (td_peers db). tp_HostID p \<noteq> host" by (auto simp: find_None_iff)
    moreover obtain a where a: "firstFreeAddr subnet (reserved # map (Unmap \<circ> tp_TunnelIP) (td_peers db)) = Some a"
      using assms r
      by (cases "firstFreeAddr subnet (reserved # map (Unmap \<circ> tp_TunnelIP) (td_peers db))")
         (simp_all add: EnrollPeer_def None split: if_splits)
    let ?p = "\<lparr>tp_HostID = host, tp_PublicKey = key, tp_TunnelIP = a, tp_EnrolledAt = te_now ev\<rparr>"
    have "r = Inr a \<and> \<not> peer_conflict ?p db \<and> db' = db\<lparr>td_peers := td_peers db @ [?p]\<rparr>"
      using assms r by (simp add: EnrollPeer_def None a Let_def split: if_splits) auto
    ultimately show thesis using fresh a by blast
  next
    case (Some p)
    then have "p \<in> set (td_peers db)" "tp_HostID p = host" by (auto dest: find_mem)
    moreover have "r = Inr (tp_TunnelIP p)" "\<not> peer_conflict (p\<lparr>tp_PublicKey := key, tp_EnrolledAt := te_now ev\<rparr>) db"
      "db' = db\<lparr>td_peers := map (\<lambda>q. if tp_HostID q = host then p\<lparr>tp_PublicKey := key, tp_EnrolledAt := te_now ev\<rparr> else q) (td_peers db)\<rparr>"
      using assms r by (auto simp: EnrollPeer_def Some Let_def split: if_splits)
    ultimately show thesis by (rule again)
  qed
qed

lemma again_rows:
  assumes "p \<in> set ps" "tp_HostID p = host" "distinct (map tp_HostID ps)"
  shows "set (map (\<lambda>q. if tp_HostID q = host then p' else q) ps) = insert p' (set ps - {p})"
proof -
  have one: "q = p" if "q \<in> set ps" "tp_HostID q = host" for q
    using that assms by (metis distinct_map inj_onD)
  have "x \<in> set (map (\<lambda>q. if tp_HostID q = host then p' else q) ps) \<longleftrightarrow>
      (\<exists>q \<in> set ps. tp_HostID q = host \<and> x = p') \<or> (\<exists>q \<in> set ps. tp_HostID q \<noteq> host \<and> x = q)" for x
    by (auto simp: image_iff)
  with one assms(1,2) show ?thesis by blast
qed

lemma Masked_zone: "\<not> has_zone (pfx_addr p) \<Longrightarrow> \<not> has_zone (base_of p)"
  by (cases "pfx_addr p") (auto simp: Masked_def)

lemma Masked_Masked: "\<not> has_zone (pfx_addr p) \<Longrightarrow> Contains (Masked (Masked p)) a \<Longrightarrow> Masked (Masked p) = Masked p"
  by (cases p; cases "pfx_addr p") (auto simp: Masked_def drop_push_drop)

lemma free_addr:
  assumes "firstFreeAddr (Masked p) used = Some a" "\<not> has_zone (pfx_addr p)"
  shows "Contains (Masked p) a" "a \<notin> set used" "a \<noteq> base_of p"
    "\<lbrakk>Contains (Masked p) c; c \<noteq> base_of p; addr_num c < addr_num a\<rbrakk> \<Longrightarrow> c \<in> set used"
proof -
  note free = firstFree_Some [OF assms(1) Masked_zone [OF assms(2)]]
  note eq = Masked_Masked [OF assms(2) free(1)]
  show "Contains (Masked p) a" "a \<notin> set used" "a \<noteq> base_of p"
    "\<lbrakk>Contains (Masked p) c; c \<noteq> base_of p; addr_num c < addr_num a\<rbrakk> \<Longrightarrow> c \<in> set used"
    using free unfolding eq by blast+
qed

lemma peers_inv_again:
  assumes "peers_inv subnet ps" "p \<in> set ps" "tp_HostID p' = tp_HostID p" "tp_TunnelIP p' = tp_TunnelIP p" "length (tp_PublicKey p') = 32"
    "\<forall>q \<in> set ps. tp_HostID q \<noteq> tp_HostID p \<longrightarrow> tp_PublicKey q \<noteq> tp_PublicKey p' \<and> tp_TunnelIP q \<noteq> tp_TunnelIP p'"
  shows "peers_inv subnet (map (\<lambda>q. if tp_HostID q = tp_HostID p then p' else q) ps)"
proof -
  have "map tp_HostID (map (\<lambda>q. if tp_HostID q = tp_HostID p then p' else q) ps) = map tp_HostID ps"
    using assms(3) by simp
  moreover have "set (map (\<lambda>q. if tp_HostID q = tp_HostID p then p' else q) ps) = insert p' (set ps - {p})"
    by (rule again_rows [OF assms(2) refl]) (use assms(1) in \<open>simp add: peers_inv_def\<close>)
  ultimately show ?thesis using assms unfolding peers_inv_def by (simp only:) auto
qed

lemma EnrollPeer_inv:
  assumes "peers_inv subnet (td_peers db)" "\<not> has_zone (pfx_addr subnet)" "length key = 32"
    "EnrollPeer ev host key (Masked subnet) (ServerTunnelIP subnet) db = (db', r)"
  shows "peers_inv subnet (td_peers db')"
  using assms(4)
proof (cases rule: EnrollPeer_cases)
  case failed
  then show ?thesis using assms(1) by simp
next
  case (again p)
  then show ?thesis using peers_inv_again [OF assms(1) again(1)] assms(3) by (simp add: no_conflict)
next
  case (fresh a)
  note free = free_addr [OF fresh(3) assms(2)]
  show ?thesis using assms(1,3) fresh(1,4,5) free(1-3) by (auto simp: peers_inv_def no_conflict)
qed


text \<open>The device follows the table: every handler keeps both.\<close>

definition tunnel_inv :: "pfx \<Rightarrow> ('d \<Rightarrow> addr \<Rightarrow> wgkey option) \<Rightarrow> 'd tunnel_sys \<Rightarrow> bool" where
  "tunnel_inv subnet route s \<longleftrightarrow> peers_inv subnet (td_peers (ts_db s)) \<and> routes_ok route s"

lemma KeyFromBytes_32: "length k = 32 \<Longrightarrow> KeyFromBytes k = Some k"
  by (simp add: KeyFromBytes_def)

lemma ParseKey_32: "ParseKey s = Some k \<Longrightarrow> length k = 32"
  by (auto simp: ParseKey_def KeyFromBytes_def split: option.splits if_splits)

lemma peer_ip_valid: "\<lbrakk>peers_inv subnet ps; p \<in> set ps\<rbrakk> \<Longrightarrow> IsValid (tp_TunnelIP p) \<and> \<not> has_zone (tp_TunnelIP p)"
  using Contains_valid by (auto simp: peers_inv_def)

lemma same_host: "\<lbrakk>peers_inv subnet ps; p \<in> set ps; q \<in> set ps; tp_HostID p = tp_HostID q\<rbrakk> \<Longrightarrow> p = q"
  by (metis distinct_map inj_onD peers_inv_def)

text \<open>A written row and the call of the device that goes with it.\<close>

lemma routes_set:
  assumes "wg_routing dev route" "routes_ok route s" "peers_inv subnet (td_peers (ts_db s))"
    and "p \<in> set ps'" "set ps' - {p} = {q \<in> set (td_peers (ts_db s)). tp_HostID q \<noteq> tp_HostID p}"
    and "\<forall>q \<in> set (td_peers (ts_db s)). if tp_HostID q = tp_HostID p then tp_TunnelIP q = tp_TunnelIP p
           else tp_PublicKey q \<noteq> tp_PublicKey p \<and> tp_TunnelIP q \<noteq> tp_TunnelIP p"
    and "IsValid (tp_TunnelIP p)" "\<not> has_zone (tp_TunnelIP p)"
    and "dev (SetPeer (host_peer (tp_PublicKey p) (tp_TunnelIP p))) (ts_dev s) = Some d"
  shows "route d a = Some k \<longleftrightarrow> (\<exists>q \<in> set ps'. tp_TunnelIP q = a \<and> tp_PublicKey q = k)"
proof -
  let ?ps = "set (td_peers (ts_db s))"
  have step: "route d a = (if a = tp_TunnelIP p then Some (tp_PublicKey p)
      else if route (ts_dev s) a = Some (tp_PublicKey p) then None else route (ts_dev s) a)"
    using assms(1,7,8,9) unfolding wg_routing_def by blast
  have old: "route (ts_dev s) a = Some k \<longleftrightarrow> (\<exists>q \<in> ?ps. tp_TunnelIP q = a \<and> tp_PublicKey q = k)" for k
    using assms(2) unfolding routes_ok_def by blast
  have ps': "q \<in> set ps' \<longleftrightarrow> q = p \<or> q \<in> ?ps \<and> tp_HostID q \<noteq> tp_HostID p" for q
    using assms(4,5) by blast
  show ?thesis
  proof (cases "a = tp_TunnelIP p")
    case True
    have "tp_TunnelIP q \<noteq> a" if "q \<in> ?ps" "tp_HostID q \<noteq> tp_HostID p" for q
      using assms(6) that True by auto
    then show ?thesis using step True ps' by auto
  next
    case False
    have "\<not> (\<exists>q \<in> ?ps. tp_TunnelIP q = a \<and> tp_PublicKey q = tp_PublicKey p)"
      using assms(6) False by metis
    then have "route (ts_dev s) a \<noteq> Some (tp_PublicKey p)" by (simp only: old) blast
    then have "route d a = route (ts_dev s) a" using step False by (simp only: if_False)
    moreover have "(\<exists>q \<in> set ps'. tp_TunnelIP q = a \<and> tp_PublicKey q = k) \<longleftrightarrow> (\<exists>q \<in> ?ps. tp_TunnelIP q = a \<and> tp_PublicKey q = k)"
      using assms(6) False ps' by metis
    ultimately show ?thesis using old by simp
  qed
qed

lemma routes_remove:
  assumes "wg_routing dev route" "routes_ok route s" "peers_inv subnet (td_peers (ts_db s))"
    and "p \<in> set (td_peers (ts_db s))" "dev (RemovePeer (tp_PublicKey p)) (ts_dev s) = Some d"
  shows "route d a = Some k \<longleftrightarrow>
    (\<exists>q \<in> set (filter (\<lambda>q. tp_HostID q \<noteq> tp_HostID p) (td_peers (ts_db s))). tp_TunnelIP q = a \<and> tp_PublicKey q = k)"
proof -
  let ?ps = "set (td_peers (ts_db s))"
  have step: "route d a = (if route (ts_dev s) a = Some (tp_PublicKey p) then None else route (ts_dev s) a)"
    using assms(1,5) unfolding wg_routing_def by blast
  have old: "route (ts_dev s) a = Some k \<longleftrightarrow> (\<exists>q \<in> ?ps. tp_TunnelIP q = a \<and> tp_PublicKey q = k)" for k
    using assms(2) unfolding routes_ok_def by blast
  have key: "tp_PublicKey q = tp_PublicKey p \<longleftrightarrow> tp_HostID q = tp_HostID p" if "q \<in> ?ps" for q
    using same_host [OF assms(3) that assms(4)] assms(3,4) that unfolding peers_inv_def by blast
  show ?thesis
  proof (cases "route (ts_dev s) a = Some (tp_PublicKey p)")
    case True
    then have "route d a = None" using step by simp
    moreover have "\<not> (\<exists>q \<in> ?ps. tp_HostID q \<noteq> tp_HostID p \<and> tp_TunnelIP q = a)"
    proof
      assume "\<exists>q \<in> ?ps. tp_HostID q \<noteq> tp_HostID p \<and> tp_TunnelIP q = a"
      then obtain q where q: "q \<in> ?ps" "tp_HostID q \<noteq> tp_HostID p" "tp_TunnelIP q = a" by blast
      then have "route (ts_dev s) a = Some (tp_PublicKey q)" using old by blast
      then show False using True key [OF q(1)] q(2) by simp
    qed
    ultimately show ?thesis by auto
  next
    case False
    then have "route d a = route (ts_dev s) a" using step by (simp only: if_False)
    then have "route d a = Some k \<longleftrightarrow> (\<exists>q \<in> ?ps. tp_TunnelIP q = a \<and> tp_PublicKey q = k)" by (simp only: old)
    moreover have "tp_HostID q \<noteq> tp_HostID p" if "q \<in> ?ps" "tp_TunnelIP q = a" for q
      using False old that key [OF that(1)] by metis
    ultimately show ?thesis by auto
  qed
qed


lemma routes_enroll:
  assumes "wg_routing dev route" "tunnel_inv subnet route s" "\<not> has_zone (pfx_addr subnet)" "length key = 32"
    and e: "EnrollPeer ev host key (Masked subnet) (ServerTunnelIP subnet) (ts_db s) = (db', Inr ip)"
    and d: "dev (SetPeer (host_peer key ip)) (ts_dev s) = Some d"
  shows "tunnel_inv subnet route (s\<lparr>ts_db := db', ts_dev := d\<rparr>)"
proof -
  have inv: "peers_inv subnet (td_peers (ts_db s))" and r: "routes_ok route s" using assms(2) by (simp_all add: tunnel_inv_def)
  have inv': "peers_inv subnet (td_peers db')" by (rule EnrollPeer_inv [OF inv assms(3,4) e])
  have "route d a = Some k \<longleftrightarrow> (\<exists>q \<in> set (td_peers db'). tp_TunnelIP q = a \<and> tp_PublicKey q = k)" for a k
    using e
  proof (cases rule: EnrollPeer_cases)
    case (again p)
    let ?p = "p\<lparr>tp_PublicKey := key, tp_EnrolledAt := te_now ev\<rparr>"
    have rows: "set (td_peers db') = insert ?p (set (td_peers (ts_db s)) - {p})"
      using again_rows [OF again(1,2)] inv again(5) by (simp add: peers_inv_def)
    have p: "tp_HostID ?p = tp_HostID p" "tp_TunnelIP ?p = ip" "tp_PublicKey ?p = key" using again(3) by simp_all
    show ?thesis
    proof (rule routes_set [OF assms(1) r inv, where p = ?p])
      show "?p \<in> set (td_peers db')" using rows by blast
      show "set (td_peers db') - {?p} = {q \<in> set (td_peers (ts_db s)). tp_HostID q \<noteq> tp_HostID ?p}"
        unfolding rows p(1) using same_host [OF inv _ again(1)] p(1) by fastforce
      show "\<forall>q \<in> set (td_peers (ts_db s)). if tp_HostID q = tp_HostID ?p then tp_TunnelIP q = tp_TunnelIP ?p
           else tp_PublicKey q \<noteq> tp_PublicKey ?p \<and> tp_TunnelIP q \<noteq> tp_TunnelIP ?p"
        using again(4) same_host [OF inv _ again(1)] by (auto simp: no_conflict)
      show "IsValid (tp_TunnelIP ?p)" "\<not> has_zone (tp_TunnelIP ?p)" using peer_ip_valid [OF inv again(1)] by simp_all
      show "dev (SetPeer (host_peer (tp_PublicKey ?p) (tp_TunnelIP ?p))) (ts_dev s) = Some d" unfolding p using d .
    qed
  next
    case (fresh a')
    let ?p = "\<lparr>tp_HostID = host, tp_PublicKey = key, tp_TunnelIP = a', tp_EnrolledAt = te_now ev\<rparr>"
    have ip: "ip = a'" using fresh(2) by simp
    have rows: "set (td_peers db') = insert ?p (set (td_peers (ts_db s)))" using fresh(5) by simp
    show ?thesis
    proof (rule routes_set [OF assms(1) r inv, where p = ?p])
      show "?p \<in> set (td_peers db')" using rows by blast
      show "set (td_peers db') - {?p} = {q \<in> set (td_peers (ts_db s)). tp_HostID q \<noteq> tp_HostID ?p}"
        unfolding rows using fresh(1) by fastforce
      show "\<forall>q \<in> set (td_peers (ts_db s)). if tp_HostID q = tp_HostID ?p then tp_TunnelIP q = tp_TunnelIP ?p
           else tp_PublicKey q \<noteq> tp_PublicKey ?p \<and> tp_TunnelIP q \<noteq> tp_TunnelIP ?p"
        using fresh(1,4) by (auto simp: no_conflict)
      show "IsValid (tp_TunnelIP ?p)" "\<not> has_zone (tp_TunnelIP ?p)"
        using Contains_valid [OF free_addr(1) [OF fresh(3) assms(3)]] by simp_all
      show "dev (SetPeer (host_peer (tp_PublicKey ?p) (tp_TunnelIP ?p))) (ts_dev s) = Some d" using d ip by simp
    qed
  qed simp
  with inv' show ?thesis by (simp add: tunnel_inv_def routes_ok_def)
qed

lemma Enroll_ip_valid:
  assumes "peers_inv subnet (td_peers db)" "\<not> has_zone (pfx_addr subnet)"
    "EnrollPeer ev host key (Masked subnet) (ServerTunnelIP subnet) db = (db', Inr ip)"
  shows "IsValid ip"
  using assms(3)
proof (cases rule: EnrollPeer_cases)
  case (again p)
  then show ?thesis using peer_ip_valid [OF assms(1)] by simp
next
  case (fresh a)
  then show ?thesis using Contains_valid [OF free_addr(1) [OF fresh(3) assms(2)]] by simp
qed simp

lemma Enroll_fail_same: "EnrollPeer ev host key subnet reserved db = (db', Inl e) \<Longrightarrow> db' = db"
  by (cases rule: EnrollPeer_cases, assumption) auto

lemma enroll_keeps:
  assumes "wg_routing dev route" "\<forall>c d. dev c d \<noteq> None" "tunnel_inv subnet route s" "\<not> has_zone (pfx_addr subnet)"
  shows "tunnel_inv subnet route (fst (tunnelEnrollHandler dev (Some (StartTunnel_ip subnet pub)) info ev hostID rhost body s))"
proof (cases "\<exists>host raw k. hostID = Some host \<and> body = Some raw \<and> ParseKey (trim_space raw) = Some k \<and> \<not> key_IsZero k")
  case True
  then obtain host raw k where h: "hostID = Some host" "body = Some raw" "ParseKey (trim_space raw) = Some k" "\<not> key_IsZero k"
    by blast
  have k32: "length k = 32" using ParseKey_32 [OF h(3)] .
  obtain db r where e: "EnrollPeer ev host k (Masked subnet) (ServerTunnelIP subnet) (ts_db s) = (db, r)" by fastforce
  show ?thesis
  proof (cases r)
    case (Inl x)
    then have "db = ts_db s" using Enroll_fail_same e by blast
    then show ?thesis using assms(3) h e Inl
      by (simp add: tunnelEnrollHandler_def StartTunnel_ip_def)
  next
    case (Inr ip)
    have inv: "peers_inv subnet (td_peers (ts_db s))" using assms(3) by (simp add: tunnel_inv_def)
    have "IsValid ip" using Enroll_ip_valid [OF inv assms(4)] e Inr by blast
    then have set: "tunnel_SetPeer dev k ip (ts_dev s) = dev (SetPeer (host_peer k ip)) (ts_dev s)"
      by (simp add: tunnel_SetPeer_def PeerFromParts_def KeyFromBytes_32 [OF k32])
    obtain d where d: "dev (SetPeer (host_peer k ip)) (ts_dev s) = Some d" using assms(2) by fastforce
    have "tunnel_inv subnet route (s\<lparr>ts_db := db, ts_dev := d\<rparr>)"
      by (rule routes_enroll [OF assms(1,3,4) k32 _ d]) (use e Inr in simp)
    then show ?thesis using h e Inr d
      by (simp add: tunnelEnrollHandler_def StartTunnel_ip_def set Let_def)
  qed
next
  case False
  then show ?thesis using assms(3)
    by (auto simp: tunnelEnrollHandler_def split: option.splits)
qed

lemma GetPeer_mem:
  assumes "GetPeer ev host db = Inr p" "peers_inv subnet (td_peers db)" "plain_subnet subnet"
  shows "p \<in> set (td_peers db) \<and> tp_HostID p = host"
proof -
  obtain q where q: "find (\<lambda>p. tp_HostID p = host) (td_peers db) = Some q" "p = read_peer q"
    using assms(1) by (auto simp: GetPeer_def split: if_splits option.splits)
  then have m: "q \<in> set (td_peers db)" "tp_HostID q = host" by (auto dest: find_mem)
  then have "\<not> Is4In6 (tp_TunnelIP q)" using assms(2,3) by (auto simp: peers_inv_def plain_subnet_def)
  then have "p = q" using q(2) by (simp add: read_peer_def not_mapped)
  with m show ?thesis by simp
qed

lemma peers_inv_filter: "peers_inv subnet ps \<Longrightarrow> peers_inv subnet (filter P ps)"
  by (auto simp: peers_inv_def distinct_map inj_on_def)

lemma remove_keeps:
  assumes "wg_routing dev route" "tunnel_inv subnet route s" "plain_subnet subnet"
    "GetPeer ev host (ts_db s) = Inr p" "tunnel_RemovePeer dev (tp_PublicKey p) (ts_dev s) = Some d"
  shows "tunnel_inv subnet route (s\<lparr>ts_db := (ts_db s)\<lparr>td_peers := filter (\<lambda>p. tp_HostID p \<noteq> host) (td_peers (ts_db s))\<rparr>, ts_dev := d\<rparr>)"
proof -
  have inv: "peers_inv subnet (td_peers (ts_db s))" and r: "routes_ok route s" using assms(2) by (simp_all add: tunnel_inv_def)
  have p: "p \<in> set (td_peers (ts_db s))" "tp_HostID p = host" using GetPeer_mem [OF assms(4) inv assms(3)] by auto
  have "length (tp_PublicKey p) = 32" using inv p(1) by (auto simp: peers_inv_def)
  then have d: "dev (RemovePeer (tp_PublicKey p)) (ts_dev s) = Some d"
    using assms(5) by (simp add: tunnel_RemovePeer_def KeyFromBytes_32)
  show ?thesis using routes_remove [OF assms(1) r inv p(1) d] inv peers_inv_filter p(2)
    by (simp add: tunnel_inv_def routes_ok_def)
qed


lemma RemovePeer_works:
  assumes "GetPeer ev host (ts_db s) = Inr p" "tunnel_inv subnet route s" "plain_subnet subnet" "\<forall>c d. dev c d \<noteq> None"
  shows "\<exists>d. tunnel_RemovePeer dev (tp_PublicKey p) (ts_dev s) = Some d"
proof -
  have "p \<in> set (td_peers (ts_db s))" using GetPeer_mem assms(1-3) unfolding tunnel_inv_def by blast
  then have "KeyFromBytes (tp_PublicKey p) = Some (tp_PublicKey p)"
    using assms(2) by (simp add: tunnel_inv_def peers_inv_def KeyFromBytes_32)
  then show ?thesis using assms(4) by (auto simp: tunnel_RemovePeer_def)
qed

lemma tstep_inv:
  assumes "tstep dev (StartTunnel_ip subnet pub) info s s'" "wg_routing dev route" "\<forall>c d. dev c d \<noteq> None"
    "plain_subnet subnet" "tunnel_inv subnet route s"
  shows "tunnel_inv subnet route s'"
  using assms(1,5)
proof (cases rule: tstep.cases)
  case (enroll ev hostID rhost body)
  then show ?thesis using enroll_keeps assms by (auto simp: plain_subnet_def)
next
  case (revoke ev hostID)
  show ?thesis
  proof (cases "\<exists>host p. hostID = Some host \<and> GetPeer ev host (ts_db s) = Inr p \<and> te_stmt ev 1")
    case True
    then obtain host p where g: "hostID = Some host" "GetPeer ev host (ts_db s) = Inr p" "te_stmt ev 1" by blast
    obtain d where d: "tunnel_RemovePeer dev (tp_PublicKey p) (ts_dev s) = Some d"
      using RemovePeer_works [OF g(2) assms(5,4,3)] by blast
    show ?thesis using remove_keeps [OF assms(2,5,4) g(2) d] g
      by (simp add: revoke revokeTunnelPeerHandler_def DeletePeer_def Let_def d split: if_splits)
  next
    case False
    then show ?thesis using assms(5)
      by (auto simp: revoke revokeTunnelPeerHandler_def DeletePeer_def split: option.splits sum.splits)
  qed
next
  case (delete ev host)
  show ?thesis
  proof (cases "GetPeer ev host (ts_db s)")
    case (Inr p)
    obtain d where d: "tunnel_RemovePeer dev (tp_PublicKey p) (ts_dev s) = Some d"
      using RemovePeer_works [OF Inr assms(5,4,3)] by blast
    show ?thesis using remove_keeps [OF assms(2,5,4) Inr d] Inr delete(2)
      by (simp add: delete(1) delete_host_peer_def DeletePeer_def Let_def d)
  qed (use assms(5) in \<open>simp add: delete delete_host_peer_def\<close>)
next
  case (hosts hs)
  then show ?thesis using assms(5) by (simp add: tunnel_inv_def routes_ok_def)
qed

lemma tunnel_reach_inv:
  assumes "(tstep dev (StartTunnel_ip subnet pub) info)\<^sup>*\<^sup>* s0 s" "wg_routing dev route" "\<forall>c d. dev c d \<noteq> None"
    "plain_subnet subnet" "td_peers (ts_db s0) = []" "\<forall>a. route (ts_dev s0) a = None"
  shows "tunnel_inv subnet route s"
  using assms(1)
proof (induction rule: rtranclp_induct)
  case base
  then show ?case using assms(5,6) by (simp add: tunnel_inv_def peers_inv_def routes_ok_def)
next
  case (step s s')
  then show ?case using tstep_inv assms by blast
qed

lemma peers_inv_ips: "peers_inv subnet ps \<Longrightarrow> distinct (map tp_TunnelIP ps)"
  unfolding peers_inv_def distinct_map inj_on_def by blast

text \<open>
  C18. The tunnel lets through exactly what the table says. After any history of enrolments, revocations and
  deletions of hosts, with any failures of the database, a packet with a tunnel address is taken from the
  key of the host that has that address in the table and from no other; addresses are inside the subnet, none
  is given out twice, and none is the subnet's own or the server's. (Calls of the device succeed, and requests do not overlap.)
\<close>

theorem tunnel_routes_follow_table:
  assumes "(tstep dev (StartTunnel_ip subnet pub) info)\<^sup>*\<^sup>* s0 s" "wg_routing dev route" "\<forall>c d. dev c d \<noteq> None"
    "plain_subnet subnet" "td_peers (ts_db s0) = []" "\<forall>a. route (ts_dev s0) a = None"
  shows "(route (ts_dev s) a = Some k \<longleftrightarrow> (\<exists>p \<in> set (td_peers (ts_db s)). tp_TunnelIP p = a \<and> tp_PublicKey p = k)) \<and>
    distinct (map tp_TunnelIP (td_peers (ts_db s))) \<and>
    (\<forall>p \<in> set (td_peers (ts_db s)). Contains (Masked subnet) (tp_TunnelIP p) \<and> tp_TunnelIP p \<noteq> base_of subnet \<and>
       tp_TunnelIP p \<noteq> ServerTunnelIP subnet)"
proof -
  have inv: "peers_inv subnet (td_peers (ts_db s))" "routes_ok route s"
    using tunnel_reach_inv [OF assms] by (simp_all add: tunnel_inv_def)
  moreover have "\<forall>p \<in> set (td_peers (ts_db s)). Contains (Masked subnet) (tp_TunnelIP p) \<and> tp_TunnelIP p \<noteq> base_of subnet \<and>
       tp_TunnelIP p \<noteq> ServerTunnelIP subnet"
    using inv(1) by (simp add: peers_inv_def)
  ultimately show ?thesis using peers_inv_ips [OF inv(1)] unfolding routes_ok_def by blast
qed

text \<open>A device as a map from addresses to keys, and a subnet with two addresses for hosts.\<close>

definition map_device :: "(addr \<Rightarrow> wgkey option) device" where
  "map_device c m = Some (case c of
     SetPeer p \<Rightarrow> (\<lambda>b. if b \<in> pfx_addr ` set (pe_AllowedIPs p) then Some (pe_PublicKey p)
                      else if m b = Some (pe_PublicKey p) then None else m b)
   | RemovePeer k \<Rightarrow> (\<lambda>b. if m b = Some k then None else m b))"

lemma map_device_routing: "wg_routing map_device (\<lambda>m. m)"
  by (auto simp: wg_routing_def map_device_def host_peer_def PrefixFrom_def without_zone.simps elim!: IsValid.elims)

definition tun_subnet :: pfx where "tun_subnet = Pfx (A4 0x0A530000) 30"

definition tun_info :: tunnelInfo where
  "tun_info = \<lparr>tn_ListenPort = 51820, tn_Endpoint = ''vpn.example'', tn_Subnet = ''10.83.0.0/30'', tn_PublicHTTP = False, tn_ServerStorage = True\<rparr>"

definition tun_ev :: tunnel_env where "tun_ev = \<lparr>te_now = unix_epoch, te_stmt = (\<lambda>_. True)\<rparr>"

definition tun_host :: "int \<Rightarrow> hostRow" where
  "tun_host i = new_row i ''h'' (replicate 32 (CHR ''h'')) 10 unix_epoch"

definition tun0 :: "(addr \<Rightarrow> wgkey option) tunnel_sys" where
  "tun0 = \<lparr>ts_db = \<lparr>td_identity = None, td_peers = [], td_hosts = [tun_host 1, tun_host 2]\<rparr>, ts_dev = (\<lambda>_. None)\<rparr>"

definition tun_key :: "char \<Rightarrow> string" where "tun_key c = replicate 32 c"

definition tun_enroll :: "int \<Rightarrow> char \<Rightarrow> (addr \<Rightarrow> wgkey option) tunnel_sys \<Rightarrow> (addr \<Rightarrow> wgkey option) tunnel_sys \<times> (int + enrollReply)" where
  "tun_enroll i c = tunnelEnrollHandler map_device (Some (StartTunnel_ip tun_subnet (tun_key (CHR ''s'')))) tun_info tun_ev (Some i)
     ''monitor.example'' (Some (key_String (tun_key c)))"

lemma tun_subnet_plain: "plain_subnet tun_subnet"
  by (auto simp: plain_subnet_def tun_subnet_def Masked_def elim!: Is4In6.elims)


theorem tunnel_routes_follow_table_witness:
  "ts_dev (fst (tun_enroll 2 (CHR ''b'') (fst (tun_enroll 1 (CHR ''a'') tun0)))) (A4 0x0A530003) = Some (tun_key (CHR ''b''))
   \<and> ts_dev (fst (tun_enroll 2 (CHR ''b'') (fst (tun_enroll 1 (CHR ''a'') tun0)))) (A4 0x0A530001) = None"
proof -
  let ?s = "fst (tun_enroll 2 (CHR ''b'') (fst (tun_enroll 1 (CHR ''a'') tun0)))"
  let ?step = "tstep map_device (StartTunnel_ip tun_subnet (tun_key (CHR ''s''))) tun_info"
  have "?step tun0 (fst (tun_enroll 1 (CHR ''a'') tun0))" "?step (fst (tun_enroll 1 (CHR ''a'') tun0)) ?s"
    unfolding tun_enroll_def by (rule tstep.enroll)+
  then have reach: "?step\<^sup>*\<^sup>* tun0 ?s" by auto
  have dev: "\<forall>c d. map_device c d \<noteq> None" by (simp add: map_device_def)
  have init: "td_peers (ts_db tun0) = []" "\<forall>a. ts_dev tun0 a = None" by (simp_all add: tun0_def)
  note ok = tunnel_routes_follow_table [where route = "\<lambda>m. m", OF reach map_device_routing dev tun_subnet_plain init]
  have rows: "map (\<lambda>p. (tp_TunnelIP p, tp_PublicKey p)) (td_peers (ts_db ?s)) =
      [(A4 0x0A530002, tun_key (CHR ''a'')), (A4 0x0A530003, tun_key (CHR ''b''))]"
    by code_simp
  have mem: "(\<exists>p \<in> set (td_peers (ts_db ?s)). tp_TunnelIP p = a \<and> tp_PublicKey p = k) \<longleftrightarrow>
      (a, k) \<in> set [(A4 0x0A530002, tun_key (CHR ''a'')), (A4 0x0A530003, tun_key (CHR ''b''))]" for a k
    unfolding rows [symmetric] by (auto simp: image_iff)
  have routes: "ts_dev ?s a = Some k \<longleftrightarrow> (a, k) \<in> set [(A4 0x0A530002, tun_key (CHR ''a'')), (A4 0x0A530003, tun_key (CHR ''b''))]" for a k
    using ok [of a k] unfolding mem by blast
  have "ts_dev ?s (A4 0x0A530001) \<noteq> Some k" for k using routes [of "A4 0x0A530001" k] by simp
  then have "ts_dev ?s (A4 0x0A530001) = None" by (cases "ts_dev ?s (A4 0x0A530001)") blast+
  moreover have "ts_dev ?s (A4 0x0A530003) = Some (tun_key (CHR ''b''))"
    using routes [of "A4 0x0A530003" "tun_key (CHR ''b'')"] by simp
  ultimately show ?thesis by blast
qed

section \<open>Which address a host gets\<close>

definition free_ip :: "pfx \<Rightarrow> tunnelPeer list \<Rightarrow> addr \<Rightarrow> bool" where
  "free_ip subnet ps a \<longleftrightarrow> Contains (Masked subnet) a \<and> a \<noteq> base_of subnet \<and> a \<noteq> ServerTunnelIP subnet \<and> a \<notin> tp_TunnelIP ` set ps"

lemma firstFree_Masked: "\<not> has_zone (pfx_addr p) \<Longrightarrow> firstFreeAddr (Masked p) used = None \<Longrightarrow> firstFreeAddr p used = None"
  by (cases p; cases "pfx_addr p") (auto simp: firstFreeAddr_def Masked_def drop_push_drop split: if_splits)

lemma tstep_peers_inv:
  assumes "tstep dev (StartTunnel_ip subnet pub) info s s'" "\<not> has_zone (pfx_addr subnet)" "peers_inv subnet (td_peers (ts_db s))"
  shows "peers_inv subnet (td_peers (ts_db s'))"
  using assms(1)
proof (cases rule: tstep.cases)
  case (enroll ev hostID rhost body)
  show ?thesis
  proof (cases "\<exists>host raw k. hostID = Some host \<and> body = Some raw \<and> ParseKey (trim_space raw) = Some k \<and> \<not> key_IsZero k")
    case True
    then obtain host raw k where h: "hostID = Some host" "body = Some raw" "ParseKey (trim_space raw) = Some k" "\<not> key_IsZero k"
      by blast
    obtain db r where e: "EnrollPeer ev host k (Masked subnet) (ServerTunnelIP subnet) (ts_db s) = (db, r)" by fastforce
    have "ts_db s' = db"
      using h e by (simp add: enroll tunnelEnrollHandler_def StartTunnel_ip_def Let_def split: option.split sum.split)
    then show ?thesis using EnrollPeer_inv [OF assms(3,2) ParseKey_32 [OF h(3)] e] by simp
  next
    case False
    then show ?thesis using assms(3) by (auto simp: enroll tunnelEnrollHandler_def split: option.splits)
  qed
next
  case (revoke ev hostID)
  then show ?thesis using assms(3) peers_inv_filter [OF assms(3)]
    by (auto simp: revokeTunnelPeerHandler_def DeletePeer_def Let_def split: option.split sum.split tunnel_err.split)
next
  case (delete ev host)
  then show ?thesis using assms(3) peers_inv_filter [OF assms(3)]
    by (auto simp: delete_host_peer_def DeletePeer_def Let_def split: option.split sum.split)
qed (use assms(3) in simp)

lemma tunnel_reach_peers:
  assumes "(tstep dev (StartTunnel_ip subnet pub) info)\<^sup>*\<^sup>* s0 s" "\<not> has_zone (pfx_addr subnet)" "td_peers (ts_db s0) = []"
  shows "peers_inv subnet (td_peers (ts_db s))"
  using assms(1)
proof (induction rule: rtranclp_induct)
  case base
  then show ?case using assms(3) by (simp add: peers_inv_def)
next
  case (step s s')
  then show ?case using tstep_peers_inv assms(2) by blast
qed

lemma firstFree_free:
  assumes "peers_inv subnet ps" "plain_subnet subnet" "int (length ps) + 1 < alloc_limit"
  shows "case firstFreeAddr (Masked subnet) (ServerTunnelIP subnet # map (Unmap \<circ> tp_TunnelIP) ps) of
      None \<Rightarrow> \<forall>c. \<not> free_ip subnet ps c
    | Some a \<Rightarrow> free_ip subnet ps a \<and> (\<forall>c. free_ip subnet ps c \<longrightarrow> addr_num a \<le> addr_num c)"
proof -
  let ?used = "ServerTunnelIP subnet # map (Unmap \<circ> tp_TunnelIP) ps"
  have z: "\<not> has_zone (pfx_addr subnet)" using assms(2) by (simp add: plain_subnet_def)
  have "Unmap (tp_TunnelIP p) = tp_TunnelIP p" if "p \<in> set ps" for p
    using that assms(1,2) not_mapped by (auto simp: peers_inv_def plain_subnet_def)
  then have used: "set ?used = insert (ServerTunnelIP subnet) (tp_TunnelIP ` set ps)" by (simp add: image_image)
  show ?thesis
  proof (cases "firstFreeAddr (Masked subnet) ?used")
    case None
    have "c \<in> insert (ServerTunnelIP subnet) (tp_TunnelIP ` set ps)" if "Contains (Masked subnet) c" "c \<noteq> base_of subnet" for c
      unfolding used [symmetric] by (rule firstFree_None [OF firstFree_Masked [OF z None] z _ that]) (use assms(3) in simp)
    then show ?thesis unfolding None option.case free_ip_def by blast
  next
    case (Some a)
    note free = free_addr [OF Some z]
    have "addr_num a \<le> addr_num c" if c: "free_ip subnet ps c" for c
    proof (rule ccontr)
      assume "\<not> addr_num a \<le> addr_num c"
      then have "c \<in> set ?used" using free(4) [of c] c unfolding free_ip_def by (simp only: not_le) blast
      then show False using c unfolding used free_ip_def by blast
    qed
    moreover have "free_ip subnet ps a" using free(1-3) unfolding used free_ip_def by blast
    ultimately show ?thesis using Some by (simp only: option.case) blast
  qed
qed

definition key_taken :: "int \<Rightarrow> string \<Rightarrow> tunnelPeer list \<Rightarrow> bool" where
  "key_taken host key ps \<longleftrightarrow> list_ex (\<lambda>q. tp_HostID q \<noteq> host \<and> tp_PublicKey q = key) ps"

lemma conflict_is_taken:
  assumes "tp_HostID p = host" "tp_PublicKey p = key"
    "\<forall>q \<in> set (td_peers db). tp_HostID q \<noteq> host \<longrightarrow> tp_TunnelIP q \<noteq> tp_TunnelIP p"
  shows "peer_conflict p db \<longleftrightarrow> key_taken host key (td_peers db)"
  using assms unfolding peer_conflict_def key_taken_def list_ex_iff by (intro bex_cong refl) auto

lemma host_row_found:
  assumes "peers_inv subnet ps" "p \<in> set ps" "tp_HostID p = host"
  shows "find (\<lambda>p. tp_HostID p = host) ps = Some p"
proof (cases "find (\<lambda>p. tp_HostID p = host) ps")
  case None
  then show ?thesis using assms by (simp add: find_None_iff)
next
  case (Some q)
  then have "q \<in> set ps" "tp_HostID q = tp_HostID p" using find_mem [OF Some] assms(3) by simp_all
  then show ?thesis using same_host [OF assms(1) _ assms(2)] Some by blast
qed

lemma enrol_again:
  assumes "peers_inv subnet (td_peers db)" "p \<in> set (td_peers db)" "tp_HostID p = host" "\<forall>n. te_stmt ev n"
    "EnrollPeer ev host key (Masked subnet) (ServerTunnelIP subnet) db = (db', answer)"
  shows "answer = (if key_taken host key (td_peers db) then Inl ErrTunnelKeyTaken else Inr (tp_TunnelIP p))"
proof -
  have "peer_conflict (p\<lparr>tp_PublicKey := key, tp_EnrolledAt := te_now ev\<rparr>) db \<longleftrightarrow> key_taken host key (td_peers db)"
  proof (rule conflict_is_taken)
    show "\<forall>q \<in> set (td_peers db). tp_HostID q \<noteq> host \<longrightarrow> tp_TunnelIP q \<noteq> tp_TunnelIP (p\<lparr>tp_PublicKey := key, tp_EnrolledAt := te_now ev\<rparr>)"
      using assms(1-3) unfolding peers_inv_def by auto
  qed (use assms(3) in simp_all)
  then show ?thesis using assms(4,5) host_row_found [OF assms(1-3)] by (simp add: EnrollPeer_def Let_def split: if_splits)
qed

lemma enrol_new:
  assumes "peers_inv subnet (td_peers db)" "plain_subnet subnet" "\<forall>p \<in> set (td_peers db). tp_HostID p \<noteq> host"
    "\<forall>n. te_stmt ev n" "int (length (td_peers db)) + 1 < alloc_limit"
    "EnrollPeer ev host key (Masked subnet) (ServerTunnelIP subnet) db = (db', answer)"
  shows "if \<forall>c. \<not> free_ip subnet (td_peers db) c then answer = Inl TunnelExhausted
       else if key_taken host key (td_peers db) then answer = Inl ErrTunnelKeyTaken
       else if \<not> host_known host db then answer = Inl TunnelDB
       else \<exists>a. answer = Inr a \<and> free_ip subnet (td_peers db) a \<and> (\<forall>c. free_ip subnet (td_peers db) c \<longrightarrow> addr_num a \<le> addr_num c)"
proof -
  have none: "find (\<lambda>p. tp_HostID p = host) (td_peers db) = None" using assms(3) by (simp add: find_None_iff)
  note spec = firstFree_free [OF assms(1,2,5)]
  show ?thesis
  proof (cases "firstFreeAddr (Masked subnet) (ServerTunnelIP subnet # map (Unmap \<circ> tp_TunnelIP) (td_peers db))")
    case None
    then have "\<forall>c. \<not> free_ip subnet (td_peers db) c" using spec by simp
    moreover have "answer = Inl TunnelExhausted" using none None assms(4,6) by (simp add: EnrollPeer_def)
    ultimately show ?thesis by simp
  next
    case (Some a)
    then have a: "free_ip subnet (td_peers db) a" "\<forall>c. free_ip subnet (td_peers db) c \<longrightarrow> addr_num a \<le> addr_num c"
      using spec by simp_all
    have "peer_conflict \<lparr>tp_HostID = host, tp_PublicKey = key, tp_TunnelIP = a, tp_EnrolledAt = te_now ev\<rparr> db \<longleftrightarrow>
        key_taken host key (td_peers db)"
      by (rule conflict_is_taken) (use a(1) in \<open>auto simp: free_ip_def\<close>)
    then have "answer = (if key_taken host key (td_peers db) then Inl ErrTunnelKeyTaken
        else if \<not> host_known host db then Inl TunnelDB else Inr a)"
      using none Some assms(4,6) by (simp add: EnrollPeer_def Let_def split: if_splits)
    then show ?thesis using a by auto
  qed
qed

text \<open>
  C35. A host that enrols keeps the address it had, and a new host gets the lowest free address of the
  subnet; enrolment is refused as exhausted exactly when every address besides the subnet's own and the
  server's is taken, for a taken key exactly when another host has it, and with an error of the database when there is no
  such host. This holds in every state the server can reach by operations that run one after the other, up to a million
  hosts, when the database answers, in a subnet that is not of IPv4-mapped addresses (\<open>mapped_subnet_serves_one_host\<close> is one).
\<close>

theorem enrolment_allocates_lowest:
  assumes "(tstep dev (StartTunnel_ip subnet pub) info)\<^sup>*\<^sup>* s0 s" "td_peers (ts_db s0) = []" "plain_subnet subnet"
    and "\<forall>n. te_stmt ev n" "int (length (td_peers (ts_db s))) + 1 < alloc_limit"
    and "EnrollPeer ev host key (Masked subnet) (ServerTunnelIP subnet) (ts_db s) = (db', answer)"
    and ps_def: "ps = td_peers (ts_db s)"
  shows "(\<forall>p \<in> set ps. tp_HostID p = host \<longrightarrow> answer = (if key_taken host key ps then Inl ErrTunnelKeyTaken else Inr (tp_TunnelIP p))) \<and>
    ((\<forall>p \<in> set ps. tp_HostID p \<noteq> host) \<longrightarrow>
      (if \<forall>c. \<not> free_ip subnet ps c then answer = Inl TunnelExhausted
       else if key_taken host key ps then answer = Inl ErrTunnelKeyTaken
       else if \<not> host_known host (ts_db s) then answer = Inl TunnelDB
       else \<exists>a. answer = Inr a \<and> free_ip subnet ps a \<and> (\<forall>c. free_ip subnet ps c \<longrightarrow> addr_num a \<le> addr_num c)))"
proof -
  have "\<not> has_zone (pfx_addr subnet)" using assms(3) by (simp add: plain_subnet_def)
  from tunnel_reach_peers [OF assms(1) this assms(2)] have inv: "peers_inv subnet (td_peers (ts_db s))" .
  show ?thesis unfolding ps_def using enrol_again [OF inv _ _ assms(4,6)] enrol_new [OF inv assms(3) _ assms(4-6)] by blast
qed

theorem enrolment_allocates_lowest_witness:
  "snd (EnrollPeer tun_ev 2 (tun_key (CHR ''b'')) (Masked tun_subnet) (ServerTunnelIP tun_subnet)
      (ts_db (fst (tun_enroll 1 (CHR ''a'') tun0)))) = Inr (A4 0x0A530003)
   \<and> free_ip tun_subnet (td_peers (ts_db (fst (tun_enroll 1 (CHR ''a'') tun0)))) (A4 0x0A530003)
   \<and> snd (EnrollPeer tun_ev 7 (tun_key (CHR ''b'')) (Masked tun_subnet) (ServerTunnelIP tun_subnet)
      (ts_db (fst (tun_enroll 1 (CHR ''a'') tun0)))) = Inl TunnelDB"
proof -
  let ?s = "fst (tun_enroll 1 (CHR ''a'') tun0)"
  let ?e = "EnrollPeer tun_ev 2 (tun_key (CHR ''b'')) (Masked tun_subnet) (ServerTunnelIP tun_subnet) (ts_db ?s)"
  have "tstep map_device (StartTunnel_ip tun_subnet (tun_key (CHR ''s''))) tun_info tun0 ?s"
    unfolding tun_enroll_def by (rule tstep.enroll)
  then have reach: "(tstep map_device (StartTunnel_ip tun_subnet (tun_key (CHR ''s''))) tun_info)\<^sup>*\<^sup>* tun0 ?s" by blast
  have init: "td_peers (ts_db tun0) = []" by (simp add: tun0_def)
  have ev: "\<forall>n. te_stmt tun_ev n" by (simp add: tun_ev_def)
  have facts: "int (length (td_peers (ts_db ?s))) + 1 < alloc_limit" by code_simp
  have known: "host_known 2 (ts_db ?s)" "\<not> host_known 7 (ts_db ?s)" by code_simp+
  have new: "\<forall>p \<in> set (td_peers (ts_db ?s)). tp_HostID p \<noteq> 2" "\<not> key_taken 2 (tun_key (CHR ''b'')) (td_peers (ts_db ?s))"
    "\<forall>p \<in> set (td_peers (ts_db ?s)). tp_HostID p \<noteq> 7" "\<not> key_taken 7 (tun_key (CHR ''b'')) (td_peers (ts_db ?s))"
    by code_simp+
  have free: "free_ip tun_subnet (td_peers (ts_db ?s)) (A4 0x0A530003)" by code_simp
  have ans: "snd ?e = Inr (A4 0x0A530003)" by code_simp
  note ok = enrolment_allocates_lowest [where key = "tun_key (CHR ''b'')", OF reach init tun_subnet_plain ev facts surjective_pairing refl, THEN conjunct2, THEN mp]
  from ok [OF new(1)] free new(2) known(1) obtain a where "snd ?e = Inr a" "free_ip tun_subnet (td_peers (ts_db ?s)) a" by (auto split: if_splits)
  moreover from ok [OF new(3)] free new(4) known(2)
  have "snd (EnrollPeer tun_ev 7 (tun_key (CHR ''b'')) (Masked tun_subnet) (ServerTunnelIP tun_subnet) (ts_db ?s)) = Inl TunnelDB"
    by (auto split: if_splits)
  ultimately show ?thesis using ans by simp
qed

section \<open>What goes wrong\<close>

text \<open>An enrolled host keeps its address when the configured subnet changes, also outside of it.\<close>

lemma address_survives_subnet_change:
  "snd (EnrollPeer tun_ev 1 (tun_key (CHR ''a'')) (Pfx (A4 0x0A540000) 16) (ServerTunnelIP (Pfx (A4 0x0A540000) 16))
      (ts_db (fst (tun_enroll 1 (CHR ''a'') tun0)))) = Inr (A4 0x0A530002)
   \<and> \<not> Contains (Pfx (A4 0x0A540000) 16) (A4 0x0A530002)"
  by code_simp

text \<open>It can even be the server's own address in the new subnet.\<close>

lemma address_becomes_servers:
  "let subnet = Pfx (A4 0x0A530004) 30;
       p = \<lparr>tp_HostID = 1, tp_PublicKey = tun_key (CHR ''a''), tp_TunnelIP = A4 0x0A530005, tp_EnrolledAt = unix_epoch\<rparr>
   in snd (EnrollPeer tun_ev 1 (tun_key (CHR ''a'')) subnet (ServerTunnelIP subnet) ((ts_db tun0)\<lparr>td_peers := [p]\<rparr>))
      = Inr (ServerTunnelIP subnet)"
  by code_simp

text \<open>
  In a subnet of IPv4-mapped addresses the address of the first host is read back as IPv4 and counts as free, so the second
  host is offered it again, and the violated constraint is reported as a taken key.
\<close>

lemma mapped_subnet_serves_one_host:
  "let subnet = Pfx (A6 0xFFFF0A530000 []) 120;
       db = fst (EnrollPeer tun_ev 1 (tun_key (CHR ''a'')) subnet (ServerTunnelIP subnet) (ts_db tun0))
   in map tp_TunnelIP (td_peers db) = [A6 0xFFFF0A530002 []] \<and>
      snd (EnrollPeer tun_ev 2 (tun_key (CHR ''b'')) subnet (ServerTunnelIP subnet) db) = Inl ErrTunnelKeyTaken"
  by code_simp

text \<open>
  Two enrolments of one host that overlap: the table ends with the second key, the device with the first, so the
  agent that was told it is enrolled last cannot use the tunnel.
\<close>

lemma overlapping_enrolments_disagree:
  "let t = StartTunnel_ip tun_subnet (tun_key (CHR ''s''));
       (db1, r1) = EnrollPeer tun_ev 1 (tun_key (CHR ''a'')) (tu_subnet t) (tu_serverIP t) (ts_db tun0);
       (db2, r2) = EnrollPeer tun_ev 1 (tun_key (CHR ''b'')) (tu_subnet t) (tu_serverIP t) db1;
       d2 = the (tunnel_SetPeer map_device (tun_key (CHR ''b'')) (A4 0x0A530002) (ts_dev tun0));
       d1 = the (tunnel_SetPeer map_device (tun_key (CHR ''a'')) (A4 0x0A530002) d2)
   in r1 = Inr (A4 0x0A530002) \<and> r2 = Inr (A4 0x0A530002) \<and> map tp_PublicKey (td_peers db2) = [tun_key (CHR ''b'')] \<and>
      d1 (A4 0x0A530002) = Some (tun_key (CHR ''a''))"
  by code_simp

text \<open>
  Without a configured endpoint the name in the request is taken. An IPv6 address without a port comes in brackets, which are
  not removed, and gets a second pair.
\<close>

lemma address_in_brackets_twice:
  "tunnelEndpointForRequest \<lparr>tn_ListenPort = 51820, tn_Endpoint = [], tn_Subnet = [], tn_PublicHTTP = True, tn_ServerStorage = True\<rparr>
     ''[2001:db8::1]'' = ''[[2001:db8::1]]:51820''"
  by code_simp

text \<open>The endpoint agents are told is read back as the host and the port it was joined from.\<close>

lemma cut_at_Some: "cut_at c s = (a, Some b) \<Longrightarrow> s = a @ c # b"
  by (induction s arbitrary: a b) (auto split: if_splits prod.splits)

lemma after_last_append: "c \<notin> set p \<Longrightarrow> after_last c (h @ c # p) = Some (h, p)"
  using cut_at_append [of c "rev p" "rev h"] by (simp add: after_last_def)

lemma Split_Join:
  assumes "CHR ''['' \<notin> set h" "CHR '']'' \<notin> set h" "CHR '':'' \<notin> set p" "CHR ''['' \<notin> set p" "CHR '']'' \<notin> set p"
  shows "SplitHostPort (JoinHostPort h p) = Some (h, p)"
proof (cases "CHR '':'' \<in> set h")
  case True
  let ?s = "''['' @ h @ '']:'' @ p"
  have "?s = (''['' @ h @ '']'') @ CHR '':'' # p" by simp
  then have a: "after_last (CHR '':'') ?s = Some (''['' @ h @ '']'', p)" using after_last_append assms(3) by metis
  have "?s = (''['' @ h) @ CHR '']'' # CHR '':'' # p" by simp
  then have c: "cut_at (CHR '']'') ?s = (''['' @ h, Some (CHR '':'' # p))"
    using cut_at_append [of "CHR '']''" "''['' @ h"] assms(2) by simp
  show ?thesis using True assms a c by (simp add: JoinHostPort_def SplitHostPort_def is_prefix_def)
next
  case False
  have a: "after_last (CHR '':'') (h @ CHR '':'' # p) = Some (h, p)" using after_last_append assms(3) by metis
  have "\<not> is_prefix ''['' (h @ CHR '':'' # p)" using assms(1) by (cases h) (auto simp: is_prefix_def)
  then show ?thesis using False assms a by (auto simp: JoinHostPort_def SplitHostPort_def)
qed

end
