(* ===== verification/Backup_Targets.thy ===== *)
theory Backup_Targets
  imports Direct_Prefix Tunnel_Peers
begin

text \<open>
  The repositories of the server and its storage nodes: the tables behind
  \<open>internal/server/storage/backuptargets.go\<close> and \<open>internal/server/storage/nodes.go\<close>, with the cache that answers the
  restic gateway, and the handlers of \<open>internal/server/api/backuptargets.go\<close> and \<open>internal/server/api/tunnel.go\<close> that
  change them. Calls to the database are numbered; \<open>be_stmt n\<close> says whether the n-th succeeds. Parameters are the
  digest of secrets (SHA-256), the lower-casing of PostgreSQL and the box that seals credentials. Lists that the
  database sorts by name are sorted by bytes here.
\<close>

section \<open>Tables\<close>

record backupTarget =
  bt_ID :: int
  bt_Name :: string
  bt_HostID :: "int option"
  bt_NodeHostID :: "int option"
  bt_DestinationID :: "int option"
  bt_NamespacePrefix :: "string option"
  bt_QuotaBytes :: "int option"
  bt_UsedBytes :: int
  bt_UsageMeasuredAt :: "time option"
  bt_CreatedAt :: time
  bt_UpdatedAt :: time
  bt_RevokedAt :: "time option"

text \<open>A row of the table also has the digest of the secret and the sealed credentials.\<close>

record targetRow = backupTarget +
  tr_hash :: string
  tr_creds :: "string option"

record nodeRow =
  nd_HostID :: int
  nd_UDPPort :: int
  nd_Endpoint :: string
  nd_StoreDir :: string
  nd_MaxBlobBytes :: int
  nd_CreatedAt :: time
  nd_UpdatedAt :: time

record destRow =
  de_ID :: int
  de_input :: destinationInput
  de_creds :: "string option"
  de_CreatedAt :: time
  de_UpdatedAt :: time

record backupTargetAuth =
  ba_id :: int
  ba_hash :: string
  ba_quota :: int
  ba_used :: int
  ba_revoked :: bool

record backup_db =
  bd_targets :: "targetRow list"
  bd_nextID :: int
  bd_nodes :: "nodeRow list"
  bd_hosts :: "hostRow list"
  bd_peers :: "tunnelPeer list"
  bd_status :: "(int \<times> string) list"
  bd_dests :: "destRow list"
  bd_nextDest :: int

record backupTargets = backup_db +
  bc_byName :: "(string, backupTargetAuth) gomap"
  bc_cachedAt :: time

datatype bt_err = BtNotFound | BtNameTaken | BtHasTargets | BtNegative | BtDB
  | BtDestinationNameTaken | BtDestinationInUse | BtCredentialsMissing | BtNotConfigured | BtInvalid

record bt_env =
  be_now :: time
  be_stmt :: "nat \<Rightarrow> bool"

definition later :: "nat \<Rightarrow> bt_env \<Rightarrow> bt_env" where
  "later k ev = ev\<lparr>be_stmt := (\<lambda>n. be_stmt ev (n + k))\<rparr>"

definition update_targets :: "(targetRow \<Rightarrow> bool) \<Rightarrow> (targetRow \<Rightarrow> targetRow) \<Rightarrow> 'a backup_db_scheme \<Rightarrow> 'a backup_db_scheme" where
  "update_targets P f s = s\<lparr>bd_targets := map (\<lambda>r. if P r then f r else r) (bd_targets s)\<rparr>"

definition targets_affected :: "(targetRow \<Rightarrow> bool) \<Rightarrow> 'a backup_db_scheme \<Rightarrow> bool" where
  "targets_affected P s \<longleftrightarrow> list_ex P (bd_targets s)"

section \<open>The store of repositories\<close>

definition bt_cacheTTL :: duration where "bt_cacheTTL = 30 * Second"

definition bt_invalidate :: "backupTargets \<Rightarrow> backupTargets" where
  "bt_invalidate s = s\<lparr>bc_cachedAt := zero_time\<rparr>"

definition HostReportsRepo :: "bt_env \<Rightarrow> (string \<Rightarrow> string) \<Rightarrow> int \<Rightarrow> string \<Rightarrow> backupTargets \<Rightarrow> bt_err + bool" where
  "HostReportsRepo ev lower hostID name s =
     (if \<not> be_stmt ev 0 then Inl BtDB
      else Inr (list_ex (\<lambda>(h, repo). h = hostID \<and> lower repo = lower name) (bd_status s)))"

definition new_target :: "int \<Rightarrow> string \<Rightarrow> string \<Rightarrow> int option \<Rightarrow> int option \<Rightarrow> int option \<Rightarrow> time \<Rightarrow> targetRow" where
  "new_target i name hash hostID quota nodeHostID now =
     \<lparr>bt_ID = i, bt_Name = name, bt_HostID = hostID, bt_NodeHostID = nodeHostID, bt_DestinationID = None, bt_NamespacePrefix = None,
      bt_QuotaBytes = quota, bt_UsedBytes = 0, bt_UsageMeasuredAt = None, bt_CreatedAt = now, bt_UpdatedAt = now, bt_RevokedAt = None,
      tr_hash = hash, tr_creds = None\<rparr>"

text \<open>A reference to a host that does not exist violates the foreign key.\<close>

definition host_exists :: "int option \<Rightarrow> 'a backup_db_scheme \<Rightarrow> bool" where
  "host_exists i s \<longleftrightarrow> (case i of None \<Rightarrow> True | Some i \<Rightarrow> list_ex (\<lambda>h. ht_ID h = i) (bd_hosts s))"

definition target_Create ::
  "bt_env \<Rightarrow> (string \<Rightarrow> string) \<Rightarrow> (string \<Rightarrow> string) \<Rightarrow> string \<Rightarrow> int option \<Rightarrow> int option \<Rightarrow> string \<Rightarrow> int option
     \<Rightarrow> backupTargets \<Rightarrow> backupTargets \<times> (bt_err + int)" where
  "target_Create ev lower sha name hostID quota secret nodeHostID s =
     (if \<not> be_stmt ev 0 then (s, Inl BtDB)
      else (let i = bd_nextID s; s = s\<lparr>bd_nextID := i + 1\<rparr>
            in if list_ex (\<lambda>r. lower (bt_Name r) = lower name) (bd_targets s) then (s, Inl BtNameTaken)
               else if \<not> host_exists hostID s \<or> \<not> host_exists nodeHostID s then (s, Inl BtDB)
               else (bt_invalidate (s\<lparr>bd_targets := bd_targets s @ [new_target i name (sha secret) hostID quota nodeHostID (be_now ev)]\<rparr>), Inr i)))"

definition target_Rotate :: "bt_env \<Rightarrow> (string \<Rightarrow> string) \<Rightarrow> int \<Rightarrow> string \<Rightarrow> backupTargets \<Rightarrow> backupTargets \<times> (bt_err + unit)" where
  "target_Rotate ev sha i secret s =
     (let P = (\<lambda>r. bt_ID r = i)
      in if \<not> be_stmt ev 0 then (s, Inl BtDB)
         else if \<not> targets_affected P s then (s, Inl BtNotFound)
         else (bt_invalidate (update_targets P (\<lambda>r. r\<lparr>tr_hash := sha secret, bt_RevokedAt := None, bt_UpdatedAt := be_now ev\<rparr>) s), Inr ()))"

definition target_Revoke :: "bt_env \<Rightarrow> int \<Rightarrow> backupTargets \<Rightarrow> backupTargets \<times> (bt_err + unit)" where
  "target_Revoke ev i s =
     (let P = (\<lambda>r. bt_ID r = i \<and> bt_RevokedAt r = None)
      in if \<not> be_stmt ev 0 then (s, Inl BtDB)
         else (bt_invalidate (update_targets P (\<lambda>r. r\<lparr>bt_RevokedAt := Some (be_now ev), bt_UpdatedAt := be_now ev\<rparr>) s),
               if targets_affected P s then Inr () else Inl BtNotFound))"

definition target_Delete :: "bt_env \<Rightarrow> int \<Rightarrow> backupTargets \<Rightarrow> backupTargets \<times> (bt_err + unit)" where
  "target_Delete ev i s =
     (if \<not> be_stmt ev 0 then (s, Inl BtDB)
      else (bt_invalidate (s\<lparr>bd_targets := filter (\<lambda>r. bt_ID r \<noteq> i) (bd_targets s)\<rparr>),
            if targets_affected (\<lambda>r. bt_ID r = i) s then Inr () else Inl BtNotFound))"

text \<open>The usage of every cached entry with the id.\<close>

definition cache_used :: "int \<Rightarrow> (int \<Rightarrow> int) \<Rightarrow> backupTargets \<Rightarrow> backupTargets" where
  "cache_used i f s = s\<lparr>bc_byName := map (\<lambda>(n, a). (n, if ba_id a = i then a\<lparr>ba_used := f (ba_used a)\<rparr> else a)) (bc_byName s)\<rparr>"

definition target_SetUsage :: "bt_env \<Rightarrow> int \<Rightarrow> int \<Rightarrow> backupTargets \<Rightarrow> backupTargets \<times> (bt_err + unit)" where
  "target_SetUsage ev i used s =
     (let P = (\<lambda>r. bt_ID r = i)
      in if \<not> be_stmt ev 0 then (s, Inl BtDB)
         else if \<not> targets_affected P s then (s, Inl BtNotFound)
         else (cache_used i (\<lambda>_. used) (update_targets P (\<lambda>r. r\<lparr>bt_UsedBytes := used, bt_UsageMeasuredAt := Some (be_now ev)\<rparr>) s), Inr ()))"

definition target_SetQuota :: "bt_env \<Rightarrow> int \<Rightarrow> int option \<Rightarrow> backupTargets \<Rightarrow> backupTargets \<times> (bt_err + unit)" where
  "target_SetQuota ev i quota s =
     (let P = (\<lambda>r. bt_ID r = i)
      in if \<not> be_stmt ev 0 then (s, Inl BtDB)
         else if \<not> targets_affected P s then (s, Inl BtNotFound)
         else (bt_invalidate (update_targets P (\<lambda>r. r\<lparr>bt_QuotaBytes := quota, bt_UpdatedAt := be_now ev\<rparr>) s), Inr ()))"

text \<open>
  The condition of the reservation; a sum that leaves the range of \<open>bigint\<close> fails the statement.
\<close>

definition may_reserve :: "int \<Rightarrow> targetRow \<Rightarrow> bool" where
  "may_reserve delta r \<longleftrightarrow> bt_RevokedAt r = None \<and>
     (case bt_QuotaBytes r of None \<Rightarrow> True | Some q \<Rightarrow> q = 0 \<or> bt_UsedBytes r \<le> q - delta)"

definition target_ReserveUsage :: "bt_env \<Rightarrow> int \<Rightarrow> int \<Rightarrow> backupTargets \<Rightarrow> backupTargets \<times> (bt_err + bool)" where
  "target_ReserveUsage ev i delta s =
     (let P = (\<lambda>r. bt_ID r = i \<and> may_reserve delta r)
      in if delta < 0 then (s, Inl BtNegative)
         else if delta = 0 then (s, Inr True)
         else if \<not> be_stmt ev 0 then (s, Inl BtDB)
         else if list_ex (\<lambda>r. P r \<and> 2 ^ 63 \<le> bt_UsedBytes r + delta) (bd_targets s) then (s, Inl BtDB)
         else if \<not> targets_affected P s then (s, Inr False)
         else (cache_used i (\<lambda>u. let u = i64 (u + delta) in if u < 0 then 0 else u)
                 (update_targets P (\<lambda>r. r\<lparr>bt_UsedBytes := bt_UsedBytes r + delta\<rparr>) s), Inr True))"

definition target_ReleaseUsage :: "bt_env \<Rightarrow> int \<Rightarrow> int \<Rightarrow> backupTargets \<Rightarrow> backupTargets \<times> bt_err option" where
  "target_ReleaseUsage ev i delta s =
     (let P = (\<lambda>r. bt_ID r = i)
      in if delta \<le> 0 then (s, None)
         else if \<not> be_stmt ev 0 then (s, Some BtDB)
         else if \<not> targets_affected P s then (s, Some BtNotFound)
         else (cache_used i (\<lambda>u. let u = i64 (u - delta) in if u < 0 then 0 else u)
                 (update_targets P (\<lambda>r. r\<lparr>bt_UsedBytes := max (bt_UsedBytes r - delta) 0\<rparr>) s), None))"

section \<open>The cache\<close>

definition served :: "targetRow \<Rightarrow> bool" where
  "served r \<longleftrightarrow> bt_NodeHostID r = None \<and> bt_DestinationID r = None"

definition auth_of :: "targetRow \<Rightarrow> backupTargetAuth" where
  "auth_of r = \<lparr>ba_id = bt_ID r, ba_hash = pad32 (tr_hash r), ba_quota = (case bt_QuotaBytes r of None \<Rightarrow> 0 | Some q \<Rightarrow> q),
     ba_used = bt_UsedBytes r, ba_revoked = (bt_RevokedAt r \<noteq> None)\<rparr>"

text \<open>\<open>refresh\<close> reads the table and then installs the map it built; other calls can run in between.\<close>

definition read_auths :: "targetRow list \<Rightarrow> (string, backupTargetAuth) gomap" where
  "read_auths rows = fold (\<lambda>r. put (bt_Name r) (auth_of r)) (filter served rows) []"

definition install_auths :: "time \<Rightarrow> (string, backupTargetAuth) gomap \<Rightarrow> backupTargets \<Rightarrow> backupTargets" where
  "install_auths now m s = s\<lparr>bc_byName := m, bc_cachedAt := now\<rparr>"

definition bt_refresh :: "bt_env \<Rightarrow> backupTargets \<Rightarrow> backupTargets \<times> bool" where
  "bt_refresh ev s = (if \<not> be_stmt ev 0 then (s, False) else (install_auths (be_now ev) (read_auths (bd_targets s)) s, True))"

definition matchTarget :: "backupTargetAuth \<Rightarrow> string \<Rightarrow> (int \<times> int \<times> int) option" where
  "matchTarget a candidate =
     (if ba_hash a \<noteq> candidate then None
      else if ba_revoked a then None
      else Some (ba_id a, ba_quota a, ba_used a))"

definition bt_fresh :: "time \<Rightarrow> backupTargets \<Rightarrow> bool" where
  "bt_fresh now s \<longleftrightarrow> time_Sub now (bc_cachedAt s) < bt_cacheTTL"

definition lookup_auth :: "backupTargets \<Rightarrow> string \<Rightarrow> string \<Rightarrow> (int \<times> int \<times> int) option" where
  "lookup_auth s repo candidate = (case get (bc_byName s) repo of None \<Rightarrow> None | Some a \<Rightarrow> matchTarget a candidate)"

definition target_ResolveTarget ::
  "bt_env \<Rightarrow> (string \<Rightarrow> string) \<Rightarrow> string \<Rightarrow> string \<Rightarrow> backupTargets \<Rightarrow> backupTargets \<times> (bt_err + (int \<times> int \<times> int) option)" where
  "target_ResolveTarget ev sha repo secret s =
     (if bt_fresh (be_now ev) s then (s, Inr (lookup_auth s repo (sha secret)))
      else (case bt_refresh ev s of
              (s, False) \<Rightarrow> (s, Inl BtDB)
            | (s, True) \<Rightarrow> (s, Inr (lookup_auth s repo (sha secret)))))"

definition target_Get :: "bt_env \<Rightarrow> int \<Rightarrow> 'a backup_db_scheme \<Rightarrow> bt_err + backupTarget" where
  "target_Get ev i s =
     (if \<not> be_stmt ev 0 then Inl BtDB
      else (case find (\<lambda>r. bt_ID r = i) (bd_targets s) of None \<Rightarrow> Inl BtNotFound | Some r \<Rightarrow> Inr (backupTarget.truncate r)))"

definition target_List :: "bt_env \<Rightarrow> 'a backup_db_scheme \<Rightarrow> backupTarget list option" where
  "target_List ev s = (if \<not> be_stmt ev 0 then None else Some (map backupTarget.truncate (sort_key bt_Name (bd_targets s))))"

section \<open>Storage nodes\<close>

definition node_Promote ::
  "bt_env \<Rightarrow> int \<Rightarrow> int \<Rightarrow> string \<Rightarrow> string \<Rightarrow> int \<Rightarrow> 'a backup_db_scheme \<Rightarrow> 'a backup_db_scheme \<times> (bt_err + unit)" where
  "node_Promote ev hostID udpPort endpoint storeDir maxBlobBytes s =
     (if \<not> be_stmt ev 0 \<or> \<not> host_exists (Some hostID) s then (s, Inl BtDB)
      else if list_ex (\<lambda>n. nd_HostID n = hostID) (bd_nodes s) then
        (s\<lparr>bd_nodes := map (\<lambda>n. if nd_HostID n = hostID
           then n\<lparr>nd_UDPPort := udpPort, nd_Endpoint := endpoint, nd_StoreDir := storeDir, nd_MaxBlobBytes := maxBlobBytes,
                  nd_UpdatedAt := be_now ev\<rparr> else n) (bd_nodes s)\<rparr>, Inr ())
      else (s\<lparr>bd_nodes := bd_nodes s @ [\<lparr>nd_HostID = hostID, nd_UDPPort = udpPort, nd_Endpoint = endpoint, nd_StoreDir = storeDir,
           nd_MaxBlobBytes = maxBlobBytes, nd_CreatedAt = be_now ev, nd_UpdatedAt = be_now ev\<rparr>]\<rparr>, Inr ()))"

definition node_UpdateEndpoint :: "bt_env \<Rightarrow> int \<Rightarrow> int \<Rightarrow> string \<Rightarrow> 'a backup_db_scheme \<Rightarrow> 'a backup_db_scheme \<times> (bt_err + unit)" where
  "node_UpdateEndpoint ev hostID udpPort endpoint s =
     (if \<not> be_stmt ev 0 then (s, Inl BtDB)
      else if \<not> list_ex (\<lambda>n. nd_HostID n = hostID) (bd_nodes s) then (s, Inl BtNotFound)
      else (s\<lparr>bd_nodes := map (\<lambda>n. if nd_HostID n = hostID
           then n\<lparr>nd_UDPPort := udpPort, nd_Endpoint := endpoint, nd_UpdatedAt := be_now ev\<rparr> else n) (bd_nodes s)\<rparr>, Inr ()))"

definition active_on :: "int \<Rightarrow> targetRow \<Rightarrow> bool" where
  "active_on hostID r \<longleftrightarrow> bt_NodeHostID r = Some hostID \<and> bt_RevokedAt r = None"

definition HasActiveTargets :: "bt_env \<Rightarrow> int \<Rightarrow> 'a backup_db_scheme \<Rightarrow> bt_err + bool" where
  "HasActiveTargets ev hostID s = (if \<not> be_stmt ev 0 then Inl BtDB else Inr (0 < length (filter (active_on hostID) (bd_targets s))))"

text \<open>The check and the deletion are two statements; \<open>drop_node\<close> is the second.\<close>

definition drop_node :: "bt_env \<Rightarrow> int \<Rightarrow> 'a backup_db_scheme \<Rightarrow> 'a backup_db_scheme \<times> (bt_err + unit)" where
  "drop_node ev hostID s =
     (if \<not> be_stmt ev 0 then (s, Inl BtDB)
      else (s\<lparr>bd_nodes := filter (\<lambda>n. nd_HostID n \<noteq> hostID) (bd_nodes s)\<rparr>,
            if list_ex (\<lambda>n. nd_HostID n = hostID) (bd_nodes s) then Inr () else Inl BtNotFound))"

definition node_Demote :: "bt_env \<Rightarrow> int \<Rightarrow> 'a backup_db_scheme \<Rightarrow> 'a backup_db_scheme \<times> (bt_err + unit)" where
  "node_Demote ev hostID s =
     (case HasActiveTargets ev hostID s of
        Inl e \<Rightarrow> (s, Inl e)
      | Inr True \<Rightarrow> (s, Inl BtHasTargets)
      | Inr False \<Rightarrow> drop_node (later 1 ev) hostID s)"

text \<open>A node as the callers see it, with what they use of its host.\<close>

record backupNode = nodeRow +
  bn_TunnelIP :: "addr option"
  bn_Archived :: bool
  bn_HostMissing :: bool

definition node_Get :: "bt_env \<Rightarrow> int \<Rightarrow> 'a backup_db_scheme \<Rightarrow> bt_err + backupNode" where
  "node_Get ev hostID s =
     (if \<not> be_stmt ev 0 then Inl BtDB
      else (case find (\<lambda>n. nd_HostID n = hostID) (bd_nodes s) of
              None \<Rightarrow> Inl BtNotFound
            | Some n \<Rightarrow>
                (let h = find (\<lambda>h. ht_ID h = hostID) (bd_hosts s);
                     p = find (\<lambda>p. tp_HostID p = hostID) (bd_peers s)
                 in Inr (nodeRow.extend n
                      \<lparr>bn_TunnelIP = map_option tp_TunnelIP p,
                       bn_Archived = (case h of None \<Rightarrow> False | Some h \<Rightarrow> ht_ArchivedAt h \<noteq> None),
                       bn_HostMissing = (case h of None \<Rightarrow> True | Some h \<Rightarrow> ht_DeletedAt h \<noteq> None)\<rparr>))))"

record nodeTarget =
  nt_Name :: string
  nt_SecretHash :: string
  nt_QuotaBytes :: int
  nt_Revoked :: bool

record nodeConfig =
  cf_Enabled :: bool
  cf_UDPPort :: int
  cf_Endpoint :: string
  cf_StoreDir :: string
  cf_MaxBlobBytes :: int
  cf_TunnelIP :: "addr option"
  cf_Targets :: "nodeTarget list"
  cf_Peers :: "(int \<times> string \<times> addr) list"

definition ConfigForHost :: "bt_env \<Rightarrow> int \<Rightarrow> 'a backup_db_scheme \<Rightarrow> bt_err + nodeConfig" where
  "ConfigForHost ev hostID s =
     (case node_Get ev hostID s of
        Inl BtNotFound \<Rightarrow> Inr \<lparr>cf_Enabled = False, cf_UDPPort = 0, cf_Endpoint = [], cf_StoreDir = [], cf_MaxBlobBytes = 0,
          cf_TunnelIP = None, cf_Targets = [], cf_Peers = []\<rparr>
      | Inl e \<Rightarrow> Inl e
      | Inr n \<Rightarrow>
          if \<not> be_stmt ev 1 \<or> \<not> be_stmt ev 2 then Inl BtDB
          else Inr \<lparr>cf_Enabled = True, cf_UDPPort = nd_UDPPort n, cf_Endpoint = nd_Endpoint n, cf_StoreDir = nd_StoreDir n,
            cf_MaxBlobBytes = nd_MaxBlobBytes n, cf_TunnelIP = bn_TunnelIP n,
            cf_Targets = map (\<lambda>r. \<lparr>nt_Name = bt_Name r, nt_SecretHash = tr_hash r,
                nt_QuotaBytes = (case bt_QuotaBytes r of None \<Rightarrow> 0 | Some q \<Rightarrow> q), nt_Revoked = (bt_RevokedAt r \<noteq> None)\<rparr>)
              (sort_key bt_Name (filter (\<lambda>r. bt_NodeHostID r = Some hostID) (bd_targets s))),
            cf_Peers = map (\<lambda>p. (tp_HostID p, tp_PublicKey p, Unmap (tp_TunnelIP p)))
              (filter (\<lambda>p. list_ex (\<lambda>r. bt_HostID r = Some (tp_HostID p) \<and> active_on hostID r) (bd_targets s) \<and>
                 list_ex (\<lambda>h. ht_ID h = tp_HostID p \<and> ht_DeletedAt h = None) (bd_hosts s)) (bd_peers s))\<rparr>)"

definition SetTargetUsage :: "bt_env \<Rightarrow> int \<Rightarrow> string \<Rightarrow> int \<Rightarrow> 'a backup_db_scheme \<Rightarrow> 'a backup_db_scheme \<times> bool" where
  "SetTargetUsage ev nodeHostID name used s =
     (if \<not> be_stmt ev 0 then (s, False)
      else (update_targets (\<lambda>r. bt_NodeHostID r = Some nodeHostID \<and> bt_Name r = name)
              (\<lambda>r. r\<lparr>bt_UsedBytes := max used 0, bt_UsageMeasuredAt := Some (be_now ev)\<rparr>) s, True))"


section \<open>Destinations in object storage\<close>

text \<open>
  The box seals credentials (as JSON) for a record and opens them; \<open>None\<close> for the box is a server without a key.
  The credentials of the input are not stored in the row, only what is sealed.
\<close>

record secret_box =
  sb_seal :: "s3Credentials \<Rightarrow> string \<Rightarrow> string option"
  sb_open :: "string \<Rightarrow> string \<Rightarrow> s3Credentials option"

definition sealCredentials :: "secret_box option \<Rightarrow> s3Credentials \<Rightarrow> string \<Rightarrow> bt_err + string" where
  "sealCredentials box c aad =
     (case box of None \<Rightarrow> Inl BtNotConfigured | Some b \<Rightarrow> (case sb_seal b c aad of None \<Rightarrow> Inl BtInvalid | Some x \<Rightarrow> Inr x))"

definition openCredentials :: "secret_box option \<Rightarrow> string \<Rightarrow> string \<Rightarrow> bt_err + s3Credentials" where
  "openCredentials box x aad =
     (case box of
        None \<Rightarrow> Inl BtNotConfigured
      | Some b \<Rightarrow> (case sb_open b x aad of
          None \<Rightarrow> Inl BtInvalid
        | Some c \<Rightarrow> if creds_Validate c then Inr c else Inl BtInvalid))"

definition dest_row :: "int \<Rightarrow> destinationInput \<Rightarrow> string option \<Rightarrow> time \<Rightarrow> destRow" where
  "dest_row i input creds now =
     \<lparr>de_ID = i, de_input = input\<lparr>di_Credentials := no_s3\<rparr>, de_creds = creds, de_CreatedAt = now, de_UpdatedAt = now\<rparr>"

definition CreateDestination ::
  "bt_env \<Rightarrow> (string \<Rightarrow> string) \<Rightarrow> (string \<Rightarrow> parsed_url option) \<Rightarrow> secret_box option \<Rightarrow> destinationInput
     \<Rightarrow> backupTargets \<Rightarrow> backupTargets \<times> (bt_err + int)" where
  "CreateDestination ev lower parse box input s =
     (let input = normalizeDestinationInput input
      in if \<not> validateDestinationInput parse input then (s, Inl BtInvalid)
         else if \<not> be_stmt ev 0 \<or> \<not> be_stmt ev 1 then (s, Inl BtDB)
         else (let i = bd_nextDest s; s1 = s\<lparr>bd_nextDest := i + 1\<rparr>
               in if list_ex (\<lambda>d. lower (di_Name (de_input d)) = lower (di_Name input)) (bd_dests s) then (s1, Inl BtDestinationNameTaken)
                  else if creds_Empty (di_Credentials input) then
                    (if \<not> be_stmt ev 2 then (s1, Inl BtDB)
                     else (s1\<lparr>bd_dests := bd_dests s @ [dest_row i input None (be_now ev)]\<rparr>, Inr i))
                  else (case sealCredentials box (di_Credentials input) (destinationCredentialsAAD i) of
                          Inl e \<Rightarrow> (s1, Inl e)
                        | Inr x \<Rightarrow>
                            if \<not> be_stmt ev 2 \<or> \<not> be_stmt ev 3 then (s1, Inl BtDB)
                            else (s1\<lparr>bd_dests := bd_dests s @ [dest_row i input (Some x) (be_now ev)]\<rparr>, Inr i))))"

definition find_dest :: "int \<Rightarrow> 'a backup_db_scheme \<Rightarrow> destRow option" where
  "find_dest i s = find (\<lambda>d. de_ID d = i) (bd_dests s)"

text \<open>A destination with whether it has credentials and how many repositories it holds.\<close>

definition dest_view :: "'a backup_db_scheme \<Rightarrow> destRow \<Rightarrow> destRow \<times> bool \<times> nat" where
  "dest_view s d = (d, de_creds d \<noteq> None, length (filter (\<lambda>r. bt_DestinationID r = Some (de_ID d)) (bd_targets s)))"

definition ListDestinations :: "bt_env \<Rightarrow> (string \<Rightarrow> string) \<Rightarrow> 'a backup_db_scheme \<Rightarrow> (destRow \<times> bool \<times> nat) list option" where
  "ListDestinations ev lower s =
     (if \<not> be_stmt ev 0 then None
      else Some (map (dest_view s) (sort_key (\<lambda>d. lower (di_Name (de_input d))) (sort_key de_ID (bd_dests s)))))"

definition GetDestination :: "bt_env \<Rightarrow> int \<Rightarrow> 'a backup_db_scheme \<Rightarrow> bt_err + destRow" where
  "GetDestination ev i s =
     (if \<not> be_stmt ev 0 then Inl BtDB else (case find_dest i s of None \<Rightarrow> Inl BtNotFound | Some d \<Rightarrow> Inr d))"

definition SetDestinationCredentials ::
  "bt_env \<Rightarrow> secret_box option \<Rightarrow> int \<Rightarrow> s3Credentials \<Rightarrow> backupTargets \<Rightarrow> backupTargets \<times> (bt_err + unit)" where
  "SetDestinationCredentials ev box i c s =
     (if \<not> creds_Validate c then (s, Inl BtInvalid)
      else if creds_Empty c then (s, Inl BtCredentialsMissing)
      else (case sealCredentials box c (destinationCredentialsAAD i) of
              Inl e \<Rightarrow> (s, Inl e)
            | Inr x \<Rightarrow>
                if \<not> be_stmt ev 0 then (s, Inl BtDB)
                else if find_dest i s = None then (s, Inl BtNotFound)
                else (s\<lparr>bd_dests := map (\<lambda>d. if de_ID d = i then d\<lparr>de_creds := Some x, de_UpdatedAt := be_now ev\<rparr> else d) (bd_dests s)\<rparr>, Inr ())))"

definition DeleteDestination :: "bt_env \<Rightarrow> int \<Rightarrow> backupTargets \<Rightarrow> backupTargets \<times> (bt_err + unit)" where
  "DeleteDestination ev i s =
     (if \<not> be_stmt ev 0 then (s, Inl BtDB)
      else if list_ex (\<lambda>r. bt_DestinationID r = Some i) (bd_targets s) then (s, Inl BtDestinationInUse)
      else if find_dest i s = None then (s, Inl BtNotFound)
      else (s\<lparr>bd_dests := filter (\<lambda>d. de_ID d \<noteq> i) (bd_dests s)\<rparr>, Inr ()))"

definition direct_target :: "int \<Rightarrow> string \<Rightarrow> string \<Rightarrow> int \<Rightarrow> int option \<Rightarrow> string \<Rightarrow> int \<Rightarrow> string option \<Rightarrow> time \<Rightarrow> targetRow" where
  "direct_target i name hash hostID quota prefix dest creds now =
     (new_target i name hash (Some hostID) quota None now)
       \<lparr>bt_DestinationID := Some dest, bt_NamespacePrefix := Some prefix, tr_creds := creds\<rparr>"

definition CreateDirectRepository ::
  "bt_env \<Rightarrow> (string \<Rightarrow> string) \<Rightarrow> (string \<Rightarrow> string) \<Rightarrow> secret_box option \<Rightarrow> string \<Rightarrow> int \<Rightarrow> int option \<Rightarrow> string \<Rightarrow> string \<Rightarrow> int
     \<Rightarrow> s3Credentials \<Rightarrow> backupTargets \<Rightarrow> backupTargets \<times> (bt_err + int)" where
  "CreateDirectRepository ev lower sha box name hostID quota secret prefix dest c s =
     (if \<not> creds_Validate c then (s, Inl BtInvalid)
      else if \<not> be_stmt ev 0 \<or> \<not> be_stmt ev 1 then (s, Inl BtDB)
      else (case find_dest dest s of
              None \<Rightarrow> (s, Inl BtNotFound)
            | Some d \<Rightarrow>
                if creds_Empty c \<and> (de_creds d = None \<or> de_creds d = Some []) then (s, Inl BtCredentialsMissing)
                else if \<not> be_stmt ev 2 then (s, Inl BtDB)
                else (let i = bd_nextID s; s1 = s\<lparr>bd_nextID := i + 1\<rparr>
                      in if list_ex (\<lambda>r. lower (bt_Name r) = lower name) (bd_targets s) then (s1, Inl BtNameTaken)
                         else if \<not> host_exists (Some hostID) s then (s1, Inl BtDB)
                         else if creds_Empty c then
                           (if \<not> be_stmt ev 3 then (s1, Inl BtDB)
                            else (bt_invalidate (s1\<lparr>bd_targets := bd_targets s @
                              [direct_target i name (sha secret) hostID quota prefix dest None (be_now ev)]\<rparr>), Inr i))
                         else (case sealCredentials box c (repositoryCredentialsAAD i) of
                                 Inl e \<Rightarrow> (s1, Inl e)
                               | Inr x \<Rightarrow>
                                   if \<not> be_stmt ev 3 \<or> \<not> be_stmt ev 4 then (s1, Inl BtDB)
                                   else (bt_invalidate (s1\<lparr>bd_targets := bd_targets s @
                                     [direct_target i name (sha secret) hostID quota prefix dest (Some x) (be_now ev)]\<rparr>), Inr i)))))"

definition SetDirectRepositoryCredentials ::
  "bt_env \<Rightarrow> secret_box option \<Rightarrow> int \<Rightarrow> s3Credentials \<Rightarrow> backupTargets \<Rightarrow> backupTargets \<times> (bt_err + unit)" where
  "SetDirectRepositoryCredentials ev box i c s =
     (if \<not> creds_Validate c then (s, Inl BtInvalid)
      else if creds_Empty c then (s, Inl BtCredentialsMissing)
      else (case sealCredentials box c (repositoryCredentialsAAD i) of
              Inl e \<Rightarrow> (s, Inl e)
            | Inr x \<Rightarrow>
                (let P = (\<lambda>r. bt_ID r = i \<and> bt_DestinationID r \<noteq> None)
                 in if \<not> be_stmt ev 0 then (s, Inl BtDB)
                    else if \<not> targets_affected P s then (s, Inl BtNotFound)
                    else (update_targets P (\<lambda>r. r\<lparr>tr_creds := Some x, bt_UpdatedAt := be_now ev\<rparr>) s, Inr ()))))"

record managedRepository =
  mr_ID :: int
  mr_Name :: string
  mr_URL :: string
  mr_S3Region :: string
  mr_S3PathStyle :: bool
  mr_Credentials :: s3Credentials
  mr_Version :: int

text \<open>\<open>UnixMicro\<close>.\<close>

definition time_UnixMicro :: "time \<Rightarrow> int" where
  "time_UnixMicro t = (t - unix_epoch) div 1000"

definition managed_repo :: "secret_box option \<Rightarrow> targetRow \<Rightarrow> destRow \<Rightarrow> bt_err + managedRepository" where
  "managed_repo box r d =
     (let own = (case tr_creds r of None \<Rightarrow> [] | Some x \<Rightarrow> x);
          x = (if own \<noteq> [] then own else (case de_creds d of None \<Rightarrow> [] | Some x \<Rightarrow> x));
          aad = (if own \<noteq> [] then repositoryCredentialsAAD (bt_ID r) else destinationCredentialsAAD (de_ID d))
      in if x = [] then Inl BtCredentialsMissing
         else (case openCredentials box x aad of
                 Inl e \<Rightarrow> Inl e
               | Inr c \<Rightarrow> Inr \<lparr>mr_ID = bt_ID r, mr_Name = bt_Name r,
                   mr_URL = DirectS3RepositoryURL (di_Endpoint (de_input d)) (di_Bucket (de_input d))
                     (case bt_NamespacePrefix r of None \<Rightarrow> [] | Some p \<Rightarrow> p),
                   mr_S3Region = di_Region (de_input d), mr_S3PathStyle = di_UsePathStyle (de_input d), mr_Credentials = c,
                   mr_Version = time_UnixMicro (max (bt_UpdatedAt r) (de_UpdatedAt d))\<rparr>))"

text \<open>The loop over the rows stops at the first repository without readable credentials.\<close>

fun managed_repos :: "secret_box option \<Rightarrow> (targetRow \<times> destRow) list \<Rightarrow> bt_err + managedRepository list" where
  "managed_repos box [] = Inr []"
| "managed_repos box ((r, d) # rows) =
     (case managed_repo box r d of
        Inl e \<Rightarrow> Inl e
      | Inr m \<Rightarrow> (case managed_repos box rows of Inl e \<Rightarrow> Inl e | Inr ms \<Rightarrow> Inr (m # ms)))"

definition ManagedRepositoriesForHost ::
  "bt_env \<Rightarrow> (string \<Rightarrow> string) \<Rightarrow> secret_box option \<Rightarrow> int \<Rightarrow> backupTargets \<Rightarrow> bt_err + managedRepository list" where
  "ManagedRepositoriesForHost ev lower box hostID s =
     (if \<not> be_stmt ev 0 then Inl BtDB
      else managed_repos box (concat (map (\<lambda>r. map (\<lambda>d. (r, d))
        (filter (\<lambda>d. bt_DestinationID r = Some (de_ID d) \<and> di_Kind (de_input d) = BackupDestinationDirectS3) (bd_dests s)))
          (sort_key (\<lambda>r. lower (bt_Name r)) (sort_key bt_ID
             (filter (\<lambda>r. bt_HostID r = Some hostID \<and> bt_RevokedAt r = None) (bd_targets s)))))))"

definition ValidateStoredCredentials :: "bt_env \<Rightarrow> secret_box option \<Rightarrow> backupTargets \<Rightarrow> bool" where
  "ValidateStoredCredentials ev box s \<longleftrightarrow> be_stmt ev 0 \<and>
     list_all (\<lambda>d. case de_creds d of None \<Rightarrow> True | Some x \<Rightarrow> (case openCredentials box x (destinationCredentialsAAD (de_ID d)) of Inl _ \<Rightarrow> False | Inr _ \<Rightarrow> True)) (bd_dests s) \<and>
     list_all (\<lambda>r. case tr_creds r of None \<Rightarrow> True | Some x \<Rightarrow> (case openCredentials box x (repositoryCredentialsAAD (bt_ID r)) of Inl _ \<Rightarrow> False | Inr _ \<Rightarrow> True)) (bd_targets s)"

end
