(* ===== verification/Target_Laws.thy ===== *)
theory Target_Laws
  imports Backup_Targets
begin

text \<open>
  What holds of the repositories of the server in every state it can reach: the cache that answers the
  gateway agrees with the table, a repository opens by the table, and the accounting interface of the
  gateway (\<open>accounted_registry\<close>) is met by the server's store as it is by a node's registry.
\<close>

section \<open>The invariant\<close>

definition rows_inv :: "(string \<Rightarrow> string) \<Rightarrow> backupTargets \<Rightarrow> bool" where
  "rows_inv lower s \<longleftrightarrow> distinct (map bt_ID (bd_targets s)) \<and> (\<forall>r \<in> set (bd_targets s). bt_ID r < bd_nextID s) \<and>
     distinct (map (\<lambda>r. lower (bt_Name r)) (bd_targets s)) \<and>
     (\<forall>r \<in> set (bd_targets s). length (tr_hash r) = 32 \<and> 0 \<le> bt_UsedBytes r \<and> bt_UsedBytes r < 2 ^ 63)"

definition row_named :: "string \<Rightarrow> targetRow list \<Rightarrow> targetRow option" where
  "row_named n rows = find (\<lambda>r. bt_Name r = n \<and> served r) rows"

definition auths_agree :: "(string, backupTargetAuth) gomap \<Rightarrow> targetRow list \<Rightarrow> bool" where
  "auths_agree m rows \<longleftrightarrow> (\<forall>n. get m n = map_option auth_of (row_named n rows))"

definition target_inv :: "(string \<Rightarrow> string) \<Rightarrow> backupTargets \<Rightarrow> bool" where
  "target_inv lower s \<longleftrightarrow> rows_inv lower s \<and> (bc_cachedAt s \<noteq> zero_time \<longrightarrow> auths_agree (bc_byName s) (bd_targets s))"

lemma names_distinct: "rows_inv lower s \<Longrightarrow> distinct (map bt_Name (bd_targets s))"
  unfolding rows_inv_def distinct_map inj_on_def by metis

lemma fold_put_auths:
  "distinct (map bt_Name rows) \<Longrightarrow>
    get (fold (\<lambda>r. put (bt_Name r) (auth_of r)) (filter served rows) m) n =
      (case row_named n rows of Some r \<Rightarrow> Some (auth_of r) | None \<Rightarrow> get m n)"
proof (induction rows arbitrary: m)
  case (Cons r rows)
  have "row_named (bt_Name r) rows = None"
    using Cons.prems by (auto simp: row_named_def find_None_iff image_iff)
  with Cons show ?case by (auto simp: row_named_def split: option.splits)
qed (simp add: row_named_def)

lemma read_auths_agree: "rows_inv lower s \<Longrightarrow> auths_agree (read_auths (bd_targets s)) (bd_targets s)"
  using fold_put_auths [OF names_distinct] by (auto simp: auths_agree_def read_auths_def split: option.split)

lemma rows_inv_cong:
  "\<lbrakk>rows_inv lower s; bd_targets s' = bd_targets s; bd_nextID s' = bd_nextID s\<rbrakk> \<Longrightarrow> rows_inv lower s'"
  by (simp add: rows_inv_def)

lemma target_inv_invalid: "rows_inv lower s \<Longrightarrow> target_inv lower (bt_invalidate s)"
  by (simp add: target_inv_def bt_invalidate_def rows_inv_def)

lemma target_inv_cong:
  "\<lbrakk>target_inv lower s; bd_targets s' = bd_targets s; bd_nextID s' = bd_nextID s; bc_byName s' = bc_byName s; bc_cachedAt s' = bc_cachedAt s\<rbrakk>
    \<Longrightarrow> target_inv lower s'"
  by (simp add: target_inv_def rows_inv_def)

text \<open>An update of rows that keeps identity, name and digest, and the range of the usage.\<close>

lemma rows_inv_update:
  assumes "rows_inv lower s"
    "\<And>r. r \<in> set (bd_targets s) \<Longrightarrow> P r \<Longrightarrow> bt_ID (f r) = bt_ID r \<and> bt_Name (f r) = bt_Name r \<and> length (tr_hash (f r)) = 32 \<and>
       0 \<le> bt_UsedBytes (f r) \<and> bt_UsedBytes (f r) < 2 ^ 63"
  shows "rows_inv lower (update_targets P f s)"
proof -
  have "map bt_ID (map (\<lambda>r. if P r then f r else r) (bd_targets s)) = map bt_ID (bd_targets s)"
    "map (\<lambda>r. lower (bt_Name r)) (map (\<lambda>r. if P r then f r else r) (bd_targets s)) = map (\<lambda>r. lower (bt_Name r)) (bd_targets s)"
    using assms(2) by auto
  with assms show ?thesis unfolding rows_inv_def update_targets_def by (auto simp del: map_map)
qed

lemma row_named_update:
  assumes "\<And>r. r \<in> set rows \<Longrightarrow> P r \<Longrightarrow> bt_Name (f r) = bt_Name r \<and> served (f r) = served r"
  shows "row_named n (map (\<lambda>r. if P r then f r else r) rows) = map_option (\<lambda>r. if P r then f r else r) (row_named n rows)"
  using assms by (induction rows) (auto simp: row_named_def)

lemma row_named_mem: "row_named n rows = Some r \<Longrightarrow> r \<in> set rows \<and> bt_Name r = n \<and> served r"
  by (auto simp: row_named_def dest: find_mem)

text \<open>A change of the usage of one repository, in the table and in the cache.\<close>

lemma usage_agrees:
  assumes "target_inv lower s" "\<And>r. P r \<Longrightarrow> bt_ID r = i"
    "\<And>r. r \<in> set (bd_targets s) \<Longrightarrow> bt_ID r = i \<Longrightarrow> P r"
    "\<And>r. r \<in> set (bd_targets s) \<Longrightarrow> bt_ID r = i \<Longrightarrow> auth_of (f r) = (auth_of r)\<lparr>ba_used := g (bt_UsedBytes r)\<rparr> \<and> bt_Name (f r) = bt_Name r \<and>
        served (f r) = served r \<and> length (tr_hash (f r)) = 32 \<and> 0 \<le> bt_UsedBytes (f r) \<and> bt_UsedBytes (f r) < 2 ^ 63"
  shows "target_inv lower (cache_used i g (update_targets P f s))"
proof -
  have rows: "rows_inv lower s" using assms(1) by (simp add: target_inv_def)
  have id: "bt_ID (f r) = bt_ID r" if "r \<in> set (bd_targets s)" "bt_ID r = i" for r
    using assms(4) [OF that] by (simp add: auth_of_def)
  have "rows_inv lower (update_targets P f s)"
    using assms(2,4) id by (intro rows_inv_update [OF rows]) blast
  then have 1: "rows_inv lower (cache_used i g (update_targets P f s))"
    by (rule rows_inv_cong) (simp_all add: cache_used_def)
  have "auths_agree (bc_byName (cache_used i g (update_targets P f s))) (bd_targets (update_targets P f s))"
    if "auths_agree (bc_byName s) (bd_targets s)"
  proof -
    have "row_named n (bd_targets (update_targets P f s)) = map_option (\<lambda>r. if P r then f r else r) (row_named n (bd_targets s))" for n
      unfolding update_targets_def using assms(2,4) by (simp add: row_named_update)
    moreover have "get (bc_byName (cache_used i g (update_targets P f s))) n =
        map_option (\<lambda>a. if ba_id a = i then a\<lparr>ba_used := g (ba_used a)\<rparr> else a) (get (bc_byName s) n)" for n
      by (simp add: cache_used_def update_targets_def)
    moreover have "(if ba_id (auth_of r) = i then (auth_of r)\<lparr>ba_used := g (ba_used (auth_of r))\<rparr> else auth_of r) =
        auth_of (if P r then f r else r)" if "r \<in> set (bd_targets s)" for r
      using assms(2,3,4) that by (auto simp: auth_of_def)
    ultimately have "get (bc_byName (cache_used i g (update_targets P f s))) n =
        map_option auth_of (row_named n (bd_targets (update_targets P f s)))" for n
      using row_named_mem [of n "bd_targets s"] that unfolding auths_agree_def
      by (cases "row_named n (bd_targets s)") (simp_all only: option.map)
    then show ?thesis unfolding auths_agree_def by blast
  qed
  with 1 assms(1) show ?thesis by (simp add: target_inv_def cache_used_def update_targets_def)
qed


section \<open>Histories\<close>

text \<open>
  The calls on the store, one after the other, with any outcome of the database, at instants after 1970. Digests have 32
  bytes; measured usage is a non-negative 64-bit number. Hosts, tunnel peers and reports change in any way.
\<close>

inductive repo_step :: "(string \<Rightarrow> string) \<Rightarrow> (string \<Rightarrow> string) \<Rightarrow> backupTargets \<Rightarrow> backupTargets \<Rightarrow> bool" for lower sha where
  create: "length (sha secret) = 32 \<Longrightarrow> repo_step lower sha s (fst (target_Create ev lower sha name hostID quota secret nodeHostID s))"
| create_direct: "length (sha secret) = 32 \<Longrightarrow>
    repo_step lower sha s (fst (CreateDirectRepository ev lower sha box name host quota secret prefix dest c s))"
| rotate: "length (sha secret) = 32 \<Longrightarrow> repo_step lower sha s (fst (target_Rotate ev sha i secret s))"
| revoke: "repo_step lower sha s (fst (target_Revoke ev i s))"
| delete: "repo_step lower sha s (fst (target_Delete ev i s))"
| usage: "\<lbrakk>0 \<le> used; used < 2 ^ 63\<rbrakk> \<Longrightarrow> repo_step lower sha s (fst (target_SetUsage ev i used s))"
| quota: "repo_step lower sha s (fst (target_SetQuota ev i q s))"
| reserve: "repo_step lower sha s (fst (target_ReserveUsage ev i d s))"
| release: "in_i64 d \<Longrightarrow> repo_step lower sha s (fst (target_ReleaseUsage ev i d s))"
| resolve: "repo_step lower sha s (fst (target_ResolveTarget ev sha repo secret s))"
| credentials: "repo_step lower sha s (fst (SetDirectRepositoryCredentials ev box i c s))"
| promote: "repo_step lower sha s (fst (node_Promote ev host port endpoint dir maxBlob s))"
| endpoint: "repo_step lower sha s (fst (node_UpdateEndpoint ev host port endpoint s))"
| demote: "repo_step lower sha s (fst (node_Demote ev host s))"
| node_usage: "used < 2 ^ 63 \<Longrightarrow> repo_step lower sha s (fst (SetTargetUsage ev host name used s))"
| destination: "repo_step lower sha s (fst (CreateDestination ev lower parse box input s))"
| dest_credentials: "repo_step lower sha s (fst (SetDestinationCredentials ev box i c s))"
| drop_destination: "repo_step lower sha s (fst (DeleteDestination ev i s))"
| others: "repo_step lower sha s (s\<lparr>bd_hosts := hs, bd_peers := ps, bd_status := st\<rparr>)"

definition targets0 :: backupTargets where
  "targets0 = \<lparr>bd_targets = [], bd_nextID = 1, bd_nodes = [], bd_hosts = [], bd_peers = [], bd_status = [], bd_dests = [], bd_nextDest = 1,
     bc_byName = [], bc_cachedAt = zero_time\<rparr>"

lemma rows_inv_new:
  assumes "rows_inv lower s" "\<not> list_ex (\<lambda>r. lower (bt_Name r) = lower (bt_Name x)) (bd_targets s)" "bt_ID x = bd_nextID s"
    "length (tr_hash x) = 32" "bt_UsedBytes x = 0" "bd_targets s' = bd_targets s @ [x]" "bd_nextID s' = bd_nextID s + 1"
  shows "rows_inv lower s'"
  using assms by (auto simp: rows_inv_def list_ex_iff)

lemma new_target_fields [simp]:
  "bt_ID (new_target i name hash hostID quota node now) = i" "bt_Name (new_target i name hash hostID quota node now) = name"
  "tr_hash (new_target i name hash hostID quota node now) = hash" "bt_UsedBytes (new_target i name hash hostID quota node now) = 0"
  by (simp_all add: new_target_def)

lemma rows_of_inv: "target_inv lower s \<Longrightarrow> rows_inv lower s"
  by (simp add: target_inv_def)

lemma bump_inv: "target_inv lower s \<Longrightarrow> target_inv lower (s\<lparr>bd_nextID := bd_nextID s + 1\<rparr>)"
  by (auto simp: target_inv_def rows_inv_def)

lemma update_invalid_inv:
  assumes "target_inv lower s" "\<And>r. bt_ID (f r) = bt_ID r \<and> bt_Name (f r) = bt_Name r \<and> bt_UsedBytes (f r) = bt_UsedBytes r \<and>
     (length (tr_hash r) = 32 \<longrightarrow> length (tr_hash (f r)) = 32)"
  shows "target_inv lower (bt_invalidate (update_targets P f s))"
  using rows_of_inv [OF assms(1)] assms(2) by (intro target_inv_invalid rows_inv_update) (auto simp: rows_inv_def)

lemma Create_inv:
  assumes "target_inv lower s" "length (sha secret) = 32"
  shows "target_inv lower (fst (target_Create ev lower sha name hostID quota secret nodeHostID s))"
proof -
  note rows = rows_of_inv [OF assms(1)]
  have "target_inv lower (bt_invalidate (s\<lparr>bd_nextID := bd_nextID s + 1,
      bd_targets := bd_targets s @ [new_target (bd_nextID s) name (sha secret) hostID quota nodeHostID (be_now ev)]\<rparr>))"
    if "\<not> list_ex (\<lambda>r. lower (bt_Name r) = lower name) (bd_targets s)"
    by (rule target_inv_invalid, rule rows_inv_new [OF rows, where x = "new_target (bd_nextID s) name (sha secret) hostID quota nodeHostID (be_now ev)"])
       (use that assms(2) in simp_all)
  then show ?thesis using assms(1) bump_inv by (simp add: target_Create_def Let_def)
qed

lemma CreateDirect_inv:
  assumes "target_inv lower s" "length (sha secret) = 32"
  shows "target_inv lower (fst (CreateDirectRepository ev lower sha box name host quota secret prefix dest c s))"
proof -
  note rows = rows_of_inv [OF assms(1)]
  have new: "target_inv lower (bt_invalidate (s\<lparr>bd_nextID := bd_nextID s + 1,
      bd_targets := bd_targets s @ [direct_target (bd_nextID s) name (sha secret) host quota prefix dest creds (be_now ev)]\<rparr>))"
    if "\<not> list_ex (\<lambda>r. lower (bt_Name r) = lower name) (bd_targets s)" for creds
    by (rule target_inv_invalid, rule rows_inv_new [OF rows, where x = "direct_target (bd_nextID s) name (sha secret) host quota prefix dest creds (be_now ev)"])
       (use that assms(2) in \<open>simp_all add: direct_target_def\<close>)
  show ?thesis using assms(1) bump_inv [OF assms(1)] new
    by (simp add: CreateDirectRepository_def Let_def split: option.split sum.split)
qed

lemma Reserve_inv:
  assumes "target_inv lower s"
  shows "target_inv lower (fst (target_ReserveUsage ev i d s))"
proof (cases "\<exists>r \<in> set (bd_targets s). bt_ID r = i \<and> may_reserve d r \<and> 0 < d \<and> bt_UsedBytes r + d < 2 ^ 63")
  case True
  then obtain r where r: "r \<in> set (bd_targets s)" "bt_ID r = i" "may_reserve d r" "0 < d" "bt_UsedBytes r + d < 2 ^ 63" by blast
  have one: "q = r" if "q \<in> set (bd_targets s)" "bt_ID q = i" for q
    using rows_of_inv [OF assms] r(1,2) that unfolding rows_inv_def distinct_map inj_on_def by metis
  have range: "0 \<le> bt_UsedBytes r" "length (tr_hash r) = 32" using rows_of_inv [OF assms] r(1) by (auto simp: rows_inv_def)
  have "target_inv lower (cache_used i (\<lambda>u. let u = i64 (u + d) in if u < 0 then 0 else u)
      (update_targets (\<lambda>r. bt_ID r = i \<and> may_reserve d r) (\<lambda>r. r\<lparr>bt_UsedBytes := bt_UsedBytes r + d\<rparr>) s))"
  proof (rule usage_agrees [OF assms])
    fix q
    assume "q \<in> set (bd_targets s)" "bt_ID q = i"
    then have "q = r" by (rule one)
    then show "bt_ID q = i \<and> may_reserve d q" using r by simp
    show "auth_of (q\<lparr>bt_UsedBytes := bt_UsedBytes q + d\<rparr>) = (auth_of q)\<lparr>ba_used := (\<lambda>u. let u = i64 (u + d) in if u < 0 then 0 else u) (bt_UsedBytes q)\<rparr> \<and>
        bt_Name (q\<lparr>bt_UsedBytes := bt_UsedBytes q + d\<rparr>) = bt_Name q \<and> served (q\<lparr>bt_UsedBytes := bt_UsedBytes q + d\<rparr>) = served q \<and>
        length (tr_hash (q\<lparr>bt_UsedBytes := bt_UsedBytes q + d\<rparr>)) = 32 \<and> 0 \<le> bt_UsedBytes (q\<lparr>bt_UsedBytes := bt_UsedBytes q + d\<rparr>) \<and>
        bt_UsedBytes (q\<lparr>bt_UsedBytes := bt_UsedBytes q + d\<rparr>) < 2 ^ 63"
      using \<open>q = r\<close> range r(4,5) by (simp add: auth_of_def served_def in_i64_def)
  qed simp
  then show ?thesis using assms by (simp add: target_ReserveUsage_def Let_def)
next
  case False
  then have "fst (target_ReserveUsage ev i d s) = s"
    by (fastforce simp: target_ReserveUsage_def Let_def targets_affected_def list_ex_iff not_le)
  then show ?thesis using assms by simp
qed

lemma Release_inv:
  assumes "target_inv lower s" "in_i64 d"
  shows "target_inv lower (fst (target_ReleaseUsage ev i d s))"
proof (cases "0 < d")
  case True
  have "target_inv lower (cache_used i (\<lambda>u. let u = i64 (u - d) in if u < 0 then 0 else u)
      (update_targets (\<lambda>r. bt_ID r = i) (\<lambda>r. r\<lparr>bt_UsedBytes := max (bt_UsedBytes r - d) 0\<rparr>) s))"
  proof (rule usage_agrees [OF assms(1)])
    fix q
    assume q: "q \<in> set (bd_targets s)" "bt_ID q = i"
    then have "0 \<le> bt_UsedBytes q" "bt_UsedBytes q < 2 ^ 63" "length (tr_hash q) = 32"
      using rows_of_inv [OF assms(1)] by (auto simp: rows_inv_def)
    then show "auth_of (q\<lparr>bt_UsedBytes := max (bt_UsedBytes q - d) 0\<rparr>) = (auth_of q)\<lparr>ba_used := (\<lambda>u. let u = i64 (u - d) in if u < 0 then 0 else u) (bt_UsedBytes q)\<rparr> \<and>
        bt_Name (q\<lparr>bt_UsedBytes := max (bt_UsedBytes q - d) 0\<rparr>) = bt_Name q \<and> served (q\<lparr>bt_UsedBytes := max (bt_UsedBytes q - d) 0\<rparr>) = served q \<and>
        length (tr_hash (q\<lparr>bt_UsedBytes := max (bt_UsedBytes q - d) 0\<rparr>)) = 32 \<and> 0 \<le> bt_UsedBytes (q\<lparr>bt_UsedBytes := max (bt_UsedBytes q - d) 0\<rparr>) \<and>
        bt_UsedBytes (q\<lparr>bt_UsedBytes := max (bt_UsedBytes q - d) 0\<rparr>) < 2 ^ 63"
      using True assms(2) by (auto simp: auth_of_def served_def in_i64_def max_def)
  qed auto
  then show ?thesis using assms by (simp add: target_ReleaseUsage_def Let_def)
qed (use assms in \<open>simp add: target_ReleaseUsage_def\<close>)

lemma SetUsage_inv:
  assumes "target_inv lower s" "0 \<le> used" "used < 2 ^ 63"
  shows "target_inv lower (fst (target_SetUsage ev i used s))"
proof -
  have "target_inv lower (cache_used i (\<lambda>_. used)
      (update_targets (\<lambda>r. bt_ID r = i) (\<lambda>r. r\<lparr>bt_UsedBytes := used, bt_UsageMeasuredAt := Some (be_now ev)\<rparr>) s))"
    by (rule usage_agrees [OF assms(1)])
       (use rows_of_inv [OF assms(1)] assms(2,3) in \<open>auto simp: auth_of_def served_def rows_inv_def\<close>)
  then show ?thesis using assms by (simp add: target_SetUsage_def Let_def)
qed

text \<open>Updates that the cache does not see.\<close>

lemma unseen_update_inv:
  assumes "target_inv lower s" "\<And>r. r \<in> set (bd_targets s) \<Longrightarrow> P r \<Longrightarrow> \<not> served r \<and> \<not> served (f r) \<and> bt_ID (f r) = bt_ID r \<and> bt_Name (f r) = bt_Name r \<and>
      length (tr_hash (f r)) = 32 \<and> 0 \<le> bt_UsedBytes (f r) \<and> bt_UsedBytes (f r) < 2 ^ 63"
  shows "target_inv lower (update_targets P f s)"
proof -
  have rows: "rows_inv lower (update_targets P f s)"
    using assms(2) by (intro rows_inv_update [OF rows_of_inv [OF assms(1)]]) blast
  have "row_named n (bd_targets (update_targets P f s)) = row_named n (bd_targets s)" for n
  proof -
    have "row_named n (bd_targets (update_targets P f s)) = map_option (\<lambda>r. if P r then f r else r) (row_named n (bd_targets s))"
      unfolding update_targets_def using assms(2) by (simp add: row_named_update)
    then show ?thesis using row_named_mem [of n "bd_targets s"] assms(2)
      by (cases "row_named n (bd_targets s)") auto
  qed
  with rows assms(1) show ?thesis
    unfolding target_inv_def auths_agree_def by (simp add: update_targets_def)
qed


lemma refresh_keeps: "target_inv lower s \<Longrightarrow> target_inv lower (fst (bt_refresh ev s))"
  using read_auths_agree [OF rows_of_inv, of lower s] rows_inv_cong [of lower s "install_auths (be_now ev) (read_auths (bd_targets s)) s"]
  by (simp add: bt_refresh_def install_auths_def target_inv_def)

lemma Resolve_inv: "target_inv lower s \<Longrightarrow> target_inv lower (fst (target_ResolveTarget ev sha repo secret s))"
  using refresh_keeps [of lower s ev] by (auto simp: target_ResolveTarget_def split: prod.split bool.split)

lemma node_steps_same [simp]:
  "bd_targets (fst (node_Promote ev host port endpoint dir m s)) = bd_targets s" "bd_targets (fst (drop_node ev host s)) = bd_targets s"
  "bd_targets (fst (node_UpdateEndpoint ev host port endpoint s)) = bd_targets s" "bd_targets (fst (node_Demote ev host s)) = bd_targets s"
  "bd_nextID (fst (node_Promote ev host port endpoint dir m s)) = bd_nextID s" "bd_nextID (fst (drop_node ev host s)) = bd_nextID s"
  "bd_nextID (fst (node_UpdateEndpoint ev host port endpoint s)) = bd_nextID s" "bd_nextID (fst (node_Demote ev host s)) = bd_nextID s"
  by (simp_all add: node_Promote_def drop_node_def node_UpdateEndpoint_def node_Demote_def split: sum.split bool.split)

lemma node_steps_cache [simp]:
  fixes s :: backupTargets
  shows "bc_byName (fst (node_Promote ev host port endpoint dir m s)) = bc_byName s" "bc_byName (fst (drop_node ev host s)) = bc_byName s"
  "bc_byName (fst (node_UpdateEndpoint ev host port endpoint s)) = bc_byName s" "bc_byName (fst (node_Demote ev host s)) = bc_byName s"
  "bc_cachedAt (fst (node_Promote ev host port endpoint dir m s)) = bc_cachedAt s" "bc_cachedAt (fst (drop_node ev host s)) = bc_cachedAt s"
  "bc_cachedAt (fst (node_UpdateEndpoint ev host port endpoint s)) = bc_cachedAt s" "bc_cachedAt (fst (node_Demote ev host s)) = bc_cachedAt s"
  by (simp_all add: node_Promote_def drop_node_def node_UpdateEndpoint_def node_Demote_def split: sum.split bool.split)

lemma dest_steps_same [simp]:
  "bd_targets (fst (CreateDestination ev lower parse box input s)) = bd_targets s" "bd_nextID (fst (CreateDestination ev lower parse box input s)) = bd_nextID s"
  "bc_byName (fst (CreateDestination ev lower parse box input s)) = bc_byName s" "bc_cachedAt (fst (CreateDestination ev lower parse box input s)) = bc_cachedAt s"
  "bd_targets (fst (SetDestinationCredentials ev box i c s)) = bd_targets s" "bd_nextID (fst (SetDestinationCredentials ev box i c s)) = bd_nextID s"
  "bc_byName (fst (SetDestinationCredentials ev box i c s)) = bc_byName s" "bc_cachedAt (fst (SetDestinationCredentials ev box i c s)) = bc_cachedAt s"
  "bd_targets (fst (DeleteDestination ev i s)) = bd_targets s" "bd_nextID (fst (DeleteDestination ev i s)) = bd_nextID s"
  "bc_byName (fst (DeleteDestination ev i s)) = bc_byName s" "bc_cachedAt (fst (DeleteDestination ev i s)) = bc_cachedAt s"
  by (simp_all add: CreateDestination_def SetDestinationCredentials_def DeleteDestination_def Let_def split: sum.split)

lemma repo_step_inv: "\<lbrakk>repo_step lower sha s s'; target_inv lower s\<rbrakk> \<Longrightarrow> target_inv lower s'"
proof (induction rule: repo_step.induct)
  case (create secret s ev name hostID quota nodeHostID)
  then show ?case by (intro Create_inv)
next
  case (create_direct secret s ev box name host quota prefix dest c)
  then show ?case by (intro CreateDirect_inv)
next
  case (rotate secret s ev i)
  then show ?case using update_invalid_inv [OF rotate(2)] by (simp add: target_Rotate_def Let_def)
next
  case (revoke s ev i)
  then show ?case using update_invalid_inv [OF revoke] by (simp add: target_Revoke_def Let_def)
next
  case (delete s ev i)
  then have "rows_inv lower (s\<lparr>bd_targets := filter (\<lambda>r. bt_ID r \<noteq> i) (bd_targets s)\<rparr>)"
    using rows_of_inv [OF delete] by (auto simp: rows_inv_def distinct_map inj_on_def)
  then show ?case using delete by (simp add: target_Delete_def target_inv_invalid)
next
  case (usage used s ev i)
  then show ?case by (intro SetUsage_inv)
next
  case (quota s ev i q)
  then show ?case using update_invalid_inv [OF quota] by (simp add: target_SetQuota_def Let_def)
next
  case (reserve s ev i d)
  then show ?case by (intro Reserve_inv)
next
  case (release d s ev i)
  then show ?case by (intro Release_inv)
next
  case (resolve s ev repo secret)
  then show ?case by (intro Resolve_inv)
next
  case (credentials s ev box i c)
  have "target_inv lower (update_targets (\<lambda>r. bt_ID r = i \<and> bt_DestinationID r \<noteq> None) (\<lambda>r. r\<lparr>tr_creds := Some x, bt_UpdatedAt := be_now ev\<rparr>) s)" for x
    by (rule unseen_update_inv [OF credentials]) (use rows_of_inv [OF credentials] in \<open>auto simp: served_def rows_inv_def\<close>)
  then show ?case using credentials by (simp add: SetDirectRepositoryCredentials_def Let_def split: sum.split)
next
  case (node_usage used s ev host name)
  have "target_inv lower (update_targets (\<lambda>r. bt_NodeHostID r = Some host \<and> bt_Name r = name)
      (\<lambda>r. r\<lparr>bt_UsedBytes := max used 0, bt_UsageMeasuredAt := Some (be_now ev)\<rparr>) s)"
    by (rule unseen_update_inv [OF node_usage(2)]) (use rows_of_inv [OF node_usage(2)] node_usage(1) in \<open>auto simp: served_def rows_inv_def\<close>)
  then show ?case using node_usage by (simp add: SetTargetUsage_def)
qed (auto intro: target_inv_cong)

lemma repo_reach_inv: "(repo_step lower sha)\<^sup>*\<^sup>* targets0 s \<Longrightarrow> target_inv lower s"
proof (induction rule: rtranclp_induct)
  case base
  then show ?case by (simp add: target_inv_def rows_inv_def targets0_def)
next
  case (step s s')
  then show ?case by (blast intro: repo_step_inv)
qed

section \<open>Which credentials open a repository\<close>

definition opens_as :: "string \<Rightarrow> targetRow option \<Rightarrow> (int \<times> int \<times> int) option" where
  "opens_as digest r = (case r of
     None \<Rightarrow> None
   | Some r \<Rightarrow> if tr_hash r = digest \<and> bt_RevokedAt r = None
       then Some (bt_ID r, (case bt_QuotaBytes r of None \<Rightarrow> 0 | Some q \<Rightarrow> q), bt_UsedBytes r) else None)"

lemma auth_lookup_agrees:
  assumes "auths_agree (bc_byName s) (bd_targets s)" "\<forall>r \<in> set (bd_targets s). length (tr_hash r) = 32"
  shows "lookup_auth s repo k = opens_as k (row_named repo (bd_targets s))"
proof (cases "row_named repo (bd_targets s)")
  case None
  then show ?thesis using assms(1) by (simp add: auths_agree_def lookup_auth_def opens_as_def)
next
  case (Some r)
  then have "length (tr_hash r) = 32" using row_named_mem [OF Some] assms(2) by blast
  then show ?thesis using assms(1) Some
    by (simp add: auths_agree_def lookup_auth_def opens_as_def matchTarget_def auth_of_def pad32_id)
qed

lemma fresh_agrees:
  assumes "target_inv lower s" "unix_epoch \<le> now" "bt_fresh now s"
  shows "auths_agree (bc_byName s) (bd_targets s)"
proof -
  have "bc_cachedAt s \<noteq> zero_time"
    using assms(2,3) by (auto simp: bt_fresh_def time_Sub_def zero_time_def unix_epoch_def bt_cacheTTL_def Second_def)
  then show ?thesis using assms(1) by (simp add: target_inv_def)
qed

lemma resolve_table:
  assumes "target_inv lower s" "unix_epoch \<le> be_now ev"
  shows "snd (target_ResolveTarget ev sha repo secret s) =
    (if bt_fresh (be_now ev) s \<or> be_stmt ev 0 then Inr (opens_as (sha secret) (row_named repo (bd_targets s))) else Inl BtDB)"
proof -
  have h: "\<forall>r \<in> set (bd_targets s). length (tr_hash r) = 32" using rows_of_inv [OF assms(1)] by (simp add: rows_inv_def)
  let ?s = "install_auths (be_now ev) (read_auths (bd_targets s)) s"
  have "auths_agree (bc_byName ?s) (bd_targets ?s)"
    using read_auths_agree [OF rows_of_inv [OF assms(1)]] by (simp add: install_auths_def)
  then have "lookup_auth ?s repo (sha secret) = opens_as (sha secret) (row_named repo (bd_targets s))"
    using auth_lookup_agrees [of ?s repo "sha secret"] h by (simp add: install_auths_def)
  moreover have "lookup_auth s repo (sha secret) = opens_as (sha secret) (row_named repo (bd_targets s))" if "bt_fresh (be_now ev) s"
    using auth_lookup_agrees [OF fresh_agrees [OF assms that] h] .
  ultimately show ?thesis by (simp add: target_ResolveTarget_def bt_refresh_def)
qed

text \<open>
  C13. The repositories of the server open by the table. After any sequence of operations of the store, which run one after the
  other, with any of their statements failing, a name and a secret open a repository exactly when the table has a row of that name
  that is kept by the server itself, not revoked, with the digest of the secret; quota and usage are those of the row. When the cache
  is too old and the table cannot be read, the answer is an error and nothing opens. A refresh that overlaps a revocation is
  treated in \<open>stale_refresh_reopens_revoked\<close> below.
\<close>

theorem repository_access_follows_table:
  assumes "(repo_step lower sha)\<^sup>*\<^sup>* targets0 s" "unix_epoch \<le> be_now ev"
  shows "snd (target_ResolveTarget ev sha repo secret s) =
    (if bt_fresh (be_now ev) s \<or> be_stmt ev 0
     then Inr (case find (\<lambda>r. bt_Name r = repo \<and> bt_NodeHostID r = None \<and> bt_DestinationID r = None) (bd_targets s) of
       None \<Rightarrow> None
     | Some r \<Rightarrow> if tr_hash r = sha secret \<and> bt_RevokedAt r = None
         then Some (bt_ID r, (case bt_QuotaBytes r of None \<Rightarrow> 0 | Some q \<Rightarrow> q), bt_UsedBytes r) else None)
     else Inl BtDB)"
  using resolve_table [OF repo_reach_inv [OF assms(1)] assms(2)] unfolding opens_as_def row_named_def served_def .


text \<open>A server with one repository, whose password is then replaced.\<close>

definition working :: "time \<Rightarrow> bt_env" where
  "working now = \<lparr>be_now = max now unix_epoch, be_stmt = (\<lambda>_. True)\<rparr>"

definition repo1 :: backupTargets where
  "repo1 = fst (target_Create (working 0) (\<lambda>s. s) sha0 ''docs'' None (Some 100) ''pw'' None targets0)"

definition repo2 :: backupTargets where
  "repo2 = fst (target_Rotate (working 0) sha0 1 ''new'' (fst (target_ResolveTarget (working 0) sha0 ''docs'' ''pw'' repo1)))"

lemma repo2_reach: "(repo_step (\<lambda>s. s) sha0)\<^sup>*\<^sup>* targets0 repo2"
proof -
  have sha: "length (sha0 x) = 32" for x by (simp add: sha0_def pad32_def)
  have "repo_step (\<lambda>s. s) sha0 targets0 repo1" unfolding repo1_def by (rule repo_step.create) (rule sha)
  moreover have "repo_step (\<lambda>s. s) sha0 repo1 (fst (target_ResolveTarget (working 0) sha0 ''docs'' ''pw'' repo1))"
    by (rule repo_step.resolve)
  moreover have "repo_step (\<lambda>s. s) sha0 (fst (target_ResolveTarget (working 0) sha0 ''docs'' ''pw'' repo1)) repo2"
    unfolding repo2_def by (rule repo_step.rotate) (rule sha)
  ultimately show ?thesis by (meson rtranclp.rtrancl_refl rtranclp.rtrancl_into_rtrancl)
qed

theorem repository_access_follows_table_witness:
  "snd (target_ResolveTarget (working 0) sha0 ''docs'' ''new'' repo2) = Inr (Some (1, 100, 0))
   \<and> snd (target_ResolveTarget (working 0) sha0 ''docs'' ''pw'' repo2) = Inr None"
proof -
  have t: "unix_epoch \<le> be_now (working 0)" by (simp add: working_def)
  have rows: "map (\<lambda>r. (bt_Name r, bt_NodeHostID r, bt_DestinationID r)) (bd_targets repo2) = [(''docs'', None, None)]"
    "map (\<lambda>r. (bt_ID r, bt_QuotaBytes r, bt_UsedBytes r, bt_RevokedAt r, tr_hash r)) (bd_targets repo2) = [(1, Some 100, 0, None, sha0 ''new'')]"
    by code_simp+
  then obtain r where r: "bd_targets repo2 = [r]" "bt_Name r = ''docs''" "bt_NodeHostID r = None" "bt_DestinationID r = None"
    "bt_ID r = 1" "bt_QuotaBytes r = Some 100" "bt_UsedBytes r = 0" "bt_RevokedAt r = None" "tr_hash r = sha0 ''new''"
    by auto
  have "sha0 ''new'' \<noteq> sha0 ''pw''" by code_simp
  then show ?thesis
    using repository_access_follows_table [OF repo2_reach t, of "''docs''" "''new''"] repository_access_follows_table [OF repo2_reach t, of "''docs''" "''pw''"]
    by (simp add: r working_def)
qed

text \<open>
  A refresh that read the table before a revocation and installs its map afterwards makes the revoked
  repository open again, for as long as the map counts as fresh.
\<close>

lemma stale_refresh_reopens_revoked:
  "let m = read_auths (bd_targets repo1); s = install_auths unix_epoch m (fst (target_Revoke (working 0) 1 repo1))
   in list_all (\<lambda>r. bt_RevokedAt r \<noteq> None) (bd_targets s) \<and>
      snd (target_ResolveTarget (working (unix_epoch + 29 * Second)) sha0 ''docs'' ''pw'' s) = Inr (Some (1, 100, 0))"
  by code_simp

section \<open>The registry of the gateway\<close>

definition registry_err :: "bt_err \<Rightarrow> reg_err" where
  "registry_err e = (if e = BtNegative then NegativeReservation else RegistryFailure)"

text \<open>
  The interface \<open>Registry\<close> of the gateway on the store of the server, at an instant and with a database that answers. The
  state a lookup leaves differs in the cache only, which no later answer shows, so the lookup is an observation.
\<close>

definition server_resolve :: "(string \<Rightarrow> string) \<Rightarrow> time \<Rightarrow> string \<Rightarrow> string \<Rightarrow> backupTargets \<Rightarrow> reg_err + (int \<times> int \<times> int) option" where
  "server_resolve sha now repo secret s =
     (case snd (target_ResolveTarget (working now) sha repo secret s) of Inl e \<Rightarrow> Inl (registry_err e) | Inr r \<Rightarrow> Inr r)"

definition server_reserve :: "time \<Rightarrow> int \<Rightarrow> int \<Rightarrow> backupTargets \<Rightarrow> backupTargets \<times> (reg_err + bool)" where
  "server_reserve now i d s =
     (case target_ReserveUsage (working now) i d s of (s, Inl e) \<Rightarrow> (s, Inl (registry_err e)) | (s, Inr b) \<Rightarrow> (s, Inr b))"

definition server_release :: "time \<Rightarrow> int \<Rightarrow> int \<Rightarrow> backupTargets \<Rightarrow> backupTargets \<times> reg_err option" where
  "server_release now i d s =
     (case target_ReleaseUsage (working now) i (i64 d) s of (s, e) \<Rightarrow> (s, map_option registry_err e))"

definition server_registry :: "(string \<Rightarrow> string) \<Rightarrow> time \<Rightarrow> backupTargets registry" where
  "server_registry sha now =
     \<lparr>rg_ResolveTarget = server_resolve sha now, rg_ReserveUsage = server_reserve now, rg_ReleaseUsage = server_release now\<rparr>"

definition row_with :: "int \<Rightarrow> backupTargets \<Rightarrow> targetRow option" where
  "row_with i s = find (\<lambda>r. bt_ID r = i) (bd_targets s)"

definition server_used :: "backupTargets \<Rightarrow> int \<Rightarrow> int option" where
  "server_used s i = map_option bt_UsedBytes (row_with i s)"

definition server_repo :: "backupTargets \<Rightarrow> int \<Rightarrow> string option" where
  "server_repo s i = (case row_with i s of None \<Rightarrow> None | Some r \<Rightarrow> if served r then Some (bt_Name r) else None)"

lemma find_id_map:
  assumes "\<And>r. bt_ID (g r) = bt_ID r"
  shows "find (\<lambda>r. bt_ID r = i) (map g rows) = map_option g (find (\<lambda>r. bt_ID r = i) rows)"
  using assms by (induction rows) auto

lemma row_with_update:
  assumes "\<And>r. bt_ID (f r) = bt_ID r"
  shows "row_with i (update_targets P f s) = map_option (\<lambda>r. if P r then f r else r) (row_with i s)"
  using assms unfolding row_with_def update_targets_def by (simp add: find_id_map)

lemma row_with_cache [simp]: "row_with j (cache_used i g s) = row_with j s"
  by (simp add: row_with_def cache_used_def)

lemma row_with_mem: "row_with i s = Some r \<Longrightarrow> r \<in> set (bd_targets s) \<and> bt_ID r = i"
  by (auto simp: row_with_def dest: find_mem)

lemma row_with_unique: "\<lbrakk>rows_inv lower s; r \<in> set (bd_targets s)\<rbrakk> \<Longrightarrow> row_with (bt_ID r) s = Some r"
  using find_unique [of bt_ID "bd_targets s" r] by (simp add: row_with_def rows_inv_def)

text \<open>The two outcomes of a reservation, and of a release, on the rows.\<close>

lemma reserve_rows:
  "row_with j (fst (server_reserve now i d s)) =
     (if snd (server_reserve now i d s) = Inr True \<and> 0 < d
      then map_option (\<lambda>r. if bt_ID r = i \<and> may_reserve d r then r\<lparr>bt_UsedBytes := bt_UsedBytes r + d\<rparr> else r) (row_with j s)
      else row_with j s)"
proof -
  let ?P = "\<lambda>r. bt_ID r = i \<and> may_reserve d r"
  note defs = server_reserve_def target_ReserveUsage_def working_def Let_def
  consider "d < 0" | "d = 0" | "0 < d" "list_ex (\<lambda>r. ?P r \<and> 2 ^ 63 \<le> bt_UsedBytes r + d) (bd_targets s)"
    | "0 < d" "\<not> list_ex (\<lambda>r. ?P r \<and> 2 ^ 63 \<le> bt_UsedBytes r + d) (bd_targets s)" "\<not> targets_affected ?P s"
    | "0 < d" "\<not> list_ex (\<lambda>r. ?P r \<and> 2 ^ 63 \<le> bt_UsedBytes r + d) (bd_targets s)" "targets_affected ?P s"
    by linarith
  then show ?thesis by cases (simp_all add: defs row_with_update)
qed

lemma release_rows:
  "row_with j (fst (server_release now i d s)) =
     map_option (\<lambda>r. if bt_ID r = i \<and> 0 < i64 d then r\<lparr>bt_UsedBytes := max (bt_UsedBytes r - i64 d) 0\<rparr> else r) (row_with j s)"
proof (cases "0 < i64 d \<and> targets_affected (\<lambda>r. bt_ID r = i) s")
  case True
  then show ?thesis
    by (simp add: server_release_def target_ReleaseUsage_def working_def Let_def row_with_update)
next
  case False
  have "bt_ID r \<noteq> i" if "0 < i64 d" "row_with j s = Some r" for r
    using False that row_with_mem [of j s r] by (auto simp: targets_affected_def list_ex_iff)
  then show ?thesis using False
    by (cases "row_with j s") (auto simp: server_release_def target_ReleaseUsage_def working_def Let_def)
qed


lemma reserve_granted_row:
  assumes "snd (server_reserve now i d s) = Inr True" "row_with i s = Some r" "0 < d" "target_inv lower s"
  shows "may_reserve d r \<and> bt_UsedBytes r + d < 2 ^ 63"
proof -
  note r = row_with_mem [OF assms(2)]
  obtain q where q: "q \<in> set (bd_targets s)" "bt_ID q = i" "may_reserve d q" "bt_UsedBytes q + d < 2 ^ 63"
    using assms(1,3) by (fastforce simp: server_reserve_def target_ReserveUsage_def working_def Let_def targets_affected_def list_ex_iff not_le split: if_splits)
  have "q = r" using row_with_unique [OF rows_of_inv [OF assms(4)] q(1)] q(2) assms(2) by simp
  with q show ?thesis by simp
qed

lemma server_reserve_inv: "target_inv lower s \<Longrightarrow> target_inv lower (fst (server_reserve now i d s))"
  using Reserve_inv [of lower s "working now" i d]
  by (cases "target_ReserveUsage (working now) i d s") (auto simp: server_reserve_def split: sum.split)

lemma server_release_inv: "target_inv lower s \<Longrightarrow> target_inv lower (fst (server_release now i d s))"
  using Release_inv [of lower s "i64 d" "working now" i]
  by (cases "target_ReleaseUsage (working now) i (i64 d) s") (auto simp: server_release_def)

lemma server_used_row: "server_used s i = Some u \<longleftrightarrow> (\<exists>r. row_with i s = Some r \<and> bt_UsedBytes r = u)"
  by (auto simp: server_used_def)

lemma server_repo_keeps:
  "server_repo (fst (server_reserve now i d s)) = server_repo s" "server_repo (fst (server_release now i d s)) = server_repo s"
  by (auto simp: server_repo_def fun_eq_iff reserve_rows release_rows served_def split: option.split)

interpretation server_accounts: accounted_registry "server_reserve now" "server_release now" "target_inv lower" server_used
  "server_resolve sha now" server_repo "\<lambda>m. target_inv lower" for lower sha now
proof
  fix s i d u j q n repo secret
  fix m k :: int
  assume inv: "target_inv lower s"
  have range: "0 \<le> bt_UsedBytes r \<and> bt_UsedBytes r < 2 ^ 63" if "row_with k s = Some r" for k r
    using row_with_mem [OF that] rows_of_inv [OF inv] by (auto simp: rows_inv_def)
  have id: "bt_ID r = k" if "row_with k s = Some r" for k r using row_with_mem [OF that] by simp
  show "target_inv lower (fst (server_reserve now i d s))" by (rule server_reserve_inv [OF inv])
  show "target_inv lower (fst (server_release now i d s))" by (rule server_release_inv [OF inv])
  show "snd (server_reserve now i d s) \<noteq> Inr True \<Longrightarrow> fst (server_reserve now i d s) = s"
    by (auto simp: server_reserve_def target_ReserveUsage_def Let_def split: if_splits)
  show "\<lbrakk>snd (server_reserve now i d s) = Inr True; server_used s i = Some u; in_i64 u; in_i64 (u + d)\<rbrakk> \<Longrightarrow>
      server_used (fst (server_reserve now i d s)) i = Some (u + d)"
  proof -
    assume g: "snd (server_reserve now i d s) = Inr True" "server_used s i = Some u"
    then obtain r where r: "row_with i s = Some r" "bt_UsedBytes r = u" by (auto simp: server_used_row)
    have "0 \<le> d" using g(1) by (auto simp: server_reserve_def target_ReserveUsage_def Let_def split: if_splits)
    then show ?thesis
    proof (cases "d = 0")
      case False
      then have "may_reserve d r" using reserve_granted_row [OF g(1) r(1) _ inv] \<open>0 \<le> d\<close> by simp
      then show ?thesis using g(1) r id [OF r(1)] False \<open>0 \<le> d\<close> by (simp add: server_used_def reserve_rows)
    qed (use r in \<open>simp add: server_used_def reserve_rows\<close>)
  qed
  show "server_used (fst (server_reserve now i d s)) j = server_used s j" if "j \<noteq> i"
    using that id by (cases "row_with j s") (auto simp: server_used_def reserve_rows)
  show "\<lbrakk>server_used s i = Some u; in_i64 u; 0 \<le> u; in_i64 d\<rbrakk> \<Longrightarrow>
      server_used (fst (server_release now i d s)) i = Some (if 0 < d then max 0 (u - d) else u)"
  proof -
    assume u: "server_used s i = Some u" "in_i64 d"
    then obtain r where "row_with i s = Some r" "bt_UsedBytes r = u" by (auto simp: server_used_row)
    then show ?thesis using u(2) id [of i r] by (simp add: server_used_def release_rows max.commute i64_id)
  qed
  show "server_used (fst (server_release now i d s)) j = server_used s j" if "j \<noteq> i"
    using that id by (cases "row_with j s") (auto simp: server_used_def release_rows)
  show "server_used s i = Some u \<and> server_repo s i = Some repo" if r: "server_resolve sha now repo secret s = Inr (Some (i, q, u))"
  proof -
    have "opens_as (sha secret) (row_named repo (bd_targets s)) = Some (i, q, u)"
      using r resolve_table [OF inv, of "working now" sha repo secret] by (simp add: server_resolve_def working_def split: if_splits)
    then obtain r where n: "row_named repo (bd_targets s) = Some r" "bt_ID r = i" "bt_UsedBytes r = u"
      by (auto simp: opens_as_def split: option.splits if_splits)
    then have "row_with i s = Some r" using row_with_unique [OF rows_of_inv [OF inv]] row_named_mem [OF n(1)] by blast
    then show ?thesis using n row_named_mem [OF n(1)] by (simp add: server_used_def server_repo_def)
  qed
  show "\<lbrakk>server_repo s i = Some n; server_repo s j = Some n\<rbrakk> \<Longrightarrow> i = j"
  proof -
    assume "server_repo s i = Some n" "server_repo s j = Some n"
    then obtain p r where "row_with i s = Some p" "row_with j s = Some r" "bt_Name p = n" "bt_Name r = n"
      by (auto simp: server_repo_def split: option.splits if_splits)
    moreover from this have "p = r" using names_distinct [OF rows_of_inv [OF inv]] row_with_mem
      unfolding distinct_map inj_on_def by metis
    ultimately show "i = j" using id by auto
  qed
  show "server_repo (fst (server_reserve now i d s)) = server_repo s" "server_repo (fst (server_release now i d s)) = server_repo s"
    by (fact server_repo_keeps)+
  show "target_inv lower s" by (rule inv)
  show "server_used s i = Some u \<Longrightarrow> 0 \<le> u \<and> u < 2 ^ 63" using range by (auto simp: server_used_row)
  show "\<lbrakk>0 \<le> d; snd (server_reserve now i d s) = Inr True; server_used s i = Some u\<rbrakk> \<Longrightarrow> u + d < 2 ^ 63"
    using reserve_granted_row [OF _ _ _ inv, of now i d] range by (cases "d = 0") (auto simp: server_used_row)
qed (simp_all add: server_reserve_inv server_release_inv)

text \<open>
  C14. The server's own accounts cover its store: if the recorded usage of every repository the server keeps is at least
  what its directory holds, this is so after any sequence of gateway requests, successful or not
  and whatever system calls of the store fail, with the table and the cache of the server as the registry (while the
  database answers).
\<close>

theorem server_usage_covers_store:
  assumes "(repo_step lower sha)\<^sup>*\<^sup>* targets0 (gw_reg g)" "wf_map (files (gw_disk g))"
    "\<forall>r \<in> set (bd_targets (gw_reg g)). served r \<longrightarrow> stored_bytes (files (gw_disk g)) (bt_Name r) \<le> bt_UsedBytes r"
    "\<forall>(ev, rq) \<in> set rqs. io_quiet (ev_store ev)"
    "g' = serve_all (New_server (server_registry sha now) digest maxBlob) rqs g"
    "r \<in> set (bd_targets (gw_reg g'))" "served r"
  shows "stored_bytes (files (gw_disk g')) (bt_Name r) \<le> bt_UsedBytes r"
proof -
  let ?sv = "New_server (server_registry sha now) digest maxBlob"
  have ops: "sv_registry ?sv = server_accounts.ops now sha"
    by (simp add: New_server_def server_registry_def server_accounts.ops_def)
  have inv: "target_inv lower (gw_reg g)" by (rule repo_reach_inv [OF assms(1)])
  have "server_accounts.covers (files (gw_disk g)) (gw_reg g)"
    unfolding server_accounts.covers_def using assms(3) row_with_mem
    by (fastforce simp: server_repo_def server_used_def split: option.splits if_splits)
  then have "server_accounts.sound lower (0 + announced rqs) g"
    unfolding server_accounts.sound_def using assms(2) inv announced_nonneg [of rqs] by simp
  then have "server_accounts.sound lower 0 g'"
    using server_accounts.serve_all_sound [OF _ _ ops assms(4), of lower 0] assms(5) by simp
  then have s: "target_inv lower (gw_reg g')" "server_accounts.covers (files (gw_disk g')) (gw_reg g')"
    by (simp_all add: server_accounts.sound_def)
  have "row_with (bt_ID r) (gw_reg g') = Some r" by (rule row_with_unique [OF rows_of_inv [OF s(1)] assms(6)])
  then show ?thesis using server_accounts.coversD [OF s(2), of "bt_ID r" "bt_Name r" "bt_UsedBytes r"] assms(7)
    by (simp add: server_repo_def server_used_def)
qed

text \<open>One repository on an empty disk: an upload of two bytes and a refused deletion.\<close>

definition repo3 :: backupTargets where
  "repo3 = fst (target_Create (working 0) (\<lambda>s. s) sha0 ''web1'' None (Some 100) ''s'' None targets0)"

definition uploads1 :: "backupTargets gateway" where
  "uploads1 = serve_all (New_server (server_registry sha0 0) (\<lambda>s. take 1 s) 1000) [(env_ok, upload1), (env_ok, delete1)]
     \<lparr>gw_disk = gw_disk gateway0, gw_reg = repo3\<rparr>"

theorem server_usage_covers_store_witness:
  "map (\<lambda>r. (bt_ID r, bt_Name r, bt_UsedBytes r)) (bd_targets (gw_reg uploads1)) = [(1, ''web1'', 2)] \<and>
   stored_bytes (files (gw_disk uploads1)) ''web1'' \<le> 2"
proof -
  have rows: "map (\<lambda>r. (bt_ID r, bt_Name r, bt_UsedBytes r)) (bd_targets (gw_reg uploads1)) = [(1, ''web1'', 2)]"
    "map (\<lambda>r. (bt_NodeHostID r, bt_DestinationID r)) (bd_targets (gw_reg uploads1)) = [(None, None)]"
    by code_simp+
  then obtain r where r: "bd_targets (gw_reg uploads1) = [r]" "bt_Name r = ''web1''" "bt_UsedBytes r = 2" "served r"
    by (auto simp: served_def)
  have sha: "length (sha0 x) = 32" for x by (simp add: sha0_def pad32_def)
  have "repo_step (\<lambda>s. s) sha0 targets0 repo3" unfolding repo3_def by (rule repo_step.create) (rule sha)
  then have g: "(repo_step (\<lambda>s. s) sha0)\<^sup>*\<^sup>* targets0 (gw_reg \<lparr>gw_disk = gw_disk gateway0, gw_reg = repo3\<rparr>)" by simp
  have before: "map (\<lambda>r. (bt_Name r, bt_UsedBytes r)) (bd_targets repo3) = [(''web1'', 0)]" by code_simp
  have "stored_bytes (files (gw_disk uploads1)) (bt_Name r) \<le> bt_UsedBytes r"
    by (rule server_usage_covers_store [OF g _ _ _ uploads1_def]) (use before r in \<open>auto simp: gateway0_def env_ok_def\<close>)
  then show ?thesis using rows r by simp
qed

end
