(* ===== verification/Target_Api.thy ===== *)
theory Target_Api
  imports Target_Laws
begin

text \<open>
  The handlers of \<open>internal/server/api/backuptargets.go\<close> and \<open>backupdestinations.go\<close>: repositories are created,
  changed, revoked and deleted here, on the tables of \<open>Backup_Targets\<close> and with a look at the store of the gateway. A request
  arrives with its body decoded (nothing when it is not JSON) and its number parsed; an answer is an error status or
  the content of a success. Views of rows for display are the rows themselves.
\<close>

section \<open>Requests and answers\<close>

record createTargetRequest =
  cq_Name :: string
  cq_HostID :: "int option"
  cq_QuotaBytes :: "int option"
  cq_NodeHostID :: "int option"
  cq_DestinationID :: "int option"
  cq_S3Credentials :: "s3Credentials option"

record credentialResponse =
  cr_ID :: int
  cr_Name :: string
  cr_Password :: string
  cr_Managed :: bool

text \<open>
  How the server is set up: the functions of the database and the cipher, whether it has a storage backend and storage nodes,
  and whether secrets travel encrypted.
\<close>

record api_cfg =
  ac_lower :: "string \<Rightarrow> string"
  ac_sha :: "string \<Rightarrow> string"
  ac_parse :: "string \<Rightarrow> parsed_url option"
  ac_box :: "secret_box option"
  ac_server :: bool
  ac_nodes :: bool
  ac_secure :: bool

text \<open>What one request meets: statements, the disk, the answer of \<open>hosts.Get\<close> and of \<open>generateToken\<close>.\<close>

record api_env =
  ap_db :: bt_env
  ap_store :: io
  ap_host :: "int \<Rightarrow> host option"
  ap_secret :: "string option"

definition validBackupTargetName :: "string \<Rightarrow> bool" where
  "validBackupTargetName name \<longleftrightarrow> name \<noteq> [] \<and> name \<noteq> ''.'' \<and> name \<noteq> ''..'' \<and> list_all segment_char name"

definition creds_storage :: "s3Credentials \<Rightarrow> s3Credentials" where
  "creds_storage c = \<lparr>s3_AccessKeyID = trim_space (s3_AccessKeyID c), s3_SecretAccessKey = trim_space (s3_SecretAccessKey c),
     s3_SessionToken = trim_space (s3_SessionToken c)\<rparr>"

definition backupTargetLookupError :: "bt_err \<Rightarrow> int" where
  "backupTargetLookupError e = (if e = BtNotFound then 404 else 500)"

definition backupDestinationMutationError :: "bt_err \<Rightarrow> int" where
  "backupDestinationMutationError e =
     (if e = BtNameTaken \<or> e = BtDestinationNameTaken \<or> e = BtDestinationInUse then 409
      else if e = BtNotConfigured then 503 else if e = BtNotFound then 404 else 400)"

text \<open>The status of the refusal, if it refuses.\<close>

definition refuseRepoNameHostAlreadyBacksUp :: "bt_env \<Rightarrow> (string \<Rightarrow> string) \<Rightarrow> int \<Rightarrow> string \<Rightarrow> backupTargets \<Rightarrow> int option" where
  "refuseRepoNameHostAlreadyBacksUp ev lower hostID name s =
     (case HostReportsRepo ev lower hostID name s of
        Inl _ \<Rightarrow> Some 500
      | Inr reported \<Rightarrow> if reported then Some 409 else None)"

definition normalizeQuota :: "int option \<Rightarrow> int option option" where
  "normalizeQuota v =
     (case v of None \<Rightarrow> Some None | Some q \<Rightarrow> if q < 0 then None else if q = 0 then Some None else Some (Some q))"

section \<open>Creating a repository\<close>

text \<open>The three kinds of repository: in object storage, on a storage node, and of the server itself.\<close>

definition create_direct ::
  "api_cfg \<Rightarrow> api_env \<Rightarrow> createTargetRequest \<Rightarrow> string \<Rightarrow> int \<Rightarrow> backupTargets \<Rightarrow> backupTargets \<times> (int + credentialResponse)" where
  "create_direct cf ev rq name dest s =
     (if \<not> ac_secure cf then (s, Inl 503)
      else case cq_HostID rq of
        None \<Rightarrow> (s, Inl 400)
      | Some hid \<Rightarrow>
          if (case cq_QuotaBytes rq of None \<Rightarrow> False | Some q \<Rightarrow> 0 < q) then (s, Inl 400)
          else (case GetDestination (ap_db ev) dest s of
        Inl e \<Rightarrow> (s, Inl (backupTargetLookupError e))
      | Inr d \<Rightarrow>
     (case ap_host ev hid of
        None \<Rightarrow> (s, Inl 400)
      | Some h \<Rightarrow>
     (case refuseRepoNameHostAlreadyBacksUp (later 1 (ap_db ev)) (ac_lower cf) (ht_ID h) name s of
        Some c \<Rightarrow> (s, Inl c)
      | None \<Rightarrow>
     (case ExpandDirectPrefix (di_PrefixTemplate (de_input d)) (ht_ID h) (ht_Hostname h) name of
        None \<Rightarrow> (s, Inl 400)
      | Some prefix \<Rightarrow>
     (case ap_secret ev of
        None \<Rightarrow> (s, Inl 500)
      | Some secret \<Rightarrow>
     (case CreateDirectRepository (later 2 (ap_db ev)) (ac_lower cf) (ac_sha cf) (ac_box cf) name (ht_ID h) (cq_QuotaBytes rq) secret
             prefix (de_ID d) (case cq_S3Credentials rq of None \<Rightarrow> no_s3 | Some c \<Rightarrow> creds_storage c) s of
        (s, Inl e) \<Rightarrow> (s, Inl (backupDestinationMutationError e))
      | (s, Inr i) \<Rightarrow> (s, Inr \<lparr>cr_ID = i, cr_Name = name, cr_Password = [], cr_Managed = True\<rparr>))))))))"

definition create_stored ::
  "api_cfg \<Rightarrow> bt_env \<Rightarrow> string option \<Rightarrow> createTargetRequest \<Rightarrow> string \<Rightarrow> backupTargets \<Rightarrow> backupTargets \<times> (int + credentialResponse)" where
  "create_stored cf ev secret rq name s =
     (case secret of
        None \<Rightarrow> (s, Inl 500)
      | Some secret \<Rightarrow>
     (case target_Create ev (ac_lower cf) (ac_sha cf) name (cq_HostID rq) (cq_QuotaBytes rq) secret (cq_NodeHostID rq) s of
        (s, Inl e) \<Rightarrow> (s, Inl (if e = BtNameTaken then 409 else 500))
      | (s, Inr i) \<Rightarrow> (s, Inr \<lparr>cr_ID = i, cr_Name = name, cr_Password = secret, cr_Managed = False\<rparr>)))"

definition create_on_node ::
  "api_cfg \<Rightarrow> api_env \<Rightarrow> createTargetRequest \<Rightarrow> string \<Rightarrow> int \<Rightarrow> backupTargets \<Rightarrow> backupTargets \<times> (int + credentialResponse)" where
  "create_on_node cf ev rq name node s =
     (if \<not> ac_nodes cf then (s, Inl 400)
      else case node_Get (ap_db ev) node s of
        Inl _ \<Rightarrow> (s, Inl 400)
      | Inr _ \<Rightarrow>
     (case cq_HostID rq of
        None \<Rightarrow> (s, Inl 400)
      | Some hid \<Rightarrow>
     (case refuseRepoNameHostAlreadyBacksUp (later 1 (ap_db ev)) (ac_lower cf) hid name s of
        Some c \<Rightarrow> (s, Inl c)
      | None \<Rightarrow> create_stored cf (later 2 (ap_db ev)) (ap_secret ev) rq name s)))"

text \<open>A handler that touches the tables only, as one on the server with its store.\<close>

definition on_tables :: "(backupTargets \<Rightarrow> backupTargets \<times> 'a) \<Rightarrow> backupTargets gateway \<Rightarrow> backupTargets gateway \<times> 'a" where
  "on_tables f g = (case f (gw_reg g) of (s, a) \<Rightarrow> (g\<lparr>gw_reg := s\<rparr>, a))"

definition createBackupTargetHandler ::
  "api_cfg \<Rightarrow> api_env \<Rightarrow> createTargetRequest option \<Rightarrow> backupTargets gateway \<Rightarrow> backupTargets gateway \<times> (int + credentialResponse)" where
  "createBackupTargetHandler cf ev body g =
     (case body of
        None \<Rightarrow> (g, Inl 400)
      | Some rq \<Rightarrow>
          (let name = trim_space (cq_Name rq)
           in if \<not> validBackupTargetName name then (g, Inl 400)
              else if (case cq_QuotaBytes rq of None \<Rightarrow> False | Some q \<Rightarrow> q < 0) then (g, Inl 400)
              else if cq_NodeHostID rq \<noteq> None \<and> cq_DestinationID rq \<noteq> None then (g, Inl 400)
              else (case cq_DestinationID rq of
                Some dest \<Rightarrow> on_tables (create_direct cf ev rq name dest) g
              | None \<Rightarrow>
             (case cq_NodeHostID rq of
                Some node \<Rightarrow> on_tables (create_on_node cf ev rq name node) g
              | None \<Rightarrow>
                  if \<not> ac_server cf then (g, Inl 400)
                  else (case RepoHasObjects (ap_store ev) name (gw_disk g) of
                    Inl _ \<Rightarrow> (g, Inl 500)
                  | Inr has \<Rightarrow>
                      if has then (g, Inl 409)
                      else on_tables (create_stored cf (ap_db ev) (ap_secret ev) rq name) g)))))"

section \<open>Changing and deleting repositories\<close>

definition updateBackupTargetHandler ::
  "bt_env \<Rightarrow> int option \<Rightarrow> int option option \<Rightarrow> backupTargets \<Rightarrow> backupTargets \<times> (int + backupTarget)" where
  "updateBackupTargetHandler ev i body s =
     (case i of
        None \<Rightarrow> (s, Inl 400)
      | Some i \<Rightarrow>
     (case body of
        None \<Rightarrow> (s, Inl 400)
      | Some q \<Rightarrow>
     (case normalizeQuota q of
        None \<Rightarrow> (s, Inl 400)
      | Some quota \<Rightarrow>
     (case target_Get ev i s of
        Inl e \<Rightarrow> (s, Inl (backupTargetLookupError e))
      | Inr t \<Rightarrow>
          if bt_DestinationID t \<noteq> None then (s, Inl 400)
          else (case target_SetQuota (later 1 ev) i quota s of
            (s, Inl e) \<Rightarrow> (s, Inl (backupTargetLookupError e))
          | (s, Inr _) \<Rightarrow>
              (s, case target_Get (later 2 ev) i s of Inl e \<Rightarrow> Inl (backupTargetLookupError e) | Inr t \<Rightarrow> Inr t))))))"

definition rotateBackupTargetHandler ::
  "api_cfg \<Rightarrow> api_env \<Rightarrow> int option \<Rightarrow> backupTargets \<Rightarrow> backupTargets \<times> (int + credentialResponse)" where
  "rotateBackupTargetHandler cf ev i s =
     (case i of
        None \<Rightarrow> (s, Inl 400)
      | Some i \<Rightarrow>
     (case target_Get (ap_db ev) i s of
        Inl e \<Rightarrow> (s, Inl (backupTargetLookupError e))
      | Inr t \<Rightarrow>
          if bt_DestinationID t \<noteq> None then (s, Inl 400)
          else (case ap_secret ev of
            None \<Rightarrow> (s, Inl 500)
          | Some secret \<Rightarrow>
         (case target_Rotate (later 1 (ap_db ev)) (ac_sha cf) i secret s of
            (s, Inl e) \<Rightarrow> (s, Inl (backupTargetLookupError e))
          | (s, Inr _) \<Rightarrow> (s, Inr \<lparr>cr_ID = i, cr_Name = bt_Name t, cr_Password = secret, cr_Managed = False\<rparr>)))))"

text \<open>An operation that answers with no content, or with the status of its error.\<close>

definition no_content :: "(bt_err \<Rightarrow> int) \<Rightarrow> backupTargets \<times> (bt_err + unit) \<Rightarrow> backupTargets \<times> (int + unit)" where
  "no_content f r = (case r of (s, Inl e) \<Rightarrow> (s, Inl (f e)) | (s, Inr _) \<Rightarrow> (s, Inr ()))"

definition revokeBackupTargetHandler :: "bt_env \<Rightarrow> int option \<Rightarrow> backupTargets \<Rightarrow> backupTargets \<times> (int + unit)" where
  "revokeBackupTargetHandler ev i s =
     (case i of None \<Rightarrow> (s, Inl 400) | Some i \<Rightarrow> no_content backupTargetLookupError (target_Revoke ev i s))"

definition backupTargetDeletable :: "int \<Rightarrow> bool \<Rightarrow> bool \<Rightarrow> bool \<Rightarrow> bool" where
  "backupTargetDeletable storedUsedBytes repoHasObjects repoChecked nodeHosted =
     (if nodeHosted then False else if 0 < storedUsedBytes then False else if repoChecked \<and> repoHasObjects then False else True)"

definition deleteBackupTargetHandler ::
  "api_cfg \<Rightarrow> api_env \<Rightarrow> int option \<Rightarrow> backupTargets gateway \<Rightarrow> backupTargets gateway \<times> (int + unit)" where
  "deleteBackupTargetHandler cf ev i g =
     (case i of
        None \<Rightarrow> (g, Inl 400)
      | Some i \<Rightarrow>
     (case target_Get (ap_db ev) i (gw_reg g) of
        Inl e \<Rightarrow> (g, Inl (backupTargetLookupError e))
      | Inr t \<Rightarrow>
          if bt_DestinationID t \<noteq> None then
            (if bt_RevokedAt t = None then (g, Inl 409)
             else on_tables (no_content backupTargetLookupError \<circ> target_Delete (later 1 (ap_db ev)) i) g)
          else (case bt_NodeHostID t of
            Some n \<Rightarrow>
              if \<not> ac_nodes cf then (g, Inl 500)
              else (case node_Get (later 1 (ap_db ev)) n (gw_reg g) of
                Inl e \<Rightarrow>
                  if e \<noteq> BtNotFound then (g, Inl 500)
                  else on_tables (no_content backupTargetLookupError \<circ> target_Delete (later 2 (ap_db ev)) i) g
              | Inr node \<Rightarrow>
                  if \<not> bn_HostMissing node \<and> \<not> bn_Archived node then (g, Inl 409)
                  else on_tables (no_content backupTargetLookupError \<circ> target_Delete (later 2 (ap_db ev)) i) g)
          | None \<Rightarrow>
         (case (if ac_server cf then RepoHasObjects (ap_store ev) (bt_Name t) (gw_disk g) else Inr False) of
            Inl _ \<Rightarrow> (g, Inl 500)
          | Inr has \<Rightarrow>
              if \<not> backupTargetDeletable (bt_UsedBytes t) has (ac_server cf) False then (g, Inl 409)
              else on_tables (no_content backupTargetLookupError \<circ> target_Delete (later 1 (ap_db ev)) i) g))))"

definition measureBackupTargetHandler ::
  "api_cfg \<Rightarrow> api_env \<Rightarrow> int option \<Rightarrow> backupTargets gateway \<Rightarrow> backupTargets gateway \<times> (int + backupTarget)" where
  "measureBackupTargetHandler cf ev i g =
     (case i of
        None \<Rightarrow> (g, Inl 400)
      | Some i \<Rightarrow>
     (case target_Get (ap_db ev) i (gw_reg g) of
        Inl e \<Rightarrow> (g, Inl (backupTargetLookupError e))
      | Inr t \<Rightarrow>
          if bt_DestinationID t \<noteq> None \<or> bt_NodeHostID t \<noteq> None then (g, Inl 400)
          else if \<not> ac_server cf then (g, Inl 503)
          else (case RepoUsage (ap_store ev) (bt_Name t) (gw_disk g) of
            Inl _ \<Rightarrow> (g, Inl 500)
          | Inr used \<Rightarrow> on_tables (\<lambda>s.
             (case target_SetUsage (later 1 (ap_db ev)) i used s of
                (s, Inl e) \<Rightarrow> (s, Inl (backupTargetLookupError e))
              | (s, Inr _) \<Rightarrow>
                  (s, case target_Get (later 2 (ap_db ev)) i s of Inl e \<Rightarrow> Inl (backupTargetLookupError e) | Inr t \<Rightarrow> Inr t))) g)))"

definition listBackupTargetsHandler ::
  "api_cfg \<Rightarrow> bt_env \<Rightarrow> backupTargets \<Rightarrow> int + (backupTarget list \<times> (destRow \<times> bool \<times> nat) list)" where
  "listBackupTargetsHandler cf ev s =
     (case target_List ev s of
        None \<Rightarrow> Inl 500
      | Some rows \<Rightarrow>
     (case ListDestinations (later 1 ev) (ac_lower cf) s of None \<Rightarrow> Inl 500 | Some ds \<Rightarrow> Inr (rows, ds)))"

section \<open>Destinations and the configuration agents fetch\<close>

definition dest_answer :: "bt_env \<Rightarrow> int \<Rightarrow> backupTargets \<Rightarrow> int + destRow" where
  "dest_answer ev i s = (case GetDestination ev i s of Inl e \<Rightarrow> Inl (backupTargetLookupError e) | Inr d \<Rightarrow> Inr d)"

text \<open>Between one and four statements create a destination; the look at it afterwards has an outcome of its own.\<close>

definition createBackupDestinationHandler ::
  "api_cfg \<Rightarrow> bt_env \<Rightarrow> bt_env \<Rightarrow> destinationInput option \<Rightarrow> backupTargets \<Rightarrow> backupTargets \<times> (int + destRow)" where
  "createBackupDestinationHandler cf ev ev' body s =
     (if ac_box cf = None then (s, Inl 503)
      else case body of
        None \<Rightarrow> (s, Inl 400)
      | Some input \<Rightarrow>
     (case CreateDestination ev (ac_lower cf) (ac_parse cf) (ac_box cf) (input\<lparr>di_Credentials := creds_storage (di_Credentials input)\<rparr>) s of
        (s, Inl e) \<Rightarrow> (s, Inl (backupDestinationMutationError e))
      | (s, Inr i) \<Rightarrow> (s, dest_answer ev' i s)))"

definition listBackupDestinationsHandler :: "api_cfg \<Rightarrow> bt_env \<Rightarrow> backupTargets \<Rightarrow> int + (destRow \<times> bool \<times> nat) list" where
  "listBackupDestinationsHandler cf ev s = (case ListDestinations ev (ac_lower cf) s of None \<Rightarrow> Inl 500 | Some ds \<Rightarrow> Inr ds)"

definition updateBackupDestinationCredentialsHandler ::
  "api_cfg \<Rightarrow> bt_env \<Rightarrow> int option \<Rightarrow> s3Credentials option \<Rightarrow> backupTargets \<Rightarrow> backupTargets \<times> (int + destRow)" where
  "updateBackupDestinationCredentialsHandler cf ev i body s =
     (case i of
        None \<Rightarrow> (s, Inl 400)
      | Some i \<Rightarrow>
     (case body of
        None \<Rightarrow> (s, Inl 400)
      | Some c \<Rightarrow>
     (case SetDestinationCredentials ev (ac_box cf) i (creds_storage c) s of
        (s, Inl e) \<Rightarrow> (s, Inl (backupDestinationMutationError e))
      | (s, Inr _) \<Rightarrow> (s, dest_answer (later 1 ev) i s))))"

definition updateDirectRepositoryCredentialsHandler ::
  "api_cfg \<Rightarrow> bt_env \<Rightarrow> int option \<Rightarrow> s3Credentials option \<Rightarrow> backupTargets \<Rightarrow> backupTargets \<times> (int + unit)" where
  "updateDirectRepositoryCredentialsHandler cf ev i body s =
     (case i of
        None \<Rightarrow> (s, Inl 400)
      | Some i \<Rightarrow>
     (case target_Get ev i s of
        Inl e \<Rightarrow> (s, Inl (backupTargetLookupError e))
      | Inr t \<Rightarrow>
          if bt_DestinationID t = None then (s, Inl 400)
          else (case body of
            None \<Rightarrow> (s, Inl 400)
          | Some c \<Rightarrow>
              no_content backupDestinationMutationError (SetDirectRepositoryCredentials (later 1 ev) (ac_box cf) i (creds_storage c) s))))"

definition deleteBackupDestinationHandler :: "bt_env \<Rightarrow> int option \<Rightarrow> backupTargets \<Rightarrow> backupTargets \<times> (int + unit)" where
  "deleteBackupDestinationHandler ev i s =
     (case i of None \<Rightarrow> (s, Inl 400) | Some i \<Rightarrow> no_content backupDestinationMutationError (DeleteDestination ev i s))"

text \<open>
  The configuration is encoded and sealed with the agent's token by functions that are not modelled; \<open>seal\<close> is their composition.
  The version is the highest of the repositories'.
\<close>

definition managedBackupConfigHandler ::
  "api_cfg \<Rightarrow> bt_env \<Rightarrow> (int \<times> managedRepository list \<Rightarrow> 'e option) \<Rightarrow> int option \<Rightarrow> backupTargets \<Rightarrow> int + 'e" where
  "managedBackupConfigHandler cf ev seal hostID s =
     (case hostID of
        None \<Rightarrow> Inl 401
      | Some h \<Rightarrow>
     (case ManagedRepositoriesForHost ev (ac_lower cf) (ac_box cf) h s of
        Inl e \<Rightarrow> Inl (if e = BtNotConfigured then 503 else 500)
      | Inr rs \<Rightarrow>
          if rs \<noteq> [] \<and> \<not> ac_secure cf then Inl 503
          else (case seal (fold (\<lambda>r v. if v < mr_Version r then mr_Version r else v) rs 0, rs) of
            None \<Rightarrow> Inl 500
          | Some e \<Rightarrow> Inr e)))"

end
