(* ===== verification/Node_Api.thy ===== *)
theory Node_Api
  imports Target_Api
begin

text \<open>
  The rest of \<open>internal/server/api/tunnel.go\<close>: the health and the peer statistics that storage nodes report, what agents and
  nodes are told about nodes, the reports of usage, and the administration of nodes; with the listing of
  \<open>internal/server/storage/nodes.go\<close>. The last part composes server and node: the configuration as it leaves the tables, is sent, and
  replaces the credentials of the node, and the usage on its way back.
\<close>

section \<open>What nodes report\<close>

definition tunnelHandshakeConnectedWindow :: duration where "tunnelHandshakeConnectedWindow = 3 * 60 * Second"

definition nodeHealthFreshWindow :: duration where "nodeHealthFreshWindow = 5 * 60 * Second"

record nodeHealth =
  nh_Running :: bool
  nh_Error :: string
  nh_At :: time

type_synonym nodeHealthCache = "(int, nodeHealth) gomap"

definition health_Store :: "time \<Rightarrow> int \<Rightarrow> bool \<Rightarrow> string \<Rightarrow> nodeHealthCache \<Rightarrow> nodeHealthCache" where
  "health_Store now hostID running err c = put hostID \<lparr>nh_Running = running, nh_Error = err, nh_At = now\<rparr> c"

definition health_Get :: "int \<Rightarrow> nodeHealthCache \<Rightarrow> nodeHealth option" where
  "health_Get hostID c = get c hostID"

record peerStatEntry =
  pn_LastHandshake :: time
  pn_RxBytes :: int
  pn_TxBytes :: int
  pn_NodeHostname :: string
  pn_ReportedAt :: time

text \<open>The statistics of a key by the node that reported them.\<close>

type_synonym peerStatsCache = "(wgkey, (int, peerStatEntry) gomap) gomap"

text \<open>One entry of a report; a key that cannot be parsed is passed over.\<close>

definition store_stat :: "time \<Rightarrow> int \<Rightarrow> string \<Rightarrow> nodePeerStat \<Rightarrow> peerStatsCache \<Rightarrow> peerStatsCache" where
  "store_stat now nodeHostID nodeHostname st c =
     (case ParseKey (np_PublicKey st) of
        None \<Rightarrow> c
      | Some key \<Rightarrow>
          put key (put nodeHostID
            \<lparr>pn_LastHandshake = (if 0 < np_LastHandshakeUnix st then unix_epoch + np_LastHandshakeUnix st * Second else zero_time),
             pn_RxBytes = np_RxBytes st, pn_TxBytes = np_TxBytes st, pn_NodeHostname = nodeHostname, pn_ReportedAt = now\<rparr>
            (case get c key of None \<Rightarrow> [] | Some m \<Rightarrow> m)) c)"

text \<open>Entries that were reported a day ago are dropped, and keys without entries.\<close>

definition drop_stale_stats :: "time \<Rightarrow> peerStatsCache \<Rightarrow> peerStatsCache" where
  "drop_stale_stats now c =
     filter (\<lambda>(key, m). m \<noteq> [])
       (map (\<lambda>(key, m). (key, filter (\<lambda>(h, st). \<not> pn_ReportedAt st < now - 24 * 60 * 60 * Second) m)) c)"

definition peerStats_Store :: "time \<Rightarrow> int \<Rightarrow> string \<Rightarrow> nodePeerStat list \<Rightarrow> peerStatsCache \<Rightarrow> peerStatsCache" where
  "peerStats_Store now nodeHostID nodeHostname stats c = drop_stale_stats now (fold (store_stat now nodeHostID nodeHostname) stats c)"

definition peerStats_Get :: "wgkey \<Rightarrow> peerStatsCache \<Rightarrow> peerStatEntry list" where
  "peerStats_Get key c = (case get c key of None \<Rightarrow> [] | Some m \<Rightarrow> map snd m)"

definition peerStats_Remove :: "wgkey \<Rightarrow> peerStatsCache \<Rightarrow> peerStatsCache" where
  "peerStats_Remove key c = del key c"

text \<open>
  The last handshake with its node (nothing for the server itself), the traffic and whether the peer counts as connected. The
  result is the instant, the two sums, the flag and the name.
\<close>

definition merge_stat :: "peerStatEntry \<Rightarrow> time option \<times> int \<times> int \<times> string \<Rightarrow> time option \<times> int \<times> int \<times> string" where
  "merge_stat st = (\<lambda>(last, rx, tx, via).
     (let rx = i64 (rx + pn_RxBytes st); tx = i64 (tx + pn_TxBytes st)
      in if pn_LastHandshake st = zero_time then (last, rx, tx, via)
         else if (case last of None \<Rightarrow> True | Some l \<Rightarrow> \<not> pn_LastHandshake st < l)
         then (Some (pn_LastHandshake st), rx, tx, pn_NodeHostname st)
         else (last, rx, tx, via)))"

definition mergePeerStats ::
  "peerStats option \<Rightarrow> peerStatEntry list \<Rightarrow> time \<Rightarrow> time option \<times> int \<times> int \<times> bool \<times> string" where
  "mergePeerStats server node now =
     (let start = (case server of
            None \<Rightarrow> (None, 0, 0, [])
          | Some s \<Rightarrow> (if ps_LastHandshake s = zero_time then None else Some (ps_LastHandshake s), ps_RxBytes s, ps_TxBytes s, []));
          (last, rx, tx, via) = fold merge_stat node start
      in (last, rx, tx, (case last of None \<Rightarrow> False | Some l \<Rightarrow> time_Sub now l < tunnelHandshakeConnectedWindow), via))"

section \<open>What is told about nodes\<close>

record nodeView = backupNode +
  nv_Hostname :: string
  nv_PublicKey :: string
  nv_TargetCount :: nat
  nv_UsedBytes :: int
  nv_LastSeen :: "time option"
  nv_SampleIntervalS :: int

text \<open>A row of the listing; the name of a deleted host is hidden.\<close>

definition node_view :: "'a backup_db_scheme \<Rightarrow> nodeRow \<Rightarrow> nodeView" where
  "node_view s n =
     (let h = find (\<lambda>h. ht_ID h = nd_HostID n) (bd_hosts s); p = find (\<lambda>p. tp_HostID p = nd_HostID n) (bd_peers s)
      in backupNode.extend (nodeRow.extend n
           \<lparr>bn_TunnelIP = map_option tp_TunnelIP p,
            bn_Archived = (case h of None \<Rightarrow> False | Some h \<Rightarrow> ht_ArchivedAt h \<noteq> None),
            bn_HostMissing = (case h of None \<Rightarrow> True | Some h \<Rightarrow> ht_DeletedAt h \<noteq> None)\<rparr>)
           \<lparr>nv_Hostname = (case h of None \<Rightarrow> [] | Some h \<Rightarrow> if ht_DeletedAt h = None then ht_Hostname h else []),
            nv_PublicKey = (case p of None \<Rightarrow> [] | Some p \<Rightarrow> tp_PublicKey p),
            nv_TargetCount = length (filter (active_on (nd_HostID n)) (bd_targets s)),
            nv_UsedBytes = sum_list (map bt_UsedBytes (filter (\<lambda>r. bt_NodeHostID r = Some (nd_HostID n)) (bd_targets s))),
            nv_LastSeen = (case h of None \<Rightarrow> None | Some h \<Rightarrow> ht_LastSeen h),
            nv_SampleIntervalS = (case h of None \<Rightarrow> 0 | Some h \<Rightarrow> ht_SampleIntervalS h)\<rparr>)"

text \<open>The listing fails when a sum is too large for the 64-bit integer it is read into.\<close>

definition node_List :: "bt_env \<Rightarrow> 'a backup_db_scheme \<Rightarrow> nodeView list option" where
  "node_List ev s =
     (let name = (\<lambda>n. case find (\<lambda>h. ht_ID h = nd_HostID n) (bd_hosts s) of None \<Rightarrow> [] | Some h \<Rightarrow> ht_Hostname h);
          rows = map (node_view s) (sort_key name (sort_key nd_HostID (bd_nodes s)))
      in if \<not> be_stmt ev 0 \<or> list_ex (\<lambda>n. 2 ^ 63 \<le> nv_UsedBytes n) rows then None else Some rows)"

definition nodeEndpointWithPort :: "string \<Rightarrow> int \<Rightarrow> string" where
  "nodeEndpointWithPort endpoint udpPort =
     (let endpoint = trim_space endpoint
      in if endpoint = [] then [] else if SplitHostPort endpoint \<noteq> None then endpoint
         else JoinHostPort endpoint (show_int udpPort))"

record tunnelNodeInfo =
  ni_HostID :: int
  ni_Hostname :: string
  ni_PublicKey :: string
  ni_Endpoint :: string
  ni_TunnelIP :: string
  ni_RestPort :: int

definition agentTunnelNodesHandler :: "bt_env \<Rightarrow> 'a backup_db_scheme \<Rightarrow> int + tunnelNodeInfo list" where
  "agentTunnelNodesHandler ev s =
     (case node_List ev s of
        None \<Rightarrow> Inl 500
      | Some rows \<Rightarrow> Inr (map (\<lambda>n. \<lparr>ni_HostID = nd_HostID n, ni_Hostname = nv_Hostname n,
          ni_PublicKey = (case KeyFromBytes (nv_PublicKey n) of None \<Rightarrow> [] | Some k \<Rightarrow> key_String k),
          ni_Endpoint = nodeEndpointWithPort (nd_Endpoint n) (nd_UDPPort n),
          ni_TunnelIP = (case bn_TunnelIP n of None \<Rightarrow> [] | Some a \<Rightarrow> addr_String a), ni_RestPort = TunnelRestPort\<rparr>) rows))"

text \<open>The state a node shows in the web interface: its last report, if that is not older than five minutes.\<close>

definition node_state :: "time \<Rightarrow> int \<Rightarrow> nodeHealthCache \<Rightarrow> (string \<times> string \<times> time) option" where
  "node_state now hostID c =
     (case health_Get hostID c of
        None \<Rightarrow> None
      | Some st \<Rightarrow>
          if nh_At st < now - nodeHealthFreshWindow then None
          else Some (if nh_Running st \<and> nh_Error st = [] then ''running'' else ''error'', nh_Error st, nh_At st))"

definition listBackupNodesHandler ::
  "bt_env \<Rightarrow> nodeHealthCache \<Rightarrow> 'a backup_db_scheme \<Rightarrow> int + (nodeView \<times> bool \<times> string \<times> (string \<times> string \<times> time) option) list" where
  "listBackupNodesHandler ev health s =
     (case node_List ev s of
        None \<Rightarrow> Inl 500
      | Some rows \<Rightarrow> Inr (map (\<lambda>n. (n, bn_TunnelIP n \<noteq> None, (case bn_TunnelIP n of None \<Rightarrow> [] | Some a \<Rightarrow> addr_String a),
          node_state (be_now ev) (nd_HostID n) health)) rows))"

text \<open>The status page of the tunnel; \<open>stats\<close> is the answer of the device.\<close>

record tunnelPeerView =
  tv_HostID :: int
  tv_Hostname :: string
  tv_TunnelIP :: string
  tv_EnrolledAt :: time
  tv_stats :: "time option \<times> int \<times> int \<times> bool \<times> string"

definition stats_by_key :: "peerStats list \<Rightarrow> (wgkey, peerStats) gomap" where
  "stats_by_key stats = fold (\<lambda>st. put (ps_PublicKey st) st) stats []"

definition peer_view :: "time \<Rightarrow> peerStats list option \<Rightarrow> peerStatsCache \<Rightarrow> tunnelPeer \<times> string \<Rightarrow> tunnelPeerView" where
  "peer_view now stats nodeStats = (\<lambda>(p, hostname).
     \<lparr>tv_HostID = tp_HostID p, tv_Hostname = hostname, tv_TunnelIP = addr_String (tp_TunnelIP p), tv_EnrolledAt = tp_EnrolledAt p,
      tv_stats = (case KeyFromBytes (tp_PublicKey p) of
          None \<Rightarrow> (None, 0, 0, False, [])
        | Some key \<Rightarrow> mergePeerStats (get (stats_by_key (case stats of None \<Rightarrow> [] | Some l \<Rightarrow> l)) key) (peerStats_Get key nodeStats) now)\<rparr>)"

record tunnelStatus =
  tt_ListenPort :: int
  tt_Endpoint :: string
  tt_Subnet :: string
  tt_ServerTunnelIP :: string
  tt_RestPort :: int
  tt_ServerPublicKey :: string
  tt_Peers :: "tunnelPeerView list"

text \<open>\<open>None\<close> is the answer of a server without a tunnel.\<close>

definition backupTunnelStatusHandler ::
  "tunnel option \<Rightarrow> tunnelInfo \<Rightarrow> string \<Rightarrow> tunnel_env \<Rightarrow> peerStats list option \<Rightarrow> peerStatsCache \<Rightarrow> tunnel_db \<Rightarrow> int + tunnelStatus option" where
  "backupTunnelStatusHandler tun info rhost ev stats nodeStats db =
     (case tun of
        None \<Rightarrow> Inr None
      | Some t \<Rightarrow>
     (case ListPeers ev db of
        None \<Rightarrow> Inl 500
      | Some rows \<Rightarrow> Inr (Some \<lparr>tt_ListenPort = tn_ListenPort info, tt_Endpoint = tunnelEndpointForRequest info rhost,
          tt_Subnet = tn_Subnet info, tt_ServerTunnelIP = addr_String (tu_serverIP t), tt_RestPort = TunnelRestPort,
          tt_ServerPublicKey = key_String (tu_publicKey t), tt_Peers = map (peer_view (te_now ev) stats nodeStats) rows\<rparr>)))"

section \<open>Configuration and usage of a node\<close>

record nodeConfigReply = backupNodeConfig +
  nc_TunnelIP :: string

definition wire_target :: "nodeTarget \<Rightarrow> nodeTargetInfo" where
  "wire_target t = \<lparr>ti_Name = nt_Name t, ti_SecretHash = hex_encode (nt_SecretHash t), ti_QuotaBytes = nt_QuotaBytes t, ti_Revoked = nt_Revoked t\<rparr>"

definition wire_peers :: "(int \<times> string \<times> addr) list \<Rightarrow> nodePeerInfo list" where
  "wire_peers ps = List.map_filter (\<lambda>(_, raw, ip).
     map_option (\<lambda>k. \<lparr>pi_PublicKey = key_String k, pi_TunnelIP = addr_String ip\<rparr>) (KeyFromBytes raw)) ps"

definition agentBackupNodeConfigHandler :: "bt_env \<Rightarrow> int option \<Rightarrow> 'a backup_db_scheme \<Rightarrow> int + nodeConfigReply" where
  "agentBackupNodeConfigHandler ev hostID s =
     (case hostID of
        None \<Rightarrow> Inl 401
      | Some h \<Rightarrow>
     (case ConfigForHost ev h s of
        Inl _ \<Rightarrow> Inl 500
      | Inr cfg \<Rightarrow>
          if \<not> cf_Enabled cfg
          then Inr \<lparr>nc_Enabled = False, nc_UDPPort = 0, nc_StoreDir = [], nc_MaxBlobBytes = 0, nc_RestPort = 0, nc_Targets = [],
                 nc_Peers = [], nc_TunnelIP = []\<rparr>
          else Inr \<lparr>nc_Enabled = True, nc_UDPPort = cf_UDPPort cfg, nc_StoreDir = cf_StoreDir cfg, nc_MaxBlobBytes = cf_MaxBlobBytes cfg,
                 nc_RestPort = TunnelRestPort, nc_Targets = map wire_target (cf_Targets cfg), nc_Peers = wire_peers (cf_Peers cfg),
                 nc_TunnelIP = (case cf_TunnelIP cfg of None \<Rightarrow> [] | Some a \<Rightarrow> addr_String a)\<rparr>))"

text \<open>The usage of a report is stored entry by entry, up to the first failure; each takes one statement.\<close>

fun store_usage :: "bt_env \<Rightarrow> int \<Rightarrow> (string \<times> int) list \<Rightarrow> 'a backup_db_scheme \<Rightarrow> 'a backup_db_scheme \<times> bool" where
  "store_usage ev hostID [] s = (s, True)"
| "store_usage ev hostID ((name, used) # es) s =
     (if \<not> validBackupTargetName name then store_usage ev hostID es s
      else (case SetTargetUsage ev hostID name used s of
              (s, False) \<Rightarrow> (s, False)
            | (s, True) \<Rightarrow> store_usage (later 1 ev) hostID es s))"

record node_sys =
  ns_tables :: backupTargets
  ns_health :: nodeHealthCache
  ns_stats :: peerStatsCache

text \<open>Whether the node runs is not part of reports of older agents.\<close>

record usageRequest =
  uq_Targets :: "(string \<times> int) list"
  uq_Peers :: "nodePeerStat list"
  uq_Running :: "bool option"
  uq_Error :: string

definition usage_request :: "usageReport \<Rightarrow> usageRequest" where
  "usage_request r = \<lparr>uq_Targets = ur_Targets r, uq_Peers = ur_Peers r, uq_Running = Some (ur_Running r), uq_Error = ur_Error r\<rparr>"

definition agentBackupNodeUsageHandler :: "bt_env \<Rightarrow> int option \<Rightarrow> usageRequest option \<Rightarrow> node_sys \<Rightarrow> node_sys \<times> int" where
  "agentBackupNodeUsageHandler ev hostID body y =
     (case hostID of
        None \<Rightarrow> (y, 401)
      | Some h \<Rightarrow>
     (case body of
        None \<Rightarrow> (y, 400)
      | Some rq \<Rightarrow>
     (case node_Get ev h (ns_tables y) of
        Inl _ \<Rightarrow> (y, 403)
      | Inr node \<Rightarrow>
          (let hostname = nv_Hostname (node_view (ns_tables y) (nodeRow.truncate node));
               y = (case uq_Running rq of None \<Rightarrow> y | Some b \<Rightarrow> y\<lparr>ns_health := health_Store (be_now ev) h b (uq_Error rq) (ns_health y)\<rparr>);
               (s, done) = store_usage (later 1 ev) h (uq_Targets rq) (ns_tables y);
               y = y\<lparr>ns_tables := s\<rparr>
           in if \<not> done then (y, 500)
              else (if uq_Peers rq \<noteq> [] then y\<lparr>ns_stats := peerStats_Store (be_now ev) h hostname (uq_Peers rq) (ns_stats y)\<rparr> else y, 200)))))"

section \<open>Administration of nodes\<close>

record promoteNodeRequest =
  pq_HostID :: int
  pq_UDPPort :: int
  pq_Endpoint :: string
  pq_StoreDir :: string
  pq_MaxBlobBytes :: int

definition normalizeNodeEndpoint :: "string \<Rightarrow> int \<Rightarrow> (string \<times> int) option" where
  "normalizeNodeEndpoint raw udpPort =
     (let endpoint = trim_space raw; host = (case SplitHostPort endpoint of Some (h, _) \<Rightarrow> h | None \<Rightarrow> endpoint);
          port = (if udpPort = 0 then 51821 else udpPort)
      in if endpoint = [] then None else if trim_space host = [] then None
         else if port < 1 \<or> 65535 < port then None else Some (endpoint, port))"

definition promoteBackupNodeHandler ::
  "bt_env \<Rightarrow> (int \<Rightarrow> host option) \<Rightarrow> promoteNodeRequest option \<Rightarrow> 'a backup_db_scheme \<Rightarrow> 'a backup_db_scheme \<times> int" where
  "promoteBackupNodeHandler ev look body s =
     (case body of
        None \<Rightarrow> (s, 400)
      | Some rq \<Rightarrow>
          if pq_HostID rq \<le> 0 then (s, 400)
          else if look (pq_HostID rq) = None then (s, 404)
          else (case normalizeNodeEndpoint (pq_Endpoint rq) (pq_UDPPort rq) of
            None \<Rightarrow> (s, 400)
          | Some (endpoint, port) \<Rightarrow>
              (case node_Promote ev (pq_HostID rq) port endpoint (trim_space (pq_StoreDir rq))
                      (if pq_MaxBlobBytes rq \<le> 0 then 2 ^ 30 else pq_MaxBlobBytes rq) s of
                 (s, Inl _) \<Rightarrow> (s, 500) | (s, Inr _) \<Rightarrow> (s, 200))))"

definition updateBackupNodeHandler ::
  "bt_env \<Rightarrow> int option \<Rightarrow> promoteNodeRequest option \<Rightarrow> 'a backup_db_scheme \<Rightarrow> 'a backup_db_scheme \<times> int" where
  "updateBackupNodeHandler ev hostID body s =
     (case (hostID, body) of
        (Some h, Some rq) \<Rightarrow>
          (case normalizeNodeEndpoint (pq_Endpoint rq) (pq_UDPPort rq) of
             None \<Rightarrow> (s, 400)
           | Some (endpoint, port) \<Rightarrow>
               (case node_UpdateEndpoint ev h port endpoint s of
                  (s, Inl e) \<Rightarrow> (s, backupTargetLookupError e) | (s, Inr _) \<Rightarrow> (s, 200)))
      | _ \<Rightarrow> (s, 400))"

definition demoteBackupNodeHandler :: "bt_env \<Rightarrow> int option \<Rightarrow> 'a backup_db_scheme \<Rightarrow> 'a backup_db_scheme \<times> int" where
  "demoteBackupNodeHandler ev hostID s =
     (case hostID of
        None \<Rightarrow> (s, 400)
      | Some h \<Rightarrow>
          (case node_Demote ev h s of
             (s, Inl e) \<Rightarrow> (s, if e = BtHasTargets then 409 else if e = BtNotFound then 404 else 500)
           | (s, Inr _) \<Rightarrow> (s, 200)))"

end
