(* ===== verification/Target_Owner.thy ===== *)
theory Target_Owner
  imports Node_Api
begin

text \<open>
  The repositories of the server as a whole: requests of restic at the gateway and requests of the administrator, in any order, on one
  disk and one set of tables. What is stored belongs to a repository of the table, and it belongs to the
  same one as long as it is stored: no new repository inherits data, and no deletion leaves any behind.
\<close>

section \<open>Who owns a directory\<close>

text \<open>The number of the repository the server keeps under a name.\<close>

definition own :: "backupTargets \<Rightarrow> string \<Rightarrow> int option" where
  "own s n = map_option bt_ID (row_named n (bd_targets s))"

lemma own_cong: "bd_targets s' = bd_targets s \<Longrightarrow> own s' = own s"
  by (simp add: own_def fun_eq_iff)

lemma own_simps [simp]:
  "own (bt_invalidate s) = own s" "own (cache_used i f s) = own s" "own (s\<lparr>bd_nextID := k\<rparr>) = own s"
  "own (install_auths now m s) = own s"
  by (rule own_cong, simp add: bt_invalidate_def cache_used_def install_auths_def)+

lemma own_update:
  assumes "\<And>r. bt_ID (f r) = bt_ID r \<and> bt_Name (f r) = bt_Name r \<and> served (f r) = served r"
  shows "own (update_targets P f s) = own s"
proof
  fix n
  have "row_named n (bd_targets (update_targets P f s)) = map_option (\<lambda>r. if P r then f r else r) (row_named n (bd_targets s))"
    unfolding update_targets_def using assms by (simp add: row_named_update)
  then show "own (update_targets P f s) n = own s n" using assms by (cases "row_named n (bd_targets s)") (simp_all add: own_def)
qed

lemma own_append: "own s \<subseteq>\<^sub>m own (s\<lparr>bd_nextID := k, bd_targets := bd_targets s @ [x]\<rparr>)"
proof -
  have "row_named n (rows @ [x]) = Some r" if "row_named n rows = Some r" for n rows r
    using that by (induction rows) (auto simp: row_named_def)
  then show ?thesis by (auto simp: map_le_def own_def)
qed

lemma row_named_iff:
  "distinct (map bt_Name rows) \<Longrightarrow> row_named n rows = Some r \<longleftrightarrow> r \<in> set rows \<and> bt_Name r = n \<and> served r"
proof
  show "row_named n rows = Some r" if "distinct (map bt_Name rows)" "r \<in> set rows \<and> bt_Name r = n \<and> served r"
    using that by (induction rows) (auto simp: row_named_def)
qed (simp add: row_named_mem)

lemma own_iff: "rows_inv lower s \<Longrightarrow> own s n = Some i \<longleftrightarrow> (\<exists>r \<in> set (bd_targets s). bt_Name r = n \<and> served r \<and> bt_ID r = i)"
  unfolding own_def map_option_eq_Some using row_named_iff [OF names_distinct] by blast

lemma own_Delete:
  assumes "rows_inv lower s"
  shows "own (fst (target_Delete ev i s)) n \<in> {own s n, if own s n = Some i then None else own s n}"
proof -
  let ?s = "s\<lparr>bd_targets := filter (\<lambda>r. bt_ID r \<noteq> i) (bd_targets s)\<rparr>"
  have "rows_inv lower ?s" using assms by (auto simp: rows_inv_def distinct_map inj_on_def)
  note after = own_iff [OF this, of n] and before = own_iff [OF assms, of n]
  have set: "set (bd_targets ?s) = {r \<in> set (bd_targets s). bt_ID r \<noteq> i}" by simp
  have some: "own ?s n = Some j \<longleftrightarrow> own s n = Some j \<and> j \<noteq> i" for j
    unfolding after before set by blast
  have "own ?s n = (if own s n = Some i then None else own s n)"
    using some [of i] some [of "the (own s n)"] some [of "the (own ?s n)"] by (cases "own ?s n"; cases "own s n") auto
  then show ?thesis by (simp add: target_Delete_def)
qed

section \<open>What the operations do\<close>

text \<open>A change of the tables that the store allows and that takes no repository away from its name.\<close>

definition keeping :: "(string \<Rightarrow> string) \<Rightarrow> (string \<Rightarrow> string) \<Rightarrow> backupTargets \<Rightarrow> backupTargets \<Rightarrow> bool" where
  "keeping lower sha s s' \<longleftrightarrow> (repo_step lower sha)\<^sup>*\<^sup>* s s' \<and> own s \<subseteq>\<^sub>m own s'"

lemma keeping_refl [simp]: "keeping lower sha s s"
  by (simp add: keeping_def)

lemma keeping_trans: "\<lbrakk>keeping lower sha s t; keeping lower sha t u\<rbrakk> \<Longrightarrow> keeping lower sha s u"
  unfolding keeping_def by (meson map_le_trans rtranclp_trans)

lemma keeping_same: "\<lbrakk>repo_step lower sha s s'; own s' = own s\<rbrakk> \<Longrightarrow> keeping lower sha s s'"
  by (simp add: keeping_def r_into_rtranclp)

lemma fst_result [simp]: "fst (case x of (s, Inl e) \<Rightarrow> (s, f s e) | (s, Inr v) \<Rightarrow> (s, h s v)) = fst x"
  by (simp split: prod.split sum.split)

lemma fst_no_content [simp]: "fst (no_content k x) = fst x"
  by (simp add: no_content_def)

lemma fst_on_tables [simp]:
  "gw_reg (fst (on_tables f g)) = fst (f (gw_reg g))" "gw_disk (fst (on_tables f g)) = gw_disk g"
  by (simp_all add: on_tables_def split: prod.split)

lemma keeping_Create [simp]:
  assumes "length (sha secret) = 32"
  shows "keeping lower sha s (fst (target_Create ev lower sha name hostID quota secret nodeHostID s))"
proof -
  have "own s \<subseteq>\<^sub>m own (fst (target_Create ev lower sha name hostID quota secret nodeHostID s))"
    using own_append by (simp add: target_Create_def Let_def)
  then show ?thesis using repo_step.create [of sha secret, OF assms] by (simp add: keeping_def r_into_rtranclp)
qed

lemma keeping_CreateDirect [simp]:
  assumes "length (sha secret) = 32"
  shows "keeping lower sha s (fst (CreateDirectRepository ev lower sha box name host quota secret prefix dest c s))"
proof -
  have "own s \<subseteq>\<^sub>m own (fst (CreateDirectRepository ev lower sha box name host quota secret prefix dest c s))"
    using own_append by (simp add: CreateDirectRepository_def Let_def split: option.split sum.split)
  then show ?thesis using repo_step.create_direct [of sha secret, OF assms] by (simp add: keeping_def r_into_rtranclp)
qed

lemma own_Resolve [simp]: "own (fst (target_ResolveTarget ev sha repo secret s)) = own s"
  by (simp add: target_ResolveTarget_def bt_refresh_def)

lemma own_ops [simp]:
  "own (fst (target_Rotate ev sha i secret s)) = own s" "own (fst (target_Revoke ev i s)) = own s"
  "own (fst (target_SetUsage ev i used s)) = own s" "own (fst (target_SetQuota ev i q s)) = own s"
  "own (fst (target_ReserveUsage ev i d s)) = own s" "own (fst (target_ReleaseUsage ev i d s)) = own s"
  "own (fst (SetDirectRepositoryCredentials ev box i c s)) = own s" "own (fst (SetTargetUsage ev host name used s)) = own s"
  by (simp_all add: target_Rotate_def target_Revoke_def target_SetUsage_def target_SetQuota_def target_ReserveUsage_def
    target_ReleaseUsage_def SetDirectRepositoryCredentials_def SetTargetUsage_def Let_def own_update served_def split: sum.split)

lemma own_other_ops [simp]:
  "own (fst (node_Promote ev host port endpoint dir m s)) = own s" "own (fst (node_UpdateEndpoint ev host port endpoint s)) = own s"
  "own (fst (node_Demote ev host s)) = own s" "own (fst (CreateDestination ev lower parse box input s)) = own s"
  "own (fst (SetDestinationCredentials ev box i c s)) = own s" "own (fst (DeleteDestination ev i s)) = own s"
  by (rule own_cong, simp)+

lemma keeping_ops [simp]:
  "length (sha secret) = 32 \<Longrightarrow> keeping lower sha s (fst (target_Rotate ev sha i secret s))"
  "keeping lower sha s (fst (target_Revoke ev i s))" "keeping lower sha s (fst (target_SetQuota ev i q s))"
  "\<lbrakk>0 \<le> used; used < 2 ^ 63\<rbrakk> \<Longrightarrow> keeping lower sha s (fst (target_SetUsage ev i used s))"
  "keeping lower sha s (fst (SetDirectRepositoryCredentials ev box i c s))"
  "used < 2 ^ 63 \<Longrightarrow> keeping lower sha s (fst (SetTargetUsage ev host name used s))"
  "keeping lower sha s (fst (CreateDestination ev lower parse box input s))"
  "keeping lower sha s (fst (SetDestinationCredentials ev box i c s))" "keeping lower sha s (fst (DeleteDestination ev i s))"
  "keeping lower sha s (fst (node_Promote ev host port endpoint dir m s))"
  "keeping lower sha s (fst (node_UpdateEndpoint ev host port endpoint s))" "keeping lower sha s (fst (node_Demote ev host s))"
  "keeping lower sha s (fst (target_ResolveTarget ev sha repo secret s))"
  by (rule keeping_same; (rule repo_step.intros; simp)?; simp)+

definition good_digests :: "api_cfg \<Rightarrow> bool" where
  "good_digests cf \<longleftrightarrow> (\<forall>x. length (ac_sha cf x) = 32)"

abbreviation keeps :: "api_cfg \<Rightarrow> backupTargets \<Rightarrow> backupTargets \<Rightarrow> bool" where
  "keeps cf \<equiv> keeping (ac_lower cf) (ac_sha cf)"

lemma create_keeps [simp]:
  assumes "good_digests cf"
  shows "keeps cf s (fst (create_direct cf ev rq name dest s))" "keeps cf s (fst (create_stored cf db secret rq name s))"
    "keeps cf s (fst (create_on_node cf ev rq name node s))"
proof -
  have sha: "length (ac_sha cf x) = 32" for x using assms by (simp add: good_digests_def)
  show "keeps cf s (fst (create_direct cf ev rq name dest s))" using sha by (simp add: create_direct_def split: option.split sum.split)
  show stored: "keeps cf s (fst (create_stored cf db secret rq name s))" for db secret
    using sha by (simp add: create_stored_def split: option.split)
  show "keeps cf s (fst (create_on_node cf ev rq name node s))"
    using stored by (simp add: create_on_node_def split: option.split sum.split)
qed

lemma create_handler_keeps [simp]:
  assumes "good_digests cf"
  shows "keeps cf (gw_reg g) (gw_reg (fst (createBackupTargetHandler cf ev body g)))"
  using assms by (simp add: createBackupTargetHandler_def Let_def split: option.split sum.split)

lemma create_handler_disk [simp]: "gw_disk (fst (createBackupTargetHandler cf ev body g)) = gw_disk g"
  by (simp add: createBackupTargetHandler_def Let_def split: option.split sum.split)

lemma table_handlers_keep [simp]:
  "keeps cf s (fst (updateBackupTargetHandler ev i b s))"
  "keeps cf s (fst (revokeBackupTargetHandler ev i s))"
  "keeps cf s (fst (createBackupDestinationHandler cf ev ev' d s))"
  "keeps cf s (fst (updateBackupDestinationCredentialsHandler cf ev i c s))"
  "keeps cf s (fst (updateDirectRepositoryCredentialsHandler cf ev i c s))"
  "keeps cf s (fst (deleteBackupDestinationHandler ev i s))"
  "good_digests cf \<Longrightarrow> keeps cf s (fst (rotateBackupTargetHandler cf rq i s))"
  by (simp_all add: updateBackupTargetHandler_def revokeBackupTargetHandler_def createBackupDestinationHandler_def
    updateBackupDestinationCredentialsHandler_def updateDirectRepositoryCredentialsHandler_def deleteBackupDestinationHandler_def
    rotateBackupTargetHandler_def good_digests_def split: option.split sum.split)

lemma measure_keeps [simp]:
  assumes "\<And>n. stored_bytes (files (gw_disk g)) n < 2 ^ 63"
  shows "keeps cf (gw_reg g) (gw_reg (fst (measureBackupTargetHandler cf ev i g)))"
proof -
  have "0 \<le> u \<and> u < 2 ^ 63" if "RepoUsage (ap_store ev) n (gw_disk g) = Inr u" for n u
    using RepoUsage_Inr [OF that] assms stored_bytes_nonneg by simp
  then show ?thesis by (simp add: measureBackupTargetHandler_def split: option.split sum.split)
qed

lemma measure_disk [simp]: "gw_disk (fst (measureBackupTargetHandler cf ev i g)) = gw_disk g"
  by (simp add: measureBackupTargetHandler_def split: option.split sum.split)

section \<open>Deletions and requests of restic\<close>

text \<open>The paths of the disk that hold finished objects, under the name of a repository.\<close>

definition stored_at :: "disk \<Rightarrow> string \<Rightarrow> path \<Rightarrow> bool" where
  "stored_at d repo q \<longleftrightarrow> get (files d) (repo # q) \<noteq> None \<and> \<not> isUploadTemp (last (repo # q))"

lemma stored_at_in: "stored_at d repo q \<Longrightarrow> stored_in [repo] (files d) \<noteq> []"
proof -
  assume s: "stored_at d repo q"
  then obtain f where "(repo # q, f) \<in> set (files d)" by (auto simp: stored_at_def dest: map_of_SomeD)
  then have "(repo # q, f) \<in> set (stored_in [repo] (files d))" using s by (simp add: stored_in_def under_def stored_at_def)
  then show ?thesis by (metis empty_iff list.set(1))
qed

text \<open>A deletion that goes ahead has looked at the directory of a repository of the server.\<close>

lemma delete_handler_cases:
  obtains (same) "gw_reg (fst (deleteBackupTargetHandler cf ev i g)) = gw_reg g"
  | (drop) k t db where "target_Get (ap_db ev) k (gw_reg g) = Inr t"
      "gw_reg (fst (deleteBackupTargetHandler cf ev i g)) = fst (target_Delete db k (gw_reg g))"
      "\<lbrakk>bt_DestinationID t = None; bt_NodeHostID t = None; ac_server cf\<rbrakk> \<Longrightarrow> RepoHasObjects (ap_store ev) (bt_Name t) (gw_disk g) = Inr False"
proof (cases "\<exists>k t. i = Some k \<and> target_Get (ap_db ev) k (gw_reg g) = Inr t")
  case True
  then obtain k t where k: "i = Some k" "target_Get (ap_db ev) k (gw_reg g) = Inr t" by blast
  note defs = deleteBackupTargetHandler_def k
  consider (direct) d where "bt_DestinationID t = Some d" | (node) n where "bt_DestinationID t = None" "bt_NodeHostID t = Some n"
    | (own) "bt_DestinationID t = None" "bt_NodeHostID t = None" by (cases "bt_DestinationID t"; cases "bt_NodeHostID t") auto
  then show thesis
  proof cases
    case direct
    then show thesis using same drop [OF k(2), of "later 1 (ap_db ev)"] by (cases "bt_RevokedAt t") (simp_all add: defs)
  next
    case node
    have "gw_reg (fst (deleteBackupTargetHandler cf ev i g)) \<in> {gw_reg g, fst (target_Delete (later 2 (ap_db ev)) k (gw_reg g))}"
      by (simp add: defs node split: sum.split)
    then show thesis using same drop [OF k(2), of "later 2 (ap_db ev)"] node by auto
  next
    case own
    show thesis
    proof (cases "ac_server cf \<and> RepoHasObjects (ap_store ev) (bt_Name t) (gw_disk g) \<noteq> Inr False")
      case True
      then have "gw_reg (fst (deleteBackupTargetHandler cf ev i g)) = gw_reg g"
        by (auto simp: defs own backupTargetDeletable_def split: sum.split)
      then show thesis by (rule same)
    next
      case False
      have "gw_reg (fst (deleteBackupTargetHandler cf ev i g)) \<in> {gw_reg g, fst (target_Delete (later 1 (ap_db ev)) k (gw_reg g))}"
        by (simp add: defs own split: sum.split)
      then show thesis using same drop [OF k(2), of "later 1 (ap_db ev)"] False by auto
    qed
  qed
next
  case False
  then have "gw_reg (fst (deleteBackupTargetHandler cf ev i g)) = gw_reg g"
    by (auto simp: deleteBackupTargetHandler_def split: option.split sum.split)
  then show thesis by (rule same)
qed

lemma delete_handler_disk [simp]: "gw_disk (fst (deleteBackupTargetHandler cf ev i g)) = gw_disk g"
  by (simp add: deleteBackupTargetHandler_def split: option.split sum.split)

lemma delete_keeps_owner:
  assumes "rows_inv lower (gw_reg g)" "ac_server cf" "stored_at (gw_disk g) n q"
  shows "own (gw_reg (fst (deleteBackupTargetHandler cf ev i g))) n = own (gw_reg g) n"
proof (cases rule: delete_handler_cases [of cf ev i g])
  case (drop k t db)
  have "own (gw_reg g) n \<noteq> Some k"
  proof
    assume "own (gw_reg g) n = Some k"
    then obtain r where r: "r \<in> set (bd_targets (gw_reg g))" "bt_Name r = n" "served r" "bt_ID r = k"
      using own_iff [OF assms(1)] by blast
    have "row_with k (gw_reg g) = Some r" using row_with_unique [OF assms(1) r(1)] r(4) by simp
    then have "t = backupTarget.truncate r" using drop(1) by (simp add: target_Get_def row_with_def split: if_splits)
    then have "RepoHasObjects (ap_store ev) n (gw_disk g) = Inr False"
      using drop(3) assms(2) r(2,3) by (simp add: served_def backupTarget.truncate_def)
    then show False using stored_at_in [OF assms(3)] by (auto simp: RepoHasObjects_def repoDir_def split: if_splits)
  qed
  then show ?thesis using own_Delete [OF assms(1), of db k n] drop(2) by simp
qed simp

text \<open>What the operations of the registry keep, a request keeps.\<close>

lemma serve_closed:
  assumes "P (gw_reg g)" "\<And>i d r. P r \<Longrightarrow> P (fst (rg_ReserveUsage (sv_registry sv) i d r))"
    "\<And>i d r. P r \<Longrightarrow> P (fst (rg_ReleaseUsage (sv_registry sv) i d r))"
  shows "P (gw_reg (fst (serve sv ev rq g)))"
proof (cases rule: serve_cases [of sv rq g ev])
  case (handler t)
  have up: "P (gw_reg (fst (post_upload sv ev rq repo typ name t reserved g)))" if "P (gw_reg g)" for repo "typ" name t reserved g
    using assms(2,3) that by (simp add: post_upload_def Let_def releaseUsage_def reserveAfterUnaccountedCommit_def split: prod.split option.split)
  have post: "P (gw_reg (fst (post sv ev rq repo typ name t g)))" if "P (gw_reg g)" for repo "typ" name t g
  proof -
    obtain r res where r: "rg_ReserveUsage (sv_registry sv) (tg_id t) (rq_ContentLength rq) (gw_reg g) = (r, res)" by fastforce
    then have "P r" using assms(2) [OF that] by (metis fst_conv)
    then show ?thesis using up that by (simp add: post_def r Let_def split: sum.split)
  qed
  have del: "P (gw_reg (fst (handleDelete sv ev repo typ name t g)))" if "P (gw_reg g)" for repo "typ" name t g
    using assms(3) that by (simp add: handleDelete_def Let_def releaseUsage_def split: prod.split sum.split)
  have new: "gw_reg (fst (handleCreateRepo ev repo g)) = gw_reg g" for repo
    by (simp add: handleCreateRepo_def split: prod.split option.split)
  show ?thesis using handler(2) post del new assms(1) by (simp add: Routes_def handlePost_def split: meth.split route.split)
qed (use assms(1) in simp)

lemma serve_own [simp]: "own (gw_reg (fst (serve (New_server (server_registry sha now) digest maxBlob) ev rq g))) = own (gw_reg g)"
proof (rule serve_closed [where P = "\<lambda>r. own r = own (gw_reg g)"])
  fix i d :: int and r
  assume r: "own r = own (gw_reg g)"
  show "own (fst (rg_ReserveUsage (sv_registry (New_server (server_registry sha now) digest maxBlob)) i d r)) = own (gw_reg g)"
    by (cases "target_ReserveUsage (working now) i d r")
      (use r own_ops(5) [of "working now" i d r] in \<open>auto simp: New_server_def server_registry_def server_reserve_def split: sum.split\<close>)
  show "own (fst (rg_ReleaseUsage (sv_registry (New_server (server_registry sha now) digest maxBlob)) i d r)) = own (gw_reg g)"
    by (cases "target_ReleaseUsage (working now) i (i64 d) r")
      (use r own_ops(6) [of "working now" i "i64 d" r] in \<open>auto simp: New_server_def server_registry_def server_release_def\<close>)
qed simp

lemma serve_inv:
  assumes "target_inv lower (gw_reg g)"
  shows "target_inv lower (gw_reg (fst (serve (New_server (server_registry sha now) digest maxBlob) ev rq g)))"
  by (rule serve_closed [where P = "target_inv lower"])
    (use assms server_reserve_inv server_release_inv in \<open>simp_all add: New_server_def server_registry_def\<close>)

text \<open>An object that a request adds lies in a directory that has a repository.\<close>

lemma serve_adds:
  assumes "io_quiet (ev_store ev)" "target_inv lower (gw_reg g)"
    "stored_at (gw_disk (fst (serve (New_server (server_registry sha now) digest maxBlob) ev rq g))) n q" "\<not> stored_at (gw_disk g) n q"
  shows "own (gw_reg g) n \<noteq> None"
proof -
  let ?sv = "New_server (server_registry sha now) digest maxBlob"
  have repo: "n = route_repo (rq_route rq)"
  proof (rule ccontr)
    assume "n \<noteq> route_repo (rq_route rq)"
    then have u: "\<not> under [route_repo (rq_route rq)] (n # q)" by (simp add: under_def)
    have "get (files (gw_disk (fst (serve ?sv ev rq g)))) (n # q) = get (files (gw_disk g)) (n # q)"
      by (cases rule: serve_disk_cases [of ?sv ev rq g]) (use u assms(1) in \<open>simp_all add: Create_elsewhere DeleteLock_elsewhere\<close>)
    then show False using assms(3,4) by (simp add: stored_at_def)
  qed
  show ?thesis
  proof (cases rule: serve_cases [of ?sv rq g ev])
    case (handler t)
    then obtain secret where "server_resolve sha now n secret (gw_reg g) = Inr (Some (tg_id t, tg_quota t, tg_used t))"
      by (auto simp: authorized_def New_server_def server_registry_def repo)
    then have "opens_as (sha secret) (row_named n (bd_targets (gw_reg g))) \<noteq> None"
      using resolve_table [OF assms(2), of "working now" sha n secret] by (auto simp: server_resolve_def working_def split: if_splits)
    then show ?thesis by (auto simp: opens_as_def own_def split: option.splits)
  next
    case (refused rp)
    then show ?thesis using assms(3,4) by simp
  qed
qed

section \<open>The life of the server\<close>

lemma store_usage_keeps:
  assumes "\<forall>(n, u) \<in> set es. u < 2 ^ 63"
  shows "keeping lower sha s (fst (store_usage ev host es s))"
  using assms
proof (induction ev host es s rule: store_usage.induct)
  case (2 ev hostID name used es s)
  show ?case
  proof (cases "validBackupTargetName name \<and> be_stmt ev 0")
    case True
    have "keeping lower sha s (fst (SetTargetUsage ev hostID name used s))" using 2(3) by simp
    moreover have "keeping lower sha (fst (SetTargetUsage ev hostID name used s))
        (fst (store_usage (later 1 ev) hostID es (fst (SetTargetUsage ev hostID name used s))))"
      using 2(2)[of "fst (SetTargetUsage ev hostID name used s)" "snd (SetTargetUsage ev hostID name used s)"] 2(3) True
      by (simp add: SetTargetUsage_def)
    ultimately show ?thesis using True keeping_trans by (fastforce simp: SetTargetUsage_def)
  next
    case False
    then show ?thesis using 2(1) 2(3) by (auto simp: SetTargetUsage_def)
  qed
qed simp

definition usage_on_tables :: "bt_env \<Rightarrow> int option \<Rightarrow> usageRequest option \<Rightarrow> nodeHealthCache \<Rightarrow> peerStatsCache \<Rightarrow> backupTargets \<Rightarrow> backupTargets" where
  "usage_on_tables ev h body health stats s =
     ns_tables (fst (agentBackupNodeUsageHandler ev h body \<lparr>ns_tables = s, ns_health = health, ns_stats = stats\<rparr>))"

lemma usage_keeps:
  assumes "case body of None \<Rightarrow> True | Some rq \<Rightarrow> \<forall>(n, u) \<in> set (uq_Targets rq). u < 2 ^ 63"
  shows "keeping lower sha s (usage_on_tables ev h body health stats s)"
  using assms store_usage_keeps
  by (auto simp: usage_on_tables_def agentBackupNodeUsageHandler_def Let_def case_prod_beta split: option.split sum.split)

lemma node_handlers_keep [simp]:
  "keeping lower sha s (fst (promoteBackupNodeHandler ev look b s))" "keeping lower sha s (fst (updateBackupNodeHandler ev h b s))"
  "keeping lower sha s (fst (demoteBackupNodeHandler ev h s))"
proof -
  have r: "fst (case x of (s, Inl e) \<Rightarrow> (s, f e) | (s, Inr v) \<Rightarrow> (s, k v)) = fst x"
    for x :: "backupTargets \<times> (bt_err + unit)" and f k :: "_ \<Rightarrow> int"
    by (simp split: prod.split sum.split)
  show "keeping lower sha s (fst (promoteBackupNodeHandler ev look b s))" "keeping lower sha s (fst (updateBackupNodeHandler ev h b s))"
    "keeping lower sha s (fst (demoteBackupNodeHandler ev h s))"
    by (simp_all add: promoteBackupNodeHandler_def updateBackupNodeHandler_def demoteBackupNodeHandler_def r split: option.split prod.split)
qed

text \<open>
  The server with its gateway. Requests come one after the other; disk calls may fail, statements may fail, and hosts, tunnel
  peers and reports of backups change in any way. The disk holds less than \<open>2 ^ 63\<close> bytes of a repository when it is measured.
\<close>

inductive site_step :: "api_cfg \<Rightarrow> (string \<Rightarrow> string) \<Rightarrow> int \<Rightarrow> backupTargets gateway \<Rightarrow> backupTargets gateway \<Rightarrow> bool" for cf digest maxBlob where
  restic: "io_quiet (ev_store ev) \<Longrightarrow>
    site_step cf digest maxBlob g (fst (serve (New_server (server_registry (ac_sha cf) now) digest maxBlob) ev rq g))"
| create: "site_step cf digest maxBlob g (fst (createBackupTargetHandler cf ev body g))"
| update: "site_step cf digest maxBlob g (fst (on_tables (updateBackupTargetHandler db i b) g))"
| rotate: "site_step cf digest maxBlob g (fst (on_tables (rotateBackupTargetHandler cf ev i) g))"
| revoke: "site_step cf digest maxBlob g (fst (on_tables (revokeBackupTargetHandler db i) g))"
| delete: "site_step cf digest maxBlob g (fst (deleteBackupTargetHandler cf ev i g))"
| measure: "(\<And>n. stored_bytes (files (gw_disk g)) n < 2 ^ 63) \<Longrightarrow>
    site_step cf digest maxBlob g (fst (measureBackupTargetHandler cf ev i g))"
| destination: "site_step cf digest maxBlob g (fst (on_tables (createBackupDestinationHandler cf db db' d) g))"
| credentials: "site_step cf digest maxBlob g (fst (on_tables (updateBackupDestinationCredentialsHandler cf db i c) g))"
| direct_credentials: "site_step cf digest maxBlob g (fst (on_tables (updateDirectRepositoryCredentialsHandler cf db i c) g))"
| drop_destination: "site_step cf digest maxBlob g (fst (on_tables (deleteBackupDestinationHandler db i) g))"
| promote: "site_step cf digest maxBlob g (fst (on_tables (promoteBackupNodeHandler db look b) g))"
| endpoint: "site_step cf digest maxBlob g (fst (on_tables (updateBackupNodeHandler db i b) g))"
| demote: "site_step cf digest maxBlob g (fst (on_tables (demoteBackupNodeHandler db i) g))"
| usage: "(case u of None \<Rightarrow> True | Some rq \<Rightarrow> \<forall>(n, used) \<in> set (uq_Targets rq). used < 2 ^ 63) \<Longrightarrow>
    site_step cf digest maxBlob g (g\<lparr>gw_reg := usage_on_tables db i u health stats (gw_reg g)\<rparr>)"
| resolve: "site_step cf digest maxBlob g (fst (on_tables (target_ResolveTarget db (ac_sha cf) n secret) g))"
| sweep: "site_step cf digest maxBlob g (g\<lparr>gw_disk := sweepStaleUploads before (gw_disk g)\<rparr>)"
| others: "site_step cf digest maxBlob g (g\<lparr>gw_reg := (gw_reg g)\<lparr>bd_hosts := hs, bd_peers := ps, bd_status := st\<rparr>\<rparr>)"

text \<open>What one step does: the tables stay well-formed, what was stored keeps its owner, and what is new has one.\<close>

definition owner_step :: "(string \<Rightarrow> string) \<Rightarrow> backupTargets gateway \<Rightarrow> backupTargets gateway \<Rightarrow> bool" where
  "owner_step lower g g' \<longleftrightarrow> target_inv lower (gw_reg g') \<and>
     (\<forall>n q. stored_at (gw_disk g) n q \<longrightarrow> own (gw_reg g) n \<noteq> None \<longrightarrow> own (gw_reg g') n = own (gw_reg g) n) \<and>
     (\<forall>n q. stored_at (gw_disk g') n q \<longrightarrow> \<not> stored_at (gw_disk g) n q \<longrightarrow> own (gw_reg g') n \<noteq> None)"

lemma repo_steps_inv: "\<lbrakk>(repo_step lower sha)\<^sup>*\<^sup>* s s'; target_inv lower s\<rbrakk> \<Longrightarrow> target_inv lower s'"
  by (induction rule: rtranclp_induct) (auto intro: repo_step_inv)

lemma keeping_owner:
  assumes "keeping lower sha (gw_reg g) (gw_reg g')" "target_inv lower (gw_reg g)" "gw_disk g' = gw_disk g"
  shows "owner_step lower g g'"
proof -
  have "target_inv lower (gw_reg g')" using assms(1,2) repo_steps_inv by (auto simp: keeping_def)
  moreover have "own (gw_reg g') n = own (gw_reg g) n" if "own (gw_reg g) n \<noteq> None" for n
    using assms(1) that domIff unfolding keeping_def map_le_def by metis
  ultimately show ?thesis using assms(3) by (simp add: owner_step_def)
qed

lemma site_owner:
  assumes "site_step cf digest maxBlob g g'" "target_inv (ac_lower cf) (gw_reg g)" "good_digests cf" "ac_server cf"
  shows "owner_step (ac_lower cf) g g'"
  using assms(1)
proof (cases rule: site_step.cases)
  case (restic ev now rq)
  show ?thesis using serve_inv [OF assms(2)] serve_adds [OF restic(2) assms(2)] by (auto simp: restic(1) owner_step_def)
next
  case (delete ev i)
  have "target_inv (ac_lower cf) (gw_reg g')"
    by (cases rule: delete_handler_cases [of cf ev i g])
      (use repo_step_inv [OF repo_step.delete assms(2)] assms(2) in \<open>simp_all add: delete\<close>)
  then show ?thesis using delete_keeps_owner [OF rows_of_inv [OF assms(2)] assms(4)] by (simp add: owner_step_def delete)
next
  case (sweep before)
  have "stored_at (gw_disk g) n q" if "stored_at (gw_disk g') n q" for n q
    using that by (auto simp: sweep stored_at_def sweepStaleUploads_def map_of_eq_None_iff)
  then show ?thesis using assms(2) by (auto simp: owner_step_def sweep)
next
  case (others hs ps st)
  have "repo_step (ac_lower cf) (ac_sha cf) (gw_reg g) (gw_reg g')" by (simp add: others repo_step.others)
  moreover have "own (gw_reg g') = own (gw_reg g)" by (rule own_cong) (simp add: others)
  ultimately have "keeping (ac_lower cf) (ac_sha cf) (gw_reg g) (gw_reg g')" by (rule keeping_same)
  then show ?thesis by (rule keeping_owner [OF _ assms(2)]) (simp add: others)
qed (rule keeping_owner [where sha = "ac_sha cf"]; use assms(2,3) usage_keeps in simp)+

definition site0 :: "backupTargets gateway" where
  "site0 = \<lparr>gw_disk = \<lparr>files = [], dirs = {}\<rparr>, gw_reg = targets0\<rparr>"

lemma site_reach:
  assumes "(site_step cf digest maxBlob)\<^sup>*\<^sup>* site0 g" "good_digests cf" "ac_server cf"
  shows "target_inv (ac_lower cf) (gw_reg g) \<and> (\<forall>n q. stored_at (gw_disk g) n q \<longrightarrow> own (gw_reg g) n \<noteq> None)"
  using assms(1)
proof (induction rule: rtranclp_induct)
  case base
  then show ?case using repo_reach_inv [OF rtranclp.rtrancl_refl] by (simp add: site0_def stored_at_def)
next
  case (step g g')
  then have "owner_step (ac_lower cf) g g'" by (intro site_owner assms(2,3)) auto
  with step.IH show ?case unfolding owner_step_def by metis
qed

text \<open>
  C15. What is stored stays with its repository. After any history of requests of restic and of the administrator, with
  any failures, every finished object lies in the directory of a repository of the table, and no further request takes the
  directory away from it: neither by deleting the repository nor by giving its name to a new one, so
  a new repository starts empty. (Requests do not overlap, and no object appears on the disk by other means.)
\<close>

theorem stored_data_keeps_owner:
  assumes "(site_step cf digest maxBlob)\<^sup>*\<^sup>* site0 g" "site_step cf digest maxBlob g g'" "ac_server cf"
    "\<forall>x. length (ac_sha cf x) = 32" "stored_at (gw_disk g) n q"
  shows "\<exists>i. own (gw_reg g) n = Some i \<and> own (gw_reg g') n = Some i"
proof -
  have cf: "good_digests cf" using assms(4) by (simp add: good_digests_def)
  note inv = site_reach [OF assms(1) cf assms(3)]
  then obtain i where i: "own (gw_reg g) n = Some i" using assms(5) by blast
  have "owner_step (ac_lower cf) g g'" using inv by (intro site_owner [OF assms(2) _ cf assms(3)]) blast
  then have "own (gw_reg g') n = own (gw_reg g) n" using assms(5) i unfolding owner_step_def by blast
  with i show ?thesis by simp
qed

text \<open>A repository is created, an object uploaded, and the repository is to be deleted.\<close>

definition site_cfg :: api_cfg where
  "site_cfg = \<lparr>ac_lower = (\<lambda>s. s), ac_sha = sha0, ac_parse = (\<lambda>_. None), ac_box = None, ac_server = True, ac_nodes = True, ac_secure = False\<rparr>"

definition site_env :: api_env where
  "site_env = \<lparr>ap_db = working 0, ap_store = io_ok, ap_host = (\<lambda>_. None), ap_secret = Some ''s''\<rparr>"

definition site_create :: createTargetRequest where
  "site_create = \<lparr>cq_Name = '' web1'', cq_HostID = None, cq_QuotaBytes = Some 100, cq_NodeHostID = None, cq_DestinationID = None,
     cq_S3Credentials = None\<rparr>"

definition site1 :: "backupTargets gateway" where
  "site1 = fst (createBackupTargetHandler site_cfg site_env (Some site_create) site0)"

definition site2 :: "backupTargets gateway" where
  "site2 = fst (serve (New_server (server_registry (ac_sha site_cfg) 0) (\<lambda>s. take 1 s) 1000) env_ok upload1 site1)"

theorem stored_data_keeps_owner_witness:
  "snd (deleteBackupTargetHandler site_cfg site_env (Some 1) site2) = Inl 409 \<and>
   own (gw_reg (fst (deleteBackupTargetHandler site_cfg site_env (Some 1) site2))) ''web1'' = Some 1"
proof -
  have "site_step site_cfg (\<lambda>s. take 1 s) 1000 site0 site1" unfolding site1_def by (rule site_step.create)
  moreover have "site_step site_cfg (\<lambda>s. take 1 s) 1000 site1 site2" unfolding site2_def by (rule site_step.restic) (simp add: env_ok_def)
  ultimately have reach: "(site_step site_cfg (\<lambda>s. take 1 s) 1000)\<^sup>*\<^sup>* site0 site2" by (meson rtranclp.rtrancl_refl rtranclp.rtrancl_into_rtrancl)
  have sha: "\<forall>x. length (ac_sha site_cfg x) = 32" by (auto simp: site_cfg_def sha0_def pad32_def)
  have facts: "ac_server site_cfg" "stored_at (gw_disk site2) ''web1'' [''keys'', ''61'']" "own (gw_reg site2) ''web1'' = Some 1"
    "snd (deleteBackupTargetHandler site_cfg site_env (Some 1) site2) = Inl 409"
    by code_simp+
  from stored_data_keeps_owner [OF reach site_step.delete facts(1) sha facts(2), of site_env "Some 1"] facts(3,4) show ?thesis by simp
qed

text \<open>
  The look at the directory and the deletion are two calls: an upload in between leaves objects without a repository, and
  the name cannot be used again until they are removed by hand.
\<close>

lemma upload_during_deletion_orphans:
  "let s = fst (target_Delete (working 0) 1 (gw_reg site2))
   in RepoHasObjects io_ok ''web1'' (gw_disk site1) = Inr False \<and> stored_at (gw_disk site2) ''web1'' [''keys'', ''61''] \<and>
      own s ''web1'' = None \<and> snd (createBackupTargetHandler site_cfg site_env (Some site_create) (site2\<lparr>gw_reg := s\<rparr>)) = Inl 409"
  by code_simp

end
