(* ===== verification/Node_Access.thy ===== *)
theory Node_Access
  imports Node_Api
begin

text \<open>
  Server and storage node together: what the tables of the server say about a repository on a node is what the node grants once it
  has applied the configuration it was sent, and the usage the node reports is what the tables show.
\<close>

section \<open>From the tables to the credentials of the node\<close>

definition node_targets :: "int \<Rightarrow> 'a backup_db_scheme \<Rightarrow> nodeTargetInfo list" where
  "node_targets host s = map (\<lambda>r. \<lparr>ti_Name = bt_Name r, ti_SecretHash = hex_encode (tr_hash r),
       ti_QuotaBytes = (case bt_QuotaBytes r of None \<Rightarrow> 0 | Some q \<Rightarrow> q), ti_Revoked = (bt_RevokedAt r \<noteq> None)\<rparr>)
     (sort_key bt_Name (filter (\<lambda>r. bt_NodeHostID r = Some host) (bd_targets s)))"

lemma config_targets:
  assumes "agentBackupNodeConfigHandler ev (Some host) s = Inr reply" "nc_Enabled reply"
  shows "nc_Targets reply = node_targets host s"
  using assms
  by (auto simp: agentBackupNodeConfigHandler_def ConfigForHost_def node_targets_def wire_target_def split: sum.splits bt_err.splits if_splits)

lemma node_targets_good:
  assumes "rows_inv lower s"
  shows "distinct (map ti_Name (node_targets host s))" "\<forall>t \<in> set (node_targets host s). good_hash t"
proof -
  have "distinct (map bt_Name (filter (\<lambda>r. bt_NodeHostID r = Some host) (bd_targets s)))"
    using names_distinct [OF assms] by (simp add: distinct_map_filter)
  then have "distinct (map bt_Name (sort_key bt_Name (filter (\<lambda>r. bt_NodeHostID r = Some host) (bd_targets s))))"
    by (simp add: distinct_map)
  then show "distinct (map ti_Name (node_targets host s))" by (simp add: node_targets_def comp_def)
  show "\<forall>t \<in> set (node_targets host s). good_hash t"
    using assms by (auto simp: node_targets_def good_hash_def hex_roundtrip rows_inv_def)
qed

text \<open>
  C16. A storage node grants what the server's table says. When the node has applied the configuration that the server made
  of its table, a name and a secret open a repository on the node exactly when the table has a live row of that
  name on that node with the digest of the secret, and the node has measured the repository before. So creating, rotating,
  revoking and deleting a repository on the server decides about the access on the node from the next configuration on.
\<close>

theorem node_access_follows_server:
  assumes "(repo_step lower sha)\<^sup>*\<^sup>* targets0 s"
    "agentBackupNodeConfigHandler ev (Some host) s = Inr reply" "nc_Enabled reply"
    "reg_inv r" "0 < nextID r" "nextID r + int (length (nc_Targets reply)) < 2 ^ 63"
  shows "ResolveTarget sha repo secret (fst (replaceTargets (nc_Targets reply) r)) \<noteq> None \<longleftrightarrow>
    (\<exists>row \<in> set (bd_targets s). bt_Name row = repo \<and> bt_NodeHostID row = Some host \<and> bt_RevokedAt row = None \<and> tr_hash row = sha secret) \<and>
    (\<exists>old. get (byName r) repo = Some old \<and> lt_ready old)"
proof -
  have rows: "rows_inv lower s" using repo_reach_inv [OF assms(1)] by (rule rows_of_inv)
  note ts = config_targets [OF assms(2,3)]
  have "(\<exists>t \<in> set (node_targets host s). ti_Name t = repo \<and> \<not> ti_Revoked t \<and> hex_decode (ti_SecretHash t) = Some (sha secret)) \<longleftrightarrow>
    (\<exists>row \<in> set (bd_targets s). bt_Name row = repo \<and> bt_NodeHostID row = Some host \<and> bt_RevokedAt row = None \<and> tr_hash row = sha secret)"
    by (auto simp: node_targets_def hex_roundtrip)
  then show ?thesis
    using ResolveTarget_after_replace [OF assms(4-6), of sha repo secret] node_targets_good [OF rows, of host] unfolding ts by simp
qed

text \<open>A node with the repository \<open>web1\<close>, and the registry that has measured it.\<close>

definition node_tables :: backupTargets where
  "node_tables = fst (target_Create (working 0) (\<lambda>s. s) (\<lambda>_. key32) ''web1'' None None ''s'' (Some 5)
     (fst (node_Promote (working 0) 5 51821 ''n1'' [] 1000 (targets0\<lparr>bd_hosts := [tun_host 5], bd_peers := [], bd_status := []\<rparr>))))"

lemma node_tables_reach: "(repo_step (\<lambda>s. s) (\<lambda>_. key32))\<^sup>*\<^sup>* targets0 node_tables"
proof -
  let ?s1 = "targets0\<lparr>bd_hosts := [tun_host 5], bd_peers := [], bd_status := []\<rparr>"
  let ?s2 = "fst (node_Promote (working 0) 5 51821 ''n1'' [] 1000 ?s1)"
  have "repo_step (\<lambda>s. s) (\<lambda>_. key32) targets0 ?s1" by (rule repo_step.others)
  moreover have "repo_step (\<lambda>s. s) (\<lambda>_. key32) ?s1 ?s2" by (rule repo_step.promote)
  moreover have "repo_step (\<lambda>s. s) (\<lambda>_. key32) ?s2 node_tables" unfolding node_tables_def by (rule repo_step.create) code_simp
  ultimately show ?thesis by (meson rtranclp.rtrancl_refl rtranclp.rtrancl_into_rtrancl)
qed

theorem node_access_follows_server_witness:
  "\<exists>reply. agentBackupNodeConfigHandler (working 0) (Some 5) node_tables = Inr reply \<and>
     ResolveTarget (\<lambda>_. key32) ''web1'' ''s'' (fst (replaceTargets (nc_Targets reply) reg1)) \<noteq> None"
proof -
  have c: "map_sum id (\<lambda>reply. (nc_Enabled reply, length (nc_Targets reply))) (agentBackupNodeConfigHandler (working 0) (Some 5) node_tables) = Inr (True, 1)"
    by code_simp
  then obtain reply where reply: "agentBackupNodeConfigHandler (working 0) (Some 5) node_tables = Inr reply" "nc_Enabled reply"
    "length (nc_Targets reply) = 1"
    by (cases "agentBackupNodeConfigHandler (working 0) (Some 5) node_tables") auto
  have reg: "0 < nextID reg1" "nextID reg1 + 1 < 2 ^ 63" "map_option lt_ready (get (byName reg1) ''web1'') = Some True" by code_simp+
  have rows: "map (\<lambda>r. (bt_Name r, bt_NodeHostID r)) (bd_targets node_tables) = [(''web1'', Some 5)]"
    "map (\<lambda>r. (bt_RevokedAt r, tr_hash r)) (bd_targets node_tables) = [(None, key32)]"
    by code_simp+
  have "ResolveTarget (\<lambda>_. key32) ''web1'' ''s'' (fst (replaceTargets (nc_Targets reply) reg1)) \<noteq> None"
    by (rule iffD2 [OF node_access_follows_server [OF node_tables_reach reply(1,2) reg1_facts(1) reg(1)]])
      (use reply(3) reg rows in auto)
  with reply(1) show ?thesis by blast
qed

section \<open>From the node's accounts to the tables\<close>

text \<open>The rows after a report: the usage of the repositories it names, of that node.\<close>

definition reported :: "time \<Rightarrow> int \<Rightarrow> (string \<times> int) list \<Rightarrow> targetRow \<Rightarrow> targetRow" where
  "reported now host es r =
     (if bt_NodeHostID r = Some host \<and> validBackupTargetName (bt_Name r)
      then (case get es (bt_Name r) of None \<Rightarrow> r | Some u \<Rightarrow> r\<lparr>bt_UsedBytes := max u 0, bt_UsageMeasuredAt := Some now\<rparr>)
      else r)"

lemma store_usage_rows:
  assumes "snd (store_usage ev host es s)" "distinct (map fst es)"
  shows "bd_targets (fst (store_usage ev host es s)) = map (reported (be_now ev) host es) (bd_targets s)"
  using assms
proof (induction ev host es s rule: store_usage.induct)
  case (2 ev host name used es s)
  have none: "get es name = None" using 2(4) by (simp add: map_of_eq_None_iff)
  show ?case
  proof (cases "validBackupTargetName name")
    case True
    have ok: "be_stmt ev 0" using 2(3) True by (auto simp: SetTargetUsage_def split: if_splits)
    then obtain s1 where s1: "SetTargetUsage ev host name used s = (s1, True)" by (simp add: SetTargetUsage_def)
    have "bd_targets (fst (store_usage (later 1 ev) host es s1)) = map (reported (be_now (later 1 ev)) host es) (bd_targets s1)"
      by (rule 2(2) [OF _ s1 [symmetric]]) (use 2(3,4) True s1 in simp_all)
    moreover have "map (reported (be_now (later 1 ev)) host es) (bd_targets s1) = map (reported (be_now ev) host ((name, used) # es)) (bd_targets s)"
      using ok none True s1 by (auto simp: SetTargetUsage_def update_targets_def reported_def later_def)
    ultimately show ?thesis using True s1 by simp
  next
    case False
    then show ?thesis using 2(1) 2(3,4) by (auto simp: reported_def)
  qed
qed (auto intro!: map_idI [symmetric] simp: reported_def)

text \<open>
  C17. The usage a node reports is what the server shows. A report that the server answers with success sets the recorded
  usage of exactly the repositories of that node which the report names to what the node has recorded, and changes no
  other row: no node can write the usage of a repository elsewhere.
\<close>

theorem usage_report_exact:
  assumes "agentBackupNodeUsageHandler ev (Some host) (Some (usage_request rep)) y = (y', 200)"
    "usageSnapshot r = (r', ur_Targets rep)" "reg_inv r"
  shows "bd_targets (ns_tables y') = map (\<lambda>row.
      case (if bt_NodeHostID row = Some host \<and> validBackupTargetName (bt_Name row) then get (byName r) (bt_Name row) else None) of
        Some t \<Rightarrow> if lt_dirty t then row\<lparr>bt_UsedBytes := max (lt_used t) 0, bt_UsageMeasuredAt := Some (be_now ev)\<rparr> else row
      | None \<Rightarrow> row) (bd_targets (ns_tables y))"
proof -
  have es: "get (ur_Targets rep) n = (case get (byName r) n of None \<Rightarrow> None | Some t \<Rightarrow> if lt_dirty t then Some (lt_used t) else None)" for n
    using get_usageSnapshot [OF assms(3), of n] assms(2) by simp
  have d: "distinct (map fst (ur_Targets rep))"
  proof -
    have "ur_Targets rep = map (\<lambda>(name, t). (name, lt_used t)) (filter (\<lambda>(name, t). lt_dirty t) (byName r))"
      using assms(2) by (simp add: usageSnapshot_def)
    then have "map fst (ur_Targets rep) = map fst (filter (\<lambda>(name, t). lt_dirty t) (byName r))" by (simp add: case_prod_beta comp_def)
    then show ?thesis using assms(3) by (simp add: reg_inv_def wf_map_def distinct_map_filter)
  qed
  have su: "snd (store_usage (later 1 ev) host (ur_Targets rep) (ns_tables y))"
    "ns_tables y' = fst (store_usage (later 1 ev) host (ur_Targets rep) (ns_tables y))"
    using assms(1) by (auto simp: agentBackupNodeUsageHandler_def usage_request_def Let_def case_prod_beta split: sum.splits if_splits)
  show ?thesis
    unfolding su(2) store_usage_rows [OF su(1) d]
    by (rule map_cong) (auto simp: reported_def es later_def split: option.split)
qed

theorem usage_report_exact_witness:
  "\<exists>y'. agentBackupNodeUsageHandler (working 0) (Some 5)
      (Some (usage_request \<lparr>ur_Targets = snd (usageSnapshot reg1), ur_Peers = [], ur_Running = True, ur_Error = []\<rparr>))
      \<lparr>ns_tables = node_tables, ns_health = [], ns_stats = []\<rparr> = (y', 200) \<and>
    map bt_UsedBytes (bd_targets (ns_tables y')) = [10]"
proof -
  let ?rep = "\<lparr>ur_Targets = snd (usageSnapshot reg1), ur_Peers = [], ur_Running = True, ur_Error = []\<rparr>"
  let ?y = "\<lparr>ns_tables = node_tables, ns_health = [], ns_stats = []\<rparr>"
  have "snd (agentBackupNodeUsageHandler (working 0) (Some 5) (Some (usage_request ?rep)) ?y) = 200" by code_simp
  then obtain y' where y': "agentBackupNodeUsageHandler (working 0) (Some 5) (Some (usage_request ?rep)) ?y = (y', 200)"
    by (metis surjective_pairing)
  have rows: "map (\<lambda>r. (bt_Name r, bt_NodeHostID r)) (bd_targets node_tables) = [(''web1'', Some 5)]" by code_simp
  have reg: "map_option (\<lambda>t. (lt_dirty t, lt_used t)) (get (byName reg1) ''web1'') = Some (True, 10)" "validBackupTargetName ''web1''"
    by code_simp+
  have "bd_targets (ns_tables y') = map (\<lambda>row.
      case (if bt_NodeHostID row = Some 5 \<and> validBackupTargetName (bt_Name row) then get (byName reg1) (bt_Name row) else None) of
        Some t \<Rightarrow> if lt_dirty t then row\<lparr>bt_UsedBytes := max (lt_used t) 0, bt_UsageMeasuredAt := Some (be_now (working 0))\<rparr> else row
      | None \<Rightarrow> row) (bd_targets node_tables)"
    using usage_report_exact [OF y', of reg1 "fst (usageSnapshot reg1)"] reg1_facts(1) by simp
  moreover obtain row where row: "bd_targets node_tables = [row]" "bt_Name row = ''web1''" "bt_NodeHostID row = Some 5"
    using rows by auto
  moreover obtain t where "get (byName reg1) ''web1'' = Some t" "lt_dirty t" "lt_used t = 10" using reg(1) by auto
  ultimately have "map bt_UsedBytes (bd_targets (ns_tables y')) = [10]" using reg(2) by simp
  with y' have "agentBackupNodeUsageHandler (working 0) (Some 5) (Some (usage_request ?rep)) ?y = (y', 200) \<and>
    map bt_UsedBytes (bd_targets (ns_tables y')) = [10]" by (rule conjI)
  then show ?thesis by (rule exI)
qed

section \<open>What goes wrong\<close>

text \<open>
  A node can be removed while it has revoked repositories, and replacing the password of such a repository makes it
  live again: the caller gets a password for a repository that no node serves.
\<close>

lemma rotation_revives_without_node:
  "let s1 = fst (target_Revoke (working 0) 1 node_tables);
       (s2, demoted) = demoteBackupNodeHandler (working 0) (Some 5) s1;
       (s3, answer) = target_Rotate (working 0) (\<lambda>_. key32) 1 ''new'' s2
   in demoted = 200 \<and> answer = Inr () \<and> list_all (\<lambda>r. active_on 5 r) (bd_targets s3) \<and> bd_targets s3 \<noteq> [] \<and> bd_nodes s3 = []"
  by code_simp

text \<open>When the database does not answer, a node's report is refused as if the host were no node.\<close>

lemma outage_denies_node:
  "snd (agentBackupNodeUsageHandler ((working 0)\<lparr>be_stmt := (\<lambda>_. False)\<rparr>) (Some 5)
      (Some \<lparr>uq_Targets = [], uq_Peers = [], uq_Running = None, uq_Error = []\<rparr>)
      \<lparr>ns_tables = node_tables, ns_health = [], ns_stats = []\<rparr>) = 403"
  by code_simp

end
