(* ===== verification/Agent_Sig.thy ===== *)
theory Agent_Sig
  imports Wg_Tunnel
begin

text \<open>
  The signatures of agents (\<open>pkg/agentsig\<close>): the format of the header, its verification, and the file of the signing key. Ed25519 and
  the digest are parameters; what a theorem needs of them is the named law \<open>ed_law\<close>.
\<close>

section \<open>Signatures\<close>

text \<open>A private key is the seed followed by the public key, as in \<open>crypto/ed25519\<close>.\<close>

record ed25519 =
  ed_public :: "string \<Rightarrow> string"
  ed_sign :: "string \<Rightarrow> string \<Rightarrow> string"
  ed_verify :: "string \<Rightarrow> string \<Rightarrow> string \<Rightarrow> bool"

record signer =
  sg_priv :: string
  sg_pub :: string

datatype sig_err = ErrNoSignature | ErrBadAlgorithm | ErrBadEncoding | BadPubkey | ErrBadSignature | ErrUnknownPubkey

definition algorithm :: string where "algorithm = ''ed25519''"

definition NewKeyFromSeed :: "ed25519 \<Rightarrow> string \<Rightarrow> string" where
  "NewKeyFromSeed E seed = seed @ ed_public E seed"

definition signer_of :: "string \<Rightarrow> signer" where
  "signer_of priv = \<lparr>sg_priv = priv, sg_pub = drop 32 priv\<rparr>"

definition SignerFromHex :: "ed25519 \<Rightarrow> string \<Rightarrow> signer option" where
  "SignerFromHex E h =
     (case hex_decode (trim_space h) of
        None \<Rightarrow> None
      | Some raw \<Rightarrow>
          if length raw = 32 then Some (signer_of (NewKeyFromSeed E raw))
          else if length raw = 64 then Some (signer_of raw)
          else None)"

definition PublicKeyHex :: "signer \<Rightarrow> string" where
  "PublicKeyHex s = hex_encode (sg_pub s)"

definition PrivateKeyHex :: "signer \<Rightarrow> string" where
  "PrivateKeyHex s = hex_encode (take 32 (sg_priv s))"

definition SignDigest :: "ed25519 \<Rightarrow> signer \<Rightarrow> string \<Rightarrow> string" where
  "SignDigest E s digest = algorithm @ '':'' @ hex_encode (ed_sign E (sg_priv s) digest)"

text \<open>The answer is the error, if there is one.\<close>

definition Verify :: "ed25519 \<Rightarrow> string \<Rightarrow> string \<Rightarrow> string \<Rightarrow> sig_err option" where
  "Verify E pubkeyHex header digest =
     (if header = [] then Some ErrNoSignature
      else case cut_at (CHR '':'') header of
        (_, None) \<Rightarrow> Some ErrBadAlgorithm
      | (algo, Some payload) \<Rightarrow>
          if algo \<noteq> algorithm then Some ErrBadAlgorithm
          else (case hex_decode (trim_space payload) of
            None \<Rightarrow> Some ErrBadEncoding
          | Some sig \<Rightarrow>
         (case hex_decode (trim_space pubkeyHex) of
            None \<Rightarrow> Some BadPubkey
          | Some pub \<Rightarrow>
              if length pub \<noteq> 32 then Some BadPubkey
              else if \<not> ed_verify E pub digest sig then Some ErrBadSignature
              else None)))"

text \<open>
  The signing key is read from its file, or made and written there when there is none. Reading answers with the
  content, with nothing when the file does not exist, or with a failure; the result is the signer with the file as it is left.
\<close>

datatype file_read = NoFile | ReadFails | Content string

record key_env =
  ke_seed :: "string option"
  ke_mkdir :: bool
  ke_write :: bool

definition LoadOrCreateSigner :: "ed25519 \<Rightarrow> key_env \<Rightarrow> string \<Rightarrow> file_read \<Rightarrow> file_read \<times> (signer \<times> bool) option" where
  "LoadOrCreateSigner E ev path f =
     (if path = [] then (f, None)
      else case f of
        Content data \<Rightarrow> (f, map_option (\<lambda>s. (s, False)) (SignerFromHex E (trim_space data)))
      | ReadFails \<Rightarrow> (f, None)
      | NoFile \<Rightarrow>
          (case ke_seed ev of
             None \<Rightarrow> (f, None)
           | Some seed \<Rightarrow>
               (let s = signer_of (NewKeyFromSeed E seed)
                in if \<not> ke_mkdir ev \<or> \<not> ke_write ev then (f, None)
                   else (Content (PrivateKeyHex s @ [CHR 0x0A]), Some (s, True)))))"

section \<open>The law of the signature scheme\<close>

definition ed_law :: "ed25519 \<Rightarrow> bool" where
  "ed_law E \<longleftrightarrow> (\<forall>seed d. length seed = 32 \<longrightarrow> length (ed_public E seed) = 32 \<and>
     length (ed_sign E (seed @ ed_public E seed) d) = 64 \<and> ed_verify E (ed_public E seed) d (ed_sign E (seed @ ed_public E seed) d))"

definition signs_with :: "ed25519 \<Rightarrow> signer \<Rightarrow> string \<Rightarrow> bool" where
  "signs_with E s seed \<longleftrightarrow> length seed = 32 \<and> s = signer_of (NewKeyFromSeed E seed)"

text \<open>Text of printable ASCII characters is not changed by trimming, and a newline after it is removed.\<close>

definition graphic :: "string \<Rightarrow> bool" where
  "graphic s \<longleftrightarrow> list_all (\<lambda>c. 32 < byte c \<and> byte c < 128) s"

lemma graphic_stops:
  assumes "32 < byte c" "byte c < 128"
  shows "space_len (c # s) = 0" "space_len_rev (c # s) = 0"
  using assms by (auto simp: space_len_def space_len_rev_def space2_def space3_def ascii_space_def Let_def split: list.split)

lemma trim_graphic:
  assumes "graphic s" "s \<noteq> []" "list_all (\<lambda>c. byte c = 10) w"
  shows "trim_space (s @ w) = s"
proof -
  obtain c r where s: "s = c # r" using assms(2) by (cases s) auto
  have front: "trim_by space_len (s @ w) = s @ w"
    by (rule trim_by_stop) (use assms(1) graphic_stops in \<open>simp add: s graphic_def\<close>)
  have "rev s \<noteq> []" "list_all (\<lambda>c. 32 < byte c \<and> byte c < 128) (rev s)" using assms(1,2) by (auto simp: graphic_def list_all_iff)
  then obtain d q where r: "rev s = d # q" "32 < byte d" "byte d < 128" by (cases "rev s") auto
  have backwards: "trim_by space_len_rev (v @ rev s) = rev s" if "list_all (\<lambda>c. byte c = 10) v" for v
    using that
  proof (induction v)
    case Nil
    then show ?case using graphic_stops [OF r(2,3)] by (simp add: r(1) trim_by_stop)
  next
    case (Cons x v)
    then have "space_len_rev (x # v @ rev s) = 1" by (auto simp: space_len_rev_def ascii_space_def split: list.split)
    with Cons show ?case by simp
  qed
  have "list_all (\<lambda>c. byte c = 10) (rev w)" using assms(3) by (simp add: list_all_iff)
  from backwards [OF this] show ?thesis by (simp add: trim_space_def front)
qed

lemma trim_hex [simp]:
  "trim_space (hex_encode s) = hex_encode s" "trim_space (hex_encode s @ [CHR 0x0A]) = hex_encode s"
proof -
  have "32 < byte (hexc n) \<and> byte (hexc n) < 128" if "0 \<le> n" "n < 16" for n
  proof -
    have "\<forall>v\<in>set [0..15]. 32 < byte (hexc v) \<and> byte (hexc v) < 128" by code_simp
    then show ?thesis using that by auto
  qed
  then have g: "graphic (hex_encode s)" using byte_div by (auto simp: graphic_def hex_encode_def list_all_iff)
  have nl: "byte (CHR 0x0A) = 10" by code_simp
  show "trim_space (hex_encode s) = hex_encode s"
    using trim_graphic [OF g, of "[]"] by (cases "hex_encode s = []") (simp_all add: trim_space_def)
  show "trim_space (hex_encode s @ [CHR 0x0A]) = hex_encode s"
  proof (cases "hex_encode s = []")
    case True
    have "trim_space [CHR 0x0A] = []" by code_simp
    with True show ?thesis by simp
  qed (use trim_graphic [OF g, of "[CHR 0x0A]"] nl in simp)
qed

section \<open>Signing and verifying\<close>

lemma signer_parts:
  assumes "signs_with E s seed" "ed_law E"
  shows "sg_pub s = ed_public E seed" "length (sg_pub s) = 32" "take 32 (sg_priv s) = seed" "sg_priv s = seed @ ed_public E seed"
  using assms by (auto simp: signs_with_def signer_of_def NewKeyFromSeed_def ed_law_def)

lemma Verify_Sign:
  assumes "signs_with E s seed" "ed_law E"
  shows "Verify E (PublicKeyHex s) (SignDigest E s d) d = None"
proof -
  have "CHR '':'' \<notin> set algorithm" by (simp add: algorithm_def)
  then have "cut_at (CHR '':'') (SignDigest E s d) = (algorithm, Some (hex_encode (ed_sign E (sg_priv s) d)))"
    by (simp add: SignDigest_def cut_at_append)
  moreover have "ed_verify E (sg_pub s) d (ed_sign E (sg_priv s) d)"
    using assms(2) signer_parts(1,4) [OF assms] assms(1) unfolding ed_law_def signs_with_def by metis
  moreover have "SignDigest E s d \<noteq> []" by (simp add: SignDigest_def)
  ultimately show ?thesis
    using signer_parts(2) [OF assms] by (simp add: Verify_def PublicKeyHex_def hex_roundtrip)
qed

text \<open>A newline at the end of header or key does not matter: both are kept in files.\<close>

lemma Verify_Sign_files:
  assumes "signs_with E s seed" "ed_law E"
  shows "trim_space (PublicKeyHex s @ [CHR 0x0A]) = PublicKeyHex s" "trim_space (SignDigest E s d @ [CHR 0x0A]) = SignDigest E s d"
    "trim_space (SignDigest E s d) = SignDigest E s d"
proof -
  show "trim_space (PublicKeyHex s @ [CHR 0x0A]) = PublicKeyHex s" by (simp add: PublicKeyHex_def)
  have hex: "32 < byte (hexc n) \<and> byte (hexc n) < 128" if "0 \<le> n" "n < 16" for n
  proof -
    have "\<forall>v\<in>set [0..15]. 32 < byte (hexc v) \<and> byte (hexc v) < 128" by code_simp
    then show ?thesis using that by auto
  qed
  have "graphic (algorithm @ '':'')" by code_simp
  then have g: "graphic (SignDigest E s d)" using hex byte_div by (auto simp: graphic_def SignDigest_def hex_encode_def list_all_iff)
  have nl: "byte (CHR 0x0A) = 10" by code_simp
  have ne: "SignDigest E s d \<noteq> []" by (simp add: SignDigest_def)
  show "trim_space (SignDigest E s d @ [CHR 0x0A]) = SignDigest E s d" "trim_space (SignDigest E s d) = SignDigest E s d"
    using trim_graphic [OF g ne, of "[CHR 0x0A]"] trim_graphic [OF g ne, of "[]"] nl by simp_all
qed

text \<open>The key that a server makes at its first start is the key of every later start.\<close>

lemma signer_file_stable:
  assumes "LoadOrCreateSigner E ev path NoFile = (f, Some (s, created))" "ed_law E" "\<forall>seed. ke_seed ev = Some seed \<longrightarrow> length seed = 32"
  shows "created \<and> LoadOrCreateSigner E ev' path f = (f, Some (s, False))"
proof -
  obtain seed where seed: "ke_seed ev = Some seed" "s = signer_of (NewKeyFromSeed E seed)" "f = Content (PrivateKeyHex s @ [CHR 0x0A])" "created"
    "path \<noteq> []"
    using assms(1) by (auto simp: LoadOrCreateSigner_def Let_def split: option.splits if_splits)
  have w: "signs_with E s seed" using seed(1,2) assms(3) by (simp add: signs_with_def)
  have "SignerFromHex E (trim_space (PrivateKeyHex s @ [CHR 0x0A])) = Some s"
    using w signer_parts(3) [OF w assms(2)] by (simp add: SignerFromHex_def PrivateKeyHex_def hex_roundtrip signs_with_def del: take_eq_Nil)
  with seed show ?thesis by (simp add: LoadOrCreateSigner_def)
qed

text \<open>The length of a header.\<close>

lemma length_hex [simp]: "length (hex_encode s) = 2 * length s"
  by (induction s) (simp_all add: hex_encode_def)

lemma length_SignDigest:
  assumes "signs_with E s seed" "ed_law E"
  shows "length (SignDigest E s d) = 136"
proof -
  have "length (ed_sign E (sg_priv s) d) = 64"
    using assms(2) signer_parts(4) [OF assms] assms(1) unfolding ed_law_def signs_with_def by metis
  then show ?thesis by (simp add: SignDigest_def algorithm_def)
qed

lemma PublicKeyHex_not_empty:
  assumes "signs_with E s seed" "ed_law E"
  shows "PublicKeyHex s \<noteq> []" "trim_space (PublicKeyHex s) \<noteq> []"
proof -
  have "length (PublicKeyHex s) = 64" using signer_parts(2) [OF assms] by (simp add: PublicKeyHex_def)
  then show "PublicKeyHex s \<noteq> []" by auto
  then show "trim_space (PublicKeyHex s) \<noteq> []" by (simp add: PublicKeyHex_def)
qed

end
