(* ===== verification/Agent_Dist.thy ===== *)
theory Agent_Dist
  imports Agent_Sig Auth Rest_Server Host_Store
begin

text \<open>
  The distribution of agents by the server: \<open>internal/server/agentdist/agentdist.go\<close> and the download in
  \<open>internal/server/api/agent_dist.go\<close>. The executables are embedded in the server: a map from file names to contents, which does not
  change while it runs. The scripts of installers are text and left out.
\<close>

section \<open>The embedded executables\<close>

record platform =
  pl_ID :: string
  pl_OS :: string
  pl_Arch :: string
  pl_Label :: string
  pl_Filename :: string
  pl_Size :: int

type_synonym binaries = "string \<Rightarrow> string option"

definition platforms :: "platform list" where
  "platforms = [
     \<lparr>pl_ID = ''linux-amd64'', pl_OS = ''linux'', pl_Arch = ''amd64'', pl_Label = ''Linux (x86_64)'', pl_Filename = ''sm-agent-linux-amd64'', pl_Size = 0\<rparr>,
     \<lparr>pl_ID = ''linux-arm64'', pl_OS = ''linux'', pl_Arch = ''arm64'', pl_Label = ''Linux (ARM64)'', pl_Filename = ''sm-agent-linux-arm64'', pl_Size = 0\<rparr>,
     \<lparr>pl_ID = ''windows-amd64'', pl_OS = ''windows'', pl_Arch = ''amd64'', pl_Label = ''Windows (x86_64)'', pl_Filename = ''sm-agent-windows-amd64.exe'', pl_Size = 0\<rparr>,
     \<lparr>pl_ID = ''darwin-amd64'', pl_OS = ''darwin'', pl_Arch = ''amd64'', pl_Label = ''macOS (Intel)'', pl_Filename = ''sm-agent-darwin-amd64'', pl_Size = 0\<rparr>,
     \<lparr>pl_ID = ''darwin-arm64'', pl_OS = ''darwin'', pl_Arch = ''arm64'', pl_Label = ''macOS (Apple Silicon)'', pl_Filename = ''sm-agent-darwin-arm64'', pl_Size = 0\<rparr>]"

definition embedded :: "binaries \<Rightarrow> platform \<Rightarrow> platform option" where
  "embedded bins p = map_option (\<lambda>b. p\<lparr>pl_Size := int (length b)\<rparr>) (bins (pl_Filename p))"

definition dist_Available :: "binaries \<Rightarrow> platform list" where
  "dist_Available bins = List.map_filter (embedded bins) platforms"

definition dist_Lookup :: "binaries \<Rightarrow> string \<Rightarrow> platform option" where
  "dist_Lookup bins i = (case find (\<lambda>p. pl_ID p = i) platforms of None \<Rightarrow> None | Some p \<Rightarrow> embedded bins p)"

definition dist_Open :: "binaries \<Rightarrow> string \<Rightarrow> string option" where
  "dist_Open bins i = (case dist_Lookup bins i of None \<Rightarrow> None | Some p \<Rightarrow> bins (pl_Filename p))"

definition VerifyEmbeddedVersions :: "binaries \<Rightarrow> string \<Rightarrow> bool" where
  "VerifyEmbeddedVersions bins want \<longleftrightarrow> want \<noteq> [] \<and>
     list_all (\<lambda>p. case bins (pl_Filename p) of None \<Rightarrow> False | Some data \<Rightarrow> str_contains data want) platforms"

definition PlatformFromUserAgent :: "string \<Rightarrow> string" where
  "PlatformFromUserAgent ua =
     (let low = lower_ascii ua; arm = str_contains low ''arm64'' \<or> str_contains low ''aarch64''
      in if str_contains low ''windows'' then ''windows-amd64''
         else if str_contains low ''darwin'' \<or> str_contains low ''mac os'' then (if arm then ''darwin-arm64'' else ''darwin-amd64'')
         else (if arm then ''linux-arm64'' else ''linux-amd64''))"

section \<open>The download\<close>

text \<open>
  Digests are computed once for a platform. \<open>read_ok\<close> says whether reading the executable works; the result is the cache and
  the digest, if there is one.
\<close>

type_synonym digestCache = "(string, string) gomap"

definition digestFor :: "(string \<Rightarrow> string) \<Rightarrow> binaries \<Rightarrow> bool \<Rightarrow> string \<Rightarrow> digestCache \<Rightarrow> digestCache \<times> string option" where
  "digestFor sha bins read_ok i c =
     (case get c i of
        Some d \<Rightarrow> (c, Some d)
      | None \<Rightarrow>
          (case dist_Open bins i of
             None \<Rightarrow> (c, None)
           | Some b \<Rightarrow> if \<not> read_ok then (c, None) else (put i (sha b) c, Some (sha b))))"

record agentDownload =
  dl_Size :: int
  dl_Filename :: string
  dl_Signature :: string
  dl_Pubkey :: string
  dl_Body :: string

record dist_env =
  dt_hosts :: henv
  dt_read :: bool

text \<open>The header of the signature is empty when the server has no signing key.\<close>

definition downloadAgentHandler ::
  "ed25519 \<Rightarrow> (string \<Rightarrow> string) \<Rightarrow> binaries \<Rightarrow> signer option \<Rightarrow> dist_env \<Rightarrow> string \<Rightarrow> string \<Rightarrow> string
     \<Rightarrow> hosts \<times> digestCache \<Rightarrow> (hosts \<times> digestCache) \<times> (int + agentDownload)" where
  "downloadAgentHandler E sha bins sg ev token query ua = (\<lambda>(hs, c).
     (if token = [] then ((hs, c), Inl 401)
      else case ResolveToken sha (dt_hosts ev) token hs of
        (hs, Inl e) \<Rightarrow> ((hs, c), Inl (if e = herr.ErrTombstoned then 410 else if e = herr.ErrArchived then 403
            else if e = herr.ErrNotFound then 403 else 500))
      | (hs, Inr _) \<Rightarrow>
          (let i = (if query = [] then PlatformFromUserAgent ua else query)
           in case dist_Lookup bins i of
                None \<Rightarrow> ((hs, c), Inl 404)
              | Some p \<Rightarrow>
             (case digestFor sha bins (dt_read ev) i c of
                (c, None) \<Rightarrow> ((hs, c), Inl 500)
              | (c, Some digest) \<Rightarrow>
             (case dist_Open bins i of
                None \<Rightarrow> ((hs, c), Inl 500)
              | Some b \<Rightarrow> ((hs, c), Inr \<lparr>dl_Size = pl_Size p, dl_Filename = pl_Filename p,
                  dl_Signature = (case sg of None \<Rightarrow> [] | Some s \<Rightarrow> SignDigest E s digest),
                  dl_Pubkey = (case sg of None \<Rightarrow> [] | Some s \<Rightarrow> PublicKeyHex s), dl_Body = b\<rparr>))))))"

section \<open>What is sent is what was signed\<close>

definition cache_of :: "(string \<Rightarrow> string) \<Rightarrow> binaries \<Rightarrow> digestCache \<Rightarrow> bool" where
  "cache_of sha bins c \<longleftrightarrow> (\<forall>i d. get c i = Some d \<longrightarrow> map_option sha (dist_Open bins i) = Some d)"

lemma cache_of_Nil [simp]: "cache_of sha bins []"
  by (simp add: cache_of_def)

lemma digestFor_sound:
  assumes "cache_of sha bins c" "digestFor sha bins ok i c = (c', r)"
  shows "cache_of sha bins c' \<and> (\<forall>d. r = Some d \<longrightarrow> map_option sha (dist_Open bins i) = Some d)"
  using assms by (auto simp: digestFor_def cache_of_def split: option.splits if_splits)

lemma download_cache:
  "snd (fst (downloadAgentHandler E sha bins sg ev token query ua (hs, c))) =
     (if token = [] \<or> (\<exists>e. snd (ResolveToken sha (dt_hosts ev) token hs) = Inl e) \<or>
         dist_Lookup bins (if query = [] then PlatformFromUserAgent ua else query) = None then c
      else fst (digestFor sha bins (dt_read ev) (if query = [] then PlatformFromUserAgent ua else query) c))"
  by (simp add: downloadAgentHandler_def Let_def case_prod_beta split: option.split sum.split)

lemma download_keeps_cache:
  "cache_of sha bins c \<Longrightarrow> cache_of sha bins (snd (fst (downloadAgentHandler E sha bins sg ev token query ua (hs, c))))"
  unfolding download_cache
  using digestFor_sound [of sha bins c "dt_read ev" "if query = [] then PlatformFromUserAgent ua else query"]
  by (simp add: prod_eq_iff)

lemma download_cases:
  assumes "downloadAgentHandler E sha bins sg ev token query ua (hs, c) = (y, Inr d)"
  obtains p digest i h where "dist_Lookup bins i = Some p" "snd (digestFor sha bins (dt_read ev) i c) = Some digest"
    "dist_Open bins i = Some (dl_Body d)" "i = (if query = [] then PlatformFromUserAgent ua else query)"
    "snd (ResolveToken sha (dt_hosts ev) token hs) = Inr h" "dl_Size d = pl_Size p"
    "dl_Signature d = (case sg of None \<Rightarrow> [] | Some s \<Rightarrow> SignDigest E s digest)" "dl_Filename d = pl_Filename p"
proof -
  define i where "i = (if query = [] then PlatformFromUserAgent ua else query)"
  obtain hs' h where h: "ResolveToken sha (dt_hosts ev) token hs = (hs', Inr h)"
    using assms by (auto simp: downloadAgentHandler_def split: prod.splits sum.splits if_splits)
  then obtain p where p: "dist_Lookup bins i = Some p"
    using assms by (auto simp: downloadAgentHandler_def i_def [symmetric] Let_def split: option.splits if_splits)
  obtain c' digest where c: "digestFor sha bins (dt_read ev) i c = (c', Some digest)"
    using assms h p by (auto simp: downloadAgentHandler_def i_def [symmetric] Let_def split: prod.splits option.splits if_splits)
  obtain b where b: "dist_Open bins i = Some b"
    using assms h p c by (auto simp: downloadAgentHandler_def i_def [symmetric] Let_def split: option.splits if_splits)
  have d: "d = \<lparr>dl_Size = pl_Size p, dl_Filename = pl_Filename p,
      dl_Signature = (case sg of None \<Rightarrow> [] | Some s \<Rightarrow> SignDigest E s digest),
      dl_Pubkey = (case sg of None \<Rightarrow> [] | Some s \<Rightarrow> PublicKeyHex s), dl_Body = b\<rparr>"
    using assms h p c b by (simp add: downloadAgentHandler_def i_def [symmetric] split: if_splits)
  show ?thesis
  proof (rule that)
    show "dist_Lookup bins i = Some p" by (fact p)
    show "snd (digestFor sha bins (dt_read ev) i c) = Some digest" by (simp add: c)
    show "dist_Open bins i = Some (dl_Body d)" by (simp add: b d)
    show "i = (if query = [] then PlatformFromUserAgent ua else query)" by (fact i_def)
    show "snd (ResolveToken sha (dt_hosts ev) token hs) = Inr h" by (simp add: h)
  qed (simp_all add: d)
qed

lemma Open_size: "\<lbrakk>dist_Lookup bins i = Some p; dist_Open bins i = Some b\<rbrakk> \<Longrightarrow> pl_Size p = int (length b)"
  by (auto simp: dist_Open_def dist_Lookup_def embedded_def split: option.splits)

lemma download_signed:
  assumes "cache_of sha bins c" "downloadAgentHandler E sha bins (Some s) ev token query ua (hs, c) = (y, Inr d)"
  shows "dl_Signature d = SignDigest E s (sha (dl_Body d)) \<and> dl_Size d = int (length (dl_Body d)) \<and>
    dist_Open bins (if query = [] then PlatformFromUserAgent ua else query) = Some (dl_Body d) \<and>
    (\<exists>h. snd (ResolveToken sha (dt_hosts ev) token hs) = Inr h)"
  using assms(2)
proof (rule download_cases)
  fix p digest i h
  assume a: "dist_Lookup bins i = Some p" "snd (digestFor sha bins (dt_read ev) i c) = Some digest"
    "dist_Open bins i = Some (dl_Body d)" "i = (if query = [] then PlatformFromUserAgent ua else query)"
    "snd (ResolveToken sha (dt_hosts ev) token hs) = Inr h" "dl_Size d = pl_Size p"
    "dl_Signature d = (case Some s of None \<Rightarrow> [] | Some s \<Rightarrow> SignDigest E s digest)"
  have "digest = sha (dl_Body d)"
    using digestFor_sound [OF assms(1), of "dt_read ev" i] a(2,3) by (metis option.inject option.map(2) prod.collapse)
  with a Open_size [OF a(1,3)] show ?thesis by auto
qed

text \<open>The platform an agent names in its user agent is the one it asks for.\<close>

lemma own_platform_recognised:
  "list_all (\<lambda>p. PlatformFromUserAgent (''sm-agent-upgrade/'' @ pl_ID p) = pl_ID p) platforms"
  by code_simp

end
