(* ===== verification/Agent_Upgrade.thy ===== *)
theory Agent_Upgrade
  imports Agent_Dist Version Transport Direct_Prefix
begin

text \<open>
  The upgrade of an agent (\<open>internal/agent/upgrade\<close>, \<open>pkg/version\<close> and the loop over control updates in \<open>cmd/agent/main.go\<close>): the
  download, its verification, the replacement of the executable on Unix and Windows, and the promotion of the resident executable to
  the privileged copy. The file system is a map from paths to files, the operating system's answers are an environment.
\<close>

section \<open>Files and directories\<close>

record afile =
  af_data :: string
  af_perm :: int
  af_root :: bool

type_synonym files = "string \<Rightarrow> afile option"

record dirinfo =
  di_IsDir :: bool
  di_Sticky :: bool
  di_Perm :: int
  di_Uid :: int
  di_Gid :: int

type_synonym dirs = "string \<Rightarrow> dirinfo option"

text \<open>\<open>filepath.Dir\<close> of a clean Unix path.\<close>

definition slash :: char where "slash = CHR ''/''"

definition strip_slashes :: "string \<Rightarrow> string" where
  "strip_slashes s = rev (dropWhile (\<lambda>c. c = slash) (rev s))"

definition path_Dir :: "string \<Rightarrow> string" where
  "path_Dir p = (let d = rev (dropWhile (\<lambda>c. c \<noteq> slash) (rev p))
     in if d = [] then ''.'' else if strip_slashes d = [] then [slash] else strip_slashes d)"

datatype dir_err =
    StatFailed string
  | NotDirectory string
  | WorldWritable string
  | GroupWritable string
  | NotRootOwned string
  | NotRegular
  | KeyWritable

definition dir_measure :: "string \<Rightarrow> nat" where
  "dir_measure p = (if p = ''.'' then 0 else if p = [] then 1 else Suc (length p))"

lemma length_strip_slashes: "length (strip_slashes s) \<le> length s"
  using length_dropWhile_le [of "\<lambda>c. c = slash" "rev s"] by (simp add: strip_slashes_def)

lemma path_Dir_shorter [simp]:
  assumes "path_Dir p \<noteq> p"
  shows "dir_measure (path_Dir p) < dir_measure p"
proof -
  define d where "d = rev (dropWhile (\<lambda>c. c \<noteq> slash) (rev p))"
  have len: "length d \<le> length p" using length_dropWhile_le [of "\<lambda>c. c \<noteq> slash" "rev p"] by (simp add: d_def)
  have last: "d \<noteq> [] \<Longrightarrow> last d = slash" using hd_dropWhile [of "\<lambda>c. c \<noteq> slash" "rev p"] by (auto simp: d_def last_rev)
  show ?thesis
  proof (cases "d = []")
    case True
    then have "path_Dir p = ''.''" by (simp add: path_Dir_def flip: d_def)
    with assms show ?thesis by (auto simp: dir_measure_def)
  next
    case False
    then obtain e where e: "d = e @ [slash]" using last by (metis append_butlast_last_id)
    have less: "length (strip_slashes d) < length d"
      using length_strip_slashes [of e] by (simp add: e strip_slashes_def)
    have dot: "p \<noteq> ''.''" using False by (auto simp: d_def slash_def)
    show ?thesis
    proof (cases "strip_slashes d = []")
      case True
      then have "path_Dir p = [slash]" using False by (simp add: path_Dir_def flip: d_def)
      moreover have "p \<noteq> []" using False by (auto simp: d_def)
      moreover have "length p \<noteq> 1"
      proof
        assume "length p = 1"
        then obtain c where "p = [c]" by (cases p) auto
        with False assms \<open>path_Dir p = [slash]\<close> show False by (auto simp: d_def split: if_splits)
      qed
      ultimately show ?thesis using dot by (cases p) (auto simp: dir_measure_def slash_def)
    next
      case strip: False
      then have "path_Dir p = strip_slashes d" using False by (simp add: path_Dir_def flip: d_def)
      with strip less len dot show ?thesis by (auto simp: dir_measure_def)
    qed
  qed
qed

text \<open>
  \<open>verifyDirSafe\<close>: no directory from the one of the executable up to the root may be writable by others, unless it is sticky, nor by
  a group that is not the agent's own.
\<close>

definition unsafe_dir :: "int \<Rightarrow> dirs \<Rightarrow> string \<Rightarrow> dir_err option" where
  "unsafe_dir egid ds cur =
     (case ds cur of
        None \<Rightarrow> Some (StatFailed cur)
      | Some fi \<Rightarrow>
          if di_Sticky fi then None
          else if bit (di_Perm fi) 1 then Some (WorldWritable cur)
          else if bit (di_Perm fi) 4 \<and> di_Gid fi \<noteq> egid then Some (GroupWritable cur)
          else None)"

definition not_root_owned :: "dirs \<Rightarrow> string \<Rightarrow> dir_err option" where
  "not_root_owned ds cur =
     (case ds cur of
        None \<Rightarrow> Some (StatFailed cur)
      | Some fi \<Rightarrow>
          if \<not> di_IsDir fi then Some (NotDirectory cur)
          else if di_Uid fi \<noteq> 0 then Some (NotRootOwned cur)
          else if bit (di_Perm fi) 4 \<or> bit (di_Perm fi) 1 then Some (GroupWritable cur)
          else None)"

function walk_up :: "(string \<Rightarrow> dir_err option) \<Rightarrow> string \<Rightarrow> dir_err option" where
  "walk_up check cur =
     (case check cur of
        Some e \<Rightarrow> Some e
      | None \<Rightarrow> if path_Dir cur = cur then None else walk_up check (path_Dir cur))"
  by auto
termination by (relation "measure (\<lambda>(_, p). dir_measure p)") auto

declare walk_up.simps [simp del]

definition verifyDirSafe :: "bool \<Rightarrow> int \<Rightarrow> dirs \<Rightarrow> string \<Rightarrow> dir_err option" where
  "verifyDirSafe windows egid ds dir =
     (if windows then None
      else case ds dir of
        None \<Rightarrow> Some (StatFailed dir)
      | Some fi \<Rightarrow> if \<not> di_IsDir fi then Some (NotDirectory dir) else walk_up (unsafe_dir egid ds) dir)"

definition verifyRootOwnedPath :: "bool \<Rightarrow> dirs \<Rightarrow> string \<Rightarrow> dir_err option" where
  "verifyRootOwnedPath windows ds dir = (if windows then None else walk_up (not_root_owned ds) dir)"

record keyinfo =
  ki_Regular :: bool
  ki_Perm :: int
  ki_Uid :: int

definition verifyPinnedKeyFile :: "bool \<Rightarrow> dirs \<Rightarrow> (string \<Rightarrow> keyinfo option) \<Rightarrow> string \<Rightarrow> dir_err option" where
  "verifyPinnedKeyFile windows ds ks path =
     (case verifyRootOwnedPath windows ds (path_Dir path) of
        Some e \<Rightarrow> Some e
      | None \<Rightarrow>
     (case ks path of
        None \<Rightarrow> Some (StatFailed path)
      | Some ki \<Rightarrow>
          if \<not> ki_Regular ki then Some NotRegular
          else if \<not> windows \<and> ki_Uid ki \<noteq> 0 then Some (NotRootOwned path)
          else if \<not> windows \<and> (bit (ki_Perm ki) 4 \<or> bit (ki_Perm ki) 1) then Some KeyWritable
          else None))"

section \<open>Replacing the executable\<close>

definition remove_file :: "bool \<Rightarrow> string \<Rightarrow> files \<Rightarrow> files" where
  "remove_file ok p fs = (if ok then fs(p := None) else fs)"

definition rename_file :: "bool \<Rightarrow> string \<Rightarrow> string \<Rightarrow> files \<Rightarrow> files option" where
  "rename_file ok a b fs = (case fs a of None \<Rightarrow> None | Some f \<Rightarrow> if ok then Some (fs(a := None, b := Some f)) else None)"

text \<open>The outcomes of the attempts are a function of how many attempts are left.\<close>

primrec rename_attempts :: "nat \<Rightarrow> (nat \<Rightarrow> bool) \<Rightarrow> string \<Rightarrow> string \<Rightarrow> files \<Rightarrow> files option" where
  "rename_attempts 0 oks a b fs = None"
| "rename_attempts (Suc n) oks a b fs =
     (case rename_file (oks n) a b fs of Some fs' \<Rightarrow> Some fs' | None \<Rightarrow> rename_attempts n oks a b fs)"

definition renameWithRetry :: "(nat \<Rightarrow> bool) \<Rightarrow> string \<Rightarrow> string \<Rightarrow> files \<Rightarrow> files option" where
  "renameWithRetry = rename_attempts 10"

datatype swap_err = RenameRunning | InstallNew | RollbackFailed

text \<open>
  What the operating system answers: whether a call works, whether the process runs as root, in \<open>ue_broken\<close> after how many bytes
  copying fails, in \<open>ue_mid\<close> what others make of the staged file before it is read again, and in \<open>ue_late\<close> what they make of
  it between this and its renaming.
\<close>

record os_env =
  ue_clean :: bool
  ue_remove :: bool
  ue_open :: bool
  ue_root :: bool
  ue_broken :: "nat option"
  ue_sync :: bool
  ue_close :: bool
  ue_chmod :: bool
  ue_chown :: bool
  ue_mid :: "afile option \<Rightarrow> afile option"
  ue_late :: "afile option \<Rightarrow> afile option"
  ue_reopen :: bool
  ue_old :: bool
  ue_rename1 :: "nat \<Rightarrow> bool"
  ue_rename2 :: "nat \<Rightarrow> bool"
  ue_rename3 :: "nat \<Rightarrow> bool"
  ue_sigWrite :: bool
  ue_sigChmod :: bool
  ue_sigRename :: bool
  ue_converge :: bool

definition swap_binary :: "bool \<Rightarrow> os_env \<Rightarrow> string \<Rightarrow> string \<Rightarrow> files \<Rightarrow> files \<times> swap_err option" where
  "swap_binary windows ev self new fs =
     (if windows then
        (let old = self @ ''.old''; fs = remove_file (ue_old ev) old fs
         in case renameWithRetry (ue_rename1 ev) self old fs of
              None \<Rightarrow> (fs, Some RenameRunning)
            | Some fs1 \<Rightarrow>
                (case renameWithRetry (ue_rename2 ev) new self fs1 of
                   Some fs2 \<Rightarrow> (fs2, None)
                 | None \<Rightarrow>
                     (case renameWithRetry (ue_rename3 ev) old self fs1 of
                        None \<Rightarrow> (fs1, Some RollbackFailed)
                      | Some fs3 \<Rightarrow> (fs3, Some InstallNew))))
      else case rename_file (ue_rename1 ev 0) new self fs of
        None \<Rightarrow> (fs, Some InstallNew)
      | Some fs' \<Rightarrow> (fs', None))"

definition verifyStagedBinary :: "(string \<Rightarrow> string) \<Rightarrow> bool \<Rightarrow> string \<Rightarrow> string \<Rightarrow> files \<Rightarrow> bool" where
  "verifyStagedBinary sha reopen path want fs =
     (case fs path of None \<Rightarrow> False | Some f \<Rightarrow> reopen \<and> sha (af_data f) = want)"

definition maxAgentBinaryBytes :: nat where "maxAgentBinaryBytes = 268435456"

definition set_perm :: "int \<Rightarrow> string \<Rightarrow> files \<Rightarrow> files" where
  "set_perm m p fs = fs(p := map_option (\<lambda>f. f\<lparr>af_perm := m\<rparr>) (fs p))"

definition set_root :: "string \<Rightarrow> files \<Rightarrow> files" where
  "set_root p fs = fs(p := map_option (\<lambda>f. f\<lparr>af_root := True\<rparr>) (fs p))"

definition disturb :: "(afile option \<Rightarrow> afile option) \<Rightarrow> string \<Rightarrow> files \<Rightarrow> files" where
  "disturb m p fs = fs(p := m (fs p))"

definition writeSignatureAtomic :: "os_env \<Rightarrow> string \<Rightarrow> string \<Rightarrow> files \<Rightarrow> files \<times> bool" where
  "writeSignatureAtomic ev path signature fs =
     (let tmp = path @ ''.tmp''
      in if \<not> ue_sigWrite ev then (fs, False)
         else (let fs = fs(tmp := Some \<lparr>af_data = trim_space signature @ [CHR 0x0A], af_perm = 384, af_root = ue_root ev\<rparr>)
           in if \<not> ue_sigChmod ev then (remove_file (ue_remove ev) tmp fs, False)
              else case rename_file (ue_sigRename ev) tmp path fs of
                None \<Rightarrow> (remove_file (ue_remove ev) tmp fs, False)
              | Some fs' \<Rightarrow> (fs', True)))"

section \<open>The upgrade of the resident agent\<close>

record request =
  rq_base :: string
  rq_platform :: string
  rq_token :: string
  rq_agent :: string

record response =
  rp_Status :: int
  rp_Signature :: string
  rp_Body :: string

datatype up_err =
    UpSig sig_err
  | LocateSelf
  | DirUnsafe dir_err
  | BadURL
  | DownloadFailed
  | DownloadStatus int
  | OpenTemp
  | WriteTemp
  | SyncTemp
  | CloseTemp
  | TooLarge
  | TooSmall
  | ChmodStaged
  | StagedChanged
  | SwapFailed swap_err
  | ReadPubkey
  | ReadSignature
  | SignatureTooLarge
  | VersionFailed
  | StatTarget
  | ChmodTarget

record upOptions =
  uo_ServerURL :: string
  uo_Token :: string
  uo_ServerPubkey :: string

text \<open>
  What \<open>Run\<close> is compiled with and finds when it starts: \<open>ru_self\<close> is the resolved path of the executable,
  \<open>ru_url\<close> says whether the URL can be parsed and \<open>ru_do\<close> is the exchange with the server, which has no response when it
  fails or redirects.
\<close>

record run_env =
  ru_windows :: bool
  ru_platform :: string
  ru_self :: "string option"
  ru_egid :: int
  ru_dirs :: dirs
  ru_url :: bool
  ru_do :: "request \<Rightarrow> response option"
  ru_os :: os_env

definition download_request :: "run_env \<Rightarrow> upOptions \<Rightarrow> request" where
  "download_request rv opts = \<lparr>rq_base = trim_right [slash] (uo_ServerURL opts) @ ''/api/v1/agent/binary'', rq_platform = ru_platform rv,
     rq_token = uo_Token opts, rq_agent = ''sm-agent-upgrade/'' @ ru_platform rv\<rparr>"

text \<open>What a file that is opened for writing and, if it is new, created with a mode holds after the copy.\<close>

definition written :: "os_env \<Rightarrow> int \<Rightarrow> string \<Rightarrow> afile option \<Rightarrow> afile" where
  "written ev perm data old =
     (let d = (case ue_broken ev of None \<Rightarrow> data | Some n \<Rightarrow> take n data)
      in case old of None \<Rightarrow> \<lparr>af_data = d, af_perm = perm, af_root = ue_root ev\<rparr> | Some f \<Rightarrow> f\<lparr>af_data := d\<rparr>)"

text \<open>From the open temporary file to the verified one; the temporary file is left for the caller to remove on an error.\<close>

definition stage_download :: "ed25519 \<Rightarrow> (string \<Rightarrow> string) \<Rightarrow> bool \<Rightarrow> os_env \<Rightarrow> string \<Rightarrow> response \<Rightarrow> string \<Rightarrow> files \<Rightarrow> files \<times> up_err option" where
  "stage_download E sha windows ev pubkey rp new fs =
     (let data = take (maxAgentBinaryBytes + 1) (rp_Body rp); want = sha data;
          fs = fs(new := Some (written ev 493 data (fs new)))
      in if ue_broken ev \<noteq> None then (fs, Some WriteTemp)
         else if \<not> ue_sync ev then (fs, Some SyncTemp)
         else if \<not> ue_close ev then (fs, Some CloseTemp)
         else if maxAgentBinaryBytes < length data then (fs, Some TooLarge)
         else if length data < 1024 then (fs, Some TooSmall)
         else case Verify E pubkey (rp_Signature rp) want of
           Some e \<Rightarrow> (fs, Some (UpSig e))
         | None \<Rightarrow>
             if \<not> windows \<and> \<not> ue_chmod ev then (fs, Some ChmodStaged)
             else (let fs = disturb (ue_mid ev) new (if windows then fs else set_perm 320 new fs)
               in if verifyStagedBinary sha (ue_reopen ev) new want fs then (fs, None) else (fs, Some StagedChanged)))"

text \<open>From the response to the replaced executable; the file that is renamed is not looked at again.\<close>

definition install_download ::
  "ed25519 \<Rightarrow> (string \<Rightarrow> string) \<Rightarrow> bool \<Rightarrow> os_env \<Rightarrow> string \<Rightarrow> string \<Rightarrow> response \<Rightarrow> files \<Rightarrow> files \<times> up_err option" where
  "install_download E sha windows ev pubkey self rp fs =
     (let new = self @ ''.new''; fs = remove_file (ue_clean ev) new fs
      in if \<not> ue_open ev then (fs, Some OpenTemp)
         else case stage_download E sha windows ev pubkey rp new fs of
           (fs, Some e) \<Rightarrow> (remove_file (ue_remove ev) new fs, Some e)
         | (fs, None) \<Rightarrow>
        (case swap_binary windows ev self new (disturb (ue_late ev) new fs) of
           (fs, Some e) \<Rightarrow> (remove_file (ue_remove ev) new fs, Some (SwapFailed e))
         | (fs, None) \<Rightarrow> (fst (writeSignatureAtomic ev (self @ ''.sig'') (rp_Signature rp) fs), None)))"

definition upgrade_Run :: "ed25519 \<Rightarrow> (string \<Rightarrow> string) \<Rightarrow> run_env \<Rightarrow> upOptions \<Rightarrow> files \<Rightarrow> files \<times> up_err option" where
  "upgrade_Run E sha rv opts fs =
     (if trim_space (uo_ServerPubkey opts) = [] then (fs, Some (UpSig ErrUnknownPubkey))
      else case ru_self rv of
           None \<Rightarrow> (fs, Some LocateSelf)
         | Some self \<Rightarrow>
        (case verifyDirSafe (ru_windows rv) (ru_egid rv) (ru_dirs rv) (path_Dir self) of
           Some e \<Rightarrow> (fs, Some (DirUnsafe e))
         | None \<Rightarrow>
             if \<not> ru_url rv then (fs, Some BadURL)
             else case ru_do rv (download_request rv opts) of
               None \<Rightarrow> (fs, Some DownloadFailed)
             | Some rp \<Rightarrow>
                 if rp_Status rp < 200 \<or> 300 \<le> rp_Status rp then (fs, Some (DownloadStatus (rp_Status rp)))
                 else if rp_Signature rp = [] then (fs, Some (UpSig ErrNoSignature))
                 else install_download E sha (ru_windows rv) (ru_os rv) (uo_ServerPubkey opts) self rp fs))"

section \<open>The privileged copy\<close>

text \<open>\<open>strings.Fields\<close>: \<open>acc\<close> is the current field, reversed.\<close>

definition flush_field :: "string \<Rightarrow> string list" where
  "flush_field acc = (if acc = [] then [] else [rev acc])"

function fields_loop :: "string \<Rightarrow> string \<Rightarrow> string list" where
  "fields_loop acc [] = flush_field acc"
| "fields_loop acc (c # s) =
     (if space_len (c # s) = 0 then fields_loop (c # acc) s
      else flush_field acc @ fields_loop [] (drop (space_len (c # s)) (c # s)))"
  by pat_completeness auto
termination by (relation "measure (\<lambda>(_, s). length s)") auto

definition stagedAgentVersion :: "(string \<Rightarrow> string option) \<Rightarrow> string \<Rightarrow> string option" where
  "stagedAgentVersion exec data =
     (case exec data of
        None \<Rightarrow> None
      | Some out \<Rightarrow>
          (case fields_loop [] (trim_space out) of
             [name, v] \<Rightarrow> if name \<noteq> ''sm-agent'' \<or> v = [] then None else Some v
           | _ \<Rightarrow> None))"

text \<open>The name of the staged file keeps the extension on Windows, where only \<open>.exe\<close> files can be run.\<close>

definition stagedPath :: "bool \<Rightarrow> string \<Rightarrow> string" where
  "stagedPath windows self =
     (if windows \<and> 4 \<le> length self \<and> lower_ascii (drop (length self - 4) self) = ''.exe''
      then take (length self - 4) self @ ''.new.exe'' else self @ ''.new'')"

definition copyStagedBinary :: "(string \<Rightarrow> string) \<Rightarrow> os_env \<Rightarrow> string \<Rightarrow> string \<Rightarrow> files \<Rightarrow> files \<times> (up_err + string)" where
  "copyStagedBinary sha ev src staged fs =
     (case fs src of
        None \<Rightarrow> (fs, Inl OpenTemp)
      | Some f \<Rightarrow>
          if \<not> ue_open ev \<or> fs staged \<noteq> None then (fs, Inl OpenTemp)
          else (let data = take (maxAgentBinaryBytes + 1) (af_data f);
                    fs = fs(staged := Some (written ev 448 data None))
            in if ue_broken ev \<noteq> None then (fs, Inl WriteTemp)
               else if \<not> ue_sync ev then (fs, Inl SyncTemp)
               else if \<not> ue_close ev then (fs, Inl CloseTemp)
               else if maxAgentBinaryBytes < length data then (fs, Inl TooLarge)
               else if length data < 1024 then (fs, Inl TooSmall)
               else (fs, Inr (sha data))))"

definition convergePrivilegedTarget :: "bool \<Rightarrow> os_env \<Rightarrow> string \<Rightarrow> files \<Rightarrow> files \<times> (up_err + bool)" where
  "convergePrivilegedTarget windows ev path fs =
     (case fs path of
        None \<Rightarrow> (fs, Inl StatTarget)
      | Some f \<Rightarrow>
          (let wrong = (\<not> windows \<and> af_perm f \<noteq> 493)
           in if wrong \<and> \<not> ue_converge ev then (fs, Inl ChmodTarget)
              else (let fs = (if wrong then set_perm 493 path fs else fs);
                        own = (\<not> windows \<and> ue_root ev \<and> \<not> af_root f \<and> ue_chown ev)
                    in (if own then set_root path fs else fs, Inr (wrong \<or> own)))))"

text \<open>
  What a privileged job finds: \<open>pr_version\<close> is the version it was built with, \<open>pr_exec\<close> what an executable prints for
  \<open>--version\<close>, if it can be run.
\<close>

record priv_env =
  pr_windows :: bool
  pr_self :: "string option"
  pr_egid :: int
  pr_dirs :: dirs
  pr_keys :: "string \<Rightarrow> keyinfo option"
  pr_version :: string
  pr_exec :: "string \<Rightarrow> string option"
  pr_readKey :: bool
  pr_readSig :: bool
  pr_os :: os_env

text \<open>From the staged copy to the verified one with its version.\<close>

definition stage_privileged ::
  "ed25519 \<Rightarrow> (string \<Rightarrow> string) \<Rightarrow> priv_env \<Rightarrow> string \<Rightarrow> string \<Rightarrow> string \<Rightarrow> string \<Rightarrow> files \<Rightarrow> files \<times> (up_err + string)" where
  "stage_privileged E sha pv pubkey sig src new fs =
     (let ev = pr_os pv
      in case copyStagedBinary sha ev src new fs of
        (fs, Inl e) \<Rightarrow> (fs, Inl e)
      | (fs, Inr digest) \<Rightarrow>
     (case Verify E (trim_space pubkey) (trim_space sig) digest of
        Some e \<Rightarrow> (fs, Inl (UpSig e))
      | None \<Rightarrow>
          if \<not> pr_windows pv \<and> \<not> ue_chmod ev then (fs, Inl ChmodStaged)
          else (let fs = (if pr_windows pv then fs else set_perm 493 new fs);
                    fs = (if \<not> pr_windows pv \<and> ue_root ev \<and> ue_chown ev then set_root new fs else fs);
                    fs = disturb (ue_mid ev) new fs
            in if \<not> verifyStagedBinary sha (ue_reopen ev) new digest fs then (fs, Inl StagedChanged)
               else case stagedAgentVersion (pr_exec pv) (af_data (the (fs new))) of
                 None \<Rightarrow> (fs, Inl VersionFailed)
               | Some v \<Rightarrow> (fs, Inr v))))"

text \<open>The last steps of a synchronisation, after the copy has been verified.\<close>

definition finish_sync :: "priv_env \<Rightarrow> string \<Rightarrow> string \<Rightarrow> string \<Rightarrow> files \<Rightarrow> files \<times> (up_err + bool)" where
  "finish_sync pv self new v fs =
     (if \<not> IsNewer v (pr_version pv) then
        (case convergePrivilegedTarget (pr_windows pv) (pr_os pv) self (remove_file (ue_remove (pr_os pv)) new fs) of
           (fs, Inl e) \<Rightarrow> (fs, Inl e)
         | (fs, Inr _) \<Rightarrow> (fs, Inr False))
      else (case swap_binary (pr_windows pv) (pr_os pv) self new fs of
           (fs, Some e) \<Rightarrow> (remove_file (ue_remove (pr_os pv)) new fs, Inl (SwapFailed e))
         | (fs, None) \<Rightarrow> (fs, Inr True)))"

definition syncPrivilegedTarget ::
  "ed25519 \<Rightarrow> (string \<Rightarrow> string) \<Rightarrow> priv_env \<Rightarrow> string \<Rightarrow> string \<Rightarrow> string \<Rightarrow> string \<Rightarrow> files \<Rightarrow> files \<times> (up_err + bool)" where
  "syncPrivilegedTarget E sha pv self src sigp keyp fs =
     (let ev = pr_os pv; new = stagedPath (pr_windows pv) self
      in case fs keyp of
        None \<Rightarrow> (fs, Inl ReadPubkey)
      | Some key \<Rightarrow>
     (if \<not> pr_readKey pv then (fs, Inl ReadPubkey)
      else case fs sigp of
        None \<Rightarrow> (fs, Inr False)
      | Some sig \<Rightarrow>
     (if \<not> pr_readSig pv then (fs, Inl ReadSignature)
      else if 4096 < length (af_data sig) then (fs, Inl SignatureTooLarge)
      else case stage_privileged E sha pv (af_data key) (af_data sig) src new (remove_file (ue_clean ev) new fs) of
        (fs, Inl e) \<Rightarrow> (remove_file (ue_remove ev) new fs, Inl e)
      | (fs, Inr v) \<Rightarrow> finish_sync pv self new v fs)))"

definition SyncPrivileged ::
  "ed25519 \<Rightarrow> (string \<Rightarrow> string) \<Rightarrow> priv_env \<Rightarrow> string \<Rightarrow> string \<Rightarrow> string \<Rightarrow> files \<Rightarrow> files \<times> (up_err + bool)" where
  "SyncPrivileged E sha pv src sigp keyp fs =
     (case pr_self pv of
        None \<Rightarrow> (fs, Inl LocateSelf)
      | Some self \<Rightarrow>
     (case verifyDirSafe (pr_windows pv) (pr_egid pv) (pr_dirs pv) (path_Dir self) of
        Some e \<Rightarrow> (fs, Inl (DirUnsafe e))
      | None \<Rightarrow>
     (case verifyRootOwnedPath (pr_windows pv) (pr_dirs pv) (path_Dir self) of
        Some e \<Rightarrow> (fs, Inl (DirUnsafe e))
      | None \<Rightarrow>
     (case verifyPinnedKeyFile (pr_windows pv) (pr_dirs pv) (pr_keys pv) keyp of
        Some e \<Rightarrow> (fs, Inl (DirUnsafe e))
      | None \<Rightarrow> syncPrivilegedTarget E sha pv self src sigp keyp fs))))"

section \<open>The loop over control updates\<close>

definition upgradeBackoff :: "int \<Rightarrow> duration" where
  "upgradeBackoff attempt =
     (if attempt < 1 then Minute
      else if 30 < attempt - 1 then Hour
      else (let d = i64 (push_bit (nat (attempt - 1)) Minute) in if d \<le> 0 \<or> Hour < d then Hour else d))"

definition setIfEmpty :: "string \<Rightarrow> string \<Rightarrow> string \<times> bool" where
  "setIfEmpty s v = (if v \<noteq> [] then (v, False) else (s, True))"

text \<open>
  \<open>ug_staged\<close> is \<open>upgradeStaged\<close>; when it is set the loop has ended and the process exits. The configuration is fixed.
\<close>

record upgrader =
  ug_failedVersion :: string
  ug_failedCount :: int
  ug_nextAttempt :: time
  ug_warnedManaged :: bool
  ug_pk :: string
  ug_staged :: bool

record agent_cfg =
  ac_managed :: bool
  ac_AutoUpgrade :: "bool option"
  ac_Version :: string
  ac_ServerURL :: string
  ac_Token :: string

definition AutoUpgradeEnabled :: "agent_cfg \<Rightarrow> bool" where
  "AutoUpgradeEnabled c = (case ac_AutoUpgrade c of None \<Rightarrow> True | Some b \<Rightarrow> b)"

record tick_env =
  te_run :: run_env
  te_now :: time
  te_after :: time
  te_update :: controlUpdate

definition pin_key :: "agent_cfg \<Rightarrow> controlUpdate \<Rightarrow> upgrader \<Rightarrow> upgrader" where
  "pin_key c upd u =
     (if cu_ServerPubkey upd \<noteq> [] \<and> \<not> ac_managed c then u\<lparr>ug_pk := fst (setIfEmpty (cu_ServerPubkey upd) (ug_pk u))\<rparr> else u)"

definition forget_failures :: "string \<Rightarrow> upgrader \<Rightarrow> upgrader" where
  "forget_failures latest u =
     (if ug_failedVersion u \<noteq> latest then u\<lparr>ug_failedVersion := [], ug_failedCount := 0, ug_nextAttempt := zero_time\<rparr> else u)"

definition attempt_upgrade :: "ed25519 \<Rightarrow> (string \<Rightarrow> string) \<Rightarrow> agent_cfg \<Rightarrow> tick_env \<Rightarrow> upgrader \<Rightarrow> files \<Rightarrow> upgrader \<times> files" where
  "attempt_upgrade E sha c te u fs =
     (case upgrade_Run E sha (te_run te) \<lparr>uo_ServerURL = ac_ServerURL c, uo_Token = ac_Token c, uo_ServerPubkey = ug_pk u\<rparr> fs of
        (fs, Some _) \<Rightarrow>
          (u\<lparr>ug_failedVersion := cu_LatestVersion (te_update te), ug_failedCount := ug_failedCount u + 1,
             ug_nextAttempt := te_after te + upgradeBackoff (ug_failedCount u + 1)\<rparr>, fs)
      | (fs, None) \<Rightarrow> (u\<lparr>ug_staged := True\<rparr>, fs))"

text \<open>
  One round of the loop; the last component says whether an upgrade was attempted. The flag \<open>upgradeInflight\<close> is never set here, as
  this loop is the only one to use it.
\<close>

definition control_step ::
  "ed25519 \<Rightarrow> (string \<Rightarrow> string) \<Rightarrow> agent_cfg \<Rightarrow> tick_env \<Rightarrow> upgrader \<times> files \<Rightarrow> (upgrader \<times> files) \<times> bool" where
  "control_step E sha c te = (\<lambda>(u, fs).
     (if ug_staged u then ((u, fs), False)
      else let upd = te_update te; u = pin_key c upd u; latest = cu_LatestVersion upd
      in if latest = [] \<or> \<not> IsNewer latest (ac_Version c) then ((u, fs), False)
         else if ac_managed c then ((u\<lparr>ug_warnedManaged := True\<rparr>, fs), False)
         else (let auto = (case cu_AutoUpgrade upd of None \<Rightarrow> AutoUpgradeEnabled c | Some b \<Rightarrow> b); forced = cu_UpgradeNow upd
           in if \<not> auto \<and> \<not> forced then ((u, fs), False)
              else (let u = forget_failures latest u
                in if \<not> forced \<and> ug_nextAttempt u \<noteq> zero_time \<and> te_now te < ug_nextAttempt u then ((u, fs), False)
                   else (attempt_upgrade E sha c te u fs, True)))))"

definition agent_life :: "ed25519 \<Rightarrow> (string \<Rightarrow> string) \<Rightarrow> agent_cfg \<Rightarrow> tick_env list \<Rightarrow> upgrader \<times> files \<Rightarrow> upgrader \<times> files" where
  "agent_life E sha c tes y = foldl (\<lambda>y te. fst (control_step E sha c te y)) y tes"

definition start_upgrader :: "string \<Rightarrow> upgrader" where
  "start_upgrader pk = \<lparr>ug_failedVersion = [], ug_failedCount = 0, ug_nextAttempt = zero_time, ug_warnedManaged = False,
     ug_pk = pk, ug_staged = False\<rparr>"

section \<open>Settings kept in the configuration file\<close>

text \<open>The file's text is replaced as a whole; the result is nothing when there is no file.\<close>

fun replace_field :: "string \<Rightarrow> string \<Rightarrow> string list \<Rightarrow> string list option" where
  "replace_field key r [] = None"
| "replace_field key r (l # ls) =
     (case cut_at (CHR ''='') l of
        (k, Some _) \<Rightarrow> if trim_space k = key then Some (r # ls) else map_option ((#) l) (replace_field key r ls)
      | (_, None) \<Rightarrow> map_option ((#) l) (replace_field key r ls))"

fun join_lines :: "string list \<Rightarrow> string" where
  "join_lines [] = []"
| "join_lines [l] = l"
| "join_lines (l # ls) = l @ CHR 0x0A # join_lines ls"

definition persistConfigField :: "string \<Rightarrow> string \<Rightarrow> string option \<Rightarrow> string option" where
  "persistConfigField key replacement file =
     map_option (\<lambda>data. let lines = split_on (CHR 0x0A) data
        in join_lines (case replace_field key replacement lines of Some ls \<Rightarrow> ls | None \<Rightarrow> lines @ [replacement])) file"

definition persistInterval :: "int \<Rightarrow> string option \<Rightarrow> string option" where
  "persistInterval s = persistConfigField ''interval_s'' (''interval_s = '' @ show_int s)"
end
