(* ===== verification/Agent_Release.thy ===== *)
theory Agent_Release
  imports Agent_Install
begin

text \<open>
  What the upgrade of agents promises as a whole: the resident executable of an agent and the privileged copy through any history, and the
  way of an executable from the server to both when nothing fails.
\<close>

section \<open>When nothing fails\<close>

definition calm :: "os_env \<Rightarrow> bool" where
  "calm ev \<longleftrightarrow> ue_clean ev \<and> ue_remove ev \<and> ue_open ev \<and> ue_broken ev = None \<and> ue_sync ev \<and> ue_close ev \<and> ue_chmod ev \<and>
     ue_mid ev = id \<and> ue_late ev = id \<and> ue_reopen ev \<and> ue_rename1 ev 0 \<and> ue_sigWrite ev \<and> ue_sigChmod ev \<and> ue_sigRename ev"

lemma install_download_calm:
  assumes "calm ev" "1024 \<le> length (rp_Body rp)" "length (rp_Body rp) \<le> maxAgentBinaryBytes"
    "Verify E pk (rp_Signature rp) (sha (rp_Body rp)) = None"
  shows "\<exists>fs'. install_download E sha False ev pk self rp fs = (fs', None) \<and>
    map_option af_data (fs' self) = Some (rp_Body rp) \<and>
    map_option af_data (fs' (self @ ''.sig'')) = Some (trim_space (rp_Signature rp) @ [CHR 0x0A]) \<and>
    (\<forall>q. q \<notin> {self, self @ ''.new'', self @ ''.sig'', self @ ''.sig.tmp''} \<longrightarrow> fs' q = fs q)"
proof -
  let ?new = "self @ ''.new''"
  define f where "f = \<lparr>af_data = rp_Body rp, af_perm = 320, af_root = ue_root ev\<rparr>"
  let ?fs1 = "(remove_file True ?new fs)(?new := Some f)"
  have st: "stage_download E sha False ev pk rp ?new (remove_file True ?new fs) = (?fs1, None)"
    using assms by (auto simp: stage_download_def Let_def written_def calm_def set_perm_def disturb_def verifyStagedBinary_def f_def
      remove_file_def fun_upd_def)
  have sw: "swap_binary False ev self ?new ?fs1 = (?fs1(?new := None, self := Some f), None)"
    using assms(1) by (simp add: swap_binary_def rename_file_def calm_def)
  show ?thesis
    using assms(1) st sw
    by (simp add: install_download_def calm_def writeSignatureAtomic_def Let_def rename_file_def f_def remove_file_def)
qed



text \<open>The server as the other end of the agent's request.\<close>

definition served :: "ed25519 \<Rightarrow> (string \<Rightarrow> string) \<Rightarrow> binaries \<Rightarrow> signer option \<Rightarrow> dist_env \<Rightarrow> hosts \<times> digestCache \<Rightarrow> request \<Rightarrow> response option" where
  "served E sha bins sg sv y rq =
     (case snd (downloadAgentHandler E sha bins sg sv (rq_token rq) (rq_platform rq) (rq_agent rq) y) of
        Inl code \<Rightarrow> Some \<lparr>rp_Status = code, rp_Signature = [], rp_Body = []\<rparr>
      | Inr d \<Rightarrow> Some \<lparr>rp_Status = 200, rp_Signature = dl_Signature d, rp_Body = dl_Body d\<rparr>)"

definition server_ready :: "(string \<Rightarrow> string) \<Rightarrow> binaries \<Rightarrow> dist_env \<Rightarrow> hosts \<Rightarrow> string \<Rightarrow> string \<Rightarrow> string \<Rightarrow> bool" where
  "server_ready sha bins sv hs token platform b \<longleftrightarrow> token \<noteq> [] \<and> \<not> isl (snd (ResolveToken sha (dt_hosts sv) token hs)) \<and>
     dt_read sv \<and> platform \<noteq> [] \<and> dist_Open bins platform = Some b \<and> 1024 \<le> length b \<and> length b \<le> maxAgentBinaryBytes"

lemma served_ready:
  assumes "server_ready sha bins sv hs (rq_token rq) (rq_platform rq) b" "cache_of sha bins c"
  shows "served E sha bins (Some s) sv (hs, c) rq = Some \<lparr>rp_Status = 200, rp_Signature = SignDigest E s (sha b), rp_Body = b\<rparr>"
proof -
  obtain hs' h where h: "ResolveToken sha (dt_hosts sv) (rq_token rq) hs = (hs', Inr h)"
    using assms(1) by (cases "ResolveToken sha (dt_hosts sv) (rq_token rq) hs"; cases "snd (ResolveToken sha (dt_hosts sv) (rq_token rq) hs)")
      (auto simp: server_ready_def)
  have b: "dist_Open bins (rq_platform rq) = Some b" "dt_read sv" "rq_token rq \<noteq> []" "rq_platform rq \<noteq> []"
    using assms(1) by (simp_all add: server_ready_def)
  obtain p where p: "dist_Lookup bins (rq_platform rq) = Some p" using b(1) by (auto simp: dist_Open_def split: option.splits)
  obtain c' r where d: "digestFor sha bins True (rq_platform rq) c = (c', r)" by fastforce
  have "r = Some (sha b)"
  proof (cases "get c (rq_platform rq)")
    case (Some x)
    then have "map_option sha (dist_Open bins (rq_platform rq)) = Some x" using assms(2) by (simp add: cache_of_def)
    with d b(1) Some show ?thesis by (simp add: digestFor_def)
  qed (use d b(1) in \<open>simp add: digestFor_def\<close>)
  then show ?thesis
    using h b p d by (simp add: served_def downloadAgentHandler_def)
qed

definition agent_ready :: "run_env \<Rightarrow> string \<Rightarrow> bool" where
  "agent_ready rv self \<longleftrightarrow> \<not> ru_windows rv \<and> ru_self rv = Some self \<and>
     verifyDirSafe False (ru_egid rv) (ru_dirs rv) (path_Dir self) = None \<and> ru_url rv \<and> calm (ru_os rv)"

lemma Run_ready:
  assumes "agent_ready rv self" "ru_do rv = served E sha bins (Some s) sv (hs, c)" "cache_of sha bins c"
    "server_ready sha bins sv hs (uo_Token opts) (ru_platform rv) b" "ed_law E" "signs_with E s seed" "uo_ServerPubkey opts = PublicKeyHex s"
  shows "\<exists>fs'. upgrade_Run E sha rv opts fs = (fs', None) \<and> map_option af_data (fs' self) = Some b \<and>
    map_option af_data (fs' (self @ ''.sig'')) = Some (SignDigest E s (sha b) @ [CHR 0x0A]) \<and>
    (\<forall>q. q \<notin> {self, self @ ''.new'', self @ ''.sig'', self @ ''.sig.tmp''} \<longrightarrow> fs' q = fs q)"
proof -
  let ?rp = "\<lparr>rp_Status = 200, rp_Signature = SignDigest E s (sha b), rp_Body = b\<rparr>"
  have do: "ru_do rv (download_request rv opts) = Some ?rp"
    unfolding assms(2) by (rule served_ready) (use assms(3,4) in \<open>simp_all add: download_request_def\<close>)
  have len: "1024 \<le> length b" "length b \<le> maxAgentBinaryBytes" using assms(4) by (simp_all add: server_ready_def)
  have sig: "SignDigest E s (sha b) \<noteq> []" using length_SignDigest [OF assms(6,5), of "sha b"] by auto
  have "upgrade_Run E sha rv opts fs = install_download E sha False (ru_os rv) (PublicKeyHex s) self ?rp fs"
    using assms(1,7) do sig PublicKeyHex_not_empty [OF assms(6,5)] by (simp add: upgrade_Run_def agent_ready_def)
  moreover have "calm (ru_os rv)" using assms(1) by (simp add: agent_ready_def)
  ultimately show ?thesis
    using install_download_calm [of "ru_os rv" ?rp E "PublicKeyHex s" sha self fs] len Verify_Sign [OF assms(6,5), of "sha b"]
      Verify_Sign_files(3) [OF assms(6,5), of "sha b"] by simp
qed



section \<open>The properties\<close>


text \<open>
  C19. Only signed executables. Whatever updates and downloads an agent gets, whatever calls fail and whatever others do to the
  staged file until it is read again, its executable stays as it was or becomes one that is signed under the key the agent has
  pinned: the configured one or else one that an update announced. It is missing only after an upgrade on Windows in which every
  attempt to put the old executable back failed, and an externally managed agent changes nothing. Others must leave the
  staged file alone between its last check and its renaming; \<open>late_change_installed\<close> below shows what happens otherwise.
\<close>

theorem installed_agent_is_signed:
  assumes "list_all (\<lambda>te. ru_self (te_run te) \<in> {None, Some self} \<and> ue_late (ru_os (te_run te)) = id) tes"
  shows "case agent_life E sha c tes (start_upgrader pk, fs) of (u, fs') \<Rightarrow>
    (fs' self = fs self \<and> \<not> ug_staged u \<or>
     fs' self = None \<and> \<not> ug_staged u \<and> list_ex (\<lambda>te. ru_windows (te_run te) \<and> rollback_fails (ru_os (te_run te))) tes \<or>
     ug_staged u \<and> ug_pk u \<noteq> [] \<and> (\<exists>f. fs' self = Some f \<and> signed_by E sha (ug_pk u) (af_data f))) \<and>
    (ug_pk u = pk \<or> pk = [] \<and> list_ex (\<lambda>te. cu_ServerPubkey (te_update te) = ug_pk u) tes) \<and>
    (if ac_managed c then fs' = fs \<and> ug_pk u = pk else True)"
  using agent_life_inv [OF assms, of E sha c pk fs] by (auto simp: life_inv_def loses_executable_def list_ex_iff)


section \<open>An example\<close>

definition ed0 :: ed25519 where
  "ed0 = \<lparr>ed_public = (\<lambda>seed. seed), ed_sign = (\<lambda>priv d. take 32 priv @ take 32 (d @ replicate 32 (CHR '' ''))),
     ed_verify = (\<lambda>pub d sig. sig = pub @ take 32 (d @ replicate 32 (CHR '' '')))\<rparr>"

definition seed0 :: string where "seed0 = replicate 32 (CHR ''k'')"
definition signer0 :: signer where "signer0 = signer_of (NewKeyFromSeed ed0 seed0)"
definition binary0 :: string where "binary0 = replicate 1024 (CHR ''b'')"

definition bins0 :: binaries where "bins0 = [''sm-agent-linux-amd64'' \<mapsto> binary0]"
definition sv0 :: dist_env where "sv0 = \<lparr>dt_hosts = henv0, dt_read = True\<rparr>"

definition os0 :: os_env where
  "os0 = \<lparr>ue_clean = True, ue_remove = True, ue_open = True, ue_root = True, ue_broken = None, ue_sync = True, ue_close = True,
     ue_chmod = True, ue_chown = True, ue_mid = id, ue_late = id, ue_reopen = True, ue_old = True, ue_rename1 = (\<lambda>_. True), ue_rename2 = (\<lambda>_. True),
     ue_rename3 = (\<lambda>_. True), ue_sigWrite = True, ue_sigChmod = True, ue_sigRename = True, ue_converge = True\<rparr>"

definition dirs0 :: dirs where
  "dirs0 p = Some \<lparr>di_IsDir = True, di_Sticky = False, di_Perm = 493, di_Uid = 0, di_Gid = 0\<rparr>"

definition run0 :: run_env where
  "run0 = \<lparr>ru_windows = False, ru_platform = ''linux-amd64'', ru_self = Some ''/opt/sm-agent'', ru_egid = 0, ru_dirs = dirs0, ru_url = True,
     ru_do = served ed0 sha0 bins0 (Some signer0) sv0 (hosts1, []), ru_os = os0\<rparr>"

definition exec0 :: "string \<Rightarrow> string option" where
  "exec0 d = Some (if d = binary0 then ''sm-agent 1.2.0'' else ''sm-agent 1.0.0'')"


definition file0 :: "string \<Rightarrow> afile" where
  "file0 d = \<lparr>af_data = d, af_perm = 420, af_root = True\<rparr>"

definition files0 :: files where
  "files0 = [''/opt/sm-agent'' \<mapsto> file0 ''first'', ''/root/sm-agent'' \<mapsto> file0 ''first'', ''/root/key'' \<mapsto> file0 (PublicKeyHex signer0 @ [CHR 0x0A])]"


lemma ed0_law: "ed_law ed0"
  by (auto simp: ed_law_def ed0_def min_def)

lemma signer0_signs: "signs_with ed0 signer0 seed0"
  by (simp add: signs_with_def signer0_def seed0_def)

lemma binary0_size: "1024 \<le> length binary0 \<and> length binary0 \<le> maxAgentBinaryBytes"
  by (simp add: binary0_def maxAgentBinaryBytes_def)

lemma os0_calm: "calm os0"
  by (simp add: calm_def os0_def)

lemma server0_ready: "server_ready sha0 bins0 sv0 hosts1 ''secret'' ''linux-amd64'' binary0"
proof -
  have "\<not> isl (snd (ResolveToken sha0 (dt_hosts sv0) ''secret'' hosts1))" by code_simp
  moreover have "dist_Open bins0 ''linux-amd64'' = Some binary0"
    by (simp add: dist_Open_def dist_Lookup_def platforms_def embedded_def bins0_def)
  ultimately show ?thesis using binary0_size by (simp add: server_ready_def sv0_def)
qed

lemma agent0_ready: "agent_ready run0 ''/opt/sm-agent''"
proof -
  have "verifyDirSafe False 0 dirs0 (path_Dir ''/opt/sm-agent'') = None" by code_simp
  then show ?thesis using os0_calm by (simp add: agent_ready_def run0_def)
qed

lemma version0: "stagedAgentVersion exec0 binary0 = Some ''1.2.0''" "stagedAgentVersion exec0 ''first'' = Some ''1.0.0''"
proof -
  have "fields_loop [] (trim_space ''sm-agent 1.2.0'') = [''sm-agent'', ''1.2.0'']"
    "fields_loop [] (trim_space ''sm-agent 1.0.0'') = [''sm-agent'', ''1.0.0'']" by code_simp+
  moreover have "''first'' \<noteq> binary0" by (rule notI, drule arg_cong [of _ _ length]) (simp add: binary0_def)
  ultimately show "stagedAgentVersion exec0 binary0 = Some ''1.2.0''" "stagedAgentVersion exec0 ''first'' = Some ''1.0.0''"
    by (simp_all add: stagedAgentVersion_def exec0_def)
qed



definition cfg0 :: agent_cfg where
  "cfg0 = \<lparr>ac_managed = False, ac_AutoUpgrade = None, ac_Version = ''1.0.0'', ac_ServerURL = ''https://sm.example'', ac_Token = ''secret''\<rparr>"

definition tick0 :: "string \<Rightarrow> tick_env" where
  "tick0 latest = \<lparr>te_run = run0, te_now = he_now henv0, te_after = he_now henv0, te_update = \<lparr>cu_LatestVersion = latest, cu_AutoUpgrade = None,
     cu_UpgradeNow = False, cu_ServerPubkey = PublicKeyHex signer0\<rparr>\<rparr>"

lemma life0:
  assumes "IsNewer latest (ac_Version c)" "latest \<noteq> []" "c \<in> {cfg0, cfg0\<lparr>ac_Version := v\<rparr>}"
  shows "\<exists>u fs'. agent_life ed0 sha0 c [tick0 latest] (start_upgrader [], files0) = (u, fs') \<and> ug_staged u \<and> ug_pk u = PublicKeyHex signer0 \<and>
    map_option af_data (fs' ''/opt/sm-agent'') = Some binary0"
proof -
  define opts where "opts = \<lparr>uo_ServerURL = ''https://sm.example'', uo_Token = ''secret'', uo_ServerPubkey = PublicKeyHex signer0\<rparr>"
  obtain fs' where r: "upgrade_Run ed0 sha0 run0 opts files0 = (fs', None)" "map_option af_data (fs' ''/opt/sm-agent'') = Some binary0"
    using Run_ready [OF agent0_ready, of ed0 sha0 bins0 signer0 sv0 hosts1 "[]" opts binary0 seed0 files0] server0_ready ed0_law signer0_signs
    by (auto simp: run0_def opts_def)
  have "fst (control_step ed0 sha0 c (tick0 latest) (start_upgrader [], files0)) =
      ((start_upgrader (PublicKeyHex signer0))\<lparr>ug_staged := True\<rparr>, fs')"
    using assms r(1) PublicKeyHex_not_empty(1) [OF signer0_signs ed0_law]
    by (auto simp: control_step_def start_upgrader_def pin_key_def setIfEmpty_def forget_failures_def attempt_upgrade_def tick0_def cfg0_def
        AutoUpgradeEnabled_def opts_def)
  with r(2) show ?thesis by (simp add: agent_life_def start_upgrader_def)
qed

theorem installed_agent_is_signed_witness:
  "case agent_life ed0 sha0 cfg0 [tick0 ''1.2.0''] (start_upgrader [], files0) of (u, fs') \<Rightarrow>
     ug_staged u \<and> ug_pk u = PublicKeyHex signer0 \<and> (\<exists>f. fs' ''/opt/sm-agent'' = Some f \<and> signed_by ed0 sha0 (ug_pk u) (af_data f))"
proof -
  have "IsNewer ''1.2.0'' ''1.0.0''" by code_simp
  then obtain u fs' where l: "agent_life ed0 sha0 cfg0 [tick0 ''1.2.0''] (start_upgrader [], files0) = (u, fs')" "ug_staged u"
      "ug_pk u = PublicKeyHex signer0"
    using life0 [of "''1.2.0''" cfg0 "[]"] by (auto simp: cfg0_def)
  have "list_all (\<lambda>te. ru_self (te_run te) \<in> {None, Some ''/opt/sm-agent''} \<and> ue_late (ru_os (te_run te)) = id) [tick0 ''1.2.0'']"
    by (simp add: tick0_def run0_def os0_def)
  from installed_agent_is_signed [where E = ed0 and sha = sha0 and c = cfg0 and pk = "[]" and fs = files0, OF this] l show ?thesis by auto
qed


section \<open>Where the upgrade falls short\<close>

text \<open>
  The version of the downloaded executable is not looked at: an agent of version 1.5.0 that is told of version 2.0.0 installs the signed
  build of version 1.2.0 that it is sent. The privileged copy is protected from this.
\<close>

lemma older_signed_build_installed:
  "IsNewer ''1.5.0'' ''1.2.0'' \<and> stagedAgentVersion exec0 binary0 = Some ''1.2.0'' \<and>
   (case agent_life ed0 sha0 (cfg0\<lparr>ac_Version := ''1.5.0''\<rparr>) [tick0 ''2.0.0''] (start_upgrader [], files0) of (u, fs') \<Rightarrow>
      ug_staged u \<and> map_option af_data (fs' ''/opt/sm-agent'') = Some binary0)"
proof -
  have v: "IsNewer ''2.0.0'' ''1.5.0''" "IsNewer ''1.5.0'' ''1.2.0''" by code_simp+
  have "IsNewer ''2.0.0'' (ac_Version (cfg0\<lparr>ac_Version := ''1.5.0''\<rparr>))" using v(1) by simp
  from life0 [OF this] v(2) version0(1) show ?thesis by fastforce
qed

text \<open>
  Between the check of the staged file and its renaming lies a moment in which whoever may write it can replace it; what is
  renamed then is installed unchecked.
\<close>

lemma late_change_installed:
  assumes "stage_download E sha False ev pk rp (self @ ''.new'') (remove_file (ue_clean ev) (self @ ''.new'') fs) = (fs1, None)"
    "ue_open ev" "ue_rename1 ev 0" "ue_late ev = (\<lambda>_. Some g)"
  shows "\<exists>fs'. install_download E sha False ev pk self rp fs = (fs', None) \<and> fs' self = Some g"
  using assms by (auto simp: install_download_def swap_binary_def rename_file_def disturb_def writeSignature_other)

text \<open>
  When on Windows neither the new executable nor, in the rollback, the old one can be put in place, the message names the new file as one
  to restore from, but it has been removed.
\<close>

lemma failed_rollback_loses_new:
  assumes "stage_download E sha True ev pk rp (self @ ''.new'') (remove_file (ue_clean ev) (self @ ''.new'') fs) = (fs1, None)" "fs1 self = Some f"
    "ue_late ev = id" "ue_open ev" "ue_remove ev" "ue_rename1 ev 9" "ue_rename2 ev = (\<lambda>_. False)" "ue_rename3 ev = (\<lambda>_. False)"
  shows "\<exists>fs'. install_download E sha True ev pk self rp fs = (fs', Some (SwapFailed RollbackFailed)) \<and>
    fs' self = None \<and> fs' (self @ ''.new'') = None \<and> fs' (self @ ''.old'') = Some f"
proof -
  let ?old = "self @ ''.old''"
  let ?fs2 = "(remove_file (ue_old ev) ?old fs1)(self := None, ?old := Some f)"
  have "rename_attempts n (\<lambda>_. False) a b fs = None" for n a b fs by (induction n) (simp_all add: rename_file_def split: option.split)
  then have never: "renameWithRetry (\<lambda>_. False) a b fs = None" for a b fs by (simp add: renameWithRetry_def)
  have ten: "10 = Suc 9" by simp
  have "renameWithRetry (ue_rename1 ev) self ?old (remove_file (ue_old ev) ?old fs1) = Some ?fs2"
    unfolding renameWithRetry_def ten rename_attempts.simps(2) using assms(2,6) by (simp add: rename_file_def file_simps)
  then have "swap_binary True ev self (self @ ''.new'') fs1 = (?fs2, Some RollbackFailed)"
    using assms(7,8) never by (simp add: swap_binary_def Let_def)
  then show ?thesis using assms(1,3-5) by (simp add: install_download_def file_simps)
qed

text \<open>
  A setting that is not in the configuration file yet is put at its end, so after a table it becomes an entry of that table.
\<close>

lemma setting_ends_in_table:
  "persistInterval 60 (Some (''token = 1'' @ CHR 0x0A # ''[tags]'' @ CHR 0x0A # ''role = 2'')) =
     Some (''token = 1'' @ CHR 0x0A # ''[tags]'' @ CHR 0x0A # ''role = 2'' @ CHR 0x0A # ''interval_s = 60'')"
  by code_simp

text \<open>Failed upgrades are tried again after a minute, two, four and so on up to an hour; the shift does not overflow into a short delay.\<close>

lemma upgradeBackoff_eq: "upgradeBackoff (1 + int k) = min Hour (Minute * 2 ^ k)"
proof (cases "k \<le> 30")
  case True
  have "list_all (\<lambda>k. upgradeBackoff (1 + int k) = min Hour (Minute * 2 ^ k)) [0..<31]" by code_simp
  moreover have "k \<in> set [0..<31]" using True by simp
  ultimately show ?thesis by (simp only: list_all_iff)
next
  case False
  then have "(2 :: int) ^ 6 \<le> 2 ^ k" by (intro power_increasing) simp_all
  with False show ?thesis by (simp add: upgradeBackoff_def Hour_def Minute_def Second_def min_def)
qed

end
