(* ===== verification/Spec2Isabelle.thy ===== *)
theory Spec2Isabelle
  imports Version Ban_Delivery Log_Source Backup_Node Alert_Machine Ingest_Handler Backup_Sched Api_Access Target_Owner Node_Access Agent_Release
begin

text \<open>
  ServerMonitor is a server and agents. An agent (\<open>cmd/agent\<close>, \<open>internal/agent\<close>) collects measurements, watches
  the log of sshd and bans addresses, runs restic backups, and may serve as a storage node for the
  backups of others. The server (\<open>cmd/server\<close>, \<open>internal/server\<close>) stores what agents send in PostgreSQL,
  evaluates alert rules, shows everything in a web interface and tells agents what to do. The packages
  under \<open>pkg\<close> are shared. This development models the parts in which the program's own decisions are made; it
  is translated from the Go sources function by function, with their names.

  \<^bold>\<open>Conventions.\<close> Instants and durations are integers (nanoseconds), \<open>time_Sub\<close> saturates and products that
  the code forms in \<open>int64\<close> are reduced with \<open>i64\<close> (\<open>u64\<close> for counters); addresses are words. A Go map is an association list with
  distinct keys, and where the code ranges over it the order of the list is the order chosen. A string is the list
  of its bytes. Everything outside the sources (clocks, random numbers, system calls, the database, HTTP, restic,
  cryptography) is a parameter: an environment record says what each call does, and theorems hold
  for every environment unless a hypothesis restricts it. A table of the database is a list or a map,
  a transaction takes effect as a whole or not at all. The histories of a store are sequences of operations that run one after the
  other, unless a theory says otherwise; what goes wrong when some overlap is shown in lemmas of their own. Errors are values. Loops are recursive functions, with fuel only
  where the code may not end (\<open>Fleet_Service.stream_loop\<close>; a page in a thousand events is proved enough).

  \<^bold>\<open>Shared.\<close> \<open>Go_Prelude\<close>: integers of Go, time, maps, strings, decimal numbers, and the lemmas on them that
  several parts use, collected in \<open>go_map\<close> and \<open>go_time\<close>. \<open>Netip\<close>: the addresses and prefixes of \<open>net/netip\<close>, parsed
  and printed. \<open>Version\<close> (\<open>pkg/version\<close>): the comparison of versions is a strict weak order. \<open>Metrics\<close>
  (\<open>pkg/metrics\<close>): numbers, names and units. \<open>Wire\<close> (\<open>pkg/wire\<close>): the messages of the ingest path.

  \<^bold>\<open>Banning addresses.\<close> \<open>Ban_Guard\<close> (\<open>internal/agent/ipban/guard.go\<close> and the server's copy of the tests): which addresses
  may be banned, proved equal to a reference condition, and equal on both sides. \<open>Ban_Tracker\<close> (\<open>tracker.go\<close>): failures, bans,
  escalation, pruning; a ban is decided exactly when the retry limit of failures of that address was seen within
  the find time, stays in force, and pruning is not observable. \<open>Ban_Manager\<close> (\<open>manager.go\<close>, \<open>enforcer.go\<close>): the control
  loop with every handler over a record of its state; its steps are arbitrary sequences of handlers, and the
  calls to the packet filter are recorded with the guard in force, which gives the safety
  property. \<open>Fleet_Service\<close> and \<open>Fleet_Laws\<close> (\<open>internal/server/ipban/service.go\<close>): the server's tables, reports, propagation to the fleet,
  settings and overrides, bans by hand, agent configurations, the stream of events. \<open>Transport\<close>
  (\<open>internal/agent/transport/client.go\<close>, \<open>internal/agent/spool/spool.go\<close>): sending, spooling, draining. \<open>Ban_Delivery\<close>
  composes buffer, client, spool and server: an event of an agent reaches the database exactly once or
  its loss is accounted for.

  \<open>Sshd_Parse\<close> (\<open>parse.go\<close>): the patterns for sshd's messages with a matcher, proved equal to a declarative reading relation;
  in the reports that name the user last before the address, a failed login is counted against the peer. \<open>Log_Source\<close> (\<open>source.go\<close>):
  journal and log files; of a log that is cut by reads, replaced and read again every line that is read is counted exactly once.

  \<^bold>\<open>Accounts and access.\<close> \<open>Auth\<close> (\<open>internal/server/auth/auth.go\<close>): accounts, sessions, lockout; sessions are
  characterised by the history of operations alone, and the passwords that can be tried are bounded by the time,
  the right ones among them and the failures that could not be recorded.
  \<open>Api_Access\<close> (\<open>internal/server/api/auth.go\<close>, \<open>csrf.go\<close>, \<open>security.go\<close>, \<open>limiter.go\<close>, \<open>router.go\<close>): the middleware as functions from
  handlers to handlers, the account handlers, the client's address, the audit log and the table of routes; handlers are
  polymorphic in the rest of the server's state, so the theorem on access holds for every handler.

  \<^bold>\<open>Measurements.\<close> \<open>Ingest_Batcher\<close> (\<open>internal/server/ingest/batcher.go\<close>): the queue with its goroutine as a step relation
  \<open>bstep\<close>; reachable states satisfy its invariant, by rule induction, for every interleaving. \<open>Host_Store\<close>
  (\<open>internal/server/storage/hosts.go\<close>, \<open>api/middleware.go\<close>): the table of hosts behind its cache. \<open>Sse_Hub\<close> (\<open>internal/server/sse\<close>): live
  updates. \<open>Ingest_Handler\<close> (\<open>internal/server/api/ingest.go\<close> and the conversions of the batcher) composes these into the
  request. \<open>Alert_Engine\<close> (\<open>internal/server/alerting\<close>): the evaluator statement by statement. \<open>Alert_Machine\<close>: the
  abstract alert machine, the locale \<open>alarm_impl\<close> that says what an implementation of it has to satisfy,
  its interpretation on the evaluator, and what follows for histories of evaluations.

  \<^bold>\<open>Backups.\<close> \<open>Blob_Store\<close> (\<open>pkg/restserver/blobstore.go\<close>, \<open>diskstore.go\<close>): objects on a disk whose calls may fail and that
  other uploads change meanwhile. \<open>Node_Registry\<close> (\<open>localRegistry\<close> in \<open>internal/agent/backupnode/manager.go\<close>): credentials,
  quotas, usage. \<open>Rest_Server\<close> (\<open>pkg/restserver/server.go\<close>): the gateway over any registry that satisfies the
  locale of its interface, interpreted on \<open>Node_Registry\<close>; with or without quotas, as long as usages stay below \<open>2^63\<close>. \<open>Backup_Node\<close> (the rest of \<open>manager.go\<close>): reconciliation with the server,
  start of the endpoint, peers of the tunnel. \<open>Wg_Tunnel\<close> (\<open>pkg/wgtunnel\<close>): keys and device texts. \<open>Backup_Sched\<close>
  (\<open>internal/agent/backupsched\<close>): when backups and checks run.

  \<open>Tunnel_Peers\<close> (\<open>internal/server/storage/tunnel.go\<close>, \<open>pkg/restserver/tunnel.go\<close>, enrolment and revocation in
  \<open>api/tunnel.go\<close>): the addresses of the backup tunnel; its steps are enrolments, revocations and deletions of hosts,
  and after any of them the device routes what the table says. \<open>Direct_Prefix\<close> (\<open>internal/server/storage/backupdestinations.go\<close>): the
  prefixes of repositories in a bucket. \<open>Backup_Targets\<close> (\<open>storage/backuptargets.go\<close>, \<open>nodes.go\<close> and the tables of
  \<open>backupdestinations.go\<close>): repositories, storage nodes and destinations, statement by statement, with the cache of
  credentials. \<open>Target_Laws\<close>: the relation \<open>repo_step\<close> of all operations, the invariant of table and cache, which credentials
  open a repository; and the locale of the gateway's registry interpreted on this store too, which gives the accounting of the server.
  \<open>Target_Api\<close> (\<open>api/backuptargets.go\<close>, \<open>api/backupdestinations.go\<close>) and \<open>Node_Api\<close> (the rest of \<open>api/tunnel.go\<close>): the handlers of the
  administrator and of storage nodes. \<open>Target_Owner\<close>: the relation \<open>site_step\<close> of all these requests and those of restic on one disk and
  one set of tables; stored objects keep their repository. \<open>Node_Access\<close>: server and node composed, the configuration on its way to
  the credentials of the node and the usage on its way back.

  \<^bold>\<open>Upgrades of agents.\<close> \<open>Agent_Sig\<close> (\<open>pkg/agentsig\<close>): signatures and the server's signing key, over any signature scheme that
  satisfies \<open>ed_law\<close>. \<open>Agent_Dist\<close> (\<open>internal/server/agentdist\<close>, \<open>api/agent_dist.go\<close>): the download. \<open>Agent_Upgrade\<close>
  (\<open>internal/agent/upgrade\<close>, the loop over control updates in \<open>cmd/agent/main.go\<close>): checks of directories, staging, verification and
  replacement of the executable on Unix and Windows, the privileged copy, on files whose calls may fail. \<open>Agent_Install\<close>: what single
  steps keep, and the relation \<open>priv_run\<close> of synchronisations among other processes. \<open>Agent_Release\<close>: only signed executables are installed
  (if others leave a checked file alone until it is renamed),
  the privileged copy never gets older, and server and agent composed, when nothing fails, bring the server's executable to both places.

  \<^bold>\<open>Not modelled\<close>: what only calls other systems or presents data (collectors of measurements, the web
  interface, notification senders, the programs' main functions, scripts), third-party code (the router, the
  database driver, the WireGuard device, the packet filter, restic), and parts left to extend: they are listed as
  components with the reason.
\<close>

end
